(* ===== verification/Prelude.thy ===== *)
theory Prelude
  imports Main "HOL-Library.Word"
begin

text \<open>
  What every component of the development shares: the model of Rust's scalar and
  container types, \<open>Result\<close> with its \<open>?\<close> operator, hash maps as association lists with
  distinct keys, and the interface of a state machine with an invariant.

  \<^item> \<open>u32\<close>, \<open>u64\<close> are words, so that \<open>wrapping_add\<close> and \<open>checked_add\<close> have their
    machine meaning; \<open>usize\<close> lengths and indices are \<open>nat\<close> (they count objects in memory).
  \<^item> An \<open>ulid\<close> identity (session, turn, history item, request) is only compared, so it is
    a \<open>nat\<close>.
  \<^item> A Rust string is the list of its Unicode scalar values, a \<open>ustr\<close>; \<open>lit\<close> turns an
    ASCII literal into one.
\<close>

section \<open>Scalars, identities and strings\<close>

type_synonym u32 = "32 word"
type_synonym u64 = "64 word"
type_synonym ulid = nat
type_synonym session_id = ulid
type_synonym turn_id = ulid
type_synonym history_item_id = ulid
type_synonym uchar = nat
type_synonym ustr = "uchar list"

definition lit :: "string \<Rightarrow> ustr" where
  "lit s = map of_char s"

text \<open>\<open>u64::checked_add(1)\<close>: \<open>None\<close> at the largest value.\<close>

definition checked_succ :: "'a::len word \<Rightarrow> 'a word option" where
  "checked_succ n = (if n = - 1 then None else Some (n + 1))"

definition saturating_succ :: "'a::len word \<Rightarrow> 'a word" where
  "saturating_succ n = (if n = - 1 then n else n + 1)"

definition saturating_pred :: "'a::len word \<Rightarrow> 'a word" where
  "saturating_pred n = (if n = 0 then 0 else n - 1)"

lemma checked_succ_unat:
  assumes "checked_succ n = Some m"
  shows "unat m = Suc (unat n)"
proof -
  from assms have "n \<noteq> - 1" and m: "m = n + 1"
    by (auto simp: checked_succ_def split: if_splits)
  then have "1 + n \<noteq> 0"
    by (metis add.commute add_eq_0_iff)
  then show ?thesis
    using m by (simp add: unatSuc add.commute)
qed

lemma checked_succ_less: "checked_succ n = Some m \<Longrightarrow> n < m"
  by (simp add: checked_succ_unat word_less_nat_alt)

section \<open>Result values\<close>

type_synonym ('a, 'e) result = "'e + 'a"

abbreviation Ok :: "'a \<Rightarrow> ('a, 'e) result" where "Ok \<equiv> Inr"
abbreviation Err :: "'e \<Rightarrow> ('a, 'e) result" where "Err \<equiv> Inl"

text \<open>The \<open>?\<close> operator: continue with the value, return the error early.\<close>

definition and_then :: "('a, 'e) result \<Rightarrow> ('a \<Rightarrow> ('b, 'e) result) \<Rightarrow> ('b, 'e) result" where
  "and_then r f = (case r of Inl e \<Rightarrow> Err e | Inr x \<Rightarrow> f x)"

lemma and_then_simps [simp]:
  "and_then (Ok x) f = f x"
  "and_then (Err e) f = Err e"
  by (simp_all add: and_then_def)

lemma and_then_Ok_iff: "and_then r f = Ok y \<longleftrightarrow> (\<exists>x. r = Ok x \<and> f x = Ok y)"
  by (cases r) simp_all

definition is_ok :: "('a, 'e) result \<Rightarrow> bool" where
  "is_ok r = (case r of Inl _ \<Rightarrow> False | Inr _ \<Rightarrow> True)"

lemma is_ok_simps [simp]: "is_ok (Ok x)" "\<not> is_ok (Err e)"
  by (simp_all add: is_ok_def)

section \<open>Hash maps\<close>

text \<open>
  A \<open>HashMap\<close> is an association list whose keys are distinct. The order of the list stands
  for the unspecified iteration order; no operation of the model depends on it beyond what
  the source sorts explicitly.
\<close>

type_synonym ('k, 'v) hmap = "('k \<times> 'v) list"

abbreviation hm_get :: "('k, 'v) hmap \<Rightarrow> 'k \<Rightarrow> 'v option" where "hm_get \<equiv> map_of"

abbreviation hm_keys :: "('k, 'v) hmap \<Rightarrow> 'k list" where "hm_keys m \<equiv> map fst m"

definition hm_contains :: "('k, 'v) hmap \<Rightarrow> 'k \<Rightarrow> bool" where
  "hm_contains m k = (map_of m k \<noteq> None)"

text \<open>\<open>get_mut\<close> followed by an assignment through the reference.\<close>

definition hm_modify :: "'k \<Rightarrow> ('v \<Rightarrow> 'v) \<Rightarrow> ('k, 'v) hmap \<Rightarrow> ('k, 'v) hmap" where
  "hm_modify k f m = map (\<lambda>(k', v). (k', if k' = k then f v else v)) m"

definition hm_insert :: "'k \<Rightarrow> 'v \<Rightarrow> ('k, 'v) hmap \<Rightarrow> ('k, 'v) hmap" where
  "hm_insert k v m = (if hm_contains m k then hm_modify k (\<lambda>_. v) m else m @ [(k, v)])"

definition hm_remove :: "'k \<Rightarrow> ('k, 'v) hmap \<Rightarrow> ('k, 'v) hmap" where
  "hm_remove k m = filter (\<lambda>(k', _). k' \<noteq> k) m"

lemma hm_contains_iff: "hm_contains m k \<longleftrightarrow> k \<in> fst ` set m"
  by (simp add: hm_contains_def map_of_eq_None_iff)

lemma hm_keys_modify [simp]: "hm_keys (hm_modify k f m) = hm_keys m"
  by (induction m) (auto simp: hm_modify_def)

lemma hm_get_modify [simp]:
  "hm_get (hm_modify k f m) k' = (if k' = k then map_option f (hm_get m k) else hm_get m k')"
  by (induction m) (auto simp: hm_modify_def)

lemma hm_contains_modify [simp]: "hm_contains (hm_modify k f m) k' = hm_contains m k'"
  by (simp add: hm_contains_def)

lemma length_hm_modify [simp]: "length (hm_modify k f m) = length m"
  by (simp add: hm_modify_def)

lemma hm_get_insert [simp]:
  "hm_get (hm_insert k v m) k' = (if k' = k then Some v else hm_get m k')"
  by (auto simp: hm_insert_def hm_contains_def map_add_def split: option.split)

lemma hm_get_remove [simp]: "hm_get (hm_remove k m) k' = (if k' = k then None else hm_get m k')"
  by (induction m) (auto simp: hm_remove_def)

lemma distinct_hm_insert: "distinct (hm_keys m) \<Longrightarrow> distinct (hm_keys (hm_insert k v m))"
  by (auto simp: hm_insert_def hm_contains_iff)

lemma distinct_hm_remove: "distinct (hm_keys m) \<Longrightarrow> distinct (hm_keys (hm_remove k m))"
  by (induction m) (auto simp: hm_remove_def)

lemma set_hm_modify:
  "distinct (hm_keys m) \<Longrightarrow>
     set (hm_modify k f m) = {(k', v). (k', v) \<in> set m \<and> k' \<noteq> k} \<union> {(k, f v) |v. (k, v) \<in> set m}"
  by (induction m) (auto simp: hm_modify_def)

section \<open>State machines with an invariant\<close>

text \<open>
  The interface every stateful component of the development offers: an initial predicate, a
  step relation with one rule per operation, and an invariant that the operations keep. What
  follows for every reachable state is proved once, here.
\<close>

locale invariant_machine =
  fixes init :: "'s \<Rightarrow> bool"
    and step :: "'s \<Rightarrow> 's \<Rightarrow> bool"
    and invar :: "'s \<Rightarrow> bool"
  assumes init_invar: "init s \<Longrightarrow> invar s"
    and step_invar: "invar s \<Longrightarrow> step s t \<Longrightarrow> invar t"
begin

lemma steps_invar: "step\<^sup>*\<^sup>* s t \<Longrightarrow> invar s \<Longrightarrow> invar t"
  by (induction rule: rtranclp_induct) (auto intro: step_invar)

lemma reachable_invar: "init s \<Longrightarrow> step\<^sup>*\<^sup>* s t \<Longrightarrow> invar t"
  by (blast intro: steps_invar init_invar)

text \<open>A property that every step from an invariant state keeps is kept by every run.\<close>

lemma steps_stable:
  assumes keep: "\<And>s t. invar s \<Longrightarrow> P s \<Longrightarrow> step s t \<Longrightarrow> P t"
    and run: "step\<^sup>*\<^sup>* s t" and "invar s" and "P s"
  shows "P t"
  using run
proof (induction rule: rtranclp_induct)
  case base
  show ?case by (rule \<open>P s\<close>)
next
  case (step t u)
  from step.hyps(1) \<open>invar s\<close> have "invar t" by (rule steps_invar)
  then show ?case using step.IH step.hyps(2) by (rule keep)
qed

end

end
