(* ===== verification/Run_Classification.thy ===== *)
theory Run_Classification
  imports Prelude
begin

text \<open>
  The terminal classification of one run (\<open>src/src/runtime/cancel.rs\<close>): what a run owner
  may still become, who may decide it and in which order. This theory holds the data and the
  part of each method that runs while the classification mutex is held, as a function from
  the old classification to the new one; the theory \<open>Run_Control\<close> adds the wake token and
  the objects around it. A branch the source marks \<open>unreachable!\<close>, and a failed
  \<open>debug_assert!\<close>, is \<open>None\<close>, so that reaching it is visible.
\<close>

section \<open>Data\<close>

datatype turn_interruption_cause = ApprovalAborted | UserStop | AgentInterrupted | TreeStopped

datatype run_cancellation_cause =
    Interruption turn_interruption_cause
  | Superseded
  | Failure ustr

datatype run_reservation_kind =
    SuccessCommit
  | ToolEffectAdmission
  | ToolEffectCommit
  | ToolSettlement

record run_cancel_deferral =
  primary :: run_reservation_kind
  secondary :: "run_reservation_kind option"

datatype run_cancel_outcome = Applied | Deferred run_cancel_deferral | Rejected

datatype run_classification =
    Open
  | SuccessCommitting "run_cancellation_cause option"
  | EffectAdmitting "run_cancellation_cause option"
  | EffectCommitting "run_cancellation_cause option"
  | ToolSettling "run_cancellation_cause option"
  | SuccessSealed
  | Cancelled run_cancellation_cause

datatype cancel_plan = Apply | Defer run_reservation_kind

definition single :: "run_reservation_kind \<Rightarrow> run_cancel_deferral" where
  "single k = \<lparr>primary = k, secondary = None\<rparr>"

definition is_success_commit_only :: "run_cancel_deferral \<Rightarrow> bool" where
  "is_success_commit_only d \<longleftrightarrow>
     primary d = SuccessCommit \<and>
     (case secondary d of None \<Rightarrow> True | Some k \<Rightarrow> k = SuccessCommit)"

fun summary :: "turn_interruption_cause \<Rightarrow> ustr" where
  "summary ApprovalAborted = lit ''permission approval aborted by user''"
| "summary UserStop = lit ''run stopped by user''"
| "summary AgentInterrupted = lit ''agent interrupted''"
| "summary TreeStopped = lit ''agent tree stopped''"

section \<open>Reading a classification\<close>

definition cause_of :: "run_classification \<Rightarrow> run_cancellation_cause option" where
  "cause_of c = (case c of Cancelled x \<Rightarrow> Some x | _ \<Rightarrow> None)"

definition is_terminal :: "run_classification \<Rightarrow> bool" where
  "is_terminal c = (case c of SuccessSealed \<Rightarrow> True | Cancelled _ \<Rightarrow> True | _ \<Rightarrow> False)"

text \<open>The reservation a classification stands for and the cause waiting behind it.\<close>

definition reservation_of ::
  "run_classification \<Rightarrow> (run_reservation_kind \<times> run_cancellation_cause option) option" where
  "reservation_of c =
     (case c of
        SuccessCommitting p \<Rightarrow> Some (SuccessCommit, p)
      | EffectAdmitting p \<Rightarrow> Some (ToolEffectAdmission, p)
      | EffectCommitting p \<Rightarrow> Some (ToolEffectCommit, p)
      | ToolSettling p \<Rightarrow> Some (ToolSettlement, p)
      | _ \<Rightarrow> None)"

section \<open>Requesting a cancellation\<close>

definition defer_cause ::
  "(run_cancellation_cause option \<Rightarrow> run_classification) \<Rightarrow> run_reservation_kind \<Rightarrow>
   run_cancellation_cause option \<Rightarrow> run_cancellation_cause \<Rightarrow>
   run_classification \<times> run_cancel_outcome" where
  "defer_cause reserved kind pending cause =
     (case pending of
        None \<Rightarrow> (reserved (Some cause), Deferred (single kind))
      | Some p \<Rightarrow>
          (reserved pending, if p = cause then Deferred (single kind) else Rejected))"

fun request_cancel_cls ::
  "run_classification \<Rightarrow> run_cancellation_cause \<Rightarrow> run_classification \<times> run_cancel_outcome"
where
  "request_cancel_cls Open cause = (Cancelled cause, Applied)"
| "request_cancel_cls (SuccessCommitting p) cause =
     defer_cause SuccessCommitting SuccessCommit p cause"
| "request_cancel_cls (EffectAdmitting p) cause =
     defer_cause EffectAdmitting ToolEffectAdmission p cause"
| "request_cancel_cls (EffectCommitting p) cause =
     defer_cause EffectCommitting ToolEffectCommit p cause"
| "request_cancel_cls (ToolSettling p) cause =
     defer_cause ToolSettling ToolSettlement p cause"
| "request_cancel_cls SuccessSealed cause = (SuccessSealed, Rejected)"
| "request_cancel_cls (Cancelled x) cause = (Cancelled x, Rejected)"

text \<open>\<open>commit_cancel_local\<close>: the durable callback runs only on an open owner, under the lock.\<close>

definition commit_cancel_cls ::
  "run_classification \<Rightarrow> run_cancellation_cause \<Rightarrow> (unit, 'e) result \<Rightarrow>
   run_classification \<times> (run_cancel_outcome, 'e) result" where
  "commit_cancel_cls c cause durable_commit =
     (if c \<noteq> Open then (c, Ok Rejected)
      else case durable_commit of
             Inl e \<Rightarrow> (c, Err e)
           | Inr _ \<Rightarrow> (Cancelled cause, Ok Applied))"

section \<open>Reservations\<close>

definition begin_tool_effect_admission_cls :: "run_classification \<Rightarrow> run_classification option" where
  "begin_tool_effect_admission_cls c = (if c = Open then Some (EffectAdmitting None) else None)"

definition begin_tool_settlement_cls :: "run_classification \<Rightarrow> run_classification option" where
  "begin_tool_settlement_cls c = (if c = Open then Some (ToolSettling None) else None)"

definition begin_tool_effect_commit_cls :: "run_classification \<Rightarrow> run_classification option" where
  "begin_tool_effect_commit_cls c = (if c = Open then Some (EffectCommitting None) else None)"

definition begin_success_commit_cls :: "run_classification \<Rightarrow> run_classification option" where
  "begin_success_commit_cls c = (if c = Open then Some (SuccessCommitting None) else None)"

definition reopen_or_publish :: "run_cancellation_cause option \<Rightarrow> run_classification" where
  "reopen_or_publish pending = (case pending of None \<Rightarrow> Open | Some x \<Rightarrow> Cancelled x)"

fun release_success_commit_cls ::
  "run_classification \<Rightarrow> run_classification \<times> run_cancellation_cause option" where
  "release_success_commit_cls (SuccessCommitting p) = (reopen_or_publish p, p)"
| "release_success_commit_cls c = (c, None)"

fun release_tool_settlement_cls :: "run_classification \<Rightarrow> run_classification \<times> bool" where
  "release_tool_settlement_cls (ToolSettling p) = (reopen_or_publish p, p \<noteq> None)"
| "release_tool_settlement_cls c = (c, False)"

fun release_tool_effect_commit_cls :: "run_classification \<Rightarrow> run_classification \<times> bool" where
  "release_tool_effect_commit_cls (EffectCommitting p) = (reopen_or_publish p, p \<noteq> None)"
| "release_tool_effect_commit_cls c = (c, False)"

definition lost_admission_owner :: run_cancellation_cause where
  "lost_admission_owner = Failure (lit ''tool effect admission lost its runtime owner'')"

fun resolve_tool_effect_admission_cls ::
  "run_classification \<Rightarrow> run_classification \<times> (unit, run_cancellation_cause) result" where
  "resolve_tool_effect_admission_cls (EffectAdmitting p) =
     (reopen_or_publish p, case p of None \<Rightarrow> Ok () | Some x \<Rightarrow> Err x)"
| "resolve_tool_effect_admission_cls c = (c, Err lost_admission_owner)"

definition seal_success_cls :: "run_classification \<Rightarrow> run_classification \<times> bool" where
  "seal_success_cls c = (if c = Open then (SuccessSealed, True) else (c, False))"

fun seal_reserved_success_cls :: "run_classification \<Rightarrow> run_classification \<times> bool" where
  "seal_reserved_success_cls (SuccessCommitting p) = (SuccessSealed, True)"
| "seal_reserved_success_cls c = (c, False)"

fun resolve_success_commit_cls ::
  "run_classification \<Rightarrow> run_cancellation_cause \<Rightarrow> bool \<Rightarrow>
   run_classification \<times> run_cancellation_cause option" where
  "resolve_success_commit_cls (SuccessCommitting p) fallback_cause preserve_pending =
     (let cause = (if preserve_pending
                   then (case p of None \<Rightarrow> fallback_cause | Some x \<Rightarrow> x)
                   else fallback_cause)
      in (Cancelled cause, Some cause))"
| "resolve_success_commit_cls c fallback_cause preserve_pending = (c, None)"

section \<open>Linked cancellation\<close>

fun cancellation_plan :: "run_classification \<Rightarrow> cancel_plan option" where
  "cancellation_plan Open = Some Apply"
| "cancellation_plan (SuccessCommitting p) =
     (case p of None \<Rightarrow> Some (Defer SuccessCommit) | Some _ \<Rightarrow> None)"
| "cancellation_plan (EffectAdmitting p) =
     (case p of None \<Rightarrow> Some (Defer ToolEffectAdmission) | Some _ \<Rightarrow> None)"
| "cancellation_plan (EffectCommitting p) =
     (case p of None \<Rightarrow> Some (Defer ToolEffectCommit) | Some _ \<Rightarrow> None)"
| "cancellation_plan (ToolSettling p) =
     (case p of None \<Rightarrow> Some (Defer ToolSettlement) | Some _ \<Rightarrow> None)"
| "cancellation_plan SuccessSealed = None"
| "cancellation_plan (Cancelled _) = None"

text \<open>
  \<open>None\<close> is the panic of a failed \<open>debug_assert!(pending_cause.is_none())\<close> or of the
  \<open>unreachable!\<close> arm; the flag of a result says whether the caller must wake.
\<close>

fun apply_cancellation_plan ::
  "run_classification \<Rightarrow> run_cancellation_cause \<Rightarrow> cancel_plan \<Rightarrow>
   (run_classification \<times> bool) option" where
  "apply_cancellation_plan c cause Apply = Some (Cancelled cause, True)"
| "apply_cancellation_plan (SuccessCommitting None) cause (Defer _) =
     Some (SuccessCommitting (Some cause), False)"
| "apply_cancellation_plan (EffectAdmitting None) cause (Defer _) =
     Some (EffectAdmitting (Some cause), False)"
| "apply_cancellation_plan (EffectCommitting None) cause (Defer _) =
     Some (EffectCommitting (Some cause), False)"
| "apply_cancellation_plan (ToolSettling None) cause (Defer _) =
     Some (ToolSettling (Some cause), False)"
| "apply_cancellation_plan _ cause (Defer _) = None"

record linked_result =
  linked_primary :: run_classification
  linked_secondary :: run_classification
  linked_outcome :: run_cancel_outcome
  wake_primary :: bool
  wake_secondary :: bool

definition linked_cancellation_locked ::
  "run_classification \<Rightarrow> run_cancellation_cause \<Rightarrow> run_classification \<Rightarrow> run_cancellation_cause \<Rightarrow>
   linked_result option" where
  "linked_cancellation_locked p pc s sc =
     (let rejected = \<lparr>linked_primary = p, linked_secondary = s, linked_outcome = Rejected,
                      wake_primary = False, wake_secondary = False\<rparr>
      in case cancellation_plan p of
           None \<Rightarrow> Some rejected
         | Some primary_plan \<Rightarrow>
             (case cancellation_plan s of
                None \<Rightarrow> Some rejected
              | Some secondary_plan \<Rightarrow>
                  (case (apply_cancellation_plan p pc primary_plan,
                         apply_cancellation_plan s sc secondary_plan) of
                     (Some (p', wp), Some (s', ws)) \<Rightarrow>
                       map_option
                         (\<lambda>outcome. \<lparr>linked_primary = p', linked_secondary = s',
                                     linked_outcome = outcome,
                                     wake_primary = wp, wake_secondary = ws\<rparr>)
                         (if wp \<or> ws then Some Applied
                          else case (primary_plan, secondary_plan) of
                                 (Defer a, Defer b) \<Rightarrow>
                                   Some (Deferred \<lparr>primary = a, secondary = Some b\<rparr>)
                               | _ \<Rightarrow> None)
                   | _ \<Rightarrow> None)))"

text \<open>The branch of \<open>request_linked_cancellation\<close> for one owner named twice.\<close>

definition same_owner_cancellation ::
  "run_classification \<Rightarrow> run_cancellation_cause \<Rightarrow> run_cancellation_cause \<Rightarrow>
   (run_classification \<times> run_cancel_outcome \<times> bool) option" where
  "same_owner_cancellation c primary_cause secondary_cause =
     (if primary_cause \<noteq> secondary_cause then Some (c, Rejected, False)
      else case cancellation_plan c of
             None \<Rightarrow> Some (c, Rejected, False)
           | Some plan \<Rightarrow>
               (case apply_cancellation_plan c primary_cause plan of
                  None \<Rightarrow> None
                | Some (c', wake) \<Rightarrow>
                    (if wake then Some (c', Applied, True)
                     else case plan of
                            Defer kind \<Rightarrow> Some (c', Deferred (single kind), False)
                          | Apply \<Rightarrow> None)))"

section \<open>The contract of a reservation\<close>

text \<open>
  The four reservations share one contract: they can be taken on an open owner only, a
  cancellation that arrives meanwhile is remembered once, and giving the reservation back
  publishes what was remembered. \<open>request_all\<close> is a sequence of competing producers.
\<close>

fun request_all :: "run_classification \<Rightarrow> run_cancellation_cause list \<Rightarrow> run_classification" where
  "request_all c [] = c"
| "request_all c (x # xs) = request_all (fst (request_cancel_cls c x)) xs"

locale reservation =
  fixes reserved :: "run_cancellation_cause option \<Rightarrow> run_classification"
    and kind :: run_reservation_kind
    and start :: "run_classification \<Rightarrow> run_classification option"
    and give_back :: "run_classification \<Rightarrow> run_classification"
  assumes start_open: "start c = (if c = Open then Some (reserved None) else None)"
    and request_reserved: "request_cancel_cls (reserved p) x = defer_cause reserved kind p x"
    and give_back_reserved: "give_back (reserved p) = reopen_or_publish p"
    and give_back_other: "(\<And>p. c \<noteq> reserved p) \<Longrightarrow> give_back c = c"
begin

lemma request_all_reserved:
  "request_all (reserved p) xs =
     reserved (case p of Some x \<Rightarrow> Some x | None \<Rightarrow> (case xs of [] \<Rightarrow> None | x # _ \<Rightarrow> Some x))"
proof (induction xs arbitrary: p)
  case Nil
  show ?case by (cases p) simp_all
next
  case (Cons x xs)
  show ?case
    by (cases p) (simp_all add: request_reserved defer_cause_def Cons.IH)
qed

text \<open>However many producers compete, the first one is the one that is published.\<close>

lemma first_cause_published:
  assumes "start c = Some c'"
  shows "c = Open \<and>
         give_back (request_all c' xs) = (case xs of [] \<Rightarrow> Open | x # _ \<Rightarrow> Cancelled x)"
proof -
  from assms have "c = Open" and "c' = reserved None"
    by (auto simp: start_open split: if_splits)
  then show ?thesis
    by (cases xs)
       (simp_all add: request_all_reserved request_reserved defer_cause_def
         give_back_reserved reopen_or_publish_def)
qed

text \<open>While the reservation is held no producer is told that its cause was applied.\<close>

lemma reserved_never_applies: "snd (request_cancel_cls (reserved p) x) \<noteq> Applied"
  by (cases p) (simp_all add: request_reserved defer_cause_def)

lemma deferred_is_kept:
  assumes "snd (request_cancel_cls (reserved p) x) = Deferred d"
  shows "d = single kind \<and> give_back (fst (request_cancel_cls (reserved p) x)) = Cancelled x"
  using assms
  by (cases p)
     (auto simp: request_reserved defer_cause_def give_back_reserved reopen_or_publish_def
           split: if_splits)

end

interpretation success_commit: reservation SuccessCommitting SuccessCommit
  begin_success_commit_cls "\<lambda>c. fst (release_success_commit_cls c)"
proof unfold_locales
  fix c :: run_classification
  assume "\<And>p. c \<noteq> SuccessCommitting p"
  then show "fst (release_success_commit_cls c) = c" by (cases c) auto
qed (simp_all add: begin_success_commit_cls_def)

interpretation effect_admission: reservation EffectAdmitting ToolEffectAdmission
  begin_tool_effect_admission_cls "\<lambda>c. fst (resolve_tool_effect_admission_cls c)"
proof unfold_locales
  fix c :: run_classification
  assume "\<And>p. c \<noteq> EffectAdmitting p"
  then show "fst (resolve_tool_effect_admission_cls c) = c" by (cases c) auto
qed (simp_all add: begin_tool_effect_admission_cls_def)

interpretation effect_commit: reservation EffectCommitting ToolEffectCommit
  begin_tool_effect_commit_cls "\<lambda>c. fst (release_tool_effect_commit_cls c)"
proof unfold_locales
  fix c :: run_classification
  assume "\<And>p. c \<noteq> EffectCommitting p"
  then show "fst (release_tool_effect_commit_cls c) = c" by (cases c) auto
qed (simp_all add: begin_tool_effect_commit_cls_def)

interpretation settlement: reservation ToolSettling ToolSettlement
  begin_tool_settlement_cls "\<lambda>c. fst (release_tool_settlement_cls c)"
proof unfold_locales
  fix c :: run_classification
  assume "\<And>p. c \<noteq> ToolSettling p"
  then show "fst (release_tool_settlement_cls c) = c" by (cases c) auto
qed (simp_all add: begin_tool_settlement_cls_def)

section \<open>Terminal classifications and linked cancellation\<close>

lemma cause_of_Some [simp]: "cause_of c = Some x \<longleftrightarrow> c = Cancelled x"
  by (cases c) (simp_all add: cause_of_def)

lemma cause_of_Cancelled [simp]: "cause_of (Cancelled x) = Some x"
  by (simp add: cause_of_def)

lemma request_cancel_terminal [simp]:
  "is_terminal c \<Longrightarrow> request_cancel_cls c x = (c, Rejected)"
  by (cases c) (simp_all add: is_terminal_def)

lemma request_cancel_Applied:
  "snd (request_cancel_cls c x) = Applied \<longleftrightarrow> c = Open"
  by (cases c) (auto simp: defer_cause_def split: option.splits)

lemma request_cancel_cls_cancelled:
  "fst (request_cancel_cls c x) = Cancelled y \<longleftrightarrow> (c = Open \<and> y = x) \<or> c = Cancelled y"
  by (cases c) (auto simp: defer_cause_def split: option.splits)

lemma request_cancel_cls_sealed:
  "fst (request_cancel_cls c x) = SuccessSealed \<longleftrightarrow> c = SuccessSealed"
  by (cases c) (auto simp: defer_cause_def split: option.splits)

text \<open>The plan decides, and applying it never reaches a branch marked unreachable.\<close>

lemma apply_planned:
  assumes "cancellation_plan c = Some plan"
  shows "\<exists>c' wake. apply_cancellation_plan c x plan = Some (c', wake) \<and>
           wake = (plan = Apply) \<and> c' = fst (request_cancel_cls c x)"
  using assms
  by (cases c) (auto simp: defer_cause_def split: option.splits)

lemma plan_none_keeps:
  "cancellation_plan c = None \<Longrightarrow> fst (request_cancel_cls c x) = c"
  by (cases c) (auto simp: defer_cause_def split: option.splits)

lemma plan_Apply_iff: "cancellation_plan c = Some Apply \<longleftrightarrow> c = Open"
  by (cases c) (auto split: option.splits)

end
