(* ===== verification/Root_Admission.thy ===== *)
theory Root_Admission
  imports Run_Classification
begin

text \<open>
  Root admissions and the Stop seal of one run owner (\<open>src/src/runtime/cancel.rs\<close>): the
  state behind the \<open>root_admission\<close> mutex, the two-phase admission (published before the
  database call, settled after it) and the single-flight Stop lease with its snapshot of the
  durable candidates. Operations that also hold the classification lock take the
  classification as an argument.
\<close>

section \<open>Data\<close>

type_synonym root_admission_plan_id = u64
type_synonym root_admission_stop_seal_id = u64

record root_admission_plan =
  plan_id :: root_admission_plan_id
  plan_session_id :: session_id
  plan_turn_id :: turn_id

record root_admission_receipt =
  receipt_session_id :: session_id
  receipt_turn_id :: turn_id
  revision :: u64

record root_admission_stop_plan =
  seal_id :: root_admission_stop_seal_id
  stop_last_admitted :: "root_admission_receipt option"
  stop_pending :: "root_admission_plan option"

record root_admission_snapshot =
  snap_last_admitted :: "root_admission_receipt option"
  snap_pending :: "root_admission_plan option"
  snap_stop_seal_id :: "root_admission_stop_seal_id option"

datatype root_admission_stop_seal_outcome =
    Acquired root_admission_stop_plan
  | AlreadySealed
  | RejectedClosed
  | SealSequenceExhausted

datatype root_admission_settlement = Admitted root_admission_receipt | Aborted

datatype root_admission_stop_resolution = Continue | ResolutionCancelled

datatype root_admission_begin_error =
    RunClosed
  | StopSealed
  | AdmissionPending
  | SessionMismatch session_id session_id
  | BeginSequenceExhausted

datatype root_admission_settle_error = StalePlan

datatype root_admission_wait_error = StaleStopPlan | NoPendingAdmission | SettlementLost

record root_admission_stop_lease =
  lease_plan :: root_admission_stop_plan
  pending_settlement :: "root_admission_settlement option"
  committed :: bool

record root_admission_state =
  next_plan_id :: u64
  next_stop_seal_id :: u64
  pending :: "root_admission_plan option"
  last_admitted :: "root_admission_receipt option"
  stop_lease :: "root_admission_stop_lease option"

definition default_root_admission :: root_admission_state where
  "default_root_admission =
     \<lparr>next_plan_id = 1, next_stop_seal_id = 1, pending = None, last_admitted = None,
      stop_lease = None\<rparr>"

section \<open>Operations\<close>

definition session_mismatch ::
  "root_admission_state \<Rightarrow> session_id \<Rightarrow> root_admission_begin_error option" where
  "session_mismatch adm session =
     (case last_admitted adm of
        Some r \<Rightarrow> if receipt_session_id r \<noteq> session
                  then Some (SessionMismatch (receipt_session_id r) session) else None
      | None \<Rightarrow> None)"

definition begin_root_admission_adm ::
  "run_classification \<Rightarrow> root_admission_state \<Rightarrow> session_id \<Rightarrow> turn_id \<Rightarrow>
   (root_admission_state \<times> root_admission_plan, root_admission_begin_error) result" where
  "begin_root_admission_adm c adm session turn =
     (if c \<noteq> Open then Err RunClosed
      else if stop_lease adm \<noteq> None then Err StopSealed
      else if pending adm \<noteq> None then Err AdmissionPending
      else case session_mismatch adm session of
             Some e \<Rightarrow> Err e
           | None \<Rightarrow>
               (case checked_succ (next_plan_id adm) of
                  None \<Rightarrow> Err BeginSequenceExhausted
                | Some n \<Rightarrow>
                    let plan = \<lparr>plan_id = next_plan_id adm, plan_session_id = session,
                                plan_turn_id = turn\<rparr>
                    in Ok (adm\<lparr>next_plan_id := n, pending := Some plan\<rparr>, plan)))"

definition root_admission_snapshot_adm :: "root_admission_state \<Rightarrow> root_admission_snapshot" where
  "root_admission_snapshot_adm adm =
     \<lparr>snap_last_admitted = last_admitted adm, snap_pending = pending adm,
      snap_stop_seal_id = map_option (\<lambda>l. seal_id (lease_plan l)) (stop_lease adm)\<rparr>"

definition seal_root_admission_for_stop_adm ::
  "run_classification \<Rightarrow> root_admission_state \<Rightarrow>
   root_admission_state \<times> root_admission_stop_seal_outcome" where
  "seal_root_admission_for_stop_adm c adm =
     (if stop_lease adm \<noteq> None then (adm, AlreadySealed)
      else if is_terminal c then (adm, RejectedClosed)
      else case checked_succ (next_stop_seal_id adm) of
             None \<Rightarrow> (adm, SealSequenceExhausted)
           | Some n \<Rightarrow>
               let plan = \<lparr>seal_id = next_stop_seal_id adm,
                           stop_last_admitted = last_admitted adm,
                           stop_pending = pending adm\<rparr>
               in (adm\<lparr>next_stop_seal_id := n,
                       stop_lease := Some \<lparr>lease_plan = plan, pending_settlement = None,
                                           committed = False\<rparr>\<rparr>,
                   Acquired plan))"

text \<open>
  One round of the waiting loop of \<open>wait_root_admission_settlement\<close>: \<open>None\<close> goes back to
  waiting for activity.
\<close>

definition poll_root_admission_settlement ::
  "root_admission_state \<Rightarrow> root_admission_stop_plan \<Rightarrow>
   (root_admission_settlement, root_admission_wait_error) result option" where
  "poll_root_admission_settlement adm stop_plan =
     (case stop_pending stop_plan of
        None \<Rightarrow> Some (Err NoPendingAdmission)
      | Some expected \<Rightarrow>
          (case stop_lease adm of
             None \<Rightarrow> Some (Err StaleStopPlan)
           | Some lease \<Rightarrow>
               if lease_plan lease \<noteq> stop_plan then Some (Err StaleStopPlan)
               else case pending_settlement lease of
                      Some settlement \<Rightarrow> Some (Ok settlement)
                    | None \<Rightarrow>
                        if pending adm \<noteq> Some expected then Some (Err SettlementLost) else None))"

text \<open>One round of \<open>wait_for_root_admission_stop_resolution\<close>; the flag is \<open>is_cancelled\<close>.\<close>

definition poll_stop_resolution ::
  "root_admission_state \<Rightarrow> bool \<Rightarrow> root_admission_stop_resolution option" where
  "poll_stop_resolution adm cancelled =
     (let stop_state = map_option committed (stop_lease adm)
      in if stop_state = Some True \<or> cancelled then Some ResolutionCancelled
         else if stop_state = None then Some Continue
         else None)"

definition commit_root_admission_stop_seal_adm ::
  "root_admission_state \<Rightarrow> root_admission_stop_seal_id \<Rightarrow> root_admission_state \<times> bool" where
  "commit_root_admission_stop_seal_adm adm expected =
     (case stop_lease adm of
        None \<Rightarrow> (adm, False)
      | Some lease \<Rightarrow>
          if seal_id (lease_plan lease) \<noteq> expected then (adm, False)
          else (adm\<lparr>stop_lease := Some (lease\<lparr>committed := True\<rparr>)\<rparr>, True))"

definition release_root_admission_stop_seal_adm ::
  "root_admission_state \<Rightarrow> root_admission_stop_seal_id \<Rightarrow> root_admission_state \<times> bool" where
  "release_root_admission_stop_seal_adm adm expected =
     (case stop_lease adm of
        None \<Rightarrow> (adm, False)
      | Some lease \<Rightarrow>
          if seal_id (lease_plan lease) \<noteq> expected \<or> committed lease then (adm, False)
          else (adm\<lparr>stop_lease := None\<rparr>, True))"

text \<open>Recording a settlement in the Stop lease that captured exactly this plan.\<close>

definition note_settlement ::
  "root_admission_plan \<Rightarrow> root_admission_settlement \<Rightarrow> root_admission_stop_lease \<Rightarrow>
   root_admission_stop_lease" where
  "note_settlement plan settlement lease =
     (if stop_pending (lease_plan lease) = Some plan
      then lease\<lparr>pending_settlement := Some settlement\<rparr> else lease)"

definition commit_root_admission_adm ::
  "root_admission_state \<Rightarrow> root_admission_plan \<Rightarrow> u64 \<Rightarrow>
   (root_admission_state \<times> root_admission_receipt, root_admission_settle_error) result" where
  "commit_root_admission_adm adm expected actual_revision =
     (if pending adm \<noteq> Some expected then Err StalePlan
      else let receipt = \<lparr>receipt_session_id = plan_session_id expected,
                          receipt_turn_id = plan_turn_id expected, revision = actual_revision\<rparr>
           in Ok (adm\<lparr>pending := None, last_admitted := Some receipt,
                      stop_lease := map_option (note_settlement expected (Admitted receipt))
                                      (stop_lease adm)\<rparr>,
                  receipt))"

definition abort_root_admission_adm ::
  "root_admission_state \<Rightarrow> root_admission_plan \<Rightarrow>
   (root_admission_state, root_admission_settle_error) result" where
  "abort_root_admission_adm adm expected =
     (if pending adm \<noteq> Some expected then Err StalePlan
      else Ok (adm\<lparr>pending := None,
                   stop_lease := map_option (note_settlement expected Aborted) (stop_lease adm)\<rparr>))"

section \<open>The admission machine\<close>

text \<open>
  All callers together: the live \<open>RootAdmissionGuard\<close>s, and, as a ghost, every plan that
  was ever issued. The classification belongs to the other mutex and may change at any time.
\<close>

record admission_world =
  adm_cls :: run_classification
  adm_state :: root_admission_state
  adm_guards :: "root_admission_plan list"
  adm_issued :: "root_admission_plan list"

definition admission_init :: "admission_world \<Rightarrow> bool" where
  "admission_init w \<longleftrightarrow>
     w = \<lparr>adm_cls = Open, adm_state = default_root_admission, adm_guards = [], adm_issued = []\<rparr>"

inductive admission_step :: "admission_world \<Rightarrow> admission_world \<Rightarrow> bool" where
  begin_admission:
    "begin_root_admission_adm (adm_cls w) (adm_state w) session turn = Ok (adm, plan) \<Longrightarrow>
     admission_step w (w\<lparr>adm_state := adm, adm_guards := plan # adm_guards w,
                         adm_issued := plan # adm_issued w\<rparr>)"
| guard_commit:
    "plan \<in> set (adm_guards w) \<Longrightarrow>
     commit_root_admission_adm (adm_state w) plan actual_revision = Ok (adm, receipt) \<Longrightarrow>
     admission_step w (w\<lparr>adm_state := adm, adm_guards := remove1 plan (adm_guards w)\<rparr>)"
| guard_commit_stale:
    "plan \<in> set (adm_guards w) \<Longrightarrow>
     commit_root_admission_adm (adm_state w) plan actual_revision = Err e \<Longrightarrow>
     admission_step w (w\<lparr>adm_guards := remove1 plan (adm_guards w)\<rparr>)"
| guard_abort_or_drop:
    "plan \<in> set (adm_guards w) \<Longrightarrow> abort_root_admission_adm (adm_state w) plan = Ok adm \<Longrightarrow>
     admission_step w (w\<lparr>adm_state := adm, adm_guards := remove1 plan (adm_guards w)\<rparr>)"
| guard_abort_stale:
    "plan \<in> set (adm_guards w) \<Longrightarrow> abort_root_admission_adm (adm_state w) plan = Err e \<Longrightarrow>
     admission_step w (w\<lparr>adm_guards := remove1 plan (adm_guards w)\<rparr>)"
| seal_for_stop:
    "seal_root_admission_for_stop_adm (adm_cls w) (adm_state w) = (adm, outcome) \<Longrightarrow>
     admission_step w (w\<lparr>adm_state := adm\<rparr>)"
| commit_seal:
    "commit_root_admission_stop_seal_adm (adm_state w) expected = (adm, ok) \<Longrightarrow>
     admission_step w (w\<lparr>adm_state := adm\<rparr>)"
| release_seal:
    "release_root_admission_stop_seal_adm (adm_state w) expected = (adm, ok) \<Longrightarrow>
     admission_step w (w\<lparr>adm_state := adm\<rparr>)"
| classification_moves:
    "admission_step w (w\<lparr>adm_cls := c\<rparr>)"

section \<open>Invariant\<close>

definition receipt_of :: "root_admission_plan \<Rightarrow> root_admission_receipt \<Rightarrow> bool" where
  "receipt_of plan r \<longleftrightarrow>
     receipt_session_id r = plan_session_id plan \<and> receipt_turn_id r = plan_turn_id plan"

text \<open>
  What a held Stop lease knows: until the captured admission settles, it is still pending and
  nothing else was admitted; once it settled, its settlement is recorded in the lease.
\<close>

definition lease_covers ::
  "root_admission_state \<Rightarrow> root_admission_stop_lease \<Rightarrow> bool" where
  "lease_covers adm lease \<longleftrightarrow>
     (case stop_pending (lease_plan lease) of
        None \<Rightarrow>
          pending adm = None \<and> pending_settlement lease = None \<and>
          last_admitted adm = stop_last_admitted (lease_plan lease)
      | Some plan \<Rightarrow>
          (case pending_settlement lease of
             None \<Rightarrow> pending adm = Some plan \<and>
                     last_admitted adm = stop_last_admitted (lease_plan lease)
           | Some Aborted \<Rightarrow> pending adm = None \<and>
                     last_admitted adm = stop_last_admitted (lease_plan lease)
           | Some (Admitted r) \<Rightarrow> pending adm = None \<and> last_admitted adm = Some r \<and>
                     receipt_of plan r))"

definition same_session :: "root_admission_state \<Rightarrow> bool" where
  "same_session adm \<longleftrightarrow>
     (case (pending adm, last_admitted adm) of
        (Some plan, Some r) \<Rightarrow> receipt_session_id r = plan_session_id plan
      | _ \<Rightarrow> True)"

definition issued_below :: "admission_world \<Rightarrow> bool" where
  "issued_below w \<longleftrightarrow>
     distinct (map plan_id (adm_issued w)) \<and>
     list_all (\<lambda>plan. plan_id plan < next_plan_id (adm_state w)) (adm_issued w)"

definition admission_inv :: "admission_world \<Rightarrow> bool" where
  "admission_inv w \<longleftrightarrow>
     adm_guards w = (case pending (adm_state w) of None \<Rightarrow> [] | Some plan \<Rightarrow> [plan]) \<and>
     same_session (adm_state w) \<and>
     issued_below w \<and>
     (case stop_lease (adm_state w) of
        None \<Rightarrow> True
      | Some lease \<Rightarrow>
          lease_covers (adm_state w) lease \<and>
          seal_id (lease_plan lease) < next_stop_seal_id (adm_state w))"

lemma begin_Ok:
  assumes "begin_root_admission_adm c adm session turn = Ok (adm', plan)"
  shows "c = Open" "stop_lease adm = None" "pending adm = None"
    and "session_mismatch adm session = None"
    and "plan = \<lparr>plan_id = next_plan_id adm, plan_session_id = session, plan_turn_id = turn\<rparr>"
    and "\<exists>n. checked_succ (next_plan_id adm) = Some n \<and>
             adm' = adm\<lparr>next_plan_id := n, pending := Some plan\<rparr>"
  using assms
  by (auto simp: begin_root_admission_adm_def Let_def split: if_splits option.splits)

lemma commit_Ok:
  assumes "commit_root_admission_adm adm plan rv = Ok (adm', r)"
  shows "pending adm = Some plan" "receipt_of plan r"
    and "adm' = adm\<lparr>pending := None, last_admitted := Some r,
                    stop_lease := map_option (note_settlement plan (Admitted r)) (stop_lease adm)\<rparr>"
  using assms
  by (auto simp: commit_root_admission_adm_def receipt_of_def Let_def split: if_splits)

lemma abort_Ok:
  assumes "abort_root_admission_adm adm plan = Ok adm'"
  shows "pending adm = Some plan"
    and "adm' = adm\<lparr>pending := None,
                    stop_lease := map_option (note_settlement plan Aborted) (stop_lease adm)\<rparr>"
  using assms by (auto simp: abort_root_admission_adm_def split: if_splits)

lemma issued_below_weaken:
  assumes "issued_below w" and "adm_issued w' = adm_issued w"
    and "next_plan_id (adm_state w') = next_plan_id (adm_state w)"
  shows "issued_below w'"
  using assms by (simp add: issued_below_def)

lemma issued_below_begin:
  assumes "issued_below w" and "checked_succ (next_plan_id (adm_state w)) = Some n"
    and "adm_issued w' = plan # adm_issued w" and "plan_id plan = next_plan_id (adm_state w)"
    and "next_plan_id (adm_state w') = n"
  shows "issued_below w'"
proof -
  from assms(2) have less: "next_plan_id (adm_state w) < n" by (rule checked_succ_less)
  from assms(1) have "list_all (\<lambda>q. plan_id q < n) (adm_issued w)"
    using less by (auto simp: issued_below_def list_all_iff)
  moreover from assms(1) have "next_plan_id (adm_state w) \<notin> plan_id ` set (adm_issued w)"
    by (auto simp: issued_below_def list_all_iff)
  ultimately show ?thesis
    using assms less by (simp add: issued_below_def)
qed

lemma note_settlement_plan [simp]: "lease_plan (note_settlement plan s lease) = lease_plan lease"
  by (simp add: note_settlement_def)

lemma settle_covers:
  assumes "lease_covers adm lease" and "pending adm = Some plan"
  shows "lease_covers (adm\<lparr>pending := None, stop_lease := sl\<rparr>) (note_settlement plan Aborted lease)"
    and "receipt_of plan r \<Longrightarrow>
         lease_covers (adm\<lparr>pending := None, last_admitted := Some r, stop_lease := sl\<rparr>)
           (note_settlement plan (Admitted r) lease)"
  using assms
  by (auto simp: lease_covers_def note_settlement_def
           split: option.splits root_admission_settlement.splits)

lemma seal_cases:
  assumes "seal_root_admission_for_stop_adm c adm = (adm', outcome)"
  obtains (kept) "adm' = adm" "\<And>plan. outcome \<noteq> Acquired plan"
    | (acquired) n plan where "stop_lease adm = None" "\<not> is_terminal c"
        "checked_succ (next_stop_seal_id adm) = Some n" "outcome = Acquired plan"
        "plan = \<lparr>seal_id = next_stop_seal_id adm, stop_last_admitted = last_admitted adm,
                  stop_pending = pending adm\<rparr>"
        "adm' = adm\<lparr>next_stop_seal_id := n,
                    stop_lease := Some \<lparr>lease_plan = plan, pending_settlement = None,
                                        committed = False\<rparr>\<rparr>"
  using assms
  by (auto simp: seal_root_admission_for_stop_adm_def Let_def split: if_splits option.splits)

lemma commit_seal_cases:
  assumes "commit_root_admission_stop_seal_adm adm expected = (adm', ok)"
  obtains (kept) "adm' = adm" "\<not> ok"
    | (sealed) lease where "ok" "stop_lease adm = Some lease"
        "seal_id (lease_plan lease) = expected"
        "adm' = adm\<lparr>stop_lease := Some (lease\<lparr>committed := True\<rparr>)\<rparr>"
  using assms
  by (auto simp: commit_root_admission_stop_seal_adm_def split: if_splits option.splits)

lemma release_seal_cases:
  assumes "release_root_admission_stop_seal_adm adm expected = (adm', ok)"
  obtains (kept) "adm' = adm" "\<not> ok"
    | (released) lease where "ok" "stop_lease adm = Some lease" "\<not> committed lease"
        "seal_id (lease_plan lease) = expected" "adm' = adm\<lparr>stop_lease := None\<rparr>"
  using assms
  by (auto simp: release_root_admission_stop_seal_adm_def split: if_splits option.splits)

lemma inv_begin:
  assumes inv: "admission_inv w"
    and ok: "begin_root_admission_adm (adm_cls w) (adm_state w) session turn = Ok (adm, plan)"
  shows "admission_inv (w\<lparr>adm_state := adm, adm_guards := plan # adm_guards w,
                          adm_issued := plan # adm_issued w\<rparr>)"
    (is "admission_inv ?w'")
proof -
  note b = begin_Ok [OF ok]
  from b(6) obtain n where n: "checked_succ (next_plan_id (adm_state w)) = Some n"
    and adm: "adm = (adm_state w)\<lparr>next_plan_id := n, pending := Some plan\<rparr>" by auto
  have "same_session adm"
    using b(4,5) by (auto simp: adm same_session_def session_mismatch_def split: option.splits if_splits)
  moreover have "issued_below ?w'"
    by (rule issued_below_begin [OF _ n]) (use inv b(5) adm in \<open>auto simp: admission_inv_def\<close>)
  ultimately show ?thesis
    using inv b(2,3) by (simp add: admission_inv_def adm)
qed

lemma inv_guard_commit:
  assumes inv: "admission_inv w"
    and ok: "commit_root_admission_adm (adm_state w) plan rv = Ok (adm, r)"
  shows "admission_inv (w\<lparr>adm_state := adm, adm_guards := remove1 plan (adm_guards w)\<rparr>)"
proof -
  note c = commit_Ok [OF ok]
  have "issued_below (w\<lparr>adm_state := adm, adm_guards := remove1 plan (adm_guards w)\<rparr>)"
    by (rule issued_below_weaken [of w]) (use inv c(3) in \<open>auto simp: admission_inv_def\<close>)
  then show ?thesis
    using inv c(1,2)
    by (auto simp: admission_inv_def c(3) same_session_def intro: settle_covers(2)
             split: option.splits)
qed

lemma inv_guard_abort:
  assumes inv: "admission_inv w"
    and ok: "abort_root_admission_adm (adm_state w) plan = Ok adm"
  shows "admission_inv (w\<lparr>adm_state := adm, adm_guards := remove1 plan (adm_guards w)\<rparr>)"
proof -
  note c = abort_Ok [OF ok]
  have "issued_below (w\<lparr>adm_state := adm, adm_guards := remove1 plan (adm_guards w)\<rparr>)"
    by (rule issued_below_weaken [of w]) (use inv c(2) in \<open>auto simp: admission_inv_def\<close>)
  then show ?thesis
    using inv c(1)
    by (auto simp: admission_inv_def c(2) same_session_def intro: settle_covers(1)
             split: option.splits)
qed

text \<open>A live guard is never stale: its plan is the pending one.\<close>

lemma live_guard_pending:
  "admission_inv w \<Longrightarrow> plan \<in> set (adm_guards w) \<Longrightarrow> pending (adm_state w) = Some plan"
  by (auto simp: admission_inv_def split: option.splits)

lemma inv_seal:
  assumes inv: "admission_inv w"
    and s: "seal_root_admission_for_stop_adm (adm_cls w) (adm_state w) = (adm, outcome)"
  shows "admission_inv (w\<lparr>adm_state := adm\<rparr>)"
  using s
proof (cases rule: seal_cases)
  case kept
  with inv show ?thesis by simp
next
  case (acquired n plan)
  have "issued_below (w\<lparr>adm_state := adm\<rparr>)"
    by (rule issued_below_weaken [of w]) (use inv acquired in \<open>auto simp: admission_inv_def\<close>)
  then show ?thesis
    using inv acquired checked_succ_less [OF acquired(3)]
    by (auto simp: admission_inv_def same_session_def lease_covers_def split: option.splits)
qed

lemma inv_commit_seal:
  assumes inv: "admission_inv w"
    and s: "commit_root_admission_stop_seal_adm (adm_state w) expected = (adm, ok)"
  shows "admission_inv (w\<lparr>adm_state := adm\<rparr>)"
  using s
proof (cases rule: commit_seal_cases)
  case kept
  with inv show ?thesis by simp
next
  case (sealed lease)
  with inv show ?thesis
    by (auto simp: admission_inv_def same_session_def issued_below_def lease_covers_def
             split: option.splits root_admission_settlement.splits)
qed

lemma inv_release_seal:
  assumes inv: "admission_inv w"
    and s: "release_root_admission_stop_seal_adm (adm_state w) expected = (adm, ok)"
  shows "admission_inv (w\<lparr>adm_state := adm\<rparr>)"
  using s
proof (cases rule: release_seal_cases)
  case kept
  with inv show ?thesis by simp
next
  case (released lease)
  with inv show ?thesis
    by (auto simp: admission_inv_def same_session_def issued_below_def split: option.splits)
qed

lemma admission_step_inv:
  assumes "admission_inv w" and "admission_step w w'"
  shows "admission_inv w'"
  using assms(2,1)
proof (cases rule: admission_step.cases)
  case (guard_commit_stale plan rv e)
  with assms(1) show ?thesis
    using live_guard_pending [OF assms(1), of plan] by (auto simp: commit_root_admission_adm_def Let_def)
next
  case (guard_abort_stale plan e)
  with assms(1) show ?thesis
    using live_guard_pending [OF assms(1), of plan] by (auto simp: abort_root_admission_adm_def)
next
  case (classification_moves c)
  with assms(1) show ?thesis by (auto simp: admission_inv_def issued_below_def split: option.splits)
qed (auto intro: assms(1) inv_begin inv_guard_commit inv_guard_abort inv_seal inv_commit_seal
       inv_release_seal)

lemma admission_init_inv: "admission_init w \<Longrightarrow> admission_inv w"
  by (simp add: admission_init_def admission_inv_def default_root_admission_def same_session_def
        issued_below_def)

interpretation admissions: invariant_machine admission_init admission_step admission_inv
  by unfold_locales (auto intro: admission_init_inv admission_step_inv)

section \<open>What the machine guarantees\<close>

text \<open>A run used by the witnesses: one admission is published, then Stop seals the owner.\<close>

definition example_plan :: root_admission_plan where
  "example_plan = \<lparr>plan_id = 1, plan_session_id = 7, plan_turn_id = 9\<rparr>"

definition example_stop_plan :: root_admission_stop_plan where
  "example_stop_plan =
     \<lparr>seal_id = 1, stop_last_admitted = None, stop_pending = Some example_plan\<rparr>"

definition example_start :: admission_world where
  "example_start =
     \<lparr>adm_cls = Open, adm_state = default_root_admission, adm_guards = [], adm_issued = []\<rparr>"

definition example_sealed :: "bool \<Rightarrow> admission_world" where
  "example_sealed done =
     \<lparr>adm_cls = Open,
      adm_state = \<lparr>next_plan_id = 2, next_stop_seal_id = 2, pending = Some example_plan,
                   last_admitted = None,
                   stop_lease = Some \<lparr>lease_plan = example_stop_plan,
                                      pending_settlement = None, committed = done\<rparr>\<rparr>,
      adm_guards = [example_plan], adm_issued = [example_plan]\<rparr>"

lemma example_init: "admission_init example_start"
  by (simp add: admission_init_def example_start_def)

lemma example_begin_step:
  "admission_step example_start
     (example_start\<lparr>adm_state := (adm_state example_start)\<lparr>next_plan_id := 2,
                                   pending := Some example_plan\<rparr>,
                    adm_guards := [example_plan], adm_issued := [example_plan]\<rparr>)"
    (is "admission_step _ ?w1")
proof -
  have "begin_root_admission_adm Open default_root_admission 7 9 =
          Ok (default_root_admission\<lparr>next_plan_id := 2, pending := Some example_plan\<rparr>,
              example_plan)"
    by (simp add: begin_root_admission_adm_def default_root_admission_def session_mismatch_def
          checked_succ_def example_plan_def Let_def)
  from admission_step.begin_admission [of example_start 7 9 _ example_plan]
  show ?thesis using \<open>begin_root_admission_adm Open default_root_admission 7 9 = _\<close>
    by (simp add: example_start_def)
qed

lemma example_sealed_reachable: "admission_step\<^sup>*\<^sup>* example_start (example_sealed done)"
proof -
  let ?w1 = "example_start\<lparr>adm_state := (adm_state example_start)\<lparr>next_plan_id := 2,
                             pending := Some example_plan\<rparr>,
                           adm_guards := [example_plan], adm_issued := [example_plan]\<rparr>"
  have seal: "admission_step ?w1 (example_sealed False)"
    using admission_step.seal_for_stop [of ?w1]
    by (simp add: example_start_def default_root_admission_def is_terminal_def Let_def
          seal_root_admission_for_stop_adm_def checked_succ_def example_sealed_def
          example_stop_plan_def)
  have commit: "admission_step (example_sealed False) (example_sealed True)"
    using admission_step.commit_seal [of "example_sealed False" 1]
    by (simp add: commit_root_admission_stop_seal_adm_def example_sealed_def
          example_stop_plan_def)
  have "admission_step\<^sup>*\<^sup>* example_start (example_sealed False)"
    using example_begin_step seal by (blast intro: rtranclp.intros)
  then show ?thesis
    using commit by (cases "done") (auto intro: rtranclp.rtrancl_into_rtrancl)
qed

text \<open>
  C3. A Stop that captured a pending admission always learns how it ended: in every reachable
  state in which a Stop lease is held, a waiter that polls with the lease's own plan either
  goes on waiting, and then the captured admission is still pending, or receives its recorded
  settlement. The errors \<open>SettlementLost\<close> and \<open>StaleStopPlan\<close> cannot happen to the
  lease's owner.
\<close>

theorem stop_settlement_never_lost:
  assumes "admission_init w0" and "admission_step\<^sup>*\<^sup>* w0 w"
    and "stop_lease (adm_state w) = Some lease"
    and "stop_pending (lease_plan lease) = Some plan"
  shows "poll_root_admission_settlement (adm_state w) (lease_plan lease) =
           (case pending_settlement lease of None \<Rightarrow> None | Some s \<Rightarrow> Some (Ok s)) \<and>
         (pending_settlement lease = None \<longrightarrow> pending (adm_state w) = Some plan)"
proof -
  have "admission_inv w" using assms(1,2) by (rule admissions.reachable_invar)
  then have "lease_covers (adm_state w) lease" by (simp add: admission_inv_def assms(3))
  then show ?thesis
    using assms(3,4) by (auto simp: poll_root_admission_settlement_def lease_covers_def
                              split: option.splits)
qed

theorem stop_settlement_never_lost_witness:
  "poll_root_admission_settlement (adm_state (example_sealed False)) example_stop_plan = None \<and>
   pending (adm_state (example_sealed False)) = Some example_plan"
  using stop_settlement_never_lost [OF example_init example_sealed_reachable [of False],
      of "\<lparr>lease_plan = example_stop_plan, pending_settlement = None, committed = False\<rparr>"
         example_plan]
  by (simp add: example_sealed_def example_stop_plan_def)

text \<open>
  C4. The Stop plan covers every durable candidate: as long as the lease is held, the last
  admitted receipt is the one the plan captured, or the receipt of exactly the pending
  admission the plan captured, and then the lease carries that receipt. No third admission
  can slip between the snapshot and the durable Stop.
\<close>

theorem stop_plan_covers_admissions:
  assumes "admission_init w0" and "admission_step\<^sup>*\<^sup>* w0 w"
    and "stop_lease (adm_state w) = Some lease"
  shows "last_admitted (adm_state w) = stop_last_admitted (lease_plan lease) \<or>
         (\<exists>plan r. stop_pending (lease_plan lease) = Some plan \<and> receipt_of plan r \<and>
            pending_settlement lease = Some (Admitted r) \<and>
            last_admitted (adm_state w) = Some r)"
proof -
  have "admission_inv w" using assms(1,2) by (rule admissions.reachable_invar)
  then have "lease_covers (adm_state w) lease" by (simp add: admission_inv_def assms(3))
  then show ?thesis
    by (auto simp: lease_covers_def split: option.splits root_admission_settlement.splits)
qed

theorem stop_plan_covers_admissions_witness:
  "last_admitted (adm_state (example_sealed False)) = stop_last_admitted example_stop_plan"
  using stop_plan_covers_admissions [OF example_init example_sealed_reachable [of False],
      of "\<lparr>lease_plan = example_stop_plan, pending_settlement = None, committed = False\<rparr>"]
  by (simp add: example_sealed_def example_stop_plan_def)

lemma committed_step:
  assumes "admission_inv w"
    and "stop_lease (adm_state w) = Some lease \<and> lease_plan lease = plan \<and> committed lease"
    and "admission_step w w'"
  shows "\<exists>lease'. stop_lease (adm_state w') = Some lease' \<and> lease_plan lease' = plan \<and>
           committed lease'"
  using assms(3,2)
proof (cases rule: admission_step.cases)
  case (begin_admission session turn adm plan)
  then show ?thesis using assms(2) begin_Ok(2) by fastforce
next
  case (guard_commit plan rv adm r)
  then show ?thesis using assms(2) by (auto dest!: commit_Ok(3) simp: note_settlement_def)
next
  case (guard_abort_or_drop plan adm)
  then show ?thesis using assms(2) by (auto dest!: abort_Ok(2) simp: note_settlement_def)
qed (use assms(2) in \<open>auto elim!: seal_cases commit_seal_cases release_seal_cases\<close>)

text \<open>
  C5. A committed Stop seal is final: from then on, whatever the callers do, the seal stays
  committed, no root admission can begin, no release opens it, and the post-admission gate
  answers \<open>Cancelled\<close>.
\<close>

theorem committed_stop_is_final:
  assumes "admission_init w0" and "admission_step\<^sup>*\<^sup>* w0 w"
    and "stop_lease (adm_state w) = Some lease" and "committed lease"
    and "admission_step\<^sup>*\<^sup>* w w'"
  shows "\<not> is_ok (begin_root_admission_adm (adm_cls w') (adm_state w') session turn) \<and>
         \<not> snd (release_root_admission_stop_seal_adm (adm_state w') expected) \<and>
         poll_stop_resolution (adm_state w') cancelled = Some ResolutionCancelled"
proof -
  let ?P = "\<lambda>w. \<exists>l. stop_lease (adm_state w) = Some l \<and> lease_plan l = lease_plan lease \<and>
                     committed l"
  have inv: "admission_inv w" using assms(1,2) by (rule admissions.reachable_invar)
  have "?P w'"
  proof (rule admissions.steps_stable [where P = ?P, OF _ assms(5) inv])
    show "?P w" using assms(3,4) by blast
  qed (blast dest: committed_step)
  then obtain l where "stop_lease (adm_state w') = Some l" "committed l" by blast
  then show ?thesis
    by (simp add: begin_root_admission_adm_def release_root_admission_stop_seal_adm_def
          poll_stop_resolution_def)
qed

theorem committed_stop_is_final_witness:
  "\<not> is_ok (begin_root_admission_adm (adm_cls (example_sealed True))
       (adm_state (example_sealed True)) 7 10) \<and>
   \<not> snd (release_root_admission_stop_seal_adm (adm_state (example_sealed True)) 1) \<and>
   poll_stop_resolution (adm_state (example_sealed True)) False = Some ResolutionCancelled"
  using committed_stop_is_final [OF example_init example_sealed_reachable [of True]
      _ _ rtranclp.rtrancl_refl,
      of "\<lparr>lease_plan = example_stop_plan, pending_settlement = None, committed = True\<rparr>"
         7 10 1 False]
  by (simp add: example_sealed_def)

text \<open>
  Plan identities are never reused, and an issued plan can be settled exactly while its
  guard is live: committing and aborting through it succeed iff the guard has not settled
  yet, so a delayed guard cannot settle a later attempt.
\<close>

theorem guard_settles_exactly_its_plan:
  assumes "admission_init w0" and "admission_step\<^sup>*\<^sup>* w0 w"
  shows "distinct (map plan_id (adm_issued w)) \<and>
         (is_ok (commit_root_admission_adm (adm_state w) plan rv) \<longleftrightarrow> plan \<in> set (adm_guards w)) \<and>
         (is_ok (abort_root_admission_adm (adm_state w) plan) \<longleftrightarrow> plan \<in> set (adm_guards w))"
proof -
  have "admission_inv w" using assms by (rule admissions.reachable_invar)
  then show ?thesis
    by (auto simp: admission_inv_def issued_below_def commit_root_admission_adm_def
             abort_root_admission_adm_def Let_def split: option.splits)
qed

theorem guard_settles_exactly_its_plan_witness:
  "is_ok (commit_root_admission_adm (adm_state (example_sealed False)) example_plan 4) \<and>
   \<not> is_ok (abort_root_admission_adm (adm_state (example_sealed False))
              (example_plan\<lparr>plan_id := 5\<rparr>))"
  using guard_settles_exactly_its_plan [OF example_init example_sealed_reachable [of False],
      of example_plan 4]
    guard_settles_exactly_its_plan [OF example_init example_sealed_reachable [of False],
      of "example_plan\<lparr>plan_id := 5\<rparr>" 4]
  by (simp add: example_sealed_def example_plan_def)

end
