(* ===== verification/Run_Control.thy ===== *)
theory Run_Control
  imports Root_Admission
begin

text \<open>
  \<open>RunControl\<close> of \<open>src/src/runtime/cancel.rs\<close>: the object that owns the wake token, the
  classification, the terminal router, the root admission state and the external effect
  authority of one run. The functions below are its methods and the methods of the RAII
  objects it hands out; each takes the control and returns it updated.

  A method that publishes a cancellation drops the classification lock before it cancels the
  wake token. The method functions perform both; the machine at the end of the theory keeps
  them as two steps, so that its invariant speaks about what another thread can observe in
  between.
\<close>

section \<open>The control\<close>

type_synonym router_id = nat

text \<open>The \<open>ExternalEffectAuthority\<close> trait object: an arbitrary answer for an approval.\<close>

type_synonym effect_authority = "ustr option \<Rightarrow> (unit, ustr) result"

record run_control =
  wake :: bool
  classification :: run_classification
  terminal_router :: "router_id option"
  root_admission :: root_admission_state
  root_admission_activity :: u64
  effect_authority :: "effect_authority option"
  approval_identity :: "ustr option"

definition new_run_control :: run_control where
  "new_run_control =
     \<lparr>wake = False, classification = Open, terminal_router = None,
      root_admission = default_root_admission, root_admission_activity = 0,
      effect_authority = None, approval_identity = None\<rparr>"

definition wake_cancel :: "run_control \<Rightarrow> run_control" where
  "wake_cancel rc = rc\<lparr>wake := True\<rparr>"

definition wake_if :: "bool \<Rightarrow> run_control \<Rightarrow> run_control" where
  "wake_if b rc = (if b then wake_cancel rc else rc)"

definition is_cancelled :: "run_control \<Rightarrow> bool" where
  "is_cancelled rc = wake rc"

definition cause :: "run_control \<Rightarrow> run_cancellation_cause option" where
  "cause rc = cause_of (classification rc)"

definition success_is_sealed :: "run_control \<Rightarrow> bool" where
  "success_is_sealed rc = (classification rc = SuccessSealed)"

section \<open>Effect authority and approval identity\<close>

definition set_effect_authority :: "run_control \<Rightarrow> effect_authority \<Rightarrow> run_control" where
  "set_effect_authority rc a = rc\<lparr>effect_authority := Some a\<rparr>"

definition inherit_effect_authority :: "run_control \<Rightarrow> run_control \<Rightarrow> run_control" where
  "inherit_effect_authority rc src = rc\<lparr>effect_authority := effect_authority src\<rparr>"

definition record_approval_identity :: "run_control \<Rightarrow> ustr \<Rightarrow> run_control" where
  "record_approval_identity rc i = rc\<lparr>approval_identity := Some i\<rparr>"

definition take_approval_identity :: "run_control \<Rightarrow> run_control \<times> ustr option" where
  "take_approval_identity rc = (rc\<lparr>approval_identity := None\<rparr>, approval_identity rc)"

definition authorize_external_effect :: "run_control \<Rightarrow> ustr option \<Rightarrow> (unit, ustr) result" where
  "authorize_external_effect rc approval =
     (if is_cancelled rc then Err (lit ''Execution was stopped'')
      else case effect_authority rc of None \<Rightarrow> Ok () | Some authority \<Rightarrow> authority approval)"

section \<open>Root admission\<close>

definition notify_root_admission_activity :: "run_control \<Rightarrow> run_control" where
  "notify_root_admission_activity rc =
     rc\<lparr>root_admission_activity := root_admission_activity rc + 1\<rparr>"

definition begin_root_admission ::
  "run_control \<Rightarrow> session_id \<Rightarrow> turn_id \<Rightarrow>
   (run_control \<times> root_admission_plan, root_admission_begin_error) result" where
  "begin_root_admission rc session turn =
     and_then (begin_root_admission_adm (classification rc) (root_admission rc) session turn)
       (\<lambda>(adm, plan). Ok (rc\<lparr>root_admission := adm\<rparr>, plan))"

definition root_admission_stop_is_sealed :: "run_control \<Rightarrow> bool" where
  "root_admission_stop_is_sealed rc = (stop_lease (root_admission rc) \<noteq> None)"

definition root_admission_snapshot_of :: "run_control \<Rightarrow> root_admission_snapshot" where
  "root_admission_snapshot_of rc = root_admission_snapshot_adm (root_admission rc)"

definition seal_root_admission_for_stop ::
  "run_control \<Rightarrow> run_control \<times> root_admission_stop_seal_outcome" where
  "seal_root_admission_for_stop rc =
     (let (adm, outcome) =
            seal_root_admission_for_stop_adm (classification rc) (root_admission rc)
      in (rc\<lparr>root_admission := adm\<rparr>, outcome))"

definition commit_root_admission_stop_seal ::
  "run_control \<Rightarrow> root_admission_stop_seal_id \<Rightarrow> run_control \<times> bool" where
  "commit_root_admission_stop_seal rc expected =
     (let (adm, ok) = commit_root_admission_stop_seal_adm (root_admission rc) expected
      in if ok then (notify_root_admission_activity (rc\<lparr>root_admission := adm\<rparr>), True)
         else (rc, False))"

definition release_root_admission_stop_seal ::
  "run_control \<Rightarrow> root_admission_stop_seal_id \<Rightarrow> run_control \<times> bool" where
  "release_root_admission_stop_seal rc expected =
     (let (adm, ok) = release_root_admission_stop_seal_adm (root_admission rc) expected
      in if ok then (notify_root_admission_activity (rc\<lparr>root_admission := adm\<rparr>), True)
         else (rc, False))"

definition commit_root_admission ::
  "run_control \<Rightarrow> root_admission_plan \<Rightarrow> u64 \<Rightarrow>
   (run_control \<times> root_admission_receipt, root_admission_settle_error) result" where
  "commit_root_admission rc expected actual_revision =
     and_then (commit_root_admission_adm (root_admission rc) expected actual_revision)
       (\<lambda>(adm, r). Ok (notify_root_admission_activity (rc\<lparr>root_admission := adm\<rparr>), r))"

definition abort_root_admission ::
  "run_control \<Rightarrow> root_admission_plan \<Rightarrow> (run_control, root_admission_settle_error) result" where
  "abort_root_admission rc expected =
     and_then (abort_root_admission_adm (root_admission rc) expected)
       (\<lambda>adm. Ok (notify_root_admission_activity (rc\<lparr>root_admission := adm\<rparr>)))"

section \<open>Classification methods\<close>

text \<open>Replace the classification and wake if the method says so.\<close>

definition publish :: "run_control \<Rightarrow> run_classification \<Rightarrow> bool \<Rightarrow> run_control" where
  "publish rc c woken = wake_if woken (rc\<lparr>classification := c\<rparr>)"

definition request_cancel_local ::
  "run_control \<Rightarrow> run_cancellation_cause \<Rightarrow> run_control \<times> run_cancel_outcome" where
  "request_cancel_local rc x =
     (let (c, outcome) = request_cancel_cls (classification rc) x
      in (publish rc c (outcome = Applied), outcome))"

definition commit_cancel_local ::
  "run_control \<Rightarrow> run_cancellation_cause \<Rightarrow> (unit, 'e) result \<Rightarrow>
   run_control \<times> (run_cancel_outcome, 'e) result" where
  "commit_cancel_local rc x durable_commit =
     (let (c, r) = commit_cancel_cls (classification rc) x durable_commit
      in (publish rc c (r = Ok Applied), r))"

definition begin_reservation ::
  "(run_classification \<Rightarrow> run_classification option) \<Rightarrow> run_control \<Rightarrow> run_control option" where
  "begin_reservation start rc =
     map_option (\<lambda>c. rc\<lparr>classification := c\<rparr>) (start (classification rc))"

definition begin_tool_effect_admission :: "run_control \<Rightarrow> run_control option" where
  "begin_tool_effect_admission = begin_reservation begin_tool_effect_admission_cls"

definition begin_tool_settlement :: "run_control \<Rightarrow> run_control option" where
  "begin_tool_settlement = begin_reservation begin_tool_settlement_cls"

definition begin_tool_effect_commit :: "run_control \<Rightarrow> run_control option" where
  "begin_tool_effect_commit = begin_reservation begin_tool_effect_commit_cls"

definition begin_success_commit :: "run_control \<Rightarrow> run_control option" where
  "begin_success_commit = begin_reservation begin_success_commit_cls"

definition seal_success :: "run_control \<Rightarrow> run_control \<times> bool" where
  "seal_success rc =
     (let (c, ok) = seal_success_cls (classification rc) in (rc\<lparr>classification := c\<rparr>, ok))"

definition seal_reserved_success :: "run_control \<Rightarrow> run_control \<times> bool" where
  "seal_reserved_success rc =
     (let (c, ok) = seal_reserved_success_cls (classification rc)
      in (rc\<lparr>classification := c\<rparr>, ok))"

definition resolve_success_commit_local ::
  "run_control \<Rightarrow> run_cancellation_cause \<Rightarrow> bool \<Rightarrow> run_control \<times> run_cancellation_cause option"
where
  "resolve_success_commit_local rc fallback preserve =
     (let (c, r) = resolve_success_commit_cls (classification rc) fallback preserve
      in (publish rc c (r \<noteq> None), r))"

definition resolve_success_commit_authoritatively_local ::
  "run_control \<Rightarrow> run_cancellation_cause \<Rightarrow> run_control \<times> bool" where
  "resolve_success_commit_authoritatively_local rc x =
     (let (rc', r) = resolve_success_commit_local rc x False in (rc', r \<noteq> None))"

definition abandon_success_commit_local ::
  "run_control \<Rightarrow> run_cancellation_cause \<Rightarrow> run_control \<times> run_cancellation_cause option" where
  "abandon_success_commit_local rc fallback = resolve_success_commit_local rc fallback True"

definition release_success_commit_local ::
  "run_control \<Rightarrow> run_control \<times> run_cancellation_cause option" where
  "release_success_commit_local rc =
     (let (c, published) = release_success_commit_cls (classification rc)
      in (publish rc c (published \<noteq> None), published))"

definition release_tool_settlement :: "run_control \<Rightarrow> run_control" where
  "release_tool_settlement rc =
     (let (c, woken) = release_tool_settlement_cls (classification rc) in publish rc c woken)"

definition release_tool_effect_commit :: "run_control \<Rightarrow> run_control" where
  "release_tool_effect_commit rc =
     (let (c, woken) = release_tool_effect_commit_cls (classification rc) in publish rc c woken)"

definition resolve_tool_effect_admission ::
  "run_control \<Rightarrow> run_control \<times> (unit, run_cancellation_cause) result" where
  "resolve_tool_effect_admission rc =
     (let (c, r) = resolve_tool_effect_admission_cls (classification rc)
      in (publish rc c (case classification rc of EffectAdmitting p \<Rightarrow> p \<noteq> None | _ \<Rightarrow> False), r))"

text \<open>
  \<open>request_linked_cancellation\<close> on two distinct owners; \<open>None\<close> is a panic. The two branches
  of the source differ only in the order in which the locks are taken.
\<close>

definition request_linked_cancellation ::
  "run_control \<Rightarrow> run_cancellation_cause \<Rightarrow> run_control \<Rightarrow> run_cancellation_cause \<Rightarrow>
   (run_control \<times> run_control \<times> run_cancel_outcome) option" where
  "request_linked_cancellation p pc s sc =
     map_option
       (\<lambda>r. (publish p (linked_primary r) (wake_primary r),
             publish s (linked_secondary r) (wake_secondary r),
             linked_outcome r))
       (linked_cancellation_locked (classification p) pc (classification s) sc)"

definition request_linked_cancellation_same_owner ::
  "run_control \<Rightarrow> run_cancellation_cause \<Rightarrow> run_cancellation_cause \<Rightarrow>
   (run_control \<times> run_cancel_outcome) option" where
  "request_linked_cancellation_same_owner rc primary_cause secondary_cause =
     map_option (\<lambda>(c, outcome, woken). (publish rc c woken, outcome))
       (same_owner_cancellation (classification rc) primary_cause secondary_cause)"

section \<open>Routing and the RAII objects\<close>

text \<open>
  Controls are shared objects: a \<open>ctl_id\<close> stands for an \<open>Arc\<close>, so that \<open>same_owner\<close> is
  equality of identities. A router is a callback of the agent tree; \<open>env\<close> gives the routers
  that are still alive, \<open>None\<close> being a \<open>Weak\<close> that no longer upgrades.
\<close>

type_synonym ctl_id = nat
type_synonym ctl_heap = "ctl_id \<Rightarrow> run_control"

datatype run_terminal_route_kind =
    Request
  | ResolveSuccessCommitAuthoritatively
  | AbandonSuccessCommit
  | ReleaseSuccessCommit

type_synonym run_terminal_route =
  "ctl_heap \<Rightarrow> ctl_id \<Rightarrow> run_terminal_route_kind \<Rightarrow> run_cancellation_cause \<Rightarrow>
   (ctl_heap \<times> run_cancel_outcome) option"

type_synonym router_env = "router_id \<Rightarrow> run_terminal_route option"

definition same_owner :: "ctl_id \<Rightarrow> ctl_id \<Rightarrow> bool" where
  "same_owner a b = (a = b)"

definition route_terminal ::
  "router_env \<Rightarrow> ctl_heap \<Rightarrow> ctl_id \<Rightarrow> run_terminal_route_kind \<Rightarrow> run_cancellation_cause \<Rightarrow>
   (ctl_heap \<times> run_cancel_outcome) option" where
  "route_terminal env h i kind x =
     (case terminal_router (h i) of
        None \<Rightarrow> None
      | Some router \<Rightarrow>
          (case env router of None \<Rightarrow> None | Some route \<Rightarrow> route h i kind x))"

definition request_cancel ::
  "router_env \<Rightarrow> ctl_heap \<Rightarrow> ctl_id \<Rightarrow> run_cancellation_cause \<Rightarrow> ctl_heap \<times> run_cancel_outcome"
where
  "request_cancel env h i x =
     (case route_terminal env h i Request x of
        Some routed \<Rightarrow> routed
      | None \<Rightarrow> (let (rc, outcome) = request_cancel_local (h i) x in (h(i := rc), outcome)))"

definition cancel ::
  "router_env \<Rightarrow> ctl_heap \<Rightarrow> ctl_id \<Rightarrow> run_cancellation_cause \<Rightarrow> ctl_heap \<times> bool" where
  "cancel env h i x = (let (h', outcome) = request_cancel env h i x in (h', outcome = Applied))"

definition interrupt ::
  "router_env \<Rightarrow> ctl_heap \<Rightarrow> ctl_id \<Rightarrow> turn_interruption_cause \<Rightarrow> ctl_heap \<times> bool" where
  "interrupt env h i x = cancel env h i (Interruption x)"

definition supersede :: "router_env \<Rightarrow> ctl_heap \<Rightarrow> ctl_id \<Rightarrow> ctl_heap \<times> bool" where
  "supersede env h i = cancel env h i Superseded"

definition fail :: "router_env \<Rightarrow> ctl_heap \<Rightarrow> ctl_id \<Rightarrow> ustr \<Rightarrow> ctl_heap \<times> bool" where
  "fail env h i message = cancel env h i (Failure message)"

definition install_terminal_router ::
  "router_env \<Rightarrow> run_control \<Rightarrow> router_id \<Rightarrow> (run_control, unit) result" where
  "install_terminal_router env rc router =
     (case terminal_router rc of
        Some existing \<Rightarrow>
          if env existing \<noteq> None
          then (if existing = router then Ok rc else Err ())
          else Ok (rc\<lparr>terminal_router := Some router\<rparr>)
      | None \<Rightarrow> Ok (rc\<lparr>terminal_router := Some router\<rparr>))"

definition release_success_commit :: "router_env \<Rightarrow> ctl_heap \<Rightarrow> ctl_id \<Rightarrow> ctl_heap" where
  "release_success_commit env h i =
     (let (rc, published) = release_success_commit_local (h i); h' = h(i := rc)
      in case published of
           None \<Rightarrow> h'
         | Some x \<Rightarrow>
             (case route_terminal env h' i ReleaseSuccessCommit x of
                None \<Rightarrow> h' | Some (h'', _) \<Rightarrow> h''))"

text \<open>
  Methods that consume a reservation run its \<open>Drop\<close> at the end, which releases the
  reservation unless the method resolved it.
\<close>

definition reservation_seal :: "router_env \<Rightarrow> ctl_heap \<Rightarrow> ctl_id \<Rightarrow> ctl_heap \<times> bool" where
  "reservation_seal env h i =
     (let (rc, sealed) = seal_reserved_success (h i); h' = h(i := rc)
      in (if sealed then h' else release_success_commit env h' i, sealed))"

definition reservation_resolve_authoritative_cancellation ::
  "router_env \<Rightarrow> ctl_heap \<Rightarrow> ctl_id \<Rightarrow> run_cancellation_cause \<Rightarrow> ctl_heap \<times> bool" where
  "reservation_resolve_authoritative_cancellation env h i x =
     (let (h', resolved) =
            (case route_terminal env h i ResolveSuccessCommitAuthoritatively x of
               Some (h', outcome) \<Rightarrow> (h', outcome = Applied)
             | None \<Rightarrow>
                 (let (rc, ok) = resolve_success_commit_authoritatively_local (h i) x
                  in (h(i := rc), ok)))
      in (if resolved then h' else release_success_commit env h' i, resolved))"

definition reservation_abandon_with_cancellation ::
  "router_env \<Rightarrow> ctl_heap \<Rightarrow> ctl_id \<Rightarrow> run_cancellation_cause \<Rightarrow> ctl_heap \<times> bool" where
  "reservation_abandon_with_cancellation env h i fallback =
     (let (h', resolved) =
            (case route_terminal env h i AbandonSuccessCommit fallback of
               Some (h', outcome) \<Rightarrow> (h', outcome = Applied)
             | None \<Rightarrow>
                 (let (rc, r) = abandon_success_commit_local (h i) fallback
                  in (h(i := rc), r \<noteq> None)))
      in (if resolved then h' else release_success_commit env h' i, resolved))"

definition reservation_release :: "router_env \<Rightarrow> ctl_heap \<Rightarrow> ctl_id \<Rightarrow> ctl_heap" where
  "reservation_release env h i = release_success_commit env h i"

text \<open>\<open>Drop\<close> of a \<open>RootAdmissionGuard\<close>: aborts its own plan if it is still unsettled.\<close>

definition guard_drop :: "run_control \<Rightarrow> root_admission_plan \<Rightarrow> bool \<Rightarrow> run_control" where
  "guard_drop rc plan settled =
     (if settled then rc
      else case abort_root_admission rc plan of Inl _ \<Rightarrow> rc | Inr rc' \<Rightarrow> rc')"

section \<open>The classification machine\<close>

text \<open>
  One owner with everybody who may act on it: the classification, the wake token, the number
  of threads that have published a cancellation and not yet cancelled the token, and the live
  reservation objects.
\<close>

record control_world =
  cw_cls :: run_classification
  cw_wake :: bool
  cw_waking :: nat
  cw_reservations :: "run_reservation_kind list"

definition control_init :: "control_world \<Rightarrow> bool" where
  "control_init w \<longleftrightarrow>
     w = \<lparr>cw_cls = Open, cw_wake = False, cw_waking = 0, cw_reservations = []\<rparr>"

fun begin_kind :: "run_reservation_kind \<Rightarrow> run_classification \<Rightarrow> run_classification option" where
  "begin_kind SuccessCommit = begin_success_commit_cls"
| "begin_kind ToolEffectAdmission = begin_tool_effect_admission_cls"
| "begin_kind ToolEffectCommit = begin_tool_effect_commit_cls"
| "begin_kind ToolSettlement = begin_tool_settlement_cls"

fun release_kind :: "run_reservation_kind \<Rightarrow> run_classification \<Rightarrow> run_classification" where
  "release_kind SuccessCommit c = fst (release_success_commit_cls c)"
| "release_kind ToolEffectAdmission c = fst (resolve_tool_effect_admission_cls c)"
| "release_kind ToolEffectCommit c = fst (release_tool_effect_commit_cls c)"
| "release_kind ToolSettlement c = fst (release_tool_settlement_cls c)"

text \<open>The locked part of a method: a new classification, and a wake owed if it was published.\<close>

definition move_to :: "run_classification \<Rightarrow> control_world \<Rightarrow> control_world" where
  "move_to c w =
     w\<lparr>cw_cls := c,
       cw_waking := cw_waking w
         + (if cause_of (cw_cls w) = None \<and> cause_of c \<noteq> None then 1 else 0)\<rparr>"

inductive control_step :: "control_world \<Rightarrow> control_world \<Rightarrow> bool" where
  cs_request:
    "control_step w (move_to (fst (request_cancel_cls (cw_cls w) x)) w)"
| cs_linked:
    "cancellation_plan (cw_cls w) = Some plan \<Longrightarrow>
     apply_cancellation_plan (cw_cls w) x plan = Some (c, woken) \<Longrightarrow>
     control_step w (move_to c w)"
| cs_commit_cancel:
    "control_step w (move_to (fst (commit_cancel_cls (cw_cls w) x (durable :: (unit, ustr) result))) w)"
| cs_begin:
    "begin_kind k (cw_cls w) = Some c \<Longrightarrow>
     control_step w ((move_to c w)\<lparr>cw_reservations := k # cw_reservations w\<rparr>)"
| cs_release:
    "k \<in> set (cw_reservations w) \<Longrightarrow>
     control_step w
       ((move_to (release_kind k (cw_cls w)) w)\<lparr>cw_reservations := remove1 k (cw_reservations w)\<rparr>)"
| cs_seal_success:
    "control_step w (move_to (fst (seal_success_cls (cw_cls w))) w)"
| cs_seal_reserved:
    "SuccessCommit \<in> set (cw_reservations w) \<Longrightarrow>
     control_step w
       ((move_to (fst (seal_reserved_success_cls (cw_cls w))) w)
          \<lparr>cw_reservations := remove1 SuccessCommit (cw_reservations w)\<rparr>)"
| cs_resolve_success:
    "SuccessCommit \<in> set (cw_reservations w) \<Longrightarrow>
     control_step w
       ((move_to (fst (resolve_success_commit_cls (cw_cls w) x preserve)) w)
          \<lparr>cw_reservations := remove1 SuccessCommit (cw_reservations w)\<rparr>)"
| cs_wake:
    "0 < cw_waking w \<Longrightarrow>
     control_step w (w\<lparr>cw_wake := True, cw_waking := cw_waking w - 1\<rparr>)"

definition control_inv :: "control_world \<Rightarrow> bool" where
  "control_inv w \<longleftrightarrow>
     ((cw_wake w \<or> 0 < cw_waking w) \<longleftrightarrow> cause_of (cw_cls w) \<noteq> None) \<and>
     cw_reservations w = (case reservation_of (cw_cls w) of None \<Rightarrow> [] | Some (k, _) \<Rightarrow> [k])"

lemmas cls_moves =
  defer_cause_def commit_cancel_cls_def seal_success_cls_def reopen_or_publish_def
  begin_success_commit_cls_def begin_tool_effect_admission_cls_def
  begin_tool_effect_commit_cls_def begin_tool_settlement_cls_def

lemma reservation_of_begin:
  "begin_kind k c = Some c' \<Longrightarrow> c = Open \<and> reservation_of c' = Some (k, None)"
  by (cases k) (auto simp: cls_moves reservation_of_def split: if_splits)

lemma reservation_of_release:
  "reservation_of c = Some (k, p) \<Longrightarrow> release_kind k c = reopen_or_publish p"
  by (cases c) (auto simp: reservation_of_def)

lemma reservation_of_request [simp]:
  "map_option fst (reservation_of (fst (request_cancel_cls c x))) =
     (if c = Open then None else map_option fst (reservation_of c))"
  by (cases c) (auto simp: cls_moves reservation_of_def split: option.splits)

lemma reservation_excludes_cause: "reservation_of c = Some r \<Longrightarrow> cause_of c = None"
  by (cases c) (auto simp: reservation_of_def cause_of_def)

lemma move_to_simps [simp]:
  "cw_cls (move_to c w) = c" "cw_wake (move_to c w) = cw_wake w"
  "cw_reservations (move_to c w) = cw_reservations w"
  by (simp_all add: move_to_def)

text \<open>
  A move keeps the first half of the invariant unless it takes back a published cause, and
  the second half as soon as the reservation objects follow the classification.
\<close>

lemma control_inv_move:
  assumes "control_inv w"
    and "cause_of (cw_cls w) \<noteq> None \<Longrightarrow> cause_of c = cause_of (cw_cls w)"
    and "rs = (case reservation_of c of None \<Rightarrow> [] | Some (k, _) \<Rightarrow> [k])"
  shows "control_inv ((move_to c w)\<lparr>cw_reservations := rs\<rparr>)"
  using assms by (auto simp: control_inv_def move_to_def split: if_splits)

lemma control_inv_move_same:
  assumes "control_inv w"
    and "cause_of (cw_cls w) \<noteq> None \<Longrightarrow> cause_of c = cause_of (cw_cls w)"
    and "map_option fst (reservation_of c) = map_option fst (reservation_of (cw_cls w))"
  shows "control_inv (move_to c w)"
proof -
  have "cw_reservations w = (case reservation_of c of None \<Rightarrow> [] | Some (k, _) \<Rightarrow> [k])"
    using assms(1,3) by (auto simp: control_inv_def split: option.splits)
  from control_inv_move [OF assms(1,2) this] show ?thesis by (simp add: move_to_def)
qed

lemma request_keeps_cause:
  "cause_of c \<noteq> None \<Longrightarrow> cause_of (fst (request_cancel_cls c x)) = cause_of c"
  by (cases c) (auto simp: cause_of_def)

lemma live_reservation:
  "control_inv w \<Longrightarrow> k \<in> set (cw_reservations w) \<Longrightarrow>
     \<exists>p. reservation_of (cw_cls w) = Some (k, p) \<and> cw_reservations w = [k]"
  by (auto simp: control_inv_def split: option.splits)

lemma control_inv_request:
  "control_inv w \<Longrightarrow> control_inv (move_to (fst (request_cancel_cls (cw_cls w) x)) w)"
  by (rule control_inv_move_same)
     (auto simp: request_keeps_cause, auto simp: reservation_of_def)

text \<open>Consuming the reservation with any classification that is itself not reserved.\<close>

lemma control_inv_consume:
  assumes "control_inv w" and "k \<in> set (cw_reservations w)" and "reservation_of c = None"
  shows "control_inv ((move_to c w)\<lparr>cw_reservations := remove1 k (cw_reservations w)\<rparr>)"
proof (rule control_inv_move [OF assms(1)])
  from live_reservation [OF assms(1,2)] obtain p
    where p: "reservation_of (cw_cls w) = Some (k, p)" "cw_reservations w = [k]" by blast
  show "cause_of c = cause_of (cw_cls w)" if "cause_of (cw_cls w) \<noteq> None"
    using that reservation_excludes_cause [OF p(1)] by simp
  show "remove1 k (cw_reservations w) = (case reservation_of c of None \<Rightarrow> [] | Some (k, _) \<Rightarrow> [k])"
    using p(2) assms(3) by simp
qed

lemma success_reserved: "reservation_of c = Some (SuccessCommit, p) \<longleftrightarrow> c = SuccessCommitting p"
  by (cases c) (auto simp: reservation_of_def)

lemma control_step_inv:
  assumes inv: "control_inv w" and "control_step w w'"
  shows "control_inv w'"
  using assms(2)
proof (cases rule: control_step.cases)
  case (cs_request x)
  with inv show ?thesis by (simp add: control_inv_request)
next
  case (cs_linked plan x c woken)
  with inv show ?thesis using apply_planned [OF cs_linked(2), of x] by (auto simp: control_inv_request)
next
  case (cs_commit_cancel x durable)
  show ?thesis unfolding cs_commit_cancel
    by (rule control_inv_move_same [OF inv])
       (auto simp: commit_cancel_cls_def reservation_of_def cause_of_def split: sum.splits)
next
  case (cs_begin k c)
  have "cw_reservations w = []" using inv reservation_of_begin [OF cs_begin(2)]
    by (simp add: control_inv_def reservation_of_def)
  then show ?thesis unfolding cs_begin(1)
    using reservation_of_begin [OF cs_begin(2)] by (intro control_inv_move [OF inv]) (auto simp: cause_of_def)
next
  case (cs_release k)
  from live_reservation [OF inv cs_release(2)] obtain p
    where "reservation_of (cw_cls w) = Some (k, p)" by blast
  then have "release_kind k (cw_cls w) = reopen_or_publish p" by (rule reservation_of_release)
  then show ?thesis unfolding cs_release(1)
    by (intro control_inv_consume [OF inv cs_release(2)])
       (simp add: reopen_or_publish_def reservation_of_def split: option.split)
next
  case cs_seal_success
  show ?thesis unfolding cs_seal_success
    by (rule control_inv_move_same [OF inv]) (auto simp: seal_success_cls_def reservation_of_def cause_of_def)
next
  case cs_seal_reserved
  from live_reservation [OF inv cs_seal_reserved(2)] obtain p
    where "cw_cls w = SuccessCommitting p" by (auto simp: success_reserved)
  then show ?thesis unfolding cs_seal_reserved(1)
    by (intro control_inv_consume [OF inv cs_seal_reserved(2)]) (simp add: reservation_of_def)
next
  case (cs_resolve_success x preserve)
  from live_reservation [OF inv cs_resolve_success(2)] obtain p
    where "cw_cls w = SuccessCommitting p" by (auto simp: success_reserved)
  then show ?thesis unfolding cs_resolve_success(1)
    by (intro control_inv_consume [OF inv cs_resolve_success(2)])
       (simp add: reservation_of_def Let_def)
next
  case cs_wake
  with inv show ?thesis by (auto simp: control_inv_def)
qed

lemma control_init_inv: "control_init w \<Longrightarrow> control_inv w"
  by (simp add: control_init_def control_inv_def cause_of_def reservation_of_def)

interpretation controls: invariant_machine control_init control_step control_inv
  by unfold_locales (auto intro: control_init_inv control_step_inv)

section \<open>What the classification machine guarantees\<close>

lemma terminal_step:
  assumes inv: "control_inv w" and fin: "cw_cls w = c \<and> is_terminal c" and "control_step w w'"
  shows "cw_cls w' = c \<and> is_terminal c"
proof -
  have no_res: "cw_reservations w = []"
    using inv fin by (cases c) (auto simp: control_inv_def is_terminal_def reservation_of_def)
  from assms(3) have "cw_cls w' = c"
  proof (cases rule: control_step.cases)
    case (cs_linked plan x c' woken)
    with fin show ?thesis by (cases c) (auto simp: is_terminal_def)
  next
    case (cs_begin k c')
    with fin show ?thesis using reservation_of_begin [OF cs_begin(2)] by (auto simp: is_terminal_def)
  qed (use fin no_res in \<open>auto simp: is_terminal_def commit_cancel_cls_def seal_success_cls_def\<close>)
  with fin show ?thesis by simp
qed

lemma terminal_run:
  assumes "control_inv w" and "is_terminal (cw_cls w)" and "control_step\<^sup>*\<^sup>* w w'"
  shows "cw_cls w' = cw_cls w"
proof -
  have "cw_cls w' = cw_cls w \<and> is_terminal (cw_cls w)"
    by (rule controls.steps_stable [where P = "\<lambda>v. cw_cls v = cw_cls w \<and> is_terminal (cw_cls w)"])
       (use assms in \<open>auto dest: terminal_step\<close>)
  then show ?thesis ..
qed

text \<open>Runs used by the witnesses.\<close>

definition world_open :: control_world where
  "world_open = \<lparr>cw_cls = Open, cw_wake = False, cw_waking = 0, cw_reservations = []\<rparr>"

lemma world_open_init: "control_init world_open"
  by (simp add: control_init_def world_open_def)

definition world_stop :: control_world where
  "world_stop = \<lparr>cw_cls = Cancelled (Interruption UserStop), cw_wake = True, cw_waking = 0,
                  cw_reservations = []\<rparr>"

lemma world_stopped: "control_step\<^sup>*\<^sup>* world_open world_stop"
proof -
  let ?c = "Cancelled (Interruption UserStop)"
  have "control_step world_open
          \<lparr>cw_cls = ?c, cw_wake = False, cw_waking = 1, cw_reservations = []\<rparr>"
    using cs_request [of world_open "Interruption UserStop"]
    by (simp add: world_open_def move_to_def cause_of_def)
  moreover have "control_step
          \<lparr>cw_cls = ?c, cw_wake = False, cw_waking = 1, cw_reservations = []\<rparr>
          \<lparr>cw_cls = ?c, cw_wake = True, cw_waking = 0, cw_reservations = []\<rparr>"
    using cs_wake [of "\<lparr>cw_cls = ?c, cw_wake = False, cw_waking = 1, cw_reservations = []\<rparr>"]
    by simp
  ultimately show ?thesis
    unfolding world_stop_def by (blast intro: converse_rtranclp_into_rtranclp)
qed

lemma world_admitting:
  "control_step\<^sup>*\<^sup>* world_open
     \<lparr>cw_cls = EffectAdmitting (Some Superseded), cw_wake = False, cw_waking = 0,
      cw_reservations = [ToolEffectAdmission]\<rparr>"
proof -
  let ?w = "\<lparr>cw_cls = EffectAdmitting None, cw_wake = False, cw_waking = 0,
             cw_reservations = [ToolEffectAdmission]\<rparr>"
  have "control_step world_open ?w"
    using cs_begin [of ToolEffectAdmission world_open "EffectAdmitting None"]
    by (simp add: world_open_def move_to_def cause_of_def begin_tool_effect_admission_cls_def)
  moreover have "control_step ?w
     \<lparr>cw_cls = EffectAdmitting (Some Superseded), cw_wake = False, cw_waking = 0,
      cw_reservations = [ToolEffectAdmission]\<rparr>"
    using cs_request [of ?w Superseded] by (simp add: move_to_def cause_of_def defer_cause_def)
  ultimately show ?thesis by (blast intro: converse_rtranclp_into_rtranclp)
qed

text \<open>
  C1. A decided run stays decided: once an owner is sealed as a success or cancelled with a
  cause, no sequence of method calls by any number of threads changes the classification, and
  a sealed success never sees its wake token cancelled.
\<close>

theorem terminal_classification_is_final:
  assumes "control_init w0" and "control_step\<^sup>*\<^sup>* w0 w" and "is_terminal (cw_cls w)"
    and "control_step\<^sup>*\<^sup>* w w'"
  shows "cw_cls w' = cw_cls w \<and> (cw_cls w = SuccessSealed \<longrightarrow> \<not> cw_wake w')"
proof -
  have inv: "control_inv w" using assms(1,2) by (rule controls.reachable_invar)
  then have "cw_cls w' = cw_cls w" using assms(3,4) by (rule terminal_run)
  moreover have "control_inv w'" using assms(4) inv by (rule controls.steps_invar)
  ultimately show ?thesis by (auto simp: control_inv_def cause_of_def)
qed

theorem terminal_classification_is_final_witness:
  "cw_cls (move_to (fst (request_cancel_cls (cw_cls world_stop) Superseded)) world_stop) =
     Cancelled (Interruption UserStop)"
  using terminal_classification_is_final
      [OF world_open_init world_stopped _ r_into_rtranclp
       [where r = control_step, OF cs_request [of world_stop Superseded]]]
  by (simp add: is_terminal_def world_stop_def)



text \<open>
  A reservation delays competing terminal producers without losing the first one: however
  many causes arrive between taking a reservation of any kind and giving it back, the owner
  ends cancelled with the first of them, and open if there was none.
\<close>

theorem reservation_publishes_first_cause:
  assumes "begin_kind k c = Some c'"
  shows "release_kind k (request_all c' xs) = (case xs of [] \<Rightarrow> Open | x # _ \<Rightarrow> Cancelled x)"
  using assms success_commit.first_cause_published effect_admission.first_cause_published
    effect_commit.first_cause_published settlement.first_cause_published
  by (cases k) auto

theorem reservation_publishes_first_cause_witness:
  "release_kind ToolSettlement
     (request_all (ToolSettling None) [Interruption UserStop, Superseded]) =
   Cancelled (Interruption UserStop)"
  using reservation_publishes_first_cause
      [of ToolSettlement Open "ToolSettling None" "[Interruption UserStop, Superseded]"]
  by (simp add: begin_tool_settlement_cls_def)

text \<open>
  The tool effect gate: while an admission reservation is live, resolving it answers
  \<open>Ok\<close> exactly if no terminal producer arrived since the reservation, and then leaves the
  owner open and unwoken; otherwise it answers with the cause that arrived and publishes it.
  The error \<open>lost its runtime owner\<close> is never produced for a live reservation.
\<close>

theorem effect_admission_verdict:
  assumes "control_init w0" and "control_step\<^sup>*\<^sup>* w0 w"
    and "ToolEffectAdmission \<in> set (cw_reservations w)"
  shows "\<exists>p. cw_cls w = EffectAdmitting p \<and> \<not> cw_wake w \<and>
             resolve_tool_effect_admission_cls (cw_cls w) =
               (case p of None \<Rightarrow> (Open, Ok ()) | Some x \<Rightarrow> (Cancelled x, Err x))"
proof -
  have inv: "control_inv w" using assms(1,2) by (rule controls.reachable_invar)
  from live_reservation [OF this assms(3)] obtain p
    where "reservation_of (cw_cls w) = Some (ToolEffectAdmission, p)" by blast
  then have "cw_cls w = EffectAdmitting p" by (cases "cw_cls w") (auto simp: reservation_of_def)
  with inv show ?thesis
    by (auto simp: reopen_or_publish_def control_inv_def cause_of_def split: option.split)
qed

theorem effect_admission_verdict_witness:
  "\<exists>p. EffectAdmitting (Some Superseded) = EffectAdmitting p \<and>
       resolve_tool_effect_admission_cls (EffectAdmitting (Some Superseded)) =
         (case p of None \<Rightarrow> (Open, Ok ()) | Some x \<Rightarrow> (Cancelled x, Err x))"
  using effect_admission_verdict [OF world_open_init world_admitting] by simp

text \<open>When an owner can still accept a terminal cause.\<close>

definition accepts_cause :: "run_classification \<Rightarrow> bool" where
  "accepts_cause c \<longleftrightarrow> c = Open \<or> (\<exists>k. reservation_of c = Some (k, None))"

lemma plan_Some_iff: "(\<exists>plan. cancellation_plan c = Some plan) \<longleftrightarrow> accepts_cause c"
  by (cases c) (auto simp: accepts_cause_def reservation_of_def split: option.splits)

text \<open>
  C6. A linked cancellation is all or nothing and never panics: on two distinct owners it
  either leaves both untouched and is \<open>Rejected\<close>, which happens exactly if one of them
  already has a cause or is decided, or it classifies both as if each had been asked alone.
  It reports \<open>Applied\<close> exactly if at least one of the two is cancelled at once.
\<close>

theorem linked_cancellation_all_or_nothing:
  "\<exists>p' s' outcome.
     request_linked_cancellation p pc s sc = Some (p', s', outcome) \<and>
     (outcome \<noteq> Rejected \<longleftrightarrow>
        accepts_cause (classification p) \<and> accepts_cause (classification s)) \<and>
     (if outcome = Rejected then p' = p \<and> s' = s
      else p' = fst (request_cancel_local p pc) \<and> s' = fst (request_cancel_local s sc)) \<and>
     (outcome = Applied \<longleftrightarrow>
        outcome \<noteq> Rejected \<and> (classification p = Open \<or> classification s = Open))"
proof (cases "\<exists>a b. cancellation_plan (classification p) = Some a \<and>
                     cancellation_plan (classification s) = Some b")
  case False
  then have "linked_cancellation_locked (classification p) pc (classification s) sc =
               Some \<lparr>linked_primary = classification p, linked_secondary = classification s,
                     linked_outcome = Rejected, wake_primary = False, wake_secondary = False\<rparr>"
    by (auto simp: linked_cancellation_locked_def Let_def split: option.splits)
  moreover from False have "\<not> (accepts_cause (classification p) \<and> accepts_cause (classification s))"
    using plan_Some_iff by blast
  ultimately show ?thesis
    by (auto simp: request_linked_cancellation_def publish_def wake_if_def)
next
  case True
  then obtain a b where a: "cancellation_plan (classification p) = Some a"
    and b: "cancellation_plan (classification s) = Some b" by blast
  let ?p = "fst (request_cancel_cls (classification p) pc)"
  let ?s = "fst (request_cancel_cls (classification s) sc)"
  have pa: "apply_cancellation_plan (classification p) pc a = Some (?p, a = Apply)"
    using apply_planned [OF a, of pc] by auto
  have sb: "apply_cancellation_plan (classification s) sc b = Some (?s, b = Apply)"
    using apply_planned [OF b, of sc] by auto
  have acc: "accepts_cause (classification p)" "accepts_cause (classification s)"
    using a b plan_Some_iff by blast+
  have kinds: "a = Apply \<longleftrightarrow> classification p = Open" "b = Apply \<longleftrightarrow> classification s = Open"
    using a b plan_Apply_iff [of "classification p"] plan_Apply_iff [of "classification s"]
    by auto
  have "\<exists>outcome. outcome \<noteq> Rejected \<and> (outcome = Applied \<longleftrightarrow> a = Apply \<or> b = Apply) \<and>
          linked_cancellation_locked (classification p) pc (classification s) sc =
            Some \<lparr>linked_primary = ?p, linked_secondary = ?s, linked_outcome = outcome,
                  wake_primary = (a = Apply), wake_secondary = (b = Apply)\<rparr>"
    using a b pa sb
    by (cases a; cases b)
       (simp_all add: linked_cancellation_locked_def del: apply_cancellation_plan.simps)
  then obtain outcome where o: "outcome \<noteq> Rejected" "outcome = Applied \<longleftrightarrow> a = Apply \<or> b = Apply"
    and l: "linked_cancellation_locked (classification p) pc (classification s) sc =
            Some \<lparr>linked_primary = ?p, linked_secondary = ?s, linked_outcome = outcome,
                  wake_primary = (a = Apply), wake_secondary = (b = Apply)\<rparr>" by blast
  have r: "request_cancel_local p pc = (publish p ?p (a = Apply), snd (request_cancel_cls (classification p) pc))"
    "request_cancel_local s sc = (publish s ?s (b = Apply), snd (request_cancel_cls (classification s) sc))"
    by (simp_all add: request_cancel_local_def case_prod_beta request_cancel_Applied kinds)
  show ?thesis
    using o acc kinds by (auto simp: request_linked_cancellation_def l r)
qed

end
