(* ===== verification/Rust_Text.thy ===== *)
theory Rust_Text
  imports Prelude
begin

text \<open>
  The string operations of Rust's standard library that the modelled code uses, on strings as
  lists of Unicode scalar values: \<open>trim\<close> and its variants (with the \<open>White_Space\<close>
  property), prefixes and suffixes, \<open>lines\<close>, \<open>split_inclusive\<close>, \<open>split\<close>, \<open>join\<close>,
  \<open>find\<close>, \<open>rfind\<close> and decimal formatting. They model the language's library and
  therefore map to no file of the repository.
\<close>

section \<open>Characters\<close>

abbreviation LF :: uchar where "LF \<equiv> 10"
abbreviation CR :: uchar where "CR \<equiv> 13"
abbreviation SP :: uchar where "SP \<equiv> 32"

definition is_whitespace :: "uchar \<Rightarrow> bool" where
  "is_whitespace c \<longleftrightarrow>
     (9 \<le> c \<and> c \<le> 13) \<or> c = 32 \<or> c = 133 \<or> c = 160 \<or> c = 5760 \<or>
     (8192 \<le> c \<and> c \<le> 8202) \<or> c = 8232 \<or> c = 8233 \<or> c = 8239 \<or> c = 8287 \<or> c = 12288"

section \<open>Trimming\<close>

definition trim_start :: "ustr \<Rightarrow> ustr" where
  "trim_start s = dropWhile is_whitespace s"

definition trim_end :: "ustr \<Rightarrow> ustr" where
  "trim_end s = rev (dropWhile is_whitespace (rev s))"

definition trim :: "ustr \<Rightarrow> ustr" where
  "trim s = trim_end (trim_start s)"

definition trim_matches :: "(uchar \<Rightarrow> bool) \<Rightarrow> ustr \<Rightarrow> ustr" where
  "trim_matches p s = rev (dropWhile p (rev (dropWhile p s)))"

lemma trim_Nil [simp]: "trim [] = []" "trim_start [] = []" "trim_end [] = []"
  by (simp_all add: trim_def trim_start_def trim_end_def)

lemma trim_id:
  assumes "s \<noteq> []" and "\<not> is_whitespace (hd s)" and "\<not> is_whitespace (last s)"
  shows "trim s = s" "trim_end s = s" "trim_start s = s"
proof -
  from assms show start: "trim_start s = s"
    by (cases s) (simp_all add: trim_start_def)
  from assms show "trim_end s = s"
    by (cases s rule: rev_cases) (simp_all add: trim_end_def)
  with start show "trim s = s" by (simp add: trim_def)
qed

lemma trim_end_id: "s \<noteq> [] \<Longrightarrow> \<not> is_whitespace (last s) \<Longrightarrow> trim_end s = s"
  by (cases s rule: rev_cases) (simp_all add: trim_end_def)

lemma hd_trim_end: "trim_end s \<noteq> [] \<Longrightarrow> hd (trim_end s) = hd s"
proof -
  assume ne: "trim_end s \<noteq> []"
  have "s = trim_end s @ rev (takeWhile is_whitespace (rev s))"
    by (metis rev_append rev_rev_ident takeWhile_dropWhile_id trim_end_def)
  with ne show ?thesis by (metis hd_append2)
qed

lemma trim_eq_Nil_iff: "trim s = [] \<longleftrightarrow> list_all is_whitespace s"
proof -
  have "list_all is_whitespace s \<longleftrightarrow> list_all is_whitespace (dropWhile is_whitespace s)"
    by (induction s) auto
  then show ?thesis
    by (auto simp: trim_def trim_end_def trim_start_def dropWhile_eq_Nil_conv list_all_iff)
qed

section \<open>Prefixes and suffixes\<close>

fun strip_prefix :: "ustr \<Rightarrow> ustr \<Rightarrow> ustr option" where
  "strip_prefix [] s = Some s"
| "strip_prefix (p # ps) [] = None"
| "strip_prefix (p # ps) (c # cs) = (if c = p then strip_prefix ps cs else None)"

definition starts_with :: "ustr \<Rightarrow> ustr \<Rightarrow> bool" where
  "starts_with p s = (strip_prefix p s \<noteq> None)"

definition strip_suffix :: "ustr \<Rightarrow> ustr \<Rightarrow> ustr option" where
  "strip_suffix p s = map_option rev (strip_prefix (rev p) (rev s))"

definition ends_with :: "ustr \<Rightarrow> ustr \<Rightarrow> bool" where
  "ends_with p s = (strip_suffix p s \<noteq> None)"

lemma strip_prefix_iff: "strip_prefix p s = Some r \<longleftrightarrow> s = p @ r"
  by (induction p s rule: strip_prefix.induct) auto

lemma strip_prefix_append [simp]: "strip_prefix p (p @ r) = Some r"
  by (simp add: strip_prefix_iff)

lemma starts_with_iff: "starts_with p s \<longleftrightarrow> (\<exists>r. s = p @ r)"
  by (auto simp: starts_with_def strip_prefix_iff)

lemma starts_with_append [simp]: "starts_with p (p @ r)"
  by (simp add: starts_with_def)

lemma strip_suffix_iff: "strip_suffix p s = Some r \<longleftrightarrow> s = r @ p"
proof -
  have "strip_suffix p s = Some r \<longleftrightarrow> strip_prefix (rev p) (rev s) = Some (rev r)"
    by (auto simp: strip_suffix_def)
  also have "\<dots> \<longleftrightarrow> s = r @ p"
    by (metis rev_append rev_rev_ident strip_prefix_iff)
  finally show ?thesis .
qed

lemma strip_suffix_append [simp]: "strip_suffix p (r @ p) = Some r"
  by (simp add: strip_suffix_iff)

lemma strip_suffix_None: "strip_suffix p s = None \<longleftrightarrow> (\<forall>r. s \<noteq> r @ p)"
  by (metis not_Some_eq strip_suffix_iff)

lemma starts_with_hd: "starts_with p s \<Longrightarrow> p \<noteq> [] \<Longrightarrow> s \<noteq> [] \<and> hd s = hd p"
  by (cases p) (auto simp: starts_with_iff)

section \<open>Lines, splitting and joining\<close>

fun split_inclusive :: "ustr \<Rightarrow> ustr list" where
  "split_inclusive [] = []"
| "split_inclusive (c # cs) =
     (if c = LF then [c] # split_inclusive cs
      else case split_inclusive cs of [] \<Rightarrow> [[c]] | l # ls \<Rightarrow> (c # l) # ls)"

text \<open>One line without its line feed, and without a carriage return before it.\<close>

definition strip_line_ending :: "ustr \<Rightarrow> ustr" where
  "strip_line_ending l =
     (case strip_suffix [LF] l of
        None \<Rightarrow> l
      | Some l' \<Rightarrow> (case strip_suffix [CR] l' of None \<Rightarrow> l' | Some l'' \<Rightarrow> l''))"

definition str_lines :: "ustr \<Rightarrow> ustr list" where
  "str_lines s = map strip_line_ending (split_inclusive s)"

fun split_char :: "uchar \<Rightarrow> ustr \<Rightarrow> ustr list" where
  "split_char d [] = [[]]"
| "split_char d (c # cs) =
     (if c = d then [] # split_char d cs
      else case split_char d cs of [] \<Rightarrow> [[c]] | l # ls \<Rightarrow> (c # l) # ls)"

fun join :: "ustr \<Rightarrow> ustr list \<Rightarrow> ustr" where
  "join sep [] = []"
| "join sep [l] = l"
| "join sep (l # m # ls) = l @ sep @ join sep (m # ls)"

lemma concat_split_inclusive [simp]: "concat (split_inclusive s) = s"
  by (induction s) (auto split: list.splits)

lemma split_inclusive_Nil_iff [simp]: "split_inclusive s = [] \<longleftrightarrow> s = []"
  by (cases s) (auto split: list.splits)

lemma split_inclusive_no_LF:
  "LF \<notin> set l \<Longrightarrow> split_inclusive l = (if l = [] then [] else [l])"
  by (induction l) (auto split: list.splits)

lemma split_inclusive_line:
  "LF \<notin> set l \<Longrightarrow> split_inclusive (l @ LF # s) = (l @ [LF]) # split_inclusive s"
  by (induction l) auto

text \<open>Every element but the last ends in its only line feed.\<close>

lemma split_inclusive_element:
  "l \<in> set (split_inclusive s) \<Longrightarrow> l \<noteq> [] \<and> LF \<notin> set (butlast l)"
proof (induction s arbitrary: l)
  case (Cons c cs)
  then show ?case
    by (cases "split_inclusive cs") (auto split: if_splits)
qed simp

lemma split_inclusive_butlast:
  "l \<in> set (butlast (split_inclusive s)) \<Longrightarrow> last l = LF"
proof (induction s arbitrary: l)
  case (Cons c cs)
  then show ?case
    using split_inclusive_element [of _ cs]
    by (cases "split_inclusive cs") (fastforce split: if_splits)+
qed simp

lemma strip_line_ending_LF [simp]:
  "CR \<notin> set l \<Longrightarrow> strip_line_ending (l @ [LF]) = l"
proof -
  assume "CR \<notin> set l"
  then have "strip_suffix [CR] l = None" by (auto simp: strip_suffix_None)
  then show ?thesis by (simp add: strip_line_ending_def)
qed

lemma strip_line_ending_plain [simp]: "LF \<notin> set l \<Longrightarrow> strip_line_ending l = l"
proof -
  assume "LF \<notin> set l"
  then have "strip_suffix [LF] l = None" by (auto simp: strip_suffix_None)
  then show ?thesis by (simp add: strip_line_ending_def)
qed

text \<open>Joining lines and splitting them again is the identity.\<close>

lemma str_lines_join:
  assumes "\<forall>l \<in> set ls. LF \<notin> set l \<and> CR \<notin> set l" and "ls \<noteq> []" and "last ls \<noteq> []"
  shows "str_lines (join [LF] ls) = ls"
  using assms
proof (induction "[LF]" ls rule: join.induct)
  case (2 l)
  then show ?case by (simp add: str_lines_def split_inclusive_no_LF)
next
  case (3 l m ls)
  then have "str_lines (join [LF] (m # ls)) = m # ls" by simp
  with 3 show ?case by (simp add: str_lines_def split_inclusive_line)
qed simp

lemma join_eq_Nil_iff: "join [LF] ls = [] \<longleftrightarrow> ls = [] \<or> ls = [[]]"
  by (induction "[LF]" ls rule: join.induct) auto

lemma set_join: "set (join sep ls) \<subseteq> \<Union> (set ` set ls) \<union> set sep"
  by (induction sep ls rule: join.induct) auto

lemma hd_join: "ls \<noteq> [] \<Longrightarrow> hd ls \<noteq> [] \<Longrightarrow> hd (join sep ls) = hd (hd ls)"
  by (induction sep ls rule: join.induct) auto

lemma join_not_Nil: "ls \<noteq> [] \<Longrightarrow> hd ls \<noteq> [] \<Longrightarrow> join sep ls \<noteq> []"
  by (induction sep ls rule: join.induct) auto

lemma last_join: "ls \<noteq> [] \<Longrightarrow> last ls \<noteq> [] \<Longrightarrow> last (join sep ls) = last (last ls) \<and> join sep ls \<noteq> []"
  by (induction sep ls rule: join.induct) auto

lemma split_char_not_Nil [simp]: "split_char d s \<noteq> []"
  by (cases s) (auto split: list.splits)

lemma join_split_char: "join [d] (split_char d s) = s"
proof (induction s)
  case (Cons c s)
  obtain l ls where "split_char d s = l # ls" by (cases "split_char d s") auto
  with Cons show ?case by (cases ls) auto
qed simp

section \<open>Searching and replacing\<close>

fun find_str :: "ustr \<Rightarrow> ustr \<Rightarrow> nat option" where
  "find_str p s =
     (if starts_with p s then Some 0
      else case s of [] \<Rightarrow> None | c # cs \<Rightarrow> map_option Suc (find_str p cs))"

declare find_str.simps [simp del]

fun rfind_str :: "ustr \<Rightarrow> ustr \<Rightarrow> nat option" where
  "rfind_str p s =
     (case (case s of [] \<Rightarrow> None | c # cs \<Rightarrow> map_option Suc (rfind_str p cs)) of
        Some i \<Rightarrow> Some i
      | None \<Rightarrow> if starts_with p s then Some 0 else None)"

declare rfind_str.simps [simp del]

fun replace_crlf :: "ustr \<Rightarrow> ustr" where
  "replace_crlf (a # b # s) =
     (if a = CR \<and> b = LF then LF # replace_crlf s else a # replace_crlf (b # s))"
| "replace_crlf s = s"

definition replace_char :: "uchar \<Rightarrow> uchar \<Rightarrow> ustr \<Rightarrow> ustr" where
  "replace_char a b s = map (\<lambda>c. if c = a then b else c) s"

lemma replace_crlf_id [simp]: "CR \<notin> set s \<Longrightarrow> replace_crlf s = s"
  by (induction s rule: replace_crlf.induct) auto

lemma replace_char_id [simp]: "a \<notin> set s \<Longrightarrow> replace_char a b s = s"
  unfolding replace_char_def by (rule map_idI) auto

lemma find_str_None: "find_str p s = None \<longleftrightarrow> (\<forall>a b. s \<noteq> a @ p @ b)"
proof (induction s)
  case Nil
  show ?case by (subst find_str.simps) (auto simp: starts_with_iff)
next
  case (Cons c cs)
  show ?case
  proof (cases "starts_with p (c # cs)")
    case True
    then show ?thesis by (subst find_str.simps) (fastforce simp: starts_with_iff)
  next
    case False
    then show ?thesis
      by (subst find_str.simps) (auto simp: Cons.IH starts_with_iff append_eq_Cons_conv Cons_eq_append_conv)
  qed
qed

section \<open>Decimal numbers\<close>

fun show_nat :: "nat \<Rightarrow> ustr" where
  "show_nat n = (if n < 10 then [48 + n] else show_nat (n div 10) @ [48 + n mod 10])"

declare show_nat.simps [simp del]

end
