(* ===== verification/Patch_Parser.thy ===== *)
theory Patch_Parser
  imports Rust_Text
begin

text \<open>
  The patch language of the \<open>apply_patch\<close> tool (\<open>src/src/edit/patch.rs\<close>): its data, the
  normalisation of model-written text (code fences, heredoc wrappers, surrounding prose) and
  the line-based parser. The parser's index into the line vector is the list of the lines that
  are left; the last line, \<open>*** End Patch\<close>, is never part of it, as in the source's loop
  condition \<open>index < lines.len() - 1\<close>.
\<close>

section \<open>Data\<close>

datatype patch_error = Message ustr

datatype patch_line = Context ustr | Delete ustr | Insert ustr

record patch_chunk =
  change_context :: "ustr option"
  is_end_of_file :: bool
  chunk_lines :: "patch_line list"

datatype patch_operation =
    AddFile ustr ustr
  | UpdateFile ustr "patch_chunk list" "ustr option"
  | DeleteFile ustr

section \<open>Markers\<close>

definition begin_patch :: ustr where "begin_patch = lit ''*** Begin Patch''"
definition end_patch :: ustr where "end_patch = lit ''*** End Patch''"
definition add_file :: ustr where "add_file = lit ''*** Add File: ''"
definition delete_file :: ustr where "delete_file = lit ''*** Delete File: ''"
definition update_file :: ustr where "update_file = lit ''*** Update File: ''"
definition move_to_marker :: ustr where "move_to_marker = lit ''*** Move to: ''"
definition end_of_file :: ustr where "end_of_file = lit ''*** End of File''"
definition stars :: ustr where "stars = lit ''*** ''"
definition at_at :: ustr where "at_at = lit ''@@''"

lemmas markers =
  begin_patch_def end_patch_def add_file_def delete_file_def update_file_def move_to_marker_def
  end_of_file_def stars_def at_at_def lit_def

section \<open>Normalisation\<close>

definition strip_code_fence :: "ustr \<Rightarrow> ustr" where
  "strip_code_fence text =
     (let ls = str_lines text
      in if 2 \<le> length ls \<and> starts_with (lit ''```'') (trim_start (hd ls)) \<and>
            trim (last ls) = lit ''```''
         then join [LF] (butlast (tl ls)) else text)"

definition extract_heredoc_token :: "ustr \<Rightarrow> ustr option" where
  "extract_heredoc_token header =
     (case find_str (lit ''<<'') header of
        None \<Rightarrow> None
      | Some i \<Rightarrow>
          let token = trim (drop (i + 2) header)
          in if token = [] then None
             else Some (trim_matches (\<lambda>c. c = 39 \<or> c = 34 \<or> c = 59) token))"

definition strip_heredoc_wrapper :: "ustr \<Rightarrow> ustr" where
  "strip_heredoc_wrapper text =
     (let trimmed = trim text
      in case find_str [LF] trimmed of
           None \<Rightarrow> trimmed
         | Some i \<Rightarrow>
             (let header = trim (take i trimmed); body = drop (i + 1) trimmed
              in case extract_heredoc_token header of
                   None \<Rightarrow> trimmed
                 | Some token \<Rightarrow>
                     (case rfind_str (LF # token) body of
                        Some j \<Rightarrow> take j body
                      | None \<Rightarrow> trimmed)))"

fun position :: "('a \<Rightarrow> bool) \<Rightarrow> 'a list \<Rightarrow> nat option" where
  "position p [] = None"
| "position p (x # xs) = (if p x then Some 0 else map_option Suc (position p xs))"

definition rposition :: "('a \<Rightarrow> bool) \<Rightarrow> 'a list \<Rightarrow> nat option" where
  "rposition p xs = map_option (\<lambda>i. length xs - 1 - i) (position p (rev xs))"

definition extract_marked_patch :: "ustr \<Rightarrow> ustr" where
  "extract_marked_patch text =
     (let ls = str_lines text
      in case (position (\<lambda>l. trim l = begin_patch) ls, rposition (\<lambda>l. trim l = end_patch) ls) of
           (Some b, Some e) \<Rightarrow>
             if b \<le> e then join [LF] (drop b (take (e + 1) ls)) else text
         | _ \<Rightarrow> text)"

definition normalize_patch_text :: "ustr \<Rightarrow> ustr" where
  "normalize_patch_text text =
     (let normalized_newlines = replace_char CR LF (replace_crlf text);
          without_fence = strip_code_fence (trim normalized_newlines);
          without_heredoc = strip_heredoc_wrapper (trim without_fence);
          extracted = extract_marked_patch (trim without_heredoc)
      in trim extracted)"

section \<open>Hunks\<close>

definition parse_hunk_header :: "ustr \<Rightarrow> (ustr option, patch_error) result" where
  "parse_hunk_header header0 =
     (let header = trim_end header0
      in if header = at_at then Ok None
         else case strip_prefix (at_at @ [SP]) header of
                Some c \<Rightarrow> Ok (Some c)
              | None \<Rightarrow>
                  Err (Message (lit ''invalid hunk header `'' @ header @
                                lit ''`; use bare `@@` or `@@ context`'')))"

definition parse_hunk_line :: "ustr \<Rightarrow> (patch_line, patch_error) result" where
  "parse_hunk_line line =
     (case line of
        [] \<Rightarrow> Ok (Context [])
      | c # cs \<Rightarrow>
          if c = 32 then Ok (Context cs)
          else if c = 43 then Ok (Insert cs)
          else if c = 45 then Ok (Delete cs)
          else Err (Message
            (lit ''unexpected patch hunk line `'' @ line @
             lit ''`; every update hunk body line must start with one space for context, `-` for deletion, or `+` for insertion'')))"

definition is_eof_marker :: "ustr \<Rightarrow> bool" where
  "is_eof_marker line = (trim_end line = end_of_file)"

definition ends_hunk :: "ustr \<Rightarrow> bool" where
  "ends_hunk line =
     (starts_with at_at line \<or> (starts_with stars line \<and> \<not> is_eof_marker line))"

text \<open>
  The body loop of \<open>parse_hunk_body\<close>: the lines read so far, whether the end-of-file marker
  closed the hunk, and the lines that are left.
\<close>

fun parse_hunk_loop ::
  "patch_line list \<Rightarrow> ustr list \<Rightarrow> (patch_line list \<times> bool \<times> ustr list, patch_error) result"
where
  "parse_hunk_loop body [] = Ok (body, False, [])"
| "parse_hunk_loop body (line # rest) =
     (if ends_hunk line then Ok (body, False, line # rest)
      else if is_eof_marker line then
        if body = [] then
          Err (Message (lit ''`*** End of File` must follow at least one update hunk line''))
        else
          (case dropWhile (\<lambda>l. trim_end l = []) rest of
             [] \<Rightarrow> Ok (body, True, [])
           | next_line # rest' \<Rightarrow>
               if starts_with at_at next_line \<or> starts_with stars next_line
               then Ok (body, True, next_line # rest')
               else Err (Message
                 (lit ''expected `@@` or a file marker after `*** End of File`, got `'' @
                  next_line @ lit ''`'')))
      else and_then (parse_hunk_line line) (\<lambda>parsed. parse_hunk_loop (body @ [parsed]) rest))"

definition parse_hunk_body ::
  "ustr option \<Rightarrow> ustr list \<Rightarrow> (patch_chunk \<times> ustr list, patch_error) result" where
  "parse_hunk_body context_name ls =
     and_then (parse_hunk_loop [] ls)
       (\<lambda>(body, eof, rest).
          if body = [] then Err (Message (lit ''update hunk body cannot be empty''))
          else Ok (\<lparr>change_context = context_name, is_end_of_file = eof, chunk_lines = body\<rparr>, rest))"

definition parse_hunk ::
  "ustr \<Rightarrow> ustr list \<Rightarrow> (patch_chunk \<times> ustr list, patch_error) result" where
  "parse_hunk header ls =
     (if \<not> starts_with at_at header then
        Err (Message (lit ''expected hunk header, got `'' @ header @ lit ''`''))
      else and_then (parse_hunk_header header) (\<lambda>c. parse_hunk_body c (tl ls)))"

definition parse_implicit_hunk :: "ustr list \<Rightarrow> (patch_chunk \<times> ustr list, patch_error) result" where
  "parse_implicit_hunk ls = parse_hunk_body None ls"

lemma parse_hunk_loop_stop:
  "parse_hunk_loop body (line # tail) = Ok (body', eof, rest) \<Longrightarrow>
     ends_hunk line \<or> is_eof_marker line \<Longrightarrow>
     body' = body \<and>
     (rest = [] \<or> rest = line # tail \<or> rest = dropWhile (\<lambda>l. trim_end l = []) tail)"
  by (auto split: if_splits list.splits)

text \<open>The body reader never gives back more lines than it got, and uses one at least.\<close>

lemma parse_hunk_loop_length:
  "parse_hunk_loop body ls = Ok (body', eof, rest) \<Longrightarrow>
     length rest + length body' \<le> length ls + length body"
proof (induction body ls arbitrary: rest rule: parse_hunk_loop.induct)
  case (2 body line tail)
  show ?case
  proof (cases "ends_hunk line \<or> is_eof_marker line")
    case True
    with parse_hunk_loop_stop [OF 2(2)] show ?thesis
      using length_dropWhile_le [of "\<lambda>l. trim_end l = []" tail] by auto
  next
    case False
    with 2(2) obtain p where "parse_hunk_line line = Ok p"
      and "parse_hunk_loop (body @ [p]) tail = Ok (body', eof, rest)"
      by (auto simp: and_then_Ok_iff)
    with 2(1) [of p rest] False show ?thesis by simp
  qed
qed auto

lemma parse_hunk_body_length:
  assumes "parse_hunk_body c ls = Ok (chunk, rest)"
  shows "length rest < length ls"
proof -
  from assms obtain body eof where "parse_hunk_loop [] ls = Ok (body, eof, rest)" "body \<noteq> []"
    by (auto simp: parse_hunk_body_def and_then_Ok_iff split: if_splits)
  then show ?thesis
    using parse_hunk_loop_length [of "[]" ls body eof rest] by (cases body) auto
qed

lemma parse_hunk_length:
  assumes "parse_hunk h ls = Ok (chunk, rest)"
  shows "length rest < length ls"
proof -
  from assms obtain c where "parse_hunk_body c (tl ls) = Ok (chunk, rest)"
    by (auto simp: parse_hunk_def and_then_Ok_iff split: if_splits)
  then have "length rest < length (tl ls)" by (rule parse_hunk_body_length)
  then show ?thesis by simp
qed

section \<open>Sections\<close>

function parse_hunks :: "ustr list \<Rightarrow> (patch_chunk list \<times> ustr list, patch_error) result" where
  "parse_hunks [] = Ok ([], [])"
| "parse_hunks (header # rest) =
     (if starts_with stars header then Ok ([], header # rest)
      else case (if starts_with at_at header then parse_hunk header (header # rest)
                 else parse_implicit_hunk (header # rest)) of
             Inl e \<Rightarrow> Err e
           | Inr (hunk, rest') \<Rightarrow>
               and_then (parse_hunks rest') (\<lambda>(hunks, rest''). Ok (hunk # hunks, rest'')))"
  by pat_completeness auto
termination
  by (relation "measure length")
     (auto simp: parse_implicit_hunk_def split: if_splits
           dest!: parse_hunk_length parse_hunk_body_length sym [of "Inr _"])

fun parse_add_body :: "ustr list \<Rightarrow> (ustr list \<times> ustr list, patch_error) result" where
  "parse_add_body [] = Ok ([], [])"
| "parse_add_body (raw # rest) =
     (if starts_with stars raw then Ok ([], raw # rest)
      else case strip_prefix [43] raw of
             None \<Rightarrow> Err (Message
               (lit ''add file body line `'' @ raw @
                lit ''` must start with `+`; all content lines, including blank lines, indented lines, and source-code lines, must be prefixed with `+` (edit_patch_parser_feedback_language_neutral)''))
           | Some body \<Rightarrow>
               and_then (parse_add_body rest) (\<lambda>(contents, rest'). Ok (body # contents, rest')))"

definition has_change_marker :: "patch_chunk list \<Rightarrow> bool" where
  "has_change_marker hunks =
     list_ex (\<lambda>h. list_ex (\<lambda>l. case l of Insert _ \<Rightarrow> True | Delete _ \<Rightarrow> True | Context _ \<Rightarrow> False)
                    (chunk_lines h)) hunks"

definition parse_move_to :: "ustr list \<Rightarrow> ustr option \<times> ustr list" where
  "parse_move_to ls =
     (case ls of
        [] \<Rightarrow> (None, [])
      | l # rest \<Rightarrow>
          (case strip_prefix move_to_marker l of
             Some target \<Rightarrow> (Some target, rest)
           | None \<Rightarrow> (None, l # rest)))"

definition parse_update_body ::
  "ustr \<Rightarrow> ustr list \<Rightarrow> (patch_operation \<times> ustr list, patch_error) result" where
  "parse_update_body path ls =
     (let (move_to, ls') = parse_move_to ls
      in and_then (parse_hunks ls')
           (\<lambda>(hunks, rest).
              if hunks = [] then Err (Message
                (lit ''update file section `'' @ path @
                 lit ''` must include at least one hunk; after `*** Update File: '' @ path @
                 lit ''`, add `@@`, then prefix each body line with one space for context, `-` for deletion, or `+` for insertion''))
              else if \<not> has_change_marker hunks \<and> move_to = None then Err (Message
                (lit ''apply_patch failure kind=missing_change_markers; an Update must contain at least one `+` insertion or `-` deletion; context lines identify existing content and are not replacement content''))
              else Ok (UpdateFile path hunks move_to, rest)))"

lemma parse_hunks_length: "parse_hunks ls = Ok (hunks, rest) \<Longrightarrow> length rest \<le> length ls"
proof (induction ls arbitrary: hunks rest rule: parse_hunks.induct)
  case (2 header tail)
  show ?case
  proof (cases "starts_with stars header")
    case True
    with 2 show ?thesis by simp
  next
    case False
    with 2(2) obtain hunk mid hs where
      p: "(if starts_with at_at header then parse_hunk header (header # tail)
           else parse_implicit_hunk (header # tail)) = Inr (hunk, mid)"
      and r: "parse_hunks mid = Ok (hs, rest)"
      by (auto simp: and_then_Ok_iff split: sum.splits)
    have "length mid < length (header # tail)"
      using p by (auto simp: parse_implicit_hunk_def split: if_splits
                       dest: parse_hunk_length parse_hunk_body_length)
    moreover have "length rest \<le> length mid"
      using 2(1) [OF False p refl, of hs] r by simp
    ultimately show ?thesis by simp
  qed
qed simp

lemma parse_add_body_length: "parse_add_body ls = Ok (c, rest) \<Longrightarrow> length rest \<le> length ls"
  by (induction ls arbitrary: c rest rule: parse_add_body.induct)
     (fastforce simp: and_then_Ok_iff split: if_splits option.splits)+

lemma parse_update_body_length:
  "parse_update_body path ls = Ok (oper, rest) \<Longrightarrow> length rest \<le> length ls"
  using parse_hunks_length [of "snd (parse_move_to ls)"]
  by (fastforce simp: parse_update_body_def parse_move_to_def and_then_Ok_iff
                split: if_splits option.splits list.splits)

section \<open>The parser\<close>

function parse_sections :: "ustr list \<Rightarrow> (patch_operation list, patch_error) result" where
  "parse_sections [] = Ok []"
| "parse_sections (line # rest) =
     (case strip_prefix add_file line of
        Some path \<Rightarrow>
          (case parse_add_body rest of
             Inl e \<Rightarrow> Err e
           | Inr (contents, rest') \<Rightarrow>
               and_then (parse_sections rest')
                 (\<lambda>ops. Ok (AddFile path (join [LF] contents) # ops)))
      | None \<Rightarrow>
          (case strip_prefix delete_file line of
             Some path \<Rightarrow> and_then (parse_sections rest) (\<lambda>ops. Ok (DeleteFile path # ops))
           | None \<Rightarrow>
               (case strip_prefix update_file line of
                  Some path \<Rightarrow>
                    (case parse_update_body path rest of
                       Inl e \<Rightarrow> Err e
                     | Inr (oper, rest') \<Rightarrow>
                         and_then (parse_sections rest') (\<lambda>ops. Ok (oper # ops)))
                | None \<Rightarrow>
                    if trim line = [] then parse_sections rest
                    else Err (Message (lit ''unexpected patch line `'' @ line @ lit ''`'')))))"
  by pat_completeness auto
termination
  by (relation "measure length")
     (auto dest!: parse_add_body_length parse_update_body_length sym [of "Inr _"])

definition parse_patch :: "ustr \<Rightarrow> (patch_operation list, patch_error) result" where
  "parse_patch text =
     (let ls = str_lines (normalize_patch_text text)
      in if ls = [] \<or> hd ls \<noteq> begin_patch then
           Err (Message (lit ''patch must start with `*** Begin Patch`''))
         else if last ls \<noteq> end_patch then
           Err (Message (lit ''patch must end with `*** End Patch`''))
         else and_then (parse_sections (butlast (tl ls)))
                (\<lambda>ops. if ops = [] then Err (Message (lit ''patch cannot be empty'')) else Ok ops))"

end
