(* ===== verification/Patch_Roundtrip.thy ===== *)
theory Patch_Roundtrip
  imports Patch_Parser
begin

text \<open>
  The specification side of the patch language: what a well-formed list of operations is, and
  its canonical text. The parser and the canonical printer are inverse to each other: the
  parser reads every well-formed list back from its text, and everything the parser accepts
  is well formed.
\<close>

section \<open>Canonical text\<close>

fun print_line :: "patch_line \<Rightarrow> ustr" where
  "print_line (Context l) = SP # l"
| "print_line (Insert l) = 43 # l"
| "print_line (Delete l) = 45 # l"

definition print_header :: "ustr option \<Rightarrow> ustr" where
  "print_header c = (case c of None \<Rightarrow> at_at | Some l \<Rightarrow> at_at @ SP # l)"

definition print_eof :: "bool \<Rightarrow> ustr list" where
  "print_eof eof = (if eof then [end_of_file] else [])"

definition print_chunk :: "patch_chunk \<Rightarrow> ustr list" where
  "print_chunk h =
     print_header (change_context h) # map print_line (chunk_lines h) @ print_eof (is_end_of_file h)"

definition print_move :: "ustr option \<Rightarrow> ustr list" where
  "print_move t = (case t of None \<Rightarrow> [] | Some p \<Rightarrow> [move_to_marker @ p])"

fun print_op :: "patch_operation \<Rightarrow> ustr list" where
  "print_op (AddFile p c) = (add_file @ p) # map ((#) 43) (split_char LF c)"
| "print_op (DeleteFile p) = [delete_file @ p]"
| "print_op (UpdateFile p hs t) = (update_file @ p) # print_move t @ concat (map print_chunk hs)"

definition print_lines :: "patch_operation list \<Rightarrow> ustr list" where
  "print_lines ops = begin_patch # concat (map print_op ops) @ [end_patch]"

definition print_patch :: "patch_operation list \<Rightarrow> ustr" where
  "print_patch ops = join [LF] (print_lines ops)"

section \<open>Well-formed operations\<close>

definition one_line :: "ustr \<Rightarrow> bool" where
  "one_line l \<longleftrightarrow> LF \<notin> set l \<and> CR \<notin> set l"

fun line_text :: "patch_line \<Rightarrow> ustr" where
  "line_text (Context l) = l"
| "line_text (Insert l) = l"
| "line_text (Delete l) = l"

definition context_ok :: "ustr option \<Rightarrow> bool" where
  "context_ok c \<longleftrightarrow>
     (case c of None \<Rightarrow> True | Some l \<Rightarrow> one_line l \<and> l \<noteq> [] \<and> \<not> is_whitespace (last l))"

definition chunk_ok :: "patch_chunk \<Rightarrow> bool" where
  "chunk_ok h \<longleftrightarrow>
     context_ok (change_context h) \<and> chunk_lines h \<noteq> [] \<and>
     list_all (\<lambda>l. one_line (line_text l)) (chunk_lines h)"

fun op_ok :: "patch_operation \<Rightarrow> bool" where
  "op_ok (AddFile p c) \<longleftrightarrow> one_line p \<and> CR \<notin> set c"
| "op_ok (DeleteFile p) \<longleftrightarrow> one_line p"
| "op_ok (UpdateFile p hs t) \<longleftrightarrow>
     one_line p \<and> hs \<noteq> [] \<and> list_all chunk_ok hs \<and>
     (case t of None \<Rightarrow> has_change_marker hs | Some q \<Rightarrow> one_line q)"

definition patch_ok :: "patch_operation list \<Rightarrow> bool" where
  "patch_ok ops \<longleftrightarrow> ops \<noteq> [] \<and> list_all op_ok ops"

section \<open>Reading the canonical text back\<close>

lemma trim_end_prefix: "\<exists>ws. s = trim_end s @ ws"
  unfolding trim_end_def by (metis rev_append rev_rev_ident takeWhile_dropWhile_id)

lemma trim_end_not_Nil: "s \<noteq> [] \<Longrightarrow> \<not> is_whitespace (hd s) \<Longrightarrow> trim_end s \<noteq> []"
  by (cases s) (auto simp: trim_end_def dropWhile_eq_Nil_conv)

lemma marker_not_eof:
  "\<not> is_eof_marker (add_file @ p)" "\<not> is_eof_marker (delete_file @ p)"
  "\<not> is_eof_marker (update_file @ p)" "\<not> is_eof_marker (at_at @ p)"
  using trim_end_prefix [of "add_file @ p"] trim_end_prefix [of "delete_file @ p"]
    trim_end_prefix [of "update_file @ p"] trim_end_prefix [of "at_at @ p"]
  by (auto simp: is_eof_marker_def markers)

lemma print_line_plain: "\<not> ends_hunk (print_line l)" "\<not> is_eof_marker (print_line l)"
proof -
  have "is_eof_marker (print_line l) \<Longrightarrow> hd (print_line l) = 42"
    using hd_trim_end [of "print_line l"] by (auto simp: is_eof_marker_def markers)
  then show "\<not> is_eof_marker (print_line l)" by (cases l) auto
  show "\<not> ends_hunk (print_line l)"
    by (cases l) (auto simp: ends_hunk_def starts_with_iff markers)
qed

lemma parse_print_line: "parse_hunk_line (print_line l) = Ok l"
  by (cases l) (simp_all add: parse_hunk_line_def)

lemma parse_hunk_loop_print:
  "parse_hunk_loop body (map print_line ls @ tail) = parse_hunk_loop (body @ ls) tail"
  by (induction ls arbitrary: body) (simp_all add: print_line_plain parse_print_line)

text \<open>What may follow a chunk: the end of the patch, another chunk or another section.\<close>

definition tail_ok :: "ustr list \<Rightarrow> bool" where
  "tail_ok ls \<longleftrightarrow> ls = [] \<or> ends_hunk (hd ls)"

lemma ends_hunk_visible: "ends_hunk l \<Longrightarrow> trim_end l \<noteq> []"
  by (rule trim_end_not_Nil) (auto simp: ends_hunk_def starts_with_iff markers is_whitespace_def)

lemma parse_hunk_loop_tail:
  "tail_ok tail \<Longrightarrow> parse_hunk_loop body tail = Ok (body, False, tail)"
  by (cases tail) (auto simp: tail_ok_def)

lemma parse_hunk_loop_eof:
  assumes "tail_ok tail" and "body \<noteq> []"
  shows "parse_hunk_loop body (end_of_file # tail) = Ok (body, True, tail)"
proof -
  have e: "is_eof_marker end_of_file" "\<not> ends_hunk end_of_file"
    by (simp_all add: ends_hunk_def is_eof_marker_def starts_with_iff markers trim_end_def
                      is_whitespace_def)
  have "dropWhile (\<lambda>l. trim_end l = []) tail = tail"
    using assms(1) ends_hunk_visible by (cases tail) (auto simp: tail_ok_def)
  with e assms show ?thesis
    by (cases tail) (auto simp: tail_ok_def ends_hunk_def)
qed

lemma parse_hunk_body_print:
  assumes "tail_ok tail" and "ls \<noteq> []"
  shows "parse_hunk_body c (map print_line ls @ print_eof eof @ tail) =
           Ok (\<lparr>change_context = c, is_end_of_file = eof, chunk_lines = ls\<rparr>, tail)"
  using assms
  by (cases eof)
     (simp_all add: parse_hunk_body_def parse_hunk_loop_print parse_hunk_loop_tail
                    parse_hunk_loop_eof print_eof_def del: parse_hunk_loop.simps)

lemma parse_print_header: "context_ok c \<Longrightarrow> parse_hunk_header (print_header c) = Ok c"
proof (cases c)
  case None
  have "trim_end at_at = at_at"
    by (rule trim_end_id) (simp_all add: markers is_whitespace_def)
  with None show ?thesis by (simp add: parse_hunk_header_def print_header_def)
next
  case (Some l)
  assume "context_ok c"
  with Some have l: "l \<noteq> []" "\<not> is_whitespace (last l)" by (simp_all add: context_ok_def)
  have "trim_end (at_at @ SP # l) = at_at @ SP # l"
    by (rule trim_end_id) (simp_all add: l)
  moreover have "strip_prefix (at_at @ [SP]) (at_at @ SP # l) = Some l"
    by (simp add: strip_prefix_iff)
  ultimately show ?thesis
    using Some by (simp add: parse_hunk_header_def print_header_def)
qed

lemma parse_hunk_print:
  assumes "chunk_ok h" and "tail_ok tail"
  shows "parse_hunk (print_header (change_context h)) (print_chunk h @ tail) = Ok (h, tail)"
proof -
  have "starts_with at_at (print_header (change_context h))"
    by (simp add: print_header_def starts_with_iff split: option.splits)
  with assms show ?thesis
    by (simp add: parse_hunk_def chunk_ok_def print_chunk_def parse_print_header
                  parse_hunk_body_print)
qed

lemma print_chunk_tail_ok: "tail_ok (print_chunk h @ tail)"
  by (auto simp: tail_ok_def print_chunk_def print_header_def ends_hunk_def starts_with_iff
           split: option.splits)

lemma parse_hunks_print:
  assumes "list_all chunk_ok hs" and "tail_ok tail"
    and "tail = [] \<or> starts_with stars (hd tail)"
  shows "parse_hunks (concat (map print_chunk hs) @ tail) = Ok (hs, tail)"
  using assms(1)
proof (induction hs)
  case Nil
  with assms(3) show ?case by (cases tail) simp_all
next
  case (Cons h hs)
  let ?rest = "concat (map print_chunk hs) @ tail"
  have ok: "tail_ok ?rest"
    using assms(2) print_chunk_tail_ok by (cases hs) auto
  have h: "print_chunk h @ ?rest =
             print_header (change_context h) # tl (print_chunk h) @ ?rest"
    by (simp add: print_chunk_def)
  have "starts_with at_at (print_header (change_context h))"
    "\<not> starts_with stars (print_header (change_context h))"
    by (auto simp: print_header_def starts_with_iff markers split: option.splits)
  moreover have "parse_hunk (print_header (change_context h)) (print_chunk h @ ?rest) = Ok (h, ?rest)"
    using Cons.prems ok by (simp add: parse_hunk_print)
  moreover have "parse_hunks ?rest = Ok (hs, tail)" using Cons by simp
  ultimately have "parse_hunks (print_chunk h @ ?rest) = Ok (h # hs, tail)"
    unfolding h by simp
  then show ?case by simp
qed

lemma parse_add_body_print:
  assumes "tail = [] \<or> starts_with stars (hd tail)"
  shows "parse_add_body (map ((#) 43) ls @ tail) = Ok (ls, tail)"
proof (induction ls)
  case Nil
  with assms show ?case by (cases tail) simp_all
next
  case (Cons l ls)
  moreover have "\<not> starts_with stars (43 # l)" by (simp add: starts_with_iff markers)
  ultimately show ?case by simp
qed

text \<open>Every section starts with a file marker.\<close>

lemma marker_stars:
  "starts_with stars (add_file @ p)" "starts_with stars (delete_file @ p)"
  "starts_with stars (update_file @ p)"
  by (simp_all add: starts_with_def markers)

lemma print_op_head:
  "tail_ok (concat (map print_op ops)) \<and>
   (concat (map print_op ops) = [] \<or> starts_with stars (hd (concat (map print_op ops))))"
proof (cases ops)
  case (Cons oper ops')
  have "starts_with stars (hd (print_op oper))" "\<not> is_eof_marker (hd (print_op oper))"
    "print_op oper \<noteq> []"
    by (cases oper; simp add: marker_stars marker_not_eof)+
  with Cons show ?thesis by (auto simp: tail_ok_def ends_hunk_def)
qed (simp add: tail_ok_def)

lemma strip_prefix_other:
  "strip_prefix add_file (delete_file @ p) = None"
  "strip_prefix add_file (update_file @ p) = None"
  "strip_prefix delete_file (update_file @ p) = None"
  by (simp_all add: markers)

lemma parse_update_print:
  assumes "op_ok (UpdateFile p hs t)" and "tail_ok tail"
    and "tail = [] \<or> starts_with stars (hd tail)"
  shows "parse_update_body p (print_move t @ concat (map print_chunk hs) @ tail) =
           Ok (UpdateFile p hs t, tail)"
proof -
  let ?body = "concat (map print_chunk hs) @ tail"
  from assms(1) obtain h hs' where hs: "hs = h # hs'" by (cases hs) auto
  have "parse_move_to (print_move t @ ?body) = (t, ?body)"
  proof (cases t)
    case None
    have "strip_prefix move_to_marker (print_header (change_context h)) = None"
      by (auto simp: print_header_def markers split: option.splits)
    with None show ?thesis by (simp add: parse_move_to_def print_move_def hs print_chunk_def)
  qed (simp add: parse_move_to_def print_move_def)
  moreover have "parse_hunks ?body = Ok (hs, tail)"
    using assms by (intro parse_hunks_print) simp_all
  ultimately show ?thesis
    using assms(1) by (auto simp: parse_update_body_def split: option.splits)
qed

lemma parse_sections_print:
  "list_all op_ok ops \<Longrightarrow> parse_sections (concat (map print_op ops)) = Ok ops"
proof (induction ops)
  case (Cons oper ops)
  let ?tail = "concat (map print_op ops)"
  have t: "tail_ok ?tail" "?tail = [] \<or> starts_with stars (hd ?tail)"
    using print_op_head by blast+
  show ?case
  proof (cases oper)
    case (AddFile p c)
    with Cons t show ?thesis by (simp add: parse_add_body_print join_split_char)
  next
    case (UpdateFile p hs mt)
    with Cons parse_update_print [of p hs mt ?tail] t show ?thesis
      by (simp add: strip_prefix_other)
  next
    case (DeleteFile p)
    with Cons show ?thesis by (simp add: strip_prefix_other)
  qed
qed simp

section \<open>Normalisation keeps the canonical text\<close>

lemma print_lines_one_line:
  assumes "list_all op_ok ops" and "l \<in> set (print_lines ops)"
  shows "one_line l"
proof -
  have marks: "one_line begin_patch" "one_line end_patch" "one_line add_file"
    "one_line delete_file" "one_line update_file" "one_line move_to_marker"
    "one_line end_of_file" "one_line at_at"
    by (simp_all add: one_line_def markers)
  have app: "one_line (a @ b) \<longleftrightarrow> one_line a \<and> one_line b" for a b
    by (auto simp: one_line_def)
  have split: "x \<in> set (split_char LF c) \<Longrightarrow> CR \<notin> set c \<Longrightarrow> one_line x" for x c
  proof (induction c arbitrary: x)
    case (Cons d c)
    then show ?case
      by (cases "split_char LF c") (auto simp: one_line_def split: if_splits)
  qed (simp add: one_line_def)
  have line: "one_line (line_text k) \<Longrightarrow> one_line (print_line k)" for k
    by (cases k) (auto simp: one_line_def)
  have chunk: "chunk_ok h \<Longrightarrow> x \<in> set (print_chunk h) \<Longrightarrow> one_line x" for h x
    using marks line
    by (auto simp: print_chunk_def print_header_def print_eof_def chunk_ok_def context_ok_def
                   list_all_iff app split: option.splits if_splits)
       (auto simp: one_line_def)
  have "op_ok oper \<Longrightarrow> x \<in> set (print_op oper) \<Longrightarrow> one_line x" for oper x
    using marks chunk split
    by (cases oper)
       (auto simp: app print_move_def list_all_iff one_line_def split: option.splits)
  with assms marks show ?thesis
    by (auto simp: print_lines_def list_all_iff)
qed

lemma str_lines_print: "list_all op_ok ops \<Longrightarrow> str_lines (print_patch ops) = print_lines ops"
  unfolding print_patch_def
  using print_lines_one_line [of ops]
  by (intro str_lines_join) (simp_all add: one_line_def print_lines_def markers)

lemma visible_edges:
  assumes "ls \<noteq> []" and "hd ls = begin_patch" and "last ls = end_patch"
  shows "trim (join [LF] ls) = join [LF] ls"
proof -
  have "hd (join [LF] ls) = 42"
    using assms by (subst hd_join) (simp_all add: markers)
  moreover have "last (join [LF] ls) = 104" "join [LF] ls \<noteq> []"
    using assms last_join [of ls "[LF]"] by (simp_all add: markers)
  ultimately show ?thesis
    by (intro trim_id) (simp_all add: is_whitespace_def)
qed

lemma rposition_last: "p (last ls) \<Longrightarrow> ls \<noteq> [] \<Longrightarrow> rposition p ls = Some (length ls - 1)"
  by (cases ls rule: rev_cases) (simp_all add: rposition_def)

lemma trim_marker: "trim begin_patch = begin_patch" "trim end_patch = end_patch"
  by (rule trim_id; simp add: markers is_whitespace_def)+

lemma extract_marked_id:
  assumes "str_lines t = ls" and "join [LF] ls = t"
    and "ls \<noteq> []" and "hd ls = begin_patch" and "last ls = end_patch"
  shows "extract_marked_patch t = t"
proof -
  have "position (\<lambda>l. trim l = begin_patch) ls = Some 0"
    using assms(3,4) by (cases ls) (simp_all add: trim_marker)
  moreover have "rposition (\<lambda>l. trim l = end_patch) ls = Some (length ls - 1)"
    using assms(3,5) by (intro rposition_last) (simp_all add: trim_marker)
  ultimately show ?thesis
    using assms by (simp add: extract_marked_patch_def)
qed

lemma strip_code_fence_id:
  assumes "str_lines t = ls" and "ls \<noteq> []" and "hd ls = begin_patch"
  shows "strip_code_fence t = t"
proof -
  have "\<not> starts_with (lit ''```'') (trim_start begin_patch)"
    by (simp add: trim_start_def markers starts_with_iff is_whitespace_def)
  with assms show ?thesis by (simp add: strip_code_fence_def)
qed

lemma find_str_LF: "LF \<notin> set l \<Longrightarrow> find_str [LF] (l @ LF # r) = Some (length l)"
  by (induction l) (subst find_str.simps, simp add: starts_with_def)+

lemma strip_heredoc_id:
  assumes "t = begin_patch @ LF # r" and "trim t = t"
  shows "strip_heredoc_wrapper t = t"
proof -
  have "LF \<notin> set begin_patch" by (simp add: markers)
  then have "find_str [LF] t = Some (length begin_patch)"
    unfolding assms(1) by (rule find_str_LF)
  moreover have "find_str (lit ''<<'') begin_patch = None"
    by (simp add: find_str.simps markers starts_with_def)
  ultimately show ?thesis
    using assms by (simp add: strip_heredoc_wrapper_def extract_heredoc_token_def trim_marker)
qed

lemma normalize_print:
  assumes "list_all op_ok ops"
  shows "normalize_patch_text (print_patch ops) = print_patch ops"
proof -
  let ?ls = "print_lines ops" and ?t = "print_patch ops"
  have ls: "?ls \<noteq> []" "hd ?ls = begin_patch" "last ?ls = end_patch"
    by (simp_all add: print_lines_def)
  have t: "?t = join [LF] ?ls" by (simp add: print_patch_def)
  obtain r where r: "?t = begin_patch @ LF # r"
    by (cases "concat (map print_op ops) @ [end_patch]") (simp_all add: print_patch_def print_lines_def)
  have "CR \<notin> set ?t"
    using set_join [of "[LF]" ?ls] print_lines_one_line [OF assms]
    by (force simp: t one_line_def)
  moreover have trim: "trim ?t = ?t"
    unfolding t by (rule visible_edges) (fact ls)+
  moreover have "strip_code_fence ?t = ?t"
    using str_lines_print [OF assms] ls(1,2) by (rule strip_code_fence_id)
  moreover have "strip_heredoc_wrapper ?t = ?t"
    using r trim by (rule strip_heredoc_id)
  moreover have "extract_marked_patch ?t = ?t"
    using str_lines_print [OF assms] t [symmetric] ls by (rule extract_marked_id)
  ultimately show ?thesis
    by (simp add: normalize_patch_text_def)
qed

lemma parse_canonical:
  assumes "list_all op_ok ops" and "ops \<noteq> []"
  shows "parse_patch (print_patch ops) = Ok ops"
  using assms parse_sections_print [of ops]
  by (simp add: parse_patch_def normalize_print str_lines_print print_lines_def)

text \<open>
  C10. The parser reads back every well-formed list of operations: for operations whose paths
  and lines hold no line break, whose hunks are not empty and change something (or move the
  file), the canonical text is normalised to itself and parses to exactly these operations,
  with every hunk's named context, end-of-file mark and body lines.
\<close>

theorem parse_print_patch:
  assumes "patch_ok ops"
  shows "normalize_patch_text (print_patch ops) = print_patch ops \<and>
         parse_patch (print_patch ops) = Ok ops"
  using assms by (simp add: patch_ok_def normalize_print parse_canonical)

theorem parse_print_patch_witness:
  "parse_patch (print_patch
     [AddFile (lit ''a.txt'') (lit ''one''),
      UpdateFile (lit ''b.txt'')
        [\<lparr>change_context = Some (lit ''fn main''), is_end_of_file = True,
          chunk_lines = [Context (lit ''x''), Delete (lit ''y''), Insert (lit ''z'')]\<rparr>]
        (Some (lit ''c.txt'')),
      DeleteFile (lit ''d.txt'')]) =
   Ok [AddFile (lit ''a.txt'') (lit ''one''),
      UpdateFile (lit ''b.txt'')
        [\<lparr>change_context = Some (lit ''fn main''), is_end_of_file = True,
          chunk_lines = [Context (lit ''x''), Delete (lit ''y''), Insert (lit ''z'')]\<rparr>]
        (Some (lit ''c.txt'')),
      DeleteFile (lit ''d.txt'')]"
  by (rule parse_print_patch [THEN conjunct2])
     (simp add: patch_ok_def one_line_def chunk_ok_def context_ok_def is_whitespace_def lit_def)

section \<open>Everything the parser accepts is well formed\<close>

abbreviation all_one_line :: "ustr list \<Rightarrow> bool" where
  "all_one_line ls \<equiv> list_all one_line ls"

lemma set_trim: "set (trim s) \<subseteq> set s" "set (trim_end s) \<subseteq> set s"
  by (auto simp: trim_def trim_end_def trim_start_def dest!: set_dropWhileD)

lemma set_strip_line_ending: "set (strip_line_ending l) \<subseteq> set l"
  by (auto simp: strip_line_ending_def strip_suffix_iff split: option.splits)

lemma set_str_lines: "l \<in> set (str_lines s) \<Longrightarrow> set l \<subseteq> set s"
proof -
  assume "l \<in> set (str_lines s)"
  then obtain k where k: "k \<in> set (split_inclusive s)" "l = strip_line_ending k"
    by (auto simp: str_lines_def)
  then have "set k \<subseteq> set (concat (split_inclusive s))" by (force simp del: concat_split_inclusive)
  with k set_strip_line_ending [of k] show ?thesis by auto
qed

lemma str_lines_no_LF: "l \<in> set (str_lines s) \<Longrightarrow> LF \<notin> set l"
proof -
  assume "l \<in> set (str_lines s)"
  then obtain k where k: "k \<in> set (split_inclusive s)" "l = strip_line_ending k"
    by (auto simp: str_lines_def)
  then have b: "k \<noteq> []" "LF \<notin> set (butlast k)" using split_inclusive_element by blast+
  then obtain k' c where c: "k = k' @ [c]" by (cases k rule: rev_cases) auto
  show ?thesis
  proof (cases "c = LF")
    case True
    with b c k show ?thesis
      by (auto simp: strip_line_ending_def strip_suffix_iff split: option.splits)
  next
    case False
    with b c k show ?thesis using set_strip_line_ending [of k] by auto
  qed
qed

lemma str_lines_one_line: "CR \<notin> set s \<Longrightarrow> all_one_line (str_lines s)"
  using set_str_lines str_lines_no_LF by (fastforce simp: list_all_iff one_line_def)

lemma join_no_CR: "(\<And>l. l \<in> set ls \<Longrightarrow> CR \<notin> set l) \<Longrightarrow> CR \<notin> set (join [LF] ls)"
  using set_join [of "[LF]" ls] by auto

lemma normalize_no_CR: "CR \<notin> set (normalize_patch_text t)"
proof -
  have lines: "CR \<notin> set s \<Longrightarrow> l \<in> set (str_lines s) \<Longrightarrow> CR \<notin> set l" for s l
    using set_str_lines by blast
  have fence: "CR \<notin> set s \<Longrightarrow> CR \<notin> set (strip_code_fence s)" for s
    by (auto simp: strip_code_fence_def Let_def intro!: join_no_CR
             dest!: in_set_butlastD list.set_sel(2) [rotated] dest: lines)
  have heredoc: "CR \<notin> set s \<Longrightarrow> CR \<notin> set (strip_heredoc_wrapper s)" for s
    using set_trim(1) [of s]
    by (auto simp: strip_heredoc_wrapper_def Let_def split: option.splits
             dest!: in_set_takeD in_set_dropD)
  have marked: "CR \<notin> set s \<Longrightarrow> CR \<notin> set (extract_marked_patch s)" for s
    by (auto simp: extract_marked_patch_def Let_def split: option.splits intro!: join_no_CR
             dest!: in_set_takeD in_set_dropD dest: lines)
  have trim: "CR \<notin> set s \<Longrightarrow> CR \<notin> set (trim s)" for s
    using set_trim(1) [of s] by auto
  have "CR \<notin> set (replace_char CR LF s)" for s
    by (auto simp: replace_char_def)
  then show ?thesis
    by (simp add: normalize_patch_text_def trim marked heredoc fence)
qed

lemma one_line_parts: "one_line (a @ b) \<Longrightarrow> one_line b" "one_line (c # b) \<Longrightarrow> one_line b"
  by (auto simp: one_line_def)

lemma parse_hunk_line_ok:
  "parse_hunk_line l = Ok x \<Longrightarrow> one_line l \<Longrightarrow> one_line (line_text x)"
  by (auto simp: parse_hunk_line_def one_line_def split: list.splits if_splits)

lemma parse_hunk_loop_ok:
  "parse_hunk_loop body ls = Ok (body', eof, rest) \<Longrightarrow> all_one_line ls \<Longrightarrow>
     list_all (\<lambda>l. one_line (line_text l)) body \<Longrightarrow>
     list_all (\<lambda>l. one_line (line_text l)) body' \<and> all_one_line rest"
proof (induction body ls arbitrary: rest rule: parse_hunk_loop.induct)
  case (2 body line tail)
  show ?case
  proof (cases "ends_hunk line \<or> is_eof_marker line")
    case True
    have "all_one_line tail \<Longrightarrow> all_one_line (dropWhile (\<lambda>l. trim_end l = []) tail)"
      by (auto simp: list_all_iff dest: set_dropWhileD)
    with parse_hunk_loop_stop [OF 2(2) True] 2(3,4) show ?thesis by auto
  next
    case False
    with 2(2) obtain p where p: "parse_hunk_line line = Ok p"
      and l: "parse_hunk_loop (body @ [p]) tail = Ok (body', eof, rest)"
      by (auto simp: and_then_Ok_iff)
    with 2(1) [of p rest] 2(3,4) False parse_hunk_line_ok [OF p] show ?thesis by simp
  qed
qed auto

lemma parse_hunk_body_ok:
  "parse_hunk_body c ls = Ok (h, rest) \<Longrightarrow> all_one_line ls \<Longrightarrow> context_ok c \<Longrightarrow>
     chunk_ok h \<and> all_one_line rest"
  using parse_hunk_loop_ok [of "[]" ls]
  by (auto simp: parse_hunk_body_def and_then_Ok_iff chunk_ok_def split: if_splits)

lemma last_trim_end: "trim_end s \<noteq> [] \<Longrightarrow> \<not> is_whitespace (last (trim_end s))"
  by (auto simp: trim_end_def last_rev hd_dropWhile)

lemma parse_hunk_header_ok:
  assumes "parse_hunk_header h = Ok c" and "one_line h"
  shows "context_ok c"
proof (cases c)
  case (Some l)
  with assms(1) have e: "trim_end h = at_at @ SP # l"
    by (auto simp: parse_hunk_header_def Let_def strip_prefix_iff split: if_splits option.splits)
  with last_trim_end [of h] have "\<not> is_whitespace (last (SP # l))" by simp
  then have "l \<noteq> [] \<and> \<not> is_whitespace (last l)"
    by (cases l) (simp_all add: is_whitespace_def)
  moreover have "one_line l"
    using e assms(2) set_trim(2) [of h] by (auto simp: one_line_def)
  ultimately show ?thesis using Some by (simp add: context_ok_def)
qed (simp add: context_ok_def)

lemma parse_hunks_ok:
  "parse_hunks ls = Ok (hs, rest) \<Longrightarrow> all_one_line ls \<Longrightarrow> list_all chunk_ok hs \<and> all_one_line rest"
proof (induction ls arbitrary: hs rest rule: parse_hunks.induct)
  case (2 header tail)
  show ?case
  proof (cases "starts_with stars header")
    case True
    with 2 show ?thesis by simp
  next
    case False
    with 2(2) obtain h mid hs' where
      p: "(if starts_with at_at header then parse_hunk header (header # tail)
           else parse_implicit_hunk (header # tail)) = Inr (h, mid)"
      and r: "parse_hunks mid = Ok (hs', rest)" and hs: "hs = h # hs'"
      by (auto simp: and_then_Ok_iff split: sum.splits)
    have "chunk_ok h \<and> all_one_line mid"
    proof (cases "starts_with at_at header")
      case True
      with p obtain c where "parse_hunk_header header = Ok c" "parse_hunk_body c tail = Ok (h, mid)"
        by (auto simp: parse_hunk_def and_then_Ok_iff)
      with 2(3) parse_hunk_header_ok parse_hunk_body_ok show ?thesis by simp
    next
      case False
      with p parse_hunk_body_ok [OF _ 2(3)] show ?thesis
        by (simp add: parse_implicit_hunk_def context_ok_def)
    qed
    then show ?thesis using 2(1) [OF False p refl r] hs by simp
  qed
qed simp

lemma parse_add_body_ok:
  "parse_add_body ls = Ok (c, rest) \<Longrightarrow> all_one_line ls \<Longrightarrow> all_one_line c \<and> all_one_line rest"
proof (induction ls arbitrary: c rest rule: parse_add_body.induct)
  case (2 raw tail)
  show ?case
  proof (cases "starts_with stars raw")
    case True
    with 2 show ?thesis by simp
  next
    case False
    with 2(2) obtain b c' where b: "strip_prefix [43] raw = Some b"
      and r: "parse_add_body tail = Ok (c', rest)" and c: "c = b # c'"
      by (auto simp: and_then_Ok_iff split: option.splits)
    with 2(3) have "one_line b" by (auto simp: strip_prefix_iff dest: one_line_parts)
    then show ?thesis using 2(1) [OF False b r] 2(3) c by simp
  qed
qed simp

lemma parse_update_body_ok:
  assumes "parse_update_body p ls = Ok (oper, rest)" and "one_line p" and "all_one_line ls"
  shows "op_ok oper \<and> all_one_line rest"
proof -
  obtain t ls' where t: "parse_move_to ls = (t, ls')" by fastforce
  have m: "all_one_line ls'" "\<And>q. t = Some q \<Longrightarrow> one_line q"
    using t assms(3)
    by (auto simp: parse_move_to_def strip_prefix_iff split: list.splits option.splits
             dest: one_line_parts)
  from assms(1) t obtain hs where "parse_hunks ls' = Ok (hs, rest)" "oper = UpdateFile p hs t"
    "hs \<noteq> []" "has_change_marker hs \<or> t \<noteq> None"
    by (auto simp: parse_update_body_def and_then_Ok_iff split: if_splits)
  with m parse_hunks_ok [of ls' hs rest] assms(2) show ?thesis by (auto split: option.splits)
qed

lemma join_lines_no_CR: "all_one_line ls \<Longrightarrow> CR \<notin> set (join [LF] ls)"
  by (rule join_no_CR) (auto simp: list_all_iff one_line_def)

lemma parse_sections_ok: "parse_sections ls = Ok ops \<Longrightarrow> all_one_line ls \<Longrightarrow> list_all op_ok ops"
proof (induction ls arbitrary: ops rule: parse_sections.induct)
  case (2 line tail)
  have path: "strip_prefix m line = Some p \<Longrightarrow> one_line p" for m p
    using 2(6) by (auto simp: strip_prefix_iff dest: one_line_parts)
  show ?case
  proof (cases "strip_prefix add_file line")
    case (Some p)
    with 2(5) obtain c mid ops' where c: "parse_add_body tail = Ok (c, mid)"
      and r: "parse_sections mid = Ok ops'" and o: "ops = AddFile p (join [LF] c) # ops'"
      by (auto simp: and_then_Ok_iff split: sum.splits)
    with 2(4) [OF Some c refl r] 2(6) parse_add_body_ok [OF c] path [OF Some] show ?thesis
      by (simp add: join_lines_no_CR)
  next
    case a: None
    show ?thesis
    proof (cases "strip_prefix delete_file line")
      case (Some p)
      with a 2(5) obtain ops' where "parse_sections tail = Ok ops'" "ops = DeleteFile p # ops'"
        by (auto simp: and_then_Ok_iff)
      with 2(3) [OF a Some] 2(6) path [OF Some] show ?thesis by simp
    next
      case d: None
      show ?thesis
      proof (cases "strip_prefix update_file line")
        case (Some p)
        with a d 2(5) obtain oper mid ops' where u: "parse_update_body p tail = Ok (oper, mid)"
          and r: "parse_sections mid = Ok ops'" and o: "ops = oper # ops'"
          by (auto simp: and_then_Ok_iff split: sum.splits)
        with 2(2) [OF a d Some u refl r] 2(6) parse_update_body_ok [OF u path [OF Some]]
        show ?thesis by simp
      next
        case None
        with a d 2(1) [OF a d None, of ops] 2(5,6) show ?thesis by (simp split: if_splits)
      qed
    qed
  qed
qed simp

text \<open>
  C11. Whatever text the parser accepts, its result is well formed: it has at least one
  operation; every update has a hunk, every hunk has a body line, and an update that moves
  nothing inserts or deletes a line; no path, named context or body line contains a line
  break; and reading the canonical text of the result gives the result again.
\<close>

theorem parse_patch_well_formed:
  assumes "parse_patch t = Ok ops"
  shows "patch_ok ops \<and> parse_patch (print_patch ops) = Ok ops"
proof -
  let ?ls = "str_lines (normalize_patch_text t)"
  from assms have "parse_sections (butlast (tl ?ls)) = Ok ops" and ne: "ops \<noteq> []"
    by (auto simp: parse_patch_def Let_def and_then_Ok_iff split: if_splits)
  moreover have "all_one_line (butlast (tl ?ls))"
    using str_lines_one_line [OF normalize_no_CR [of t]]
    by (cases ?ls) (auto simp: list_all_iff dest: in_set_butlastD)
  ultimately have ok: "patch_ok ops"
    using parse_sections_ok by (simp add: patch_ok_def)
  with ne show ?thesis by (simp add: patch_ok_def parse_canonical)
qed

theorem parse_patch_well_formed_witness:
  "patch_ok [DeleteFile (lit ''d'')] \<and>
   parse_patch (print_patch [DeleteFile (lit ''d'')]) = Ok [DeleteFile (lit ''d'')]"
  by (rule parse_patch_well_formed [of "print_patch [DeleteFile (lit ''d'')]"], rule parse_canonical)
     (simp_all add: one_line_def lit_def)

end
