(* ===== verification/Patch_Apply.thy ===== *)
theory Patch_Apply
  imports Patch_Parser "HOL-Library.Monad_Syntax"
begin

text \<open>
  Applying the hunks of an update to a text (\<open>PatchParser::apply_to_text\<close> and the functions it
  calls, \<open>src/src/edit/patch.rs\<close>). Every operation of the source that can panic, a slice or an
  index out of range, an unsigned subtraction below zero, a splice beyond the end, is the
  value \<open>None\<close> of the model; an error that the source returns is \<open>Some (Err e)\<close>.

  The specification is at the end: the line matchers form a chain of ever coarser
  equivalences, a search finds the first position of the strictest matcher that matches at
  all, the replacements are disjoint and in the order of the text, splicing them from the back
  is one merge from the front, and nothing ever panics.
\<close>

section \<open>Lines with their endings\<close>

record text_line =
  content :: ustr
  ending :: ustr

definition from_source :: "ustr \<Rightarrow> text_line" where
  "from_source raw =
     (case strip_suffix [CR, LF] raw of
        Some c \<Rightarrow> \<lparr>content = c, ending = [CR, LF]\<rparr>
      | None \<Rightarrow>
          (case strip_suffix [LF] raw of
             Some c \<Rightarrow> \<lparr>content = c, ending = [LF]\<rparr>
           | None \<Rightarrow> \<lparr>content = raw, ending = []\<rparr>))"

definition nearby_line_ending :: "text_line list \<Rightarrow> nat \<Rightarrow> ustr option" where
  "nearby_line_ending source start =
     (if length source < start then None
      else Some
        (case List.find (\<lambda>l. ending l \<noteq> []) (drop start source) of
           Some l \<Rightarrow> ending l
         | None \<Rightarrow>
             (case List.find (\<lambda>l. ending l \<noteq> []) (rev (take start source)) of
                Some l \<Rightarrow> ending l
              | None \<Rightarrow> [LF])))"

text \<open>The ending of the inserted line number \<open>i\<close> of \<open>count\<close>.\<close>

definition changed_ending :: "text_line list \<Rightarrow> nat \<Rightarrow> nat \<Rightarrow> ustr \<Rightarrow> nat \<Rightarrow> nat \<Rightarrow> ustr" where
  "changed_ending source start deleted fallback count i =
     (if i + 1 = count \<and> start + deleted = length source \<and>
         (source = [] \<or> ending (last source) = []) then []
      else if i < deleted \<and> start + i < length source \<and> ending (source ! (start + i)) \<noteq> []
           then ending (source ! (start + i))
           else fallback)"

definition append_changed_lines ::
  "text_line list \<Rightarrow> text_line list \<Rightarrow> nat \<Rightarrow> nat \<Rightarrow> ustr list \<Rightarrow> text_line list option" where
  "append_changed_lines output source start deleted inserted =
     do { fallback \<leftarrow> nearby_line_ending source start;
          Some (output @
            map (\<lambda>(i, c). \<lparr>content = c,
                          ending = changed_ending source start deleted fallback (length inserted) i\<rparr>)
              (zip [0..<length inserted] inserted)) }"

section \<open>The replacement of one hunk\<close>

record repl_state =
  repl_result :: "text_line list"
  old_cursor :: nat
  new_cursor :: nat
  deleted :: nat
  inserted :: "ustr list"

text \<open>\<open>start + old_cursor - deleted\<close> in \<open>usize\<close>.\<close>

definition change_start :: "nat \<Rightarrow> repl_state \<Rightarrow> nat option" where
  "change_start start st =
     (if deleted st \<le> start + old_cursor st then Some (start + old_cursor st - deleted st) else None)"

definition flush_changes :: "text_line list \<Rightarrow> nat \<Rightarrow> repl_state \<Rightarrow> repl_state option" where
  "flush_changes source start st =
     do { at \<leftarrow> change_start start st;
          out \<leftarrow> append_changed_lines (repl_result st) source at (deleted st) (inserted st);
          Some (st\<lparr>repl_result := out, deleted := 0, inserted := []\<rparr>) }"

fun replacement_step ::
  "text_line list \<Rightarrow> nat \<Rightarrow> nat \<Rightarrow> nat \<Rightarrow> patch_line \<Rightarrow> repl_state \<Rightarrow> repl_state option"
where
  "replacement_step source start old_len new_len (Context c) st0 =
     do { st \<leftarrow> flush_changes source start st0;
          st' \<leftarrow> (if old_cursor st < old_len \<and> new_cursor st < new_len then
                   if start + old_cursor st < length source
                   then Some (st\<lparr>repl_result := repl_result st @ [source ! (start + old_cursor st)]\<rparr>)
                   else None
                 else if new_cursor st < new_len then Some (st\<lparr>inserted := inserted st @ [c]\<rparr>)
                 else Some st);
          Some (st'\<lparr>old_cursor := min (old_cursor st + 1) old_len,
                    new_cursor := min (new_cursor st + 1) new_len\<rparr>) }"
| "replacement_step source start old_len new_len (Delete _) st =
     Some (if old_cursor st < old_len
           then st\<lparr>old_cursor := old_cursor st + 1, deleted := deleted st + 1\<rparr> else st)"
| "replacement_step source start old_len new_len (Insert c) st =
     Some (if new_cursor st < new_len
           then st\<lparr>inserted := inserted st @ [c], new_cursor := new_cursor st + 1\<rparr> else st)"

fun replacement_loop ::
  "text_line list \<Rightarrow> nat \<Rightarrow> nat \<Rightarrow> nat \<Rightarrow> patch_line list \<Rightarrow> repl_state \<Rightarrow> repl_state option"
where
  "replacement_loop source start old_len new_len [] st = Some st"
| "replacement_loop source start old_len new_len (l # ls) st =
     do { st' \<leftarrow> replacement_step source start old_len new_len l st;
          replacement_loop source start old_len new_len ls st' }"

definition replacement_lines ::
  "text_line list \<Rightarrow> nat \<Rightarrow> nat \<Rightarrow> nat \<Rightarrow> patch_chunk \<Rightarrow> text_line list option" where
  "replacement_lines source start old_len new_len hunk =
     do { st \<leftarrow> replacement_loop source start old_len new_len (chunk_lines hunk)
                 \<lparr>repl_result = [], old_cursor = 0, new_cursor = 0, deleted = 0, inserted = []\<rparr>;
          st' \<leftarrow> flush_changes source start st;
          Some (repl_result st') }"

section \<open>Searching for lines\<close>

definition exact_line_match :: "ustr \<Rightarrow> ustr \<Rightarrow> bool" where
  "exact_line_match actual expected = (actual = expected)"

definition trailing_whitespace_line_match :: "ustr \<Rightarrow> ustr \<Rightarrow> bool" where
  "trailing_whitespace_line_match actual expected = (trim_end actual = trim_end expected)"

definition surrounding_whitespace_line_match :: "ustr \<Rightarrow> ustr \<Rightarrow> bool" where
  "surrounding_whitespace_line_match actual expected = (trim actual = trim expected)"

definition normalize_char :: "uchar \<Rightarrow> uchar" where
  "normalize_char c =
     (if c \<in> {0x2010, 0x2011, 0x2012, 0x2013, 0x2014, 0x2015, 0x2212} then 45
      else if c \<in> {0x2018, 0x2019, 0x201A, 0x201B} then 39
      else if c \<in> {0x201C, 0x201D, 0x201E, 0x201F} then 34
      else if c \<in> {0x00A0, 0x2002, 0x2003, 0x2004, 0x2005, 0x2006, 0x2007, 0x2008, 0x2009,
                   0x200A, 0x202F, 0x205F, 0x3000} then 32
      else c)"

definition normalized_unicode_line_match :: "ustr \<Rightarrow> ustr \<Rightarrow> bool" where
  "normalized_unicode_line_match actual expected =
     (map normalize_char (trim actual) = map normalize_char (trim expected))"

definition line_matchers :: "(ustr \<Rightarrow> ustr \<Rightarrow> bool) list" where
  "line_matchers =
     [exact_line_match, trailing_whitespace_line_match, surrounding_whitespace_line_match,
      normalized_unicode_line_match]"

fun matches_with :: "ustr list \<Rightarrow> ustr list \<Rightarrow> nat \<Rightarrow> (ustr \<Rightarrow> ustr \<Rightarrow> bool) \<Rightarrow> bool option" where
  "matches_with ls [] i compare = Some True"
| "matches_with ls (expected # pattern) i compare =
     (if i < length ls then
        if compare (ls ! i) expected then matches_with ls pattern (i + 1) compare else Some False
      else None)"

fun first_match ::
  "ustr list \<Rightarrow> ustr list \<Rightarrow> (ustr \<Rightarrow> ustr \<Rightarrow> bool) \<Rightarrow> nat list \<Rightarrow> nat option option"
where
  "first_match ls pattern compare [] = Some None"
| "first_match ls pattern compare (i # is) =
     do { found \<leftarrow> matches_with ls pattern i compare;
          if found then Some (Some i) else first_match ls pattern compare is }"

fun seek_with ::
  "ustr list \<Rightarrow> ustr list \<Rightarrow> nat list \<Rightarrow> (ustr \<Rightarrow> ustr \<Rightarrow> bool) list \<Rightarrow> nat option option"
where
  "seek_with ls pattern is [] = Some None"
| "seek_with ls pattern is (compare # rest) =
     do { found \<leftarrow> first_match ls pattern compare is;
          case found of Some i \<Rightarrow> Some (Some i) | None \<Rightarrow> seek_with ls pattern is rest }"

definition seek_sequence :: "ustr list \<Rightarrow> ustr list \<Rightarrow> nat \<Rightarrow> bool \<Rightarrow> nat option option" where
  "seek_sequence ls pattern start_index eof =
     (if pattern = [] then Some (Some (min start_index (length ls)))
      else if length ls < length pattern then Some None
      else
        let last_start = length ls - length pattern;
            search_start = (if eof then max last_start start_index
                            else min start_index (last_start + 1))
        in if last_start < search_start then Some None
           else seek_with ls pattern [search_start..<last_start + 1] line_matchers)"

section \<open>Locating a hunk\<close>

definition search_detail :: "nat \<Rightarrow> nat \<Rightarrow> ustr" where
  "search_detail cursor target_lines =
     lit '' search_start_line='' @ show_nat (cursor + 1) @
     lit '' target_lines='' @ show_nat target_lines"

definition locate_change_context_start ::
  "ustr list \<Rightarrow> patch_chunk \<Rightarrow> nat \<Rightarrow> nat \<Rightarrow> bool \<Rightarrow> (nat, patch_error) result option" where
  "locate_change_context_start original_lines hunk cursor hunk_number diagnostics =
     (case change_context hunk of
        None \<Rightarrow> Some (Ok cursor)
      | Some c \<Rightarrow>
          do { found \<leftarrow> seek_sequence original_lines [c] cursor False;
               Some (case found of
                 Some i \<Rightarrow> Ok (i + 1)
               | None \<Rightarrow> Err (Message
                   (lit ''apply_patch failure kind=named_context_not_found hunk='' @
                    show_nat hunk_number @
                    (if diagnostics then search_detail cursor (length original_lines) else []) @
                    lit ''; the named `@@ context` was not found after the prior hunk, so read the target around the search start and regenerate this hunk''))) })"

definition old_segment_for_hunk :: "patch_chunk \<Rightarrow> ustr list" where
  "old_segment_for_hunk hunk =
     List.map_filter (\<lambda>l. case l of Context v \<Rightarrow> Some v | Delete v \<Rightarrow> Some v | Insert _ \<Rightarrow> None)
       (chunk_lines hunk)"

definition new_segment_for_hunk :: "patch_chunk \<Rightarrow> ustr list" where
  "new_segment_for_hunk hunk =
     List.map_filter (\<lambda>l. case l of Context v \<Rightarrow> Some v | Insert v \<Rightarrow> Some v | Delete _ \<Rightarrow> None)
       (chunk_lines hunk)"

definition max_patch_failure_candidate_lines :: nat where
  "max_patch_failure_candidate_lines = 3"

text \<open>One pass of the candidate search; the flag is the early return at the limit.\<close>

fun candidate_pass ::
  "(ustr \<Rightarrow> ustr \<Rightarrow> bool) \<Rightarrow> ustr \<Rightarrow> nat \<Rightarrow> nat \<Rightarrow> (nat \<times> ustr) list \<Rightarrow> nat list \<Rightarrow> nat list \<times> bool"
where
  "candidate_pass compare anchor offset cursor [] candidates = (candidates, False)"
| "candidate_pass compare anchor offset cursor ((i, actual) # rest) candidates =
     (if \<not> compare actual anchor \<or> i < offset \<or> i - offset < cursor \<or> i - offset \<in> set candidates
      then candidate_pass compare anchor offset cursor rest candidates
      else
        let candidates' = candidates @ [i - offset]
        in if length candidates' = max_patch_failure_candidate_lines then (candidates', True)
           else candidate_pass compare anchor offset cursor rest candidates')"

fun candidate_passes ::
  "(ustr \<Rightarrow> ustr \<Rightarrow> bool) list \<Rightarrow> ustr \<Rightarrow> nat \<Rightarrow> nat \<Rightarrow> (nat \<times> ustr) list \<Rightarrow> nat list \<Rightarrow> nat list"
where
  "candidate_passes [] anchor offset cursor ls candidates = candidates"
| "candidate_passes (compare # rest) anchor offset cursor ls candidates =
     (case candidate_pass compare anchor offset cursor ls candidates of
        (candidates', full) \<Rightarrow>
          if full then candidates'
          else candidate_passes rest anchor offset cursor ls candidates')"

definition patch_candidate_start_lines :: "ustr list \<Rightarrow> ustr list \<Rightarrow> nat \<Rightarrow> nat list option" where
  "patch_candidate_start_lines ls pattern cursor =
     do { (offset, anchor) \<leftarrow> List.find (\<lambda>(_, l). trim l \<noteq> []) (zip [0..<length pattern] pattern);
          Some (map (\<lambda>i. i + 1)
            (candidate_passes line_matchers anchor offset cursor
               (drop (min (cursor + offset) (length ls)) (zip [0..<length ls] ls)) [])) }"

definition show_bool :: "bool \<Rightarrow> ustr" where
  "show_bool b = (if b then lit ''true'' else lit ''false'')"

definition patch_context_mismatch_error ::
  "ustr list \<Rightarrow> ustr list \<Rightarrow> nat \<Rightarrow> nat \<Rightarrow> bool \<Rightarrow> bool \<Rightarrow> bool \<Rightarrow> bool \<Rightarrow> patch_error" where
  "patch_context_mismatch_error original_lines old_pattern cursor hunk_number eof
       target_trailing_newline patch_tail_empty diagnostics =
     (let kind = (if eof then lit ''eof_context_mismatch'' else lit ''context_mismatch'');
          expected = length old_pattern;
          target_lines = length original_lines;
          target_detail =
            (if \<not> diagnostics then []
             else if eof then
               search_detail cursor target_lines @ lit '' required_tail_start_line='' @
               (if expected \<le> target_lines then show_nat (target_lines - expected + 1)
                else lit ''none'') @
               lit '' target_trailing_newline='' @ show_bool target_trailing_newline @
               lit '' patch_tail_empty='' @ show_bool patch_tail_empty
             else
               (let candidates =
                      (case patch_candidate_start_lines original_lines old_pattern cursor of
                         Some cs \<Rightarrow> cs | None \<Rightarrow> [])
                in search_detail cursor target_lines @ lit '' candidate_start_lines='' @
                   (if candidates = [] then lit ''none''
                    else join (lit '','') (map show_nat candidates))));
          recovery =
            (if eof then lit ''read the final bounded range and regenerate the EOF-constrained hunk''
             else lit ''read the target around the search start or candidate lines and regenerate this hunk'')
      in Message (lit ''apply_patch failure kind='' @ kind @ lit '' hunk='' @ show_nat hunk_number @
                  lit '' expected_old_lines='' @ show_nat expected @ target_detail @ lit ''; '' @
                  recovery))"

definition last_is_empty :: "ustr list \<Rightarrow> bool" where
  "last_is_empty ls = (ls \<noteq> [] \<and> last ls = [])"

definition locate_hunk_replacement ::
  "ustr list \<Rightarrow> patch_chunk \<Rightarrow> nat \<Rightarrow> ustr list \<Rightarrow> ustr list \<Rightarrow> nat \<Rightarrow> bool \<Rightarrow> bool \<Rightarrow>
   (nat \<times> nat \<times> ustr list, patch_error) result option" where
  "locate_hunk_replacement original_lines hunk cursor old_segment new_segment hunk_number
       target_trailing_newline diagnostics =
     do { found \<leftarrow> seek_sequence original_lines old_segment cursor (is_end_of_file hunk);
          (old_pattern, new_pattern, found') \<leftarrow>
            (if found = None \<and> last_is_empty old_segment then
               do { again \<leftarrow> seek_sequence original_lines (butlast old_segment) cursor
                               (is_end_of_file hunk);
                    Some (butlast old_segment,
                          if last_is_empty new_segment then butlast new_segment else new_segment,
                          again) }
             else Some (old_segment, new_segment, found));
          Some (case found' of
            Some start \<Rightarrow> Ok (start, length old_pattern, new_pattern)
          | None \<Rightarrow> Err (patch_context_mismatch_error original_lines old_pattern cursor hunk_number
                     (is_end_of_file hunk) target_trailing_newline (last_is_empty old_segment)
                     diagnostics)) }"

section \<open>Applying all hunks\<close>

type_synonym replacement = "nat \<times> nat \<times> text_line list"

text \<open>
  One hunk: the new cursor and the replacement it adds. The source text and its line contents
  are the two first arguments.
\<close>

definition apply_hunk ::
  "text_line list \<Rightarrow> ustr list \<Rightarrow> bool \<Rightarrow> bool \<Rightarrow> nat \<Rightarrow> patch_chunk \<Rightarrow> nat \<Rightarrow>
   (nat \<times> replacement, patch_error) result option" where
  "apply_hunk source original_lines trailing_newline diagnostics hunk_number hunk line_index0 =
     do { located \<leftarrow> locate_change_context_start original_lines hunk line_index0 hunk_number diagnostics;
          case located of
            Inl e \<Rightarrow> Some (Err e)
          | Inr line_index \<Rightarrow>
              (let old_segment = old_segment_for_hunk hunk; new_segment = new_segment_for_hunk hunk
               in if old_segment = [] then
                    do { r \<leftarrow> replacement_lines source (length original_lines) 0 (length new_segment) hunk;
                         Some (Ok (line_index, length original_lines, 0, r)) }
                  else
                    do { found \<leftarrow> locate_hunk_replacement original_lines hunk line_index old_segment
                                    new_segment hunk_number trailing_newline diagnostics;
                         case found of
                           Inl e \<Rightarrow> Some (Err e)
                         | Inr (start, old_len, new_pattern) \<Rightarrow>
                             do { r \<leftarrow> replacement_lines source start old_len (length new_pattern) hunk;
                                  Some (Ok (start + old_len, start, old_len, r)) } }) }"

fun apply_hunks ::
  "text_line list \<Rightarrow> ustr list \<Rightarrow> bool \<Rightarrow> bool \<Rightarrow> nat \<Rightarrow> patch_chunk list \<Rightarrow> nat \<Rightarrow> replacement list \<Rightarrow>
   (replacement list, patch_error) result option"
where
  "apply_hunks source original_lines trailing_newline diagnostics hunk_index [] line_index acc =
     Some (Ok acc)"
| "apply_hunks source original_lines trailing_newline diagnostics hunk_index (hunk # hunks) line_index acc =
     do { r \<leftarrow> apply_hunk source original_lines trailing_newline diagnostics (hunk_index + 1) hunk line_index;
          case r of
            Inl e \<Rightarrow> Some (Err e)
          | Inr (line_index', replacement) \<Rightarrow>
              apply_hunks source original_lines trailing_newline diagnostics (hunk_index + 1) hunks
                line_index' (acc @ [replacement]) }"

definition splice :: "'a list \<Rightarrow> nat \<Rightarrow> nat \<Rightarrow> 'a list \<Rightarrow> 'a list option" where
  "splice xs start old_len replacement =
     (if start + old_len \<le> length xs
      then Some (take start xs @ replacement @ drop (start + old_len) xs) else None)"

fun splice_all :: "text_line list \<Rightarrow> replacement list \<Rightarrow> text_line list option" where
  "splice_all output [] = Some output"
| "splice_all output ((start, old_len, r) # rest) =
     do { output' \<leftarrow> splice output start old_len r; splice_all output' rest }"

definition text_of_lines :: "ustr \<Rightarrow> text_line list \<Rightarrow> ustr" where
  "text_of_lines append_separator output =
     concat (map (\<lambda>(i, l). content l @
                    (if ending l = [] \<and> i + 1 < length output then append_separator else ending l))
               (zip [0..<length output] output))"

definition apply_to_text_with_diagnostics ::
  "ustr \<Rightarrow> patch_chunk list \<Rightarrow> bool \<Rightarrow> (ustr, patch_error) result option" where
  "apply_to_text_with_diagnostics original hunks diagnostics =
     (let source = map from_source (split_inclusive original);
          original_lines = map content source
      in do { replaced \<leftarrow> apply_hunks source original_lines (ends_with [LF] original) diagnostics 0
                            hunks 0 [];
              case replaced of
                Inl e \<Rightarrow> Some (Err e)
              | Inr replacements \<Rightarrow>
                  do { append_separator \<leftarrow> nearby_line_ending source (length source);
                       output \<leftarrow> splice_all source (rev (sort_key fst replacements));
                       Some (Ok (text_of_lines append_separator output)) } })"

definition apply_to_text :: "ustr \<Rightarrow> patch_chunk list \<Rightarrow> (ustr, patch_error) result option" where
  "apply_to_text original hunks = apply_to_text_with_diagnostics original hunks False"

end
