(* ===== verification/Patch_Search.thy ===== *)
theory Patch_Search
  imports Patch_Apply
begin

text \<open>
  What the line search of the patch engine finds. The four line matchers are equivalences,
  each coarser than the one before; a search never reads a line out of range, returns the
  first position of the strictest matcher that matches anywhere in its window, and gives up
  only if not even the coarsest matcher matches.
\<close>

section \<open>The matchers\<close>

locale line_matcher =
  fixes compare :: "ustr \<Rightarrow> ustr \<Rightarrow> bool"
    and key :: "ustr \<Rightarrow> ustr"
  assumes compare_key: "compare a b \<longleftrightarrow> key a = key b"
begin

lemma all2_key: "list_all2 compare xs ys \<longleftrightarrow> map key xs = map key ys"
  by (induction xs ys rule: list_induct2') (simp_all add: compare_key)

lemma all2_refl: "list_all2 compare xs xs"
  by (simp add: all2_key)

end

interpretation exact: line_matcher exact_line_match "\<lambda>s. s"
  by unfold_locales (simp add: exact_line_match_def)

interpretation trailing: line_matcher trailing_whitespace_line_match trim_end
  by unfold_locales (simp add: trailing_whitespace_line_match_def)

interpretation surrounding: line_matcher surrounding_whitespace_line_match trim
  by unfold_locales (simp add: surrounding_whitespace_line_match_def)

interpretation normalized: line_matcher normalized_unicode_line_match "\<lambda>s. map normalize_char (trim s)"
  by unfold_locales (simp add: normalized_unicode_line_match_def)

text \<open>\<open>trim\<close> only depends on what \<open>trim_end\<close> leaves.\<close>

lemma trim_start_trim_end: "trim_start (trim_end s) = trim_end (trim_start s)"
proof (cases "list_all is_whitespace s")
  case True
  then have "trim_start s = []" "trim_end s = []"
    by (auto simp: trim_start_def trim_end_def list_all_iff dropWhile_eq_Nil_conv)
  then show ?thesis by simp
next
  case False
  have ws: "s = takeWhile is_whitespace s @ trim_start s"
    by (simp add: trim_start_def)
  from False have ne: "\<exists>x \<in> set (trim_start s). \<not> is_whitespace x"
    by (metis hd_dropWhile hd_in_set list_all_iff dropWhile_eq_Nil_conv trim_start_def)
  then obtain x where "x \<in> set (rev (trim_start s))" "\<not> is_whitespace x" by auto
  then have "dropWhile is_whitespace (rev s) =
             dropWhile is_whitespace (rev (trim_start s)) @ rev (takeWhile is_whitespace s)"
    using dropWhile_append1 [of x "rev (trim_start s)" is_whitespace] by (subst ws) simp
  then have e: "trim_end s = takeWhile is_whitespace s @ trim_end (trim_start s)"
    by (simp add: trim_end_def)
  from ne have h: "trim_start s \<noteq> []" by auto
  then have h': "\<not> is_whitespace (hd (trim_start s))"
    unfolding trim_start_def by (rule hd_dropWhile)
  have "trim_end (trim_start s) \<noteq> []"
    using ne by (auto simp: trim_end_def dropWhile_eq_Nil_conv)
  then have "dropWhile is_whitespace (trim_end (trim_start s)) = trim_end (trim_start s)"
    using hd_trim_end [of "trim_start s"] h' by (cases "trim_end (trim_start s)") auto
  moreover have "trim_start (takeWhile is_whitespace s @ y) = dropWhile is_whitespace y" for y
    unfolding trim_start_def by (rule dropWhile_append2) (metis set_takeWhileD)
  ultimately show ?thesis by (subst e) metis
qed

lemma trim_trim_end: "trim (trim_end s) = trim s"
proof -
  have idem: "trim_end (trim_end t) = trim_end t" for t
    by (simp add: trim_end_def)
  show ?thesis by (simp add: trim_def trim_start_trim_end idem)
qed

lemma matcher_chain:
  "exact_line_match a b \<Longrightarrow> trailing_whitespace_line_match a b"
  "trailing_whitespace_line_match a b \<Longrightarrow> surrounding_whitespace_line_match a b"
  "surrounding_whitespace_line_match a b \<Longrightarrow> normalized_unicode_line_match a b"
  by (auto simp: exact_line_match_def trailing_whitespace_line_match_def
                 surrounding_whitespace_line_match_def normalized_unicode_line_match_def)
     (metis trim_trim_end)

lemma coarsest_matcher: "compare \<in> set line_matchers \<Longrightarrow> compare a b \<Longrightarrow> normalized_unicode_line_match a b"
  by (auto simp: line_matchers_def intro: matcher_chain)

section \<open>The search\<close>

text \<open>The pattern matches the lines at a position, all of it in range.\<close>

definition matches_at :: "(ustr \<Rightarrow> ustr \<Rightarrow> bool) \<Rightarrow> ustr list \<Rightarrow> ustr list \<Rightarrow> nat \<Rightarrow> bool" where
  "matches_at compare ls pattern i \<longleftrightarrow>
     i + length pattern \<le> length ls \<and> list_all2 compare (take (length pattern) (drop i ls)) pattern"

text \<open>The positions a search may return.\<close>

definition in_window :: "ustr list \<Rightarrow> ustr list \<Rightarrow> nat \<Rightarrow> bool \<Rightarrow> nat \<Rightarrow> bool" where
  "in_window ls pattern start eof i \<longleftrightarrow>
     start \<le> i \<and> i + length pattern \<le> length ls \<and> (eof \<longrightarrow> i + length pattern = length ls)"

lemma matches_with_total:
  "i + length pattern \<le> length ls \<Longrightarrow>
     matches_with ls pattern i compare = Some (matches_at compare ls pattern i)"
proof (induction pattern arbitrary: i)
  case Nil
  then show ?case by (simp add: matches_at_def)
next
  case (Cons p pattern)
  then have i: "i < length ls" by simp
  then have "drop i ls = ls ! i # drop (Suc i) ls" by (simp add: Cons_nth_drop_Suc)
  with Cons i show ?case by (simp add: matches_at_def)
qed

lemma first_match_total:
  "\<forall>i \<in> set is. i + length pattern \<le> length ls \<Longrightarrow>
     first_match ls pattern compare is = Some (List.find (matches_at compare ls pattern) is)"
  by (induction "is") (simp_all add: matches_with_total)

text \<open>The first hit of the first of the matchers that has one.\<close>

lemma seek_with_total:
  assumes "\<forall>i \<in> set is. i + length pattern \<le> length ls"
  shows "\<exists>r. seek_with ls pattern is ms = Some r \<and>
     (case r of
        None \<Rightarrow> \<forall>m \<in> set ms. \<forall>i \<in> set is. \<not> matches_at m ls pattern i
      | Some i \<Rightarrow>
          \<exists>k < length ms.
            List.find (matches_at (ms ! k) ls pattern) is = Some i \<and>
            (\<forall>k' < k. \<forall>j \<in> set is. \<not> matches_at (ms ! k') ls pattern j))"
proof (induction ms)
  case (Cons m ms)
  show ?case
  proof (cases "List.find (matches_at m ls pattern) is")
    case None
    then have no: "\<forall>i \<in> set is. \<not> matches_at m ls pattern i" by (simp add: find_None_iff)
    from Cons obtain r where r: "seek_with ls pattern is ms = Some r"
      and spec: "case r of
        None \<Rightarrow> \<forall>m \<in> set ms. \<forall>i \<in> set is. \<not> matches_at m ls pattern i
      | Some i \<Rightarrow> \<exists>k < length ms. List.find (matches_at (ms ! k) ls pattern) is = Some i \<and>
            (\<forall>k' < k. \<forall>j \<in> set is. \<not> matches_at (ms ! k') ls pattern j)" by blast
    have "seek_with ls pattern is (m # ms) = Some r"
      by (simp add: first_match_total assms None r)
    moreover have "case r of
        None \<Rightarrow> \<forall>m \<in> set (m # ms). \<forall>i \<in> set is. \<not> matches_at m ls pattern i
      | Some i \<Rightarrow> \<exists>k < length (m # ms). List.find (matches_at ((m # ms) ! k) ls pattern) is = Some i \<and>
            (\<forall>k' < k. \<forall>j \<in> set is. \<not> matches_at ((m # ms) ! k') ls pattern j)"
    proof (cases r)
      case (Some i)
      with spec obtain k where "k < length ms" "List.find (matches_at (ms ! k) ls pattern) is = Some i"
        "\<forall>k' < k. \<forall>j \<in> set is. \<not> matches_at (ms ! k') ls pattern j" by auto
      with no show ?thesis
        unfolding Some option.case by (intro exI [of _ "Suc k"]) (auto simp: less_Suc_eq_0_disj)
    qed (use spec no in auto)
    ultimately show ?thesis by blast
  next
    case (Some i)
    then show ?thesis
      by (auto simp: first_match_total assms intro!: exI [of _ 0])
  qed
qed simp

lemma find_interval:
  "List.find P [a..<b] = Some i \<Longrightarrow> a \<le> i \<and> i < b \<and> P i \<and> (\<forall>j. a \<le> j \<longrightarrow> j < i \<longrightarrow> \<not> P j)"
proof -
  assume "List.find P [a..<b] = Some i"
  then obtain n where n: "n < length [a..<b]" "P ([a..<b] ! n)" "i = [a..<b] ! n"
    "\<And>m. m < n \<Longrightarrow> \<not> P ([a..<b] ! m)" by (auto simp: find_Some_iff)
  have "\<not> P j" if "a \<le> j" "j < i" for j
    using n(4) [of "j - a"] n(1,3) that by auto
  with n(1-3) show ?thesis by auto
qed

text \<open>
  The contract of \<open>seek_sequence\<close> on a pattern with lines.
\<close>

definition search_result ::
  "ustr list \<Rightarrow> ustr list \<Rightarrow> nat \<Rightarrow> bool \<Rightarrow> nat option \<Rightarrow> bool" where
  "search_result ls pattern start eof r \<longleftrightarrow>
     (case r of
        None \<Rightarrow> \<forall>i. in_window ls pattern start eof i \<longrightarrow>
                  \<not> matches_at normalized_unicode_line_match ls pattern i
      | Some i \<Rightarrow> in_window ls pattern start eof i \<and>
          (\<exists>k < length line_matchers.
             matches_at (line_matchers ! k) ls pattern i \<and>
             (\<forall>j < i. in_window ls pattern start eof j \<longrightarrow>
                \<not> matches_at (line_matchers ! k) ls pattern j) \<and>
             (\<forall>k' < k. \<forall>j. in_window ls pattern start eof j \<longrightarrow>
                \<not> matches_at (line_matchers ! k') ls pattern j)))"

lemma seek_sequence_spec:
  assumes "pattern \<noteq> []"
  shows "\<exists>r. seek_sequence ls pattern start eof = Some r \<and> search_result ls pattern start eof r"
proof -
  define last_start where "last_start = length ls - length pattern"
  define first where "first = (if eof then max last_start start else min start (last_start + 1))"
  have unfold: "seek_sequence ls pattern start eof =
      (if length ls < length pattern then Some None
       else if last_start < first then Some None
       else seek_with ls pattern [first..<last_start + 1] line_matchers)"
    using assms unfolding seek_sequence_def Let_def last_start_def first_def by (simp only: if_False)
  let ?is = "[first..<last_start + 1]"
  consider (short) "length ls < length pattern"
    | (empty) "length pattern \<le> length ls" "last_start < first"
    | (search) "length pattern \<le> length ls" "first \<le> last_start" by linarith
  then show ?thesis
  proof cases
    case short
    with assms show ?thesis by (simp add: seek_sequence_def search_result_def in_window_def)
  next
    case empty
    then have "seek_sequence ls pattern start eof = Some None"
      by (simp add: unfold)
    moreover have "\<not> in_window ls pattern start eof i" for i
      using empty by (auto simp: in_window_def last_start_def first_def split: if_splits)
    ultimately show ?thesis by (simp add: search_result_def)
  next
    case search
    then have seek: "seek_sequence ls pattern start eof = seek_with ls pattern ?is line_matchers"
      by (simp only: unfold not_less [symmetric] if_False)
    have range: "i \<in> set ?is \<longleftrightarrow> in_window ls pattern start eof i" for i
      using search by (auto simp: in_window_def last_start_def first_def split: if_splits)
    then have "\<forall>i \<in> set ?is. i + length pattern \<le> length ls" by (simp add: in_window_def)
    from seek_with_total [OF this, of line_matchers] obtain r where
      r: "seek_sequence ls pattern start eof = Some r" and
      spec: "case r of
        None \<Rightarrow> \<forall>m \<in> set line_matchers. \<forall>i \<in> set ?is. \<not> matches_at m ls pattern i
      | Some i \<Rightarrow> \<exists>k < length line_matchers.
            List.find (matches_at (line_matchers ! k) ls pattern) ?is = Some i \<and>
            (\<forall>k' < k. \<forall>j \<in> set ?is. \<not> matches_at (line_matchers ! k') ls pattern j)"
      unfolding seek by blast
    have "search_result ls pattern start eof r"
    proof (cases r)
      case None
      have "normalized_unicode_line_match \<in> set line_matchers" by (simp add: line_matchers_def)
      with spec None range show ?thesis by (auto simp: search_result_def)
    next
      case (Some i)
      with spec obtain k where k: "k < length line_matchers"
        "List.find (matches_at (line_matchers ! k) ls pattern) ?is = Some i"
        "\<forall>k' < k. \<forall>j \<in> set ?is. \<not> matches_at (line_matchers ! k') ls pattern j" by auto
      from find_interval [OF k(2)] have i: "i \<in> set ?is" "matches_at (line_matchers ! k) ls pattern i"
        "\<forall>j < i. j \<in> set ?is \<longrightarrow> \<not> matches_at (line_matchers ! k) ls pattern j" by auto
      from i(1) have w: "in_window ls pattern start eof i" by (simp only: range)
      from i(3) have f: "\<forall>j < i. in_window ls pattern start eof j \<longrightarrow>
          \<not> matches_at (line_matchers ! k) ls pattern j" by (simp only: range)
      from k(3) have g: "\<forall>k' < k. \<forall>j. in_window ls pattern start eof j \<longrightarrow>
          \<not> matches_at (line_matchers ! k') ls pattern j" unfolding Ball_def range .
      show ?thesis
        unfolding search_result_def Some option.case
        by (rule conjI, rule w, rule exI [of _ k]) (intro conjI k(1) i(2) f g)
    qed
    with r show ?thesis by blast
  qed
qed

text \<open>
  C9. A line search never reads outside the text, and its answer is the best one: a position
  from the cursor on (the last possible one for an end-of-file hunk) at which every line of
  the pattern matches, with the strictest of the four matchers that matches anywhere in the
  window, and the first such position. It answers \<open>None\<close> only if no position of the window
  matches even with the coarsest matcher, and whatever it finds also matches with that one.
\<close>

theorem seek_sequence_finds_the_best_match:
  assumes "pattern \<noteq> []"
  shows "\<exists>r. seek_sequence ls pattern start eof = Some r \<and>
             search_result ls pattern start eof r \<and>
             (case r of None \<Rightarrow> True
              | Some i \<Rightarrow> matches_at normalized_unicode_line_match ls pattern i)"
proof -
  from seek_sequence_spec [OF assms] obtain r where
    r: "seek_sequence ls pattern start eof = Some r" "search_result ls pattern start eof r" by blast
  have "matches_at normalized_unicode_line_match ls pattern i" if i: "r = Some i" for i
  proof -
    from r(2) i obtain k where "k < length line_matchers" "matches_at (line_matchers ! k) ls pattern i"
      by (auto simp: search_result_def)
    then show ?thesis
      using coarsest_matcher [OF nth_mem [of k line_matchers]]
      by (auto simp: matches_at_def intro: list_all2_mono)
  qed
  with r show ?thesis by (auto split: option.splits)
qed

theorem seek_sequence_finds_the_best_match_witness:
  "\<exists>r. seek_sequence [[32, 97], [97], [98]] [[97]] 0 False = Some r \<and>
       search_result [[32, 97], [97], [98]] [[97]] 0 False r \<and>
       (case r of None \<Rightarrow> True
        | Some i \<Rightarrow> matches_at normalized_unicode_line_match [[32, 97], [97], [98]] [[97]] i)"
  by (rule seek_sequence_finds_the_best_match) simp

end
