(* ===== verification/Patch_Correct.thy ===== *)
theory Patch_Correct
  imports Patch_Search
begin

text \<open>
  Correctness of the application of hunks: what one hunk's replacement contains, that the
  replacements are disjoint, in range and in the order of the text, that splicing them from
  the back is one merge from the front, that nothing panics, and what the merged text is.
\<close>

section \<open>The content of one replacement\<close>

text \<open>
  What the lines of a hunk make of the matched old lines: context is copied from the source
  with its line ending, deleted lines are skipped, inserted lines have the given content. The
  number bounds the lines of the new segment, the list of old lines those of the old one: the
  matcher may have dropped an empty last line of either.
\<close>

fun hunk_rewrites :: "patch_line list \<Rightarrow> nat \<Rightarrow> text_line list \<Rightarrow> text_line list \<Rightarrow> bool" where
  "hunk_rewrites [] new old out \<longleftrightarrow> out = []"
| "hunk_rewrites (Context c # ls) new old out \<longleftrightarrow>
     (if new = 0 then hunk_rewrites ls 0 (tl old) out
      else out \<noteq> [] \<and> (if old = [] then content (hd out) = c else hd out = hd old) \<and>
           hunk_rewrites ls (new - 1) (tl old) (tl out))"
| "hunk_rewrites (Delete _ # ls) new old out \<longleftrightarrow> hunk_rewrites ls new (tl old) out"
| "hunk_rewrites (Insert c # ls) new old out \<longleftrightarrow>
     (if new = 0 then hunk_rewrites ls 0 old out
      else out \<noteq> [] \<and> content (hd out) = c \<and> hunk_rewrites ls (new - 1) old (tl out))"

fun old_lines :: "patch_line list \<Rightarrow> ustr list" where
  "old_lines [] = []"
| "old_lines (Context c # ls) = c # old_lines ls"
| "old_lines (Delete c # ls) = c # old_lines ls"
| "old_lines (Insert _ # ls) = old_lines ls"

fun new_lines :: "patch_line list \<Rightarrow> ustr list" where
  "new_lines [] = []"
| "new_lines (Context c # ls) = c # new_lines ls"
| "new_lines (Delete _ # ls) = new_lines ls"
| "new_lines (Insert c # ls) = c # new_lines ls"

lemma segments_for_hunk:
  "old_segment_for_hunk h = old_lines (chunk_lines h)"
  "new_segment_for_hunk h = new_lines (chunk_lines h)"
proof -
  have "List.map_filter (\<lambda>l. case l of Context v \<Rightarrow> Some v | Delete v \<Rightarrow> Some v | Insert _ \<Rightarrow> None) ls
        = old_lines ls" for ls
    by (induction ls rule: old_lines.induct) (simp_all add: List.map_filter_simps)
  then show "old_segment_for_hunk h = old_lines (chunk_lines h)"
    by (simp add: old_segment_for_hunk_def)
  have "List.map_filter (\<lambda>l. case l of Context v \<Rightarrow> Some v | Insert v \<Rightarrow> Some v | Delete _ \<Rightarrow> None) ls
        = new_lines ls" for ls
    by (induction ls rule: new_lines.induct) (simp_all add: List.map_filter_simps)
  then show "new_segment_for_hunk h = new_lines (chunk_lines h)"
    by (simp add: new_segment_for_hunk_def)
qed

text \<open>Moving a pending insertion, a deletion or a surplus insertion past a block of insertions.\<close>

lemma rewrites_inserted:
  "map content r = ins \<Longrightarrow> hunk_rewrites ls n old out \<Longrightarrow>
     hunk_rewrites (map Insert ins @ ls) (length ins + n) old (r @ out)"
  by (induction ins arbitrary: r) auto

lemma rewrites_delete:
  "hunk_rewrites (map Insert ins @ ls) (length ins + n) (tl old) out \<Longrightarrow>
     hunk_rewrites (map Insert ins @ Delete d # ls) (length ins + n) old out"
  by (induction ins arbitrary: out) auto

lemma rewrites_surplus:
  "hunk_rewrites (map Insert ins @ ls) (length ins) old out \<Longrightarrow>
     hunk_rewrites (map Insert ins @ Insert c # ls) (length ins) old out"
  by (induction ins arbitrary: out) auto

definition repl_ok :: "text_line list \<Rightarrow> nat \<Rightarrow> nat \<Rightarrow> nat \<Rightarrow> repl_state \<Rightarrow> bool" where
  "repl_ok source start old_len new_len st \<longleftrightarrow>
     start + old_len \<le> length source \<and> deleted st \<le> old_cursor st \<and>
     old_cursor st \<le> old_len \<and> new_cursor st \<le> new_len"

definition matched :: "text_line list \<Rightarrow> nat \<Rightarrow> nat \<Rightarrow> text_line list" where
  "matched source start old_len = take old_len (drop start source)"

lemma map_content_zip:
  "map content (map (\<lambda>(i, c). \<lparr>content = c, ending = f i\<rparr>) (zip [n..<n + length cs] cs)) = cs"
  by (simp add: comp_def case_prod_beta)

lemma append_changed_lines_total:
  assumes "start \<le> length source"
  shows "\<exists>r. append_changed_lines out source start d ins = Some (out @ r) \<and> map content r = ins \<and>
             (ins = [] \<longrightarrow> r = [])"
proof -
  from assms obtain f where f: "nearby_line_ending source start = Some f"
    by (simp add: nearby_line_ending_def)
  let ?r = "map (\<lambda>(i, c). \<lparr>content = c, ending = changed_ending source start d f (length ins) i\<rparr>)
              (zip [0..<length ins] ins)"
  have "map content ?r = ins"
    using map_content_zip [of "changed_ending source start d f (length ins)" 0 ins] by simp
  with f show ?thesis
    by (intro exI [of _ ?r]) (simp add: append_changed_lines_def)
qed

lemma flush_total:
  assumes "repl_ok source start old_len new_len st"
  shows "\<exists>r. flush_changes source start st =
               Some (st\<lparr>repl_result := repl_result st @ r, deleted := 0, inserted := []\<rparr>) \<and>
             map content r = inserted st"
proof -
  from assms have "start + old_cursor st - deleted st \<le> length source" "deleted st \<le> start + old_cursor st"
    by (auto simp: repl_ok_def)
  with append_changed_lines_total [of "start + old_cursor st - deleted st" source
      "repl_result st" "deleted st" "inserted st"]
  show ?thesis by (auto simp: flush_changes_def change_start_def)
qed

text \<open>The rest of the work on a hunk: the lines that are left, and the last pending change.\<close>

definition finish_hunk ::
  "text_line list \<Rightarrow> nat \<Rightarrow> nat \<Rightarrow> nat \<Rightarrow> patch_line list \<Rightarrow> repl_state \<Rightarrow> text_line list option" where
  "finish_hunk source start old_len new_len ls st =
     Option.bind (replacement_loop source start old_len new_len ls st)
       (\<lambda>st'. map_option repl_result (flush_changes source start st'))"

lemma finish_hunk_Cons:
  "finish_hunk source start old_len new_len (l # ls) st =
     Option.bind (replacement_step source start old_len new_len l st)
       (finish_hunk source start old_len new_len ls)"
  by (simp add: finish_hunk_def split: Option.bind_split)

lemma replacement_lines_finish:
  "replacement_lines source start old_len new_len hunk =
     finish_hunk source start old_len new_len (chunk_lines hunk)
       \<lparr>repl_result = [], old_cursor = 0, new_cursor = 0, deleted = 0, inserted = []\<rparr>"
  by (auto simp: replacement_lines_def finish_hunk_def split: Option.bind_split)

definition finishes ::
  "text_line list \<Rightarrow> nat \<Rightarrow> nat \<Rightarrow> nat \<Rightarrow> patch_line list \<Rightarrow> repl_state \<Rightarrow> bool" where
  "finishes source start old_len new_len ls st \<longleftrightarrow>
     (\<exists>out. finish_hunk source start old_len new_len ls st = Some (repl_result st @ out) \<and>
        hunk_rewrites (map Insert (inserted st) @ ls)
          (length (inserted st) + (new_len - new_cursor st))
          (drop (old_cursor st) (matched source start old_len)) out)"

lemma finishes_delete:
  assumes ok: "repl_ok source start old_len new_len st"
    and IH: "\<And>st. repl_ok source start old_len new_len st \<Longrightarrow> finishes source start old_len new_len ls st"
  shows "finishes source start old_len new_len (Delete d # ls) st"
proof -
  have len: "length (matched source start old_len) = old_len" using ok by (auto simp: matched_def repl_ok_def)
  let ?st = "if old_cursor st < old_len
             then st\<lparr>old_cursor := old_cursor st + 1, deleted := deleted st + 1\<rparr> else st"
  have "repl_ok source start old_len new_len ?st" using ok by (auto simp: repl_ok_def)
  from IH [OF this] obtain out where
    f: "finish_hunk source start old_len new_len ls ?st = Some (repl_result st @ out)" and
    r: "hunk_rewrites (map Insert (inserted st) @ ls) (length (inserted st) + (new_len - new_cursor st))
          (drop (old_cursor ?st) (matched source start old_len)) out"
    by (auto simp: finishes_def split: if_splits)
  have "drop (old_cursor ?st) (matched source start old_len) =
        tl (drop (old_cursor st) (matched source start old_len))"
    using ok len by (auto simp: drop_Suc tl_drop repl_ok_def)
  with r have "hunk_rewrites (map Insert (inserted st) @ Delete d # ls)
      (length (inserted st) + (new_len - new_cursor st))
      (drop (old_cursor st) (matched source start old_len)) out"
    by (intro rewrites_delete) simp
  with f show ?thesis by (auto simp: finishes_def finish_hunk_Cons)
qed

lemma finishes_insert:
  assumes ok: "repl_ok source start old_len new_len st"
    and IH: "\<And>st. repl_ok source start old_len new_len st \<Longrightarrow> finishes source start old_len new_len ls st"
  shows "finishes source start old_len new_len (Insert c # ls) st"
proof (cases "new_cursor st < new_len")
  case True
  let ?st = "st\<lparr>inserted := inserted st @ [c], new_cursor := new_cursor st + 1\<rparr>"
  have "repl_ok source start old_len new_len ?st" using ok True by (simp add: repl_ok_def)
  from IH [OF this] True show ?thesis
    by (auto simp: finishes_def finish_hunk_Cons Suc_diff_Suc)
next
  case False
  with ok have "new_len - new_cursor st = 0" by (simp add: repl_ok_def)
  with IH [OF ok] False show ?thesis
    by (auto simp: finishes_def finish_hunk_Cons intro: rewrites_surplus)
qed

lemma finishes_context:
  assumes ok: "repl_ok source start old_len new_len st"
    and IH: "\<And>st. repl_ok source start old_len new_len st \<Longrightarrow> finishes source start old_len new_len ls st"
  shows "finishes source start old_len new_len (Context c # ls) st"
proof -
  let ?old = "matched source start old_len"
  have len: "length ?old = old_len" using ok by (auto simp: matched_def repl_ok_def)
  from flush_total [OF ok] obtain r where
    f: "flush_changes source start st =
          Some (st\<lparr>repl_result := repl_result st @ r, deleted := 0, inserted := []\<rparr>)"
    and r: "map content r = inserted st" by blast
  consider (copy) "old_cursor st < old_len" "new_cursor st < new_len"
    | (insert) "old_cursor st = old_len" "new_cursor st < new_len" | (skip) "new_cursor st = new_len"
    using ok by (fastforce simp: repl_ok_def)
  then obtain st' out where
    step: "replacement_step source start old_len new_len (Context c) st = Some st'"
    and ok': "repl_ok source start old_len new_len st'"
    and out: "repl_result st' = repl_result st @ r @ out"
    and res: "\<And>out'. hunk_rewrites (map Insert (inserted st') @ ls)
                (length (inserted st') + (new_len - new_cursor st')) (drop (old_cursor st') ?old) out' \<Longrightarrow>
              hunk_rewrites (Context c # ls) (new_len - new_cursor st) (drop (old_cursor st) ?old) (out @ out')"
  proof cases
    case copy
    have in_range: "start + old_cursor st < length source" using ok copy by (simp add: repl_ok_def)
    have "drop (old_cursor st) ?old = source ! (start + old_cursor st) # drop (old_cursor st + 1) ?old"
      using copy in_range len
      by (subst Cons_nth_drop_Suc [symmetric]) (simp_all add: matched_def)
    with copy in_range ok f show ?thesis
      by (intro that [of _ "[source ! (start + old_cursor st)]"])
         (auto simp: repl_ok_def min_def Suc_diff_Suc)
  next
    case insert
    with ok f len show ?thesis
      by (intro that [of _ "[]"]) (auto simp: repl_ok_def Suc_diff_Suc)
  next
    case skip
    have "drop (min (old_cursor st + 1) old_len) ?old = tl (drop (old_cursor st) ?old)"
      using ok len by (auto simp: repl_ok_def min_def drop_Suc tl_drop)
    with skip ok f show ?thesis
      by (intro that [of _ "[]"]) (auto simp: repl_ok_def)
  qed
  from IH [OF ok'] obtain out' where
    fin: "finish_hunk source start old_len new_len ls st' = Some (repl_result st' @ out')"
    and h: "hunk_rewrites (map Insert (inserted st') @ ls)
              (length (inserted st') + (new_len - new_cursor st')) (drop (old_cursor st') ?old) out'"
    by (auto simp: finishes_def)
  have "hunk_rewrites (map Insert (inserted st) @ Context c # ls)
          (length (inserted st) + (new_len - new_cursor st)) (drop (old_cursor st) ?old) (r @ out @ out')"
    by (rule rewrites_inserted [OF r res [OF h]])
  with fin step out show ?thesis
    by (auto simp: finishes_def finish_hunk_Cons)
qed

lemma finishes_all: "repl_ok source start old_len new_len st \<Longrightarrow> finishes source start old_len new_len ls st"
proof (induction ls arbitrary: st)
  case Nil
  from flush_total [OF Nil] obtain r where
    "flush_changes source start st =
       Some (st\<lparr>repl_result := repl_result st @ r, deleted := 0, inserted := []\<rparr>)"
    "map content r = inserted st" by blast
  with rewrites_inserted [of r "inserted st" "[]" "new_len - new_cursor st"
      "drop (old_cursor st) (matched source start old_len)" "[]"]
  show ?case by (simp add: finishes_def finish_hunk_def)
next
  case (Cons l ls)
  then show ?case
    by (cases l) (simp_all add: finishes_context finishes_delete finishes_insert)
qed

lemma replacement_lines_spec:
  assumes "start + old_len \<le> length source"
  shows "\<exists>r. replacement_lines source start old_len new_len hunk = Some r \<and>
             hunk_rewrites (chunk_lines hunk) new_len (matched source start old_len) r"
  using finishes_all [of source start old_len new_len
      "\<lparr>repl_result = [], old_cursor = 0, new_cursor = 0, deleted = 0, inserted = []\<rparr>" "chunk_lines hunk"]
    assms
  by (simp add: finishes_def replacement_lines_finish repl_ok_def)

section \<open>Where the replacements lie\<close>

abbreviation repl_start :: "replacement \<Rightarrow> nat" where "repl_start r \<equiv> fst r"
abbreviation repl_end :: "replacement \<Rightarrow> nat" where "repl_end r \<equiv> fst r + fst (snd r)"

definition before :: "replacement \<Rightarrow> replacement \<Rightarrow> bool" where
  "before a b \<longleftrightarrow> repl_end a \<le> repl_start b"

definition at_end :: "nat \<Rightarrow> replacement \<Rightarrow> bool" where
  "at_end n a \<longleftrightarrow> repl_start a = n \<and> fst (snd a) = 0"

text \<open>How one hunk was replaced: the range, the matched pattern and the new contents.\<close>

definition hunk_replaced :: "text_line list \<Rightarrow> patch_chunk \<Rightarrow> replacement \<Rightarrow> bool" where
  "hunk_replaced source hunk r \<longleftrightarrow>
     (case r of (start, old_len, out) \<Rightarrow>
        let old = old_lines (chunk_lines hunk); new = new_lines (chunk_lines hunk)
        in start + old_len \<le> length source \<and>
           matches_at normalized_unicode_line_match (map content source) (take old_len old) start \<and>
           (if old = [] then start = length source \<and> old_len = 0 \<and>
              hunk_rewrites (chunk_lines hunk) (length new) [] out
            else
              old_len = length old \<and>
              hunk_rewrites (chunk_lines hunk) (length new) (matched source start old_len) out \<or>
              old_len = length old - 1 \<and> last old = [] \<and>
              hunk_rewrites (chunk_lines hunk)
                (if last_is_empty new then length new - 1 else length new)
                (matched source start old_len) out))"

lemma matches_at_Nil: "matches_at c ls [] i \<longleftrightarrow> i \<le> length ls"
  by (simp add: matches_at_def)

lemma seek_sequence_found:
  assumes "cursor \<le> length ls"
  shows "\<exists>r. seek_sequence ls pattern cursor eof = Some r \<and>
             (\<forall>i. r = Some i \<longrightarrow> cursor \<le> i \<and> i + length pattern \<le> length ls \<and>
                    matches_at normalized_unicode_line_match ls pattern i)"
proof (cases "pattern = []")
  case True
  with assms show ?thesis by (simp add: seek_sequence_def matches_at_Nil)
next
  case False
  from seek_sequence_spec [OF False] obtain r where
    r: "seek_sequence ls pattern cursor eof = Some r" "search_result ls pattern cursor eof r" by blast
  have "cursor \<le> i \<and> i + length pattern \<le> length ls \<and>
        matches_at normalized_unicode_line_match ls pattern i" if i: "r = Some i" for i
  proof -
    from r(2) i have "in_window ls pattern cursor eof i" by (simp add: search_result_def)
    moreover from r(2) i obtain k where "k < length line_matchers"
      "matches_at (line_matchers ! k) ls pattern i" by (auto simp: search_result_def)
    moreover from this have "matches_at normalized_unicode_line_match ls pattern i"
      using coarsest_matcher [OF nth_mem [of k line_matchers]]
      by (auto simp: matches_at_def intro: list_all2_mono)
    ultimately show ?thesis by (simp add: in_window_def)
  qed
  with r(1) show ?thesis by blast
qed

lemma locate_change_context_total:
  assumes "cursor \<le> length ls"
  shows "\<exists>r. locate_change_context_start ls hunk cursor k d = Some r \<and>
             (\<forall>c. r = Ok c \<longrightarrow> cursor \<le> c \<and> c \<le> length ls)"
proof (cases "change_context hunk")
  case None
  with assms show ?thesis by (simp add: locate_change_context_start_def)
next
  case (Some c)
  from seek_sequence_found [OF assms, of "[c]" False] obtain r where
    "seek_sequence ls [c] cursor False = Some r" "\<forall>i. r = Some i \<longrightarrow> cursor \<le> i \<and> i + 1 \<le> length ls"
    by auto
  with Some show ?thesis by (cases r) (auto simp: locate_change_context_start_def)
qed

lemma locate_hunk_total:
  assumes "cursor \<le> length ls" and "old \<noteq> []"
  shows "\<exists>r. locate_hunk_replacement ls hunk cursor old new k nl d = Some r \<and>
     (\<forall>start old_len pattern. r = Ok (start, old_len, pattern) \<longrightarrow>
        cursor \<le> start \<and> start + old_len \<le> length ls \<and>
        matches_at normalized_unicode_line_match ls (take old_len old) start \<and>
        (old_len = length old \<and> pattern = new \<or>
         old_len = length old - 1 \<and> last old = [] \<and>
         pattern = (if last_is_empty new then butlast new else new)))"
proof -
  from seek_sequence_found [OF assms(1), of old "is_end_of_file hunk"] obtain r where
    r: "seek_sequence ls old cursor (is_end_of_file hunk) = Some r"
      "\<forall>i. r = Some i \<longrightarrow> cursor \<le> i \<and> i + length old \<le> length ls \<and>
           matches_at normalized_unicode_line_match ls old i" by blast
  from seek_sequence_found [OF assms(1), of "butlast old" "is_end_of_file hunk"] obtain r' where
    r': "seek_sequence ls (butlast old) cursor (is_end_of_file hunk) = Some r'"
      "\<forall>i. r' = Some i \<longrightarrow> cursor \<le> i \<and> i + length (butlast old) \<le> length ls \<and>
           matches_at normalized_unicode_line_match ls (butlast old) i" by blast
  show ?thesis
  proof (cases "r = None \<and> last_is_empty old")
    case True
    with r r' show ?thesis
      by (cases r') (auto simp: locate_hunk_replacement_def last_is_empty_def butlast_conv_take)
  next
    case False
    with r show ?thesis
      by (cases r) (auto simp: locate_hunk_replacement_def)
  qed
qed

lemma apply_hunk_total:
  assumes cursor: "cursor \<le> length source"
  shows "\<exists>r. apply_hunk source (map content source) nl d k hunk cursor = Some r \<and>
     (\<forall>cursor' b. r = Ok (cursor', b) \<longrightarrow>
        cursor \<le> cursor' \<and> cursor' \<le> length source \<and> hunk_replaced source hunk b \<and>
        (at_end (length source) b \<or> cursor \<le> repl_start b \<and> repl_end b \<le> cursor'))"
proof -
  let ?ls = "map content source"
  let ?old = "old_lines (chunk_lines hunk)" and ?new = "new_lines (chunk_lines hunk)"
  from locate_change_context_total [of cursor ?ls hunk k d] cursor obtain r where
    r: "locate_change_context_start ?ls hunk cursor k d = Some r"
      "\<forall>c. r = Ok c \<longrightarrow> cursor \<le> c \<and> c \<le> length source" by auto
  show ?thesis
  proof (cases r)
    case (Inl e)
    with r show ?thesis by (simp add: apply_hunk_def)
  next
    case (Inr c)
    with r have c: "cursor \<le> c" "c \<le> length source" by simp_all
    show ?thesis
    proof (cases "?old = []")
      case True
      from replacement_lines_spec [of "length source" 0 source "length ?new" hunk] obtain ls where
        "replacement_lines source (length source) 0 (length ?new) hunk = Some ls"
        "hunk_rewrites (chunk_lines hunk) (length ?new) [] ls"
        by (auto simp: matched_def)
      with r Inr c True show ?thesis
        by (simp add: apply_hunk_def segments_for_hunk hunk_replaced_def at_end_def matches_at_Nil)
    next
      case False
      from locate_hunk_total [of c ?ls ?old hunk ?new k nl d] c False obtain f where
        f: "locate_hunk_replacement ?ls hunk c ?old ?new k nl d = Some f"
        "\<forall>start old_len pattern. f = Ok (start, old_len, pattern) \<longrightarrow>
          c \<le> start \<and> start + old_len \<le> length source \<and>
          matches_at normalized_unicode_line_match ?ls (take old_len ?old) start \<and>
          (old_len = length ?old \<and> pattern = ?new \<or>
           old_len = length ?old - 1 \<and> last ?old = [] \<and>
           pattern = (if last_is_empty ?new then butlast ?new else ?new))" by auto
      show ?thesis
      proof (cases f)
        case (Inl e)
        with r Inr f False show ?thesis by (simp add: apply_hunk_def segments_for_hunk)
      next
        case (Inr g)
        obtain start old_len pattern where g: "g = (start, old_len, pattern)" by (cases g)
        with f(2) Inr have
          p: "c \<le> start" "start + old_len \<le> length source"
            "matches_at normalized_unicode_line_match ?ls (take old_len ?old) start" and
          q: "old_len = length ?old \<and> pattern = ?new \<or>
              old_len = length ?old - 1 \<and> last ?old = [] \<and>
              pattern = (if last_is_empty ?new then butlast ?new else ?new)" by auto
        from replacement_lines_spec [OF p(2), of "length pattern" hunk] obtain ls where
          ls: "replacement_lines source start old_len (length pattern) hunk = Some ls"
            "hunk_rewrites (chunk_lines hunk) (length pattern) (matched source start old_len) ls"
          by blast
        have "hunk_replaced source hunk (start, old_len, ls)"
          using q False p ls by (auto simp: hunk_replaced_def Let_def)
        with r \<open>r = Inr c\<close> f(1) Inr g ls(1) p c False show ?thesis
          by (simp add: apply_hunk_def segments_for_hunk)
      qed
    qed
  qed
qed

lemma hunk_replaced_range: "hunk_replaced source hunk b \<Longrightarrow> repl_end b \<le> length source"
  by (auto simp: hunk_replaced_def Let_def)

text \<open>The replacements found so far, in the order of the hunks.\<close>

definition laid_out :: "nat \<Rightarrow> nat \<Rightarrow> replacement list \<Rightarrow> bool" where
  "laid_out n cursor rs \<longleftrightarrow>
     (\<forall>a \<in> set rs. repl_end a \<le> n \<and> (repl_end a \<le> cursor \<or> at_end n a)) \<and>
     sorted_wrt (\<lambda>a b. before a b \<or> at_end n a) rs"

lemma laid_out_append:
  assumes "laid_out n cursor rs" and "cursor \<le> cursor'" and "repl_end b \<le> n"
    and "at_end n b \<or> cursor \<le> repl_start b \<and> repl_end b \<le> cursor'"
  shows "laid_out n cursor' (rs @ [b])"
proof -
  have "before a b \<or> at_end n a" if "a \<in> set rs" for a
    using assms that by (fastforce simp: laid_out_def before_def at_end_def)
  with assms show ?thesis by (fastforce simp: laid_out_def sorted_wrt_append)
qed

lemma apply_hunks_total:
  assumes "cursor \<le> length source" and "laid_out (length source) cursor acc"
    and "list_all2 (hunk_replaced source) done_hunks acc"
  shows "\<exists>r. apply_hunks source (map content source) nl d k hunks cursor acc = Some r \<and>
     (\<forall>rs. r = Ok rs \<longrightarrow> (\<exists>cursor'. laid_out (length source) cursor' rs) \<and>
            list_all2 (hunk_replaced source) (done_hunks @ hunks) rs)"
  using assms
proof (induction hunks arbitrary: cursor acc done_hunks k)
  case Nil
  then show ?case by auto
next
  case (Cons hunk hunks)
  from apply_hunk_total [OF Cons.prems(1), of nl d "k + 1" hunk] obtain r where
    r: "apply_hunk source (map content source) nl d (k + 1) hunk cursor = Some r"
    "\<forall>cursor' b. r = Ok (cursor', b) \<longrightarrow>
        cursor \<le> cursor' \<and> cursor' \<le> length source \<and> hunk_replaced source hunk b \<and>
        (at_end (length source) b \<or> cursor \<le> repl_start b \<and> repl_end b \<le> cursor')" by blast
  show ?case
  proof (cases r)
    case (Inl e)
    with r show ?thesis by simp
  next
    case (Inr g)
    obtain cursor' b where g: "g = (cursor', b)" by (cases g)
    with r Inr have b: "cursor \<le> cursor'" "cursor' \<le> length source" "hunk_replaced source hunk b"
      "at_end (length source) b \<or> cursor \<le> repl_start b \<and> repl_end b \<le> cursor'" by blast+
    have "laid_out (length source) cursor' (acc @ [b])"
      using Cons.prems(2) b hunk_replaced_range by (intro laid_out_append) auto
    moreover have "list_all2 (hunk_replaced source) (done_hunks @ [hunk]) (acc @ [b])"
      using Cons.prems(3) b by (simp add: list_all2_appendI)
    ultimately show ?thesis
      using Cons.IH [OF b(2), of "acc @ [b]" "done_hunks @ [hunk]" "k + 1"] r(1) Inr g by simp
  qed
qed

section \<open>Sorting, splicing and merging\<close>

lemma insort_before:
  assumes "sorted_wrt before rs" and "\<forall>a \<in> set rs. repl_end a \<le> n"
    and "(\<forall>a \<in> set rs. before x a) \<or> at_end n x"
  shows "sorted_wrt before (insort_key fst x rs)"
  using assms
proof (induction rs)
  case (Cons y rs)
  show ?case
  proof (cases "fst x \<le> fst y")
    case True
    have "before x a" if a: "a \<in> set (y # rs)" for a
      using Cons.prems True a by (fastforce simp: before_def at_end_def)
    with True Cons.prems show ?thesis by simp
  next
    case False
    then have "at_end n x" using Cons.prems(3) by (auto simp: before_def)
    moreover have "before y x" using calculation Cons.prems(2) by (simp add: before_def at_end_def)
    ultimately show ?thesis
      using False Cons by (auto simp: set_insort_key)
  qed
qed simp

lemma sorted_replacements:
  assumes "laid_out n cursor rs"
  shows "sorted_wrt before (sort_key fst rs) \<and> (\<forall>a \<in> set (sort_key fst rs). repl_end a \<le> n)"
proof -
  have "sorted_wrt (\<lambda>a b. before a b \<or> at_end n a) rs" "\<forall>a \<in> set rs. repl_end a \<le> n"
    using assms by (simp_all add: laid_out_def)
  then have "sorted_wrt before (sort_key fst rs)"
  proof (induction rs)
    case (Cons x rs)
    then show ?case by (auto intro!: insort_before)
  qed simp
  with \<open>\<forall>a \<in> set rs. repl_end a \<le> n\<close> show ?thesis by simp
qed

text \<open>The text with its replacements, read once from the front.\<close>

fun merge_from :: "'a list \<Rightarrow> nat \<Rightarrow> (nat \<times> nat \<times> 'a list) list \<Rightarrow> 'a list" where
  "merge_from source pos [] = drop pos source"
| "merge_from source pos ((start, old_len, r) # rs) =
     take (start - pos) (drop pos source) @ r @ merge_from source (start + old_len) rs"

lemma splice_all_append:
  "splice_all out (xs @ ys) = Option.bind (splice_all out xs) (\<lambda>out'. splice_all out' ys)"
  by (induction out xs rule: splice_all.induct) (auto split: Option.bind_split)

lemma splice_all_merge:
  assumes "sorted_wrt before rs" and "\<forall>a \<in> set rs. repl_end a \<le> length source \<and> pos \<le> repl_start a"
    and "pos \<le> length source"
  shows "splice_all source (rev rs) = Some (take pos source @ merge_from source pos rs)"
  using assms
proof (induction rs arbitrary: pos)
  case (Cons x rs)
  obtain start old_len r where x: "x = (start, old_len, r)" by (cases x)
  have "\<forall>a \<in> set rs. start + old_len \<le> repl_start a"
    using Cons.prems(1) x by (simp add: before_def)
  then have "splice_all source (rev rs) =
      Some (take (start + old_len) source @ merge_from source (start + old_len) rs)"
    using Cons.prems x by (intro Cons.IH) auto
  moreover have "take start source = take pos source @ take (start - pos) (drop pos source)"
    using Cons.prems(2) x take_add [of pos "start - pos" source] by simp
  ultimately show ?case
    using Cons.prems(2) x by (simp add: splice_all_append splice_def min_absorb1)
qed simp

text \<open>The lines and the separator of a text, as the source splits it.\<close>

definition source_lines :: "ustr \<Rightarrow> text_line list" where
  "source_lines original = map from_source (split_inclusive original)"

definition separator_of :: "text_line list \<Rightarrow> ustr" where
  "separator_of source =
     (case List.find (\<lambda>l. ending l \<noteq> []) (rev source) of Some l \<Rightarrow> ending l | None \<Rightarrow> [LF])"

lemma nearby_at_end: "nearby_line_ending source (length source) = Some (separator_of source)"
  by (simp add: nearby_line_ending_def separator_of_def)

lemma apply_to_text_cases:
  "(\<exists>e. apply_hunks (source_lines original) (map content (source_lines original))
           (ends_with [LF] original) d 0 hunks 0 [] = Some (Err e) \<and>
         apply_to_text_with_diagnostics original hunks d = Some (Err e)) \<or>
   (\<exists>rs. list_all2 (hunk_replaced (source_lines original)) hunks rs \<and>
         sorted_wrt before (sort_key fst rs) \<and>
         apply_hunks (source_lines original) (map content (source_lines original))
           (ends_with [LF] original) d 0 hunks 0 [] = Some (Ok rs) \<and>
         apply_to_text_with_diagnostics original hunks d =
           Some (Ok (text_of_lines (separator_of (source_lines original))
                       (merge_from (source_lines original) 0 (sort_key fst rs)))))"
proof -
  let ?src = "source_lines original"
  have "laid_out (length ?src) 0 []" by (simp add: laid_out_def)
  from apply_hunks_total [OF _ this, of "[]" "ends_with [LF] original" d 0 hunks] obtain r where
    r: "apply_hunks ?src (map content ?src) (ends_with [LF] original) d 0 hunks 0 [] = Some r"
    and rs: "\<And>rs. r = Ok rs \<Longrightarrow> (\<exists>c. laid_out (length ?src) c rs) \<and>
              list_all2 (hunk_replaced ?src) hunks rs" by auto
  have run: "apply_to_text_with_diagnostics original hunks d =
      (case r of Inl e \<Rightarrow> Some (Err e)
       | Inr rs \<Rightarrow> Option.bind (splice_all ?src (rev (sort_key fst rs)))
                    (\<lambda>out. Some (Ok (text_of_lines (separator_of ?src) out))))"
    using r nearby_at_end [of ?src]
    by (auto simp: apply_to_text_with_diagnostics_def source_lines_def Let_def split: sum.splits)
  show ?thesis
  proof (cases r)
    case (Inl e)
    with run r show ?thesis by simp
  next
    case (Inr replacements)
    with rs obtain c where c: "laid_out (length ?src) c replacements"
      and h: "list_all2 (hunk_replaced ?src) hunks replacements" by auto
    from sorted_replacements [OF c] have
      s: "sorted_wrt before (sort_key fst replacements)"
        "\<forall>a \<in> set (sort_key fst replacements). repl_end a \<le> length ?src" by simp_all
    then have "splice_all ?src (rev (sort_key fst replacements)) =
               Some (merge_from ?src 0 (sort_key fst replacements))"
      using splice_all_merge [of "sort_key fst replacements" ?src 0] by simp
    with run Inr r h s show ?thesis by auto
  qed
qed

lemma apply_to_text_run:
  "apply_hunks (source_lines original) (map content (source_lines original))
     (ends_with [LF] original) d 0 hunks 0 [] = Some (Ok rs) \<Longrightarrow>
   apply_to_text_with_diagnostics original hunks d =
     Some (Ok (text_of_lines (separator_of (source_lines original))
                 (merge_from (source_lines original) 0 (sort_key fst rs))))"
  using apply_to_text_cases [of original d hunks] by auto

end
