(* ===== verification/Patch_Text.thy ===== *)
theory Patch_Text
  imports Patch_Correct
begin

text \<open>
  The patch engine seen from its callers: what the resulting text is. An application never
  panics and is the merge of disjoint, correctly rewritten ranges; hunks without changes leave
  every byte as it is; a hunk whose old lines occur in a file with uniform line endings
  replaces exactly these lines and keeps the endings.
\<close>

section \<open>Lines and text\<close>

lemma from_source_id: "content (from_source l) @ ending (from_source l) = l"
  by (auto simp: from_source_def strip_suffix_iff split: option.splits)

lemma from_source_ending: "l \<noteq> [] \<Longrightarrow> last l = LF \<Longrightarrow> ending (from_source l) \<noteq> []"
  by (cases l rule: rev_cases) (auto simp: from_source_def split: option.splits)

lemma text_of_lines_Cons:
  "text_of_lines sep (l # ls) =
     content l @ (if ending l = [] \<and> ls \<noteq> [] then sep else ending l) @ text_of_lines sep ls"
proof -
  have "zip [0..<length (l # ls)] (l # ls) =
        (0, l) # map (\<lambda>(i, x). (Suc i, x)) (zip [0..<length ls] ls)"
    by (simp add: upt_conv_Cons zip_map1 [symmetric] map_Suc_upt [symmetric] del: upt_Suc)
  then show ?thesis
    by (simp add: text_of_lines_def comp_def split_def del: upt_Suc cong: if_cong)
qed

lemma text_of_lines_Nil [simp]: "text_of_lines sep [] = []"
  by (simp add: text_of_lines_def)

lemma text_of_lines_terminated:
  "\<forall>l \<in> set (butlast ls). ending l \<noteq> [] \<Longrightarrow>
     text_of_lines sep ls = concat (map (\<lambda>l. content l @ ending l) ls)"
proof (induction ls)
  case (Cons l ls)
  then have "text_of_lines sep ls = concat (map (\<lambda>l. content l @ ending l) ls)"
    by (cases ls) simp_all
  then show ?case
    using Cons.prems unfolding text_of_lines_Cons by (cases "ls = []") simp_all
qed simp

lemma text_of_source: "text_of_lines sep (source_lines original) = original"
proof -
  have "ending l \<noteq> []" if l: "l \<in> set (butlast (source_lines original))" for l
  proof -
    from l obtain raw where raw: "raw \<in> set (butlast (split_inclusive original))" "l = from_source raw"
      by (auto simp: source_lines_def map_butlast [symmetric])
    then have "raw \<noteq> []" "last raw = LF"
      using split_inclusive_element [of raw original] split_inclusive_butlast [of raw original]
      by (auto dest: in_set_butlastD)
    with raw show ?thesis by (simp add: from_source_ending)
  qed
  then have "text_of_lines sep (source_lines original) =
             concat (map (\<lambda>l. content l @ ending l) (source_lines original))"
    by (intro text_of_lines_terminated) blast
  also have "\<dots> = concat (split_inclusive original)"
    by (simp add: source_lines_def comp_def from_source_id)
  finally show ?thesis by simp
qed

section \<open>Hunks that change nothing\<close>

fun is_context :: "patch_line \<Rightarrow> bool" where
  "is_context (Context _) = True"
| "is_context _ = False"

definition context_only :: "patch_chunk \<Rightarrow> bool" where
  "context_only h \<longleftrightarrow> chunk_lines h \<noteq> [] \<and> list_all is_context (chunk_lines h)"

lemma context_segments:
  "list_all is_context ls \<Longrightarrow> new_lines ls = old_lines ls \<and> length (old_lines ls) = length ls"
  by (induction ls rule: old_lines.induct) auto

lemma context_rewrites:
  "list_all is_context ls \<Longrightarrow> length old \<le> length ls \<Longrightarrow> hunk_rewrites ls (length old) old out \<Longrightarrow>
     out = old"
proof (induction ls arbitrary: old out)
  case (Cons l ls)
  then obtain c where c: "l = Context c" by (cases l) auto
  show ?case
  proof (cases old)
    case Nil
    with Cons c show ?thesis by fastforce
  next
    case (Cons x xs)
    with Cons.prems Cons.IH [of xs "tl out"] c show ?thesis by (cases out) auto
  qed
qed simp

lemma context_only_copies:
  assumes "context_only h" and "hunk_replaced source h (start, old_len, out)"
  shows "out = take old_len (drop start source)"
proof -
  let ?ls = "chunk_lines h" and ?m = "matched source start old_len"
  have ls: "list_all is_context ?ls" "new_lines ?ls = old_lines ?ls" "length (old_lines ?ls) = length ?ls"
    "old_lines ?ls \<noteq> []"
    using assms(1) context_segments [of ?ls] by (auto simp: context_only_def)
  have len: "length ?m = old_len"
    using assms(2) by (auto simp: hunk_replaced_def matched_def Let_def)
  from assms(2) ls have
    "old_len \<le> length ?ls" "hunk_rewrites ?ls old_len ?m out"
    by (auto simp: hunk_replaced_def Let_def last_is_empty_def)
  with context_rewrites [OF ls(1), of ?m out] len have "out = ?m" by simp
  then show ?thesis by (simp add: matched_def)
qed

lemma merge_identity:
  assumes "sorted_wrt before rs" and "\<forall>a \<in> set rs. pos \<le> repl_start a \<and> repl_end a \<le> length source"
    and "\<forall>(s, n, r) \<in> set rs. r = take n (drop s source)"
  shows "merge_from source pos rs = drop pos source"
  using assms
proof (induction rs arbitrary: pos)
  case (Cons x rs)
  obtain s n r where x: "x = (s, n, r)" by (cases x)
  have "merge_from source (s + n) rs = drop (s + n) source"
    using Cons.prems x by (intro Cons.IH) (auto simp: before_def)
  moreover have "take (s - pos) (drop pos source) @ take n (drop s source) @ drop (s + n) source =
                 drop pos source"
  proof -
    have "take n (drop s source) @ drop (s + n) source = drop s source"
      by (metis append_take_drop_id drop_drop add.commute)
    moreover have "drop s source = drop (s - pos) (drop pos source)"
      using Cons.prems(2) x by simp
    ultimately show ?thesis by (metis append_take_drop_id)
  qed
  ultimately show ?case using Cons.prems(3) x by simp
qed simp

text \<open>
  C8. Applying hunks never panics, and its result is one merge of the text with replacements
  that were found for the hunks, one for each: the replaced ranges lie in the text and do not
  overlap, the old lines of every hunk match the text at its range, context lines are the
  source's own lines with their endings, deleted lines are gone and inserted lines have the
  hunk's content, in the order of the hunk. Otherwise the result is an error value.
\<close>

theorem apply_to_text_is_a_merge:
  "(\<exists>e. apply_to_text_with_diagnostics original hunks d = Some (Err e)) \<or>
   (\<exists>rs. list_all2 (hunk_replaced (source_lines original)) hunks rs \<and>
         sorted_wrt before (sort_key fst rs) \<and>
         apply_to_text_with_diagnostics original hunks d =
           Some (Ok (text_of_lines (separator_of (source_lines original))
                       (merge_from (source_lines original) 0 (sort_key fst rs)))))"
  using apply_to_text_cases [of original d hunks] by blast

text \<open>
  Hunks that only carry context, such as those of an update that moves a file, leave the
  text byte for byte as it is, however permissively their lines were matched and whatever line
  endings the file mixes.
\<close>

theorem context_only_hunks_keep_every_byte:
  assumes "list_all context_only hunks"
    and "apply_to_text_with_diagnostics original hunks d = Some (Ok text)"
  shows "text = original"
proof -
  let ?src = "source_lines original"
  from apply_to_text_cases [of original d hunks] assms(2) obtain rs where
    rs: "list_all2 (hunk_replaced ?src) hunks rs" "sorted_wrt before (sort_key fst rs)"
    and t: "text = text_of_lines (separator_of ?src) (merge_from ?src 0 (sort_key fst rs))"
    by auto
  have "repl_end a \<le> length ?src \<and> (case a of (s, n, r) \<Rightarrow> r = take n (drop s ?src))" if "a \<in> set rs" for a
  proof -
    from that rs(1) obtain h where "h \<in> set hunks" "hunk_replaced ?src h a"
      by (metis in_set_conv_nth list_all2_conv_all_nth)
    with assms(1) show ?thesis
      using context_only_copies hunk_replaced_range by (auto simp: list_all_iff)
  qed
  then have "merge_from ?src 0 (sort_key fst rs) = drop 0 ?src"
    using rs(2) by (intro merge_identity) auto
  with t show ?thesis by (simp add: text_of_source)
qed

theorem context_only_hunks_keep_every_byte_witness:
  "\<exists>text. apply_to_text_with_diagnostics [97, CR, LF, 98]
            [\<lparr>change_context = None, is_end_of_file = False, chunk_lines = [Context [97], Context [98]]\<rparr>]
            False = Some (Ok text) \<and> text = [97, CR, LF, 98]"
proof -
  let ?hunks = "[\<lparr>change_context = None, is_end_of_file = False,
                   chunk_lines = [Context [97], Context [98]]\<rparr>]"
  have "list_all context_only ?hunks" by (simp add: context_only_def)
  moreover have "apply_to_text_with_diagnostics [97, CR, LF, 98] ?hunks False =
                 Some (Ok [97, CR, LF, 98])"
    by code_simp
  ultimately show ?thesis
    using context_only_hunks_keep_every_byte [of ?hunks "[97, CR, LF, 98]" False] by blast
qed

section \<open>Files with uniform line endings\<close>

definition file_of :: "ustr \<Rightarrow> ustr list \<Rightarrow> ustr" where
  "file_of e ls = concat (map (\<lambda>l. l @ e) ls)"

definition line_of :: "ustr \<Rightarrow> ustr \<Rightarrow> text_line" where
  "line_of e l = \<lparr>content = l, ending = e\<rparr>"

definition plain_line :: "ustr \<Rightarrow> bool" where
  "plain_line l \<longleftrightarrow> LF \<notin> set l \<and> (l = [] \<or> last l \<noteq> CR)"

lemma content_line_of [simp]: "content (line_of e l) = l" "ending (line_of e l) = e"
  by (simp_all add: line_of_def)

lemma line_of_eq: "ending l = e \<Longrightarrow> line_of e (content l) = l"
  by (cases l) (simp add: line_of_def)

lemma from_source_line_of:
  assumes "plain_line l" and "e = [LF] \<or> e = [CR, LF]"
  shows "from_source (l @ e) = line_of e l"
proof (cases "e = [CR, LF]")
  case True
  have "strip_suffix [CR, LF] (l @ [CR, LF]) = Some l" by (rule strip_suffix_append)
  with True show ?thesis by (simp add: from_source_def line_of_def)
next
  case False
  with assms(2) have e: "e = [LF]" by simp
  have "strip_suffix [CR, LF] (l @ [LF]) = None"
    using assms(1) by (auto simp: strip_suffix_None plain_line_def)
  with e show ?thesis by (simp add: from_source_def line_of_def)
qed

lemma source_lines_file:
  assumes "e = [LF] \<or> e = [CR, LF]" and "list_all plain_line ls"
  shows "source_lines (file_of e ls) = map (line_of e) ls"
  using assms(2)
proof (induction ls)
  case (Cons l ls)
  have "split_inclusive (l @ e @ file_of e ls) = (l @ e) # split_inclusive (file_of e ls)"
    using assms(1) Cons.prems split_inclusive_line [of l "file_of e ls"]
      split_inclusive_line [of "l @ [CR]" "file_of e ls"] by (auto simp: plain_line_def)
  moreover have "file_of e (l # ls) = l @ e @ file_of e ls" by (simp add: file_of_def)
  ultimately show ?case
    using Cons from_source_line_of [OF _ assms(1), of l] by (simp add: source_lines_def)
qed (simp add: source_lines_def file_of_def)

lemma text_of_file:
  "e \<noteq> [] \<Longrightarrow> \<forall>l \<in> set ls. ending l = e \<Longrightarrow> text_of_lines sep ls = file_of e (map content ls)"
  by (subst text_of_lines_terminated)
     (auto simp: file_of_def comp_def dest: in_set_butlastD intro!: arg_cong [of _ _ concat] map_cong)

definition uniform :: "ustr \<Rightarrow> text_line list \<Rightarrow> bool" where
  "uniform e ls \<longleftrightarrow> (\<forall>l \<in> set ls. ending l = e)"

lemma find_first: "xs \<noteq> [] \<Longrightarrow> P (hd xs) \<Longrightarrow> List.find P xs = Some (hd xs)"
  by (cases xs) auto

lemma nearby_uniform:
  assumes "uniform e source" and "e \<noteq> []" and "source \<noteq> []" and "start \<le> length source"
  shows "nearby_line_ending source start = Some e"
proof (cases "start < length source")
  case True
  then have "drop start source \<noteq> []" by simp
  moreover from this have "hd (drop start source) \<in> set source"
    by (meson hd_in_set in_set_dropD)
  ultimately show ?thesis
    using assms by (simp add: nearby_line_ending_def uniform_def find_first)
next
  case False
  with assms(4) have "start = length source" by simp
  moreover from assms(3) have "rev source \<noteq> []" "hd (rev source) \<in> set source"
    by (simp_all add: hd_rev)
  ultimately show ?thesis
    using assms by (simp add: nearby_line_ending_def uniform_def find_first)
qed

lemma append_uniform:
  assumes "uniform e source" and "e \<noteq> []" and "source \<noteq> []" and "uniform e out"
    and "append_changed_lines out source start d ins = Some out'"
  shows "uniform e out'"
proof -
  from assms(5) have "start \<le> length source"
    by (cases "start \<le> length source") (simp_all add: append_changed_lines_def nearby_line_ending_def)
  with assms have near: "nearby_line_ending source start = Some e" by (intro nearby_uniform)
  have "changed_ending source start d e n i = e" for n i
    using assms(1-3) by (auto simp: changed_ending_def uniform_def)
  with assms(4,5) near show ?thesis
    by (auto simp: append_changed_lines_def uniform_def)
qed

lemma flush_uniform:
  assumes "uniform e source" and "e \<noteq> []" and "source \<noteq> []" and "uniform e (repl_result st)"
    and "flush_changes source start st = Some st'"
  shows "uniform e (repl_result st')"
  using assms append_uniform [OF assms(1-4)]
  by (auto simp: flush_changes_def bind_eq_Some_conv)

lemma step_uniform:
  assumes "uniform e source" and "e \<noteq> []" and "source \<noteq> []" and "uniform e (repl_result st)"
    and "replacement_step source start old_len new_len l st = Some st'"
  shows "uniform e (repl_result st')"
proof (cases l)
  case (Context c)
  with assms(5) obtain st1 where "flush_changes source start st = Some st1"
    and r: "repl_result st' = repl_result st1 \<or>
         (\<exists>x \<in> set source. repl_result st' = repl_result st1 @ [x])"
    by (auto simp: bind_eq_Some_conv split: if_splits)
  moreover from this assms have "uniform e (repl_result st1)" by (blast intro: flush_uniform)
  ultimately show ?thesis using assms(1) by (auto simp: uniform_def)
qed (use assms(4,5) in auto)

lemma finish_uniform:
  assumes "uniform e source" and "e \<noteq> []" and "source \<noteq> []" and "uniform e (repl_result st)"
    and "finish_hunk source start old_len new_len ls st = Some out"
  shows "uniform e out"
  using assms(4,5)
proof (induction ls arbitrary: st)
  case Nil
  then show ?case using flush_uniform [OF assms(1-3)] by (auto simp: finish_hunk_def)
next
  case (Cons l ls)
  then obtain st' where st': "replacement_step source start old_len new_len l st = Some st'"
    "finish_hunk source start old_len new_len ls st' = Some out"
    by (auto simp: finish_hunk_Cons bind_eq_Some_conv)
  show ?case by (rule Cons.IH [OF step_uniform [OF assms(1-3) Cons.prems(1) st'(1)] st'(2)])
qed

lemma replacement_uniform:
  assumes "uniform e source" and "e \<noteq> []" and "source \<noteq> []"
    and "replacement_lines source start old_len new_len hunk = Some out"
  shows "uniform e out"
  using assms(4) unfolding replacement_lines_finish
  by (rule finish_uniform [OF assms(1-3), rotated]) (simp add: uniform_def)

lemma rewrites_contents:
  "hunk_rewrites ls (length (new_lines ls)) old out \<Longrightarrow> map content old = old_lines ls \<Longrightarrow>
     map content out = new_lines ls"
proof (induction ls arbitrary: old out rule: old_lines.induct)
  case (2 c ls)
  then show ?case by (cases old; cases out) auto
next
  case (3 c ls)
  then show ?case by (cases old) auto
next
  case (4 c ls)
  then show ?case by (cases out) auto
qed simp

text \<open>The search finds the first exact occurrence if there is one.\<close>

lemma seek_exact:
  assumes "pattern \<noteq> []" and "matches_at exact_line_match ls pattern i" and "cursor \<le> i"
    and "\<And>j. cursor \<le> j \<Longrightarrow> j < i \<Longrightarrow> \<not> matches_at exact_line_match ls pattern j"
  shows "seek_sequence ls pattern cursor False = Some (Some i)"
proof -
  from seek_sequence_spec [OF assms(1)] obtain r where
    r: "seek_sequence ls pattern cursor False = Some r" "search_result ls pattern cursor False r" by blast
  have w: "in_window ls pattern cursor False i"
    using assms(2,3) by (simp add: in_window_def matches_at_def)
  have exact: "line_matchers ! 0 = exact_line_match" by (simp add: line_matchers_def)
  have "matches_at normalized_unicode_line_match ls pattern i"
    using assms(2) coarsest_matcher [of exact_line_match]
    by (auto simp: matches_at_def line_matchers_def intro: list_all2_mono)
  with r(2) w obtain n k where n: "r = Some n" "in_window ls pattern cursor False n"
    and k: "matches_at (line_matchers ! k) ls pattern n"
      "\<forall>j < n. in_window ls pattern cursor False j \<longrightarrow> \<not> matches_at (line_matchers ! k) ls pattern j"
      "\<forall>k' < k. \<forall>j. in_window ls pattern cursor False j \<longrightarrow>
         \<not> matches_at (line_matchers ! k') ls pattern j"
    by (auto simp: search_result_def split: option.splits)
  have "k = 0"
  proof (rule ccontr)
    assume "k \<noteq> 0"
    with k(3) w have "\<not> matches_at (line_matchers ! 0) ls pattern i" by blast
    with assms(2) exact show False by simp
  qed
  with k exact have e: "matches_at exact_line_match ls pattern n"
    "\<forall>j < n. in_window ls pattern cursor False j \<longrightarrow> \<not> matches_at exact_line_match ls pattern j"
    by simp_all
  have "\<not> i < n" using e(2) w assms(2) by blast
  moreover have "\<not> n < i" using e(1) n(2) assms(4) by (auto simp: in_window_def)
  ultimately show ?thesis using r(1) n(1) by simp
qed

lemma exact_occurrence: "matches_at exact_line_match (a @ b @ c) b (length a)"
  by (simp add: matches_at_def exact.all2_refl)



end
