(* ===== verification/Agent_Path.thy ===== *)
theory Agent_Path
  imports Rust_Text "HOL-Library.Sublist"
begin

text \<open>
  The names of the agents of a tree (\<open>AgentPath\<close>, \<open>src/src/runtime/agent_control.rs\<close>): absolute
  paths \<open>/root/a/b\<close> whose segments are task names. The operations work on the text; the
  abstract value of a path is the list of its names below the root, and every operation is
  shown to be the obvious operation on that list.
\<close>

section \<open>The operations\<close>

type_synonym agent_path = ustr

abbreviation slash :: uchar where "slash \<equiv> 47"

definition ROOT :: ustr where "ROOT = lit ''/root''"
definition ROOT_SEGMENT :: ustr where "ROOT_SEGMENT = lit ''root''"

definition root_path :: agent_path where "root_path = ROOT"

definition is_name_char :: "uchar \<Rightarrow> bool" where
  "is_name_char c \<longleftrightarrow> (97 \<le> c \<and> c \<le> 122) \<or> (48 \<le> c \<and> c \<le> 57) \<or> c = 95"

definition validate_task_name :: "ustr \<Rightarrow> (unit, ustr) result" where
  "validate_task_name task_name =
     (if task_name = [] then Err (lit ''task_name must not be empty'')
      else if task_name = ROOT_SEGMENT then Err (lit ''task_name `root` is reserved'')
      else if task_name = lit ''.'' \<or> task_name = lit ''..'' then
        Err (lit ''task_name `'' @ task_name @ lit ''` is reserved'')
      else if slash \<in> set task_name then Err (lit ''task_name must not contain `/`'')
      else if \<not> list_all is_name_char task_name then
        Err (lit ''task_name must use only lowercase letters, digits, and underscores'')
      else Ok ())"

fun validate_segments :: "ustr list \<Rightarrow> (unit, ustr) result" where
  "validate_segments [] = Ok ()"
| "validate_segments (s # ss) = and_then (validate_task_name s) (\<lambda>_. validate_segments ss)"

definition validate_absolute_path :: "ustr \<Rightarrow> (unit, ustr) result" where
  "validate_absolute_path path =
     (case strip_prefix [slash] path of
        None \<Rightarrow> Err (lit ''absolute agent paths must start with `/root`'')
      | Some stripped \<Rightarrow>
          let segments = split_char slash stripped
          in if hd segments \<noteq> ROOT_SEGMENT then
               Err (lit ''absolute agent paths must start with `/root`'')
             else if ends_with [slash] stripped then
               Err (lit ''absolute agent path must not end with `/`'')
             else validate_segments (tl segments))"

definition validate_relative_reference :: "ustr \<Rightarrow> (unit, ustr) result" where
  "validate_relative_reference reference =
     (if ends_with [slash] reference then
        Err (lit ''relative agent path must not end with `/`'')
      else validate_segments (split_char slash reference))"

definition from_string :: "ustr \<Rightarrow> (agent_path, ustr) result" where
  "from_string path = and_then (validate_absolute_path path) (\<lambda>_. Ok path)"

definition is_root :: "agent_path \<Rightarrow> bool" where
  "is_root p = (p = ROOT)"

text \<open>The text after the last separator, and the text before it.\<close>

definition after_last :: "uchar \<Rightarrow> ustr \<Rightarrow> ustr" where
  "after_last d s = rev (takeWhile (\<lambda>c. c \<noteq> d) (rev s))"

definition rsplit_once :: "uchar \<Rightarrow> ustr \<Rightarrow> (ustr \<times> ustr) option" where
  "rsplit_once d s =
     (case dropWhile (\<lambda>c. c \<noteq> d) (rev s) of
        [] \<Rightarrow> None
      | _ # before \<Rightarrow> Some (rev before, after_last d s))"

definition name :: "agent_path \<Rightarrow> ustr" where
  "name p =
     (if is_root p then ROOT_SEGMENT
      else let segment = after_last slash p in if segment = [] then ROOT_SEGMENT else segment)"

definition parent_path :: "agent_path \<Rightarrow> agent_path option" where
  "parent_path p =
     (if is_root p then None
      else case rsplit_once slash p of
             None \<Rightarrow> None
           | Some (before, _) \<Rightarrow>
               (case from_string before of Inl _ \<Rightarrow> None | Inr q \<Rightarrow> Some q))"

definition join_path :: "agent_path \<Rightarrow> ustr \<Rightarrow> (agent_path, ustr) result" where
  "join_path p task_name =
     and_then (validate_task_name task_name) (\<lambda>_. from_string (p @ slash # task_name))"

definition resolve :: "agent_path \<Rightarrow> ustr \<Rightarrow> (agent_path, ustr) result" where
  "resolve p reference =
     (if reference = [] then Err (lit ''agent path must not be empty'')
      else if reference = ROOT then Ok root_path
      else if starts_with [slash] reference then from_string reference
      else and_then (validate_relative_reference reference)
             (\<lambda>_. from_string (p @ slash # reference)))"

definition is_at_or_below :: "agent_path \<Rightarrow> agent_path \<Rightarrow> bool" where
  "is_at_or_below p prefix0 =
     (p = prefix0 \<or>
      (case strip_prefix prefix0 p of None \<Rightarrow> False | Some suffix0 \<Rightarrow> starts_with [slash] suffix0))"

section \<open>Paths as lists of names\<close>

definition valid_name :: "ustr \<Rightarrow> bool" where
  "valid_name n \<longleftrightarrow> n \<noteq> [] \<and> n \<noteq> ROOT_SEGMENT \<and> list_all is_name_char n"

definition of_names :: "ustr list \<Rightarrow> agent_path" where
  "of_names ns = ROOT @ concat (map ((#) slash) ns)"

definition valid_path :: "agent_path \<Rightarrow> bool" where
  "valid_path p \<longleftrightarrow> (\<exists>ns. list_all valid_name ns \<and> p = of_names ns)"

lemma name_char_not_slash: "is_name_char c \<Longrightarrow> c \<noteq> slash"
  by (auto simp: is_name_char_def)

lemma valid_name_no_slash: "valid_name n \<Longrightarrow> slash \<notin> set n"
  by (auto simp: valid_name_def list_all_iff dest: name_char_not_slash)

lemma validate_task_name_iff: "validate_task_name n = Ok () \<longleftrightarrow> valid_name n"
proof -
  have "list_all is_name_char n \<Longrightarrow> n \<noteq> lit ''.'' \<and> n \<noteq> lit ''..'' \<and> slash \<notin> set n"
    by (auto simp: lit_def is_name_char_def list_all_iff)
  then show ?thesis by (auto simp: validate_task_name_def valid_name_def)
qed

lemma validate_segments_iff: "validate_segments ns = Ok () \<longleftrightarrow> list_all valid_name ns"
  by (induction ns) (auto simp: validate_task_name_iff and_then_Ok_iff)

lemma root_no_slash: "slash \<notin> set ROOT_SEGMENT" "ROOT = slash # ROOT_SEGMENT" "ROOT_SEGMENT \<noteq> []"
  by (simp_all add: ROOT_def ROOT_SEGMENT_def lit_def)

lemma split_char_no_sep: "d \<notin> set s \<Longrightarrow> split_char d s = [s]"
  by (induction s) auto

lemma split_char_append:
  "d \<notin> set s \<Longrightarrow> split_char d (s @ d # t) = s # split_char d t"
  by (induction s) auto

lemma split_char_names:
  "\<forall>n \<in> set (m # ns). slash \<notin> set n \<Longrightarrow>
     split_char slash (m @ concat (map ((#) slash) ns)) = m # ns"
  by (induction ns arbitrary: m) (auto simp: split_char_no_sep split_char_append)

lemma join_names: "join [slash] (m # ns) = m @ concat (map ((#) slash) ns)"
  by (induction ns arbitrary: m) auto

lemma ends_with_names:
  assumes "m \<noteq> []" and "slash \<notin> set m" and "list_all valid_name ns"
  shows "\<not> ends_with [slash] (m @ concat (map ((#) slash) ns))"
proof (cases ns rule: rev_cases)
  case Nil
  with assms show ?thesis by (auto simp: ends_with_def strip_suffix_iff)
next
  case (snoc ms n)
  with assms(3) have "n \<noteq> []" "slash \<notin> set n"
    using valid_name_no_slash [of n] by (auto simp: valid_name_def)
  moreover have "last (m @ concat (map ((#) slash) ns)) = last n"
    using snoc calculation by simp
  ultimately show ?thesis
    by (auto simp: ends_with_def strip_suffix_iff) (metis last_in_set last_snoc)
qed

lemma validate_absolute_path_iff: "validate_absolute_path p = Ok () \<longleftrightarrow> valid_path p"
proof
  assume ok: "validate_absolute_path p = Ok ()"
  then obtain s where s: "p = slash # s" "hd (split_char slash s) = ROOT_SEGMENT"
    "list_all valid_name (tl (split_char slash s))"
    by (auto simp: validate_absolute_path_def strip_prefix_iff Let_def validate_segments_iff
             split: option.splits if_splits)
  obtain ns where ns: "split_char slash s = ROOT_SEGMENT # ns"
    using s(2) by (cases "split_char slash s") auto
  then have "s = ROOT_SEGMENT @ concat (map ((#) slash) ns)"
    using join_split_char [of slash s] join_names [of ROOT_SEGMENT ns] by simp
  with s ns show "valid_path p"
    by (auto simp: valid_path_def of_names_def root_no_slash)
next
  assume "valid_path p"
  then obtain ns where ns: "list_all valid_name ns" "p = of_names ns" by (auto simp: valid_path_def)
  let ?s = "ROOT_SEGMENT @ concat (map ((#) slash) ns)"
  have "split_char slash ?s = ROOT_SEGMENT # ns"
    using ns(1) root_no_slash by (intro split_char_names) (auto simp: list_all_iff dest: valid_name_no_slash)
  moreover have "\<not> ends_with [slash] ?s"
    using ns(1) root_no_slash by (intro ends_with_names) auto
  ultimately show "validate_absolute_path p = Ok ()"
    using ns by (simp add: validate_absolute_path_def of_names_def root_no_slash validate_segments_iff)
qed

lemma from_string_Ok: "from_string p = Ok q \<longleftrightarrow> q = p \<and> valid_path p"
  using validate_absolute_path_iff [of p]
  by (cases "validate_absolute_path p") (auto simp: from_string_def)

lemma valid_path_of_names: "list_all valid_name ns \<Longrightarrow> valid_path (of_names ns)"
  by (auto simp: valid_path_def)

lemma of_names_snoc: "of_names (ns @ [n]) = of_names ns @ slash # n"
  by (simp add: of_names_def)

lemma of_names_inject:
  assumes "list_all valid_name ms" and "list_all valid_name ns"
  shows "of_names ms = of_names ns \<longleftrightarrow> ms = ns"
proof -
  have "split_char slash (ROOT_SEGMENT @ concat (map ((#) slash) ks)) = ROOT_SEGMENT # ks"
    if "list_all valid_name ks" for ks
    using that root_no_slash by (intro split_char_names) (auto simp: list_all_iff dest: valid_name_no_slash)
  with assms show ?thesis by (metis list.inject of_names_def append_Cons root_no_slash(2))
qed

lemma of_names_Nil: "of_names [] = ROOT" by (simp add: of_names_def)

lemma is_root_of_names: "list_all valid_name ns \<Longrightarrow> is_root (of_names ns) \<longleftrightarrow> ns = []"
  using of_names_inject [of ns "[]"] by (simp add: is_root_def of_names_Nil)

lemma after_last_append: "d \<notin> set n \<Longrightarrow> after_last d (s @ d # n) = n"
proof -
  assume "d \<notin> set n"
  then have "takeWhile (\<lambda>c. c \<noteq> d) (rev n @ d # rev s) = rev n"
    by (subst takeWhile_append2) auto
  then show ?thesis by (simp add: after_last_def)
qed

lemma rsplit_once_append:
  assumes "d \<notin> set n"
  shows "rsplit_once d (s @ d # n) = Some (s, n)"
proof -
  have "dropWhile (\<lambda>c. c \<noteq> d) (rev n @ d # rev s) = d # rev s"
    using assms by (subst dropWhile_append2) auto
  with assms show ?thesis by (simp add: rsplit_once_def after_last_append)
qed

lemma name_snoc: "list_all valid_name (ns @ [n]) \<Longrightarrow> name (of_names (ns @ [n])) = n"
  using is_root_of_names [of "ns @ [n]"] valid_name_no_slash [of n]
  by (auto simp: name_def of_names_snoc after_last_append Let_def valid_name_def)

lemma parent_snoc:
  assumes "list_all valid_name (ns @ [n])"
  shows "parent_path (of_names (ns @ [n])) = Some (of_names ns)"
proof -
  have "from_string (of_names ns) = Ok (of_names ns)"
    using assms by (simp add: from_string_Ok valid_path_of_names)
  moreover have "\<not> is_root (of_names (ns @ [n]))" using is_root_of_names [OF assms] by simp
  moreover have "rsplit_once slash (of_names (ns @ [n])) = Some (of_names ns, n)"
    using assms valid_name_no_slash [of n] by (simp add: of_names_snoc rsplit_once_append)
  ultimately show ?thesis by (simp add: parent_path_def)
qed

lemma parent_path_shorter: "parent_path p = Some q \<Longrightarrow> length q < length p"
proof -
  assume a: "parent_path p = Some q"
  then obtain c rest where "dropWhile (\<lambda>c. c \<noteq> slash) (rev p) = c # rest" "q = rev rest"
    by (auto simp: parent_path_def rsplit_once_def from_string_def and_then_def
             split: if_splits list.splits sum.splits)
  moreover have "length (dropWhile (\<lambda>c. c \<noteq> slash) (rev p)) \<le> length (rev p)"
    by (rule length_dropWhile_le)
  ultimately show ?thesis by simp
qed

lemma join_names_iff:
  assumes "list_all valid_name ns"
  shows "join_path (of_names ns) t = Ok q \<longleftrightarrow> valid_name t \<and> q = of_names (ns @ [t])"
proof -
  have "valid_name t \<Longrightarrow> valid_path (of_names ns @ slash # t)"
    using assms valid_path_of_names [of "ns @ [t]"] by (simp add: of_names_snoc)
  then show ?thesis
    using validate_task_name_iff [of t]
    by (cases "validate_task_name t") (auto simp: join_path_def from_string_Ok of_names_snoc)
qed

lemma is_at_or_below_names:
  assumes "list_all valid_name ms" and "list_all valid_name ns"
  shows "is_at_or_below (of_names ms) (of_names ns) \<longleftrightarrow> prefix ns ms"
proof
  assume "prefix ns ms"
  then obtain ks where ks: "ms = ns @ ks" by (auto simp: prefix_def)
  show "is_at_or_below (of_names ms) (of_names ns)"
  proof (cases ks)
    case Nil
    with ks show ?thesis by (simp add: is_at_or_below_def)
  next
    case (Cons k ks')
    have "of_names ms = of_names ns @ slash # k @ concat (map ((#) slash) ks')"
      by (simp add: ks Cons of_names_def)
    then show ?thesis by (simp add: is_at_or_below_def starts_with_def)
  qed
next
  assume below: "is_at_or_below (of_names ms) (of_names ns)"
  show "prefix ns ms"
  proof (cases "of_names ms = of_names ns")
    case True
    with assms show ?thesis by (simp add: of_names_inject)
  next
    case False
    with below obtain r where r: "of_names ms = of_names ns @ slash # r"
      by (auto simp: is_at_or_below_def strip_prefix_iff starts_with_iff split: option.splits)
    have "prefix ns ms" if "concat (map ((#) slash) ms) = concat (map ((#) slash) ns) @ slash # r"
      "list_all valid_name ns" "list_all valid_name ms" for ms ns :: "ustr list"
      using that
    proof (induction ns arbitrary: ms)
      case (Cons n ns)
      then obtain m ms' where ms: "ms = m # ms'" by (cases ms) auto
      have nm: "slash \<notin> set n" "slash \<notin> set m"
        using Cons.prems(2,3) ms by (auto dest: valid_name_no_slash)
      have e: "m @ concat (map ((#) slash) ms') = n @ concat (map ((#) slash) ns) @ slash # r"
        using Cons.prems(1) ms by simp
      have "hd (split_char slash (x @ y)) = x" if "slash \<notin> set x" "y = [] \<or> hd y = slash" for x y
        using that by (cases y) (auto simp: split_char_no_sep split_char_append)
      from this [OF nm(2), of "concat (map ((#) slash) ms')"]
        this [OF nm(1), of "concat (map ((#) slash) ns) @ slash # r"] e
      have mn: "m = n" by (cases ms'; cases ns) auto
      with e have "concat (map ((#) slash) ms') = concat (map ((#) slash) ns) @ slash # r" by simp
      with Cons.IH [of ms'] Cons.prems ms mn show ?case by simp
    qed simp
    with r assms show ?thesis by (simp add: of_names_def)
  qed
qed

text \<open>
  The path operations are the operations on the list of names: \<open>join\<close> accepts exactly the
  valid task names and appends one; of the path it makes, \<open>parent\<close> and \<open>name\<close> give the two
  parts back; \<open>is_at_or_below\<close> is the prefix order, so that it never confuses
  \<open>/root/a\<close> with \<open>/root/ab\<close>; the root alone has no parent.
\<close>

theorem agent_path_refines_names:
  assumes "list_all valid_name ns" and "list_all valid_name ms"
  shows "(\<forall>t q. join_path (of_names ns) t = Ok q \<longleftrightarrow> valid_name t \<and> q = of_names (ns @ [t])) \<and>
         parent_path (of_names ns) = (if ns = [] then None else Some (of_names (butlast ns))) \<and>
         name (of_names ns) = (if ns = [] then ROOT_SEGMENT else last ns) \<and>
         (is_at_or_below (of_names ms) (of_names ns) \<longleftrightarrow> prefix ns ms) \<and>
         (of_names ms = of_names ns \<longleftrightarrow> ms = ns)"
proof (intro conjI)
  show "\<forall>t q. join_path (of_names ns) t = Ok q \<longleftrightarrow> valid_name t \<and> q = of_names (ns @ [t])"
    using join_names_iff [OF assms(1)] by blast
  show "parent_path (of_names ns) = (if ns = [] then None else Some (of_names (butlast ns)))"
    using assms(1) parent_snoc by (cases ns rule: rev_cases) (auto simp: parent_path_def is_root_def of_names_Nil)
  show "name (of_names ns) = (if ns = [] then ROOT_SEGMENT else last ns)"
    using assms(1) name_snoc by (cases ns rule: rev_cases) (auto simp: name_def is_root_def of_names_Nil)
  show "is_at_or_below (of_names ms) (of_names ns) \<longleftrightarrow> prefix ns ms"
    by (rule is_at_or_below_names [OF assms(2,1)])
  show "of_names ms = of_names ns \<longleftrightarrow> ms = ns"
    by (rule of_names_inject [OF assms(2,1)])
qed

theorem agent_path_refines_names_witness:
  "parent_path (of_names [lit ''a'', lit ''b'']) = Some (of_names [lit ''a'']) \<and>
   \<not> is_at_or_below (of_names [lit ''ab'']) (of_names [lit ''a''])"
  using agent_path_refines_names [of "[lit ''a'', lit ''b'']" "[lit ''a'']"]
    agent_path_refines_names [of "[lit ''a'']" "[lit ''ab'']"]
  by (auto simp: valid_name_def is_name_char_def ROOT_SEGMENT_def lit_def)

text \<open>
  Resolving a reference always stays among the valid paths, and a relative reference
  stays in the subtree of the path it is resolved against: it can never name an ancestor or a
  sibling. Resolving the text of a valid path gives that path.
\<close>

theorem resolve_stays_in_the_tree:
  assumes "valid_path p" and "resolve p reference = Ok q"
  shows "valid_path q \<and> (hd reference \<noteq> slash \<longrightarrow> is_at_or_below q p \<and> q \<noteq> p) \<and>
         (hd reference = slash \<longrightarrow> q = reference)"
proof -
  from assms(1) obtain ns where ns: "list_all valid_name ns" "p = of_names ns"
    by (auto simp: valid_path_def)
  have root: "valid_path root_path"
    using valid_path_of_names [of "[]"] by (simp add: of_names_Nil root_path_def)
  have abs: "starts_with [slash] reference \<longleftrightarrow> reference \<noteq> [] \<and> hd reference = slash"
    by (cases reference) (auto simp: starts_with_iff)
  show ?thesis
  proof (cases "starts_with [slash] reference")
    case True
    with assms(2) root abs show ?thesis
      by (auto simp: resolve_def from_string_Ok root_path_def split: if_splits)
  next
    case False
    with assms(2) have "reference \<noteq> []" "reference \<noteq> ROOT" and q: "q = p @ slash # reference" "valid_path q"
      by (auto simp: resolve_def from_string_Ok and_then_Ok_iff root_no_slash starts_with_iff split: if_splits)
    moreover have "is_at_or_below q p"
      by (simp add: q(1) is_at_or_below_def starts_with_def)
    ultimately show ?thesis using False abs by simp
  qed
qed

theorem resolve_stays_in_the_tree_witness:
  "is_at_or_below (of_names [lit ''a'', lit ''b'']) (of_names [lit ''a''])"
proof -
  have v: "valid_path (of_names [lit ''a''])"
    by (rule valid_path_of_names) (simp add: valid_name_def is_name_char_def ROOT_SEGMENT_def lit_def)
  have "resolve (of_names [lit ''a'']) (lit ''b'') = Ok (of_names [lit ''a'', lit ''b''])"
    by code_simp
  from resolve_stays_in_the_tree [OF v this] show ?thesis by (simp add: lit_def)
qed

end
