(* ===== verification/Agent_State.thy ===== *)
theory Agent_State
  imports Agent_Path Run_Control
begin

text \<open>
  The state of one agent tree (\<open>AgentTreeState\<close> and \<open>AgentEntry\<close> of
  \<open>src/src/runtime/agent_control.rs\<close>) and the functions that work on it while the registry lock
  is held.

  \<^item> Objects that the source compares by identity are numbers: an execution marker
    (\<open>Arc<()>\<close>), a run control, a tree (its router). New ones come from two counters.
  \<^item> The run controls live in a heap, because an agent entry, a lease and the surface share
    them.
  \<^item> An operation runs under the registry lock and is one step. Where the source releases the
    lock in between, the operation is split into its locked phases.
  \<^item> A \<open>Weak\<close> marker of a scope carries the answer of \<open>upgrade\<close> at the time of the call.
\<close>

section \<open>Data\<close>

type_synonym marker = nat
type_synonym owner_resume_request_id = ulid

datatype agent_status =
    PendingInit | Running | AwaitingDescendants | Interrupted
  | Completed "ustr option" | Errored ustr | Shutdown

datatype active_agent_status = ActivePendingInit | ActiveRunning

fun of_active :: "active_agent_status \<Rightarrow> agent_status" where
  "of_active ActivePendingInit = PendingInit"
| "of_active ActiveRunning = Running"

datatype inactive_agent_status =
    InactivePendingInit | InactiveAwaiting turn_id | InactiveInterrupted
  | InactiveCompleted "ustr option" | InactiveErrored ustr | InactiveShutdown

fun of_inactive :: "inactive_agent_status \<Rightarrow> agent_status" where
  "of_inactive InactivePendingInit = PendingInit"
| "of_inactive (InactiveAwaiting _) = AwaitingDescendants"
| "of_inactive InactiveInterrupted = Interrupted"
| "of_inactive (InactiveCompleted r) = Completed r"
| "of_inactive (InactiveErrored m) = Errored m"
| "of_inactive InactiveShutdown = Shutdown"

record agent_mailbox_notice =
  notice_id :: history_item_id
  trigger_turn :: bool
  schedule_ready :: bool
  notice_generation :: u64

record agent_mail_commit =
  commit_history_item_id :: history_item_id
  schedule_turn :: bool
  commit_owner_resume :: "owner_resume_request_id option"

record agent_mailbox_delivery_commit =
  delivered_ids :: "history_item_id list"
  has_more :: bool

definition MAX_AGENT_MAILBOX_NOTICES :: nat where "MAX_AGENT_MAILBOX_NOTICES = 128"
definition MAX_RETAINED_AGENTS :: nat where "MAX_RETAINED_AGENTS = 256"

record agent_snapshot =
  snap_path :: agent_path
  snap_session_id :: session_id
  snap_parent :: "agent_path option"
  snap_children :: "agent_path list"
  snap_spawn_order :: u64
  snap_status :: agent_status
  snap_last_activity :: "ustr option"
  snap_is_active :: bool
  snap_mailbox_generation :: u64
  snap_pending_mail_count :: nat

record agent_tree_snapshot =
  snapshot_root :: agent_path
  snapshot_max_concurrent_agents :: nat
  snapshot_active_agent_count :: nat
  snapshot_agents :: "agent_snapshot list"

datatype agent_control_error =
    InvalidCapacity nat nat
  | InvalidPath ustr
  | AgentNotFound agent_path
  | AgentAlreadyExists agent_path
  | SessionAlreadyRegistered session_id
  | AgentAlreadyActive agent_path
  | AgentShutdown agent_path
  | AgentNotActive agent_path
  | AgentLimitReached nat
  | AgentRegistryFull nat
  | SpawnOrderExhausted
  | SpawnOrderAlreadyUsed u64
  | TreeCancelled
  | MailboxClosed agent_path
  | MailboxFull agent_path nat
  | DurableMailboxCommit ustr
  | DurableOwnerResumeRead ustr
  | DurableAdmissionCommit ustr
  | DurableInterruptCommit ustr
  | DurableSpawnCommit ustr
  | StaleExecution agent_path
  | AgentNotAwaitingDescendants agent_path
  | RootAgentCannotBeRemoved
  | AgentRollbackRejected agent_path
  | RunControlOwnedByDifferentTree
  | RootTurnRequiresScope

record agent_entry =
  session_id :: session_id
  parent :: "agent_path option"
  spawn_order :: u64
  status :: agent_status
  last_activity :: "ustr option"
  execution_marker :: "marker option"
  entry_control :: ctl_id
  mailbox :: "agent_mailbox_notice list"
  pending_owner_resume :: "owner_resume_request_id option"
  active_durable_turn :: "turn_id option"
  awaiting_deferred_turn :: "turn_id option"
  pending_deferred_release :: "turn_id option"
  mailbox_generation :: u64
  trigger_admission_epoch :: u64
  trigger_purge_pending :: u32
  mailbox_activity :: u64

text \<open>
  \<open>AgentControlInner\<close> with the state behind its registry lock, together with what the tree
  shares with its surroundings: the heap of run controls and the counters that stand for
  allocation. \<open>tree_router\<close> is the identity of the tree's own terminal router.
\<close>

record agent_control =
  max_concurrent_agents :: nat
  next_spawn_order :: u64
  pending_capacity_reservations :: nat
  root_scope_control :: ctl_id
  pending_root_durable_turn :: "(turn_id \<times> u64) option"
  agents :: "(agent_path, agent_entry) hmap"
  activity :: u64
  tree_router :: router_id
  heap :: ctl_heap
  next_ctl :: ctl_id
  next_marker :: marker

datatype agent_execution_wake_cause =
    ExplicitTask history_item_id
  | OwnerResume owner_resume_request_id

record agent_execution_lease =
  lease_path :: agent_path
  lease_marker :: marker
  lease_control :: ctl_id
  wake_cause :: "agent_execution_wake_cause option"

record agent_execution_scope =
  scope_tree :: router_id
  scope_path :: agent_path
  scope_marker :: marker
  scope_alive :: bool

record agent_interrupt_target =
  target_path :: agent_path
  target_session :: session_id
  target_status :: agent_status
  target_marker :: "marker option"
  target_control :: ctl_id

datatype agent_root_continuation_outcome =
    ContinuationAdmitted agent_execution_lease | ContinuationBlocked | ContinuationNotReady
  | ContinuationInvalid

datatype root_execution_stop_disposition =
    StopApplied | StopDeferred | AlreadyUserStopped | AlreadyClassified | TerminalAlreadySettled

datatype 'a pending_trigger_terminal_commit =
    TerminalApplied 'a
  | BlockedByPendingDeferredCompletion turn_id
  | WakeOwnedOrResolved

definition stop_accepted :: "root_execution_stop_disposition \<Rightarrow> bool" where
  "stop_accepted d = (d \<noteq> AlreadyClassified)"

section \<open>Reading and changing entries\<close>

definition with_entry ::
  "agent_path \<Rightarrow> (agent_entry \<Rightarrow> agent_entry) \<Rightarrow> agent_control \<Rightarrow> agent_control" where
  "with_entry p f w = w\<lparr>agents := hm_modify p f (agents w)\<rparr>"

definition notify_activity :: "agent_control \<Rightarrow> agent_control" where
  "notify_activity w = w\<lparr>activity := activity w + 1\<rparr>"

text \<open>\<open>RunControl::new\<close> followed by \<open>inherit_effect_authority\<close> of a control of the heap.\<close>

definition alloc_control :: "ctl_id \<Rightarrow> agent_control \<Rightarrow> agent_control \<times> ctl_id" where
  "alloc_control source w =
     (w\<lparr>heap := (heap w)(next_ctl w := inherit_effect_authority new_run_control (heap w source)),
        next_ctl := next_ctl w + 1\<rparr>, next_ctl w)"

definition alloc_marker :: "agent_control \<Rightarrow> agent_control \<times> marker" where
  "alloc_marker w = (w\<lparr>next_marker := next_marker w + 1\<rparr>, next_marker w)"

definition tree_cancelled :: "agent_control \<Rightarrow> bool" where
  "tree_cancelled w = is_cancelled (heap w (root_scope_control w))"

definition active_agent_count :: "agent_control \<Rightarrow> nat" where
  "active_agent_count w =
     pending_capacity_reservations w +
     length (filter (\<lambda>(p, e). \<not> is_root p \<and> execution_marker e \<noteq> None) (agents w))"

definition descendant_capacity :: "agent_control \<Rightarrow> nat" where
  "descendant_capacity w = max_concurrent_agents w - 1"

definition new_entry ::
  "session_id \<Rightarrow> agent_path option \<Rightarrow> u64 \<Rightarrow> agent_status \<Rightarrow> ustr option \<Rightarrow> marker option \<Rightarrow> ctl_id \<Rightarrow>
   turn_id option \<Rightarrow> agent_entry" where
  "new_entry session par order st act mk ctl awaiting =
     \<lparr>session_id = session, parent = par, spawn_order = order, status = st, last_activity = act,
      execution_marker = mk, entry_control = ctl, mailbox = [], pending_owner_resume = None,
      active_durable_turn = None, awaiting_deferred_turn = awaiting,
      pending_deferred_release = None, mailbox_generation = 0, trigger_admission_epoch = 0,
      trigger_purge_pending = 0, mailbox_activity = 0\<rparr>"

text \<open>The fields that every new execution of an entry sets.\<close>

definition start_execution :: "marker \<Rightarrow> ctl_id \<Rightarrow> agent_entry \<Rightarrow> agent_entry" where
  "start_execution mk ctl e =
     e\<lparr>execution_marker := Some mk, entry_control := ctl, status := PendingInit,
       active_durable_turn := None, awaiting_deferred_turn := None,
       pending_deferred_release := None\<rparr>"

definition clear_cancelled_active_generation_state :: "agent_entry \<Rightarrow> agent_entry" where
  "clear_cancelled_active_generation_state e =
     e\<lparr>active_durable_turn := None, pending_deferred_release := None\<rparr>"

section \<open>Functions under the registry lock\<close>

definition validate_execution_scope_locked ::
  "agent_control \<Rightarrow> agent_execution_scope \<Rightarrow> agent_path \<Rightarrow> (unit, agent_control_error) result" where
  "validate_execution_scope_locked w scope expected_path =
     (if tree_router w \<noteq> scope_tree scope \<or> scope_path scope \<noteq> expected_path \<or> \<not> scope_alive scope
      then Err (StaleExecution expected_path)
      else case hm_get (agents w) expected_path of
             None \<Rightarrow> Err (AgentNotFound expected_path)
           | Some e \<Rightarrow>
               if execution_marker e \<noteq> Some (scope_marker scope) \<or>
                  is_cancelled (heap w (entry_control e)) \<or>
                  success_is_sealed (heap w (entry_control e))
               then Err (StaleExecution expected_path) else Ok ())"

definition session_registered :: "agent_control \<Rightarrow> session_id \<Rightarrow> bool" where
  "session_registered w s = list_ex (\<lambda>(_, e). session_id e = s) (agents w)"

definition validate_child_registration_locked ::
  "agent_control \<Rightarrow> agent_path \<Rightarrow> agent_path \<Rightarrow> session_id \<Rightarrow> (unit, agent_control_error) result" where
  "validate_child_registration_locked w parent0 child_path session =
     (if tree_cancelled w then Err TreeCancelled
      else if \<not> hm_contains (agents w) parent0 then Err (AgentNotFound parent0)
      else if hm_contains (agents w) child_path then Err (AgentAlreadyExists child_path)
      else if session_registered w session then Err (SessionAlreadyRegistered session)
      else if MAX_RETAINED_AGENTS \<le> length (agents w) then Err (AgentRegistryFull MAX_RETAINED_AGENTS)
      else if descendant_capacity w \<le> active_agent_count w then
        Err (AgentLimitReached (max_concurrent_agents w))
      else Ok ())"

definition allocate_spawn_order ::
  "agent_control \<Rightarrow> (agent_control \<times> u64, agent_control_error) result" where
  "allocate_spawn_order w =
     (case checked_succ (next_spawn_order w) of
        None \<Rightarrow> Err SpawnOrderExhausted
      | Some n \<Rightarrow> Ok (w\<lparr>next_spawn_order := n\<rparr>, next_spawn_order w))"

text \<open>The spawn order of a new child: the durable one if it is free, or the next one.\<close>

definition choose_spawn_order ::
  "agent_control \<Rightarrow> u64 option \<Rightarrow> (agent_control \<times> u64, agent_control_error) result" where
  "choose_spawn_order w durable_spawn_order =
     (case durable_spawn_order of
        None \<Rightarrow> allocate_spawn_order w
      | Some order \<Rightarrow>
          if order = 0 \<or> list_ex (\<lambda>(_, e). spawn_order e = order) (agents w)
          then Err (SpawnOrderAlreadyUsed order)
          else (case checked_succ order of
                  None \<Rightarrow> Err SpawnOrderExhausted
                | Some n \<Rightarrow> Ok (w\<lparr>next_spawn_order := max (next_spawn_order w) n\<rparr>, order)))"

definition snapshot_agent :: "agent_control \<Rightarrow> agent_path \<Rightarrow> agent_snapshot option" where
  "snapshot_agent w path =
     map_option (\<lambda>e.
       \<lparr>snap_path = path, snap_session_id = session_id e, snap_parent = parent e,
        snap_children =
          map snd (sort_key fst
            (List.map_filter (\<lambda>(p, c). if parent c = Some path then Some (spawn_order c, p) else None)
               (agents w))),
        snap_spawn_order = spawn_order e, snap_status = status e,
        snap_last_activity = last_activity e, snap_is_active = (execution_marker e \<noteq> None),
        snap_mailbox_generation = mailbox_generation e,
        snap_pending_mail_count = length (mailbox e)\<rparr>)
     (hm_get (agents w) path)"

definition insert_child_locked ::
  "agent_control \<Rightarrow> agent_path \<Rightarrow> agent_path \<Rightarrow> session_id \<Rightarrow> ustr option \<Rightarrow> u64 option \<Rightarrow>
   (agent_control \<times> agent_snapshot option \<times> marker \<times> ctl_id, agent_control_error) result" where
  "insert_child_locked w parent0 child_path session initial_activity durable_spawn_order =
     and_then (choose_spawn_order w durable_spawn_order) (\<lambda>(w1, order).
       let (w2, mk) = alloc_marker w1;
           (w3, ctl) = alloc_control (root_scope_control w2) w2;
           w4 = w3\<lparr>agents := hm_insert child_path
                  (new_entry session (Some parent0) order PendingInit initial_activity (Some mk) ctl None)
                  (agents w3)\<rparr>
       in Ok (w4, snapshot_agent w4 child_path, mk, ctl))"

text \<open>
  The wake of an agent: the ready explicit trigger with the greatest generation, the later one
  of two with the same; an owner continuation only if no explicit trigger is queued at all.
\<close>

definition is_ready :: "agent_mailbox_notice \<Rightarrow> bool" where
  "is_ready n = (trigger_turn n \<and> schedule_ready n)"

fun newest_ready :: "agent_mailbox_notice list \<Rightarrow> agent_mailbox_notice option \<Rightarrow> agent_mailbox_notice option" where
  "newest_ready [] best = best"
| "newest_ready (n # ns) best =
     newest_ready ns
       (if \<not> is_ready n then best
        else case best of
               None \<Rightarrow> Some n
             | Some b \<Rightarrow> if notice_generation b \<le> notice_generation n then Some n else Some b)"

definition pending_execution_wake_cause :: "agent_entry \<Rightarrow> agent_execution_wake_cause option" where
  "pending_execution_wake_cause e =
     (case newest_ready (mailbox e) None of
        Some n \<Rightarrow> Some (ExplicitTask (notice_id n))
      | None \<Rightarrow>
          if list_ex trigger_turn (mailbox e) then None
          else map_option OwnerResume (pending_owner_resume e))"

definition agent_has_live_work :: "agent_entry \<Rightarrow> bool" where
  "agent_has_live_work e =
     (execution_marker e \<noteq> None \<or> status e = AwaitingDescendants \<or>
      pending_execution_wake_cause e \<noteq> None)"

text \<open>
  The deferred-owner release. The second component is the updated entry: the release is kept
  in a latch while the execution of the same turn still runs.
\<close>

definition project_deferred_owner_release ::
  "ctl_heap \<Rightarrow> agent_entry \<Rightarrow> turn_id option \<Rightarrow> bool \<times> agent_entry" where
  "project_deferred_owner_release h e released =
     (case released of
        None \<Rightarrow> (False, e)
      | Some t \<Rightarrow>
          if status e = Shutdown \<or> cause (h (entry_control e)) \<noteq> None then (False, e)
          else if execution_marker e \<noteq> None then
            (False, if active_durable_turn e = Some t
                    then e\<lparr>pending_deferred_release := Some t\<rparr> else e)
          else if status e \<noteq> AwaitingDescendants \<or> awaiting_deferred_turn e \<noteq> Some t
               then (False, e) else (True, e))"

definition project_owner_resume_request ::
  "agent_entry \<Rightarrow> owner_resume_request_id option \<Rightarrow> bool \<times> agent_entry" where
  "project_owner_resume_request e request =
     (case request of
        None \<Rightarrow> (False, e)
      | Some r \<Rightarrow>
          (case pending_owner_resume e of
             Some existing \<Rightarrow> (existing = r, e)
           | None \<Rightarrow> (True, e\<lparr>pending_owner_resume := Some r\<rparr>)))"

definition reconcile_current_owner_resume_request ::
  "agent_entry \<Rightarrow> owner_resume_request_id option \<Rightarrow> bool \<times> agent_entry" where
  "reconcile_current_owner_resume_request e request =
     (request \<noteq> None, e\<lparr>pending_owner_resume := request\<rparr>)"

definition promote_triggers :: "agent_entry \<Rightarrow> agent_entry" where
  "promote_triggers e =
     e\<lparr>mailbox := map (\<lambda>n. if trigger_turn n then n\<lparr>schedule_ready := True\<rparr> else n) (mailbox e)\<rparr>"

text \<open>Appending a notice with the next generation, as the three writers of a mailbox do.\<close>

definition push_notice :: "history_item_id \<Rightarrow> bool \<Rightarrow> bool \<Rightarrow> agent_entry \<Rightarrow> agent_entry" where
  "push_notice item trigger ready e =
     (let generation = mailbox_generation e + 1
      in e\<lparr>mailbox_generation := generation,
           mailbox := mailbox e @ [\<lparr>notice_id = item, trigger_turn = trigger,
                                    schedule_ready = ready, notice_generation = generation\<rparr>],
           mailbox_activity := generation\<rparr>)"

definition has_notice :: "history_item_id \<Rightarrow> agent_entry \<Rightarrow> bool" where
  "has_notice item e = list_ex (\<lambda>n. notice_id n = item) (mailbox e)"

text \<open>Removing notices; a change of the mailbox counts as activity.\<close>

definition retain_notices :: "(agent_mailbox_notice \<Rightarrow> bool) \<Rightarrow> agent_entry \<Rightarrow> agent_entry" where
  "retain_notices keep e =
     (let kept = filter keep (mailbox e)
      in if length kept \<noteq> length (mailbox e)
         then e\<lparr>mailbox := kept, mailbox_generation := mailbox_generation e + 1,
                mailbox_activity := mailbox_generation e + 1\<rparr>
         else e\<lparr>mailbox := kept\<rparr>)"

section \<open>Scheduling\<close>

definition is_candidate :: "agent_path \<Rightarrow> agent_entry \<Rightarrow> bool" where
  "is_candidate p e =
     (\<not> is_root p \<and> execution_marker e = None \<and> status e \<noteq> Shutdown \<and>
      pending_execution_wake_cause e \<noteq> None)"

definition candidates :: "agent_control \<Rightarrow> agent_path list" where
  "candidates w =
     map snd (sort_key fst
       (List.map_filter (\<lambda>(p, e). if is_candidate p e then Some (spawn_order e, p) else None)
          (agents w)))"

text \<open>One reserved execution.\<close>

definition reserve_one ::
  "agent_path \<Rightarrow> agent_execution_wake_cause \<Rightarrow> agent_control \<Rightarrow> agent_control \<times> agent_execution_lease" where
  "reserve_one path wake0 w =
     (let (w1, mk) = alloc_marker w; (w2, ctl) = alloc_control (root_scope_control w1) w1
      in (with_entry path (start_execution mk ctl) w2,
          \<lparr>lease_path = path, lease_marker = mk, lease_control = ctl, wake_cause = Some wake0\<rparr>))"

text \<open>\<open>None\<close> is the \<open>expect\<close> of the source that a candidate still has its wake.\<close>

fun reserve_loop ::
  "agent_path list \<Rightarrow> agent_control \<Rightarrow> agent_execution_lease list \<Rightarrow>
   (agent_control \<times> agent_execution_lease list) option"
where
  "reserve_loop [] w leases = Some (w, leases)"
| "reserve_loop (path # rest) w leases =
     (if descendant_capacity w \<le> active_agent_count w then Some (w, leases)
      else case Option.bind (hm_get (agents w) path) pending_execution_wake_cause of
             None \<Rightarrow> None
           | Some wake0 \<Rightarrow>
               (let (w', lease) = reserve_one path wake0 w in reserve_loop rest w' (leases @ [lease])))"

definition reserve_pending_triggered_executions_locked ::
  "agent_control \<Rightarrow> (agent_control \<times> agent_execution_lease list) option" where
  "reserve_pending_triggered_executions_locked w =
     (if tree_cancelled w then Some (w, []) else reserve_loop (candidates w) w [])"

end
