(* ===== verification/Agent_Ops.thy ===== *)
theory Agent_Ops
  imports Agent_State
begin

text \<open>
  The operations of \<open>AgentControl\<close> (\<open>src/src/runtime/agent_control.rs\<close>) that create, admit,
  complete and cancel executions. Each takes the tree and returns it with the result; the
  result \<open>None\<close> of an operation stands for an execution that never returns, because it
  panics or waits for a lock it already holds. Durable commits and reads are passed in as
  their results. A lease that an operation takes by value is dropped at its end, on the error
  paths too, which releases an execution it still owns.
\<close>

type_synonym 'a outcome = "agent_control \<times> ('a, agent_control_error) result"

section \<open>Leases\<close>

definition release_execution :: "agent_path \<Rightarrow> marker \<Rightarrow> agent_control \<Rightarrow> agent_control" where
  "release_execution path mk w =
     (case hm_get (agents w) path of
        None \<Rightarrow> w
      | Some e \<Rightarrow>
          if execution_marker e = Some mk then
            (let w1 = with_entry path (\<lambda>e. e\<lparr>execution_marker := None, status := Interrupted,
                        active_durable_turn := None, awaiting_deferred_turn := None,
                        pending_deferred_release := None\<rparr>) w;
                 w2 = (if is_root path then w1\<lparr>pending_root_durable_turn := None\<rparr> else w1)
             in notify_activity w2)
          else w)"

definition lease_drop :: "agent_execution_lease \<Rightarrow> agent_control \<Rightarrow> agent_control" where
  "lease_drop lease w = release_execution (lease_path lease) (lease_marker lease) w"

definition lease_scope :: "agent_control \<Rightarrow> agent_execution_lease \<Rightarrow> bool \<Rightarrow> agent_execution_scope" where
  "lease_scope w lease alive =
     \<lparr>scope_tree = tree_router w, scope_path = lease_path lease, scope_marker = lease_marker lease,
      scope_alive = alive\<rparr>"

definition try_bind_trigger_history_item_id ::
  "agent_execution_lease \<Rightarrow> history_item_id \<Rightarrow> (agent_execution_lease, agent_execution_lease) result" where
  "try_bind_trigger_history_item_id lease item =
     (if wake_cause lease \<noteq> None then Err lease
      else Ok (lease\<lparr>wake_cause := Some (ExplicitTask item)\<rparr>))"

definition trigger_history_item_id :: "agent_execution_lease \<Rightarrow> history_item_id option" where
  "trigger_history_item_id lease =
     (case wake_cause lease of Some (ExplicitTask i) \<Rightarrow> Some i | _ \<Rightarrow> None)"

definition mutate_execution ::
  "agent_control \<Rightarrow> agent_path \<Rightarrow> marker \<Rightarrow> (agent_entry \<Rightarrow> agent_entry) \<Rightarrow> unit outcome" where
  "mutate_execution w path mk f =
     (case hm_get (agents w) path of
        None \<Rightarrow> (w, Err (AgentNotFound path))
      | Some e \<Rightarrow>
          if execution_marker e \<noteq> Some mk then (w, Err (StaleExecution path))
          else (notify_activity (with_entry path f w), Ok ()))"

definition lease_set_status :: "agent_control \<Rightarrow> agent_execution_lease \<Rightarrow> active_agent_status \<Rightarrow> unit outcome" where
  "lease_set_status w lease st =
     mutate_execution w (lease_path lease) (lease_marker lease) (\<lambda>e. e\<lparr>status := of_active st\<rparr>)"

definition lease_set_activity :: "agent_control \<Rightarrow> agent_execution_lease \<Rightarrow> ustr option \<Rightarrow> unit outcome" where
  "lease_set_activity w lease act =
     mutate_execution w (lease_path lease) (lease_marker lease) (\<lambda>e. e\<lparr>last_activity := act\<rparr>)"

definition scope_mutate ::
  "agent_control \<Rightarrow> agent_execution_scope \<Rightarrow> (agent_entry \<Rightarrow> agent_entry) \<Rightarrow> unit outcome" where
  "scope_mutate w scope f =
     (if \<not> scope_alive scope then (w, Err (StaleExecution (scope_path scope)))
      else mutate_execution w (scope_path scope) (scope_marker scope) f)"

definition scope_set_status ::
  "agent_control \<Rightarrow> agent_execution_scope \<Rightarrow> active_agent_status \<Rightarrow> unit outcome" where
  "scope_set_status w scope st = scope_mutate w scope (\<lambda>e. e\<lparr>status := of_active st\<rparr>)"

definition scope_set_activity ::
  "agent_control \<Rightarrow> agent_execution_scope \<Rightarrow> ustr option \<Rightarrow> unit outcome" where
  "scope_set_activity w scope act = scope_mutate w scope (\<lambda>e. e\<lparr>last_activity := act\<rparr>)"

definition scope_set_status_and_activity ::
  "agent_control \<Rightarrow> agent_execution_scope \<Rightarrow> active_agent_status \<Rightarrow> ustr option \<Rightarrow> unit outcome" where
  "scope_set_status_and_activity w scope st act =
     scope_mutate w scope (\<lambda>e. e\<lparr>status := of_active st, last_activity := act\<rparr>)"

section \<open>Creating a tree and its agents\<close>

definition install_root_terminal_router ::
  "router_env \<Rightarrow> ctl_id \<Rightarrow> agent_control \<Rightarrow> (agent_control, agent_control_error) result" where
  "install_root_terminal_router env ctl w =
     (case install_terminal_router env (heap w ctl) (tree_router w) of
        Inl _ \<Rightarrow> Err RunControlOwnedByDifferentTree
      | Inr rc \<Rightarrow> Ok (w\<lparr>heap := (heap w)(ctl := rc)\<rparr>))"

text \<open>
  \<open>with_root_control\<close>: a new tree with the identity \<open>router\<close> over a heap of controls.
\<close>

definition with_root_control ::
  "router_env \<Rightarrow> router_id \<Rightarrow> ctl_heap \<Rightarrow> ctl_id \<Rightarrow> session_id \<Rightarrow> nat \<Rightarrow> ctl_id \<Rightarrow>
   (agent_control \<times> agent_execution_lease, agent_control_error) result" where
  "with_root_control env router h fresh root_session max_agents scope_ctl =
     (if max_agents < 1 \<or> MAX_RETAINED_AGENTS < max_agents then
        Err (InvalidCapacity max_agents MAX_RETAINED_AGENTS)
      else if is_cancelled (h scope_ctl) \<or> success_is_sealed (h scope_ctl) then Err TreeCancelled
      else
        let w0 = \<lparr>max_concurrent_agents = max_agents, next_spawn_order = 1,
                  pending_capacity_reservations = 0, root_scope_control = scope_ctl,
                  pending_root_durable_turn = None, agents = [], activity = 0,
                  tree_router = router, heap = h, next_ctl = fresh, next_marker = 0\<rparr>;
            (w1, turn_ctl) = alloc_control scope_ctl w0;
            w2 = w1\<lparr>agents := [(root_path, new_entry root_session None 0 PendingInit None None turn_ctl None)]\<rparr>
        in and_then (install_root_terminal_router env scope_ctl w2) (\<lambda>w3.
           and_then (install_root_terminal_router env turn_ctl w3) (\<lambda>w4.
             if is_cancelled (heap w4 scope_ctl) then Err TreeCancelled
             else
               let (w5, mk) = alloc_marker w4
               in Ok (with_entry root_path (\<lambda>e. e\<lparr>execution_marker := Some mk\<rparr>) w5,
                      \<lparr>lease_path = root_path, lease_marker = mk, lease_control = turn_ctl,
                       wake_cause = None\<rparr>))))"

definition child_lease :: "agent_path \<Rightarrow> marker \<Rightarrow> ctl_id \<Rightarrow> agent_execution_lease" where
  "child_lease path mk ctl =
     \<lparr>lease_path = path, lease_marker = mk, lease_control = ctl, wake_cause = None\<rparr>"

definition register_child_with_order ::
  "agent_control \<Rightarrow> agent_path \<Rightarrow> ustr \<Rightarrow> session_id \<Rightarrow> ustr option \<Rightarrow> u64 option \<Rightarrow>
   (agent_snapshot option \<times> agent_execution_lease) outcome" where
  "register_child_with_order w parent0 task_name session initial_activity durable_spawn_order =
     (case join_path parent0 task_name of
        Inl e \<Rightarrow> (w, Err (InvalidPath e))
      | Inr child_path \<Rightarrow>
          (case and_then (validate_child_registration_locked w parent0 child_path session)
                  (\<lambda>_. insert_child_locked w parent0 child_path session initial_activity
                         durable_spawn_order) of
             Inl e \<Rightarrow> (w, Err e)
           | Inr (w', snap, mk, ctl) \<Rightarrow>
               (notify_activity w', Ok (snap, child_lease child_path mk ctl))))"

definition register_child ::
  "agent_control \<Rightarrow> agent_path \<Rightarrow> ustr \<Rightarrow> session_id \<Rightarrow> ustr option \<Rightarrow>
   (agent_snapshot option \<times> agent_execution_lease) outcome" where
  "register_child w parent0 task_name session initial_activity =
     register_child_with_order w parent0 task_name session initial_activity None"

text \<open>\<open>commit_spawn\<close>; the durable commit gives a payload and the durable spawn order.\<close>

definition commit_spawn ::
  "agent_control \<Rightarrow> agent_execution_scope \<Rightarrow> agent_path \<Rightarrow> ustr \<Rightarrow> session_id \<Rightarrow> ustr option \<Rightarrow>
   ('t \<times> u64, ustr) result \<Rightarrow> ('t \<times> agent_snapshot option \<times> agent_execution_lease) outcome" where
  "commit_spawn w caller parent0 task_name session initial_activity durable_commit =
     (case join_path parent0 task_name of
        Inl e \<Rightarrow> (w, Err (InvalidPath e))
      | Inr child_path \<Rightarrow>
          (case and_then (validate_execution_scope_locked w caller parent0)
                  (\<lambda>_. validate_child_registration_locked w parent0 child_path session) of
             Inl e \<Rightarrow> (w, Err e)
           | Inr _ \<Rightarrow>
               (case durable_commit of
                  Inl e \<Rightarrow> (w, Err (DurableSpawnCommit e))
                | Inr (durable, order) \<Rightarrow>
                    (case insert_child_locked w parent0 child_path session initial_activity (Some order) of
                       Inl e \<Rightarrow> (w, Err e)
                     | Inr (w', snap, mk, ctl) \<Rightarrow>
                         (notify_activity w', Ok (durable, snap, child_lease child_path mk ctl))))))"

definition restore_inactive_child_with_order ::
  "agent_control \<Rightarrow> agent_path \<Rightarrow> ustr \<Rightarrow> session_id \<Rightarrow> inactive_agent_status \<Rightarrow> ustr option \<Rightarrow> u64 option \<Rightarrow>
   (agent_snapshot option) outcome" where
  "restore_inactive_child_with_order w parent0 task_name session st initial_activity durable_spawn_order =
     (case join_path parent0 task_name of
        Inl e \<Rightarrow> (w, Err (InvalidPath e))
      | Inr child_path \<Rightarrow>
          if \<not> hm_contains (agents w) parent0 then (w, Err (AgentNotFound parent0))
          else if hm_contains (agents w) child_path then (w, Err (AgentAlreadyExists child_path))
          else if session_registered w session then (w, Err (SessionAlreadyRegistered session))
          else if MAX_RETAINED_AGENTS \<le> length (agents w) then
            (w, Err (AgentRegistryFull MAX_RETAINED_AGENTS))
          else
            (case choose_spawn_order w durable_spawn_order of
               Inl e \<Rightarrow> (w, Err e)
             | Inr (w1, order) \<Rightarrow>
                 (let (w2, ctl) = alloc_control (root_scope_control w1) w1;
                      awaiting = (case st of InactiveAwaiting t \<Rightarrow> Some t | _ \<Rightarrow> None);
                      w3 = w2\<lparr>agents := hm_insert child_path
                             (new_entry session (Some parent0) order (of_inactive st) initial_activity
                                None ctl awaiting) (agents w2)\<rparr>
                  in (notify_activity w3, Ok (snapshot_agent w3 child_path)))))"

definition restore_inactive_child ::
  "agent_control \<Rightarrow> agent_path \<Rightarrow> ustr \<Rightarrow> session_id \<Rightarrow> inactive_agent_status \<Rightarrow> ustr option \<Rightarrow>
   (agent_snapshot option) outcome" where
  "restore_inactive_child w parent0 task_name session st initial_activity =
     restore_inactive_child_with_order w parent0 task_name session st initial_activity None"

section \<open>Acquiring executions\<close>

definition try_acquire_execution ::
  "agent_control \<Rightarrow> agent_path \<Rightarrow> agent_execution_lease outcome" where
  "try_acquire_execution w path =
     (if is_root path then (w, Err RootTurnRequiresScope)
      else
        let (w1, ctl) = alloc_control (root_scope_control w) w
        in if tree_cancelled w1 then (w1, Err TreeCancelled)
           else case hm_get (agents w1) path of
                  None \<Rightarrow> (w1, Err (AgentNotFound path))
                | Some e \<Rightarrow>
                    if execution_marker e \<noteq> None then (w1, Err (AgentAlreadyActive path))
                    else if status e = Shutdown then (w1, Err (AgentShutdown path))
                    else if descendant_capacity w1 \<le> active_agent_count w1 then
                      (w1, Err (AgentLimitReached (max_concurrent_agents w1)))
                    else
                      (let (w2, mk) = alloc_marker w1
                       in (notify_activity (with_entry path (start_execution mk ctl) w2),
                           Ok (child_lease path mk ctl))))"

text \<open>
  A new root task on a retained tree; \<open>None\<close> is the \<open>expect\<close> that the tree has its root.
\<close>

definition try_acquire_root_execution ::
  "router_env \<Rightarrow> agent_control \<Rightarrow> ctl_id \<Rightarrow> agent_execution_lease outcome option" where
  "try_acquire_root_execution env w scope_ctl =
     (if tree_cancelled w then Some (w, Err TreeCancelled)
      else case hm_get (agents w) root_path of
             None \<Rightarrow> None
           | Some root \<Rightarrow>
               if execution_marker root \<noteq> None then Some (w, Err (AgentAlreadyActive root_path))
               else if is_cancelled (heap w scope_ctl) \<or> success_is_sealed (heap w scope_ctl) \<or>
                       root_admission_stop_is_sealed (heap w scope_ctl)
               then Some (w, Err TreeCancelled)
               else
                 (let (w1, turn_ctl) = alloc_control scope_ctl w
                  in case install_root_terminal_router env scope_ctl w1 of
                       Inl e \<Rightarrow> Some (w1, Err e)
                     | Inr w2 \<Rightarrow>
                         (case install_root_terminal_router env turn_ctl w2 of
                            Inl e \<Rightarrow> Some (w2, Err e)
                          | Inr w3 \<Rightarrow>
                              if is_cancelled (heap w3 scope_ctl) then Some (w3, Err TreeCancelled)
                              else
                                (let (w4, mk) = alloc_marker w3;
                                     w5 = w4\<lparr>root_scope_control := scope_ctl,
                                             pending_root_durable_turn := None\<rparr>;
                                     w6 = with_entry root_path (start_execution mk turn_ctl) w5
                                 in Some (notify_activity w6, Ok (child_lease root_path mk turn_ctl))))))"

text \<open>
  The continuation of the task of the current scope. The new control first gets the router
  and then inherits the authority.
\<close>

definition try_acquire_root_continuation ::
  "router_env \<Rightarrow> agent_control \<Rightarrow> ctl_id \<Rightarrow> agent_root_continuation_outcome outcome" where
  "try_acquire_root_continuation env w scope_ctl =
     (if \<not> same_owner (root_scope_control w) scope_ctl then (w, Ok ContinuationInvalid)
      else if tree_cancelled w \<or> root_admission_stop_is_sealed (heap w (root_scope_control w)) then
        (w, Ok ContinuationBlocked)
      else case hm_get (agents w) root_path of
             None \<Rightarrow> (w, Err (AgentNotFound root_path))
           | Some root \<Rightarrow>
               if \<not> success_is_sealed (heap w (entry_control root)) \<or>
                  (case status root of Completed _ \<Rightarrow> False | _ \<Rightarrow> True)
               then (w, Ok ContinuationInvalid)
               else
                 (let (w1, ctl) = alloc_control (root_scope_control w) w
                  in case install_root_terminal_router env ctl w1 of
                       Inl e \<Rightarrow> (w1, Err e)
                     | Inr w2 \<Rightarrow>
                         (let (w3, mk) = alloc_marker w2;
                              w4 = with_entry root_path (start_execution mk ctl) w3
                          in (notify_activity w4,
                              Ok (ContinuationAdmitted (child_lease root_path mk ctl))))))"

section \<open>Admission\<close>

text \<open>Scheduling at the end of an operation, with the activity notification.\<close>

definition schedule_and_notify ::
  "bool \<Rightarrow> agent_control \<Rightarrow> (agent_execution_lease list) outcome option" where
  "schedule_and_notify wanted w =
     (if wanted then
        map_option (\<lambda>(w', leases). (notify_activity w', Ok leases))
          (reserve_pending_triggered_executions_locked w)
      else Some (notify_activity w, Ok []))"

definition admit :: "turn_id \<Rightarrow> agent_entry \<Rightarrow> agent_entry" where
  "admit turn e =
     e\<lparr>status := Running, active_durable_turn := Some turn, awaiting_deferred_turn := None,
       pending_deferred_release := None\<rparr>"

definition mark_execution_admitted ::
  "agent_control \<Rightarrow> agent_execution_scope \<Rightarrow> turn_id \<Rightarrow> ustr option \<Rightarrow>
   (owner_resume_request_id option, ustr) result \<Rightarrow> (agent_execution_lease list) outcome option" where
  "mark_execution_admitted w scope turn act durable_read =
     (case durable_read of
        Inl e \<Rightarrow> Some (w, Err (DurableOwnerResumeRead e))
      | Inr current_request \<Rightarrow>
          if \<not> scope_alive scope then Some (w, Err (StaleExecution (scope_path scope)))
          else (case validate_execution_scope_locked w scope (scope_path scope) of
                  Inl e \<Rightarrow> Some (w, Err e)
                | Inr _ \<Rightarrow>
                    (let w1 = with_entry (scope_path scope)
                                (\<lambda>e. (admit turn e)\<lparr>pending_owner_resume := current_request,
                                                     last_activity := act\<rparr>) w
                     in schedule_and_notify (\<not> tree_cancelled w1) w1)))"

definition publish_root_execution_plan ::
  "agent_control \<Rightarrow> agent_execution_scope \<Rightarrow> turn_id \<Rightarrow> u64 \<Rightarrow> unit outcome" where
  "publish_root_execution_plan w scope turn admission_revision =
     (if \<not> is_root (scope_path scope) then (w, Err RootTurnRequiresScope)
      else if tree_cancelled w then (w, Err TreeCancelled)
      else case validate_execution_scope_locked w scope (scope_path scope) of
             Inl e \<Rightarrow> (w, Err e)
           | Inr _ \<Rightarrow>
               (case pending_root_durable_turn w of
                  None \<Rightarrow> (w\<lparr>pending_root_durable_turn := Some (turn, admission_revision)\<rparr>, Ok ())
                | Some pending0 \<Rightarrow>
                    if pending0 = (turn, admission_revision) then (w, Ok ())
                    else (w, Err (StaleExecution (scope_path scope)))))"

definition mark_root_execution_admitted ::
  "agent_control \<Rightarrow> agent_execution_scope \<Rightarrow> turn_id \<Rightarrow> u64 \<Rightarrow>
   (agent_execution_lease list) outcome option" where
  "mark_root_execution_admitted w scope turn admission_revision =
     (if \<not> is_root (scope_path scope) then Some (w, Err RootTurnRequiresScope)
      else if \<not> scope_alive scope then Some (w, Err (StaleExecution (scope_path scope)))
      else if tree_cancelled w then Some (w, Err TreeCancelled)
      else case validate_execution_scope_locked w scope (scope_path scope) of
             Inl e \<Rightarrow> Some (w, Err e)
           | Inr _ \<Rightarrow>
               if pending_root_durable_turn w \<noteq> Some (turn, admission_revision)
               then Some (w, Err (StaleExecution (scope_path scope)))
               else
                 (let w1 = with_entry (scope_path scope) (admit turn)
                             (w\<lparr>pending_root_durable_turn := None\<rparr>)
                  in schedule_and_notify (\<not> tree_cancelled w1) w1))"

definition active_or_awaiting_root_turn_id ::
  "agent_control \<Rightarrow> (turn_id option, agent_control_error) result" where
  "active_or_awaiting_root_turn_id w =
     (case hm_get (agents w) root_path of
        None \<Rightarrow> Err (AgentNotFound root_path)
      | Some root \<Rightarrow>
          Ok (case active_durable_turn root of Some t \<Rightarrow> Some t | None \<Rightarrow> awaiting_deferred_turn root))"

section \<open>Completion\<close>

definition promotes_on_completion :: "inactive_agent_status \<Rightarrow> agent_entry \<Rightarrow> bool" where
  "promotes_on_completion st e =
     (case st of
        InactiveInterrupted \<Rightarrow> True
      | InactiveCompleted _ \<Rightarrow> True
      | InactiveErrored _ \<Rightarrow> True
      | InactiveAwaiting t \<Rightarrow> pending_deferred_release e = Some t
      | _ \<Rightarrow> False)"

definition completed_entry ::
  "inactive_agent_status \<Rightarrow> ustr option \<Rightarrow> agent_entry \<Rightarrow> agent_entry" where
  "completed_entry st act e =
     (let e1 = e\<lparr>active_durable_turn := None,
                 awaiting_deferred_turn := (case st of InactiveAwaiting t \<Rightarrow> Some t | _ \<Rightarrow> None),
                 pending_deferred_release := None\<rparr>;
          e2 = (if promotes_on_completion st e then promote_triggers e1 else e1)
      in e2\<lparr>status := of_inactive st, last_activity := act, execution_marker := None\<rparr>)"

definition complete_execution ::
  "agent_control \<Rightarrow> agent_execution_lease \<Rightarrow> inactive_agent_status \<Rightarrow> ustr option \<Rightarrow>
   (agent_execution_lease list) outcome option" where
  "complete_execution w lease st act =
     map_option (\<lambda>(w', r). (lease_drop lease w', r))
       (let path = lease_path lease
        in case hm_get (agents w) path of
             None \<Rightarrow> Some (w, Err (AgentNotFound path))
           | Some e \<Rightarrow>
               if execution_marker e \<noteq> Some (lease_marker lease) then
                 Some (w, Err (StaleExecution path))
               else if (case st of InactiveAwaiting t \<Rightarrow> active_durable_turn e \<noteq> Some t | _ \<Rightarrow> False)
               then Some (w, Err (StaleExecution path))
               else
                 (let w1 = with_entry path (completed_entry st act) w;
                      w2 = (if is_root path then w1\<lparr>pending_root_durable_turn := None\<rparr> else w1)
                  in schedule_and_notify (\<not> tree_cancelled w2) w2))"

text \<open>
  \<open>RunControl::supersede\<close> while the registry lock is held: a control routed to this very tree
  would wait for the lock its caller holds.
\<close>

definition supersede_locked :: "router_env \<Rightarrow> ctl_id \<Rightarrow> agent_control \<Rightarrow> agent_control option" where
  "supersede_locked env ctl w =
     (if terminal_router (heap w ctl) = Some (tree_router w) then None
      else Some (w\<lparr>heap := fst (supersede env (heap w) ctl)\<rparr>))"

definition drop_wake :: "agent_execution_wake_cause \<Rightarrow> agent_entry \<Rightarrow> agent_entry" where
  "drop_wake wake0 e =
     (case wake0 of
        ExplicitTask item \<Rightarrow> retain_notices (\<lambda>n. \<not> (trigger_turn n \<and> notice_id n = item)) e
      | OwnerResume request \<Rightarrow>
          if pending_owner_resume e = Some request then e\<lparr>pending_owner_resume := None\<rparr> else e)"

definition retire_resolved_wake_execution ::
  "router_env \<Rightarrow> agent_control \<Rightarrow> agent_execution_lease \<Rightarrow> ustr option \<Rightarrow>
   (agent_execution_lease list) outcome option" where
  "retire_resolved_wake_execution env w lease act =
     map_option (\<lambda>(w', r). (lease_drop lease w', r))
       (let path = lease_path lease
        in if is_root path then Some (w, Err (AgentNotFound path))
           else case wake_cause lease of
                  None \<Rightarrow> Some (w, Err (StaleExecution path))
                | Some expected_wake \<Rightarrow>
                    (case hm_get (agents w) path of
                       None \<Rightarrow> Some (w, Err (AgentNotFound path))
                     | Some e \<Rightarrow>
                         if execution_marker e \<noteq> Some (lease_marker lease) then
                           Some (w, Err (StaleExecution path))
                         else
                           (case supersede_locked env (entry_control e) w of
                              None \<Rightarrow> None
                            | Some w1 \<Rightarrow>
                                (let w2 = with_entry path (\<lambda>e. (drop_wake expected_wake e)
                                            \<lparr>status := Completed None, last_activity := act,
                                             execution_marker := None, active_durable_turn := None,
                                             awaiting_deferred_turn := None,
                                             pending_deferred_release := None\<rparr>) w1
                                 in schedule_and_notify (\<not> tree_cancelled w2) w2))))"

definition release_unsettled_trigger_execution ::
  "router_env \<Rightarrow> agent_control \<Rightarrow> agent_execution_lease \<Rightarrow> ustr option \<Rightarrow> unit outcome option" where
  "release_unsettled_trigger_execution env w lease act =
     map_option (\<lambda>(w', r). (lease_drop lease w', r))
       (let path = lease_path lease
        in if is_root path then Some (w, Err (AgentNotFound path))
           else case hm_get (agents w) path of
                  None \<Rightarrow> Some (w, Err (AgentNotFound path))
                | Some e \<Rightarrow>
                    if execution_marker e \<noteq> Some (lease_marker lease) then
                      Some (w, Err (StaleExecution path))
                    else
                      map_option (\<lambda>w1. (notify_activity (with_entry path (\<lambda>e. e
                          \<lparr>status := PendingInit, last_activity := act, execution_marker := None,
                           active_durable_turn := None, awaiting_deferred_turn := None,
                           pending_deferred_release := None\<rparr>) w1), Ok ()))
                        (supersede_locked env (entry_control e) w))"

definition rollback_child_registration ::
  "router_env \<Rightarrow> agent_control \<Rightarrow> agent_execution_lease \<Rightarrow> session_id \<Rightarrow> unit outcome option" where
  "rollback_child_registration env w lease session =
     (let path = lease_path lease
      in if is_root path then Some (w, Err RootAgentCannotBeRemoved)
         else case hm_get (agents w) path of
                None \<Rightarrow> Some (w, Err (AgentNotFound path))
              | Some e \<Rightarrow>
                  if session_id e \<noteq> session \<or> execution_marker e \<noteq> Some (lease_marker lease) \<or>
                     status e \<noteq> PendingInit \<or> mailbox e \<noteq> [] \<or> pending_owner_resume e \<noteq> None
                  then Some (w, Err (AgentRollbackRejected path))
                  else
                    map_option (\<lambda>w'. (notify_activity w', Ok ()))
                      (supersede_locked env (entry_control e)
                         (w\<lparr>agents := hm_remove path (agents w)\<rparr>)))"

section \<open>Cancellation\<close>

definition cancel_root_execution_at_scope_control ::
  "agent_control \<Rightarrow> ctl_id \<Rightarrow> turn_interruption_cause \<Rightarrow> bool \<Rightarrow>
   (root_execution_stop_disposition option) outcome" where
  "cancel_root_execution_at_scope_control w expected_scope root_cause terminal_already_settled =
     (if \<not> same_owner (root_scope_control w) expected_scope then (w, Ok None)
      else case hm_get (agents w) root_path of
             None \<Rightarrow> (w, Err (AgentNotFound root_path))
           | Some root \<Rightarrow>
               if terminal_already_settled then
                 (notify_activity w, Ok (Some TerminalAlreadySettled))
               else
                 (let ctl = entry_control root;
                      (rc, outcome) = request_cancel_local (heap w ctl) (Interruption root_cause);
                      w1 = w\<lparr>heap := (heap w)(ctl := rc)\<rparr>
                  in case outcome of
                       Applied \<Rightarrow> (notify_activity w1, Ok (Some StopApplied))
                     | Deferred _ \<Rightarrow> (notify_activity w1, Ok (Some StopDeferred))
                     | Rejected \<Rightarrow>
                         if cause (heap w1 ctl) = Some (Interruption root_cause)
                         then (notify_activity w1, Ok (Some AlreadyUserStopped))
                         else (w1, Ok (Some AlreadyClassified))))"

definition capture_interrupt_target ::
  "agent_control \<Rightarrow> agent_execution_scope \<Rightarrow> agent_path \<Rightarrow>
   (agent_interrupt_target, agent_control_error) result" where
  "capture_interrupt_target w caller path =
     and_then (validate_execution_scope_locked w caller (scope_path caller)) (\<lambda>_.
       case hm_get (agents w) path of
         None \<Rightarrow> Err (AgentNotFound path)
       | Some e \<Rightarrow>
           Ok \<lparr>target_path = path, target_session = session_id e, target_status = status e,
               target_marker = execution_marker e, target_control = entry_control e\<rparr>)"

definition commit_and_interrupt_captured ::
  "agent_control \<Rightarrow> agent_execution_scope \<Rightarrow> agent_interrupt_target \<Rightarrow> (unit, ustr) result \<Rightarrow>
   unit outcome" where
  "commit_and_interrupt_captured w caller target durable_commit =
     (case validate_execution_scope_locked w caller (scope_path caller) of
        Inl e \<Rightarrow> (w, Err e)
      | Inr _ \<Rightarrow>
          (case hm_get (agents w) (target_path target) of
             None \<Rightarrow> (w, Err (AgentNotFound (target_path target)))
           | Some e \<Rightarrow>
               if session_id e \<noteq> target_session target \<or> execution_marker e \<noteq> target_marker target
               then (w, Err (StaleExecution (target_path target)))
               else if target_marker target \<noteq> None then
                 (let ctl = target_control target
                  in case commit_cancel_local (heap w ctl) (Interruption AgentInterrupted)
                            (case durable_commit of Inl m \<Rightarrow> Err (DurableInterruptCommit m)
                             | Inr _ \<Rightarrow> Ok ()) of
                       (rc, Inl e) \<Rightarrow> (w\<lparr>heap := (heap w)(ctl := rc)\<rparr>, Err e)
                     | (rc, Inr outcome) \<Rightarrow>
                         (let w1 = w\<lparr>heap := (heap w)(ctl := rc)\<rparr>
                          in if outcome \<noteq> Applied then (w1, Err (StaleExecution (target_path target)))
                             else (notify_activity (with_entry (target_path target)
                                     clear_cancelled_active_generation_state w1), Ok ())))
               else
                 (case durable_commit of
                    Inl m \<Rightarrow> (w, Err (DurableInterruptCommit m))
                  | Inr _ \<Rightarrow> (w, Ok ()))))"

text \<open>
  \<open>cancel_for_durable_terminal\<close> in its two locked phases; what the first hands to the second.
\<close>

record terminal_purge =
  purge_session :: session_id
  purge_epoch :: u64
  purge_through_generation :: u64
  purge_owner_resume :: "owner_resume_request_id option"

definition terminal_cancel_begin :: "agent_control \<Rightarrow> agent_path \<Rightarrow> terminal_purge outcome" where
  "terminal_cancel_begin w path =
     (case hm_get (agents w) path of
        None \<Rightarrow> (w, Err (AgentNotFound path))
      | Some e \<Rightarrow>
          (let ctl = entry_control e;
               (rc, _) = request_cancel_local (heap w ctl) Superseded;
               e1 = clear_cancelled_active_generation_state e;
               e2 = (if trigger_purge_pending e1 = 0
                     then e1\<lparr>trigger_admission_epoch := trigger_admission_epoch e1 + 1\<rparr> else e1);
               e3 = e2\<lparr>trigger_purge_pending := saturating_succ (trigger_purge_pending e2)\<rparr>;
               w1 = with_entry path (\<lambda>_. e3) (w\<lparr>heap := (heap w)(ctl := rc)\<rparr>)
           in (notify_activity w1,
               Ok \<lparr>purge_session = session_id e3, purge_epoch = trigger_admission_epoch e3,
                   purge_through_generation = mailbox_generation e3,
                   purge_owner_resume = pending_owner_resume e3\<rparr>)))"

definition terminal_cancel_purge :: "agent_control \<Rightarrow> agent_path \<Rightarrow> terminal_purge \<Rightarrow> unit outcome" where
  "terminal_cancel_purge w path purge =
     (case hm_get (agents w) path of
        None \<Rightarrow> (w, Ok ())
      | Some e \<Rightarrow>
          if session_id e \<noteq> purge_session purge \<or> trigger_admission_epoch e \<noteq> purge_epoch purge
          then (w, Ok ())
          else
            (notify_activity (with_entry path (\<lambda>e.
               retain_notices (\<lambda>n. \<not> trigger_turn n \<or>
                                    purge_through_generation purge < notice_generation n)
                 (e\<lparr>pending_owner_resume := (if pending_owner_resume e = purge_owner_resume purge then None
                                             else pending_owner_resume e),
                    trigger_purge_pending := saturating_pred (trigger_purge_pending e)\<rparr>)) w),
             Ok ()))"

section \<open>Terminal routing\<close>

text \<open>
  The tree's router: an ordinary request that enters through the task scope or the current
  root turn is classified on the current root turn alone.
\<close>

definition route_terminal_outcome :: "agent_control \<Rightarrow> run_terminal_route" where
  "route_terminal_outcome w h source kind x =
     (case hm_get (agents w) root_path of
        None \<Rightarrow> None
      | Some root \<Rightarrow>
          (let source_is_scope = same_owner (root_scope_control w) source;
               root_ctl = entry_control root;
               source_is_root_turn = same_owner root_ctl source
           in if \<not> source_is_scope \<and> \<not> source_is_root_turn then None
              else if source_is_scope \<and> kind \<noteq> Request then None
              else Some (case kind of
                Request \<Rightarrow>
                  (let (rc, outcome) = request_cancel_local (h root_ctl) x
                   in (h(root_ctl := rc), outcome))
              | ResolveSuccessCommitAuthoritatively \<Rightarrow>
                  (let (rc, ok) = resolve_success_commit_authoritatively_local (h root_ctl) x
                   in (h(root_ctl := rc), if ok then Applied else Rejected))
              | AbandonSuccessCommit \<Rightarrow>
                  (let (rc, r) = abandon_success_commit_local (h root_ctl) x
                   in (h(root_ctl := rc), if r \<noteq> None then Applied else Rejected))
              | ReleaseSuccessCommit \<Rightarrow> (h, Applied))))"

section \<open>Queries\<close>

definition get_status :: "agent_control \<Rightarrow> agent_path \<Rightarrow> (agent_status, agent_control_error) result" where
  "get_status w path =
     (case hm_get (agents w) path of None \<Rightarrow> Err (AgentNotFound path) | Some e \<Rightarrow> Ok (status e))"

definition path_for_session :: "agent_control \<Rightarrow> session_id \<Rightarrow> agent_path option" where
  "path_for_session w s = map_option fst (List.find (\<lambda>(_, e). session_id e = s) (agents w))"

definition list_agents :: "agent_control \<Rightarrow> agent_path option \<Rightarrow> agent_snapshot list" where
  "list_agents w prefix0 =
     sort_key snap_spawn_order
       (List.map_filter (snapshot_agent w)
          (filter (\<lambda>p. case prefix0 of None \<Rightarrow> True | Some q \<Rightarrow> is_at_or_below p q)
             (hm_keys (agents w))))"

definition tree_snapshot :: "agent_control \<Rightarrow> agent_tree_snapshot" where
  "tree_snapshot w =
     (let snaps = list_agents w None
      in \<lparr>snapshot_root = root_path, snapshot_max_concurrent_agents = max_concurrent_agents w,
          snapshot_active_agent_count =
            length (filter (\<lambda>s. \<not> is_root (snap_path s) \<and> snap_is_active s) snaps),
          snapshot_agents = snaps\<rparr>)"

definition is_quiescent :: "agent_control \<Rightarrow> bool" where
  "is_quiescent w =
     (list_all (\<lambda>(_, e). execution_marker e = None) (agents w) \<and>
      (tree_cancelled w \<or> list_all (\<lambda>(_, e). \<not> agent_has_live_work e) (agents w)))"

definition cancelled_execution_paths :: "agent_control \<Rightarrow> agent_path list" where
  "cancelled_execution_paths w =
     map fst (filter (\<lambda>(_, e). execution_marker e \<noteq> None \<and>
                               is_cancelled (heap w (entry_control e))) (agents w))"

end
