(* ===== verification/Agent_Mail.thy ===== *)
theory Agent_Mail
  imports Agent_Ops
begin

text \<open>
  The mailbox side of \<open>AgentControl\<close> (\<open>src/src/runtime/agent_control.rs\<close>): durable delivery of
  messages and triggers, the handoff of child results to waiting owners, and the recovery of
  pending work. A notice carries only the identity of a canonical history item.
\<close>

section \<open>Recovery of pending work\<close>

definition restore_pending_mail ::
  "agent_control \<Rightarrow> agent_path \<Rightarrow> history_item_id \<Rightarrow> bool \<Rightarrow> unit outcome" where
  "restore_pending_mail w recipient item ready =
     (case hm_get (agents w) recipient of
        None \<Rightarrow> (w, Err (AgentNotFound recipient))
      | Some e \<Rightarrow>
          if has_notice item e then (w, Ok ())
          else if MAX_AGENT_MAILBOX_NOTICES \<le> length (mailbox e) then
            (w, Err (MailboxFull recipient MAX_AGENT_MAILBOX_NOTICES))
          else (notify_activity (with_entry recipient (push_notice item True ready) w), Ok ()))"

definition restore_pending_owner_resume ::
  "agent_control \<Rightarrow> agent_path \<Rightarrow> owner_resume_request_id \<Rightarrow> unit outcome" where
  "restore_pending_owner_resume w owner request =
     (case hm_get (agents w) owner of
        None \<Rightarrow> (w, Err (AgentNotFound owner))
      | Some e \<Rightarrow>
          (case pending_owner_resume e of
             Some existing \<Rightarrow>
               if existing \<noteq> request then (w, Err (StaleExecution owner)) else (w, Ok ())
           | None \<Rightarrow>
               (notify_activity (with_entry owner (\<lambda>e. e\<lparr>pending_owner_resume := Some request\<rparr>) w),
                Ok ())))"

definition restore_current_owner_resume ::
  "agent_control \<Rightarrow> agent_path \<Rightarrow> (owner_resume_request_id option, ustr) result \<Rightarrow>
   (agent_execution_lease list) outcome option" where
  "restore_current_owner_resume w owner durable_read =
     (case durable_read of
        Inl m \<Rightarrow> Some (w, Err (DurableOwnerResumeRead m))
      | Inr request \<Rightarrow>
          (case hm_get (agents w) owner of
             None \<Rightarrow> Some (w, Err (AgentNotFound owner))
           | Some e \<Rightarrow>
               (let (schedulable, e1) = reconcile_current_owner_resume_request e request;
                    w1 = with_entry owner (\<lambda>_. e1) w
                in schedule_and_notify (schedulable \<and> \<not> tree_cancelled w1) w1)))"

definition restore_released_owner_wake ::
  "agent_control \<Rightarrow> agent_path \<Rightarrow> turn_id option \<Rightarrow> (owner_resume_request_id option, ustr) result \<Rightarrow>
   (agent_execution_lease list) outcome option" where
  "restore_released_owner_wake w owner released durable_read =
     (case durable_read of
        Inl m \<Rightarrow> Some (w, Err (DurableOwnerResumeRead m))
      | Inr request \<Rightarrow>
          (case hm_get (agents w) owner of
             None \<Rightarrow> Some (w, Err (AgentNotFound owner))
           | Some e \<Rightarrow>
               (let (promotes, e1) = project_deferred_owner_release (heap w) e released;
                    (schedulable, e2) = reconcile_current_owner_resume_request e1 request;
                    e3 = (if promotes then promote_triggers e2 else e2);
                    w1 = with_entry owner (\<lambda>_. e3) w
                in schedule_and_notify ((promotes \<or> schedulable) \<and> \<not> tree_cancelled w1) w1)))"

section \<open>Durable delivery\<close>

text \<open>
  \<open>commit_and_enqueue_mail_internal\<close> holds the delivery lock throughout but the registry lock
  only before and after the durable commit: two phases, and the release of a capacity
  reservation when the commit failed. The \<open>debug_assert\<close> that a ready task was granted capacity
  is not part of a release build and has no counterpart here.
\<close>

record mail_ticket =
  ticket_session :: session_id
  capacity_granted :: bool
  capacity_reserved :: bool
  committed_generation :: u64

definition mail_begin ::
  "agent_control \<Rightarrow> agent_path \<Rightarrow> agent_path \<Rightarrow> bool \<Rightarrow> bool \<Rightarrow> agent_execution_scope option \<Rightarrow>
   mail_ticket outcome" where
  "mail_begin w author recipient trigger completion_handoff author_execution =
     (case (case author_execution of
              None \<Rightarrow> Ok () | Some scope \<Rightarrow> validate_execution_scope_locked w scope author) of
        Inl e \<Rightarrow> (w, Err e)
      | Inr _ \<Rightarrow>
          if trigger \<and> tree_cancelled w then (w, Err TreeCancelled)
          else if \<not> hm_contains (agents w) author then (w, Err (AgentNotFound author))
          else (case hm_get (agents w) recipient of
                 None \<Rightarrow> (w, Err (AgentNotFound recipient))
               | Some e \<Rightarrow>
                   if trigger \<and> trigger_purge_pending e \<noteq> 0 then (w, Err (MailboxClosed recipient))
                   else if trigger \<and> status e = Shutdown then (w, Err (AgentShutdown recipient))
                   else if \<not> completion_handoff \<and> MAX_AGENT_MAILBOX_NOTICES \<le> length (mailbox e)
                   then (w, Err (MailboxFull recipient MAX_AGENT_MAILBOX_NOTICES))
                   else
                     (let requires_new_slot = (trigger \<and> execution_marker e = None);
                          granted = (\<not> requires_new_slot \<or> active_agent_count w < descendant_capacity w);
                          reserved = (requires_new_slot \<and> granted)
                      in (if reserved
                          then w\<lparr>pending_capacity_reservations := pending_capacity_reservations w + 1\<rparr>
                          else w,
                          Ok \<lparr>ticket_session = session_id e, capacity_granted = granted,
                              capacity_reserved = reserved,
                              committed_generation = mailbox_generation e + 1\<rparr>))))"

definition release_reservation :: "mail_ticket \<Rightarrow> agent_control \<Rightarrow> agent_control" where
  "release_reservation ticket w =
     (if capacity_reserved ticket
      then w\<lparr>pending_capacity_reservations := pending_capacity_reservations w - 1\<rparr> else w)"

text \<open>The recipient after a committed message; the flag asks for scheduling.\<close>

definition deliver ::
  "ctl_heap \<Rightarrow> bool \<Rightarrow> turn_id option \<Rightarrow> bool \<Rightarrow> agent_mail_commit \<Rightarrow> agent_entry \<Rightarrow> bool \<times> agent_entry" where
  "deliver h trigger released completion_handoff commit0 e =
     (let (promote, e1) = (if completion_handoff then project_deferred_owner_release h e released
                           else (False, e));
          item = commit_history_item_id commit0;
          e2 = (if \<not> has_notice item e1 \<and> length (mailbox e1) < MAX_AGENT_MAILBOX_NOTICES
                then push_notice item trigger (schedule_turn commit0) e1 else e1);
          e3 = (if promote then promote_triggers e2 else e2);
          (resume, e4) = (if completion_handoff
                          then reconcile_current_owner_resume_request e3 (commit_owner_resume commit0)
                          else project_owner_resume_request e3 (commit_owner_resume commit0))
      in (schedule_turn commit0 \<or> resume \<or> promote, e4))"

definition mail_commit ::
  "agent_control \<Rightarrow> agent_path \<Rightarrow> bool \<Rightarrow> turn_id option \<Rightarrow> bool \<Rightarrow> mail_ticket \<Rightarrow> agent_mail_commit \<Rightarrow>
   (u64 \<times> agent_execution_lease list) outcome option" where
  "mail_commit w recipient trigger released completion_handoff ticket commit0 =
     (let w1 = release_reservation ticket w
      in case hm_get (agents w1) recipient of
           None \<Rightarrow> Some (notify_activity w1, Ok (committed_generation ticket, []))
         | Some e \<Rightarrow>
             if session_id e \<noteq> ticket_session ticket
             then Some (notify_activity w1, Ok (committed_generation ticket, []))
             else
               (let (wanted, e') = deliver (heap w1) trigger released completion_handoff commit0 e;
                    w2 = with_entry recipient (\<lambda>_. e') w1
                in map_option (\<lambda>(w3, r). (w3, and_then r (\<lambda>leases. Ok (mailbox_generation e', leases))))
                     (schedule_and_notify (wanted \<and> \<not> tree_cancelled w2) w2)))"

definition commit_and_enqueue_mail_internal ::
  "agent_control \<Rightarrow> agent_path \<Rightarrow> agent_path \<Rightarrow> bool \<Rightarrow> turn_id option \<Rightarrow> bool \<Rightarrow>
   agent_execution_scope option \<Rightarrow> (bool \<Rightarrow> (agent_mail_commit, agent_control_error) result) \<Rightarrow>
   (u64 \<times> agent_execution_lease list) outcome option" where
  "commit_and_enqueue_mail_internal w author recipient trigger released completion_handoff
       author_execution durable_commit =
     (case mail_begin w author recipient trigger completion_handoff author_execution of
        (w1, Inl e) \<Rightarrow> Some (w1, Err e)
      | (w1, Inr ticket) \<Rightarrow>
          (case durable_commit (capacity_granted ticket) of
             Inl e \<Rightarrow> Some (release_reservation ticket w1, Err e)
           | Inr commit0 \<Rightarrow>
               mail_commit w1 recipient trigger released completion_handoff ticket commit0))"

definition durable_mail ::
  "(agent_mail_commit, ustr) result \<Rightarrow> bool \<Rightarrow> (agent_mail_commit, agent_control_error) result" where
  "durable_mail r granted = (case r of Inl m \<Rightarrow> Err (DurableMailboxCommit m) | Inr c \<Rightarrow> Ok c)"

definition commit_and_enqueue_mail ::
  "agent_control \<Rightarrow> agent_path \<Rightarrow> agent_path \<Rightarrow> bool \<Rightarrow> (agent_mail_commit, ustr) result \<Rightarrow>
   (u64 \<times> agent_execution_lease list) outcome option" where
  "commit_and_enqueue_mail w author recipient trigger durable_commit =
     commit_and_enqueue_mail_internal w author recipient trigger None False None
       (durable_mail durable_commit)"

definition commit_and_enqueue_mail_with_capacity ::
  "agent_control \<Rightarrow> agent_execution_scope \<Rightarrow> agent_path \<Rightarrow> agent_path \<Rightarrow> bool \<Rightarrow>
   (bool \<Rightarrow> (agent_mail_commit, agent_control_error) result) \<Rightarrow>
   (u64 \<times> agent_execution_lease list) outcome option" where
  "commit_and_enqueue_mail_with_capacity w author_execution author recipient trigger durable_commit =
     commit_and_enqueue_mail_internal w author recipient trigger None False (Some author_execution)
       durable_commit"

definition commit_and_enqueue_completion_handoff ::
  "agent_control \<Rightarrow> agent_path \<Rightarrow> agent_path \<Rightarrow> turn_id option \<Rightarrow> (agent_mail_commit, ustr) result \<Rightarrow>
   (u64 \<times> agent_execution_lease list) outcome option" where
  "commit_and_enqueue_completion_handoff w author recipient released durable_commit =
     commit_and_enqueue_mail_internal w author recipient False released True None
       (durable_mail durable_commit)"

section \<open>Reading the mailbox\<close>

definition commit_pending_mailbox_delivery ::
  "agent_control \<Rightarrow> agent_execution_scope \<Rightarrow> (agent_mailbox_delivery_commit, ustr) result \<Rightarrow>
   agent_mailbox_delivery_commit outcome" where
  "commit_pending_mailbox_delivery w execution durable_commit =
     (case validate_execution_scope_locked w execution (scope_path execution) of
        Inl e \<Rightarrow> (w, Err e)
      | Inr _ \<Rightarrow>
          (case durable_commit of
             Inl m \<Rightarrow> (w, Err (DurableMailboxCommit m))
           | Inr commit0 \<Rightarrow>
               if \<not> distinct (delivered_ids commit0) then
                 (w, Err (DurableMailboxCommit
                    (lit ''durable mailbox delivery returned duplicate message identities'')))
               else
                 (let w1 = with_entry (scope_path execution)
                             (retain_notices (\<lambda>n. notice_id n \<notin> set (delivered_ids commit0))) w
                  in (if delivered_ids commit0 \<noteq> [] then notify_activity w1 else w1, Ok commit0))))"

definition drain_mailbox :: "agent_control \<Rightarrow> agent_path \<Rightarrow> (agent_mailbox_notice list) outcome" where
  "drain_mailbox w recipient =
     (case hm_get (agents w) recipient of
        None \<Rightarrow> (w, Err (AgentNotFound recipient))
      | Some e \<Rightarrow>
          (notify_activity (with_entry recipient (\<lambda>e. e\<lparr>mailbox := []\<rparr>) w), Ok (mailbox e)))"

definition mailbox_history_item_ids ::
  "agent_control \<Rightarrow> agent_path \<Rightarrow> (history_item_id list, agent_control_error) result" where
  "mailbox_history_item_ids w recipient =
     (case hm_get (agents w) recipient of
        None \<Rightarrow> Err (AgentNotFound recipient) | Some e \<Rightarrow> Ok (map notice_id (mailbox e)))"

definition mailbox_has_trigger_turn ::
  "agent_control \<Rightarrow> agent_path \<Rightarrow> (bool, agent_control_error) result" where
  "mailbox_has_trigger_turn w recipient =
     (case hm_get (agents w) recipient of
        None \<Rightarrow> Err (AgentNotFound recipient) | Some e \<Rightarrow> Ok (list_ex trigger_turn (mailbox e)))"

definition mailbox_has_ready_trigger_turn ::
  "agent_control \<Rightarrow> agent_path \<Rightarrow> (bool, agent_control_error) result" where
  "mailbox_has_ready_trigger_turn w recipient =
     (case hm_get (agents w) recipient of
        None \<Rightarrow> Err (AgentNotFound recipient) | Some e \<Rightarrow> Ok (list_ex is_ready (mailbox e)))"

section \<open>Terminals of executions that never started\<close>

text \<open>
  The second locked phase of \<open>commit_pending_trigger_terminal\<close>; the first only reads the
  session of the leased agent.
\<close>

definition blocked_entry :: "turn_id \<Rightarrow> ustr option \<Rightarrow> ctl_id \<Rightarrow> agent_entry \<Rightarrow> agent_entry" where
  "blocked_entry deferred_turn act ctl e =
     e\<lparr>entry_control := ctl,
       mailbox := map (\<lambda>n. if trigger_turn n then n\<lparr>schedule_ready := False\<rparr> else n) (mailbox e),
       status := AwaitingDescendants, last_activity := act, execution_marker := None,
       active_durable_turn := None, awaiting_deferred_turn := Some deferred_turn,
       pending_deferred_release := None\<rparr>"

definition trigger_terminal_begin ::
  "agent_control \<Rightarrow> agent_execution_lease \<Rightarrow> (session_id, agent_control_error) result" where
  "trigger_terminal_begin w lease =
     (let path = lease_path lease
      in if is_root path then Err (AgentNotFound path)
         else case hm_get (agents w) path of
                None \<Rightarrow> Err (AgentNotFound path)
              | Some e \<Rightarrow>
                  if execution_marker e \<noteq> Some (lease_marker lease) then Err (StaleExecution path)
                  else Ok (session_id e))"

definition trigger_terminal_commit ::
  "router_env \<Rightarrow> agent_control \<Rightarrow> agent_execution_lease \<Rightarrow> ustr option \<Rightarrow> session_id \<Rightarrow>
   ('t pending_trigger_terminal_commit, ustr) result \<Rightarrow>
   ('t pending_trigger_terminal_commit) outcome option" where
  "trigger_terminal_commit env w lease blocked_activity session durable_commit =
     (let path = lease_path lease
      in case durable_commit of
           Inl m \<Rightarrow> Some (w, Err (DurableMailboxCommit m))
         | Inr WakeOwnedOrResolved \<Rightarrow> Some (w, Ok WakeOwnedOrResolved)
         | Inr commit0 \<Rightarrow>
             (case wake_cause lease of
                None \<Rightarrow> Some (w, Err (StaleExecution path))
              | Some wake0 \<Rightarrow>
                  (case hm_get (agents w) path of
                     None \<Rightarrow> Some (w, Err (AgentNotFound path))
                   | Some e \<Rightarrow>
                       if session_id e \<noteq> session then Some (w, Err (AgentNotFound path))
                       else if execution_marker e \<noteq> Some (lease_marker lease)
                       then Some (w, Err (StaleExecution path))
                       else
                         (case commit0 of
                            BlockedByPendingDeferredCompletion deferred_turn \<Rightarrow>
                              (case wake0 of
                                 OwnerResume _ \<Rightarrow> Some (w, Err (StaleExecution path))
                               | ExplicitTask item \<Rightarrow>
                                   if \<not> list_ex (\<lambda>n. trigger_turn n \<and> notice_id n = item) (mailbox e)
                                   then Some (w, Err (StaleExecution path))
                                   else
                                     map_option (\<lambda>w1.
                                       let (w2, ctl) = alloc_control (entry_control e) w1
                                       in (notify_activity (with_entry path
                                             (blocked_entry deferred_turn blocked_activity ctl) w2),
                                           Ok commit0))
                                     (supersede_locked env (entry_control e) w))
                          | _ \<Rightarrow>
                              map_option (\<lambda>w1.
                                (notify_activity (with_entry path (drop_wake wake0) w1), Ok commit0))
                              (supersede_locked env (entry_control e) w)))))"

definition commit_pending_trigger_terminal ::
  "router_env \<Rightarrow> agent_control \<Rightarrow> agent_execution_lease \<Rightarrow> ustr option \<Rightarrow>
   ('t pending_trigger_terminal_commit, ustr) result \<Rightarrow>
   ('t pending_trigger_terminal_commit) outcome option" where
  "commit_pending_trigger_terminal env w lease blocked_activity durable_commit =
     (case trigger_terminal_begin w lease of
        Inl e \<Rightarrow> Some (w, Err e)
      | Inr session \<Rightarrow> trigger_terminal_commit env w lease blocked_activity session durable_commit)"

section \<open>The release of a deferred completion\<close>

definition released_activity :: "ustr option \<Rightarrow> ustr option \<Rightarrow> ustr option" where
  "released_activity act warning =
     (case (act, warning) of
        (Some a, Some m) \<Rightarrow> Some (a @ lit ''; '' @ m)
      | (None, Some m) \<Rightarrow> Some m
      | (a, None) \<Rightarrow> a)"

text \<open>The projection into the parent; the second component is the warning of a skipped wake.\<close>

definition project_parent ::
  "agent_control \<Rightarrow> agent_path \<Rightarrow> session_id \<Rightarrow> history_item_id \<Rightarrow> turn_id option \<Rightarrow>
   owner_resume_request_id option \<Rightarrow> agent_control \<times> ustr option" where
  "project_parent w parent0 parent_session item released request =
     (case hm_get (agents w) parent0 of
        None \<Rightarrow> (w, Some (lit ''parent wake skipped: '' @ parent0 @ lit '' is absent''))
      | Some e \<Rightarrow>
          if session_id e \<noteq> parent_session then
            (w, Some (lit ''parent wake skipped: '' @ parent0 @ lit '' session identity changed''))
          else if status e = Shutdown then
            (w, Some (lit ''parent wake skipped: '' @ parent0 @ lit '' is shutdown''))
          else
            (let (promotes, e1) = project_deferred_owner_release (heap w) e released;
                 (_, e2) = reconcile_current_owner_resume_request e1 request;
                 e3 = (if \<not> has_notice item e2 \<and> length (mailbox e2) < MAX_AGENT_MAILBOX_NOTICES
                       then push_notice item False False e2 else e2);
                 e4 = (if promotes then promote_triggers e3 else e3)
             in (with_entry parent0 (\<lambda>_. e4) w, None)))"

definition released_entry :: "agent_status \<Rightarrow> ustr option \<Rightarrow> agent_entry \<Rightarrow> agent_entry" where
  "released_entry st act e =
     (promote_triggers e)\<lparr>status := st, last_activity := act, active_durable_turn := None,
                           awaiting_deferred_turn := None, pending_deferred_release := None\<rparr>"

definition project_released_deferred_completion ::
  "agent_control \<Rightarrow> agent_path \<Rightarrow> session_id \<Rightarrow> turn_id \<Rightarrow> agent_path \<Rightarrow> session_id \<Rightarrow>
   inactive_agent_status \<Rightarrow> ustr option \<Rightarrow> history_item_id \<Rightarrow> turn_id option \<Rightarrow>
   (owner_resume_request_id option, ustr) result \<Rightarrow> (agent_execution_lease list) outcome option" where
  "project_released_deferred_completion w deferred_path deferred_session deferred_turn parent0
       parent_session st act item released durable_read =
     (if (case st of InactivePendingInit \<Rightarrow> True | InactiveAwaiting _ \<Rightarrow> True | _ \<Rightarrow> False)
      then Some (w, Err (AgentNotAwaitingDescendants deferred_path))
      else
        (case durable_read of
           Inl m \<Rightarrow> Some (w, Err (DurableOwnerResumeRead m))
         | Inr request \<Rightarrow>
             if tree_cancelled w then Some (w, Err TreeCancelled)
             else
               (case hm_get (agents w) deferred_path of
                  None \<Rightarrow> Some (w, Err (AgentNotFound deferred_path))
                | Some e \<Rightarrow>
                    if session_id e \<noteq> deferred_session \<or> parent e \<noteq> Some parent0
                    then Some (w, Err (AgentNotAwaitingDescendants deferred_path))
                    else if execution_marker e \<noteq> None \<or> status e \<noteq> AwaitingDescendants \<or>
                            awaiting_deferred_turn e \<noteq> Some deferred_turn
                    then Some (w, Ok [])
                    else
                      (let (w1, warning) = project_parent w parent0 parent_session item released request;
                           w2 = with_entry deferred_path
                                  (released_entry (of_inactive st) (released_activity act warning)) w1
                       in schedule_and_notify True w2))))"

end
