(* ===== verification/Agent_Inv.thy ===== *)
theory Agent_Inv
  imports Agent_Mail
begin

text \<open>
  The invariant of an agent tree and its preservation by changes of one entry, insertion and
  removal. Everything an operation does to a tree is one of these four: it changes nothing in
  the registry, it changes one entry, it adds a new agent, or it removes one.
\<close>

section \<open>The invariant\<close>

text \<open>What an entry promises on its own: its status agrees with its execution and its turns.\<close>

definition entry_ok :: "agent_entry \<Rightarrow> bool" where
  "entry_ok e \<longleftrightarrow>
     (execution_marker e \<noteq> None \<longrightarrow> status e = PendingInit \<or> status e = Running) \<and>
     (execution_marker e = None \<longrightarrow> active_durable_turn e = None \<and> pending_deferred_release e = None) \<and>
     (awaiting_deferred_turn e \<noteq> None \<longleftrightarrow> status e = AwaitingDescendants) \<and>
     length (mailbox e) \<le> MAX_AGENT_MAILBOX_NOTICES \<and> distinct (map notice_id (mailbox e))"

text \<open>What an entry promises about its place in the tree.\<close>

definition placed :: "agent_control \<Rightarrow> agent_path \<Rightarrow> agent_entry \<Rightarrow> bool" where
  "placed w p e \<longleftrightarrow>
     valid_path p \<and> parent e = parent_path p \<and> (spawn_order e = 0 \<longleftrightarrow> is_root p) \<and>
     spawn_order e < next_spawn_order w \<and>
     entry_control e < next_ctl w \<and> entry_control e \<noteq> root_scope_control w \<and>
     terminal_router (heap w (entry_control e)) = (if is_root p then Some (tree_router w) else None) \<and>
     (\<forall>m. execution_marker e = Some m \<longrightarrow> m < next_marker w)"

text \<open>Two different agents share no identity.\<close>

definition apart :: "agent_entry \<Rightarrow> agent_entry \<Rightarrow> bool" where
  "apart e f \<longleftrightarrow>
     session_id e \<noteq> session_id f \<and> spawn_order e \<noteq> spawn_order f \<and>
     entry_control e \<noteq> entry_control f \<and>
     (execution_marker e = execution_marker f \<longrightarrow> execution_marker e = None)"

definition entries_ok :: "agent_control \<Rightarrow> bool" where
  "entries_ok w \<longleftrightarrow>
     (\<forall>p e. hm_get (agents w) p = Some e \<longrightarrow> entry_ok e \<and> placed w p e) \<and>
     (\<forall>p e q f. hm_get (agents w) p = Some e \<longrightarrow> hm_get (agents w) q = Some f \<longrightarrow> p \<noteq> q \<longrightarrow> apart e f)"

definition root_turn_ok :: "agent_control \<Rightarrow> bool" where
  "root_turn_ok w \<longleftrightarrow>
     (pending_root_durable_turn w \<noteq> None \<longrightarrow>
        (\<exists>e. hm_get (agents w) root_path = Some e \<and> execution_marker e \<noteq> None))"

definition scope_ok :: "agent_control \<Rightarrow> bool" where
  "scope_ok w \<longleftrightarrow>
     root_scope_control w < next_ctl w \<and>
     terminal_router (heap w (root_scope_control w)) = Some (tree_router w)"

definition tree_inv :: "agent_control \<Rightarrow> bool" where
  "tree_inv w \<longleftrightarrow>
     distinct (hm_keys (agents w)) \<and> hm_contains (agents w) root_path \<and>
     length (agents w) \<le> MAX_RETAINED_AGENTS \<and>
     active_agent_count w \<le> descendant_capacity w \<and>
     entries_ok w \<and> root_turn_ok w \<and> scope_ok w"

lemma apart_sym: "apart e f \<Longrightarrow> apart f e"
  by (auto simp: apart_def)

section \<open>Counting active agents\<close>

abbreviation is_active_child :: "agent_path \<times> agent_entry \<Rightarrow> bool" where
  "is_active_child \<equiv> \<lambda>(p, e). \<not> is_root p \<and> execution_marker e \<noteq> None"

lemma filter_modify:
  "distinct (hm_keys m) \<Longrightarrow> hm_get m p = Some e \<Longrightarrow>
     length (filter is_active_child (hm_modify p f m)) +
       (if is_active_child (p, e) then 1 else 0) =
     length (filter is_active_child m) + (if is_active_child (p, f e) then 1 else 0)"
proof (induction m)
  case (Cons x m)
  obtain q g where x: "x = (q, g)" by (cases x)
  show ?case
  proof (cases "q = p")
    case True
    with Cons.prems x have "p \<notin> fst ` set m" by auto
    then have "hm_modify p f m = m"
      by (auto simp: hm_modify_def case_prod_beta intro!: map_idI) (metis image_eqI fst_conv prod.collapse)
    moreover have "g = e" using Cons.prems x True by simp
    ultimately show ?thesis using True x by (simp add: hm_modify_def)
  next
    case False
    with Cons x show ?thesis by (auto simp: hm_modify_def)
  qed
qed simp

lemma hm_modify_const:
  "distinct (hm_keys m) \<Longrightarrow> hm_get m p = Some e \<Longrightarrow> hm_modify p f m = hm_modify p (\<lambda>_. f e) m"
  by (auto simp: hm_modify_def dest: eq_key_imp_eq_value)

section \<open>Changing one entry\<close>

text \<open>A change that keeps the registry and touches neither identities nor routers in use.\<close>

lemma inv_same_agents:
  assumes inv: "tree_inv w" and ag: "agents w' = agents w"
    and "max_concurrent_agents w' = max_concurrent_agents w"
    and "next_spawn_order w \<le> next_spawn_order w'"
    and "root_scope_control w' = root_scope_control w" and "tree_router w' = tree_router w"
    and "next_ctl w \<le> next_ctl w'" and "next_marker w \<le> next_marker w'"
    and heap: "\<And>c. c < next_ctl w \<Longrightarrow> terminal_router (heap w' c) = terminal_router (heap w c)"
    and cap: "pending_capacity_reservations w' \<le> pending_capacity_reservations w \<or>
              active_agent_count w' \<le> descendant_capacity w'"
    and turn: "pending_root_durable_turn w' = pending_root_durable_turn w \<or> root_turn_ok w'"
  shows "tree_inv w'"
proof -
  have "active_agent_count w' \<le> descendant_capacity w'"
    using inv cap assms(2,3) by (auto simp: tree_inv_def active_agent_count_def descendant_capacity_def)
  moreover have "placed w' p e" if "placed w p e" for p e
    using that assms(4-8) heap by (auto simp: placed_def intro: order_less_le_trans)
  then have "entries_ok w'"
    using inv ag unfolding tree_inv_def entries_ok_def by auto
  moreover have "root_turn_ok w'"
    using inv turn ag by (auto simp: tree_inv_def root_turn_ok_def)
  moreover have "scope_ok w'"
    using inv assms(5-7) heap by (auto simp: tree_inv_def scope_ok_def)
  ultimately show ?thesis using inv ag by (simp add: tree_inv_def)
qed

text \<open>
  A change of the entry at one path. Its control and its marker are the old ones or new ones,
  the marker may also be given up.
\<close>

definition moves_to :: "agent_control \<Rightarrow> agent_entry \<Rightarrow> agent_entry \<Rightarrow> bool" where
  "moves_to w e e' \<longleftrightarrow>
     session_id e' = session_id e \<and> parent e' = parent e \<and> spawn_order e' = spawn_order e \<and>
     (entry_control e' = entry_control e \<or> next_ctl w \<le> entry_control e') \<and>
     (execution_marker e' = None \<or> execution_marker e' = execution_marker e \<or>
      (\<exists>m. execution_marker e' = Some m \<and> next_marker w \<le> m))"

lemma apart_moved:
  assumes "moves_to w e e'" and "apart e f" and "placed w q f"
  shows "apart e' f"
  using assms by (fastforce simp: moves_to_def apart_def placed_def)

lemma inv_update:
  assumes inv: "tree_inv w" and e: "hm_get (agents w) p = Some e"
    and ag: "agents w' = hm_modify p (\<lambda>_. e') (agents w)"
    and same: "max_concurrent_agents w' = max_concurrent_agents w"
      "next_spawn_order w' = next_spawn_order w" "tree_router w' = tree_router w"
      "pending_capacity_reservations w' = pending_capacity_reservations w"
      "next_ctl w \<le> next_ctl w'" "next_marker w \<le> next_marker w'"
    and others: "\<And>q f. hm_get (agents w) q = Some f \<Longrightarrow> q \<noteq> p \<Longrightarrow>
        terminal_router (heap w' (entry_control f)) = terminal_router (heap w (entry_control f)) \<and>
        entry_control f \<noteq> root_scope_control w'"
    and moved: "moves_to w e e'" and ok: "entry_ok e'" "placed w' p e'"
    and cap: "execution_marker e \<noteq> None \<or> execution_marker e' = None \<or> is_root p \<or>
              active_agent_count w < descendant_capacity w"
    and turn: "root_turn_ok w'" and scope: "scope_ok w'"
  shows "tree_inv w'"
proof -
  have get: "hm_get (agents w') q = (if q = p then Some e' else hm_get (agents w) q)" for q
    using e by (simp add: ag)
  have d: "distinct (hm_keys (agents w))" using inv by (simp add: tree_inv_def)
  have old: "entry_ok f" "placed w q f" if "hm_get (agents w) q = Some f" for q f
    using inv that by (auto simp: tree_inv_def entries_ok_def)
  have kept: "placed w' q f" if "hm_get (agents w) q = Some f" "q \<noteq> p" for q f
    using old(2) [OF that(1)] others [OF that] same by (auto simp: placed_def intro: order_less_le_trans)
  have pair: "apart f g" if "hm_get (agents w) q = Some f" "hm_get (agents w) r = Some g" "q \<noteq> r" for q r f g
    using inv that unfolding tree_inv_def entries_ok_def by blast
  have apart': "apart e' f" if "hm_get (agents w) q = Some f" "q \<noteq> p" for q f
    using apart_moved [OF moved pair [OF e that(1)] old(2) [OF that(1)]] that(2) by simp
  have "entries_ok w'"
    unfolding entries_ok_def get
    using ok old(1) kept pair apart' apart_sym by (auto split: if_splits)
  moreover have "length (filter is_active_child (agents w')) +
       (if is_active_child (p, e) then 1 else 0) =
     length (filter is_active_child (agents w)) + (if is_active_child (p, e') then 1 else 0)"
    using filter_modify [OF d e, of "\<lambda>_. e'"] by (simp add: ag)
  then have "active_agent_count w' \<le> descendant_capacity w'"
    using inv cap same
    by (auto simp: tree_inv_def active_agent_count_def descendant_capacity_def split: if_splits)
  ultimately show ?thesis
    using inv turn scope by (simp add: tree_inv_def ag)
qed

text \<open>The common case: one entry changes in place and the heap keeps its routers.\<close>

definition tame :: "agent_entry \<Rightarrow> agent_entry \<Rightarrow> bool" where
  "tame e e' \<longleftrightarrow>
     session_id e' = session_id e \<and> parent e' = parent e \<and> spawn_order e' = spawn_order e \<and>
     entry_control e' = entry_control e \<and>
     (execution_marker e' = None \<or> execution_marker e' = execution_marker e) \<and>
     (entry_ok e \<longrightarrow> entry_ok e')"

lemma inv_with_entry:
  assumes inv: "tree_inv w" and e: "hm_get (agents w) p = Some e" and t: "tame e (f e)"
    and turn: "is_root p \<Longrightarrow> execution_marker (f e) = None \<Longrightarrow> pending_root_durable_turn w = None"
  shows "tree_inv (with_entry p f w)"
proof (rule inv_update [OF inv e, of _ "f e"])
  have d: "distinct (hm_keys (agents w))" using inv by (simp add: tree_inv_def)
  show "agents (with_entry p f w) = hm_modify p (\<lambda>_. f e) (agents w)"
    using hm_modify_const [OF d e] by (simp add: with_entry_def)
  have old: "entry_ok e" "placed w p e" using inv e by (auto simp: tree_inv_def entries_ok_def)
  from t show "moves_to w e (f e)" by (auto simp: tame_def moves_to_def)
  from t old show "entry_ok (f e)" by (simp add: tame_def)
  from t old show "placed (with_entry p f w) p (f e)" by (auto simp: tame_def placed_def with_entry_def)
  from t show "execution_marker e \<noteq> None \<or> execution_marker (f e) = None \<or> is_root p \<or>
      active_agent_count w < descendant_capacity w" by (auto simp: tame_def)
  show "root_turn_ok (with_entry p f w)"
    using inv turn e by (fastforce simp: tree_inv_def root_turn_ok_def with_entry_def is_root_def root_path_def
                         split: if_splits)
  show "scope_ok (with_entry p f w)"
    using inv by (simp add: tree_inv_def scope_ok_def with_entry_def)
  show "terminal_router (heap (with_entry p f w) (entry_control g)) = terminal_router (heap w (entry_control g)) \<and>
      entry_control g \<noteq> root_scope_control (with_entry p f w)" if "hm_get (agents w) q = Some g" "q \<noteq> p" for q g
    using inv that by (auto simp: tree_inv_def entries_ok_def placed_def with_entry_def)
qed (simp_all add: with_entry_def)

lemma inv_notify [simp]: "tree_inv (notify_activity w) \<longleftrightarrow> tree_inv w"
  by (simp add: tree_inv_def entries_ok_def placed_def root_turn_ok_def scope_ok_def
                active_agent_count_def descendant_capacity_def notify_activity_def)

section \<open>A new execution of an agent\<close>

lemma new_control_router [simp]:
  "terminal_router (inherit_effect_authority new_run_control rc) = None"
  by (simp add: inherit_effect_authority_def new_run_control_def)

lemma entry_ok_start: "entry_ok e \<Longrightarrow> entry_ok (start_execution mk ctl e)"
  by (auto simp: entry_ok_def start_execution_def)

definition started :: "agent_path \<Rightarrow> run_control \<Rightarrow> agent_control \<Rightarrow> agent_control" where
  "started p rc w =
     with_entry p (start_execution (next_marker w) (next_ctl w))
       (w\<lparr>next_marker := Suc (next_marker w),
          heap := (heap w)(next_ctl w := inherit_effect_authority new_run_control rc),
          next_ctl := Suc (next_ctl w)\<rparr>)"

lemma inv_start_child:
  assumes inv: "tree_inv w" and e: "hm_get (agents w) p = Some e" and p: "\<not> is_root p"
    and cap: "active_agent_count w < descendant_capacity w"
  shows "tree_inv (started p rc w)" 
  unfolding started_def
proof (rule inv_update [OF inv e, of _ "start_execution (next_marker w) (next_ctl w) e"])
  let ?u = "with_entry p (start_execution (next_marker w) (next_ctl w))
       (w\<lparr>next_marker := Suc (next_marker w),
          heap := (heap w)(next_ctl w := inherit_effect_authority new_run_control rc),
          next_ctl := Suc (next_ctl w)\<rparr>)"
  have d: "distinct (hm_keys (agents w))" using inv by (simp add: tree_inv_def)
  have old: "entry_ok f" "placed w q f" if "hm_get (agents w) q = Some f" for q f
    using inv that by (auto simp: tree_inv_def entries_ok_def)
  show "agents ?u = hm_modify p (\<lambda>_. start_execution (next_marker w) (next_ctl w) e) (agents w)"
    using hm_modify_const [OF d e] by (simp add: with_entry_def)
  show "moves_to w e (start_execution (next_marker w) (next_ctl w) e)"
    by (simp add: moves_to_def start_execution_def)
  show "entry_ok (start_execution (next_marker w) (next_ctl w) e)"
    using old(1) [OF e] by (rule entry_ok_start)
  have scope: "root_scope_control w < next_ctl w" using inv by (simp add: tree_inv_def scope_ok_def)
  with p old(2) [OF e] show "placed ?u p (start_execution (next_marker w) (next_ctl w) e)"
    by (auto simp: placed_def start_execution_def with_entry_def)
  show "root_turn_ok ?u"
    using inv p by (auto simp: tree_inv_def root_turn_ok_def with_entry_def is_root_def root_path_def)
  show "scope_ok ?u" using inv by (auto simp: tree_inv_def scope_ok_def with_entry_def)
  show "terminal_router (heap ?u (entry_control g)) = terminal_router (heap w (entry_control g)) \<and>
      entry_control g \<noteq> root_scope_control ?u" if "hm_get (agents w) q = Some g" "q \<noteq> p" for q g
    using old(2) [OF that(1)] by (auto simp: placed_def with_entry_def)
  show "execution_marker e \<noteq> None \<or> execution_marker (start_execution (next_marker w) (next_ctl w) e) = None \<or>
      is_root p \<or> active_agent_count w < descendant_capacity w" using cap by simp
qed (simp_all add: with_entry_def)

lemma reserve_one_eq:
  "reserve_one p wake0 w =
     (started p (heap w (root_scope_control w)) w,
      \<lparr>lease_path = p, lease_marker = next_marker w, lease_control = next_ctl w,
       wake_cause = Some wake0\<rparr>)"
  by (simp add: reserve_one_def alloc_marker_def alloc_control_def started_def)

lemma inv_reserve_one:
  "tree_inv w \<Longrightarrow> hm_get (agents w) p = Some e \<Longrightarrow> \<not> is_root p \<Longrightarrow>
   active_agent_count w < descendant_capacity w \<Longrightarrow> tree_inv (fst (reserve_one p wake0 w))"
  by (simp add: reserve_one_eq inv_start_child)

section \<open>New agents and removed agents\<close>

lemma inv_insert:
  assumes inv: "tree_inv w" and ag: "agents w' = agents w @ [(p, e)]"
    and new: "hm_get (agents w) p = None" and room: "length (agents w) < MAX_RETAINED_AGENTS"
    and root: "\<not> is_root p"
    and same: "max_concurrent_agents w' = max_concurrent_agents w"
      "pending_capacity_reservations w' = pending_capacity_reservations w"
      "root_scope_control w' = root_scope_control w" "tree_router w' = tree_router w"
      "pending_root_durable_turn w' = pending_root_durable_turn w"
      "next_spawn_order w \<le> next_spawn_order w'" "next_ctl w \<le> next_ctl w'"
      "next_marker w \<le> next_marker w'"
    and heap: "\<And>c. c < next_ctl w \<Longrightarrow> terminal_router (heap w' c) = terminal_router (heap w c)"
    and ok: "entry_ok e" "placed w' p e" "next_ctl w \<le> entry_control e"
    and unused: "\<And>q f. hm_get (agents w) q = Some f \<Longrightarrow>
                   session_id f \<noteq> session_id e \<and> spawn_order f \<noteq> spawn_order e"
    and mk: "execution_marker e = None \<or>
             (\<exists>m. execution_marker e = Some m \<and> next_marker w \<le> m) \<and>
             active_agent_count w < descendant_capacity w"
  shows "tree_inv w'"
proof -
  have get: "hm_get (agents w') q = (if q = p then Some e else hm_get (agents w) q)" for q
    using new by (auto simp: ag map_add_def split: option.splits)
  have old: "entry_ok f" "placed w q f" if "hm_get (agents w) q = Some f" for q f
    using inv that by (auto simp: tree_inv_def entries_ok_def)
  have kept: "placed w' q f" if "hm_get (agents w) q = Some f" for q f
    using old(2) [OF that] same heap by (auto simp: placed_def intro: order_less_le_trans)
  have "apart e f" if f: "hm_get (agents w) q = Some f" for q f
  proof -
    from old(2) [OF f] have "entry_control f < next_ctl w"
      and m: "\<And>m. execution_marker f = Some m \<Longrightarrow> m < next_marker w" by (simp_all add: placed_def)
    moreover have "execution_marker e = None" if "execution_marker e = execution_marker f"
      using mk that by (metis m leD)
    ultimately show ?thesis using unused [OF f] ok(3) by (auto simp: apart_def)
  qed
  moreover have "apart f g" if "hm_get (agents w) q = Some f" "hm_get (agents w) r = Some g" "q \<noteq> r" for q r f g
    using inv that unfolding tree_inv_def entries_ok_def by blast
  ultimately have "entries_ok w'"
    unfolding entries_ok_def get using ok old(1) kept apart_sym by (auto split: if_splits)
  moreover have "p \<notin> set (hm_keys (agents w))"
    using new by (simp add: map_of_eq_None_iff)
  then have "distinct (hm_keys (agents w'))" using inv by (simp add: tree_inv_def ag)
  moreover have "hm_contains (agents w') root_path"
    using inv get by (auto simp: tree_inv_def hm_contains_def)
  moreover have "active_agent_count w' \<le> descendant_capacity w'"
    using inv mk same root by (auto simp: tree_inv_def active_agent_count_def descendant_capacity_def ag)
  moreover have "root_turn_ok w'"
    using inv same(5) get new by (fastforce simp: tree_inv_def root_turn_ok_def)
  moreover have "scope_ok w'"
    using inv same heap by (auto simp: tree_inv_def scope_ok_def)
  ultimately show ?thesis using room by (simp add: tree_inv_def ag)
qed

lemma length_filter_remove: "length (filter P (hm_remove p m)) \<le> length (filter P m)"
  by (induction m) (auto simp: hm_remove_def)

lemma inv_remove:
  assumes inv: "tree_inv w" and root: "\<not> is_root p"
  shows "tree_inv (w\<lparr>agents := hm_remove p (agents w)\<rparr>)" (is "tree_inv ?w")
proof -
  have sub: "hm_get (agents w) q = Some f" if "hm_get (agents ?w) q = Some f" for q f
    using that by (simp split: if_splits)
  have "entries_ok w" using inv by (simp add: tree_inv_def)
  moreover have "placed ?w q f \<longleftrightarrow> placed w q f" for q f by (simp add: placed_def)
  ultimately have "entries_ok ?w" unfolding entries_ok_def using sub by metis
  moreover have "distinct (hm_keys (agents ?w))"
    using inv by (simp add: tree_inv_def distinct_hm_remove)
  moreover have "root_path \<noteq> p" using root by (auto simp: is_root_def root_path_def)
  then have "hm_contains (agents ?w) root_path" "root_turn_ok ?w"
    using inv by (auto simp: tree_inv_def hm_contains_def root_turn_ok_def)
  moreover have "length (agents ?w) \<le> length (agents w)" by (simp add: hm_remove_def)
  moreover have "length (filter is_active_child (agents ?w)) \<le> length (filter is_active_child (agents w))"
    using length_filter_remove [of _ p "agents w"] by simp
  moreover have "scope_ok ?w" using inv by (simp add: tree_inv_def scope_ok_def)
  ultimately show ?thesis
    using inv by (auto simp: tree_inv_def active_agent_count_def descendant_capacity_def)
qed

lemma choose_spawn_order_Ok:
  assumes "tree_inv w" and "choose_spawn_order w o0 = Ok (w', order)"
  shows "w' = w\<lparr>next_spawn_order := next_spawn_order w'\<rparr> \<and>
         next_spawn_order w \<le> next_spawn_order w' \<and> order < next_spawn_order w' \<and> order \<noteq> 0 \<and>
         (\<forall>q f. hm_get (agents w) q = Some f \<longrightarrow> spawn_order f \<noteq> order)"
proof (cases o0)
  case None
  with assms(2) have a: "order = next_spawn_order w"
    "checked_succ (next_spawn_order w) = Some (next_spawn_order w')" "w' = w\<lparr>next_spawn_order := next_spawn_order w'\<rparr>"
    by (auto simp: choose_spawn_order_def allocate_spawn_order_def split: option.splits)
  from assms(1) obtain e where e: "hm_get (agents w) root_path = Some e"
    by (auto simp: tree_inv_def hm_contains_def)
  have lt: "\<And>q f. hm_get (agents w) q = Some f \<Longrightarrow> spawn_order f < next_spawn_order w"
    using assms(1) by (auto simp: tree_inv_def entries_ok_def placed_def)
  from lt [OF e] have "next_spawn_order w \<noteq> 0" by auto
  with a lt checked_succ_less [OF a(2)] show ?thesis by fastforce
next
  case (Some order')
  with assms(2) have a: "order = order'" "order \<noteq> 0" "\<not> list_ex (\<lambda>(_, e). spawn_order e = order) (agents w)"
    "\<exists>n. checked_succ order = Some n \<and> w' = w\<lparr>next_spawn_order := max (next_spawn_order w) n\<rparr>"
    by (auto simp: choose_spawn_order_def split: option.splits if_splits)
  then obtain n where n: "checked_succ order = Some n" "w' = w\<lparr>next_spawn_order := max (next_spawn_order w) n\<rparr>"
    by blast
  have "\<forall>q f. hm_get (agents w) q = Some f \<longrightarrow> spawn_order f \<noteq> order"
    using a(3) by (auto simp: list_ex_iff dest: map_of_SomeD)
  with a(2) n checked_succ_less [OF n(1)] show ?thesis by (simp add: less_max_iff_disj)
qed

lemma session_registered_iff:
  "session_registered w s \<longleftrightarrow> (\<exists>x \<in> set (agents w). session_id (snd x) = s)"
  by (simp add: session_registered_def list_ex_iff case_prod_beta)

lemma not_registered: "\<not> session_registered w s \<Longrightarrow> hm_get (agents w) q = Some f \<Longrightarrow> session_id f \<noteq> s"
  using map_of_SomeD [of "agents w" q f] by (force simp: session_registered_iff)

lemma join_path_child:
  assumes "tree_inv w" and "hm_contains (agents w) q" and "join_path q t = Ok p"
  shows "valid_path p \<and> parent_path p = Some q \<and> \<not> is_root p"
proof -
  from assms(1,2) have "valid_path q" by (auto simp: hm_contains_def tree_inv_def entries_ok_def placed_def)
  then obtain ns where ns: "list_all valid_name ns" "q = of_names ns" by (auto simp: valid_path_def)
  with assms(3) have "p = of_names (ns @ [t])" "valid_name t"
    using join_names_iff [OF ns(1)] by auto
  with ns parent_snoc [of ns t] is_root_of_names [of "ns @ [t]"] show ?thesis
    by (simp add: valid_path_of_names)
qed

section \<open>Classifying a control in place\<close>

lemma publish_router [simp]: "terminal_router (publish rc c b) = terminal_router rc"
  by (simp add: publish_def wake_if_def wake_cancel_def)

lemma local_cancel_router [simp]:
  "terminal_router (fst (request_cancel_local rc x)) = terminal_router rc"
  "terminal_router (fst (commit_cancel_local rc x r)) = terminal_router rc"
  by (simp_all add: request_cancel_local_def commit_cancel_local_def case_prod_beta)

lemma inv_heap:
  assumes "tree_inv w" and "\<And>c. c < next_ctl w \<Longrightarrow> terminal_router (h c) = terminal_router (heap w c)"
  shows "tree_inv (w\<lparr>heap := h\<rparr>)"
  by (rule inv_same_agents [OF assms(1)]) (simp_all add: assms(2))

lemma inv_heap_upd:
  "tree_inv w \<Longrightarrow> terminal_router rc = terminal_router (heap w c) \<Longrightarrow>
     tree_inv (w\<lparr>heap := (heap w)(c := rc)\<rparr>)"
  by (rule inv_heap) auto

text \<open>
  Superseding the control of a descendant under the registry lock: it has no router, so the
  call stays local and cannot wait for the lock.
\<close>

lemma supersede_child:
  assumes "terminal_router (heap w c) = None"
  shows "supersede_locked env c w =
           Some (w\<lparr>heap := (heap w)(c := fst (request_cancel_local (heap w c) Superseded))\<rparr>)"
  using assms
  by (simp add: supersede_locked_def supersede_def cancel_def request_cancel_def route_terminal_def
                case_prod_beta Let_def)

lemma child_router:
  "tree_inv w \<Longrightarrow> hm_get (agents w) p = Some e \<Longrightarrow> \<not> is_root p \<Longrightarrow>
     terminal_router (heap w (entry_control e)) = None"
  by (simp add: tree_inv_def entries_ok_def placed_def)

end
