(* ===== verification/Agent_Sched.thy ===== *)
theory Agent_Sched
  imports Agent_Inv
begin

text \<open>
  Scheduling of pending work: which wake an agent has, and which agents get an execution. The
  scheduler never panics, keeps the invariant, gives leases in spawn order as long as there is
  capacity, and leaves no eligible agent behind while capacity remains.
\<close>

section \<open>The wake of an agent\<close>

lemma newest_ready_spec:
  assumes "\<forall>b. best = Some b \<longrightarrow> is_ready b"
  shows "case newest_ready ns best of
           None \<Rightarrow> best = None \<and> (\<forall>n \<in> set ns. \<not> is_ready n)
         | Some n \<Rightarrow> (best = Some n \<or> n \<in> set ns) \<and> is_ready n \<and>
             (\<forall>b. best = Some b \<longrightarrow> notice_generation b \<le> notice_generation n) \<and>
             (\<forall>m \<in> set ns. is_ready m \<longrightarrow> notice_generation m \<le> notice_generation n)"
  using assms
proof (induction ns arbitrary: best)
  case Nil
  then show ?case by (auto split: option.splits)
next
  case (Cons n ns)
  let ?best = "if \<not> is_ready n then best
        else case best of None \<Rightarrow> Some n
             | Some b \<Rightarrow> if notice_generation b \<le> notice_generation n then Some n else Some b"
  have ok: "\<forall>b. ?best = Some b \<longrightarrow> is_ready b"
    using Cons.prems by (auto split: option.splits)
  have "newest_ready (n # ns) best = newest_ready ns ?best" by simp
  moreover note Cons.IH [OF ok]
  moreover have "is_ready n \<Longrightarrow> \<exists>b. ?best = Some b \<and> notice_generation n \<le> notice_generation b"
    by (auto split: option.splits)
  moreover have "best = Some b \<Longrightarrow> \<exists>c. ?best = Some c \<and> notice_generation b \<le> notice_generation c" for b
    by auto
  moreover have "?best = best \<or> ?best = Some n" by (auto split: option.splits)
  ultimately show ?case
    by (cases "newest_ready ns ?best") (simp_all del: newest_ready.simps, fastforce+)
qed

lemma newest_ready_None: "newest_ready ns None = None \<longleftrightarrow> (\<forall>n \<in> set ns. \<not> is_ready n)"
  using newest_ready_spec [of None ns] by (fastforce split: option.splits)

section \<open>Candidates\<close>

lemma set_candidates:
  assumes "distinct (hm_keys (agents w))"
  shows "set (candidates w) = {p. \<exists>e. hm_get (agents w) p = Some e \<and> is_candidate p e}"
proof -
  have "set (candidates w) = {p. \<exists>e. (p, e) \<in> set (agents w) \<and> is_candidate p e}"
    by (auto simp: candidates_def List.map_filter_def image_iff split: if_splits) force
  then show ?thesis using assms by (auto simp: map_of_eq_Some_iff)
qed

lemma distinct_candidates:
  assumes "distinct (hm_keys (agents w))"
  shows "distinct (candidates w)"
proof -
  have "distinct (map snd (List.map_filter
      (\<lambda>(p, e). if is_candidate p e then Some (spawn_order e, p) else None) m))"
    if "distinct (hm_keys m)" for m :: "(agent_path \<times> agent_entry) list"
  proof -
    have "map snd (List.map_filter (\<lambda>(p, e). if is_candidate p e then Some (spawn_order e, p) else None) m)
          = hm_keys (filter (\<lambda>(p, e). is_candidate p e) m)"
      by (induction m) (auto simp: List.map_filter_simps)
    with that show ?thesis by (simp add: distinct_map_filter)
  qed
  from this [OF assms] show ?thesis
    unfolding candidates_def by (simp add: distinct_map inj_on_def)
qed

lemma sorted_candidates:
  assumes "distinct (hm_keys (agents w))"
  shows "sorted (map (\<lambda>p. case hm_get (agents w) p of Some e \<Rightarrow> spawn_order e | None \<Rightarrow> 0) (candidates w))"
proof -
  let ?l = "List.map_filter (\<lambda>(p, e). if is_candidate p e then Some (spawn_order e, p) else None) (agents w)"
  have "(case hm_get (agents w) (snd x) of Some e \<Rightarrow> spawn_order e | None \<Rightarrow> 0) = fst x"
    if "x \<in> set ?l" for x
  proof -
    from that obtain p e where "(p, e) \<in> set (agents w)" "x = (spawn_order e, p)"
      by (auto simp: List.map_filter_def split: if_splits)
    with assms show ?thesis by (simp add: map_of_is_SomeI)
  qed
  then have "map (\<lambda>p. case hm_get (agents w) p of Some e \<Rightarrow> spawn_order e | None \<Rightarrow> 0) (candidates w)
             = map fst (sort_key fst ?l)"
    by (simp add: candidates_def)
  then show ?thesis by simp
qed

section \<open>The loop\<close>

text \<open>What scheduling leaves alone.\<close>

definition frame :: "agent_control \<Rightarrow> agent_control \<Rightarrow> bool" where
  "frame w w' \<longleftrightarrow>
     max_concurrent_agents w' = max_concurrent_agents w \<and>
     next_spawn_order w' = next_spawn_order w \<and>
     pending_capacity_reservations w' = pending_capacity_reservations w \<and>
     root_scope_control w' = root_scope_control w \<and>
     pending_root_durable_turn w' = pending_root_durable_turn w \<and>
     tree_router w' = tree_router w \<and> next_ctl w \<le> next_ctl w' \<and> next_marker w \<le> next_marker w' \<and>
     (\<forall>c < next_ctl w. heap w' c = heap w c)"

lemma frame_refl [simp]: "frame w w"
  by (simp add: frame_def)

lemma frame_trans: "frame u v \<Longrightarrow> frame v w \<Longrightarrow> frame u w"
  by (auto simp: frame_def)

lemma started_frame: "frame w (started p rc w)"
  by (simp add: frame_def started_def with_entry_def)

lemma started_get:
  "hm_get (agents (started p rc w)) q =
     (if q = p then map_option (start_execution (next_marker w) (next_ctl w)) (hm_get (agents w) p)
      else hm_get (agents w) q)"
  by (simp add: started_def with_entry_def)

lemma started_count:
  assumes "tree_inv w" and "hm_get (agents w) p = Some e" and "\<not> is_root p" and "execution_marker e = None"
  shows "active_agent_count (started p rc w) = Suc (active_agent_count w)"
proof -
  have "distinct (hm_keys (agents w))" using assms(1) by (simp add: tree_inv_def)
  from filter_modify [OF this assms(2), of "start_execution (next_marker w) (next_ctl w)"] assms(3,4)
  show ?thesis
    by (simp add: active_agent_count_def started_def with_entry_def start_execution_def)
qed

text \<open>What a scheduling pass did: the leases it gave for the agents \<open>ps\<close> that it served.\<close>

definition served :: "agent_control \<Rightarrow> agent_control \<Rightarrow> agent_execution_lease list \<Rightarrow> bool" where
  "served w w' leases \<longleftrightarrow>
     frame w w' \<and>
     (\<forall>q. q \<notin> set (map lease_path leases) \<longrightarrow> hm_get (agents w') q = hm_get (agents w) q) \<and>
     (\<forall>l \<in> set leases. \<exists>e. hm_get (agents w) (lease_path l) = Some e \<and> is_candidate (lease_path l) e \<and>
        hm_get (agents w') (lease_path l) =
          Some (start_execution (lease_marker l) (lease_control l) e) \<and>
        next_marker w \<le> lease_marker l \<and> next_ctl w \<le> lease_control l \<and>
        wake_cause l = pending_execution_wake_cause e)"

lemma reserve_loop_spec:
  assumes "tree_inv w" and "distinct ps"
    and "\<forall>p \<in> set ps. \<exists>e. hm_get (agents w) p = Some e \<and> is_candidate p e"
  shows "\<exists>w' leases. reserve_loop ps w acc = Some (w', acc @ leases) \<and> tree_inv w' \<and>
           map lease_path leases = take (descendant_capacity w - active_agent_count w) ps \<and>
           served w w' leases"
  using assms
proof (induction ps arbitrary: w acc)
  case Nil
  then show ?case by (auto simp: served_def)
next
  case (Cons p ps)
  show ?case
  proof (cases "descendant_capacity w \<le> active_agent_count w")
    case True
    with Cons.prems show ?thesis by (auto simp: served_def)
  next
    case False
    from Cons.prems(3) obtain e where e: "hm_get (agents w) p = Some e" "is_candidate p e" by auto
    then obtain wake0 where wake: "pending_execution_wake_cause e = Some wake0"
      by (auto simp: is_candidate_def)
    let ?w = "started p (heap w (root_scope_control w)) w"
    let ?l = "\<lparr>lease_path = p, lease_marker = next_marker w, lease_control = next_ctl w,
               wake_cause = Some wake0\<rparr>"
    have c: "\<not> is_root p" "execution_marker e = None" using e(2) by (simp_all add: is_candidate_def)
    have inv: "tree_inv ?w" using Cons.prems(1) e(1) c(1) False by (intro inv_start_child) simp_all
    have cand: "\<forall>q \<in> set ps. \<exists>e. hm_get (agents ?w) q = Some e \<and> is_candidate q e"
      using Cons.prems(2,3) by (auto simp: started_get)
    have count: "active_agent_count ?w = Suc (active_agent_count w)"
      using Cons.prems(1) e(1) c by (rule started_count)
    have cap: "descendant_capacity ?w = descendant_capacity w"
      by (simp add: descendant_capacity_def started_def with_entry_def)
    from Cons.IH [OF inv _ cand, of "acc @ [?l]"] Cons.prems(2) obtain w' leases where
      r: "reserve_loop ps ?w (acc @ [?l]) = Some (w', acc @ ?l # leases)" "tree_inv w'"
        "map lease_path leases = take (descendant_capacity ?w - active_agent_count ?w) ps"
        "served ?w w' leases" by auto
    have "set (map lease_path leases) \<subseteq> set ps" unfolding r(3) by (rule set_take_subset)
    then have notin: "p \<notin> set (map lease_path leases)" using Cons.prems(2) by auto
    have "served w w' (?l # leases)"
    proof -
      have "frame w w'" using r(4) started_frame by (auto simp: served_def intro: frame_trans)
      moreover have "hm_get (agents w') q = hm_get (agents w) q" if "q \<notin> set (map lease_path (?l # leases))" for q
        using r(4) that by (auto simp: served_def started_get)
      moreover have "\<exists>e. hm_get (agents w) (lease_path l) = Some e \<and> is_candidate (lease_path l) e \<and>
          hm_get (agents w') (lease_path l) = Some (start_execution (lease_marker l) (lease_control l) e) \<and>
          next_marker w \<le> lease_marker l \<and> next_ctl w \<le> lease_control l \<and>
          wake_cause l = pending_execution_wake_cause e" if "l \<in> set (?l # leases)" for l
      proof (cases "l = ?l")
        case True
        have "hm_get (agents w') p = hm_get (agents ?w) p"
          using r(4) notin by (simp add: served_def)
        with True e wake show ?thesis by (simp add: started_get)
      next
        case False
        with that have l: "l \<in> set leases" by simp
        with notin have "lease_path l \<noteq> p" by auto
        moreover have "next_marker w \<le> next_marker ?w" "next_ctl w \<le> next_ctl ?w"
          using started_frame by (simp_all add: frame_def)
        ultimately show ?thesis using r(4) l by (fastforce simp: served_def started_get)
      qed
      ultimately show ?thesis by (simp add: served_def)
    qed
    moreover have "take (descendant_capacity w - active_agent_count w) (p # ps) =
                   p # take (descendant_capacity ?w - active_agent_count ?w) ps"
      using False by (simp add: count cap take_Cons' Suc_diff_Suc)
    ultimately show ?thesis
      using False e wake r by (auto simp: reserve_one_eq)
  qed
qed

lemma reserve_spec:
  assumes "tree_inv w"
  shows "\<exists>w' leases. reserve_pending_triggered_executions_locked w = Some (w', leases) \<and> tree_inv w' \<and>
           map lease_path leases =
             (if tree_cancelled w then []
              else take (descendant_capacity w - active_agent_count w) (candidates w)) \<and>
           served w w' leases"
proof (cases "tree_cancelled w")
  case True
  with assms show ?thesis
    by (simp add: reserve_pending_triggered_executions_locked_def served_def)
next
  case False
  have d: "distinct (hm_keys (agents w))" using assms by (simp add: tree_inv_def)
  from reserve_loop_spec [OF assms distinct_candidates [OF d], of "[]"] set_candidates [OF d] False
  show ?thesis by (auto simp: reserve_pending_triggered_executions_locked_def)
qed

lemma schedule_spec:
  assumes "tree_inv w"
  shows "\<exists>w' leases. schedule_and_notify b w = Some (w', Ok leases) \<and> tree_inv w' \<and> served w w' leases"
proof (cases b)
  case True
  from reserve_spec [OF assms] obtain w' leases where
    r: "reserve_pending_triggered_executions_locked w = Some (w', leases)" "tree_inv w'" "served w w' leases"
    by blast
  have "served w (notify_activity w') leases"
    using r(3) by (simp add: served_def frame_def notify_activity_def)
  with True r show ?thesis by (auto simp: schedule_and_notify_def)
next
  case False
  moreover have "served w (notify_activity w) []"
    by (simp add: served_def frame_def notify_activity_def)
  ultimately show ?thesis using assms by (simp add: schedule_and_notify_def)
qed

text \<open>
  An agent wakes for the right reason: for the ready explicit task with the greatest
  generation if there is one, and for an owner continuation only if no explicit task, ready
  or not, is queued. A queued task that is not ready blocks both.
\<close>

theorem wake_prefers_newest_ready_task:
  "(case pending_execution_wake_cause e of
      Some (ExplicitTask i) \<Rightarrow>
        \<exists>n \<in> set (mailbox e). notice_id n = i \<and> is_ready n \<and>
          list_all (\<lambda>m. notice_generation m \<le> notice_generation n) (filter is_ready (mailbox e))
    | Some (OwnerResume r) \<Rightarrow>
        pending_owner_resume e = Some r \<and> list_all (\<lambda>n. \<not> trigger_turn n) (mailbox e)
    | None \<Rightarrow>
        list_all (\<lambda>n. \<not> is_ready n) (mailbox e) \<and>
        (list_ex trigger_turn (mailbox e) \<or> pending_owner_resume e = None))"
proof (cases "newest_ready (mailbox e) None")
  case None
  then have "\<forall>n \<in> set (mailbox e). \<not> is_ready n" by (simp add: newest_ready_None)
  then show ?thesis
    using None by (auto simp: pending_execution_wake_cause_def list_all_iff list_ex_iff split: option.splits)
next
  case (Some n)
  with newest_ready_spec [of None "mailbox e"] show ?thesis
    by (auto simp: pending_execution_wake_cause_def list_all_iff)
qed

end
