(* ===== verification/Agent_Keep.thy ===== *)
theory Agent_Keep
  imports Agent_Sched
begin

text \<open>
  Every operation of an agent tree returns and keeps the invariant: none panics, none waits for
  a lock its caller holds. One lemma per operation.
\<close>

section \<open>Changes of one entry\<close>

lemma entry_ok_of: "tree_inv w \<Longrightarrow> hm_get (agents w) p = Some e \<Longrightarrow> entry_ok e"
  by (simp add: tree_inv_def entries_ok_def)

lemma root_turn_marker:
  "tree_inv w \<Longrightarrow> hm_get (agents w) p = Some e \<Longrightarrow> is_root p \<Longrightarrow> execution_marker e = None \<Longrightarrow>
     pending_root_durable_turn w = None"
  by (cases "pending_root_durable_turn w") (auto simp: tree_inv_def root_turn_ok_def is_root_def root_path_def)

text \<open>An entry that keeps its execution marker may change whatever else it owns.\<close>

lemma inv_entry_kept:
  assumes "tree_inv w" and "hm_get (agents w) p = Some e" and "tame e (f e)"
    and "execution_marker (f e) = execution_marker e"
  shows "tree_inv (with_entry p f w)"
  using assms root_turn_marker by (intro inv_with_entry) auto

lemma tame_push:
  "\<not> has_notice i e \<Longrightarrow> length (mailbox e) < MAX_AGENT_MAILBOX_NOTICES \<Longrightarrow> tame e (push_notice i t r e)"
  by (auto simp: tame_def push_notice_def entry_ok_def has_notice_def list_ex_iff Let_def)

lemma promote_fields [simp]:
  "session_id (promote_triggers e) = session_id e" "status (promote_triggers e) = status e"
  "parent (promote_triggers e) = parent e" "spawn_order (promote_triggers e) = spawn_order e"
  "execution_marker (promote_triggers e) = execution_marker e"
  "entry_control (promote_triggers e) = entry_control e"
  "active_durable_turn (promote_triggers e) = active_durable_turn e"
  "awaiting_deferred_turn (promote_triggers e) = awaiting_deferred_turn e"
  "pending_deferred_release (promote_triggers e) = pending_deferred_release e"
  "length (mailbox (promote_triggers e)) = length (mailbox e)"
  "map notice_id (mailbox (promote_triggers e)) = map notice_id (mailbox e)"
  by (simp_all add: promote_triggers_def comp_def if_distrib [of notice_id])

lemma tame_promote: "tame e (promote_triggers e)"
  by (simp add: tame_def entry_ok_def)

lemma retain_fields [simp]:
  "session_id (retain_notices k e) = session_id e" "parent (retain_notices k e) = parent e"
  "spawn_order (retain_notices k e) = spawn_order e" "status (retain_notices k e) = status e"
  "entry_control (retain_notices k e) = entry_control e"
  "execution_marker (retain_notices k e) = execution_marker e"
  "active_durable_turn (retain_notices k e) = active_durable_turn e"
  "awaiting_deferred_turn (retain_notices k e) = awaiting_deferred_turn e"
  "pending_deferred_release (retain_notices k e) = pending_deferred_release e"
  "mailbox (retain_notices k e) = filter k (mailbox e)"
  "pending_owner_resume (retain_notices k e) = pending_owner_resume e"
  by (simp_all add: retain_notices_def Let_def)

lemma tame_retain: "tame e (retain_notices k e)"
proof -
  have "length (filter k (mailbox e)) \<le> length (mailbox e)" by simp
  then show ?thesis
    by (auto simp: tame_def entry_ok_def distinct_map_filter simp del: length_filter_le)
qed

lemma tame_trans: "tame e f \<Longrightarrow> tame f g \<Longrightarrow> tame e g"
  by (auto simp: tame_def)

lemma push_fields [simp]:
  "execution_marker (push_notice i t r e) = execution_marker e"
  "status (push_notice i t r e) = status e" "session_id (push_notice i t r e) = session_id e"
  by (simp_all add: push_notice_def Let_def)

lemma tame_release:
  "tame e (snd (project_deferred_owner_release h e t))"
  "execution_marker (snd (project_deferred_owner_release h e t)) = execution_marker e"
  by (auto simp: project_deferred_owner_release_def tame_def entry_ok_def split: option.splits)

lemma tame_resume:
  "tame e (snd (reconcile_current_owner_resume_request e r))"
  "tame e (snd (project_owner_resume_request e r))"
  "execution_marker (snd (reconcile_current_owner_resume_request e r)) = execution_marker e"
  "execution_marker (snd (project_owner_resume_request e r)) = execution_marker e"
  by (auto simp: reconcile_current_owner_resume_request_def project_owner_resume_request_def
                 tame_def entry_ok_def split: option.splits)

lemma tame_refl [simp]: "tame e e"
  by (simp add: tame_def)

section \<open>Leases\<close>

lemma inv_release_execution: "tree_inv w \<Longrightarrow> tree_inv (release_execution p mk w)"
proof -
  assume inv: "tree_inv w"
  let ?f = "\<lambda>e. e\<lparr>execution_marker := None, status := Interrupted, active_durable_turn := None,
                   awaiting_deferred_turn := None, pending_deferred_release := None\<rparr>"
  let ?u = "w\<lparr>pending_root_durable_turn := None\<rparr>"
  have inv': "tree_inv ?u" using inv by (rule inv_same_agents) (simp_all add: root_turn_ok_def)
  have t: "tame e (?f e)" for e by (auto simp: tame_def entry_ok_def)
  show ?thesis
  proof (cases "hm_get (agents w) p")
    case None
    with inv show ?thesis by (simp add: release_execution_def)
  next
    case (Some e)
    have "tree_inv (with_entry p ?f w)" if "\<not> is_root p"
      using inv Some t that by (intro inv_with_entry) auto
    moreover have "tree_inv ((with_entry p ?f w)\<lparr>pending_root_durable_turn := None\<rparr>)"
    proof -
      have "tree_inv (with_entry p ?f ?u)"
        using inv' Some t by (intro inv_with_entry) auto
      moreover have "with_entry p ?f ?u = (with_entry p ?f w)\<lparr>pending_root_durable_turn := None\<rparr>"
        by (cases w) (simp add: with_entry_def)
      ultimately show ?thesis by simp
    qed
    ultimately show ?thesis
      using inv Some by (auto simp: release_execution_def Let_def)
  qed
qed

lemma inv_lease_drop [simp]: "tree_inv w \<Longrightarrow> tree_inv (lease_drop l w)"
  by (simp add: lease_drop_def inv_release_execution)

lemma inv_mutate:
  assumes "tree_inv w"
    and "\<And>e. hm_get (agents w) p = Some e \<Longrightarrow> execution_marker e = Some mk \<Longrightarrow>
           tame e (f e) \<and> execution_marker (f e) = execution_marker e"
  shows "tree_inv (fst (mutate_execution w p mk f))"
  using assms
  by (auto simp: mutate_execution_def split: option.splits intro: inv_entry_kept)

lemma tame_status:
  "execution_marker e \<noteq> None \<Longrightarrow> tame e (e\<lparr>status := of_active st\<rparr>)"
  "execution_marker e \<noteq> None \<Longrightarrow> tame e (e\<lparr>status := of_active st, last_activity := a\<rparr>)"
  "tame e (e\<lparr>last_activity := a\<rparr>)"
  by (cases st; auto simp: tame_def entry_ok_def)+

lemma inv_lease_set_status: "tree_inv w \<Longrightarrow> tree_inv (fst (lease_set_status w l st))"
  unfolding lease_set_status_def by (rule inv_mutate) (auto intro: tame_status)

lemma inv_lease_set_activity: "tree_inv w \<Longrightarrow> tree_inv (fst (lease_set_activity w l a))"
  unfolding lease_set_activity_def by (rule inv_mutate) (auto intro: tame_status)

lemma inv_scope_mutate:
  assumes "tree_inv w" and "\<And>e. execution_marker e \<noteq> None \<Longrightarrow> tame e (f e) \<and> execution_marker (f e) = execution_marker e"
  shows "tree_inv (fst (scope_mutate w s f))"
  unfolding scope_mutate_def using assms inv_mutate [of w "scope_path s" "scope_marker s" f] by simp

lemma inv_scope_set:
  "tree_inv w \<Longrightarrow> tree_inv (fst (scope_set_status w s st))"
  "tree_inv w \<Longrightarrow> tree_inv (fst (scope_set_activity w s a))"
  "tree_inv w \<Longrightarrow> tree_inv (fst (scope_set_status_and_activity w s st a))"
  unfolding scope_set_status_def scope_set_activity_def scope_set_status_and_activity_def
  by (rule inv_scope_mutate; auto intro: tame_status)+

section \<open>New agents\<close>

lemma inv_alloc_control: "tree_inv w \<Longrightarrow> tree_inv (fst (alloc_control c w))"
  by (rule inv_same_agents) (auto simp: alloc_control_def)

lemma hm_insert_new: "hm_get m p = None \<Longrightarrow> hm_insert p e m = m @ [(p, e)]"
  by (simp add: hm_insert_def hm_contains_def)

lemma inv_insert_child:
  assumes inv: "tree_inv w" and v: "validate_child_registration_locked w q p s = Ok ()"
    and j: "join_path q t = Ok p" and i: "insert_child_locked w q p s a o0 = Ok (w', x)"
  shows "tree_inv w'"
proof -
  have v': "hm_contains (agents w) q" "hm_get (agents w) p = None" "\<not> session_registered w s"
    "length (agents w) < MAX_RETAINED_AGENTS" "active_agent_count w < descendant_capacity w"
    using v by (auto simp: validate_child_registration_locked_def hm_contains_def split: if_splits)
  have p: "valid_path p" "parent_path p = Some q" "\<not> is_root p"
    using join_path_child [OF inv v'(1) j] by simp_all
  from i obtain w1 order where o: "choose_spawn_order w o0 = Ok (w1, order)"
    and w': "w' = w1\<lparr>next_marker := Suc (next_marker w1),
        heap := (heap w1)(next_ctl w1 := inherit_effect_authority new_run_control
                                          (heap w1 (root_scope_control w1))),
        next_ctl := Suc (next_ctl w1),
        agents := hm_insert p (new_entry s (Some q) order PendingInit a (Some (next_marker w1)) (next_ctl w1) None)
                    (agents w1)\<rparr>"
    by (auto simp: insert_child_locked_def and_then_Ok_iff alloc_marker_def alloc_control_def Let_def)
  from choose_spawn_order_Ok [OF inv o] obtain n where w1: "w1 = w\<lparr>next_spawn_order := n\<rparr>"
    and n: "next_spawn_order w \<le> n" "order < n" "order \<noteq> 0"
    and u: "\<And>r f. hm_get (agents w) r = Some f \<Longrightarrow> spawn_order f \<noteq> order"
    by (metis agent_control.simps(2) agent_control.update_convs(2) agent_control.ext_inject)
  have scope: "root_scope_control w < next_ctl w" using inv by (simp add: tree_inv_def scope_ok_def)
  let ?e = "new_entry s (Some q) order PendingInit a (Some (next_marker w)) (next_ctl w) None"
  show ?thesis
  proof (rule inv_insert [OF inv, of _ p ?e])
    show "agents w' = agents w @ [(p, ?e)]"
      using v'(2) by (simp add: w' w1 hm_insert_new)
    show "entry_ok ?e" by (simp add: entry_ok_def new_entry_def)
    show "placed w' p ?e"
      using p n scope by (auto simp: placed_def new_entry_def w' w1)
    show "session_id f \<noteq> session_id ?e \<and> spawn_order f \<noteq> spawn_order ?e" if "hm_get (agents w) r = Some f" for r f
      using that not_registered [OF v'(3)] u by (auto simp: new_entry_def)
  qed (use v' p n in \<open>simp_all add: w' w1 new_entry_def\<close>)
qed

lemma inv_register_child: "tree_inv w \<Longrightarrow> tree_inv (fst (register_child_with_order w q t s a o0))"
  by (auto simp: register_child_with_order_def and_then_def split: sum.splits prod.splits
           intro: inv_insert_child)

lemma inv_commit_spawn: "tree_inv w \<Longrightarrow> tree_inv (fst (commit_spawn w c q t s a r))"
  by (auto simp: commit_spawn_def and_then_def split: sum.splits prod.splits intro: inv_insert_child)

lemma inv_restore_child:
  assumes inv: "tree_inv w"
  shows "tree_inv (fst (restore_inactive_child_with_order w q t s st a o0))"
proof (cases "snd (restore_inactive_child_with_order w q t s st a o0)")
  case (Inl e)
  then have "fst (restore_inactive_child_with_order w q t s st a o0) = w"
    by (auto simp: restore_inactive_child_with_order_def alloc_control_def Let_def
             split: sum.splits if_splits prod.splits)
  with inv show ?thesis by simp
next
  case (Inr x)
  then obtain p w1 order where j: "join_path q t = Ok p" and c: "hm_contains (agents w) q"
    and new: "hm_get (agents w) p = None" and s: "\<not> session_registered w s"
    and room: "length (agents w) < MAX_RETAINED_AGENTS"
    and o: "choose_spawn_order w o0 = Ok (w1, order)"
    by (auto simp: restore_inactive_child_with_order_def hm_contains_def not_le
             split: sum.splits if_splits prod.splits)
  have p: "valid_path p" "parent_path p = Some q" "\<not> is_root p"
    using join_path_child [OF inv c j] by simp_all
  from choose_spawn_order_Ok [OF inv o] obtain n where w1: "w1 = w\<lparr>next_spawn_order := n\<rparr>"
    and n: "next_spawn_order w \<le> n" "order < n" "order \<noteq> 0"
    and u: "\<And>r f. hm_get (agents w) r = Some f \<Longrightarrow> spawn_order f \<noteq> order"
    by (metis agent_control.simps(2) agent_control.update_convs(2) agent_control.ext_inject)
  have scope: "root_scope_control w < next_ctl w" using inv by (simp add: tree_inv_def scope_ok_def)
  let ?e = "new_entry s (Some q) order (of_inactive st) a None (next_ctl w)
              (case st of InactiveAwaiting t \<Rightarrow> Some t | _ \<Rightarrow> None)"
  let ?w = "w\<lparr>next_spawn_order := n,
      heap := (heap w)(next_ctl w := inherit_effect_authority new_run_control (heap w (root_scope_control w))),
      next_ctl := Suc (next_ctl w), agents := agents w @ [(p, ?e)]\<rparr>"
  have "fst (restore_inactive_child_with_order w q t s st a o0) = notify_activity ?w"
    using j c new s room o
    by (simp add: restore_inactive_child_with_order_def alloc_control_def Let_def w1 hm_insert_new
                  hm_contains_def)
  moreover have "tree_inv ?w"
  proof (rule inv_insert [OF inv, of _ p ?e])
    show "entry_ok ?e" by (cases st) (simp_all add: entry_ok_def new_entry_def)
    show "placed ?w p ?e" using p n scope by (auto simp: placed_def new_entry_def)
    show "session_id f \<noteq> session_id ?e \<and> spawn_order f \<noteq> spawn_order ?e" if "hm_get (agents w) r = Some f" for r f
      using that not_registered [OF s] u by (auto simp: new_entry_def)
  qed (use new room p n in \<open>simp_all add: new_entry_def\<close>)
  ultimately show ?thesis by simp
qed

lemma inv_try_acquire: "tree_inv w \<Longrightarrow> tree_inv (fst (try_acquire_execution w p))"
proof -
  assume inv: "tree_inv w"
  let ?rc = "heap w (root_scope_control w)"
  have alloc: "tree_inv (fst (alloc_control (root_scope_control w) w))"
    using inv by (rule inv_alloc_control)
  show ?thesis
  proof (cases "snd (try_acquire_execution w p)")
    case (Inl e)
    then have "fst (try_acquire_execution w p) = w \<or>
        fst (try_acquire_execution w p) = fst (alloc_control (root_scope_control w) w)"
      by (auto simp: try_acquire_execution_def alloc_control_def alloc_marker_def Let_def
               split: option.splits if_splits)
    with inv alloc show ?thesis by auto
  next
    case (Inr l)
    then obtain e where e: "hm_get (agents w) p = Some e" "\<not> is_root p" "active_agent_count w < descendant_capacity w"
      and w': "fst (try_acquire_execution w p) = notify_activity (started p ?rc w)"
      by (cases w) (auto simp: try_acquire_execution_def alloc_control_def alloc_marker_def Let_def
               started_def with_entry_def tree_cancelled_def active_agent_count_def descendant_capacity_def
               split: option.splits if_splits)
    with inv_start_child [OF inv e] show ?thesis by simp
  qed
qed

section \<open>New root turns\<close>

text \<open>A control the surface may hand in as a task scope: no descendant runs on it.\<close>

definition surface_control :: "agent_control \<Rightarrow> ctl_id \<Rightarrow> bool" where
  "surface_control w c \<longleftrightarrow>
     c < next_ctl w \<and>
     (\<forall>p e. hm_get (agents w) p = Some e \<longrightarrow> \<not> is_root p \<longrightarrow> entry_control e \<noteq> c)"

lemma install_router:
  "install_terminal_router env rc r = Ok rc' \<Longrightarrow> terminal_router rc' = Some r"
  by (auto simp: install_terminal_router_def split: option.splits if_splits)

lemma install_new:
  "install_terminal_router env (inherit_effect_authority new_run_control rc) r =
     Ok ((inherit_effect_authority new_run_control rc)\<lparr>terminal_router := Some r\<rparr>)"
  by (simp add: install_terminal_router_def)

lemma get_root:
  assumes "tree_inv w"
  obtains e where "hm_get (agents w) root_path = Some e"
  using assms by (auto simp: tree_inv_def hm_contains_def)

lemma is_root_root_path [simp]: "is_root root_path"
  by (simp add: is_root_def root_path_def)

lemma inv_start_root:
  assumes inv: "tree_inv w" and c: "surface_control w c"
    and ag: "agents w' = hm_modify root_path (start_execution (next_marker w) (next_ctl w)) (agents w)"
    and same: "max_concurrent_agents w' = max_concurrent_agents w"
      "next_spawn_order w' = next_spawn_order w" "tree_router w' = tree_router w"
      "pending_capacity_reservations w' = pending_capacity_reservations w"
      "root_scope_control w' = c" "next_ctl w' = Suc (next_ctl w)" "next_marker w' = Suc (next_marker w)"
    and h: "\<And>i. i < next_ctl w \<Longrightarrow> i \<noteq> c \<Longrightarrow> heap w' i = heap w i"
      "terminal_router (heap w' c) = Some (tree_router w)"
      "terminal_router (heap w' (next_ctl w)) = Some (tree_router w)"
  shows "tree_inv w'"
proof -
  have d: "distinct (hm_keys (agents w))" using inv by (simp add: tree_inv_def)
  obtain e where e: "hm_get (agents w) root_path = Some e" using inv by (rule get_root)
  have old: "entry_ok f" "placed w q f" if "hm_get (agents w) q = Some f" for q f
    using inv that by (auto simp: tree_inv_def entries_ok_def)
  let ?e = "start_execution (next_marker w) (next_ctl w) e"
  show ?thesis
  proof (rule inv_update [OF inv e, of _ ?e])
    show "agents w' = hm_modify root_path (\<lambda>_. ?e) (agents w)"
      using hm_modify_const [OF d e] ag by simp
    show "terminal_router (heap w' (entry_control g)) = terminal_router (heap w (entry_control g)) \<and>
        entry_control g \<noteq> root_scope_control w'" if "hm_get (agents w) q = Some g" "q \<noteq> root_path" for q g
      using old(2) [OF that(1)] that c h(1) [of "entry_control g"] same(5)
      by (auto simp: placed_def surface_control_def is_root_def root_path_def)
    show "moves_to w e ?e" by (simp add: moves_to_def start_execution_def)
    show "entry_ok ?e" using old(1) [OF e] by (rule entry_ok_start)
    show "placed w' root_path ?e"
      using old(2) [OF e] c h(3) same by (auto simp: placed_def start_execution_def surface_control_def)
    show "root_turn_ok w'" using e by (simp add: root_turn_ok_def ag start_execution_def)
    show "scope_ok w'" using c h(2) same by (auto simp: scope_ok_def surface_control_def)
  qed (use same in simp_all)
qed

lemma inv_surface_install:
  assumes "tree_inv w" and "surface_control w c" and "terminal_router rc = Some (tree_router w)"
  shows "tree_inv (w\<lparr>heap := (heap w)(c := rc)\<rparr>)"
proof -
  have "entries_ok (w\<lparr>heap := (heap w)(c := rc)\<rparr>)"
    using assms unfolding tree_inv_def entries_ok_def placed_def surface_control_def by auto
  with assms show ?thesis
    by (auto simp: tree_inv_def root_turn_ok_def scope_ok_def active_agent_count_def descendant_capacity_def)
qed

lemma surface_alloc: "surface_control w c \<Longrightarrow> surface_control (fst (alloc_control s w)) c"
  by (auto simp: surface_control_def alloc_control_def)

lemma inv_acquire_root:
  assumes inv: "tree_inv w" and c: "surface_control w c"
  shows "\<exists>w' r. try_acquire_root_execution env w c = Some (w', r) \<and> tree_inv w'"
proof -
  obtain root where root: "hm_get (agents w) root_path = Some root" using inv by (rule get_root)
  have lt: "c < next_ctl w" using c by (simp add: surface_control_def)
  let ?w1 = "fst (alloc_control c w)"
  have w1: "tree_inv ?w1" "surface_control ?w1 c"
    using inv c by (simp_all add: inv_alloc_control surface_alloc)
  show ?thesis
  proof (cases "tree_cancelled w \<or> execution_marker root \<noteq> None \<or> is_cancelled (heap w c) \<or>
               success_is_sealed (heap w c) \<or> root_admission_stop_is_sealed (heap w c)")
    case True
    with root inv show ?thesis by (auto simp: try_acquire_root_execution_def)
  next
    case False
    show ?thesis
    proof (cases "install_terminal_router env (heap w c) (tree_router w)")
      case (Inl x)
      with False root w1(1) lt show ?thesis
        by (simp add: try_acquire_root_execution_def install_root_terminal_router_def alloc_control_def)
    next
      case (Inr rc)
      let ?new = "(inherit_effect_authority new_run_control (heap w c))\<lparr>terminal_router := Some (tree_router w)\<rparr>"
      let ?w = "w\<lparr>heap := (heap w)(next_ctl w := inherit_effect_authority new_run_control (heap w c),
                                   c := rc, next_ctl w := ?new),
                  next_ctl := Suc (next_ctl w), next_marker := Suc (next_marker w),
                  root_scope_control := c, pending_root_durable_turn := None,
                  agents := hm_modify root_path (start_execution (next_marker w) (next_ctl w)) (agents w)\<rparr>"
      have rc: "wake rc = wake (heap w c)" "terminal_router rc = Some (tree_router w)"
        using Inr by (auto simp: install_terminal_router_def split: option.splits if_splits)
      have "try_acquire_root_execution env w c =
          Some (notify_activity ?w, Ok (child_lease root_path (next_marker w) (next_ctl w)))"
        using False root Inr lt rc(1)
        by (cases w)
           (simp add: try_acquire_root_execution_def install_root_terminal_router_def alloc_control_def
                      alloc_marker_def install_new is_cancelled_def with_entry_def)
      moreover have "tree_inv ?w"
        using lt rc(2) by (intro inv_start_root [OF inv c]) simp_all
      ultimately show ?thesis by simp
    qed
  qed
qed

lemma inv_continue_root:
  assumes inv: "tree_inv w"
  shows "tree_inv (fst (try_acquire_root_continuation env w c))"
proof (cases "\<exists>l. snd (try_acquire_root_continuation env w c) = Ok (ContinuationAdmitted l)")
  case False
  then have "fst (try_acquire_root_continuation env w c) = w"
    by (auto simp: try_acquire_root_continuation_def install_root_terminal_router_def alloc_control_def
                   alloc_marker_def install_new Let_def split: option.splits if_splits)
  with inv show ?thesis by simp
next
  case True
  then have c: "c = root_scope_control w"
    by (auto simp: try_acquire_root_continuation_def same_owner_def split: if_splits)
  obtain root where root: "hm_get (agents w) root_path = Some root" using inv by (rule get_root)
  let ?new = "(inherit_effect_authority new_run_control (heap w c))\<lparr>terminal_router := Some (tree_router w)\<rparr>"
  let ?w = "w\<lparr>heap := (heap w)(next_ctl w := ?new),
              next_ctl := Suc (next_ctl w), next_marker := Suc (next_marker w),
              agents := hm_modify root_path (start_execution (next_marker w) (next_ctl w)) (agents w)\<rparr>"
  have "fst (try_acquire_root_continuation env w c) = notify_activity ?w"
    using True root c
    by (cases w)
       (auto simp: try_acquire_root_continuation_def install_root_terminal_router_def alloc_control_def
                   alloc_marker_def install_new with_entry_def same_owner_def Let_def split: if_splits)
  moreover have "surface_control w c"
    using inv c by (auto simp: surface_control_def tree_inv_def scope_ok_def entries_ok_def placed_def)
  then have "tree_inv ?w"
    using inv c by (intro inv_start_root [OF inv, of c]) (auto simp: surface_control_def tree_inv_def scope_ok_def)
  ultimately show ?thesis by simp
qed

section \<open>Admission and completion\<close>

lemma validated_scope:
  "validate_execution_scope_locked w s p = Ok u \<Longrightarrow>
     \<exists>e. hm_get (agents w) p = Some e \<and> execution_marker e = Some (scope_marker s) \<and> scope_path s = p"
  by (auto simp: validate_execution_scope_locked_def split: option.splits if_splits)

lemma tame_admit:
  "execution_marker e \<noteq> None \<Longrightarrow> tame e (admit t e)"
  "execution_marker e \<noteq> None \<Longrightarrow> tame e ((admit t e)\<lparr>pending_owner_resume := r, last_activity := a\<rparr>)"
  "execution_marker (admit t e) = execution_marker e"
  by (auto simp: tame_def admit_def entry_ok_def)

lemma keep_schedule:
  "tree_inv w \<Longrightarrow> \<exists>w' r. schedule_and_notify b w = Some (w', r) \<and> tree_inv w'"
  using schedule_spec by blast

lemma inv_mark_admitted:
  assumes inv: "tree_inv w"
  shows "\<exists>w' r. mark_execution_admitted w s t a d = Some (w', r) \<and> tree_inv w'"
proof (cases "\<exists>q. d = Ok q \<and> scope_alive s \<and> validate_execution_scope_locked w s (scope_path s) = Ok ()")
  case False
  with inv show ?thesis
    by (auto simp: mark_execution_admitted_def split: sum.splits)
next
  case True
  then obtain q where q: "d = Ok q" "scope_alive s" "validate_execution_scope_locked w s (scope_path s) = Ok ()" by blast
  from validated_scope [OF q(3)] obtain e where
    e: "hm_get (agents w) (scope_path s) = Some e" "execution_marker e \<noteq> None" by auto
  have "tree_inv (with_entry (scope_path s)
           (\<lambda>e. (admit t e)\<lparr>pending_owner_resume := q, last_activity := a\<rparr>) w)"
    using inv e by (intro inv_entry_kept) (auto simp: tame_admit)
  from keep_schedule [OF this] q show ?thesis
    by (simp add: mark_execution_admitted_def Let_def)
qed

lemma inv_publish_root: "tree_inv w \<Longrightarrow> tree_inv (fst (publish_root_execution_plan w s t r))"
proof -
  assume inv: "tree_inv w"
  have "tree_inv (w\<lparr>pending_root_durable_turn := x\<rparr>)"
    if "is_root (scope_path s)" "validate_execution_scope_locked w s (scope_path s) = Ok u" for x u
  proof (rule inv_same_agents [OF inv])
    from validated_scope [OF that(2)] that(1)
    show "pending_root_durable_turn (w\<lparr>pending_root_durable_turn := x\<rparr>) = pending_root_durable_turn w \<or>
          root_turn_ok (w\<lparr>pending_root_durable_turn := x\<rparr>)"
      by (auto simp: root_turn_ok_def is_root_def root_path_def)
  qed simp_all
  with inv show ?thesis
    by (auto simp: publish_root_execution_plan_def split: sum.splits option.splits)
qed

lemma inv_drop_root_turn: "tree_inv w \<Longrightarrow> tree_inv (w\<lparr>pending_root_durable_turn := None\<rparr>)"
  by (erule inv_same_agents) (simp_all add: root_turn_ok_def)

lemma inv_mark_root_admitted:
  assumes inv: "tree_inv w"
  shows "\<exists>w' r. mark_root_execution_admitted w s t v = Some (w', r) \<and> tree_inv w'"
proof (cases "is_root (scope_path s) \<and> scope_alive s \<and> \<not> tree_cancelled w \<and>
              validate_execution_scope_locked w s (scope_path s) = Ok () \<and>
              pending_root_durable_turn w = Some (t, v)")
  case False
  with inv show ?thesis
    by (auto simp: mark_root_execution_admitted_def split: sum.splits)
next
  case True
  from True validated_scope [of w s "scope_path s" "()"] obtain e where
    e: "hm_get (agents w) (scope_path s) = Some e" "execution_marker e \<noteq> None" by auto
  let ?w = "w\<lparr>pending_root_durable_turn := None\<rparr>"
  have "tree_inv (with_entry (scope_path s) (admit t) ?w)"
    using inv_drop_root_turn [OF inv] e by (intro inv_entry_kept) (auto simp: tame_admit)
  from keep_schedule [OF this] True show ?thesis
    by (simp add: mark_root_execution_admitted_def Let_def)
qed

lemma tame_completed: "tame e (completed_entry st a e)"
  by (cases st) (auto simp: tame_def entry_ok_def completed_entry_def Let_def)

lemma inv_finish_root:
  assumes inv: "tree_inv w" and e: "hm_get (agents w) p = Some e" and t: "tame e (f e)"
  shows "tree_inv (if is_root p then (with_entry p f w)\<lparr>pending_root_durable_turn := None\<rparr>
                   else with_entry p f w)"
proof (cases "is_root p")
  case False
  with assms show ?thesis by (auto intro: inv_with_entry)
next
  case True
  have "tree_inv (with_entry p f (w\<lparr>pending_root_durable_turn := None\<rparr>))"
    using inv_drop_root_turn [OF inv] e t by (intro inv_with_entry) auto
  moreover have "with_entry p f (w\<lparr>pending_root_durable_turn := None\<rparr>) =
                 (with_entry p f w)\<lparr>pending_root_durable_turn := None\<rparr>"
    by (cases w) (simp add: with_entry_def)
  ultimately show ?thesis using True by simp
qed

lemma inv_complete:
  assumes inv: "tree_inv w"
  shows "\<exists>w' r. complete_execution w l st a = Some (w', r) \<and> tree_inv w'"
proof (cases "\<exists>e. hm_get (agents w) (lease_path l) = Some e \<and> execution_marker e = Some (lease_marker l) \<and>
                 \<not> (case st of InactiveAwaiting t \<Rightarrow> active_durable_turn e \<noteq> Some t | _ \<Rightarrow> False)")
  case False
  with inv show ?thesis by (fastforce simp: complete_execution_def Let_def split: option.splits)
next
  case True
  then obtain e where e: "hm_get (agents w) (lease_path l) = Some e"
    "execution_marker e = Some (lease_marker l)"
    "\<not> (case st of InactiveAwaiting t \<Rightarrow> active_durable_turn e \<noteq> Some t | _ \<Rightarrow> False)" by blast
  let ?w = "if is_root (lease_path l)
            then (with_entry (lease_path l) (completed_entry st a) w)\<lparr>pending_root_durable_turn := None\<rparr>
            else with_entry (lease_path l) (completed_entry st a) w"
  have "tree_inv ?w" using inv e(1) tame_completed by (rule inv_finish_root)
  from keep_schedule [OF this, of "\<not> tree_cancelled ?w"] obtain w' r where
    "schedule_and_notify (\<not> tree_cancelled ?w) ?w = Some (w', r)" "tree_inv w'" by blast
  with e show ?thesis by (simp add: complete_execution_def Let_def)
qed

end
