(* ===== verification/Agent_Keep_Mail.thy ===== *)
theory Agent_Keep_Mail
  imports Agent_Keep
begin

text \<open>
  The remaining operations of an agent tree keep the invariant and return: executions that
  never started, cancellations, and everything that writes a mailbox.
\<close>

section \<open>Executions that end without a turn\<close>

lemma tame_idle:
  "st \<noteq> AwaitingDescendants \<Longrightarrow>
     tame e (e\<lparr>status := st, last_activity := a, execution_marker := None, active_durable_turn := None,
               awaiting_deferred_turn := None, pending_deferred_release := None\<rparr>)"
  by (auto simp: tame_def entry_ok_def)

lemma tame_drop_wake: "tame e (drop_wake k e)" "execution_marker (drop_wake k e) = execution_marker e"
  by (auto simp: drop_wake_def tame_retain split: agent_execution_wake_cause.splits)
     (auto simp: tame_def entry_ok_def)

text \<open>The tree after the control of a descendant was superseded.\<close>

lemma superseded_child:
  assumes inv: "tree_inv w" and e: "hm_get (agents w) p = Some e" and p: "\<not> is_root p"
  obtains w1 where "supersede_locked env (entry_control e) w = Some w1" "tree_inv w1"
    "agents w1 = agents w" "root_scope_control w1 = root_scope_control w"
    "next_ctl w1 = next_ctl w" "terminal_router (heap w1 (entry_control e)) = None"
proof
  let ?c = "entry_control e"
  let ?w = "w\<lparr>heap := (heap w)(?c := fst (request_cancel_local (heap w ?c) Superseded))\<rparr>"
  have r: "terminal_router (heap w ?c) = None" using inv e p by (rule child_router)
  then show "supersede_locked env ?c w = Some ?w" by (rule supersede_child)
  show "tree_inv ?w" using inv by (rule inv_heap_upd) simp
  show "terminal_router (heap ?w ?c) = None" using r by simp
qed simp_all

lemma inv_retire:
  assumes inv: "tree_inv w"
  shows "\<exists>w' r. retire_resolved_wake_execution env w l a = Some (w', r) \<and> tree_inv w'"
proof (cases "\<not> is_root (lease_path l) \<and> (\<exists>k e. wake_cause l = Some k \<and>
                hm_get (agents w) (lease_path l) = Some e \<and> execution_marker e = Some (lease_marker l))")
  case False
  with inv show ?thesis
    by (fastforce simp: retire_resolved_wake_execution_def Let_def split: option.splits)
next
  case True
  then obtain k e where e: "\<not> is_root (lease_path l)" "wake_cause l = Some k"
    "hm_get (agents w) (lease_path l) = Some e" "execution_marker e = Some (lease_marker l)" by blast
  obtain w1 where w1: "supersede_locked env (entry_control e) w = Some w1" "tree_inv w1" "agents w1 = agents w"
    using inv e(3,1) by (rule superseded_child)
  let ?f = "\<lambda>e. (drop_wake k e)\<lparr>status := Completed None, last_activity := a, execution_marker := None,
               active_durable_turn := None, awaiting_deferred_turn := None, pending_deferred_release := None\<rparr>"
  have "tame e (?f e)" by (rule tame_trans [OF tame_drop_wake(1) tame_idle]) simp
  then have "tree_inv (with_entry (lease_path l) ?f w1)"
    using w1 e by (intro inv_with_entry) auto
  from keep_schedule [OF this, of "\<not> tree_cancelled (with_entry (lease_path l) ?f w1)"] e w1
  show ?thesis by (auto simp: retire_resolved_wake_execution_def Let_def)
qed

lemma inv_release_unsettled:
  assumes inv: "tree_inv w"
  shows "\<exists>w' r. release_unsettled_trigger_execution env w l a = Some (w', r) \<and> tree_inv w'"
proof (cases "\<not> is_root (lease_path l) \<and> (\<exists>e.
                hm_get (agents w) (lease_path l) = Some e \<and> execution_marker e = Some (lease_marker l))")
  case False
  with inv show ?thesis
    by (fastforce simp: release_unsettled_trigger_execution_def Let_def split: option.splits)
next
  case True
  then obtain e where e: "\<not> is_root (lease_path l)"
    "hm_get (agents w) (lease_path l) = Some e" "execution_marker e = Some (lease_marker l)" by blast
  obtain w1 where w1: "supersede_locked env (entry_control e) w = Some w1" "tree_inv w1" "agents w1 = agents w"
    using inv e(2,1) by (rule superseded_child)
  let ?f = "\<lambda>e. e\<lparr>status := PendingInit, last_activity := a, execution_marker := None,
               active_durable_turn := None, awaiting_deferred_turn := None, pending_deferred_release := None\<rparr>"
  have "tree_inv (with_entry (lease_path l) ?f w1)"
    using w1 e by (intro inv_with_entry [where e = e] tame_idle) auto
  with e w1 show ?thesis by (simp add: release_unsettled_trigger_execution_def Let_def)
qed

lemma inv_rollback:
  assumes inv: "tree_inv w"
  shows "\<exists>w' r. rollback_child_registration env w l s = Some (w', r) \<and> tree_inv w'"
proof (cases "hm_get (agents w) (lease_path l)")
  case None
  with inv show ?thesis by (simp add: rollback_child_registration_def Let_def)
next
  case (Some e)
  show ?thesis
  proof (cases "is_root (lease_path l)")
    case True
    with inv show ?thesis by (simp add: rollback_child_registration_def Let_def)
  next
    case False
    let ?w = "w\<lparr>agents := hm_remove (lease_path l) (agents w)\<rparr>"
    let ?c = "entry_control e"
    have "terminal_router (heap ?w ?c) = None" using child_router [OF inv Some False] by simp
    from supersede_child [OF this] have
      s: "supersede_locked env ?c ?w =
        Some (?w\<lparr>heap := (heap w)(?c := fst (request_cancel_local (heap w ?c) Superseded))\<rparr>)" by simp
    have "tree_inv (?w\<lparr>heap := (heap ?w)(?c := fst (request_cancel_local (heap w ?c) Superseded))\<rparr>)"
      using inv_remove [OF inv False] by (rule inv_heap_upd) simp
    with inv Some False s show ?thesis
      by (simp add: rollback_child_registration_def Let_def)
  qed
qed

section \<open>Cancellation\<close>

lemma inv_cancel_root: "tree_inv w \<Longrightarrow> tree_inv (fst (cancel_root_execution_at_scope_control w c x b))"
proof -
  assume inv: "tree_inv w"
  have "tree_inv (w\<lparr>heap := (heap w)(i := fst (request_cancel_local (heap w i) x))\<rparr>)" for i x
    using inv by (rule inv_heap_upd) simp
  with inv show ?thesis
    by (auto simp: cancel_root_execution_at_scope_control_def Let_def case_prod_beta
             split: option.splits run_cancel_outcome.splits)
qed

lemma tame_clear:
  "tame e (clear_cancelled_active_generation_state e)"
  "execution_marker (clear_cancelled_active_generation_state e) = execution_marker e"
  by (auto simp: tame_def entry_ok_def clear_cancelled_active_generation_state_def)

lemma inv_interrupt: "tree_inv w \<Longrightarrow> tree_inv (fst (commit_and_interrupt_captured w s t r))"
proof -
  assume inv: "tree_inv w"
  have h: "tree_inv (w\<lparr>heap := (heap w)(i := fst (commit_cancel_local (heap w i) x y))\<rparr>)" for i x and y :: "(unit, agent_control_error) result"
    using inv by (rule inv_heap_upd) simp
  have "tree_inv (with_entry p clear_cancelled_active_generation_state
          (w\<lparr>heap := (heap w)(i := fst (commit_cancel_local (heap w i) x y))\<rparr>))"
    if "hm_get (agents w) p = Some e" for p e i x and y :: "(unit, agent_control_error) result"
    using h [of i x y] that by (intro inv_entry_kept) (auto simp: tame_clear)
  with inv h show ?thesis
    by (auto simp: commit_and_interrupt_captured_def Let_def split: sum.splits option.splits prod.splits)
       (metis fst_conv)+
qed

lemma inv_terminal_begin: "tree_inv w \<Longrightarrow> tree_inv (fst (terminal_cancel_begin w p))"
proof -
  assume inv: "tree_inv w"
  show ?thesis
  proof (cases "hm_get (agents w) p")
    case None
    with inv show ?thesis by (simp add: terminal_cancel_begin_def)
  next
    case (Some e)
    let ?w = "w\<lparr>heap := (heap w)(entry_control e := fst (request_cancel_local (heap w (entry_control e)) Superseded))\<rparr>"
    have h: "tree_inv ?w" using inv by (rule inv_heap_upd) simp
    have "tree_inv (with_entry p (\<lambda>_. e') ?w)"
      if "tame e e'" "execution_marker e' = execution_marker e" for e'
      using h Some that by (intro inv_entry_kept) auto
    moreover have "tame e (if b then (clear_cancelled_active_generation_state e)\<lparr>trigger_admission_epoch := x, trigger_purge_pending := y\<rparr>
        else (clear_cancelled_active_generation_state e)\<lparr>trigger_purge_pending := y\<rparr>)" for b x y
      by (auto simp: tame_def entry_ok_def clear_cancelled_active_generation_state_def)
    ultimately show ?thesis
      using Some
      by (auto simp: terminal_cancel_begin_def Let_def case_prod_beta tame_def entry_ok_def
                     clear_cancelled_active_generation_state_def)
  qed
qed

lemma inv_terminal_purge: "tree_inv w \<Longrightarrow> tree_inv (fst (terminal_cancel_purge w p g))"
proof -
  assume inv: "tree_inv w"
  have "tame e (retain_notices k (e\<lparr>pending_owner_resume := r, trigger_purge_pending := n\<rparr>))" for e k r n
    by (rule tame_trans [OF _ tame_retain]) (auto simp: tame_def entry_ok_def)
  with inv show ?thesis
    by (auto simp: terminal_cancel_purge_def split: option.splits intro!: inv_entry_kept)
qed

section \<open>Mailboxes\<close>

lemma inv_restore_mail: "tree_inv w \<Longrightarrow> tree_inv (fst (restore_pending_mail w p i b))"
  by (auto simp: restore_pending_mail_def not_le tame_push split: option.splits intro!: inv_entry_kept)

lemma inv_restore_resume: "tree_inv w \<Longrightarrow> tree_inv (fst (restore_pending_owner_resume w p r))"
  by (auto simp: restore_pending_owner_resume_def tame_def entry_ok_def split: option.splits
           intro!: inv_entry_kept)

lemma keep_replaced:
  assumes "tree_inv w" and "hm_get (agents w) p = Some e" and "tame e e'"
    and "execution_marker e' = execution_marker e"
  shows "\<exists>w' r. schedule_and_notify b (with_entry p (\<lambda>_. e') w) = Some (w', r) \<and> tree_inv w'"
  by (rule keep_schedule, rule inv_entry_kept) (use assms in auto)

lemma inv_restore_current: 
  assumes inv: "tree_inv w"
  shows "\<exists>w' r. restore_current_owner_resume w p d = Some (w', r) \<and> tree_inv w'"
proof (cases "\<exists>q e. d = Ok q \<and> hm_get (agents w) p = Some e")
  case False
  with inv show ?thesis
    by (auto simp: restore_current_owner_resume_def split: sum.splits option.splits)
next
  case True
  then obtain q e where q: "d = Ok q" "hm_get (agents w) p = Some e" by blast
  have "tame e (snd (reconcile_current_owner_resume_request e q))" by (rule tame_resume)
  from keep_replaced [OF inv q(2) this tame_resume(3)] q show ?thesis
    by (simp add: restore_current_owner_resume_def Let_def case_prod_beta)
qed

lemma inv_restore_released:
  assumes inv: "tree_inv w"
  shows "\<exists>w' r. restore_released_owner_wake w p t d = Some (w', r) \<and> tree_inv w'"
proof (cases "\<exists>q e. d = Ok q \<and> hm_get (agents w) p = Some e")
  case False
  with inv show ?thesis
    by (auto simp: restore_released_owner_wake_def split: sum.splits option.splits)
next
  case True
  then obtain q e where q: "d = Ok q" "hm_get (agents w) p = Some e" by blast
  let ?e2 = "snd (reconcile_current_owner_resume_request (snd (project_deferred_owner_release (heap w) e t)) q)"
  let ?b = "fst (project_deferred_owner_release (heap w) e t)"
  have t2: "tame e ?e2" by (rule tame_trans [OF tame_release(1) tame_resume(1)])
  have "tame e (if ?b then promote_triggers ?e2 else ?e2)"
    using t2 tame_trans [OF t2 tame_promote] by simp
  moreover have "execution_marker (if ?b then promote_triggers ?e2 else ?e2) = execution_marker e"
    by (simp add: tame_resume tame_release)
  ultimately show ?thesis
    using keep_replaced [OF inv q(2)] q by (simp add: restore_released_owner_wake_def Let_def case_prod_beta)
qed

lemma inv_mail_begin: "tree_inv w \<Longrightarrow> tree_inv (fst (mail_begin w a p t c x))"
proof -
  assume inv: "tree_inv w"
  let ?w = "w\<lparr>pending_capacity_reservations := pending_capacity_reservations w + 1\<rparr>"
  have "tree_inv ?w" if "active_agent_count w < descendant_capacity w"
    using inv by (rule inv_same_agents) (use that in \<open>simp_all add: active_agent_count_def descendant_capacity_def\<close>)
  with inv show ?thesis
    by (auto simp: mail_begin_def Let_def split: sum.splits option.splits)
qed

lemma inv_release_reservation: "tree_inv w \<Longrightarrow> tree_inv (release_reservation t w)"
  by (auto simp: release_reservation_def intro: inv_same_agents)

lemma deliver_keeps:
  "tame e (snd (deliver h t r c m e)) \<and> execution_marker (snd (deliver h t r c m e)) = execution_marker e"
proof -
  define e1 where "e1 = (if c then snd (project_deferred_owner_release h e r) else e)"
  define e2 where "e2 = (if \<not> has_notice (commit_history_item_id m) e1 \<and>
                            length (mailbox e1) < MAX_AGENT_MAILBOX_NOTICES
                then push_notice (commit_history_item_id m) t (schedule_turn m) e1 else e1)"
  define e3 where "e3 = (if c \<and> fst (project_deferred_owner_release h e r) then promote_triggers e2 else e2)"
  have 1: "tame e e1" "execution_marker e1 = execution_marker e"
    by (simp_all add: e1_def tame_release)
  have 2: "tame e e2" "execution_marker e2 = execution_marker e"
    using 1 by (auto simp: e2_def intro: tame_trans tame_push)
  have 3: "tame e e3" "execution_marker e3 = execution_marker e"
    using 2 by (auto simp: e3_def intro: tame_trans tame_promote)
  have "snd (deliver h t r c m e) =
        snd (if c then reconcile_current_owner_resume_request e3 (commit_owner_resume m)
             else project_owner_resume_request e3 (commit_owner_resume m))"
    by (cases c) (simp_all add: deliver_def Let_def case_prod_beta e1_def e2_def e3_def)
  with 3 show ?thesis by (auto intro: tame_trans tame_resume simp: tame_resume)
qed

lemma inv_mail_commit:
  assumes inv: "tree_inv w"
  shows "\<exists>w' r. mail_commit w p t r0 c k m = Some (w', r) \<and> tree_inv w'"
proof -
  let ?w = "release_reservation k w"
  have inv1: "tree_inv ?w" using inv by (rule inv_release_reservation)
  show ?thesis
  proof (cases "\<exists>e. hm_get (agents ?w) p = Some e \<and> session_id e = ticket_session k")
    case False
    with inv1 show ?thesis by (auto simp: mail_commit_def Let_def split: option.splits)
  next
    case True
    then obtain e where e: "hm_get (agents ?w) p = Some e" "session_id e = ticket_session k" by blast
    from keep_replaced [OF inv1 e(1), of "snd (deliver (heap ?w) t r0 c m e)"] deliver_keeps e
    show ?thesis
      by (fastforce simp: mail_commit_def Let_def case_prod_beta)
  qed
qed

lemma inv_mail_delivery: "tree_inv w \<Longrightarrow> tree_inv (fst (commit_pending_mailbox_delivery w s d))"
  by (auto simp: commit_pending_mailbox_delivery_def Let_def tame_retain split: sum.splits
           dest!: validated_scope intro!: inv_entry_kept)

lemma inv_drain: "tree_inv w \<Longrightarrow> tree_inv (fst (drain_mailbox w p))"
  by (auto simp: drain_mailbox_def tame_def entry_ok_def split: option.splits intro!: inv_entry_kept)

section \<open>Terminals of executions that never started\<close>

text \<open>A descendant whose execution ends and that gets a new control for its next one.\<close>

lemma inv_fresh_control:
  assumes inv: "tree_inv w" and e: "hm_get (agents w) p = Some e" and p: "\<not> is_root p"
    and e': "entry_ok e'" "session_id e' = session_id e" "parent e' = parent e"
      "spawn_order e' = spawn_order e" "entry_control e' = next_ctl w" "execution_marker e' = None"
  shows "tree_inv (with_entry p (\<lambda>_. e') (fst (alloc_control c w)))" (is "tree_inv ?u")
proof (rule inv_update [OF inv e, of _ e'])
  have old: "placed w q f" if "hm_get (agents w) q = Some f" for q f
    using inv that by (simp add: tree_inv_def entries_ok_def)
  have scope: "root_scope_control w < next_ctl w" using inv by (simp add: tree_inv_def scope_ok_def)
  with p old [OF e] e' show "placed ?u p e'"
    by (auto simp: placed_def with_entry_def alloc_control_def)
  show "root_turn_ok ?u"
    using inv p by (auto simp: tree_inv_def root_turn_ok_def with_entry_def alloc_control_def is_root_def root_path_def)
  show "scope_ok ?u" using inv by (auto simp: tree_inv_def scope_ok_def with_entry_def alloc_control_def)
  show "terminal_router (heap ?u (entry_control g)) = terminal_router (heap w (entry_control g)) \<and>
      entry_control g \<noteq> root_scope_control ?u" if "hm_get (agents w) q = Some g" "q \<noteq> p" for q g
    using old [OF that(1)] by (auto simp: placed_def with_entry_def alloc_control_def)
qed (use e' in \<open>simp_all add: moves_to_def with_entry_def alloc_control_def\<close>)

lemma entry_ok_blocked: "entry_ok e \<Longrightarrow> entry_ok (blocked_entry t a c e)"
  by (simp add: entry_ok_def blocked_entry_def comp_def if_distrib [of notice_id] cong: if_cong)

lemma inv_blocked:
  assumes inv: "tree_inv w" and e: "hm_get (agents w) p = Some e" and p: "\<not> is_root p"
  shows "tree_inv (with_entry p (blocked_entry t a (next_ctl w)) (fst (alloc_control c w)))"
proof -
  have d: "distinct (hm_keys (agents w))" using inv by (simp add: tree_inv_def)
  have "with_entry p (blocked_entry t a (next_ctl w)) (fst (alloc_control c w)) =
        with_entry p (\<lambda>_. blocked_entry t a (next_ctl w) e) (fst (alloc_control c w))"
    using hm_modify_const [OF d e, of "blocked_entry t a (next_ctl w)"]
    by (simp add: with_entry_def alloc_control_def)
  also have "tree_inv \<dots>"
    using inv e p by (rule inv_fresh_control)
      (use entry_ok_of [OF inv e] in \<open>simp_all add: entry_ok_blocked, simp_all add: blocked_entry_def\<close>)
  finally show ?thesis .
qed

lemma inv_trigger_terminal:
  assumes inv: "tree_inv w" and p: "\<not> is_root (lease_path l)"
  shows "\<exists>w' r. trigger_terminal_commit env w l a s d = Some (w', r) \<and> tree_inv w'"
proof (cases "\<exists>k e. wake_cause l = Some k \<and> hm_get (agents w) (lease_path l) = Some e \<and>
                session_id e = s \<and> execution_marker e = Some (lease_marker l)")
  case False
  with inv show ?thesis
    by (fastforce simp: trigger_terminal_commit_def Let_def
                  split: sum.splits option.splits pending_trigger_terminal_commit.splits)
next
  case True
  then obtain k e where e: "wake_cause l = Some k" "hm_get (agents w) (lease_path l) = Some e"
    "session_id e = s" "execution_marker e = Some (lease_marker l)" by blast
  obtain w1 where w1: "supersede_locked env (entry_control e) w = Some w1" "tree_inv w1"
    "agents w1 = agents w" "next_ctl w1 = next_ctl w"
    using inv e(2) p by (rule superseded_child)
  have "tree_inv (with_entry (lease_path l) (drop_wake k) w1)"
    using w1 e by (intro inv_entry_kept) (auto simp: tame_drop_wake)
  moreover have "tree_inv (with_entry (lease_path l) (blocked_entry t a (next_ctl w)) (fst (alloc_control c w1)))" for t c
    using inv_blocked [OF w1(2), of _ e] w1 e p by simp
  ultimately show ?thesis
    using inv e w1
    by (cases d)
       (auto simp: trigger_terminal_commit_def Let_def case_prod_beta
             split: pending_trigger_terminal_commit.splits agent_execution_wake_cause.splits,
        auto simp: alloc_control_def)
qed

lemma inv_commit_trigger_terminal:
  "tree_inv w \<Longrightarrow> \<exists>w' r. commit_pending_trigger_terminal env w l a d = Some (w', r) \<and> tree_inv w'"
  using inv_trigger_terminal [of w l env a _ d]
  by (cases "is_root (lease_path l)")
     (auto simp: commit_pending_trigger_terminal_def trigger_terminal_begin_def Let_def
           split: sum.splits option.splits)

section \<open>The release of a deferred completion\<close>

lemma inv_project_parent:
  assumes inv: "tree_inv w"
  shows "tree_inv (fst (project_parent w p s i t r))"
proof (cases "\<exists>e. hm_get (agents w) p = Some e \<and> session_id e = s \<and> status e \<noteq> Shutdown")
  case False
  with inv show ?thesis by (auto simp: project_parent_def split: option.splits)
next
  case True
  then obtain e where e: "hm_get (agents w) p = Some e" "session_id e = s" "status e \<noteq> Shutdown" by blast
  define e2 where "e2 = snd (reconcile_current_owner_resume_request (snd (project_deferred_owner_release (heap w) e t)) r)"
  define e3 where "e3 = (if \<not> has_notice i e2 \<and> length (mailbox e2) < MAX_AGENT_MAILBOX_NOTICES
                         then push_notice i False False e2 else e2)"
  define e4 where "e4 = (if fst (project_deferred_owner_release (heap w) e t) then promote_triggers e3 else e3)"
  have "tame e e2" "execution_marker e2 = execution_marker e"
    unfolding e2_def by (rule tame_trans [OF tame_release(1) tame_resume(1)]) (simp add: tame_resume tame_release)
  then have "tame e e3" "execution_marker e3 = execution_marker e"
    by (auto simp: e3_def intro: tame_trans tame_push)
  then have "tame e e4" "execution_marker e4 = execution_marker e"
    by (auto simp: e4_def intro: tame_trans tame_promote)
  then have "tree_inv (with_entry p (\<lambda>_. e4) w)" using inv e by (intro inv_entry_kept) auto
  moreover have "fst (project_parent w p s i t r) = with_entry p (\<lambda>_. e4) w"
    unfolding e2_def e3_def e4_def using e by (simp add: project_parent_def Let_def case_prod_beta)
  ultimately show ?thesis by simp
qed

lemma project_parent_get:
  assumes "q \<noteq> p"
  shows "hm_get (agents (fst (project_parent w p s i t r))) q = hm_get (agents w) q"
  using assms by (auto simp: project_parent_def with_entry_def Let_def case_prod_beta split: option.splits)

lemma tame_released:
  assumes "\<not> (case st of InactivePendingInit \<Rightarrow> True | InactiveAwaiting _ \<Rightarrow> True | _ \<Rightarrow> False)"
    and "execution_marker e = None"
  shows "tame e (released_entry (of_inactive st) a e)"
  using assms by (cases st) (auto simp: released_entry_def tame_def entry_ok_def)

lemma inv_project_released:
  assumes inv: "tree_inv w"
  shows "\<exists>w' r. project_released_deferred_completion w p s t q qs st a i rel d = Some (w', r) \<and> tree_inv w'"
proof (cases "\<exists>req e. d = Ok req \<and> \<not> tree_cancelled w \<and> hm_get (agents w) p = Some e \<and>
                session_id e = s \<and> parent e = Some q \<and> execution_marker e = None \<and>
                status e = AwaitingDescendants \<and> awaiting_deferred_turn e = Some t \<and>
                \<not> (case st of InactivePendingInit \<Rightarrow> True | InactiveAwaiting _ \<Rightarrow> True | _ \<Rightarrow> False)")
  case False
  with inv show ?thesis
    by (fastforce simp: project_released_deferred_completion_def Let_def split: sum.splits option.splits)
next
  case True
  then obtain req e where d: "d = Ok req" "\<not> tree_cancelled w"
    and e: "hm_get (agents w) p = Some e" "session_id e = s" "parent e = Some q" "execution_marker e = None"
      "status e = AwaitingDescendants" "awaiting_deferred_turn e = Some t"
    and st: "\<not> (case st of InactivePendingInit \<Rightarrow> True | InactiveAwaiting _ \<Rightarrow> True | _ \<Rightarrow> False)"
    by blast
  let ?w = "fst (project_parent w q qs i rel req)"
  have "placed w p e" using inv e(1) by (simp add: tree_inv_def entries_ok_def)
  then have "parent_path p = Some q" using e(3) by (simp add: placed_def)
  then have "p \<noteq> q" using parent_path_shorter by blast
  then have get: "hm_get (agents ?w) p = Some e" using e(1) by (simp add: project_parent_get)
  let ?x = "with_entry p (released_entry (of_inactive st)
              (released_activity a (snd (project_parent w q qs i rel req)))) ?w"
  have "tree_inv ?x"
    using inv_project_parent [OF inv] get
    by (rule inv_entry_kept) (use tame_released [OF st e(4)] in \<open>simp_all add: released_entry_def\<close>)
  from keep_schedule [OF this] d e st show ?thesis
    by (simp add: project_released_deferred_completion_def Let_def case_prod_beta)
qed

end
