(* ===== verification/Agent_Machine.thy ===== *)
theory Agent_Machine
  imports Agent_Keep_Mail
begin

text \<open>
  An agent tree as a state machine: its creation, one step for every operation, and the steps of
  its surroundings, which classify run controls and allocate new ones. Every reachable tree
  satisfies the invariant, and the execution markers in use are only ever dropped or replaced
  by new ones, so that a lease that lost its execution stays stale.
\<close>

section \<open>Creation\<close>

text \<open>
  A tree created by \<open>with_root_control\<close> over some heap; the task scope is one of the controls
  allocated so far.
\<close>

definition agent_init :: "router_env \<Rightarrow> agent_control \<Rightarrow> bool" where
  "agent_init env w \<longleftrightarrow>
     (\<exists>router h fresh session n c lease.
        c < fresh \<and> with_root_control env router h fresh session n c = Ok (w, lease))"

lemma inv_with_root_control:
  assumes ok: "with_root_control env router h fresh session n c = Ok (w, lease)" and c: "c < fresh"
  shows "tree_inv w"
proof -
  from ok c obtain rc where rc: "install_terminal_router env (h c) router = Ok rc"
    and w: "w = \<lparr>max_concurrent_agents = n, next_spawn_order = 1, pending_capacity_reservations = 0,
        root_scope_control = c, pending_root_durable_turn = None,
        agents = [(root_path, (new_entry session None 0 PendingInit None None fresh None)\<lparr>execution_marker := Some 0\<rparr>)],
        activity = 0, tree_router = router,
        heap = (h(fresh := inherit_effect_authority new_run_control (h c), c := rc,
                  fresh := (inherit_effect_authority new_run_control (h c))\<lparr>terminal_router := Some router\<rparr>)),
        next_ctl = Suc fresh, next_marker = 1\<rparr>"
    by (auto simp: with_root_control_def install_root_terminal_router_def alloc_control_def alloc_marker_def
                   install_new with_entry_def hm_modify_def and_then_def Let_def
             split: if_splits sum.splits)
  have "valid_path root_path"
    using valid_path_of_names [of "[]"] by (simp add: of_names_Nil root_path_def)
  moreover have "parent_path root_path = None" by (simp add: parent_path_def)
  moreover have "terminal_router rc = Some router" using rc by (rule install_router)
  ultimately show ?thesis
    using c
    by (auto simp: w tree_inv_def entries_ok_def placed_def entry_ok_def new_entry_def root_turn_ok_def
                   scope_ok_def active_agent_count_def descendant_capacity_def hm_contains_def
                   MAX_RETAINED_AGENTS_def MAX_AGENT_MAILBOX_NOTICES_def split: if_splits)
qed

section \<open>Steps\<close>

text \<open>
  What the surroundings may do between two operations: classify any control, and allocate new
  ones. A control that is already allocated keeps its router.
\<close>

definition surroundings :: "agent_control \<Rightarrow> ctl_heap \<Rightarrow> ctl_id \<Rightarrow> bool" where
  "surroundings w h fresh \<longleftrightarrow>
     next_ctl w \<le> fresh \<and>
     (\<forall>c < next_ctl w. terminal_router (h c) = terminal_router (heap w c))"

inductive agent_step :: "router_env \<Rightarrow> agent_control \<Rightarrow> agent_control \<Rightarrow> bool" for env where
  surround: "surroundings w h fresh \<Longrightarrow> agent_step env w (w\<lparr>heap := h, next_ctl := fresh\<rparr>)"
| drop_lease: "agent_step env w (lease_drop l w)"
| set_status: "agent_step env w (fst (lease_set_status w l st))"
| set_activity: "agent_step env w (fst (lease_set_activity w l act))"
| scope_status: "agent_step env w (fst (scope_set_status w s st'))"
| scope_activity: "agent_step env w (fst (scope_set_activity w s act))"
| scope_set: "agent_step env w (fst (scope_set_status_and_activity w s st' act))"
| register: "agent_step env w (fst (register_child_with_order w p t session act order))"
| spawn: "agent_step env w (fst (commit_spawn w s p t session act (spawned :: (unit \<times> u64, ustr) result)))"
| restore_child: "agent_step env w (fst (restore_inactive_child_with_order w p t session ist act order))"
| acquire: "agent_step env w (fst (try_acquire_execution w p))"
| acquire_root:
    "surface_control w c \<Longrightarrow> try_acquire_root_execution env w c = Some (w', r1) \<Longrightarrow> agent_step env w w'"
| continue_root: "agent_step env w (fst (try_acquire_root_continuation env w c))"
| admitted: "mark_execution_admitted w s turn act req = Some (w', r2) \<Longrightarrow> agent_step env w w'"
| publish_root: "agent_step env w (fst (publish_root_execution_plan w s turn rev0))"
| root_admitted: "mark_root_execution_admitted w s turn rev0 = Some (w', r2) \<Longrightarrow> agent_step env w w'"
| complete: "complete_execution w l ist act = Some (w', r2) \<Longrightarrow> agent_step env w w'"
| retire: "retire_resolved_wake_execution env w l act = Some (w', r2) \<Longrightarrow> agent_step env w w'"
| release: "release_unsettled_trigger_execution env w l act = Some (w', r3) \<Longrightarrow> agent_step env w w'"
| rollback: "rollback_child_registration env w l session = Some (w', r3) \<Longrightarrow> agent_step env w w'"
| cancel_root: "agent_step env w (fst (cancel_root_execution_at_scope_control w c x settled))"
| interrupt: "agent_step env w (fst (commit_and_interrupt_captured w s target durable))"
| terminal_begin: "agent_step env w (fst (terminal_cancel_begin w p))"
| terminal_purge: "agent_step env w (fst (terminal_cancel_purge w p purge))"
| restore_mail: "agent_step env w (fst (restore_pending_mail w p item ready))"
| restore_resume: "agent_step env w (fst (restore_pending_owner_resume w p request))"
| restore_current: "restore_current_owner_resume w p req = Some (w', r2) \<Longrightarrow> agent_step env w w'"
| restore_released: "restore_released_owner_wake w p released req = Some (w', r2) \<Longrightarrow> agent_step env w w'"
| begin_mail: "agent_step env w (fst (mail_begin w author p trigger handoff scope0))"
| abandon_mail: "agent_step env w (release_reservation ticket w)"
| commit_mail:
    "mail_commit w p trigger released handoff ticket commit0 = Some (w', r4) \<Longrightarrow> agent_step env w w'"
| deliver_mail: "agent_step env w (fst (commit_pending_mailbox_delivery w s delivery))"
| drain: "agent_step env w (fst (drain_mailbox w p))"
| trigger_terminal:
    "\<not> is_root (lease_path l) \<Longrightarrow>
     trigger_terminal_commit env w l act session (tt :: (unit pending_trigger_terminal_commit, ustr) result) =
       Some (w', r5) \<Longrightarrow> agent_step env w w'"
| release_deferred:
    "project_released_deferred_completion w p session turn q session' ist act item released req =
       Some (w', r2) \<Longrightarrow> agent_step env w w'"

lemma surround_inv: "tree_inv w \<Longrightarrow> surroundings w h fresh \<Longrightarrow> tree_inv (w\<lparr>heap := h, next_ctl := fresh\<rparr>)"
  by (erule inv_same_agents) (auto simp: surroundings_def)

lemma some_inv: "\<exists>w' r. f = Some (w', r) \<and> tree_inv w' \<Longrightarrow> f = Some (v, r') \<Longrightarrow> tree_inv v"
  by auto

lemma agent_step_inv: "agent_step env w w' \<Longrightarrow> tree_inv w \<Longrightarrow> tree_inv w'"
  by (induction rule: agent_step.induct)
     (blast intro: surround_inv inv_lease_drop inv_lease_set_status inv_lease_set_activity inv_scope_set
        inv_register_child inv_commit_spawn inv_restore_child inv_try_acquire inv_continue_root
        inv_publish_root inv_cancel_root inv_interrupt inv_terminal_begin inv_terminal_purge
        inv_restore_mail inv_restore_resume inv_mail_begin inv_release_reservation inv_mail_delivery
        inv_drain
        some_inv [OF inv_acquire_root] some_inv [OF inv_mark_admitted] some_inv [OF inv_mark_root_admitted]
        some_inv [OF inv_complete] some_inv [OF inv_retire] some_inv [OF inv_release_unsettled]
        some_inv [OF inv_rollback] some_inv [OF inv_restore_current] some_inv [OF inv_restore_released]
        some_inv [OF inv_mail_commit] some_inv [OF inv_trigger_terminal] some_inv [OF inv_project_released])+

interpretation trees: invariant_machine "agent_init env" "agent_step env" tree_inv
  by unfold_locales (auto simp: agent_init_def intro: inv_with_root_control agent_step_inv)

section \<open>Markers are never reused\<close>

text \<open>
  The markers of a later tree: those an agent already had, and new ones.
\<close>

definition marks :: "agent_control \<Rightarrow> agent_control \<Rightarrow> bool" where
  "marks w w' \<longleftrightarrow>
     next_marker w \<le> next_marker w' \<and>
     (\<forall>p e m. hm_get (agents w') p = Some e \<longrightarrow> execution_marker e = Some m \<longrightarrow>
        next_marker w \<le> m \<or> (\<exists>f. hm_get (agents w) p = Some f \<and> execution_marker f = Some m))"

lemma marks_refl [simp]: "marks w w"
  by (simp add: marks_def)

lemma marks_trans: "marks u v \<Longrightarrow> marks v w \<Longrightarrow> marks u w"
  unfolding marks_def by (meson order_trans)

lemma marks_same: "agents w' = agents w \<Longrightarrow> next_marker w' = next_marker w \<Longrightarrow> marks v w \<Longrightarrow> marks v w'"
  by (simp add: marks_def)

lemma marks_notify [simp]: "marks w (notify_activity w') = marks w w'"
  by (simp add: marks_def notify_activity_def)

lemma marks_fields [simp]:
  "marks v (w\<lparr>heap := h\<rparr>) = marks v w" "marks v (w\<lparr>next_ctl := n\<rparr>) = marks v w"
  "marks v (w\<lparr>root_scope_control := c\<rparr>) = marks v w"
  "marks v (w\<lparr>pending_root_durable_turn := t\<rparr>) = marks v w"
  "marks v (w\<lparr>pending_capacity_reservations := k\<rparr>) = marks v w"
  by (simp_all add: marks_def)

text \<open>A change of one entry that keeps its marker, drops it, or takes a new one.\<close>

lemma marks_entry:
  assumes "marks v w"
    and "\<And>e m. hm_get (agents w) p = Some e \<Longrightarrow> execution_marker (f e) = Some m \<Longrightarrow>
           execution_marker e = Some m \<or> next_marker v \<le> m"
  shows "marks v (with_entry p f w)"
  unfolding marks_def
proof (intro conjI allI impI)
  fix q e m
  assume e: "hm_get (agents (with_entry p f w)) q = Some e" "execution_marker e = Some m"
  show "next_marker v \<le> m \<or> (\<exists>g. hm_get (agents v) q = Some g \<and> execution_marker g = Some m)"
  proof (cases "q = p")
    case True
    with e obtain z where "hm_get (agents w) p = Some z" "e = f z" by (auto simp: with_entry_def)
    with True e(2) assms(2) [of z m] assms(1) show ?thesis by (auto simp: marks_def)
  next
    case False
    with e assms(1) show ?thesis by (auto simp: marks_def with_entry_def)
  qed
qed (use assms(1) in \<open>simp add: marks_def with_entry_def\<close>)

lemma marks_alloc [simp]:
  "marks v (fst (alloc_control c w)) = marks v w"
  "agents (fst (alloc_control c w)) = agents w" "agents (fst (alloc_marker w)) = agents w"
  by (simp_all add: marks_def alloc_control_def alloc_marker_def)

lemma marks_alloc_marker: "marks v w \<Longrightarrow> marks v (fst (alloc_marker w))"
  by (auto simp: marks_def alloc_marker_def)

lemma marks_start:
  assumes "marks v w" and "agents w' = agents w" and "next_marker w \<le> next_marker w'"
  shows "marks v (with_entry p (start_execution (next_marker w) c) w')"
proof (rule marks_entry)
  show "marks v w'" using assms by (auto simp: marks_def)
qed (use assms in \<open>auto simp: start_execution_def marks_def\<close>)

lemma marks_reserve:
  "reserve_loop ps w ls = Some (w', ls') \<Longrightarrow> marks v w \<Longrightarrow> marks v w'"
proof (induction ps w ls rule: reserve_loop.induct)
  case (2 p ps w ls)
  have "marks v (started p rc w)" for rc
    unfolding started_def using "2.prems"(2) by (rule marks_start) simp_all
  with 2 show ?case by (auto simp: reserve_one_eq split: if_splits option.splits)
qed simp

lemma marks_schedule: "schedule_and_notify b w = Some (w', r) \<Longrightarrow> marks v w \<Longrightarrow> marks v w'"
  by (auto simp: schedule_and_notify_def reserve_pending_triggered_executions_locked_def
           split: if_splits dest: marks_reserve)

lemma marks_drop [simp]: "marks v w \<Longrightarrow> marks v (lease_drop l w)"
  by (auto simp: lease_drop_def release_execution_def Let_def split: option.splits
           intro: marks_same [OF _ _ marks_entry] marks_entry)

lemma marks_supersede: "supersede_locked env c w = Some w' \<Longrightarrow> marks v w \<Longrightarrow> marks v w'"
  by (auto simp: supersede_locked_def split: if_splits)

lemma marks_mutate:
  "(\<And>e. execution_marker (f e) = execution_marker e) \<Longrightarrow> marks w (fst (mutate_execution w p mk f))"
  by (auto simp: mutate_execution_def split: option.splits intro!: marks_entry)

lemma marks_leases:
  "marks w (fst (lease_set_status w l st))" "marks w (fst (lease_set_activity w l a))"
  "marks w (fst (scope_set_status w s st))" "marks w (fst (scope_set_activity w s a))"
  "marks w (fst (scope_set_status_and_activity w s st a))"
  by (auto simp: lease_set_status_def lease_set_activity_def scope_set_status_def scope_set_activity_def
                 scope_set_status_and_activity_def
                 scope_mutate_def intro: marks_mutate)

lemma choose_spawn_order_same:
  "choose_spawn_order w o0 = Ok (w1, order) \<Longrightarrow> agents w1 = agents w \<and> next_marker w1 = next_marker w"
  by (auto simp: choose_spawn_order_def allocate_spawn_order_def split: option.splits if_splits)

lemma marks_insert_child:
  assumes "insert_child_locked w q p s a o0 = Ok (w', x)"
  shows "marks w w'"
  using assms
  by (auto simp: insert_child_locked_def and_then_Ok_iff alloc_marker_def alloc_control_def Let_def
                 marks_def new_entry_def dest!: choose_spawn_order_same split: if_splits)

lemma marks_new_agents:
  "marks w (fst (register_child_with_order w q t s a o0))"
  "marks w (fst (commit_spawn w c q t s a r))"
  "marks w (fst (restore_inactive_child_with_order w q t s st a o0))"
proof -
  show "marks w (fst (register_child_with_order w q t s a o0))"
    by (auto simp: register_child_with_order_def and_then_def split: sum.splits prod.splits
             dest: marks_insert_child)
  show "marks w (fst (commit_spawn w c q t s a r))"
    by (auto simp: commit_spawn_def and_then_def split: sum.splits prod.splits dest: marks_insert_child)
  show "marks w (fst (restore_inactive_child_with_order w q t s st a o0))"
    by (auto simp: restore_inactive_child_with_order_def alloc_control_def Let_def
             split: sum.splits prod.splits dest!: choose_spawn_order_same)
       (auto simp: marks_def new_entry_def)
qed

lemma marks_install: "install_root_terminal_router env c w = Ok w' \<Longrightarrow> marks v w' = marks v w \<and>
    agents w' = agents w \<and> next_marker w' = next_marker w"
  by (auto simp: install_root_terminal_router_def split: sum.splits)

lemma marks_acquire: "marks w (fst (try_acquire_execution w p))"
  by (auto simp: try_acquire_execution_def alloc_control_def alloc_marker_def Let_def split: option.splits
           intro!: marks_start)

lemma marks_acquire_root:
  "try_acquire_root_execution env w c = Some (w', r) \<Longrightarrow> marks w w'"
  by (auto simp: try_acquire_root_execution_def alloc_control_def alloc_marker_def Let_def
           split: option.splits if_splits sum.splits dest!: marks_install [where v = w])
     (auto simp: marks_def start_execution_def with_entry_def split: if_splits)

lemma marks_continue_root: "marks w (fst (try_acquire_root_continuation env w c))"
  by (auto simp: try_acquire_root_continuation_def alloc_control_def alloc_marker_def Let_def
           split: option.splits if_splits sum.splits dest!: marks_install [where v = w])
     (auto simp: marks_def start_execution_def with_entry_def split: if_splits)

lemma marks_admission:
  "mark_execution_admitted w s t a d = Some (w', r) \<Longrightarrow> marks w w'"
  "marks w (fst (publish_root_execution_plan w s t v))"
  "mark_root_execution_admitted w s t v = Some (w', r) \<Longrightarrow> marks w w'"
  by (auto simp: mark_execution_admitted_def publish_root_execution_plan_def mark_root_execution_admitted_def
                 Let_def admit_def
           split: sum.splits option.splits if_splits elim!: marks_schedule intro!: marks_entry)

lemma marks_completion:
  "complete_execution w l st a = Some (w', r) \<Longrightarrow> marks w w'"
  "retire_resolved_wake_execution env w l a = Some (w', r) \<Longrightarrow> marks w w'"
  "release_unsettled_trigger_execution env w l a = Some (w', r3) \<Longrightarrow> marks w w'"
  by (auto simp: complete_execution_def retire_resolved_wake_execution_def
                 release_unsettled_trigger_execution_def Let_def completed_entry_def
           split: option.splits if_splits
           intro!: marks_drop marks_entry elim!: marks_schedule marks_supersede)

lemma marks_rollback: "rollback_child_registration env w l s = Some (w', r) \<Longrightarrow> marks w w'"
proof -
  have "marks w (w\<lparr>agents := hm_remove p (agents w)\<rparr>)" for p
    by (auto simp: marks_def split: if_splits)
  then show "rollback_child_registration env w l s = Some (w', r) \<Longrightarrow> marks w w'"
    by (auto simp: rollback_child_registration_def Let_def split: option.splits if_splits dest!: marks_supersede)
qed

lemma marks_cancellation:
  "marks w (fst (cancel_root_execution_at_scope_control w c x b))"
  "marks w (fst (commit_and_interrupt_captured w s t d))"
  "marks w (fst (terminal_cancel_begin w p))"
  "marks w (fst (terminal_cancel_purge w p g))"
  by (auto simp: cancel_root_execution_at_scope_control_def commit_and_interrupt_captured_def
                 terminal_cancel_begin_def terminal_cancel_purge_def Let_def case_prod_beta
                 clear_cancelled_active_generation_state_def
           split: option.splits sum.splits run_cancel_outcome.splits prod.splits intro!: marks_entry)

lemma marks_mail:
  "marks w (fst (restore_pending_mail w p i b))"
  "marks w (fst (restore_pending_owner_resume w p q))"
  "marks w (fst (mail_begin w u p t h x))"
  "marks w (release_reservation k w)"
  "marks w (fst (commit_pending_mailbox_delivery w s d))"
  "marks w (fst (drain_mailbox w p))"
  by (auto simp: restore_pending_mail_def restore_pending_owner_resume_def mail_begin_def
                 release_reservation_def commit_pending_mailbox_delivery_def drain_mailbox_def Let_def
           split: option.splits sum.splits intro!: marks_entry)

lemma marks_wakes:
  "restore_current_owner_resume w p d = Some (w', r) \<Longrightarrow> marks w w'"
  "restore_released_owner_wake w p t d = Some (w', r) \<Longrightarrow> marks w w'"
  by (auto simp: restore_current_owner_resume_def restore_released_owner_wake_def Let_def case_prod_beta
                 tame_resume tame_release
           split: option.splits sum.splits if_splits elim!: marks_schedule intro!: marks_entry)

lemma marks_mail_commit: "mail_commit w p t q h k c = Some (w', r) \<Longrightarrow> marks w w'"
  by (auto simp: mail_commit_def Let_def case_prod_beta deliver_keeps marks_mail
           split: option.splits if_splits elim!: marks_schedule intro!: marks_entry)

lemma marks_trigger_terminal: "trigger_terminal_commit env w l a s d = Some (w', r) \<Longrightarrow> marks w w'"
  by (auto simp: trigger_terminal_commit_def Let_def case_prod_beta tame_drop_wake blocked_entry_def
           split: option.splits sum.splits if_splits pending_trigger_terminal_commit.splits
                  agent_execution_wake_cause.splits
           elim!: marks_supersede intro!: marks_entry)

lemma marks_project_parent: "marks w (fst (project_parent w p s i t r))"
  by (auto simp: project_parent_def Let_def case_prod_beta tame_resume tame_release
           split: option.splits intro!: marks_entry)

lemma marks_release_deferred:
  "project_released_deferred_completion w p s t q qs st a i rel d = Some (w', r) \<Longrightarrow> marks w w'"
  by (auto simp: project_released_deferred_completion_def Let_def case_prod_beta released_entry_def
                 marks_project_parent
           split: option.splits sum.splits if_splits elim!: marks_schedule intro!: marks_entry)

lemma marks_step: "agent_step env w w' \<Longrightarrow> marks w w'"
  by (erule agent_step.cases; hypsubst?;
      simp add: marks_leases marks_new_agents marks_acquire marks_continue_root marks_admission(2)
        marks_cancellation marks_mail;
      (erule marks_acquire_root marks_admission(1) marks_admission(3) marks_completion marks_rollback marks_wakes
         marks_mail_commit marks_trigger_terminal marks_release_deferred)?)

section \<open>Leases over time\<close>

text \<open>A lease owns its execution while the agent still carries its marker.\<close>

definition owns :: "agent_control \<Rightarrow> agent_execution_lease \<Rightarrow> bool" where
  "owns w l = (\<exists>e. hm_get (agents w) (lease_path l) = Some e \<and> execution_marker e = Some (lease_marker l))"

lemma owns_marks:
  "marks w w' \<Longrightarrow> lease_marker l < next_marker w \<Longrightarrow> owns w' l \<Longrightarrow> owns w l"
  unfolding marks_def owns_def by (meson leD)

text \<open>A lease that was issued and lost its execution: no step gives it back.\<close>

definition lost :: "agent_execution_lease \<Rightarrow> agent_control \<Rightarrow> bool" where
  "lost l w \<longleftrightarrow> lease_marker l < next_marker w \<and> \<not> owns w l"

lemma lost_marks: "lost l w \<Longrightarrow> marks w w' \<Longrightarrow> lost l w'"
  using owns_marks [of w w' l] by (auto simp: lost_def marks_def)

lemma lost_forever: "(agent_step env)\<^sup>*\<^sup>* w w' \<Longrightarrow> tree_inv w \<Longrightarrow> lost l w \<Longrightarrow> lost l w'"
  by (rule trees.steps_stable [where P = "lost l" and env = env]) (auto intro: lost_marks marks_step)

lemma owned_marker: "tree_inv w \<Longrightarrow> owns w l \<Longrightarrow> lease_marker l < next_marker w"
  by (auto simp: owns_def tree_inv_def entries_ok_def placed_def)

lemma completion_loses:
  assumes inv: "tree_inv w" and c: "complete_execution w l st a = Some (w', Ok ls)"
  shows "owns w l \<and> lost l w'"
proof -
  from c have o: "owns w l"
    by (auto simp: complete_execution_def owns_def Let_def split: option.splits if_splits)
  let ?w1 = "with_entry (lease_path l) (completed_entry st a) w"
  let ?w2 = "if is_root (lease_path l) then ?w1\<lparr>pending_root_durable_turn := None\<rparr> else ?w1"
  from c obtain w3 r where s: "schedule_and_notify (\<not> tree_cancelled ?w2) ?w2 = Some (w3, r)"
    and w': "w' = lease_drop l w3"
    by (auto simp: complete_execution_def Let_def split: option.splits if_splits)
  have "lost l ?w2"
    using owned_marker [OF inv o]
    by (auto simp: lost_def owns_def with_entry_def completed_entry_def Let_def)
  then have "lost l w3" using marks_schedule [OF s marks_refl] by (rule lost_marks)
  then have "lost l w'" unfolding w' by (rule lost_marks) simp
  with o show ?thesis ..
qed

end
