(* ===== verification/Agent_Props.thy ===== *)
theory Agent_Props
  imports Agent_Machine
begin

text \<open>
  The properties of an agent tree: what holds in every reachable tree, that no operation gets
  stuck, and what the single operations promise their callers.
\<close>

section \<open>An example tree\<close>

text \<open>
  A tree with capacity for two descendants. Its root spawns \<open>a\<close> and \<open>b\<close>, both end, and a task
  is queued for each of them.
\<close>

definition no_routers :: router_env where "no_routers = (\<lambda>_. None)"

definition demo_created :: "(agent_control \<times> agent_execution_lease, agent_control_error) result" where
  "demo_created = with_root_control no_routers 9 (\<lambda>_. new_run_control) 1 70 3 0"

definition demo_start :: agent_control where "demo_start = fst (projr demo_created)"

definition demo_root_lease :: agent_execution_lease where "demo_root_lease = snd (projr demo_created)"

definition spawn_demo :: "ustr \<Rightarrow> session_id \<Rightarrow> agent_control \<Rightarrow> agent_control" where
  "spawn_demo t s w = fst (register_child_with_order w root_path t s None None)"

definition demo_path :: "ustr \<Rightarrow> agent_path" where "demo_path t = root_path @ slash # t"

definition demo_lease :: "agent_control \<Rightarrow> ustr \<Rightarrow> agent_execution_lease" where
  "demo_lease w t =
     (case hm_get (agents w) (demo_path t) of
        Some e \<Rightarrow> child_lease (demo_path t) (case execution_marker e of Some m \<Rightarrow> m | None \<Rightarrow> 0) (entry_control e)
      | None \<Rightarrow> child_lease (demo_path t) 0 0)"

definition end_demo :: "ustr \<Rightarrow> agent_control \<Rightarrow> agent_control" where
  "end_demo t w = fst (the (complete_execution w (demo_lease w t) (InactiveCompleted None) None))"

definition demo_spawned :: agent_control where
  "demo_spawned = spawn_demo (lit ''b'') 72 (spawn_demo (lit ''a'') 71 demo_start)"

definition demo_idle :: agent_control where
  "demo_idle = end_demo (lit ''b'') (end_demo (lit ''a'') demo_spawned)"

definition demo_tree :: agent_control where
  "demo_tree =
     fst (restore_pending_mail
       (fst (restore_pending_mail demo_idle (demo_path (lit ''b'')) 500 True))
       (demo_path (lit ''a'')) 501 True)"

lemma demo_created_Ok: "demo_created = Ok (demo_start, demo_root_lease)"
proof -
  have "is_ok demo_created" by code_simp
  then obtain x where "demo_created = Ok x" by (metis is_ok_simps(2) sum.exhaust)
  then have "projr demo_created = x" by (metis sum.sel(2))
  with \<open>demo_created = Ok x\<close> show ?thesis unfolding demo_start_def demo_root_lease_def by (metis prod.collapse)
qed

lemma demo_init: "agent_init no_routers demo_start"
  using demo_created_Ok unfolding agent_init_def demo_created_def by (metis zero_less_one)

lemma complete_step:
  assumes "tree_inv w"
  shows "agent_step env w (fst (the (complete_execution w l st a)))"
proof -
  from inv_complete [OF assms, of l st a] obtain w' r where "complete_execution w l st a = Some (w', r)" by blast
  then show ?thesis by (metis agent_step.complete fst_conv option.sel)
qed

lemma demo_spawned_reachable: "(agent_step no_routers)\<^sup>*\<^sup>* demo_start demo_spawned"
  unfolding demo_spawned_def spawn_demo_def
  by (meson agent_step.register converse_rtranclp_into_rtranclp rtranclp.rtrancl_refl)

lemma demo_spawned_inv: "tree_inv demo_spawned"
  using demo_init demo_spawned_reachable by (rule trees.reachable_invar)

lemma demo_idle_reachable: "(agent_step no_routers)\<^sup>*\<^sup>* demo_spawned demo_idle"
proof -
  let ?w = "end_demo (lit ''a'') demo_spawned"
  have 1: "agent_step no_routers demo_spawned ?w"
    unfolding end_demo_def using demo_spawned_inv by (rule complete_step)
  then have "tree_inv ?w" using demo_spawned_inv by (rule agent_step_inv)
  then have "agent_step no_routers ?w demo_idle"
    unfolding demo_idle_def end_demo_def [of "lit ''b''"] by (rule complete_step)
  with 1 show ?thesis by (meson converse_rtranclp_into_rtranclp rtranclp.rtrancl_refl)
qed

lemma demo_tree_reachable: "(agent_step no_routers)\<^sup>*\<^sup>* demo_start demo_tree"
proof -
  have "(agent_step no_routers)\<^sup>*\<^sup>* demo_idle demo_tree"
    unfolding demo_tree_def
    by (meson agent_step.restore_mail converse_rtranclp_into_rtranclp rtranclp.rtrancl_refl)
  with demo_spawned_reachable demo_idle_reachable show ?thesis by (meson rtranclp_trans)
qed

lemma demo_tree_inv: "tree_inv demo_tree"
  using demo_init demo_tree_reachable by (rule trees.reachable_invar)

section \<open>Every reachable tree\<close>

lemma pairwise_apart:
  assumes "distinct (hm_keys m)"
    and "\<And>p e q f. hm_get m p = Some e \<Longrightarrow> hm_get m q = Some f \<Longrightarrow> p \<noteq> q \<Longrightarrow> apart e f"
  shows "sorted_wrt (\<lambda>x y. apart (snd x) (snd y)) m"
  using assms
proof (induction m)
  case (Cons x m)
  have get: "hm_get (x # m) q = Some f" if "hm_get m q = Some f" for q f
    using that Cons.prems(1) by (auto dest: map_of_SomeD) (metis image_eqI fst_conv map_of_SomeD)
  have "sorted_wrt (\<lambda>x y. apart (snd x) (snd y)) m"
    using Cons.prems(1) by (intro Cons.IH Cons.prems(2) get) simp_all
  moreover have "apart (snd x) (snd y)" if "y \<in> set m" for y
  proof (rule Cons.prems(2) [of "fst x" _ "fst y"])
    show "hm_get (x # m) (fst y) = Some (snd y)" using that Cons.prems(1) by (intro get) simp
    show "fst x \<noteq> fst y" using that Cons.prems(1) by auto
  qed simp
  ultimately show ?case by simp
qed simp

lemma distinct_apart:
  fixes m :: "(agent_path \<times> agent_entry) list"
  assumes "sorted_wrt (\<lambda>x y. apart (snd x) (snd y)) m"
  shows "distinct (map (\<lambda>(p, e). session_id e) m)" "distinct (map (\<lambda>(p, e). spawn_order e) m)"
    "distinct (map (\<lambda>(p, e). entry_control e) m)"
    "distinct (List.map_filter (\<lambda>(p, e). execution_marker e) m)"
proof -
  show "distinct (map (\<lambda>(p, e). session_id e) m)" "distinct (map (\<lambda>(p, e). spawn_order e) m)"
    "distinct (map (\<lambda>(p, e). entry_control e) m)"
    using assms by (induction m) (auto simp: apart_def)
  have mem: "k \<in> set (List.map_filter (\<lambda>(p, e). execution_marker e) m) \<longleftrightarrow>
             (\<exists>x \<in> set m. execution_marker (snd x) = Some k)" for k and m :: "(agent_path \<times> agent_entry) list"
    by (force simp: List.map_filter_def)
  show "distinct (List.map_filter (\<lambda>(p, e). execution_marker e) m)"
    using assms
  proof (induction m)
    case (Cons x m)
    then have "execution_marker (snd x) = Some k \<Longrightarrow> y \<in> set m \<Longrightarrow> execution_marker (snd y) \<noteq> Some k" for y k
      by (auto simp: apart_def)
    moreover have "List.map_filter (\<lambda>(p, e). execution_marker e) (x # m) =
        (case execution_marker (snd x) of None \<Rightarrow> [] | Some k \<Rightarrow> [k]) @
        List.map_filter (\<lambda>(p, e). execution_marker e) m"
      by (simp add: List.map_filter_simps case_prod_beta split: option.splits)
    ultimately show ?case using Cons mem [of _ m] by (auto split: option.splits)
  qed (simp add: List.map_filter_simps)
qed

lemma inv_apart: "tree_inv w \<Longrightarrow> sorted_wrt (\<lambda>x y. apart (snd x) (snd y)) (agents w)"
  unfolding tree_inv_def entries_ok_def by (intro pairwise_apart) blast+

text \<open>
  C12. Every reachable agent tree respects its limits and keeps its agents apart: at most 256
  agents, no more active descendants (running or reserved) than configured, a root, and no two
  agents with the same path, session, spawn order, run control or execution. Every entry is
  consistent: a path and parent of the tree, a status that fits its execution, an awaited
  deferred turn exactly while it awaits descendants, at most 128 notices with distinct ids.
\<close>

theorem reachable_trees_are_consistent:
  assumes "agent_init env w0" and "(agent_step env)\<^sup>*\<^sup>* w0 w"
  shows "length (agents w) \<le> 256 \<and> active_agent_count w \<le> max_concurrent_agents w - 1 \<and>
         hm_contains (agents w) root_path \<and> distinct (hm_keys (agents w)) \<and>
         distinct (map (\<lambda>(p, e). session_id e) (agents w)) \<and>
         distinct (map (\<lambda>(p, e). spawn_order e) (agents w)) \<and>
         distinct (map (\<lambda>(p, e). entry_control e) (agents w)) \<and>
         distinct (List.map_filter (\<lambda>(p, e). execution_marker e) (agents w)) \<and>
         list_all (\<lambda>(p, e). entry_ok e \<and> placed w p e) (agents w)"
proof -
  have inv: "tree_inv w" using assms by (rule trees.reachable_invar)
  then have "distinct (hm_keys (agents w))" by (simp add: tree_inv_def)
  with inv have "list_all (\<lambda>(p, e). entry_ok e \<and> placed w p e) (agents w)"
    by (auto simp: list_all_iff tree_inv_def entries_ok_def map_of_eq_Some_iff)
  then show ?thesis
    using inv distinct_apart [OF inv_apart [OF inv]]
    by (simp add: tree_inv_def MAX_RETAINED_AGENTS_def descendant_capacity_def)
qed

theorem reachable_trees_are_consistent_witness:
  "length (agents demo_tree) \<le> 256 \<and> active_agent_count demo_tree \<le> max_concurrent_agents demo_tree - 1"
  using reachable_trees_are_consistent [OF demo_init demo_tree_reachable] by simp


lemma scope_is_surface: "tree_inv w \<Longrightarrow> surface_control w (root_scope_control w)"
  by (auto simp: surface_control_def tree_inv_def scope_ok_def entries_ok_def placed_def)

lemma demo_scope: "root_scope_control demo_tree = 0"
  by code_simp


text \<open>
  C14. The scheduler of an agent tree never panics and is fair and work conserving: on every
  tree that satisfies the invariant it serves exactly the first eligible agents in spawn
  order, as many as capacity is left for (none after a tree-wide stop). Every lease it returns
  is the current execution of its agent, with a fresh marker and control and the wake that
  agent had; every other agent is untouched.
\<close>

theorem scheduler_serves_in_spawn_order:
  assumes "tree_inv w"
  shows "\<exists>w' leases. reserve_pending_triggered_executions_locked w = Some (w', leases) \<and>
           tree_inv w' \<and>
           map lease_path leases =
             (if tree_cancelled w then []
              else take (descendant_capacity w - active_agent_count w) (candidates w)) \<and>
           set (candidates w) = {p. \<exists>e. hm_get (agents w) p = Some e \<and> is_candidate p e} \<and>
           sorted (map (\<lambda>p. case hm_get (agents w) p of Some e \<Rightarrow> spawn_order e | None \<Rightarrow> 0)
                     (candidates w)) \<and>
           served w w' leases"
proof -
  have d: "distinct (hm_keys (agents w))" using assms by (simp add: tree_inv_def)
  show ?thesis
    using reserve_spec [OF assms] set_candidates [OF d] sorted_candidates [OF d] by blast
qed



theorem scheduler_serves_in_spawn_order_witness:
  "map_option (\<lambda>(w', ls). map lease_path ls) (reserve_pending_triggered_executions_locked demo_tree) =
     Some [demo_path (lit ''a''), demo_path (lit ''b'')]"
proof -
  have "candidates demo_tree = [demo_path (lit ''a''), demo_path (lit ''b'')]" by code_simp
  moreover have "descendant_capacity demo_tree - active_agent_count demo_tree = 2" by code_simp
  moreover have "\<not> tree_cancelled demo_tree" by code_simp
  ultimately show ?thesis using scheduler_serves_in_spawn_order [OF demo_tree_inv] by auto
qed

section \<open>Leases\<close>

text \<open>
  C15. A lease is good for one completion. Once a completion by a lease succeeded, the lease
  is refused by every later tree, however its execution slot is reused in between: it cannot
  complete the execution again, set its status, be dropped with an effect, or pass as the
  caller of another operation.
\<close>

theorem completed_lease_is_refused_forever:
  assumes "agent_init env w0" and "(agent_step env)\<^sup>*\<^sup>* w0 w"
    and "complete_execution w l st act = Some (w1, Ok leases)" and "(agent_step env)\<^sup>*\<^sup>* w1 w2"
  shows "(\<exists>err. complete_execution w2 l st' act' = Some (w2, Err err)) \<and>
         (\<exists>err. lease_set_status w2 l ast = (w2, Err err)) \<and> lease_drop l w2 = w2 \<and>
         \<not> is_ok (validate_execution_scope_locked w2 (lease_scope w2 l alive) (lease_path l))"
proof -
  have inv: "tree_inv w" using assms(1,2) by (rule trees.reachable_invar)
  have "lost l w1" using completion_loses [OF inv assms(3)] by simp
  moreover have "tree_inv w1" using inv_complete [OF inv, of l st act] assms(3) by auto
  ultimately have "lost l w2" using lost_forever [OF assms(4)] by blast
  then have no: "execution_marker e \<noteq> Some (lease_marker l)" if "hm_get (agents w2) (lease_path l) = Some e" for e
    using that by (auto simp: lost_def owns_def)
  then have drop: "lease_drop l w2 = w2"
    by (auto simp: lease_drop_def release_execution_def split: option.splits)
  with no show ?thesis
    by (auto simp: complete_execution_def lease_set_status_def mutate_execution_def Let_def lease_scope_def
                   validate_execution_scope_locked_def split: option.splits)
qed

lemma returned_Ok: "case x of Some (_, Inr _) \<Rightarrow> True | _ \<Rightarrow> False \<Longrightarrow> \<exists>w ls. x = Some (w, Ok ls)"
  by (cases x) (auto split: sum.splits)

theorem completed_lease_is_refused_forever_witness:
  "let l = demo_lease demo_spawned (lit ''a'');
       w1 = fst (the (complete_execution demo_spawned l (InactiveCompleted None) None))
   in \<exists>err. complete_execution w1 l InactiveInterrupted None = Some (w1, Err err)"
proof -
  let ?l = "demo_lease demo_spawned (lit ''a'')"
  let ?c = "complete_execution demo_spawned ?l (InactiveCompleted None) None"
  have "case ?c of Some (_, Inr _) \<Rightarrow> True | _ \<Rightarrow> False" by code_simp
  then obtain w1 ls where c: "?c = Some (w1, Ok ls)" by (blast dest: returned_Ok)
  from completed_lease_is_refused_forever [OF demo_init demo_spawned_reachable c rtranclp.rtrancl_refl]
  show ?thesis by (simp add: c)
qed

text \<open>
  A continuation of the root task never displaces work: it is admitted only for the scope
  of the current task, after the root turn completed, with its success sealed and no execution
  left, and while the tree accepts work. It gives the root a fresh execution and control, owned
  by the lease it returns, and leaves every descendant and every existing control alone.
\<close>

theorem continuation_follows_a_completed_turn:
  assumes "tree_inv w" and "try_acquire_root_continuation env w c = (w', Ok (ContinuationAdmitted l))"
  shows "c = root_scope_control w \<and> \<not> tree_cancelled w \<and>
         \<not> root_admission_stop_is_sealed (heap w (root_scope_control w)) \<and>
         (\<exists>e r. hm_get (agents w) root_path = Some e \<and> status e = Completed r \<and> execution_marker e = None \<and>
            success_is_sealed (heap w (entry_control e)) \<and>
            hm_get (agents w') root_path = Some (start_execution (lease_marker l) (lease_control l) e)) \<and>
         next_marker w \<le> lease_marker l \<and> next_ctl w \<le> lease_control l \<and>
         terminal_router (heap w' (lease_control l)) = Some (tree_router w) \<and>
         (\<forall>q. \<not> is_root q \<longrightarrow> hm_get (agents w') q = hm_get (agents w) q) \<and>
         (\<forall>i < next_ctl w. heap w' i = heap w i)"
proof -
  from assms(2) obtain e r where e: "hm_get (agents w) root_path = Some e" "status e = Completed r"
    by (auto simp: try_acquire_root_continuation_def split: if_splits option.splits agent_status.splits)
  then have "execution_marker e = None"
    using entry_ok_of [OF assms(1) e(1)] by (auto simp: entry_ok_def)
  with e assms(2) show ?thesis
    by (auto simp: try_acquire_root_continuation_def same_owner_def install_root_terminal_router_def
                   alloc_control_def alloc_marker_def install_new with_entry_def child_lease_def
                   notify_activity_def Let_def is_root_def root_path_def
             split: if_splits)
qed

text \<open>The example tree after its root turn succeeded.\<close>

definition demo_finished :: agent_control where
  "demo_finished =
     fst (the (complete_execution
       (demo_start\<lparr>heap := (heap demo_start)(1 := fst (seal_success (heap demo_start 1)))\<rparr>)
       demo_root_lease (InactiveCompleted None) None))"

lemma demo_start_inv: "tree_inv demo_start"
  using demo_init rtranclp.rtrancl_refl by (rule trees.reachable_invar)

lemma demo_finished_inv: "tree_inv demo_finished"
proof -
  have "tree_inv (demo_start\<lparr>heap := (heap demo_start)(1 := fst (seal_success (heap demo_start 1)))\<rparr>)"
    using demo_start_inv by (rule inv_heap_upd) (simp add: seal_success_def case_prod_beta Let_def)
  from agent_step_inv [OF complete_step [OF this] this] show ?thesis unfolding demo_finished_def .
qed

theorem continuation_follows_a_completed_turn_witness:
  "case try_acquire_root_continuation no_routers demo_finished 0 of
     (w', Inr (ContinuationAdmitted l)) \<Rightarrow> terminal_router (heap w' (lease_control l)) = Some (tree_router demo_finished)
   | _ \<Rightarrow> False"
proof -
  have "case try_acquire_root_continuation no_routers demo_finished 0 of
          (w', Inr (ContinuationAdmitted l)) \<Rightarrow> True | _ \<Rightarrow> False" by code_simp
  then obtain w' l where "try_acquire_root_continuation no_routers demo_finished 0 = (w', Ok (ContinuationAdmitted l))"
    by (auto split: prod.splits sum.splits agent_root_continuation_outcome.splits)
  with continuation_follows_a_completed_turn [OF demo_finished_inv this] show ?thesis by simp
qed

text \<open>
  Cancelling the root turn stops nothing else: only the control of the root turn may
  change. The registry, the task scope and with it the admission of further work, and the
  control of every descendant stay as they are.
\<close>

theorem root_cancellation_is_local:
  assumes "tree_inv w" and "cancel_root_execution_at_scope_control w c x settled = (w', r)"
  shows "agents w' = agents w \<and> tree_cancelled w' = tree_cancelled w \<and>
         (\<forall>p e. hm_get (agents w) p = Some e \<longrightarrow> \<not> is_root p \<longrightarrow>
            heap w' (entry_control e) = heap w (entry_control e)) \<and>
         (c \<noteq> root_scope_control w \<longrightarrow> w' = w \<and> r = Ok None)"
proof -
  obtain root where root: "hm_get (agents w) root_path = Some root" using assms(1) by (rule get_root)
  have "entry_control root \<noteq> root_scope_control w"
    using assms(1) root by (auto simp: tree_inv_def entries_ok_def placed_def)
  moreover have "entry_control e \<noteq> entry_control root" if "hm_get (agents w) p = Some e" "\<not> is_root p" for p e
  proof -
    have "p \<noteq> root_path" using that(2) by auto
    then have "apart e root"
      using assms(1) that(1) root unfolding tree_inv_def entries_ok_def by blast
    then show ?thesis by (simp add: apart_def)
  qed
  ultimately show ?thesis
    using assms(2) root
    by (auto simp: cancel_root_execution_at_scope_control_def same_owner_def tree_cancelled_def
                   notify_activity_def Let_def case_prod_beta
             split: if_splits run_cancel_outcome.splits)
qed

theorem root_cancellation_is_local_witness:
  "let (w', r) = cancel_root_execution_at_scope_control demo_tree 0 UserStop False
   in \<not> tree_cancelled w' \<and> r = Ok (Some StopApplied)"
proof -
  obtain w' r where c: "cancel_root_execution_at_scope_control demo_tree 0 UserStop False = (w', r)"
    by (cases "cancel_root_execution_at_scope_control demo_tree 0 UserStop False")
  have "snd (cancel_root_execution_at_scope_control demo_tree 0 UserStop False) = Ok (Some StopApplied)"
    by code_simp
  moreover have "\<not> tree_cancelled demo_tree" by code_simp
  ultimately show ?thesis
    using c root_cancellation_is_local [OF demo_tree_inv c] by simp
qed

end
