(* ===== verification/Agent_Routing.thy ===== *)
theory Agent_Routing
  imports Agent_Props
begin

text \<open>
  The interface between run controls and agent trees. A run control hands its terminal requests
  to the router of its tree and relies on two promises: a routed request changes one control, and
  no control loses its router. They make every terminal request a step of a tree's
  surroundings. The agent tree keeps them with its root turn as the one control.
\<close>

section \<open>What a run control relies on\<close>

locale terminal_route =
  fixes route :: run_terminal_route
    and target :: ctl_id
  assumes one_control: "route h i kind x = Some (h', r) \<Longrightarrow> \<exists>rc. h' = h(target := rc)"
    and same_router: "route h i kind x = Some (h', r) \<Longrightarrow>
          terminal_router (h' target) = terminal_router (h target)"
begin

lemma routed_keeps_routers:
  assumes "route h i kind x = Some (h', r)"
  shows "terminal_router (h' c) = terminal_router (h c)"
  using one_control [OF assms] same_router [OF assms] by auto

text \<open>
  A request on a control that belongs to this router: only the target or, if the router does
  not take the request, the control itself can change; no router is lost.
\<close>

lemma request_cancel_frame:
  assumes "env router = Some route" and "terminal_router (h i) = Some router \<or> terminal_router (h i) = None"
    and "request_cancel env h i x = (h', r)"
  shows "(c \<noteq> target \<longrightarrow> c \<noteq> i \<longrightarrow> h' c = h c) \<and> terminal_router (h' c) = terminal_router (h c)"
proof (cases "route_terminal env h i Request x")
  case None
  with assms(3) show ?thesis by (auto simp: request_cancel_def case_prod_beta Let_def)
next
  case (Some y)
  with assms obtain h2 r2 where "route h i Request x = Some (h2, r2)" "y = (h2, r2)"
    by (cases y) (auto simp: route_terminal_def)
  with Some assms(3) one_control routed_keeps_routers show ?thesis
    by (fastforce simp: request_cancel_def)
qed

end

section \<open>What the tree promises\<close>

text \<open>The control of the root turn, on which a tree classifies routed requests.\<close>

definition root_turn_control :: "agent_control \<Rightarrow> ctl_id" where
  "root_turn_control w = (case hm_get (agents w) root_path of Some e \<Rightarrow> entry_control e | None \<Rightarrow> 0)"

lemma local_resolution_router [simp]:
  "terminal_router (fst (resolve_success_commit_authoritatively_local rc x)) = terminal_router rc"
  "terminal_router (fst (abandon_success_commit_local rc x)) = terminal_router rc"
  by (auto simp: resolve_success_commit_authoritatively_local_def abandon_success_commit_local_def
                 resolve_success_commit_local_def case_prod_beta Let_def split: option.splits)

interpretation tree_route: terminal_route "route_terminal_outcome w" "root_turn_control w"
proof
  fix h i kind x h' r
  assume a: "route_terminal_outcome w h i kind x = Some (h', r)"
  show "\<exists>rc. h' = h(root_turn_control w := rc)"
    using a
    by (auto simp: route_terminal_outcome_def root_turn_control_def Let_def case_prod_beta
             split: option.splits if_splits run_terminal_route_kind.splits)
       (metis fun_upd_triv)
  show "terminal_router (h' (root_turn_control w)) = terminal_router (h (root_turn_control w))"
    using a
    by (auto simp: route_terminal_outcome_def root_turn_control_def Let_def case_prod_beta
             split: option.splits if_splits run_terminal_route_kind.splits)
qed

text \<open>
  C16. A stop of the task is a stop of the root turn, and a stop of a descendant stays there.
  In a tree whose router is alive, a request on the task scope or on the root turn is
  classified on the root turn's control and nowhere else, so the scope itself stays open for
  further work; a request on the control of a descendant is classified on that control alone.
  In every case the resulting heap is one the surroundings of the tree may produce.
\<close>

theorem terminal_requests_find_their_turn:
  assumes "tree_inv w" and "env (tree_router w) = Some (route_terminal_outcome w)"
    and "hm_get (agents w) p = Some e" and "i = entry_control e \<or> i = root_scope_control w"
  shows "let target = (if i = root_scope_control w then root_turn_control w else i);
             (rc, outcome) = request_cancel_local (heap w target) x
         in request_cancel env (heap w) i x = ((heap w)(target := rc), outcome) \<and>
            surroundings w ((heap w)(target := rc)) (next_ctl w) \<and>
            (i = root_scope_control w \<longrightarrow> tree_cancelled (w\<lparr>heap := (heap w)(target := rc)\<rparr>) = tree_cancelled w)"
proof -
  obtain root where root: "hm_get (agents w) root_path = Some root" using assms(1) by (rule get_root)
  have rc: "root_turn_control w = entry_control root" by (simp add: root_turn_control_def root)
  have old: "placed w q f" if "hm_get (agents w) q = Some f" for q f
    using assms(1) that by (simp add: tree_inv_def entries_ok_def)
  have scope: "terminal_router (heap w (root_scope_control w)) = Some (tree_router w)"
    using assms(1) by (simp add: tree_inv_def scope_ok_def)
  let ?t = "if i = root_scope_control w then root_turn_control w else i"
  let ?h = "(heap w)(?t := fst (request_cancel_local (heap w ?t) x))"
  have req: "request_cancel env (heap w) i x = (?h, snd (request_cancel_local (heap w ?t) x))"
  proof (cases "i = root_scope_control w \<or> is_root p")
    case True
    then have r: "terminal_router (heap w i) = Some (tree_router w)" and
      s: "i = root_scope_control w \<or> i = entry_control root"
      using assms(3,4) scope old [OF assms(3)] root
      by (auto simp: placed_def is_root_def root_path_def)
    with assms(2) root rc show ?thesis
      by (auto simp: request_cancel_def route_terminal_def route_terminal_outcome_def same_owner_def Let_def
                     case_prod_beta)
  next
    case False
    with assms(4) child_router [OF assms(1,3)] show ?thesis
      by (auto simp: request_cancel_def route_terminal_def case_prod_beta Let_def)
  qed
  have "terminal_router (heap w i) = Some (tree_router w) \<or> terminal_router (heap w i) = None"
    using assms(4) scope old [OF assms(3)] by (auto simp: placed_def)
  with tree_route.request_cancel_frame [OF assms(2) _ req] have "surroundings w ?h (next_ctl w)"
    by (simp add: surroundings_def)
  moreover have "root_turn_control w \<noteq> root_scope_control w"
    using old [OF root] rc by (simp add: placed_def)
  ultimately show ?thesis using req by (simp add: Let_def case_prod_beta tree_cancelled_def)
qed

theorem terminal_requests_find_their_turn_witness:
  "let env = (\<lambda>r. if r = 9 then Some (route_terminal_outcome demo_tree) else None)
   in snd (request_cancel env (heap demo_tree) 0 (Interruption UserStop)) =
      snd (request_cancel_local (heap demo_tree 1) (Interruption UserStop))"
proof -
  let ?env = "\<lambda>r. if r = (9 :: router_id) then Some (route_terminal_outcome demo_tree) else None"
  have "tree_router demo_tree = 9" "root_turn_control demo_tree = 1" by code_simp+
  then have e: "?env (tree_router demo_tree) = Some (route_terminal_outcome demo_tree)"
    "root_turn_control demo_tree = 1" by simp_all
  obtain root where r: "hm_get (agents demo_tree) root_path = Some root" using demo_tree_inv by (rule get_root)
  from terminal_requests_find_their_turn [OF demo_tree_inv, of ?env root_path root 0 "Interruption UserStop"] e r
  show ?thesis by (simp add: demo_scope Let_def case_prod_beta)
qed

section \<open>The index by session\<close>

text \<open>
  The lookup by session is exact: it returns the path of the one agent with that session,
  and nothing if there is none.
\<close>

theorem session_lookup_is_exact:
  assumes "tree_inv w"
  shows "path_for_session w s = Some p \<longleftrightarrow> (\<exists>e. hm_get (agents w) p = Some e \<and> session_id e = s)"
proof -
  have d: "distinct (hm_keys (agents w))" using assms by (simp add: tree_inv_def)
  have one: "p = q" if "hm_get (agents w) p = Some e" "hm_get (agents w) q = Some f" "session_id e = session_id f" for p q e f
    using assms that unfolding tree_inv_def entries_ok_def apart_def by metis
  show ?thesis
  proof
    assume "path_for_session w s = Some p"
    then obtain e where "List.find (\<lambda>(_, e). session_id e = s) (agents w) = Some (p, e)"
      by (auto simp: path_for_session_def)
    then have "(p, e) \<in> set (agents w)" "session_id e = s" by (auto simp: find_Some_iff) (metis nth_mem)
    with d show "\<exists>e. hm_get (agents w) p = Some e \<and> session_id e = s" by auto
  next
    assume "\<exists>e. hm_get (agents w) p = Some e \<and> session_id e = s"
    then obtain e where e: "hm_get (agents w) p = Some e" "session_id e = s" by blast
    then have "List.find (\<lambda>(_, e). session_id e = s) (agents w) \<noteq> None"
      by (auto simp: find_None_iff dest: map_of_SomeD)
    then obtain q f where f: "List.find (\<lambda>(_, e). session_id e = s) (agents w) = Some (q, f)" by auto
    then have "(q, f) \<in> set (agents w)" "session_id f = s" by (auto simp: find_Some_iff) (metis nth_mem)
    with d e one [of p e q f] f show "path_for_session w s = Some p" by (simp add: path_for_session_def)
  qed
qed

theorem session_lookup_is_exact_witness: "path_for_session demo_tree 72 = Some (demo_path (lit ''b''))"
proof -
  have "map_option session_id (hm_get (agents demo_tree) (demo_path (lit ''b''))) = Some 72" by code_simp
  then show ?thesis using session_lookup_is_exact [OF demo_tree_inv] by auto
qed

end
