(* ===== verification/Agent_Mailbox.thy ===== *)
theory Agent_Mailbox
  imports Agent_Routing
begin

text \<open>
  What the mailbox operations of an agent tree promise: messages are delivered once, a closing
  mailbox takes no new tasks, a deferred release is not lost to a race with the completion it
  waits for, spawning is all or nothing, and a quiescent tree has nothing left to run.
\<close>

section \<open>Delivery\<close>

lemma served_mailbox:
  assumes "served w w' ls" and "hm_get (agents w) q = Some f"
  shows "\<exists>f'. hm_get (agents w') q = Some f' \<and> mailbox f' = mailbox f"
proof (cases "q \<in> set (map lease_path ls)")
  case True
  then obtain l where "l \<in> set ls" "q = lease_path l" by auto
  with assms show ?thesis by (fastforce simp: served_def start_execution_def)
next
  case False
  with assms show ?thesis by (simp add: served_def)
qed

lemma schedule_mailbox:
  assumes "tree_inv w" and "schedule_and_notify b w = Some (w', r)" and "hm_get (agents w) q = Some f"
  shows "\<exists>f'. hm_get (agents w') q = Some f' \<and> mailbox f' = mailbox f"
  using schedule_spec [OF assms(1), of b] assms(2,3) served_mailbox by fastforce

lemma mailbox_release [simp]: "mailbox (snd (project_deferred_owner_release h e t)) = mailbox e"
  by (auto simp: project_deferred_owner_release_def split: option.splits)

lemma mailbox_resume [simp]:
  "mailbox (snd (reconcile_current_owner_resume_request e r)) = mailbox e"
  "mailbox (snd (project_owner_resume_request e r)) = mailbox e"
  by (auto simp: reconcile_current_owner_resume_request_def project_owner_resume_request_def split: option.splits)

lemma has_notice_mailbox: "mailbox e = mailbox f \<Longrightarrow> has_notice i e = has_notice i f"
  by (simp add: has_notice_def)

lemma deliver_ids:
  "map notice_id (mailbox (snd (deliver h t r c m e))) =
     map notice_id (mailbox e) @
     (if has_notice (commit_history_item_id m) e \<or> MAX_AGENT_MAILBOX_NOTICES \<le> length (mailbox e) then []
      else [commit_history_item_id m])"
proof -
  let ?e1 = "if c then snd (project_deferred_owner_release h e r) else e"
  have 1: "mailbox ?e1 = mailbox e" by simp
  then have 2: "has_notice i ?e1 = has_notice i e" for i by (rule has_notice_mailbox)
  show ?thesis
    using 1 2
    by (cases c) (auto simp: deliver_def Let_def case_prod_beta push_notice_def)
qed

text \<open>
  A committed message reaches its recipient once: its notice is appended behind those
  already queued, unless a notice of the same history item is queued or the mailbox is full
  (a child result may be committed to a full mailbox; it then stays in the durable history
  only). Repeating the commit therefore adds nothing, and no other mailbox changes, whatever
  executions the delivery schedules.
\<close>

theorem mail_is_queued_once:
  assumes "tree_inv w" and "mail_commit w p trigger released handoff ticket c = Some (w', r)"
    and "hm_get (agents w) p = Some e" and "session_id e = ticket_session ticket"
  shows "(\<exists>e'. hm_get (agents w') p = Some e' \<and> distinct (map notice_id (mailbox e')) \<and>
            map notice_id (mailbox e') =
              map notice_id (mailbox e) @
              (if has_notice (commit_history_item_id c) e \<or> 128 \<le> length (mailbox e) then []
               else [commit_history_item_id c])) \<and>
         (\<forall>q f. q \<noteq> p \<longrightarrow> hm_get (agents w) q = Some f \<longrightarrow>
            (\<exists>f'. hm_get (agents w') q = Some f' \<and> mailbox f' = mailbox f))"
proof -
  let ?w = "release_reservation ticket w"
  let ?d = "deliver (heap ?w) trigger released handoff c e"
  let ?u = "with_entry p (\<lambda>_. snd ?d) ?w"
  have ag: "agents ?w = agents w" by (simp add: release_reservation_def)
  have inv: "tree_inv ?w" using assms(1) by (rule inv_release_reservation)
  have "tree_inv ?u" using inv assms(3) deliver_keeps ag by (intro inv_entry_kept) auto
  moreover obtain r2 where s: "schedule_and_notify (fst ?d \<and> \<not> tree_cancelled ?u) ?u = Some (w', r2)"
    using assms(2-4) ag by (auto simp: mail_commit_def Let_def case_prod_beta)
  ultimately have kept: "\<exists>f'. hm_get (agents w') q = Some f' \<and> mailbox f' = mailbox f"
    if "hm_get (agents ?u) q = Some f" for q f
    using that by (rule schedule_mailbox)
  obtain e' where e': "hm_get (agents w') p = Some e'" "mailbox e' = mailbox (snd ?d)"
    using kept [of p "snd ?d"] assms(3) ag by (auto simp: with_entry_def)
  have "tree_inv w'" using inv_mail_commit [OF assms(1)] assms(2) by (rule some_inv)
  then have "distinct (map notice_id (mailbox e'))"
    using entry_ok_of [OF _ e'(1)] by (simp add: entry_ok_def)
  moreover have "map notice_id (mailbox e') = map notice_id (mailbox e) @
      (if has_notice (commit_history_item_id c) e \<or> 128 \<le> length (mailbox e) then []
       else [commit_history_item_id c])"
    unfolding e'(2) deliver_ids by (simp add: MAX_AGENT_MAILBOX_NOTICES_def)
  moreover have "\<exists>f'. hm_get (agents w') q = Some f' \<and> mailbox f' = mailbox f"
    if "q \<noteq> p" "hm_get (agents w) q = Some f" for q f
    using kept [of q f] that ag by (simp add: with_entry_def)
  ultimately show ?thesis using e'(1) by blast
qed

definition demo_ticket :: mail_ticket where
  "demo_ticket = \<lparr>ticket_session = 71, capacity_granted = False, capacity_reserved = False,
                  committed_generation = 2\<rparr>"

definition demo_commit :: "history_item_id \<Rightarrow> agent_mail_commit" where
  "demo_commit i = \<lparr>commit_history_item_id = i, schedule_turn = False, commit_owner_resume = None\<rparr>"

theorem mail_is_queued_once_witness:
  "let p = demo_path (lit ''a'');
       ids = (\<lambda>c. Option.bind (mail_commit demo_tree p False None False demo_ticket c)
                    (\<lambda>(w', _). map_option (map notice_id \<circ> mailbox) (hm_get (agents w') p)))
   in ids (demo_commit 600) = Some [501, 600] \<and> ids (demo_commit 501) = Some [501]"
proof -
  let ?p = "demo_path (lit ''a'')"
  have g: "map_option (\<lambda>e. (session_id e, map notice_id (mailbox e))) (hm_get (agents demo_tree) ?p) =
        Some (71, [501])" by code_simp
  then obtain e where e: "hm_get (agents demo_tree) ?p = Some e" "session_id e = ticket_session demo_ticket"
    "map notice_id (mailbox e) = [501]" by (auto simp: demo_ticket_def)
  have "length (map notice_id (mailbox e)) = 1" by (simp only: e(3)) simp
  then have len: "\<not> 128 \<le> length (mailbox e)" by simp
  have has: "has_notice i e \<longleftrightarrow> i = 501" for i
    using e(3) by (auto simp: has_notice_def)
  have "Option.bind (mail_commit demo_tree ?p False None False demo_ticket c)
          (\<lambda>(w', _). map_option (map notice_id \<circ> mailbox) (hm_get (agents w') ?p)) =
        Some ([501] @ (if commit_history_item_id c = 501 then [] else [commit_history_item_id c]))" for c
  proof -
    from inv_mail_commit [OF demo_tree_inv] obtain w' r where
      m: "mail_commit demo_tree ?p False None False demo_ticket c = Some (w', r)" by blast
    from mail_is_queued_once [OF demo_tree_inv m e(1,2)] e(3) len has show ?thesis by (auto simp: m)
  qed
  then show ?thesis by (simp add: demo_commit_def)
qed

section \<open>Closing a mailbox\<close>

lemma saturating_succ_neq_0: "saturating_succ (n :: u32) \<noteq> 0"
  by (auto simp: saturating_succ_def) (metis add.commute add_eq_0_iff)

text \<open>
  While the terminal of an execution is settled, no new task enters: after the first phase
  of a terminal cancellation every attempt to send a task to that agent is refused and changes
  nothing, until the second phase removed the tasks queued before.
\<close>

theorem closing_mailbox_refuses_tasks:
  assumes "terminal_cancel_begin w p = (w', Ok purge)"
  shows "\<exists>err. mail_begin w' author p True handoff scope0 = (w', Err err)"
proof -
  from assms obtain e where "hm_get (agents w') p = Some e" "trigger_purge_pending e \<noteq> 0"
    by (auto simp: terminal_cancel_begin_def Let_def case_prod_beta with_entry_def notify_activity_def
                   saturating_succ_neq_0 split: option.splits if_splits)
  then show ?thesis
    by (auto simp: mail_begin_def split: option.splits sum.splits)
qed

theorem closing_mailbox_refuses_tasks_witness:
  "\<exists>w' purge err. terminal_cancel_begin demo_tree (demo_path (lit ''a'')) = (w', Ok purge) \<and>
     mail_begin w' root_path (demo_path (lit ''a'')) True False None = (w', Err err)"
proof -
  have "is_ok (snd (terminal_cancel_begin demo_tree (demo_path (lit ''a''))))" by code_simp
  then obtain w' purge where "terminal_cancel_begin demo_tree (demo_path (lit ''a'')) = (w', Ok purge)"
    by (metis is_ok_simps(2) prod.collapse sum.exhaust)
  with closing_mailbox_refuses_tasks [OF this] show ?thesis by blast
qed

text \<open>
  The second phase of a terminal cancellation removes exactly the tasks it covers: those
  queued up to the generation the first phase read. Ordinary messages and tasks queued later
  stay, in their order; an owner continuation is dropped only if it is the one the first phase
  saw. A purge of another session or of an older closing epoch changes nothing.
\<close>

theorem terminal_purge_is_exact:
  assumes "hm_get (agents w) p = Some e"
  shows "\<exists>e'. hm_get (agents (fst (terminal_cancel_purge w p g))) p = Some e' \<and>
           (if session_id e = purge_session g \<and> trigger_admission_epoch e = purge_epoch g
            then mailbox e' = filter (\<lambda>n. \<not> trigger_turn n \<or> purge_through_generation g < notice_generation n)
                                (mailbox e) \<and>
                 pending_owner_resume e' =
                   (if pending_owner_resume e = purge_owner_resume g then None else pending_owner_resume e) \<and>
                 trigger_purge_pending e' = saturating_pred (trigger_purge_pending e) \<and>
                 execution_marker e' = execution_marker e \<and> status e' = status e
            else e' = e \<and> fst (terminal_cancel_purge w p g) = w)"
  using assms
  by (auto simp: terminal_cancel_purge_def with_entry_def notify_activity_def retain_notices_def Let_def)

theorem terminal_purge_is_exact_witness:
  "let p = demo_path (lit ''a''); (w', r) = terminal_cancel_begin demo_tree p;
       w'' = fst (terminal_cancel_purge w' p (projr r))
   in map_option mailbox (hm_get (agents w'') p) = Some []"
proof -
  let ?p = "demo_path (lit ''a'')"
  let ?w = "fst (terminal_cancel_begin demo_tree ?p)"
  let ?g = "projr (snd (terminal_cancel_begin demo_tree ?p))"
  have "map_option (\<lambda>e. session_id e = purge_session ?g \<and> trigger_admission_epoch e = purge_epoch ?g \<and>
          filter (\<lambda>n. \<not> trigger_turn n \<or> purge_through_generation ?g < notice_generation n) (mailbox e) = [])
          (hm_get (agents ?w) ?p) = Some True" by code_simp
  then obtain e where e: "hm_get (agents ?w) ?p = Some e" "session_id e = purge_session ?g"
    "trigger_admission_epoch e = purge_epoch ?g"
    "filter (\<lambda>n. \<not> trigger_turn n \<or> purge_through_generation ?g < notice_generation n) (mailbox e) = []"
    by auto
  with terminal_purge_is_exact [OF e(1), of ?g] show ?thesis by (auto simp: Let_def case_prod_beta)
qed

section \<open>The race of a release with its completion\<close>

lemma promote_promote [simp]: "promote_triggers (promote_triggers e) = promote_triggers e"
  by (simp add: promote_triggers_def comp_def if_distrib [of trigger_turn] cong: if_cong)

lemma promoted_ready: "list_all (\<lambda>n. schedule_ready n \<or> \<not> trigger_turn n) (mailbox (promote_triggers e))"
  by (auto simp: promote_triggers_def list_all_iff)

text \<open>The two halves of a released wait, as the callers of the projection run them.\<close>

definition release_entry :: "ctl_heap \<Rightarrow> turn_id \<Rightarrow> agent_entry \<Rightarrow> agent_entry" where
  "release_entry h t e =
     (let (promotes, e1) = project_deferred_owner_release h e (Some t)
      in if promotes then promote_triggers e1 else e1)"

text \<open>
  C17. The release of a deferred turn and the completion that starts to wait for it commute:
  whether the last descendant finishes before or after its owner's turn is recorded as waiting,
  the owner ends up with the same state, and the tasks that were held back are ready. Neither
  order loses the wake.
\<close>

theorem release_and_completion_commute:
  assumes "entry_ok e" and "execution_marker e \<noteq> None" and "active_durable_turn e = Some t"
    and "cause (h (entry_control e)) = None"
  shows "completed_entry (InactiveAwaiting t) act (release_entry h t e) =
         release_entry h t (completed_entry (InactiveAwaiting t) act e) \<and>
         list_all (\<lambda>n. schedule_ready n \<or> \<not> trigger_turn n)
           (mailbox (release_entry h t (completed_entry (InactiveAwaiting t) act e)))"
proof -
  have st: "status e \<noteq> Shutdown" using assms(1,2) by (auto simp: entry_ok_def)
  have "release_entry h t e = e\<lparr>pending_deferred_release := Some t\<rparr>"
    using assms st by (simp add: release_entry_def project_deferred_owner_release_def)
  moreover have "release_entry h t (completed_entry (InactiveAwaiting t) act e) =
                 promote_triggers (completed_entry (InactiveAwaiting t) act e)"
    using assms(4)
    by (simp add: release_entry_def project_deferred_owner_release_def completed_entry_def Let_def)
  moreover have "completed_entry (InactiveAwaiting t) act (e\<lparr>pending_deferred_release := Some t\<rparr>) =
                 promote_triggers (completed_entry (InactiveAwaiting t) act e)"
    by (simp add: completed_entry_def promotes_on_completion_def promote_triggers_def Let_def
                  comp_def if_distrib [of trigger_turn] cong: if_cong)
  ultimately show ?thesis using promoted_ready by simp
qed

definition demo_waiting :: agent_entry where
  "demo_waiting =
     push_notice 700 True False
       ((new_entry 71 (Some root_path) 1 Running None (Some 4) 2 None)\<lparr>active_durable_turn := Some 40\<rparr>)"

theorem release_and_completion_commute_witness:
  "map schedule_ready (mailbox (completed_entry (InactiveAwaiting 40) None
     (release_entry (\<lambda>_. new_run_control) 40 demo_waiting))) = [True]"
proof -
  have "entry_ok demo_waiting \<and> execution_marker demo_waiting \<noteq> None \<and> active_durable_turn demo_waiting = Some 40 \<and>
        cause new_run_control = None" by code_simp
  then have "completed_entry (InactiveAwaiting 40) None (release_entry (\<lambda>_. new_run_control) 40 demo_waiting) =
             release_entry (\<lambda>_. new_run_control) 40 (completed_entry (InactiveAwaiting 40) None demo_waiting)"
    using release_and_completion_commute [of demo_waiting 40 "\<lambda>_. new_run_control" None] by simp
  moreover have "map schedule_ready (mailbox (release_entry (\<lambda>_. new_run_control) 40
                   (completed_entry (InactiveAwaiting 40) None demo_waiting))) = [True]" by code_simp
  ultimately show ?thesis by simp
qed

section \<open>Spawning\<close>

text \<open>
  C18. Spawning is all or nothing in memory, and durable first: on every error the tree is
  unchanged; a success needed a live execution of the parent and a durable record, and adds one
  agent below the parent, with the durable spawn order and a fresh execution that the returned
  lease owns. Nothing else changes.
\<close>

theorem spawn_is_all_or_nothing:
  assumes "tree_inv w"
  shows "case commit_spawn w caller par task s act durable of
           (w', Inl err) \<Rightarrow> w' = w
         | (w', Inr (d, snap, l)) \<Rightarrow>
             validate_execution_scope_locked w caller par = Ok () \<and>
             (\<exists>order. durable = Ok (d, order) \<and> join_path par task = Ok (lease_path l) \<and>
                hm_get (agents w) (lease_path l) = None \<and>
                hm_get (agents w') (lease_path l) =
                  Some (new_entry s (Some par) order PendingInit act (Some (lease_marker l)) (lease_control l) None)) \<and>
             owns w' l \<and> snap = snapshot_agent w' (lease_path l) \<and>
             list_all (\<lambda>q. q = lease_path l \<or> hm_get (agents w') q = hm_get (agents w) q) (hm_keys (agents w')) \<and>
             length (agents w') = Suc (length (agents w)) \<and> tree_inv w'"
proof (cases "commit_spawn w caller par task s act durable")
  case (Pair w' r)
  have inv': "tree_inv w'" using inv_commit_spawn [OF assms, of caller par task s act durable] Pair by simp
  show ?thesis
  proof (cases r)
    case (Inl err)
    with Pair show ?thesis
      by (auto simp: commit_spawn_def and_then_def split: sum.splits prod.splits)
  next
    case (Inr y)
    obtain d snap l where y: "y = (d, snap, l)" by (cases y)
    with Pair Inr obtain p order w1 mk ctl where
      p: "join_path par task = Ok p" "validate_execution_scope_locked w caller par = Ok ()"
        "validate_child_registration_locked w par p s = Ok ()" "durable = Ok (d, order)"
      and i: "insert_child_locked w par p s act (Some order) = Ok (w1, snap, mk, ctl)"
      and l: "l = child_lease p mk ctl" "w' = notify_activity w1"
      by (auto simp: commit_spawn_def and_then_def split: sum.splits prod.splits)
    have new: "hm_get (agents w) p = None"
      using p(3) by (auto simp: validate_child_registration_locked_def hm_contains_def split: if_splits)
    from i obtain w2 where o: "choose_spawn_order w (Some order) = Ok (w2, order)"
      and ag: "agents w1 = hm_insert p (new_entry s (Some par) order PendingInit act (Some mk) ctl None) (agents w)"
      and sn: "snap = snapshot_agent w1 p"
      by (auto simp: insert_child_locked_def and_then_Ok_iff alloc_marker_def alloc_control_def Let_def
                     choose_spawn_order_def split: if_splits option.splits)
    have "snapshot_agent w' p = snapshot_agent w1 p"
      by (simp add: snapshot_agent_def l(2) notify_activity_def)
    with Pair Inr y p new ag sn l inv' show ?thesis
      by (auto simp: child_lease_def notify_activity_def owns_def list_all_iff hm_insert_new new_entry_def
                     map_add_def split: option.splits)
  qed
qed

text \<open>
  What is not all or nothing: a durable record with a spawn order that is already in use (or
  zero) stays committed although the spawn fails and no agent is registered.
\<close>

lemma durable_spawn_without_agent:
  assumes "join_path par task = Ok p" and "validate_execution_scope_locked w caller par = Ok ()"
    and "validate_child_registration_locked w par p s = Ok ()"
  shows "commit_spawn w caller par task s act (Ok (d, 0)) = (w, Err (SpawnOrderAlreadyUsed 0))"
  using assms by (simp add: commit_spawn_def insert_child_locked_def choose_spawn_order_def)

definition demo_caller :: agent_execution_scope where
  "demo_caller = lease_scope demo_start demo_root_lease True"

theorem spawn_is_all_or_nothing_witness:
  "case commit_spawn demo_start demo_caller root_path (lit ''c'') 73 None (Ok ((), 5)) of
     (w', Inr (d, snap, l)) \<Rightarrow> length (agents w') = Suc (length (agents demo_start)) \<and> owns w' l
   | _ \<Rightarrow> False"
proof -
  have "is_ok (snd (commit_spawn demo_start demo_caller root_path (lit ''c'') 73 None (Ok ((), 5))))"
    by code_simp
  with spawn_is_all_or_nothing [OF demo_start_inv, where caller = demo_caller and par = root_path
         and task = "lit ''c''" and s = 73 and act = None and durable = "Ok ((), 5)"]
  show ?thesis by (auto split: prod.splits sum.splits)
qed

section \<open>Quiescence\<close>

text \<open>
  A tree reported as quiescent has nothing to do: no execution is active, and unless the
  tree was stopped no agent waits for its descendants and scheduling starts nothing.
\<close>

theorem quiescent_tree_has_no_work:
  assumes "tree_inv w" and "is_quiescent w"
  shows "list_all (\<lambda>(p, e). execution_marker e = None) (agents w) \<and>
         (\<exists>w'. reserve_pending_triggered_executions_locked w = Some (w', []) \<and> agents w' = agents w) \<and>
         (tree_cancelled w \<or> list_all (\<lambda>(p, e). status e \<noteq> AwaitingDescendants) (agents w))"
proof -
  have "candidates w = []" if "\<not> tree_cancelled w"
  proof -
    have "\<not> is_candidate p e" if "(p, e) \<in> set (agents w)" for p e
      using assms(2) that \<open>\<not> tree_cancelled w\<close>
      by (auto simp: is_quiescent_def list_all_iff agent_has_live_work_def is_candidate_def)
    then have "List.map_filter (\<lambda>(p, e). if is_candidate p e then Some (spawn_order e, p) else None) (agents w) = []"
      by (auto simp: List.map_filter_def filter_empty_conv)
    then show ?thesis by (simp add: candidates_def)
  qed
  then have "reserve_pending_triggered_executions_locked w = Some (w, [])"
    by (simp add: reserve_pending_triggered_executions_locked_def)
  with assms(2) show ?thesis
    by (auto simp: is_quiescent_def list_all_iff agent_has_live_work_def)
qed

theorem quiescent_tree_has_no_work_witness:
  "is_quiescent demo_finished \<and>
   (\<exists>w'. reserve_pending_triggered_executions_locked demo_finished = Some (w', []))"
proof -
  have q: "is_quiescent demo_finished" by code_simp
  from quiescent_tree_has_no_work [OF demo_finished_inv q] q show ?thesis by blast
qed

end
