(* ===== verification/Text_Clip.thy ===== *)
theory Text_Clip
  imports Rust_Text "HOL-Library.Monad_Syntax" "HOL-Library.Sublist"
begin

text \<open>
  Bounded text: the byte length of UTF-8 strings, slicing at byte positions, and the functions of
  \<open>src/src/tool/truncate.rs\<close> that cut text to a budget without cutting a character. A slice at
  a position inside a character panics in Rust; it is the value \<open>None\<close> here.
\<close>

section \<open>Bytes of a string\<close>

definition len_utf8 :: "uchar \<Rightarrow> nat" where
  "len_utf8 c = (if c < 0x80 then 1 else if c < 0x800 then 2 else if c < 0x10000 then 3 else 4)"

definition utf8_len :: "ustr \<Rightarrow> nat" where
  "utf8_len s = sum_list (map len_utf8 s)"

text \<open>\<open>s[..n]\<close> and \<open>s[n..]\<close>.\<close>

fun byte_take :: "nat \<Rightarrow> ustr \<Rightarrow> ustr option" where
  "byte_take 0 s = Some []"
| "byte_take (Suc n) [] = None"
| "byte_take (Suc n) (c # cs) =
     (if len_utf8 c \<le> Suc n then map_option ((#) c) (byte_take (Suc n - len_utf8 c) cs) else None)"

fun byte_drop :: "nat \<Rightarrow> ustr \<Rightarrow> ustr option" where
  "byte_drop 0 s = Some s"
| "byte_drop (Suc n) [] = None"
| "byte_drop (Suc n) (c # cs) =
     (if len_utf8 c \<le> Suc n then byte_drop (Suc n - len_utf8 c) cs else None)"

definition is_char_boundary :: "ustr \<Rightarrow> nat \<Rightarrow> bool" where
  "is_char_boundary s n = (byte_take n s \<noteq> None)"

lemma len_utf8_pos: "1 \<le> len_utf8 c" "len_utf8 c \<noteq> 0" "len_utf8 c \<le> 4"
  by (simp_all add: len_utf8_def)

lemma utf8_len_simps [simp]:
  "utf8_len [] = 0" "utf8_len (c # s) = len_utf8 c + utf8_len s"
  "utf8_len (s @ t) = utf8_len s + utf8_len t" "utf8_len (rev s) = utf8_len s"
  by (simp_all add: utf8_len_def rev_map [symmetric] sum_list.rev)

lemma utf8_len_eq_0 [simp]: "utf8_len s = 0 \<longleftrightarrow> s = []"
  by (cases s) (simp_all add: len_utf8_pos)

lemma byte_take_iff: "byte_take n s = Some t \<longleftrightarrow> (\<exists>u. s = t @ u \<and> utf8_len t = n)"
proof (induction n s arbitrary: t rule: byte_take.induct)
  case (3 n c cs)
  show ?case
  proof (cases "len_utf8 c \<le> Suc n")
    case True
    have "byte_take (Suc n) (c # cs) = Some t \<longleftrightarrow>
          (\<exists>t'. byte_take (Suc n - len_utf8 c) cs = Some t' \<and> t = c # t')" using True by auto
    also have "\<dots> \<longleftrightarrow> (\<exists>t' u. cs = t' @ u \<and> utf8_len t' = Suc n - len_utf8 c \<and> t = c # t')"
      using "3.IH" [OF True] by auto
    also have "\<dots> \<longleftrightarrow> (\<exists>u. c # cs = t @ u \<and> utf8_len t = Suc n)"
      using True by (cases t) auto
    finally show ?thesis .
  next
    case False
    then show ?thesis by (auto simp: Cons_eq_append_conv)
  qed
qed auto

lemma byte_drop_iff: "byte_drop n s = Some u \<longleftrightarrow> (\<exists>t. s = t @ u \<and> utf8_len t = n)"
proof (induction n s arbitrary: u rule: byte_drop.induct)
  case (3 n c cs)
  show ?case
  proof (cases "len_utf8 c \<le> Suc n")
    case True
    have "byte_drop (Suc n) (c # cs) = Some u \<longleftrightarrow> (\<exists>t. cs = t @ u \<and> utf8_len t = Suc n - len_utf8 c)"
      using True "3.IH" [OF True] by simp
    also have "\<dots> \<longleftrightarrow> (\<exists>t. c # cs = t @ u \<and> utf8_len t = Suc n)"
    proof
      assume "\<exists>t. cs = t @ u \<and> utf8_len t = Suc n - len_utf8 c"
      then obtain t where "cs = t @ u" "utf8_len t = Suc n - len_utf8 c" by blast
      with True show "\<exists>t. c # cs = t @ u \<and> utf8_len t = Suc n"
        by (intro exI [of _ "c # t"]) simp
    qed (auto simp: Cons_eq_append_conv)
    finally show ?thesis .
  next
    case False
    then show ?thesis by (auto simp: Cons_eq_append_conv)
  qed
qed auto

lemma boundary_iff: "is_char_boundary s n \<longleftrightarrow> (\<exists>t u. s = t @ u \<and> utf8_len t = n)"
proof -
  have "is_char_boundary s n \<longleftrightarrow> (\<exists>t. byte_take n s = Some t)"
    by (auto simp: is_char_boundary_def)
  then show ?thesis by (simp add: byte_take_iff)
qed

lemma boundary_0 [simp]: "is_char_boundary s 0"
  by (auto simp: boundary_iff)

lemma boundary_len [simp]: "is_char_boundary s (utf8_len s)"
  unfolding boundary_iff by (rule exI [of _ s]) simp

section \<open>Cutting at a character boundary\<close>

text \<open>The loop of \<open>truncate_to_char_boundary\<close>, downwards.\<close>

fun floor_boundary :: "ustr \<Rightarrow> nat \<Rightarrow> nat" where
  "floor_boundary s 0 = 0"
| "floor_boundary s (Suc n) = (if \<not> is_char_boundary s (Suc n) then floor_boundary s n else Suc n)"

definition truncate_to_char_boundary :: "ustr \<Rightarrow> nat \<Rightarrow> ustr option" where
  "truncate_to_char_boundary text0 max_bytes =
     (if utf8_len text0 \<le> max_bytes then Some text0
      else byte_take (floor_boundary text0 (min max_bytes (utf8_len text0))) text0)"

definition clip_text_to_char_boundary :: "ustr \<Rightarrow> nat \<Rightarrow> ustr option" where
  "clip_text_to_char_boundary text0 max_bytes =
     (if utf8_len text0 \<le> max_bytes then Some text0 else truncate_to_char_boundary text0 max_bytes)"

definition clip_text_with_ellipsis :: "ustr \<Rightarrow> nat \<Rightarrow> ustr option" where
  "clip_text_with_ellipsis text0 max_bytes =
     (if utf8_len text0 \<le> max_bytes then Some text0
      else if max_bytes \<le> 3 then clip_text_to_char_boundary text0 max_bytes
      else do { clipped \<leftarrow> clip_text_to_char_boundary text0 (max_bytes - 3);
                Some (trim_end clipped @ lit ''...'') })"

text \<open>The loop of \<open>utf8_suffix_within_bytes\<close>, upwards.\<close>

function ceil_boundary :: "ustr \<Rightarrow> nat \<Rightarrow> nat" where
  "ceil_boundary s n =
     (if n < utf8_len s \<and> \<not> is_char_boundary s n then ceil_boundary s (Suc n) else n)"
  by pat_completeness auto
termination
  by (relation "measure (\<lambda>(s, n). utf8_len s - n)") auto

declare ceil_boundary.simps [simp del]

definition utf8_suffix_within_bytes :: "ustr \<Rightarrow> nat \<Rightarrow> ustr option" where
  "utf8_suffix_within_bytes text0 max_bytes =
     (if utf8_len text0 \<le> max_bytes then Some text0
      else byte_drop (ceil_boundary text0 (utf8_len text0 - max_bytes)) text0)"

definition clip_text_head_tail_with_marker :: "ustr \<Rightarrow> nat \<Rightarrow> ustr \<Rightarrow> ustr option" where
  "clip_text_head_tail_with_marker text0 max_bytes marker0 =
     (if utf8_len text0 \<le> max_bytes then Some text0
      else if max_bytes = 0 then Some []
      else if max_bytes \<le> utf8_len marker0 then clip_text_to_char_boundary text0 max_bytes
      else
        (let retained_budget = max_bytes - utf8_len marker0;
             head_budget = retained_budget div 3;
             tail_budget = retained_budget - head_budget
         in do { head0 \<leftarrow> clip_text_to_char_boundary text0 head_budget;
                 tail0 \<leftarrow> utf8_suffix_within_bytes text0 tail_budget;
                 Some (head0 @ marker0 @ tail0) }))"

lemma floor_boundary_spec:
  "is_char_boundary s (floor_boundary s n) \<and> floor_boundary s n \<le> n \<and>
   (\<forall>m \<le> n. is_char_boundary s m \<longrightarrow> m \<le> floor_boundary s n)"
proof (induction n)
  case (Suc n)
  then show ?case by (auto simp: le_Suc_eq)
qed simp

lemma ceil_boundary_spec:
  "n \<le> utf8_len s \<Longrightarrow>
     is_char_boundary s (ceil_boundary s n) \<and> n \<le> ceil_boundary s n \<and> ceil_boundary s n \<le> utf8_len s"
proof (induction s n rule: ceil_boundary.induct)
  case (1 s n)
  show ?case
  proof (cases "n < utf8_len s \<and> \<not> is_char_boundary s n")
    case True
    with 1 show ?thesis by (subst (1 2 3) ceil_boundary.simps) auto
  next
    case False
    with "1.prems" have "is_char_boundary s n" by (cases "n = utf8_len s") auto
    with False "1.prems" show ?thesis by (subst (1 2 3) ceil_boundary.simps) auto
  qed
qed

text \<open>What is kept is one side of a cut at a boundary.\<close>

lemma boundary_cut:
  assumes "is_char_boundary s b"
  shows "\<exists>t u. byte_take b s = Some t \<and> byte_drop b s = Some u \<and> s = t @ u \<and> utf8_len t = b"
proof -
  from assms obtain t u where "s = t @ u \<and> utf8_len t = b" unfolding boundary_iff by blast
  moreover from this have "byte_take b s = Some t" "byte_drop b s = Some u"
    unfolding byte_take_iff byte_drop_iff by blast+
  ultimately show ?thesis by blast
qed

lemma truncate_spec:
  "\<exists>t. truncate_to_char_boundary s n = Some t \<and> prefix t s \<and> utf8_len t \<le> n \<and>
       (utf8_len s \<le> n \<longrightarrow> t = s)"
proof (cases "utf8_len s \<le> n")
  case False
  define b where "b = floor_boundary s (min n (utf8_len s))"
  have "is_char_boundary s b" and le: "b \<le> n"
    using floor_boundary_spec [of s "min n (utf8_len s)"] by (auto simp: b_def)
  from boundary_cut [OF this(1)] obtain t u where
    t: "byte_take b s = Some t" "s = t @ u" "utf8_len t = b" by blast
  have "truncate_to_char_boundary s n = Some t"
    using False t(1) by (simp add: truncate_to_char_boundary_def b_def)
  moreover have "prefix t s" unfolding t(2) by simp
  ultimately show ?thesis using False le t(3) by blast
qed (simp add: truncate_to_char_boundary_def)

lemma clip_spec:
  "\<exists>t. clip_text_to_char_boundary s n = Some t \<and> prefix t s \<and> utf8_len t \<le> n \<and>
       (utf8_len s \<le> n \<longrightarrow> t = s)"
  using truncate_spec [of s n] by (auto simp: clip_text_to_char_boundary_def)

lemma suffix_spec:
  "\<exists>t. utf8_suffix_within_bytes s n = Some t \<and> suffix t s \<and> utf8_len t \<le> n \<and>
       (utf8_len s \<le> n \<longrightarrow> t = s)"
proof (cases "utf8_len s \<le> n")
  case False
  define b where "b = ceil_boundary s (utf8_len s - n)"
  have "is_char_boundary s b" and le: "utf8_len s - n \<le> b"
    using ceil_boundary_spec [of "utf8_len s - n" s] by (auto simp: b_def)
  from boundary_cut [OF this(1)] obtain t u where
    u: "byte_drop b s = Some u" "s = t @ u" "utf8_len t = b" by blast
  have "utf8_suffix_within_bytes s n = Some u"
    using False u(1) by (simp add: utf8_suffix_within_bytes_def b_def)
  moreover have "suffix u s" unfolding suffix_def u(2) by blast
  moreover have "utf8_len s = b + utf8_len u" unfolding u(2) by (simp add: u(3))
  ultimately show ?thesis using False le by fastforce
qed (simp add: utf8_suffix_within_bytes_def)

lemma utf8_len_trim_end: "utf8_len (trim_end s) \<le> utf8_len s"
proof -
  have "s = trim_end s @ rev (takeWhile is_whitespace (rev s))"
    by (metis rev_append rev_rev_ident takeWhile_dropWhile_id trim_end_def)
  then show ?thesis by (metis le_add1 utf8_len_simps(3))
qed

lemma ellipsis_spec:
  "\<exists>t. clip_text_with_ellipsis s n = Some t \<and> utf8_len t \<le> n \<and> (utf8_len s \<le> n \<longrightarrow> t = s)"
proof (cases "utf8_len s \<le> n \<or> n \<le> 3")
  case True
  with clip_spec [of s n] show ?thesis by (auto simp: clip_text_with_ellipsis_def)
next
  case False
  from clip_spec [of s "n - 3"] obtain t where
    t: "clip_text_to_char_boundary s (n - 3) = Some t" "utf8_len t \<le> n - 3" by blast
  have "utf8_len (lit ''...'') = 3" by code_simp
  with t(2) utf8_len_trim_end [of t] False have "utf8_len (trim_end t @ lit ''...'') \<le> n" by auto
  with False t(1) show ?thesis by (simp add: clip_text_with_ellipsis_def)
qed

lemma head_tail_spec:
  "\<exists>t. clip_text_head_tail_with_marker s n m = Some t \<and> utf8_len t \<le> n \<and> (utf8_len s \<le> n \<longrightarrow> t = s)"
proof (cases "utf8_len s \<le> n \<or> n = 0 \<or> n \<le> utf8_len m")
  case True
  with clip_spec [of s n] show ?thesis by (auto simp: clip_text_head_tail_with_marker_def)
next
  case False
  let ?b = "n - utf8_len m"
  from clip_spec [of s "?b div 3"] obtain h where
    h: "clip_text_to_char_boundary s (?b div 3) = Some h" "utf8_len h \<le> ?b div 3" by blast
  from suffix_spec [of s "?b - ?b div 3"] obtain t where
    t: "utf8_suffix_within_bytes s (?b - ?b div 3) = Some t" "utf8_len t \<le> ?b - ?b div 3" by blast
  have "utf8_len h + utf8_len t \<le> ?b" using h(2) t(2) by simp
  then have "utf8_len (h @ m @ t) \<le> n" using False by auto
  with False h(1) t(1) show ?thesis by (simp add: clip_text_head_tail_with_marker_def Let_def)
qed

end
