(* ===== verification/Tool_Output.thy ===== *)
theory Tool_Output
  imports Text_Clip
begin

text \<open>
  The bounded outputs of tools, \<open>src/src/tool/truncate.rs\<close>: the reader of a child process's
  pipe, and the preview that spools what does not fit to a file. The file system and the pipe
  are parameters: a \<open>spool_io\<close> gives the outcome of opening the spool file, of each write
  (from the content written so far) and of the flush; a pipe is the list of the outcomes of its
  reads, an empty read being the end of the stream.
\<close>

section \<open>Reading a pipe\<close>

record bounded_pipe_output =
  bp_bytes :: "nat list"
  bp_truncated :: bool

fun read_pipe_loop ::
  "nat \<Rightarrow> (nat list, 'e) result list \<Rightarrow> nat list \<Rightarrow> bool \<Rightarrow> (bounded_pipe_output, 'e) result" where
  "read_pipe_loop max_bytes [] stored truncated =
     Ok \<lparr>bp_bytes = stored, bp_truncated = truncated\<rparr>"
| "read_pipe_loop max_bytes (r # rs) stored truncated =
     and_then r (\<lambda>chunk.
       if chunk = [] then Ok \<lparr>bp_bytes = stored, bp_truncated = truncated\<rparr>
       else let remaining = max_bytes - length stored;
                retained = min remaining (length chunk)
            in read_pipe_loop max_bytes rs (stored @ take retained chunk)
                 (truncated \<or> retained < length chunk))"

definition read_pipe_bounded ::
  "(nat list, 'e) result list \<Rightarrow> nat \<Rightarrow> (bounded_pipe_output, 'e) result" where
  "read_pipe_bounded pipe max_bytes = read_pipe_loop max_bytes pipe [] False"

text \<open>What the stream carries up to its end; \<open>None\<close> if a read fails first.\<close>

fun pipe_stream :: "(nat list, 'e) result list \<Rightarrow> (nat list, 'e) result" where
  "pipe_stream [] = Ok []"
| "pipe_stream (r # rs) =
     and_then r (\<lambda>chunk. if chunk = [] then Ok [] else
       and_then (pipe_stream rs) (\<lambda>rest. Ok (chunk @ rest)))"

lemma read_pipe_loop_eq:
  assumes "length stored \<le> n"
  shows "read_pipe_loop n rs stored tr =
    and_then (pipe_stream rs) (\<lambda>s. Ok \<lparr>bp_bytes = take n (stored @ s),
                                        bp_truncated = (tr \<or> n < length (stored @ s))\<rparr>)"
  using assms
proof (induction rs arbitrary: stored tr)
  case (Cons r rs)
  show ?case
  proof (cases "\<exists>chunk. r = Ok chunk \<and> chunk \<noteq> []")
    case True
    then obtain chunk where r: "r = Ok chunk" "chunk \<noteq> []" by blast
    define k where "k = min (n - length stored) (length chunk)"
    have le: "length (stored @ take k chunk) \<le> n" using Cons.prems by (auto simp: k_def)
    have bytes: "take n ((stored @ take k chunk) @ s) = take n (stored @ chunk @ s)" for s
      using Cons.prems by (auto simp: k_def min_def)
    have flag: "(tr \<or> k < length chunk) \<or> n < length ((stored @ take k chunk) @ s) \<longleftrightarrow>
                tr \<or> n < length (stored @ chunk @ s)" for s
      using Cons.prems by (auto simp: k_def min_def)
    have "read_pipe_loop n (r # rs) stored tr =
          read_pipe_loop n rs (stored @ take k chunk) (tr \<or> k < length chunk)"
      using r by (simp add: k_def Let_def)
    also have "\<dots> = and_then (pipe_stream rs) (\<lambda>s. Ok \<lparr>bp_bytes = take n (stored @ chunk @ s),
                       bp_truncated = (tr \<or> n < length (stored @ chunk @ s))\<rparr>)"
      unfolding Cons.IH [OF le] bytes flag ..
    finally show ?thesis using r by (cases "pipe_stream rs") simp_all
  next
    case False
    then show ?thesis using Cons.prems by (cases r) auto
  qed
qed simp

section \<open>Preview and spool\<close>

record tool_output_config =
  max_lines :: nat
  max_bytes :: nat

record 'e spool_io =
  sio_open :: "(ustr \<times> nat, 'e) result"
  sio_write :: "ustr \<Rightarrow> ustr \<Rightarrow> (unit, 'e) result"
  sio_flush :: "ustr \<Rightarrow> (unit, 'e) result"

text \<open>The open spool file: its path, what it holds, and the lease that keeps it.\<close>

record spool_file =
  sp_path :: ustr
  sp_content :: ustr
  sp_lease :: nat

record truncated_tool_output =
  preview_text :: ustr
  truncated_output_path :: "ustr option"
  to_truncated :: bool
  internal_file_lease :: "nat option"

datatype 'e preview_error = SliceOutOfBounds | IoError 'e

definition io :: "('a, 'e) result \<Rightarrow> ('a, 'e preview_error) result" where
  "io r = (case r of Inl e \<Rightarrow> Err (IoError e) | Inr x \<Rightarrow> Ok x)"

definition write_all ::
  "'e spool_io \<Rightarrow> spool_file \<Rightarrow> ustr \<Rightarrow> (spool_file, 'e preview_error) result" where
  "write_all env f s =
     and_then (io (sio_write env (sp_content f) s)) (\<lambda>_. Ok (f\<lparr>sp_content := sp_content f @ s\<rparr>))"

text \<open>The loop over the characters of a segment: the preview, the newline count, \<open>complete\<close>.\<close>

fun append_preview_bounded ::
  "ustr \<Rightarrow> ustr \<Rightarrow> nat \<Rightarrow> tool_output_config \<Rightarrow> ustr \<times> nat \<times> bool" where
  "append_preview_bounded preview [] newline_count limits = (preview, newline_count, True)"
| "append_preview_bounded preview (ch # rest) newline_count limits =
     (if utf8_len preview + len_utf8 ch > max (max_bytes limits) 1 \<or>
         (ch = LF \<and> newline_count + 1 \<ge> max (max_lines limits) 1)
      then (preview, newline_count, False)
      else append_preview_bounded (preview @ [ch]) rest
             (if ch = LF then newline_count + 1 else newline_count) limits)"

type_synonym preview_state = "ustr \<times> nat \<times> spool_file option"

definition append_segment ::
  "'e spool_io \<Rightarrow> tool_output_config \<Rightarrow> ustr \<Rightarrow> preview_state \<Rightarrow>
   (preview_state, 'e preview_error) result" where
  "append_segment env limits segment st =
     (case st of (preview, newline_count, spool) \<Rightarrow>
      (case spool of
        Some f \<Rightarrow> and_then (write_all env f segment) (\<lambda>f'. Ok (preview, newline_count, Some f'))
      | None \<Rightarrow>
          let exact_prefix_len = utf8_len preview in
          (case append_preview_bounded preview segment newline_count limits of
            (preview', newline_count', complete) \<Rightarrow>
              if complete then Ok (preview', newline_count', None)
              else and_then (io (sio_open env)) (\<lambda>(output_path, lease).
                   let f = \<lparr>sp_path = output_path, sp_content = [], sp_lease = lease\<rparr> in
                   (case byte_take exact_prefix_len preview' of
                     None \<Rightarrow> Err SliceOutOfBounds
                   | Some exact \<Rightarrow>
                       and_then (write_all env f exact) (\<lambda>f1.
                       and_then (write_all env f1 segment) (\<lambda>f2.
                       Ok (preview', newline_count', Some f2))))))))"

fun append_chunks ::
  "'e spool_io \<Rightarrow> tool_output_config \<Rightarrow> ustr \<Rightarrow> ustr list \<Rightarrow> bool \<Rightarrow> preview_state \<Rightarrow>
   (preview_state, 'e preview_error) result" where
  "append_chunks env limits separator [] first st = Ok st"
| "append_chunks env limits separator (chunk # chunks) first st =
     and_then (if first then Ok st else append_segment env limits separator st) (\<lambda>st1.
     and_then (append_segment env limits chunk st1) (\<lambda>st2.
     append_chunks env limits separator chunks False st2))"

text \<open>The result, and the content of the spool file when there is one.\<close>

definition finish_preview ::
  "'e spool_io \<Rightarrow> preview_state \<Rightarrow>
   (truncated_tool_output \<times> spool_file option, 'e preview_error) result" where
  "finish_preview env st =
     (case st of (preview, _, spool) \<Rightarrow>
      (case spool of
         None \<Rightarrow> Ok (\<lparr>preview_text = preview, truncated_output_path = None, to_truncated = False,
                     internal_file_lease = None\<rparr>, None)
       | Some f \<Rightarrow>
           and_then (io (sio_flush env (sp_content f))) (\<lambda>_.
             Ok (\<lparr>preview_text = preview @ [LF] @ lit ''[output truncated]'' @ [LF] @
                                lit ''Full output saved to: '' @ sp_path f,
                  truncated_output_path = Some (sp_path f), to_truncated = True,
                  internal_file_lease = Some (sp_lease f)\<rparr>, Some f))))"

definition preview_chunks ::
  "'e spool_io \<Rightarrow> ustr list \<Rightarrow> ustr \<Rightarrow> tool_output_config \<Rightarrow>
   (truncated_tool_output \<times> spool_file option, 'e preview_error) result" where
  "preview_chunks env chunks separator limits =
     and_then (append_chunks env limits separator chunks True ([], 0, None)) (finish_preview env)"

definition preview ::
  "'e spool_io \<Rightarrow> ustr \<Rightarrow> tool_output_config \<Rightarrow>
   (truncated_tool_output \<times> spool_file option, 'e preview_error) result" where
  "preview env text0 limits = preview_chunks env [text0] [] limits"

section \<open>What the preview shows and what the spool keeps\<close>

text \<open>The limits as a predicate: at least one byte and one line are always allowed.\<close>

definition within_limits :: "tool_output_config \<Rightarrow> ustr \<Rightarrow> bool" where
  "within_limits limits s \<longleftrightarrow>
     utf8_len s \<le> max (max_bytes limits) 1 \<and> count_list s LF < max (max_lines limits) 1"

definition longest_within :: "tool_output_config \<Rightarrow> ustr \<Rightarrow> ustr \<Rightarrow> bool" where
  "longest_within limits s p \<longleftrightarrow>
     prefix p s \<and> within_limits limits p \<and>
     (\<forall>q \<in> set (prefixes s). within_limits limits q \<longrightarrow> prefix q p)"

lemma within_prefix: "prefix p s \<Longrightarrow> within_limits l s \<Longrightarrow> within_limits l p"
  by (auto simp: within_limits_def prefix_def)

lemma within_Nil [simp]: "within_limits l []"
  by (simp add: within_limits_def)

lemma longest_within_stop:
  assumes "within_limits l p" and "prefix (p @ [c]) s" and "\<not> within_limits l (p @ [c])"
  shows "longest_within l s p"
  unfolding longest_within_def
proof (intro conjI ballI impI)
  show "prefix p s" using assms(2) by (metis append_prefixD)
  show "prefix q p" if "q \<in> set (prefixes s)" and "within_limits l q" for q
  proof (rule ccontr)
    assume "\<not> prefix q p"
    moreover have "prefix q s" using that(1) by simp
    ultimately have "prefix (p @ [c]) q"
      using assms(2) by (metis prefix_order.eq_iff prefix_same_cases prefix_snoc)
    from within_prefix [OF this that(2)] assms(3) show False by contradiction
  qed
qed (rule assms(1))

lemma longest_within_more:
  assumes "longest_within l s p" and "\<not> within_limits l s"
  shows "longest_within l (s @ t) p"
  unfolding longest_within_def
proof (intro conjI ballI impI)
  show "prefix p (s @ t)" "within_limits l p"
    using assms(1) by (auto simp: longest_within_def)
  show "prefix q p" if "q \<in> set (prefixes (s @ t))" and "within_limits l q" for q
  proof -
    have "\<not> prefix s q" using within_prefix that(2) assms(2) by blast
    moreover have "prefix q (s @ t)" using that(1) by simp
    ultimately have "prefix q s" by (metis prefixI prefix_same_cases)
    then show ?thesis using assms(1) that(2) by (simp add: longest_within_def)
  qed
qed

lemma append_preview_bounded_spec:
  assumes "append_preview_bounded p seg n l = (p', n', ok)"
    and "within_limits l p" and "n = count_list p LF"
  shows "prefix p p' \<and> within_limits l p' \<and> n' = count_list p' LF \<and>
    (if ok then p' = p @ seg
     else longest_within l (p @ seg) p' \<and> \<not> within_limits l (p @ seg))"
  using assms
proof (induction p seg n l rule: append_preview_bounded.induct)
  case (2 p c rest n l)
  let ?stop = "utf8_len p + len_utf8 c > max (max_bytes l) 1 \<or>
               (c = LF \<and> n + 1 \<ge> max (max_lines l) 1)"
  have stop: "?stop \<longleftrightarrow> \<not> within_limits l (p @ [c])"
    using "2.prems"(2,3) by (auto simp: within_limits_def)
  show ?case
  proof (cases ?stop)
    case False
    have "append_preview_bounded (p @ [c]) rest (if c = LF then n + 1 else n) l = (p', n', ok)"
      using "2.prems"(1) False by (simp only: append_preview_bounded.simps if_False)
    moreover have "within_limits l (p @ [c])" using stop False by blast
    moreover have "(if c = LF then n + 1 else n) = count_list (p @ [c]) LF"
      using "2.prems"(3) by simp
    ultimately have "prefix (p @ [c]) p' \<and> within_limits l p' \<and> n' = count_list p' LF \<and>
      (if ok then p' = (p @ [c]) @ rest
       else longest_within l ((p @ [c]) @ rest) p' \<and> \<not> within_limits l ((p @ [c]) @ rest))"
      by (rule "2.IH" [OF False])
    then show ?thesis by (metis append.assoc append_Cons append_Nil append_prefixD)
  next
    case True
    then have eq: "p' = p" "n' = n" "\<not> ok" using "2.prems"(1) by simp_all
    have ext: "prefix (p @ [c]) (p @ c # rest)" by simp
    have "longest_within l (p @ c # rest) p" "\<not> within_limits l (p @ c # rest)"
      using True stop longest_within_stop [OF "2.prems"(2) ext] within_prefix [OF ext] by blast+
    then show ?thesis using eq "2.prems"(2,3) by simp
  qed
qed simp

text \<open>The state after the text \<open>s\<close> has been appended.\<close>

definition preview_inv :: "tool_output_config \<Rightarrow> ustr \<Rightarrow> preview_state \<Rightarrow> bool" where
  "preview_inv l s st \<longleftrightarrow>
     (case st of (p, n, spool) \<Rightarrow>
        n = count_list p LF \<and>
        (case spool of
           None \<Rightarrow> p = s \<and> within_limits l s
         | Some f \<Rightarrow> sp_content f = s \<and> longest_within l s p \<and> \<not> within_limits l s))"

definition io_total :: "'e spool_io \<Rightarrow> bool" where
  "io_total env \<longleftrightarrow> is_ok (sio_open env) \<and> (\<forall>c s. is_ok (sio_write env c s)) \<and>
     (\<forall>c. is_ok (sio_flush env c))"

lemma io_simps [simp]:
  "io (Ok x) = Ok x" "io (Err e) = Err (IoError e)" "is_ok (io r) = is_ok r"
  by (auto simp: io_def is_ok_def split: sum.splits)

text \<open>
  An outcome is good for a predicate when an \<open>Ok\<close> value satisfies it, an error is one of
  the file system, and there is none when the file system never fails.
\<close>

definition good_outcome ::
  "'e spool_io \<Rightarrow> ('a \<Rightarrow> bool) \<Rightarrow> ('a, 'e preview_error) result \<Rightarrow> bool" where
  "good_outcome env Q r \<longleftrightarrow>
     (case r of Inr x \<Rightarrow> Q x | Inl e \<Rightarrow> e \<noteq> SliceOutOfBounds \<and> \<not> io_total env)"

lemma preview_good_Ok [simp]: "good_outcome env Q (Ok x) \<longleftrightarrow> Q x"
  by (simp add: good_outcome_def)

lemma good_bind:
  assumes "good_outcome env P r" and "\<And>x. P x \<Longrightarrow> good_outcome env Q (f x)"
  shows "good_outcome env Q (and_then r f)"
  using assms by (cases r) (auto simp: good_outcome_def)

lemma good_io: "(io_total env \<Longrightarrow> is_ok r) \<Longrightarrow> good_outcome env (\<lambda>_. True) (io r)"
  by (cases r) (auto simp: good_outcome_def)

lemma good_write: "good_outcome env (\<lambda>f'. sp_content f' = sp_content f @ s) (write_all env f s)"
  unfolding write_all_def by (rule good_bind [OF good_io]) (auto simp: io_total_def)

lemma byte_take_prefix: "prefix p q \<Longrightarrow> byte_take (utf8_len p) q = Some p"
  by (auto simp: byte_take_iff prefix_def)

lemma good_append_segment:
  assumes "preview_inv l s st"
  shows "good_outcome env (preview_inv l (s @ seg)) (append_segment env l seg st)"
proof -
  obtain p n spool where st: "st = (p, n, spool)" by (cases st)
  show ?thesis
  proof (cases spool)
    case (Some f)
    have "good_outcome env (preview_inv l (s @ seg))
            (and_then (write_all env f seg) (\<lambda>f'. Ok (p, n, Some f')))"
      using assms Some st within_prefix [of s "s @ seg" l]
      by (intro good_bind [OF good_write])
        (auto simp: preview_inv_def longest_within_more)
    then show ?thesis by (simp add: append_segment_def st Some)
  next
    case None
    obtain p' n' ok where ap: "append_preview_bounded p seg n l = (p', n', ok)"
      by (metis prod_cases3)
    have inv: "p = s" "within_limits l p" "n = count_list p LF"
      using assms None st by (auto simp: preview_inv_def)
    note spec = append_preview_bounded_spec [OF ap inv(2,3)]
    show ?thesis
    proof (cases ok)
      case True
      then have "append_segment env l seg st = Ok (p', n', None)"
        by (simp add: append_segment_def st None ap)
      then show ?thesis using True spec inv by (auto simp: preview_inv_def)
    next
      case False
      then have stop: "longest_within l (s @ seg) p'" "\<not> within_limits l (s @ seg)"
        "n' = count_list p' LF" and cut: "byte_take (utf8_len p) p' = Some s"
        using spec inv byte_take_prefix by auto
      let ?f = "\<lambda>path lease. \<lparr>sp_path = path, sp_content = [], sp_lease = lease\<rparr>"
      have writes: "good_outcome env (preview_inv l (s @ seg))
          (and_then (write_all env (?f path lease) s) (\<lambda>f1.
           and_then (write_all env f1 seg) (\<lambda>f2. Ok (p', n', Some f2))))" for path lease
        by (intro good_bind [OF good_write]) (use stop in \<open>auto simp: preview_inv_def\<close>)
      have "good_outcome env (preview_inv l (s @ seg))
          (and_then (io (sio_open env)) (\<lambda>(path, lease).
           and_then (write_all env (?f path lease) s) (\<lambda>f1.
           and_then (write_all env f1 seg) (\<lambda>f2. Ok (p', n', Some f2)))))"
        by (rule good_bind [OF good_io])
          (use writes in \<open>auto simp: io_total_def split: prod.split\<close>)
      then show ?thesis using False by (simp add: append_segment_def st None ap cut Let_def)
    qed
  qed
qed

lemma good_append_chunks:
  assumes "preview_inv l s st"
  shows "good_outcome env
           (preview_inv l (s @ (if first \<or> chunks = [] then [] else sep) @ join sep chunks))
           (append_chunks env l sep chunks first st)"
  using assms
proof (induction chunks arbitrary: s st first)
  case (Cons c chunks)
  let ?s = "if first then s else s @ sep"
  have rest: "s @ (if first \<or> c # chunks = [] then [] else sep) @ join sep (c # chunks) =
        (?s @ c) @ (if False \<or> chunks = [] then [] else sep) @ join sep chunks"
    by (cases chunks) simp_all
  have "good_outcome env (preview_inv l ?s) (if first then Ok st else append_segment env l sep st)"
    using Cons.prems good_append_segment [of l s st env sep] by auto
  then show ?case unfolding append_chunks.simps rest
    by (rule good_bind) (rule good_bind [OF good_append_segment Cons.IH])
qed simp

text \<open>The whole preview: complete within the limits, else the longest prefix and a full copy.\<close>

definition preview_result ::
  "tool_output_config \<Rightarrow> ustr \<Rightarrow> truncated_tool_output \<times> spool_file option \<Rightarrow> bool" where
  "preview_result l full r \<longleftrightarrow>
     (case r of
        (out, None) \<Rightarrow> within_limits l full \<and> preview_text out = full \<and> \<not> to_truncated out \<and>
                       truncated_output_path out = None \<and> internal_file_lease out = None
      | (out, Some f) \<Rightarrow> \<not> within_limits l full \<and> sp_content f = full \<and> to_truncated out \<and>
                       truncated_output_path out = Some (sp_path f) \<and>
                       internal_file_lease out = Some (sp_lease f) \<and>
                       (\<exists>p. longest_within l full p \<and>
                            preview_text out = p @ [LF] @ lit ''[output truncated]'' @ [LF] @
                              lit ''Full output saved to: '' @ sp_path f))"

lemma good_finish_preview:
  assumes "preview_inv l full st"
  shows "good_outcome env (preview_result l full) (finish_preview env st)"
proof -
  obtain p n spool where st: "st = (p, n, spool)" by (cases st)
  show ?thesis
  proof (cases spool)
    case None
    then show ?thesis using assms st
      by (auto simp: preview_inv_def preview_result_def finish_preview_def)
  next
    case (Some f)
    then show ?thesis using assms st
      by (auto simp: preview_inv_def preview_result_def finish_preview_def io_total_def
            intro!: good_bind [OF good_io])
  qed
qed

lemma good_preview_chunks:
  "good_outcome env (preview_result l (join sep chunks)) (preview_chunks env chunks sep l)"
  unfolding preview_chunks_def
proof (rule good_bind [OF _ good_finish_preview])
  have "preview_inv l [] ([], 0, None)" by (simp add: preview_inv_def)
  from good_append_chunks [OF this, of env True chunks sep]
  show "good_outcome env (preview_inv l (join sep chunks))
          (append_chunks env l sep chunks True ([], 0, None))" by simp
qed

section \<open>Properties\<close>

text \<open>
  Reading a pipe with a bound: unless a read fails, the reader drains the whole stream, keeps
  its first \<open>max_bytes\<close> bytes and reports a truncation exactly when there were more; a failed
  read is the error of the whole.
\<close>

theorem read_pipe_keeps_prefix:
  "read_pipe_bounded pipe n =
     and_then (pipe_stream pipe) (\<lambda>s. Ok \<lparr>bp_bytes = take n s,
                                          bp_truncated = (n < length s)\<rparr>)"
  by (simp add: read_pipe_bounded_def read_pipe_loop_eq)

text \<open>
  C25. A tool's output is never lost: when the preview returns, either the joined chunks fit the
  limits and are shown whole, or the preview shows the longest prefix that fits, the spool file
  named in the result holds the whole text byte for byte, and the result says so. It fails only
  when the file system does, and never by slicing inside a character.
\<close>

theorem preview_loses_nothing:
  "(case preview_chunks env chunks sep limits of
      Inr r \<Rightarrow> preview_result limits (join sep chunks) r
    | Inl e \<Rightarrow> e \<noteq> SliceOutOfBounds \<and> \<not> io_total env)"
  using good_preview_chunks [of env limits sep chunks] by (simp add: good_outcome_def)

end
