(* ===== verification/Model_Message.thy ===== *)
theory Model_Message
  imports Rust_Text
begin

text \<open>
  The data a model exchanges with the program: JSON values (\<open>serde_json::Value\<close>, with the
  accessors the code uses), tool calls, content parts and the messages of a request
  (\<open>src/src/llm/contract.rs\<close>), with the private continuation of a tool response
  (\<open>src/src/llm/continuation.rs\<close>; its scope is only compared, hence a number).
\<close>

section \<open>JSON values\<close>

text \<open>A float is kept as an opaque number: no accessor of the model reads one.\<close>

datatype json =
    JNull
  | JBool bool
  | JInt int
  | JFloat nat
  | JStr ustr
  | JArr "json list"
  | JObj "(ustr \<times> json) list"

fun json_get :: "ustr \<Rightarrow> json \<Rightarrow> json option" where
  "json_get k (JObj kvs) = map_of kvs k"
| "json_get k _ = None"

fun as_bool :: "json \<Rightarrow> bool option" where
  "as_bool (JBool b) = Some b"
| "as_bool _ = None"

fun as_u64 :: "json \<Rightarrow> nat option" where
  "as_u64 (JInt n) = (if 0 \<le> n \<and> n < 2 ^ 64 then Some (nat n) else None)"
| "as_u64 _ = None"

fun as_i64 :: "json \<Rightarrow> int option" where
  "as_i64 (JInt n) = (if - (2 ^ 63) \<le> n \<and> n < 2 ^ 63 then Some n else None)"
| "as_i64 _ = None"

fun as_str :: "json \<Rightarrow> ustr option" where
  "as_str (JStr s) = Some s"
| "as_str _ = None"

fun is_object :: "json \<Rightarrow> bool" where
  "is_object (JObj _) = True"
| "is_object _ = False"

definition opt_and_then :: "'a option \<Rightarrow> ('a \<Rightarrow> 'b option) \<Rightarrow> 'b option" where
  "opt_and_then x f = (case x of None \<Rightarrow> None | Some y \<Rightarrow> f y)"

lemma opt_and_then_simps [simp]: "opt_and_then None f = None" "opt_and_then (Some x) f = f x"
  by (simp_all add: opt_and_then_def)

section \<open>Saturating arithmetic\<close>

text \<open>\<open>usize\<close> on a 64-bit target; \<open>saturating_add\<close> of \<open>usize\<close> and \<open>u32\<close> on naturals.\<close>

definition USIZE_MAX :: nat where "USIZE_MAX = 2 ^ 64 - 1"
definition U32_MAX :: nat where "U32_MAX = 2 ^ 32 - 1"

definition sat_add :: "nat \<Rightarrow> nat \<Rightarrow> nat" where
  "sat_add a b = min (a + b) USIZE_MAX"

definition sat_add_u32 :: "nat \<Rightarrow> nat \<Rightarrow> nat" where
  "sat_add_u32 a b = min (a + b) U32_MAX"

definition div_ceil :: "nat \<Rightarrow> nat \<Rightarrow> nat" where
  "div_ceil a b = (a + b - 1) div b"

lemma div_ceil_le_iff: "0 < b \<Longrightarrow> div_ceil a b \<le> n \<longleftrightarrow> a \<le> b * n"
proof -
  assume b: "0 < b"
  have "div_ceil a b \<le> n \<longleftrightarrow> a + b - 1 < b * Suc n"
    unfolding div_ceil_def using b by (simp add: less_mult_imp_div_less div_less_iff_less_mult
      less_Suc_eq_le [symmetric] mult.commute)
  also have "\<dots> \<longleftrightarrow> a \<le> b * n" using b by auto
  finally show ?thesis .
qed

section \<open>Messages\<close>

record model_tool_call =
  mtc_call_id :: ustr
  mtc_tool_name :: ustr
  mtc_arguments_json :: ustr

datatype model_content_part =
    PText ustr
  | PImage (mime_type: ustr) (data_base64: ustr)

record chat_tool_continuation =
  ctc_scope :: nat
  ctc_reasoning_content :: ustr

datatype model_message =
    MSystem ustr
  | MDeveloper ustr
  | MAgent ustr
  | MUser ustr
  | MUserParts "model_content_part list"
  | MAssistant ustr
  | MAssistantToolCalls "ustr option" "model_tool_call list" "chat_tool_continuation option"
  | MTool ustr ustr ustr json

fun is_tool_message :: "model_message \<Rightarrow> bool" where
  "is_tool_message (MTool _ _ _ _) = True"
| "is_tool_message _ = False"

text \<open>A message that takes no part in a tool exchange and carries no instructions.\<close>

fun is_plain_message :: "model_message \<Rightarrow> bool" where
  "is_plain_message (MAgent _) = True"
| "is_plain_message (MUser _) = True"
| "is_plain_message (MUserParts _) = True"
| "is_plain_message (MAssistant _) = True"
| "is_plain_message _ = False"

fun tool_key :: "model_message \<Rightarrow> ustr \<times> ustr" where
  "tool_key (MTool call_id tool_name _ _) = (call_id, tool_name)"
| "tool_key _ = ([], [])"

definition call_key :: "model_tool_call \<Rightarrow> ustr \<times> ustr" where
  "call_key c = (mtc_call_id c, mtc_tool_name c)"

end
