(* ===== verification/Clm_Checkpoint.thy ===== *)
theory Clm_Checkpoint
  imports Model_Message "HOL-Library.Multiset"
begin

text \<open>
  The persisted checkpoint of a conversation, \<open>src/src/protocol/clm_checkpoint.rs\<close>: messages
  with the tool metadata split off, the validation of its tool call groups, and the reading
  of the metadata map. A \<open>BTreeMap\<close> is an association list with distinct keys (no operation
  here depends on the order of its keys: the errors of all keys are the same). The validation is
  compared with a grammar of settled conversations.
\<close>

section \<open>The checkpoint\<close>

record clm_checkpoint =
  clm_version :: u32
  clm_msgs :: "model_message list"
  clm_tool_metadata :: "(nat, json) hmap"
  clm_protected_prefix_len :: nat

datatype clm_error =
    UnsupportedVersion
  | InvalidProtectedPrefix
  | MetadataMustAddressTool
  | ContainsInstructions
  | IncompleteToolCallGroup
  | InvalidOrDuplicateToolCalls
  | OutputDoesNotMatchCall
  | InterruptsToolCallGroup
  | UnsettledToolCalls
  | KeyIsNotAnIndex
  | KeyIsNotCanonical
  | DuplicateMessageIndex

fun insert_calls ::
  "(ustr, ustr) hmap \<Rightarrow> model_tool_call list \<Rightarrow> ((ustr, ustr) hmap, clm_error) result" where
  "insert_calls pending [] = Ok pending"
| "insert_calls pending (call # calls) =
     (if mtc_call_id call = [] \<or> mtc_tool_name call = [] \<or> hm_contains pending (mtc_call_id call)
      then Err InvalidOrDuplicateToolCalls
      else insert_calls (hm_insert (mtc_call_id call) (mtc_tool_name call) pending) calls)"

fun validate_messages ::
  "(ustr, ustr) hmap \<Rightarrow> model_message list \<Rightarrow> (unit, clm_error) result" where
  "validate_messages pending [] = (if pending \<noteq> [] then Err UnsettledToolCalls else Ok ())"
| "validate_messages pending (message # rest) =
     (case message of
        MSystem _ \<Rightarrow> Err ContainsInstructions
      | MDeveloper _ \<Rightarrow> Err ContainsInstructions
      | MAssistantToolCalls _ tool_calls _ \<Rightarrow>
          if pending \<noteq> [] \<or> tool_calls = [] then Err IncompleteToolCallGroup
          else and_then (insert_calls pending tool_calls) (\<lambda>pending'. validate_messages pending' rest)
      | MTool call_id tool_name _ _ \<Rightarrow>
          if hm_get pending call_id \<noteq> Some tool_name then Err OutputDoesNotMatchCall
          else validate_messages (hm_remove call_id pending) rest
      | _ \<Rightarrow> if pending \<noteq> [] then Err InterruptsToolCallGroup else validate_messages pending rest)"

definition clm_validate :: "clm_checkpoint \<Rightarrow> (unit, clm_error) result" where
  "clm_validate c =
     (if clm_version c \<noteq> 1 then Err UnsupportedVersion
      else if clm_msgs c = [] \<or> clm_protected_prefix_len c > length (clm_msgs c)
      then Err InvalidProtectedPrefix
      else if \<not> list_all (\<lambda>i. i < length (clm_msgs c) \<and> is_tool_message (clm_msgs c ! i))
                 (hm_keys (clm_tool_metadata c))
      then Err MetadataMustAddressTool
      else validate_messages [] (clm_msgs c))"

text \<open>\<open>std::mem::take\<close> leaves \<open>Null\<close>, the default value.\<close>

fun take_metadata :: "nat \<Rightarrow> model_message list \<Rightarrow> model_message list \<times> (nat, json) hmap" where
  "take_metadata index [] = ([], [])"
| "take_metadata index (m # ms) =
     (case take_metadata (Suc index) ms of (ms', metadata') \<Rightarrow>
      (case m of
         MTool call_id tool_name r metadata \<Rightarrow>
           if metadata \<noteq> JNull
           then (MTool call_id tool_name r JNull # ms', (index, metadata) # metadata')
           else (m # ms', metadata')
       | _ \<Rightarrow> (m # ms', metadata')))"

definition clm_from_messages ::
  "model_message list \<Rightarrow> nat \<Rightarrow> (clm_checkpoint, clm_error) result" where
  "clm_from_messages messages protected_prefix_len =
     (case take_metadata 0 messages of (messages', tool_metadata) \<Rightarrow>
      let checkpoint = \<lparr>clm_version = 1, clm_msgs = messages', clm_tool_metadata = tool_metadata,
                        clm_protected_prefix_len = protected_prefix_len\<rparr>
      in and_then (clm_validate checkpoint) (\<lambda>_. Ok checkpoint))"

fun set_metadata :: "json \<Rightarrow> model_message \<Rightarrow> model_message" where
  "set_metadata v (MTool call_id tool_name r _) = MTool call_id tool_name r v"
| "set_metadata v m = m"

text \<open>\<open>validate\<close> has checked that every index is one of a message: \<open>messages[*index]\<close> does not panic.\<close>

definition restore_metadata :: "model_message list \<Rightarrow> nat \<times> json \<Rightarrow> model_message list" where
  "restore_metadata ms e = (case e of (index, v) \<Rightarrow> ms[index := set_metadata v (ms ! index)])"

definition clm_messages :: "clm_checkpoint \<Rightarrow> (model_message list, clm_error) result" where
  "clm_messages c =
     and_then (clm_validate c) (\<lambda>_. Ok (foldl restore_metadata (clm_msgs c) (clm_tool_metadata c)))"

section \<open>Reading the metadata map\<close>

text \<open>\<open>str::parse::<usize>\<close>: an optional plus sign, at least one digit, no overflow.\<close>

fun parse_digits :: "nat \<Rightarrow> ustr \<Rightarrow> nat option" where
  "parse_digits acc [] = Some acc"
| "parse_digits acc (c # cs) =
     (if 48 \<le> c \<and> c \<le> 57 \<and> 10 * acc + (c - 48) \<le> USIZE_MAX
      then parse_digits (10 * acc + (c - 48)) cs else None)"

definition parse_usize :: "ustr \<Rightarrow> nat option" where
  "parse_usize s =
     (let digits = (case s of c # cs \<Rightarrow> if c = 43 then cs else s | [] \<Rightarrow> s)
      in if digits = [] then None else parse_digits 0 digits)"

fun visit_metadata ::
  "(nat, json) hmap \<Rightarrow> (ustr \<times> json) list \<Rightarrow> ((nat, json) hmap, clm_error) result" where
  "visit_metadata metadata [] = Ok metadata"
| "visit_metadata metadata ((key, value) # entries) =
     (case parse_usize key of
        None \<Rightarrow> Err KeyIsNotAnIndex
      | Some index \<Rightarrow>
          if key \<noteq> show_nat index then Err KeyIsNotCanonical
          else if hm_contains metadata index then Err DuplicateMessageIndex
          else visit_metadata (hm_insert index value metadata) entries)"

definition deserialize_tool_metadata ::
  "(ustr \<times> json) list \<Rightarrow> ((nat, json) hmap, clm_error) result" where
  "deserialize_tool_metadata entries = visit_metadata [] entries"

text \<open>\<open>TryFrom<ClmCheckpointWire>\<close>, after the metadata has been read.\<close>

definition clm_try_from ::
  "u32 \<Rightarrow> model_message list \<Rightarrow> (ustr \<times> json) list \<Rightarrow> nat \<Rightarrow> (clm_checkpoint, clm_error) result" where
  "clm_try_from version messages entries protected_prefix_len =
     and_then (deserialize_tool_metadata entries) (\<lambda>tool_metadata.
     let checkpoint = \<lparr>clm_version = version, clm_msgs = messages,
                       clm_tool_metadata = tool_metadata,
                       clm_protected_prefix_len = protected_prefix_len\<rparr>
     in and_then (clm_validate checkpoint) (\<lambda>_. Ok checkpoint))"

text \<open>The map as it is written: decimal keys.\<close>

definition serialize_tool_metadata :: "(nat, json) hmap \<Rightarrow> (ustr \<times> json) list" where
  "serialize_tool_metadata m = map (\<lambda>(i, v). (show_nat i, v)) m"

section \<open>Settled conversations\<close>

definition valid_calls :: "model_tool_call list \<Rightarrow> bool" where
  "valid_calls calls \<longleftrightarrow> calls \<noteq> [] \<and> distinct (map mtc_call_id calls) \<and>
     (\<forall>c \<in> set calls. mtc_call_id c \<noteq> [] \<and> mtc_tool_name c \<noteq> [])"

text \<open>Plain messages, and tool call groups with exactly one output per call, in any order.\<close>

inductive settled :: "model_message list \<Rightarrow> bool" where
  settled_Nil: "settled []"
| settled_plain: "is_plain_message m \<Longrightarrow> settled ms \<Longrightarrow> settled (m # ms)"
| settled_group: "valid_calls calls \<Longrightarrow> list_all is_tool_message outs \<Longrightarrow>
    mset (map tool_key outs) = mset (map call_key calls) \<Longrightarrow> settled ms \<Longrightarrow>
    settled (MAssistantToolCalls content calls continuation # outs @ ms)"

text \<open>A conversation whose group still owes the outputs of \<open>pending\<close>.\<close>

definition settles :: "(ustr, ustr) hmap \<Rightarrow> model_message list \<Rightarrow> bool" where
  "settles pending ms \<longleftrightarrow> (\<exists>outs rest. ms = outs @ rest \<and> list_all is_tool_message outs \<and>
     mset (map tool_key outs) = mset pending \<and> settled rest)"

lemma settles_Nil_pending [simp]: "settles [] ms = settled ms"
  by (auto simp: settles_def)

lemma mset_hm_remove:
  "distinct (hm_keys m) \<Longrightarrow> hm_get m k = Some v \<Longrightarrow> mset m = add_mset (k, v) (mset (hm_remove k m))"
proof (induction m)
  case (Cons e m)
  obtain k' v' where e: "e = (k', v')" by (cases e)
  show ?case
  proof (cases "k' = k")
    case True
    then have "hm_remove k m = m" using Cons.prems e
      by (auto simp: hm_remove_def filter_id_conv image_iff)
    then show ?thesis using Cons.prems True e by (simp add: hm_remove_def)
  next
    case False
    then show ?thesis using Cons e by (auto simp: hm_remove_def)
  qed
qed simp

lemma settles_tool:
  assumes "distinct (hm_keys pending)" and "pending \<noteq> []"
  shows "settles pending (MTool i n r md # ms) \<longleftrightarrow>
         hm_get pending i = Some n \<and> settles (hm_remove i pending) ms"
proof (intro iffI conjI)
  assume "settles pending (MTool i n r md # ms)"
  then obtain outs rest where o: "MTool i n r md # ms = outs @ rest" "list_all is_tool_message outs"
      "mset (map tool_key outs) = mset pending" "settled rest" by (auto simp: settles_def)
  then obtain outs' where outs: "outs = MTool i n r md # outs'" "ms = outs' @ rest"
    using assms(2) by (cases outs) auto
  then have "(i, n) \<in># mset pending" using o(3) by (metis list.set_intros(1) list.simps(9) set_mset_mset tool_key.simps(1))
  then show get: "hm_get pending i = Some n" using assms(1) by simp
  have "mset (map tool_key outs') = mset (hm_remove i pending)"
    using o(3) outs(1) mset_hm_remove [OF assms(1) get] by simp
  then show "settles (hm_remove i pending) ms"
    using o(2,4) outs by (auto simp: settles_def)
next
  assume "hm_get pending i = Some n \<and> settles (hm_remove i pending) ms"
  then obtain outs rest where o: "ms = outs @ rest" "list_all is_tool_message outs"
      "mset (map tool_key outs) = mset (hm_remove i pending)" "settled rest"
    and get: "hm_get pending i = Some n" by (auto simp: settles_def)
  show "settles pending (MTool i n r md # ms)" unfolding settles_def
    by (rule exI [of _ "MTool i n r md # outs"], rule exI [of _ rest])
      (use o mset_hm_remove [OF assms(1) get] in auto)
qed

inductive_cases settled_ConsE: "settled (m # ms)"

lemma settled_Cons_iff:
  "settled (m # ms) \<longleftrightarrow>
     (if is_plain_message m then settled ms
      else case m of MAssistantToolCalls _ calls _ \<Rightarrow> valid_calls calls \<and> settles (map call_key calls) ms
           | _ \<Rightarrow> False)"
  by (cases m) (auto simp: settles_def elim!: settled_ConsE intro: settled.intros)

lemma settles_head:
  assumes "pending \<noteq> []" and "settles pending ms"
  shows "\<exists>i n r md ms'. ms = MTool i n r md # ms'"
proof -
  from assms obtain outs rest where o: "ms = outs @ rest" "list_all is_tool_message outs"
      "mset (map tool_key outs) = mset pending" by (auto simp: settles_def)
  with assms(1) obtain x outs' where "outs = x # outs'" by (cases outs) auto
  with o show ?thesis by (cases x) auto
qed

lemma insert_calls_iff:
  assumes "distinct (hm_keys pending)"
  shows "insert_calls pending calls = Ok p \<longleftrightarrow>
    p = pending @ map call_key calls \<and> distinct (hm_keys (pending @ map call_key calls)) \<and>
    (\<forall>c \<in> set calls. mtc_call_id c \<noteq> [] \<and> mtc_tool_name c \<noteq> [])"
  using assms
proof (induction pending calls rule: insert_calls.induct)
  case (2 pending call calls)
  show ?case
  proof (cases "mtc_call_id call = [] \<or> mtc_tool_name call = [] \<or> hm_contains pending (mtc_call_id call)")
    case True
    then show ?thesis by (auto simp: hm_contains_iff call_key_def)
  next
    case False
    then have ins: "hm_insert (mtc_call_id call) (mtc_tool_name call) pending = pending @ [call_key call]"
      by (simp add: hm_insert_def call_key_def)
    have "distinct (hm_keys (pending @ [call_key call]))"
      using 2(2) False by (auto simp: hm_contains_iff call_key_def)
    with 2(1) [OF False] False show ?thesis by (simp add: ins)
  qed
qed auto

lemma keys_of_calls [simp]: "map (fst \<circ> call_key) calls = map mtc_call_id calls"
  by (simp add: call_key_def)

lemma validate_messages_iff:
  "distinct (hm_keys pending) \<Longrightarrow> validate_messages pending ms = Ok () \<longleftrightarrow> settles pending ms"
proof (induction pending ms rule: validate_messages.induct)
  case (1 pending)
  then show ?case by (auto simp: settles_def settled_Nil)
next
  case (2 pending m ms)
  have interrupts: "\<not> settles pending (m # ms)" if "pending \<noteq> []" "\<not> is_tool_message m"
    using settles_head [OF that(1), of "m # ms"] that(2) by auto
  have plain: ?case if "is_plain_message m"
  proof (cases "pending = []")
    case True
    have "validate_messages [] ms = Ok () \<longleftrightarrow> settled ms"
      using "2.IH"(1-4) that True by (cases m) auto
    moreover have "validate_messages pending (m # ms) = validate_messages [] ms"
      using that True by (cases m) auto
    ultimately show ?thesis using that True by (simp add: settled_Cons_iff del: validate_messages.simps)
  next
    case False
    have "validate_messages pending (m # ms) \<noteq> Ok ()" using that False by (cases m) auto
    moreover have "\<not> is_tool_message m" using that by (cases m) auto
    ultimately show ?thesis using interrupts [OF False] by blast
  qed
  have instructions: ?case if "validate_messages pending (m # ms) = Err ContainsInstructions"
    "\<not> is_tool_message m" "\<not> settled (m # ms)"
    using that interrupts by (cases "pending = []") auto
  show ?case
  proof (cases m)
    case (MTool i n r md)
    have no: "\<not> settled (MTool i n r md # ms)" by (auto elim: settled_ConsE)
    show ?thesis
    proof (cases "hm_get pending i = Some n")
      case True
      then have "pending \<noteq> []" by auto
      then show ?thesis using 2 True MTool settles_tool distinct_hm_remove [OF "2.prems"] by simp
    next
      case False
      then show ?thesis using MTool no settles_tool [OF "2.prems"] by (cases "pending = []") auto
    qed
  next
    case (MAssistantToolCalls content calls cont)
    show ?thesis
    proof (cases "pending = []")
      case True
      have IH: "validate_messages (map call_key calls) ms = Ok () \<longleftrightarrow> settles (map call_key calls) ms"
        if "valid_calls calls"
      proof (rule "2.IH"(5) [OF MAssistantToolCalls])
        show "\<not> (pending \<noteq> [] \<or> calls = [])" "distinct (hm_keys (map call_key calls))"
          using that True by (simp_all add: valid_calls_def)
      qed
      have "validate_messages pending (m # ms) = Ok () \<longleftrightarrow> calls \<noteq> [] \<and>
            (\<exists>p. insert_calls [] calls = Ok p \<and> validate_messages p ms = Ok ())"
        using True MAssistantToolCalls by (simp add: and_then_Ok_iff)
      also have "\<dots> \<longleftrightarrow> valid_calls calls \<and> validate_messages (map call_key calls) ms = Ok ()"
        by (auto simp: insert_calls_iff valid_calls_def)
      also have "\<dots> \<longleftrightarrow> valid_calls calls \<and> settles (map call_key calls) ms"
        using IH by blast
      finally show ?thesis using True MAssistantToolCalls by (simp add: settled_Cons_iff)
    next
      case False
      then show ?thesis using MAssistantToolCalls interrupts by auto
    qed
  qed ((rule plain, force) | (rule instructions; simp add: settled_Cons_iff))+
qed

section \<open>Metadata\<close>

lemma take_metadata_spec:
  assumes "take_metadata i ms = (ms', md)"
  shows "length ms' = length ms \<and> distinct (hm_keys md) \<and>
    (\<forall>k \<in> set (hm_keys md). i \<le> k \<and> k < i + length ms \<and> is_tool_message (ms' ! (k - i))) \<and>
    (\<forall>pre. length pre = i \<longrightarrow> foldl restore_metadata (pre @ ms') md = pre @ ms) \<and>
    (\<forall>pending. validate_messages pending ms' = validate_messages pending ms)"
  using assms
proof (induction i ms arbitrary: ms' md rule: take_metadata.induct)
  case (2 i m ms)
  obtain ns nd where rec: "take_metadata (Suc i) ms = (ns, nd)" by fastforce
  note IH = "2.IH" [OF rec]
  have tail: "foldl restore_metadata (pre @ m # ns) nd = pre @ m # ms" if "length pre = i" for pre
    using IH that by (metis append.assoc append_Cons append_Nil length_append_singleton)
  have idx: "(m0 # ns) ! (k - i) = ns ! (k - Suc i)" if "Suc i \<le> k" for k m0
    using that by (simp add: nth_Cons')
  show ?case
  proof (cases "\<exists>c n r v. m = MTool c n r v \<and> v \<noteq> JNull")
    case True
    then obtain c n r v where m: "m = MTool c n r v" "v \<noteq> JNull" by blast
    then have eq: "ms' = MTool c n r JNull # ns" "md = (i, v) # nd"
      using "2.prems" rec by simp_all
    have "foldl restore_metadata (pre @ ms') md = pre @ m # ms" if "length pre = i" for pre
      using tail [OF that] m that by (simp add: eq restore_metadata_def nth_append list_update_append)
    moreover have "i \<notin> set (hm_keys nd)" using IH by fastforce
    ultimately show ?thesis using IH m eq idx by (auto simp: nth_Cons' Suc_le_eq split: if_splits)
  next
    case False
    then have eq: "ms' = m # ns" "md = nd"
      using "2.prems" rec by (auto split: model_message.splits)
    have valid: "validate_messages pending (m # ns) = validate_messages pending (m # ms)" for pending
      using IH by (auto split: model_message.split)
    show ?thesis using IH tail valid eq idx by (auto simp: Suc_le_eq less_imp_le)
  qed
qed simp

lemma validate_iff:
  "clm_validate c = Ok () \<longleftrightarrow>
     clm_version c = 1 \<and> clm_msgs c \<noteq> [] \<and> clm_protected_prefix_len c \<le> length (clm_msgs c) \<and>
     (\<forall>i \<in> set (hm_keys (clm_tool_metadata c)).
        i < length (clm_msgs c) \<and> is_tool_message (clm_msgs c ! i)) \<and>
     settled (clm_msgs c)"
  using validate_messages_iff [of "[]" "clm_msgs c"] by (auto simp: clm_validate_def list_all_iff)

lemma is_ok_unit: "(r :: (unit, 'e) result) = Ok () \<longleftrightarrow> is_ok r"
  by (cases r) simp_all

lemma from_messages_eq:
  assumes "take_metadata 0 ms = (ms', md)"
  shows "clm_from_messages ms n = Ok c \<longleftrightarrow>
    c = \<lparr>clm_version = 1, clm_msgs = ms', clm_tool_metadata = md, clm_protected_prefix_len = n\<rparr> \<and>
    ms \<noteq> [] \<and> n \<le> length ms \<and> settled ms"
proof -
  note spec = take_metadata_spec [OF assms]
  have "validate_messages [] ms' = validate_messages [] ms" using spec by blast
  then have st: "settled ms' \<longleftrightarrow> settled ms"
    using validate_messages_iff [of "[]" ms] validate_messages_iff [of "[]" ms'] by simp
  have len: "length ms' = length ms" using spec by blast
  then have ne: "ms' = [] \<longleftrightarrow> ms = []" by (metis length_0_conv)
  have keys: "\<forall>i \<in> set (hm_keys md). i < length ms \<and> is_tool_message (ms' ! i)"
    using conjunct1 [OF conjunct2 [OF conjunct2 [OF spec]]] by simp
  have "clm_validate \<lparr>clm_version = 1, clm_msgs = ms', clm_tool_metadata = md,
                        clm_protected_prefix_len = n\<rparr> = Ok () \<longleftrightarrow>
        ms \<noteq> [] \<and> n \<le> length ms \<and> settled ms"
    unfolding validate_iff using st ne keys by (simp add: len)
  then show ?thesis
    unfolding clm_from_messages_def assms by (auto simp: Let_def and_then_Ok_iff)
qed

lemma parse_digits_snoc:
  "parse_digits acc (s @ [c]) = opt_and_then (parse_digits acc s) (\<lambda>a. parse_digits a [c])"
proof (induction acc s rule: parse_digits.induct)
  case (2 acc d cs)
  then show ?case
    by (cases "48 \<le> d \<and> d \<le> 57 \<and> 10 * acc + (d - 48) \<le> USIZE_MAX")
      (simp_all only: append_Cons parse_digits.simps if_True if_False opt_and_then_simps simp_thms)
qed simp

lemma parse_digits_show: "n \<le> USIZE_MAX \<Longrightarrow> parse_digits 0 (show_nat n) = Some n"
proof (induction n rule: show_nat.induct)
  case (1 n)
  show ?case
  proof (cases "n < 10")
    case True
    then show ?thesis using 1(2) by (subst show_nat.simps) simp
  next
    case False
    have "n mod 10 < 10" by simp
    moreover have "n div 10 \<le> USIZE_MAX" using 1(2) by simp
    ultimately show ?thesis using 1(1) [OF False] 1(2) False
      by (subst show_nat.simps) (simp add: parse_digits_snoc)
  qed
qed

lemma show_nat_digits: "show_nat n \<noteq> [] \<and> hd (show_nat n) \<noteq> 43"
proof (induction n rule: show_nat.induct)
  case (1 n)
  then show ?case by (simp add: show_nat.simps [of n] hd_append)
qed

lemma parse_show [simp]: "n \<le> USIZE_MAX \<Longrightarrow> parse_usize (show_nat n) = Some n"
  using show_nat_digits [of n] parse_digits_show [of n]
  by (auto simp: parse_usize_def simp del: parse_digits.simps split: list.split)

lemma visit_serialized:
  "distinct (hm_keys (acc @ md)) \<Longrightarrow> \<forall>k \<in> set (hm_keys md). k \<le> USIZE_MAX \<Longrightarrow>
     visit_metadata acc (serialize_tool_metadata md) = Ok (acc @ md)"
proof (induction md arbitrary: acc)
  case (Cons e md)
  obtain k v where e: "e = (k, v)" by (cases e)
  have fresh: "\<not> hm_contains acc k" using Cons.prems(1) e by (auto simp: hm_contains_iff)
  then have "hm_insert k v acc = acc @ [e]" by (simp add: hm_insert_def e)
  with Cons.IH [of "acc @ [e]"] Cons.prems fresh show ?case
    by (simp add: serialize_tool_metadata_def e)
qed (simp add: serialize_tool_metadata_def)

section \<open>Properties\<close>

text \<open>
  The validation of a checkpoint accepts exactly the settled conversations: version 1, a
  protected prefix within the non-empty list of messages, metadata only at tool messages, and
  messages that are plain or form tool call groups, each with distinct named calls that are
  answered by exactly one output apiece before anything else is said.
\<close>

theorem checkpoint_validates_settled_conversations:
  "is_ok (clm_validate c) \<longleftrightarrow>
     clm_version c = 1 \<and> clm_msgs c \<noteq> [] \<and> clm_protected_prefix_len c \<le> length (clm_msgs c) \<and>
     list_all (\<lambda>i. i < length (clm_msgs c) \<and> is_tool_message (clm_msgs c ! i))
       (hm_keys (clm_tool_metadata c)) \<and>
     settled (clm_msgs c)"
  using validate_iff [of c] by (simp add: is_ok_unit list_all_iff)


text \<open>A conversation of one tool call group between a question and an answer.\<close>

definition demo_conversation :: "model_message list" where
  "demo_conversation =
     [MUser (lit ''list''),
      MAssistantToolCalls None
        [\<lparr>mtc_call_id = lit ''a'', mtc_tool_name = lit ''ls'', mtc_arguments_json = lit ''{}''\<rparr>,
         \<lparr>mtc_call_id = lit ''b'', mtc_tool_name = lit ''cat'', mtc_arguments_json = lit ''{}''\<rparr>] None,
      MTool (lit ''b'') (lit ''cat'') (lit ''text'') (JBool True),
      MTool (lit ''a'') (lit ''ls'') (lit ''files'') JNull,
      MAssistant (lit ''done'')]"


end
