(* ===== verification/History.thy ===== *)
theory History
  imports Clm_Checkpoint Text_Clip
begin

text \<open>
  Canonical history, \<open>src/src/protocol/mod.rs\<close>: items and their payloads, the compaction layouts,
  which items a committed compaction hides, and the envelope of a message between agents. Fields
  that the modelled code only carries (diagnostics, prompt dispatch, editor context) are
  numbers.
\<close>

section \<open>Items\<close>

datatype history_scope = Turn turn_id | Session

fun scope_turn_id :: "history_scope \<Rightarrow> turn_id option" where
  "scope_turn_id (Turn t) = Some t"
| "scope_turn_id Session = None"

fun scope_as_str :: "history_scope \<Rightarrow> ustr" where
  "scope_as_str (Turn _) = lit ''turn''"
| "scope_as_str Session = lit ''session''"

datatype mode_kind = DefaultMode | PlanMode

datatype compaction_mode = Automatic

datatype compaction_layout = LegacyPrefix | UserAnchoredCheckpoint | ClmCheckpointLayout

definition appends_checkpoint :: "compaction_layout \<Rightarrow> bool" where
  "appends_checkpoint l = (l = UserAnchoredCheckpoint)"

datatype layout_error =
    InvalidCheckpoint clm_error
  | SeparateUserAnchors
  | RequiresCheckpoint
  | RequiresClmLayout

definition validate_checkpoint ::
  "compaction_layout \<Rightarrow> clm_checkpoint option \<Rightarrow> ustr list \<Rightarrow> (unit, layout_error) result" where
  "validate_checkpoint l checkpoint preserved_user_messages =
     (case (l = ClmCheckpointLayout, checkpoint) of
        (True, Some c) \<Rightarrow>
          (case clm_validate c of
             Inl e \<Rightarrow> Err (InvalidCheckpoint e)
           | Inr _ \<Rightarrow> if preserved_user_messages \<noteq> [] then Err SeparateUserAnchors else Ok ())
      | (True, None) \<Rightarrow> Err RequiresCheckpoint
      | (False, Some _) \<Rightarrow> Err RequiresClmLayout
      | (False, None) \<Rightarrow> Ok ())"

datatype tool_lifecycle_status = Pending | Running | Completed | Declined | Cancelled | Failed

record image_part =
  img_source_path :: "ustr option"
  img_mime_type :: ustr
  img_data_base64 :: ustr
  img_byte_len :: nat

datatype content_part = CText ustr | CImage image_part

record inter_agent_communication =
  iac_author :: ustr
  iac_recipient :: ustr
  iac_content :: ustr
  iac_trigger_turn :: bool

datatype sub_agent_activity_kind = Started | Interacted | Interrupted

datatype permission_decision =
    NotRequired
  | PermissionPending
  | PermissionApproved
  | PermissionDenied ustr

datatype change_kind = AddChange | UpdateChange | DeleteChange | MoveChange

record file_change_evidence =
  fce_change_id :: ulid
  fce_kind :: change_kind
  fce_path_before :: "ustr option"
  fce_path_after :: "ustr option"
  fce_summary :: ustr

datatype durable_feedback_severity = InfoFeedback | WarningFeedback | ErrorFeedback

datatype durable_feedback_category =
    TransportFeedback
  | PermissionFeedback
  | ProviderFeedback
  | UserActionFeedback
  | ContextFeedback
  | RuntimeFeedback

record durable_runtime_feedback =
  drf_severity :: durable_feedback_severity
  drf_category :: durable_feedback_category
  drf_public_message :: ustr

text \<open>The snapshot of the world state: its sections by name.\<close>

record world_state_snapshot =
  ws_sections :: "(ustr, json) hmap"

definition section_count :: "world_state_snapshot \<Rightarrow> nat" where
  "section_count s = length (ws_sections s)"

type_synonym response_id = ulid
type_synonym tool_call_id = ulid

datatype history_item_payload =
    UserTurn "content_part list" "nat option" "nat option"
  | SteerTurn turn_id "content_part list" nat "ustr option"
  | InterAgentCommunication inter_agent_communication
  | SubAgentActivity ustr session_id ustr sub_agent_activity_kind
  | CollaborationModeInstruction mode_kind
  | AssistantMessage response_id "content_part list"
  | ErrorItem ustr
  | DurableFeedback durable_runtime_feedback
  | ToolCall tool_call_id response_id ustr ustr ustr
  | ToolOutput tool_call_id tool_lifecycle_status ustr ustr json "bool option"
  | RequestDiagnostics nat
  | WorldState world_state_snapshot ustr
  | ApprovalDecision tool_call_id permission_decision
  | Compaction compaction_mode compaction_layout "ustr list" "clm_checkpoint option" ustr
      "history_item_id list"
  | FileChange tool_call_id "ulid list" "file_change_evidence list" ustr

record history_item =
  hi_id :: history_item_id
  hi_session_id :: session_id
  hi_scope :: history_scope
  hi_sequence_no :: int
  hi_created_at_ms :: int
  hi_payload :: history_item_payload

fun validate_compaction_checkpoint :: "history_item_payload \<Rightarrow> (unit, layout_error) result" where
  "validate_compaction_checkpoint (Compaction _ l preserved checkpoint _ _) =
     validate_checkpoint l checkpoint preserved"
| "validate_compaction_checkpoint _ = Ok ()"

fun replacement_ids :: "history_item_payload \<Rightarrow> history_item_id list" where
  "replacement_ids (Compaction _ _ _ _ _ ids) = ids"
| "replacement_ids _ = []"

definition compacted_history_item_ids :: "history_item list \<Rightarrow> history_item_id list" where
  "compacted_history_item_ids items = concat (map (replacement_ids \<circ> hi_payload) items)"

fun part_text :: "content_part \<Rightarrow> ustr option" where
  "part_text (CText s) = Some s"
| "part_text (CImage _) = None"

definition content_text :: "content_part list \<Rightarrow> ustr" where
  "content_text content = join [LF] (List.map_filter part_text content)"

section \<open>Messages between agents\<close>

datatype inter_agent_message_type = NewTaskMessage | PlainMessage | FinalAnswerMessage

fun message_type_as_str :: "inter_agent_message_type \<Rightarrow> ustr" where
  "message_type_as_str NewTaskMessage = lit ''NEW_TASK''"
| "message_type_as_str PlainMessage = lit ''MESSAGE''"
| "message_type_as_str FinalAnswerMessage = lit ''FINAL_ANSWER''"

definition render_inter_agent_message ::
  "inter_agent_message_type \<Rightarrow> ustr \<Rightarrow> ustr \<Rightarrow> ustr \<Rightarrow> ustr" where
  "render_inter_agent_message message_type recipient author payload =
     lit ''Message Type: '' @ message_type_as_str message_type @
     LF # lit ''Task name: '' @ recipient @ LF # lit ''Sender: '' @ author @
     LF # lit ''Payload:'' @ LF # payload"

text \<open>\<open>str::split_once\<close>: around the first occurrence.\<close>

fun split_once :: "ustr \<Rightarrow> ustr \<Rightarrow> (ustr \<times> ustr) option" where
  "split_once p s =
     (case strip_prefix p s of
        Some r \<Rightarrow> Some ([], r)
      | None \<Rightarrow> (case s of [] \<Rightarrow> None | c # cs \<Rightarrow> map_option (\<lambda>(a, b). (c # a, b)) (split_once p cs)))"

declare split_once.simps [simp del]

text \<open>The next line of an iterator with its expected prefix removed.\<close>

definition next_field :: "ustr \<Rightarrow> ustr list \<Rightarrow> ustr option" where
  "next_field p ls = (case ls of [] \<Rightarrow> None | l # _ \<Rightarrow> strip_prefix p l)"

definition rendered_inter_agent_message_type ::
  "inter_agent_communication \<Rightarrow> inter_agent_message_type option" where
  "rendered_inter_agent_message_type c =
     (case split_once (LF # lit ''Payload:'' @ [LF]) (iac_content c) of
        None \<Rightarrow> None
      | Some (header, _) \<Rightarrow>
          let ls = str_lines header in
          (case next_field (lit ''Message Type: '') ls of
             None \<Rightarrow> None
           | Some message_type \<Rightarrow>
               let task_name_matches =
                     (next_field (lit ''Task name: '') (drop 1 ls) = Some (iac_recipient c));
                   sender_matches =
                     (next_field (lit ''Sender: '') (drop 2 ls) = Some (iac_author c));
                   mt = (if iac_trigger_turn c \<and> message_type = lit ''NEW_TASK'' then Some NewTaskMessage
                         else if \<not> iac_trigger_turn c \<and> message_type = lit ''MESSAGE'' then Some PlainMessage
                         else if \<not> iac_trigger_turn c \<and> message_type = lit ''FINAL_ANSWER''
                         then Some FinalAnswerMessage else None)
               in if task_name_matches \<and> sender_matches \<and> drop 3 ls = [] then mt else None))"

definition is_rendered_inter_agent_message :: "inter_agent_communication \<Rightarrow> bool" where
  "is_rendered_inter_agent_message c = (rendered_inter_agent_message_type c \<noteq> None)"

definition inter_agent_input_text :: "inter_agent_communication \<Rightarrow> ustr" where
  "inter_agent_input_text c =
     (if is_rendered_inter_agent_message c then iac_content c
      else render_inter_agent_message (if iac_trigger_turn c then NewTaskMessage else PlainMessage)
             (iac_recipient c) (iac_author c) (iac_content c))"

definition inter_agent_input_message :: "inter_agent_communication \<Rightarrow> model_message" where
  "inter_agent_input_message c = MAgent (inter_agent_input_text c)"

section \<open>The envelope is recognised\<close>

lemma split_once_here: "split_once p (p @ s) = Some ([], s)"
  by (subst split_once.simps) simp

lemma split_once_skip:
  "strip_prefix p (c # s) = None \<Longrightarrow>
     split_once p (c # s) = map_option (\<lambda>(a, b). (c # a, b)) (split_once p s)"
  by (subst split_once.simps) simp

text \<open>A separator that starts a line is only found at the end of a line.\<close>

lemma split_once_line:
  assumes "LF \<notin> set l"
  shows "split_once (LF # p) (l @ s) = map_option (\<lambda>(a, b). (l @ a, b)) (split_once (LF # p) s)"
  using assms
proof (induction l)
  case (Cons c l)
  then have "split_once (LF # p) ((c # l) @ s) =
             map_option (\<lambda>(a, b). (c # a, b)) (split_once (LF # p) (l @ s))"
    by (simp add: split_once_skip)
  then show ?case using Cons by (simp add: option.map_comp comp_def case_prod_beta)
qed (simp add: case_prod_beta option.map_id)

definition one_line :: "ustr \<Rightarrow> bool" where
  "one_line s \<longleftrightarrow> LF \<notin> set s \<and> CR \<notin> set s"

lemma lines_without_last:
  "one_line a \<Longrightarrow> one_line b \<Longrightarrow> one_line c \<Longrightarrow> c \<noteq> [] \<Longrightarrow>
     str_lines (a @ LF # b @ LF # c) = [a, b, c]"
  using str_lines_join [of "[a, b, c]"] by (simp add: one_line_def)

lemma one_line_append [simp]: "one_line (a @ b) \<longleftrightarrow> one_line a \<and> one_line b"
  by (auto simp: one_line_def)

lemma lit_one_lines [simp]:
  "one_line (lit ''Message Type: '')" "one_line (lit ''Task name: '')" "one_line (lit ''Sender: '')"
  "one_line (lit ''NEW_TASK'')" "one_line (lit ''MESSAGE'')" "one_line (lit ''FINAL_ANSWER'')"
  unfolding one_line_def by code_simp+

lemma one_line_type [simp]: "one_line (message_type_as_str ty)"
  by (cases ty) simp_all

lemma other_lines:
  "split_once (LF # lit ''Payload:'' @ [LF]) (LF # lit ''Task name: '' @ s) =
     map_option (\<lambda>(a, b). (LF # a, b)) (split_once (LF # lit ''Payload:'' @ [LF]) (lit ''Task name: '' @ s))"
  "split_once (LF # lit ''Payload:'' @ [LF]) (LF # lit ''Sender: '' @ s) =
     map_option (\<lambda>(a, b). (LF # a, b)) (split_once (LF # lit ''Payload:'' @ [LF]) (lit ''Sender: '' @ s))"
  by (rule split_once_skip, simp add: lit_def)+

lemma rendered_header:
  assumes "one_line r" and "one_line a"
  shows "split_once (LF # lit ''Payload:'' @ [LF]) (render_inter_agent_message ty r a payload) =
    Some (lit ''Message Type: '' @ message_type_as_str ty @ LF # lit ''Task name: '' @ r @
          LF # lit ''Sender: '' @ a, payload)"
proof -
  let ?p = "LF # lit ''Payload:'' @ [LF]"
  have here: "split_once ?p (LF # lit ''Payload:'' @ LF # payload) = Some ([], payload)"
    using split_once_here [of ?p payload] by simp
  have l: "LF \<notin> set (lit ''Message Type: '')" "LF \<notin> set (message_type_as_str ty)"
    "LF \<notin> set (lit ''Task name: '')" "LF \<notin> set (lit ''Sender: '')" "LF \<notin> set r" "LF \<notin> set a"
    using assms one_line_type [of ty] lit_one_lines by (auto simp: one_line_def)
  show ?thesis unfolding render_inter_agent_message_def
    by (simp add: split_once_line l here other_lines)
qed

lemma type_of_str:
  "message_type_as_str ty = lit ''NEW_TASK'' \<longleftrightarrow> ty = NewTaskMessage"
  "message_type_as_str ty = lit ''MESSAGE'' \<longleftrightarrow> ty = PlainMessage"
  "message_type_as_str ty = lit ''FINAL_ANSWER'' \<longleftrightarrow> ty = FinalAnswerMessage"
  by (cases ty; simp add: lit_def)+

lemma rendered_type:
  assumes "one_line (iac_recipient c)" and "one_line (iac_author c)"
    and "iac_trigger_turn c = (ty = NewTaskMessage)"
    and "iac_content c = render_inter_agent_message ty (iac_recipient c) (iac_author c) payload"
  shows "rendered_inter_agent_message_type c = Some ty"
proof -
  have "lit ''Sender: '' \<noteq> []" by code_simp
  then have ls: "str_lines (lit ''Message Type: '' @ message_type_as_str ty @
          LF # lit ''Task name: '' @ iac_recipient c @ LF # lit ''Sender: '' @ iac_author c) =
        [lit ''Message Type: '' @ message_type_as_str ty, lit ''Task name: '' @ iac_recipient c,
         lit ''Sender: '' @ iac_author c]"
    using lines_without_last [of "lit ''Message Type: '' @ message_type_as_str ty"
        "lit ''Task name: '' @ iac_recipient c" "lit ''Sender: '' @ iac_author c"] assms(1,2) by simp
  show ?thesis
    unfolding rendered_inter_agent_message_type_def assms(4) rendered_header [OF assms(1,2)]
      Let_def option.case prod.case ls next_field_def
    using assms(3) by (simp add: type_of_str) (cases ty; simp)
qed

text \<open>
  A message between agents is wrapped in its envelope exactly once: the text given to the model
  is recognised as rendered when it comes back with the same author, recipient and trigger, so that
  wrapping it again changes nothing. (Agent paths have no line breaks.)
\<close>

theorem envelope_is_written_once:
  assumes "one_line (iac_recipient c)" and "one_line (iac_author c)"
  shows "inter_agent_input_text (c\<lparr>iac_content := inter_agent_input_text c\<rparr>) = inter_agent_input_text c"
proof (cases "is_rendered_inter_agent_message c")
  case True
  then show ?thesis by (simp add: inter_agent_input_text_def)
next
  case False
  let ?ty = "if iac_trigger_turn c then NewTaskMessage else PlainMessage"
  let ?c = "c\<lparr>iac_content := inter_agent_input_text c\<rparr>"
  have "rendered_inter_agent_message_type ?c = Some ?ty"
    using False assms by (intro rendered_type [where payload = "iac_content c"])
      (auto simp: inter_agent_input_text_def)
  then show ?thesis by (simp add: inter_agent_input_text_def is_rendered_inter_agent_message_def)
qed

definition demo_communication :: inter_agent_communication where
  "demo_communication = \<lparr>iac_author = lit ''/root'', iac_recipient = lit ''/root/a'',
     iac_content = lit ''read'' @ [LF] @ lit ''it'', iac_trigger_turn = True\<rparr>"

theorem envelope_is_written_once_witness:
  "one_line (iac_recipient demo_communication) \<and> one_line (iac_author demo_communication) \<and>
   \<not> is_rendered_inter_agent_message demo_communication \<and>
   inter_agent_input_text (demo_communication\<lparr>iac_content := inter_agent_input_text demo_communication\<rparr>)
     = inter_agent_input_text demo_communication"
proof -
  have o: "one_line (iac_recipient demo_communication)" "one_line (iac_author demo_communication)"
    unfolding one_line_def by code_simp+
  have "\<not> is_rendered_inter_agent_message demo_communication" by code_simp
  with o envelope_is_written_once [OF o] show ?thesis by blast
qed

end
