(* ===== verification/Source_Records.thy ===== *)
theory Source_Records
  imports History Patch_Parser
begin

text \<open>
  The text of a compaction checkpoint, \<open>src/src/agent/compaction.rs\<close>: the frame around its
  source records, the reference to canonical history, and the projection of a legacy attachment
  for the model. Printing and parsing JSON, SHA-256 and the text of an identity are not code of
  the repository; they are the functions of a \<open>host_env\<close>. The error of a function is kept as
  a datatype (the strings only differ in wording).
\<close>

section \<open>Source records\<close>

datatype source_content =
    SText ustr
  | SImageReference "ustr option" ustr nat nat ustr

record source_payload_reference =
  spr_field :: ustr
  spr_utf8_bytes :: nat
  spr_sha256 :: ustr

datatype source_patch_operation =
    SAdd ustr
  | SUpdate ustr "ustr option"
  | SDelete ustr

datatype source_record_data =
    SUserTurn "source_content list"
  | SSteerTurn "source_content list"
  | STriggeringAgentInput ustr ustr ustr
  | SToolCall tool_call_id ustr ustr ustr
  | SToolCallWithPayloadReferences tool_call_id ustr ustr ustr nat "(ustr \<times> json) list"
      "source_payload_reference list" "source_patch_operation list"
  | SToolOutput tool_call_id tool_lifecycle_status "bool option" ustr nat

record source_record =
  source_session_id :: session_id
  source_item_id :: history_item_id
  source_data :: source_record_data

record source_records =
  sr_version :: nat
  sr_records :: "source_record list"

text \<open>The hint of a shell result (\<open>src/src/tool/shell.rs\<close>), read from metadata by \<open>serde\<close>.\<close>

datatype shell_sandbox_failure_hint = WorkspaceWriteEffectTempAccessDenied

text \<open>The host: \<open>serde_json\<close> for strings, values, cards and the size of a record, SHA-256, and the
  text of a ULID.\<close>

record host_env =
  env_quote :: "ustr \<Rightarrow> ustr"
  env_parse_json :: "ustr \<Rightarrow> json option"
  env_print_json :: "json \<Rightarrow> ustr"
  env_parse_card :: "ustr \<Rightarrow> source_records option"
  env_print_card :: "source_records \<Rightarrow> ustr option"
  env_record_bytes :: "source_record_data \<Rightarrow> nat option"
  env_failure_hint :: "json \<Rightarrow> shell_sandbox_failure_hint option"
  env_sha256 :: "ustr \<Rightarrow> ustr"
  env_id_str :: "ulid \<Rightarrow> ustr"
  env_payload_json :: "history_item_payload \<Rightarrow> nat list option"
  env_digest :: "nat list \<Rightarrow> ustr"

section \<open>The body of a checkpoint\<close>

definition SOURCE_RECORDS_BEGIN :: ustr where
  "SOURCE_RECORDS_BEGIN = lit ''<<<SOURCE_RECORDS_BEGIN>>>''"

definition SOURCE_RECORDS_END :: ustr where
  "SOURCE_RECORDS_END = lit ''<<<SOURCE_RECORDS_END>>>''"

datatype checkpoint_error = EmptyBody | ReservedFraming | ConflictingRecords session_id history_item_id

definition str_contains :: "ustr \<Rightarrow> ustr \<Rightarrow> bool" where
  "str_contains p s = (find_str p s \<noteq> None)"

definition validate_checkpoint_body :: "ustr \<Rightarrow> (unit, checkpoint_error) result" where
  "validate_checkpoint_body body =
     (if trim body = [] then Err EmptyBody
      else if str_contains SOURCE_RECORDS_BEGIN body \<or> str_contains SOURCE_RECORDS_END body
      then Err ReservedFraming
      else Ok ())"

definition checkpoint_with_history_reference ::
  "host_env \<Rightarrow> ustr \<Rightarrow> history_item list \<Rightarrow> (ustr, checkpoint_error) result" where
  "checkpoint_with_history_reference env body items =
     and_then (validate_checkpoint_body body) (\<lambda>_.
       case items of
         [] \<Rightarrow> Ok body
       | first # _ \<Rightarrow>
           Ok (body @ [LF, LF] @ lit ''Historical evidence in this conversation: first_item_id='' @
               env_id_str env (hi_id first) @ lit ''; last_item_id='' @
               env_id_str env (hi_id (last items)) @
               lit ''. Use read_history to retrieve original records. These references do not establish success, approval, or verification.''))"

section \<open>Payload references\<close>

text \<open>\<open>Map::remove\<close>.\<close>

definition json_remove :: "ustr \<Rightarrow> (ustr \<times> json) list \<Rightarrow> (ustr \<times> json) list" where
  "json_remove k kvs = filter (\<lambda>(k', _). k' \<noteq> k) kvs"

fun source_patch_operation_of :: "patch_operation \<Rightarrow> source_patch_operation" where
  "source_patch_operation_of (AddFile path _) = SAdd path"
| "source_patch_operation_of (UpdateFile path _ move_to) = SUpdate path move_to"
| "source_patch_operation_of (DeleteFile path) = SDelete path"

definition result_ok :: "('a, 'e) result \<Rightarrow> 'a option" where
  "result_ok r = (case r of Inl _ \<Rightarrow> None | Inr x \<Rightarrow> Some x)"

definition projected_payload_arguments ::
  "host_env \<Rightarrow> ustr \<Rightarrow> ustr \<Rightarrow>
   ((ustr \<times> json) list \<times> source_payload_reference list \<times> source_patch_operation list) option" where
  "projected_payload_arguments env tool_name arguments_json =
     do {
       field \<leftarrow> (if tool_name = lit ''write'' then Some (lit ''content'')
                 else if tool_name = lit ''apply_patch'' then Some (lit ''patch_text'')
                 else None);
       v \<leftarrow> env_parse_json env arguments_json;
       arguments \<leftarrow> (case v of JObj kvs \<Rightarrow> Some kvs | _ \<Rightarrow> None);
       p \<leftarrow> map_of arguments field;
       payload \<leftarrow> as_str p;
       patch_operations \<leftarrow>
         (if tool_name = lit ''write''
          then do { path \<leftarrow> map_of arguments (lit ''path''); _ \<leftarrow> as_str path; Some [] }
          else do { ops \<leftarrow> result_ok (parse_patch payload); Some (map source_patch_operation_of ops) });
       Some (json_remove field arguments,
             [\<lparr>spr_field = field, spr_utf8_bytes = utf8_len payload, spr_sha256 = env_sha256 env payload\<rparr>],
             patch_operations)
     }"

definition reference_tool_call_payloads :: "host_env \<Rightarrow> source_record_data \<Rightarrow> source_record_data" where
  "reference_tool_call_payloads env d =
     (case d of
        SToolCall call_id model_call_id tool_name arguments_json \<Rightarrow>
          (case projected_payload_arguments env tool_name arguments_json of
             None \<Rightarrow> d
           | Some (retained_arguments, payload_references, patch_operations) \<Rightarrow>
               let candidate =
                 SToolCallWithPayloadReferences call_id model_call_id tool_name
                   (env_sha256 env arguments_json) (utf8_len arguments_json) retained_arguments
                   payload_references patch_operations
               in (case (env_record_bytes env candidate, env_record_bytes env d) of
                     (Some candidate_bytes, Some raw_bytes) \<Rightarrow>
                       if candidate_bytes < raw_bytes then candidate else d
                   | _ \<Rightarrow> d))
      | _ \<Rightarrow> d)"

type_synonym seen_records = "(session_id \<times> history_item_id, nat) hmap"

definition append_record ::
  "host_env \<Rightarrow> source_record list \<times> seen_records \<Rightarrow> source_record \<Rightarrow>
   (source_record list \<times> seen_records, checkpoint_error) result" where
  "append_record env st r =
     (case st of (records, seen) \<Rightarrow>
      let rec = r\<lparr>source_data := reference_tool_call_payloads env (source_data r)\<rparr>;
          key = (source_session_id rec, source_item_id rec)
      in (case hm_get seen key of
            Some index \<Rightarrow>
              if records ! index \<noteq> rec
              then Err (ConflictingRecords (source_session_id rec) (source_item_id rec))
              else Ok (records, seen)
          | None \<Rightarrow> Ok (records @ [rec], hm_insert key (length records) seen)))"

fun append_records ::
  "host_env \<Rightarrow> source_record list \<times> seen_records \<Rightarrow> source_record list \<Rightarrow>
   (source_record list \<times> seen_records, checkpoint_error) result" where
  "append_records env st [] = Ok st"
| "append_records env st (r # rs) = and_then (append_record env st r) (\<lambda>st'. append_records env st' rs)"

section \<open>Legacy attachments\<close>

text \<open>\<open>str::rsplit_once\<close>: around the last occurrence.\<close>

fun rsplit_once :: "ustr \<Rightarrow> ustr \<Rightarrow> (ustr \<times> ustr) option" where
  "rsplit_once p s =
     (case (case s of [] \<Rightarrow> None | c # cs \<Rightarrow> map_option (\<lambda>(a, b). (c # a, b)) (rsplit_once p cs)) of
        Some r \<Rightarrow> Some r
      | None \<Rightarrow> map_option (\<lambda>r. ([], r)) (strip_prefix p s))"

declare rsplit_once.simps [simp del]

definition split_source_records :: "host_env \<Rightarrow> ustr \<Rightarrow> (ustr \<times> source_records) option" where
  "split_source_records env summary =
     do {
       (body, suffix) \<leftarrow> rsplit_once (LF # SOURCE_RECORDS_BEGIN @ [LF]) summary;
       json \<leftarrow> strip_suffix (LF # SOURCE_RECORDS_END) suffix;
       cardtext \<leftarrow> env_parse_card env json;
       if sr_version cardtext = 1 \<or> sr_version cardtext = 2 then Some (body, cardtext) else None
     }"

fun is_attributed_input :: "source_record_data \<Rightarrow> bool" where
  "is_attributed_input (SUserTurn _) = True"
| "is_attributed_input (SSteerTurn _) = True"
| "is_attributed_input (STriggeringAgentInput _ _ _) = True"
| "is_attributed_input _ = False"

definition no_records_note :: ustr where
  "no_records_note = [LF, LF] @ lit ''Use read_history to inspect available historical records. Originals not copied into this conversation may be unavailable.''"

definition framed :: "ustr \<Rightarrow> ustr \<Rightarrow> ustr" where
  "framed body cardtext = body @ LF # SOURCE_RECORDS_BEGIN @ LF # cardtext @ LF # SOURCE_RECORDS_END"

definition project_checkpoint_summary :: "host_env \<Rightarrow> ustr \<Rightarrow> ustr" where
  "project_checkpoint_summary env summary =
     (case split_source_records env summary of
        None \<Rightarrow> summary
      | Some (body, previous) \<Rightarrow>
          (case append_records env ([], []) (sr_records previous) of
             Inl _ \<Rightarrow> summary
           | Inr (records, _) \<Rightarrow>
               let kept = filter (\<lambda>r. is_attributed_input (source_data r)) records in
               if kept = [] then body @ no_records_note
               else if sr_version previous = 2 \<and> sr_records previous = kept then summary
               else (case env_print_card env \<lparr>sr_version = 2, sr_records = kept\<rparr> of
                       None \<Rightarrow> summary
                     | Some text0 \<Rightarrow> framed body text0)))"

section \<open>The projection is stable\<close>

lemma rsplit_once_None: "rsplit_once p s = None \<longleftrightarrow> find_str p s = None"
proof (induction s)
  case Nil
  show ?case by (subst rsplit_once.simps, subst find_str.simps)
      (auto simp: starts_with_def split: option.split)
next
  case (Cons c s)
  then show ?case by (subst rsplit_once.simps, subst find_str.simps)
      (auto simp: starts_with_def split: option.split)
qed

text \<open>The last occurrence is the one after which, one character on, there is none.\<close>

lemma rsplit_once_last:
  assumes "find_str p (drop 1 (p @ r)) = None"
  shows "rsplit_once p (a @ p @ r) = Some (a, r)"
proof (induction a)
  case Nil
  have "p \<noteq> []" using assms by (cases p) (auto simp: find_str_None)
  then obtain c cs where p: "p = c # cs" by (cases p) auto
  then have "rsplit_once p (cs @ r) = None" using assms by (simp add: rsplit_once_None)
  then have "rsplit_once p (c # cs @ r) = Some ([], r)"
    by (subst rsplit_once.simps) (simp add: p)
  then show ?case by (simp add: p)
next
  case (Cons c a)
  then show ?case by (subst rsplit_once.simps) simp
qed

lemma split_at_first: "x @ c # xs = y @ c # ys \<Longrightarrow> c \<notin> set x \<Longrightarrow> c \<notin> set y \<Longrightarrow> x = y \<and> xs = ys"
  by (auto simp: append_eq_append_conv2 Cons_eq_append_conv append_eq_Cons_conv)

definition begin_marker :: ustr where
  "begin_marker = LF # SOURCE_RECORDS_BEGIN @ [LF]"

lemma no_second_marker:
  assumes "LF \<notin> set cardtext" and "cardtext \<noteq> []" and "hd cardtext = 123"
  shows "find_str begin_marker (drop 1 (begin_marker @ cardtext @ LF # SOURCE_RECORDS_END)) = None"
proof (rule ccontr)
  let ?m = "SOURCE_RECORDS_BEGIN" and ?e = "SOURCE_RECORDS_END"
  assume "find_str begin_marker (drop 1 (begin_marker @ cardtext @ LF # ?e)) \<noteq> None"
  then obtain a b where ab: "?m @ LF # cardtext @ LF # ?e = a @ (LF # ?m @ [LF]) @ b"
    by (auto simp: find_str_None begin_marker_def)
  have lf: "LF \<notin> set ?m" "LF \<notin> set ?e" "hd ?m = 60" "?m \<noteq> []" by code_simp+
  have "count_list (?m @ LF # cardtext @ LF # ?e) LF = 2"
    using lf(1,2) assms(1) by (simp add: count_list_0_iff)
  then have "count_list a LF = 0" "count_list b LF = 0"
    unfolding ab using lf(1) by (simp_all add: count_list_0_iff)
  then have "LF \<notin> set a" by (simp add: count_list_0_iff)
  with ab lf(1) have "cardtext @ LF # ?e = ?m @ LF # b"
    using split_at_first [of ?m LF "cardtext @ LF # ?e" a "?m @ LF # b"] by simp
  then have "hd cardtext = hd ?m" using assms(2) lf(4) by (metis hd_append2)
  then show False using assms(3) lf(3) by simp
qed

lemma rsplit_once_Some: "rsplit_once p s = Some (a, b) \<Longrightarrow> s = a @ p @ b"
proof (induction s arbitrary: a)
  case Nil
  then show ?case by (subst (asm) rsplit_once.simps) (auto simp: strip_prefix_iff)
next
  case (Cons c s)
  then show ?case
    by (subst (asm) rsplit_once.simps) (auto simp: strip_prefix_iff split: option.splits)
qed

lemma last_note: "last (body @ no_records_note) = 46"
proof -
  have "no_records_note \<noteq> []" "last no_records_note = 46" by code_simp+
  then show ?thesis by simp
qed

lemma last_END: "last SOURCE_RECORDS_END = 62" "SOURCE_RECORDS_END \<noteq> []"
  by code_simp+

lemmas SOURCE_RECORDS_END_not_Nil = last_END(2)

text \<open>What the code relies on of the JSON printer: cards are read back, on one line, as objects.\<close>

definition prints_cards :: "host_env \<Rightarrow> bool" where
  "prints_cards env \<longleftrightarrow>
     (\<forall>c t. env_print_card env c = Some t \<longrightarrow>
        env_parse_card env t = Some c \<and> LF \<notin> set t \<and> t \<noteq> [] \<and> hd t = 123)"

lemma split_framed:
  assumes "prints_cards env" and "env_print_card env c = Some t" and "sr_version c = 2"
  shows "split_source_records env (framed body t) = Some (body, c)"
proof -
  have t: "env_parse_card env t = Some c" "LF \<notin> set t" "t \<noteq> []" "hd t = 123"
    using assms(1,2) by (auto simp: prints_cards_def)
  have "rsplit_once begin_marker (body @ begin_marker @ (t @ LF # SOURCE_RECORDS_END)) =
        Some (body, t @ LF # SOURCE_RECORDS_END)"
    by (rule rsplit_once_last, rule no_second_marker) (use t in auto)
  then have "rsplit_once (LF # SOURCE_RECORDS_BEGIN @ [LF]) (framed body t) =
        Some (body, t @ LF # SOURCE_RECORDS_END)"
    by (simp add: framed_def begin_marker_def)
  then show ?thesis using t(1) assms(3)
    by (simp add: split_source_records_def)
qed

lemma split_note: "split_source_records env (body @ no_records_note) = None"
proof -
  have "strip_suffix (LF # SOURCE_RECORDS_END) suffix = None"
    if "rsplit_once (LF # SOURCE_RECORDS_BEGIN @ [LF]) (body @ no_records_note) = Some (b, suffix)"
    for b suffix
  proof (rule ccontr)
    assume "strip_suffix (LF # SOURCE_RECORDS_END) suffix \<noteq> None"
    then obtain x where "suffix = x @ LF # SOURCE_RECORDS_END" by (auto simp: strip_suffix_iff)
    moreover have "\<exists>x. body @ no_records_note = x @ suffix"
      using rsplit_once_Some [OF that] by (metis append.assoc)
    ultimately have "last (body @ no_records_note) = last SOURCE_RECORDS_END"
      by (metis SOURCE_RECORDS_END_not_Nil append_is_Nil_conv last_ConsR last_appendR list.distinct(1))
    then show False by (simp add: last_note last_END)
  qed
  then show ?thesis
    by (cases "rsplit_once (LF # SOURCE_RECORDS_BEGIN @ [LF]) (body @ no_records_note)")
      (auto simp: split_source_records_def)
qed

definition record_key :: "source_record \<Rightarrow> session_id \<times> history_item_id" where
  "record_key r = (source_session_id r, source_item_id r)"

lemma reference_attributed:
  "is_attributed_input (source_data r) \<Longrightarrow> reference_tool_call_payloads env (source_data r) = source_data r"
  by (cases "source_data r") (simp_all add: reference_tool_call_payloads_def)

text \<open>The bookkeeping of \<open>append_record\<close>: keys are distinct and \<open>seen\<close> knows exactly them.\<close>

definition seen_inv :: "source_record list \<times> seen_records \<Rightarrow> bool" where
  "seen_inv st \<longleftrightarrow> (case st of (records, seen) \<Rightarrow>
     distinct (map record_key records) \<and>
     (\<forall>k. (hm_get seen k = None) = (k \<notin> record_key ` set records)))"

lemma append_record_inv:
  assumes "append_record env st r = Ok st'" and "seen_inv st"
  shows "seen_inv st'"
  using assms
  by (auto simp: append_record_def seen_inv_def Let_def record_key_def split: option.splits if_splits)

lemma append_records_inv:
  "append_records env st rs = Ok st' \<Longrightarrow> seen_inv st \<Longrightarrow> seen_inv st'"
  by (induction env st rs rule: append_records.induct) (auto simp: and_then_Ok_iff append_record_inv)

lemma append_distinct:
  assumes "distinct (map record_key (records @ rs))" and "seen_inv (records, seen)"
    and "\<forall>r \<in> set rs. is_attributed_input (source_data r)"
  shows "\<exists>seen'. append_records env (records, seen) rs = Ok (records @ rs, seen')"
  using assms
proof (induction rs arbitrary: records seen)
  case (Cons r rs)
  have same: "r\<lparr>source_data := reference_tool_call_payloads env (source_data r)\<rparr> = r"
    using Cons.prems(3) by (simp add: reference_attributed)
  have "\<forall>k. (hm_get seen k = None) = (k \<notin> record_key ` set records)"
    using Cons.prems(2) unfolding seen_inv_def by blast
  moreover have "record_key r \<notin> record_key ` set records" using Cons.prems(1) by auto
  ultimately have fresh: "hm_get seen (record_key r) = None" by blast
  let ?seen = "hm_insert (record_key r) (length records) seen"
  have step: "append_record env (records, seen) r = Ok (records @ [r], ?seen)"
    using fresh by (simp add: append_record_def same record_key_def)
  have "\<exists>seen'. append_records env (records @ [r], ?seen) rs = Ok ((records @ [r]) @ rs, seen')"
    using Cons.prems append_record_inv [OF step] by (intro Cons.IH) auto
  then show ?case by (simp add: step)
qed simp

section \<open>Properties\<close>

text \<open>
  Projecting a checkpoint's summary for the model is stable: projecting the projection changes
  nothing, whatever the summary (no attachment, a malformed one, conflicting records, only tool
  records, or attributed input to keep), provided the JSON printer writes a card as an object on
  one line that its parser reads back.
\<close>

theorem checkpoint_projection_is_stable:
  assumes "prints_cards env"
  shows "project_checkpoint_summary env (project_checkpoint_summary env s) =
         project_checkpoint_summary env s"
proof (cases "project_checkpoint_summary env s = s")
  case False
  then obtain body prev records seen where
    sp: "split_source_records env s = Some (body, prev)" and
    ap: "append_records env ([], []) (sr_records prev) = Ok (records, seen)"
    by (auto simp: project_checkpoint_summary_def split: option.splits sum.splits)
  define kept where "kept = filter (\<lambda>r. is_attributed_input (source_data r)) records"
  have "seen_inv ([], [])" by (simp add: seen_inv_def)
  from append_records_inv [OF ap this] have d: "distinct (map record_key kept)"
    by (auto simp: seen_inv_def kept_def intro: distinct_map_filter)
  show ?thesis
  proof (cases "kept = []")
    case True
    then have "project_checkpoint_summary env s = body @ no_records_note"
      using sp ap by (simp add: project_checkpoint_summary_def kept_def)
    then show ?thesis by (simp add: project_checkpoint_summary_def split_note)
  next
    case ne: False
    have eq0: "project_checkpoint_summary env s =
        (if sr_version prev = 2 \<and> sr_records prev = kept then s
         else case env_print_card env \<lparr>sr_version = 2, sr_records = kept\<rparr> of
                None \<Rightarrow> s | Some t \<Rightarrow> framed body t)"
      using sp ap ne by (simp add: project_checkpoint_summary_def kept_def Let_def)
    with False obtain cardtext where
      pr: "env_print_card env \<lparr>sr_version = 2, sr_records = kept\<rparr> = Some cardtext"
      by (cases "env_print_card env \<lparr>sr_version = 2, sr_records = kept\<rparr>") (auto split: if_splits)
    have eq: "project_checkpoint_summary env s = framed body cardtext"
      using False eq0 pr by (auto split: if_splits)
    have "\<forall>r \<in> set kept. is_attributed_input (source_data r)" by (simp add: kept_def)
    from append_distinct [OF _ \<open>seen_inv ([], [])\<close> this, of env] d
    obtain seen' where ap': "append_records env ([], []) kept = Ok (kept, seen')"
      unfolding append_Nil by blast
    have "filter (\<lambda>r. is_attributed_input (source_data r)) kept = kept" by (simp add: kept_def)
    then show ?thesis
      unfolding eq using split_framed [OF assms pr] ap' ne
      by (simp add: project_checkpoint_summary_def)
  qed
qed simp

text \<open>A host that knows one legacy card, and how its projection is printed.\<close>

definition demo_user_record :: source_record where
  "demo_user_record = \<lparr>source_session_id = 1, source_item_id = 2, source_data = SUserTurn [SText (lit ''go'')]\<rparr>"

definition demo_output_record :: source_record where
  "demo_output_record =
     \<lparr>source_session_id = 1, source_item_id = 3, source_data = SToolOutput 7 Completed None (lit ''ff'') 4\<rparr>"

definition demo_legacy_card :: source_records where
  "demo_legacy_card = \<lparr>sr_version = 1, sr_records = [demo_user_record, demo_output_record]\<rparr>"

definition demo_card :: source_records where
  "demo_card = \<lparr>sr_version = 2, sr_records = [demo_user_record]\<rparr>"

definition demo_env :: host_env where
  "demo_env =
     \<lparr>env_quote = (\<lambda>s. 34 # s @ [34]), env_parse_json = (\<lambda>_. None), env_print_json = (\<lambda>_. []),
      env_parse_card = (\<lambda>t. if t = lit ''{2}'' then Some demo_card
                            else if t = lit ''{1}'' then Some demo_legacy_card else None),
      env_print_card = (\<lambda>c. if c = demo_card then Some (lit ''{2}'') else None),
      env_record_bytes = (\<lambda>_. None), env_failure_hint = (\<lambda>_. None), env_sha256 = (\<lambda>s. s), env_id_str = show_nat,
      env_payload_json = (\<lambda>_. None), env_digest = (\<lambda>s. s)\<rparr>"

lemma demo_env_prints_cards: "prints_cards demo_env"
proof -
  have "LF \<notin> set (lit ''{2}'')" "lit ''{2}'' \<noteq> []" "hd (lit ''{2}'') = 123" by code_simp+
  then show ?thesis by (simp add: prints_cards_def demo_env_def)
qed

theorem checkpoint_projection_is_stable_witness:
  "prints_cards demo_env \<and>
   project_checkpoint_summary demo_env (framed (lit ''note'') (lit ''{1}'')) =
     framed (lit ''note'') (lit ''{2}'') \<and>
   project_checkpoint_summary demo_env
     (project_checkpoint_summary demo_env (framed (lit ''note'') (lit ''{1}''))) =
     project_checkpoint_summary demo_env (framed (lit ''note'') (lit ''{1}''))"
proof (intro conjI)
  show "project_checkpoint_summary demo_env (framed (lit ''note'') (lit ''{1}'')) =
        framed (lit ''note'') (lit ''{2}'')" by code_simp
  show "project_checkpoint_summary demo_env
     (project_checkpoint_summary demo_env (framed (lit ''note'') (lit ''{1}''))) =
     project_checkpoint_summary demo_env (framed (lit ''note'') (lit ''{1}''))"
    by (rule checkpoint_projection_is_stable [OF demo_env_prints_cards])
qed (rule demo_env_prints_cards)

end
