(* ===== verification/Tool_Projection.thy ===== *)
theory Tool_Projection
  imports Source_Records
begin

text \<open>
  What the model sees of a tool's output, \<open>model_visible_tool_output\<close> and its helpers in
  \<open>src/src/agent/context_manager.rs\<close>. \<open>None\<close> stands for a panic (a slice inside a character)
  or a loop that does not end; the bound and the totality of the projection are proved below.
\<close>

section \<open>Constants\<close>

definition WORKSPACE_WRITE_EFFECT_TEMP_ACCESS_DENIED_NOTE :: ustr where
  "WORKSPACE_WRITE_EFFECT_TEMP_ACCESS_DENIED_NOTE = lit ''Sandbox note: this workspace-write run matched the known protected effect-TEMP access-denied signature. No retry occurred. If this exact command is required and the workspace is trusted, issue a new shell call with sandbox_permissions=require_escalated and concise justification; do not change project files solely to bypass this sandbox restriction.''"

definition MODEL_VISIBLE_NON_SUCCESS_MAX_BYTES :: nat where
  "MODEL_VISIBLE_NON_SUCCESS_MAX_BYTES = 2 * 1024"
definition MODEL_VISIBLE_SANDBOX_AUDIT_MAX_BYTES :: nat where
  "MODEL_VISIBLE_SANDBOX_AUDIT_MAX_BYTES = 512"
definition SHELL_SANDBOX_PLAN_LABEL :: ustr where
  "SHELL_SANDBOX_PLAN_LABEL = lit ''Sandbox plan (host audit): ''"
definition TOOL_EVIDENCE_LABEL :: ustr where
  "TOOL_EVIDENCE_LABEL = [LF, LF] @ lit ''Tool evidence (bounded; canonical result unchanged):'' @ [LF]"
definition TOOL_EVIDENCE_OMISSION_MARKER :: ustr where
  "TOOL_EVIDENCE_OMISSION_MARKER = LF # lit ''[... tool evidence omitted ...]'' @ [LF]"

definition show_int :: "int \<Rightarrow> ustr" where
  "show_int n = (if n < 0 then 45 # show_nat (nat (- n)) else show_nat (nat n))"

definition show_bool :: "bool \<Rightarrow> ustr" where
  "show_bool b = (if b then lit ''true'' else lit ''false'')"

fun tool_lifecycle_status_label :: "tool_lifecycle_status \<Rightarrow> ustr" where
  "tool_lifecycle_status_label Pending = lit ''pending''"
| "tool_lifecycle_status_label Running = lit ''running''"
| "tool_lifecycle_status_label Completed = lit ''completed''"
| "tool_lifecycle_status_label Declined = lit ''declined''"
| "tool_lifecycle_status_label Cancelled = lit ''cancelled''"
| "tool_lifecycle_status_label Failed = lit ''failed''"

definition append_model_visible_lines :: "ustr \<Rightarrow> ustr list \<Rightarrow> ustr" where
  "append_model_visible_lines output_text ls =
     (if ls = [] then output_text
      else output_text @ (if output_text = [] then [] else [LF, LF]) @ join [LF] ls)"

section \<open>The sandbox plan\<close>

text \<open>
  The loop that clips the audit until its quotation fits. A budget of 0 halves to 0: if the empty
  text does not fit there, the loop does not end, which is the value \<open>None\<close>.
\<close>

function quote_audit :: "host_env \<Rightarrow> ustr \<Rightarrow> nat \<Rightarrow> ustr option" where
  "quote_audit env audit audit_budget =
     (case clip_text_with_ellipsis audit audit_budget of
        None \<Rightarrow> None
      | Some clipped_audit \<Rightarrow>
          let quoted = env_quote env clipped_audit in
          if utf8_len quoted \<le> MODEL_VISIBLE_SANDBOX_AUDIT_MAX_BYTES then Some quoted
          else if audit_budget = 0 then None
          else quote_audit env audit (audit_budget div 2))"
  by pat_completeness auto

termination
  by (relation "measure (\<lambda>(env, audit, b). b)") auto

declare quote_audit.simps [simp del]

text \<open>The outer option is the panic or the endless loop, the inner one the function's own.\<close>

definition model_visible_shell_sandbox_plan_line ::
  "host_env \<Rightarrow> ustr \<Rightarrow> json \<Rightarrow> ustr option option" where
  "model_visible_shell_sandbox_plan_line env tool_name tool_metadata =
     (if tool_name \<noteq> lit ''shell'' then Some None
      else case opt_and_then (json_get (lit ''sandbox'') tool_metadata) as_str of
        None \<Rightarrow> Some None
      | Some audit \<Rightarrow>
          if trim audit = [] then Some None
          else do {
            quoted_audit \<leftarrow> quote_audit env audit (MODEL_VISIBLE_SANDBOX_AUDIT_MAX_BYTES - 2);
            let line = SHELL_SANDBOX_PLAN_LABEL @ quoted_audit;
            Some (Some (case opt_and_then (json_get (lit ''effect_started'') tool_metadata) as_bool of
                          None \<Rightarrow> line
                        | Some effect_started \<Rightarrow> line @ lit ''; effect_started: '' @ show_bool effect_started))
          })"

section \<open>Non-success\<close>

definition flag_set :: "string \<Rightarrow> json \<Rightarrow> bool" where
  "flag_set field md = (opt_and_then (json_get (lit field) md) as_bool = Some True)"

definition model_visible_non_success_kind ::
  "ustr \<Rightarrow> tool_lifecycle_status \<Rightarrow> json \<Rightarrow> shell_sandbox_failure_hint option \<Rightarrow> ustr option" where
  "model_visible_non_success_kind tool_name status tool_metadata sandbox_failure_hint =
     (if status = Declined then Some (lit ''permission_declined'')
      else if tool_name = lit ''shell'' \<and>
              sandbox_failure_hint = Some WorkspaceWriteEffectTempAccessDenied
      then Some (lit ''workspace_write_effect_temp_access_denied'')
      else if tool_name = lit ''shell'' \<and> flag_set ''timeout'' tool_metadata
      then Some (lit ''process_timeout'')
      else if tool_name = lit ''shell'' \<and> flag_set ''cancelled'' tool_metadata
      then Some (lit ''process_cancelled'')
      else if tool_name = lit ''shell'' \<and> flag_set ''cleanup_failed'' tool_metadata
      then Some (lit ''process_cleanup_failed'')
      else if tool_name = lit ''shell'' \<and>
              (case opt_and_then (json_get (lit ''exit_code'') tool_metadata) as_i64 of
                 None \<Rightarrow> False | Some exit_code \<Rightarrow> exit_code \<noteq> 0)
      then Some (lit ''process_exit_nonzero'')
      else if flag_set ''no_content_change'' tool_metadata then Some (lit ''no_content_change'')
      else if status = Failed then Some (lit ''tool_execution_failed'')
      else if status = Completed \<and>
              opt_and_then (json_get (lit ''success'') tool_metadata) as_bool = Some False
      then Some (lit ''tool_reported_non_success'')
      else None)"

definition option_list :: "'a option \<Rightarrow> 'a list" where
  "option_list x = (case x of None \<Rightarrow> [] | Some y \<Rightarrow> [y])"

definition bounded_model_visible_non_success_output ::
  "host_env \<Rightarrow> ustr \<Rightarrow> tool_lifecycle_status \<Rightarrow> ustr \<Rightarrow> ustr \<Rightarrow> json \<Rightarrow> ustr option" where
  "bounded_model_visible_non_success_output env tool_name status kind output_text tool_metadata =
     do {
       clipped_name \<leftarrow> clip_text_with_ellipsis (env_quote env tool_name) 256;
       plan \<leftarrow> model_visible_shell_sandbox_plan_line env tool_name tool_metadata;
       let ls =
         [lit ''Tool outcome (host projection): non-success'',
          lit ''tool: '' @ clipped_name,
          lit ''lifecycle_status: '' @ tool_lifecycle_status_label status,
          lit ''kind: '' @ kind,
          lit ''automatic_retry: false''] @
         (case opt_and_then (json_get (lit ''exit_code'') tool_metadata) as_i64 of
            None \<Rightarrow> [] | Some exit_code \<Rightarrow> [lit ''exit_code: '' @ show_int exit_code]) @
         option_list plan @
         (if flag_set ''truncated'' tool_metadata then [lit ''preview_truncated: true''] else []) @
         (if flag_set ''stdout_capture_truncated'' tool_metadata
          then [lit ''stdout_capture_truncated: true''] else []) @
         (if flag_set ''stderr_capture_truncated'' tool_metadata
          then [lit ''stderr_capture_truncated: true''] else []) @
         (if kind = lit ''workspace_write_effect_temp_access_denied''
          then [lit ''guidance: '' @ WORKSPACE_WRITE_EFFECT_TEMP_ACCESS_DENIED_NOTE] else []);
       let header = join [LF] ls;
       let prefix0 = header @ TOOL_EVIDENCE_LABEL;
       if output_text = [] then clip_text_with_ellipsis header MODEL_VISIBLE_NON_SUCCESS_MAX_BYTES
       else if utf8_len prefix0 \<ge> MODEL_VISIBLE_NON_SUCCESS_MAX_BYTES
       then clip_text_with_ellipsis prefix0 MODEL_VISIBLE_NON_SUCCESS_MAX_BYTES
       else do {
         evidence \<leftarrow> clip_text_head_tail_with_marker output_text
                      (MODEL_VISIBLE_NON_SUCCESS_MAX_BYTES - utf8_len prefix0)
                      TOOL_EVIDENCE_OMISSION_MARKER;
         Some (prefix0 @ evidence)
       }
     }"

section \<open>The projection\<close>

definition truncated_warning :: ustr where "truncated_warning = lit ''Warning: truncated output.''"

definition read_output :: "ustr \<Rightarrow> json \<Rightarrow> ustr" where
  "read_output output_text tool_metadata =
     (let num = (\<lambda>field. opt_and_then (json_get (lit field) tool_metadata) as_u64);
          output_truncated = flag_set ''truncated'' tool_metadata;
          is_line_page = (opt_and_then (json_get (lit ''truncation_kind'') tool_metadata) as_str =
                          Some (lit ''line_page''))
      in case (if output_truncated \<and> is_line_page then (num ''total_lines'', num ''next_offset'')
               else (None, None)) of
           (Some total_lines, Some next_offset) \<Rightarrow>
             (case (num ''end_line'', num ''requested_end_line'') of
                (Some end_line, Some requested_end_line) \<Rightarrow>
                  if end_line \<ge> requested_end_line
                  then append_model_visible_lines output_text
                         [lit ''Requested line range fully returned. File total lines: '' @
                          show_nat total_lines @ lit ''; additional lines are outside this request.'']
                  else append_model_visible_lines output_text
                         [truncated_warning,
                          lit ''Requested line range incomplete. File total lines: '' @
                          show_nat total_lines @
                          lit ''. Remaining requested lines can be read using `offset`: '' @
                          show_nat next_offset @ lit '', `limit`: '' @
                          show_nat (requested_end_line - end_line) @ lit ''.'']
              | _ \<Rightarrow> append_model_visible_lines output_text
                       [truncated_warning,
                        lit ''Total output lines: '' @ show_nat total_lines @
                        lit ''. Continue with `read` using `offset`: '' @ show_nat next_offset @ lit ''.''])
         | _ \<Rightarrow> if output_truncated then append_model_visible_lines output_text [truncated_warning]
                else output_text)"

definition is_listing_tool :: "ustr \<Rightarrow> bool" where
  "is_listing_tool tool_name \<longleftrightarrow> tool_name = lit ''list'' \<or> tool_name = lit ''glob'' \<or>
     tool_name = lit ''grep'' \<or> tool_name = lit ''inspect_directory''"

definition tool_metadata_of :: "json \<Rightarrow> json" where
  "tool_metadata_of metadata =
     (case json_get (lit ''tool_metadata'') metadata of
        None \<Rightarrow> metadata | Some v \<Rightarrow> if is_object v then v else metadata)"

definition model_visible_tool_output ::
  "host_env \<Rightarrow> ustr \<Rightarrow> tool_lifecycle_status \<Rightarrow> ustr \<Rightarrow> json \<Rightarrow> ustr option" where
  "model_visible_tool_output env tool_name status output_text metadata =
     (let tool_metadata = tool_metadata_of metadata;
          sandbox_failure_hint =
            opt_and_then (json_get (lit ''sandbox_failure_hint'') tool_metadata) (env_failure_hint env)
      in case model_visible_non_success_kind tool_name status tool_metadata sandbox_failure_hint of
           Some kind \<Rightarrow>
             bounded_model_visible_non_success_output env tool_name status kind output_text tool_metadata
         | None \<Rightarrow>
             if tool_name = lit ''read'' then Some (read_output output_text tool_metadata)
             else if is_listing_tool tool_name \<and> flag_set ''truncated'' tool_metadata
             then Some (append_model_visible_lines output_text
                    (truncated_warning #
                     (case opt_and_then (json_get (lit ''continuation'') tool_metadata) as_str of
                        None \<Rightarrow> []
                      | Some cursor \<Rightarrow>
                          if cursor = [] then []
                          else [lit ''Continue with `'' @ tool_name @ lit ''` using `cursor`: '' @
                                env_quote env cursor @ lit ''.''])))
             else do {
               plan \<leftarrow> model_visible_shell_sandbox_plan_line env tool_name tool_metadata;
               Some (case plan of None \<Rightarrow> output_text
                     | Some line \<Rightarrow> append_model_visible_lines output_text [line])
             })"

section \<open>Totality and the bound\<close>

text \<open>What the code relies on of \<open>serde_json\<close>: the empty string is quoted in two bytes.\<close>

definition quotes_empty :: "host_env \<Rightarrow> bool" where
  "quotes_empty env = (utf8_len (env_quote env []) = 2)"

lemma quote_audit_total:
  assumes "quotes_empty env"
  shows "\<exists>q. quote_audit env audit b = Some q \<and> utf8_len q \<le> MODEL_VISIBLE_SANDBOX_AUDIT_MAX_BYTES"
proof (induction b rule: less_induct)
  case (less b)
  from ellipsis_spec [of audit b] obtain t where
    t: "clip_text_with_ellipsis audit b = Some t" "utf8_len t \<le> b" by blast
  show ?case
  proof (cases "utf8_len (env_quote env t) \<le> MODEL_VISIBLE_SANDBOX_AUDIT_MAX_BYTES")
    case True
    then show ?thesis using t(1) by (subst quote_audit.simps) simp
  next
    case False
    have "t = []" if "b = 0" using t(2) that by simp
    moreover have "t \<noteq> []"
      using False assms by (auto simp: quotes_empty_def MODEL_VISIBLE_SANDBOX_AUDIT_MAX_BYTES_def)
    ultimately have "b \<noteq> 0" by blast
    with less.IH [of "b div 2"] False t(1) show ?thesis by (subst quote_audit.simps) simp
  qed
qed

lemma plan_line_total:
  assumes "quotes_empty env"
  shows "\<exists>p. model_visible_shell_sandbox_plan_line env tool_name md = Some p"
proof -
  have "quote_audit env audit b \<noteq> None" for audit b
    using quote_audit_total [OF assms, of audit b] by auto
  then show ?thesis
    by (auto simp: model_visible_shell_sandbox_plan_line_def bind_eq_Some_conv Let_def split: option.split)
qed

lemma non_success_bounded:
  assumes "quotes_empty env"
  shows "\<exists>t. bounded_model_visible_non_success_output env tool_name status kind out md = Some t \<and>
    utf8_len t \<le> MODEL_VISIBLE_NON_SUCCESS_MAX_BYTES"
proof -
  obtain clipped where c: "clip_text_with_ellipsis (env_quote env tool_name) 256 = Some clipped"
    using ellipsis_spec by blast
  obtain plan where p: "model_visible_shell_sandbox_plan_line env tool_name md = Some plan"
    using plan_line_total [OF assms] by blast
  have "\<exists>t. (if out = [] then clip_text_with_ellipsis h MODEL_VISIBLE_NON_SUCCESS_MAX_BYTES
        else if utf8_len q \<ge> MODEL_VISIBLE_NON_SUCCESS_MAX_BYTES
        then clip_text_with_ellipsis q MODEL_VISIBLE_NON_SUCCESS_MAX_BYTES
        else do { e \<leftarrow> clip_text_head_tail_with_marker out
                    (MODEL_VISIBLE_NON_SUCCESS_MAX_BYTES - utf8_len q) TOOL_EVIDENCE_OMISSION_MARKER;
                  Some (q @ e) }) = Some t \<and> utf8_len t \<le> MODEL_VISIBLE_NON_SUCCESS_MAX_BYTES" for h q
  proof -
    obtain e where "clip_text_head_tail_with_marker out (MODEL_VISIBLE_NON_SUCCESS_MAX_BYTES - utf8_len q)
        TOOL_EVIDENCE_OMISSION_MARKER = Some e"
      "utf8_len e \<le> MODEL_VISIBLE_NON_SUCCESS_MAX_BYTES - utf8_len q"
      using head_tail_spec by blast
    moreover obtain a b where "clip_text_with_ellipsis h MODEL_VISIBLE_NON_SUCCESS_MAX_BYTES = Some a"
      "utf8_len a \<le> MODEL_VISIBLE_NON_SUCCESS_MAX_BYTES"
      "clip_text_with_ellipsis q MODEL_VISIBLE_NON_SUCCESS_MAX_BYTES = Some b"
      "utf8_len b \<le> MODEL_VISIBLE_NON_SUCCESS_MAX_BYTES" using ellipsis_spec by meson
    ultimately show ?thesis by auto
  qed
  then show ?thesis
    unfolding bounded_model_visible_non_success_output_def c p Let_def bind.bind_lunit by blast
qed

lemma tool_projection_cases:
  assumes "quotes_empty env"
  shows "\<exists>t. model_visible_tool_output env tool_name status out md = Some t \<and>
    (case model_visible_non_success_kind tool_name status (tool_metadata_of md)
            (opt_and_then (json_get (lit ''sandbox_failure_hint'') (tool_metadata_of md))
               (env_failure_hint env)) of
       None \<Rightarrow> prefix out t
     | Some kind \<Rightarrow> utf8_len t \<le> MODEL_VISIBLE_NON_SUCCESS_MAX_BYTES)"
proof -
  let ?md = "tool_metadata_of md"
  let ?kind = "model_visible_non_success_kind tool_name status ?md
    (opt_and_then (json_get (lit ''sandbox_failure_hint'') ?md) (env_failure_hint env))"
  have app: "prefix out (append_model_visible_lines out ls)" for ls
    by (simp add: append_model_visible_lines_def)
  have rd: "prefix out (read_output out ?md)"
    by (auto simp: read_output_def Let_def app split: option.split)
  obtain plan where p: "model_visible_shell_sandbox_plan_line env tool_name ?md = Some plan"
    using plan_line_total [OF assms] by blast
  show ?thesis
  proof (cases ?kind)
    case None
    then show ?thesis using rd app p
      by (auto simp: model_visible_tool_output_def Let_def split: option.split)
  next
    case (Some kind)
    then show ?thesis using non_success_bounded [OF assms]
      by (simp add: model_visible_tool_output_def Let_def)
  qed
qed

lemma tool_projection_total:
  "quotes_empty env \<Longrightarrow> model_visible_tool_output env tool_name status out md \<noteq> None"
  using tool_projection_cases by (metis option.distinct(1))

section \<open>Properties\<close>

text \<open>
  What the model sees of a tool's output is always produced (the loop that clips the sandbox
  audit ends, no slice cuts a character), and the projection of an unsuccessful call, its host
  header, sandbox plan, guidance and clipped evidence included, never exceeds
  \<open>MODEL_VISIBLE_NON_SUCCESS_MAX_BYTES\<close>.
\<close>

theorem tool_projection_total_and_bounded:
  assumes "quotes_empty env"
  shows "\<exists>t. model_visible_tool_output env tool_name status out md = Some t \<and>
    (case model_visible_non_success_kind tool_name status (tool_metadata_of md)
            (opt_and_then (json_get (lit ''sandbox_failure_hint'') (tool_metadata_of md))
               (env_failure_hint env)) of
       None \<Rightarrow> prefix out t
     | Some kind \<Rightarrow> utf8_len t \<le> MODEL_VISIBLE_NON_SUCCESS_MAX_BYTES)"
  by (rule tool_projection_cases [OF assms])

definition demo_shell_metadata :: json where
  "demo_shell_metadata = JObj [(lit ''exit_code'', JInt (- 1)), (lit ''sandbox'', JStr (lit ''read-only''))]"

theorem tool_projection_total_and_bounded_witness:
  "quotes_empty demo_env \<and>
   model_visible_non_success_kind (lit ''shell'') Completed (tool_metadata_of demo_shell_metadata) None =
     Some (lit ''process_exit_nonzero'') \<and>
   (\<exists>t. model_visible_tool_output demo_env (lit ''shell'') Completed (lit ''no'') demo_shell_metadata = Some t \<and>
        utf8_len t \<le> MODEL_VISIBLE_NON_SUCCESS_MAX_BYTES)"
proof -
  have q: "quotes_empty demo_env" by code_simp
  have k: "model_visible_non_success_kind (lit ''shell'') Completed (tool_metadata_of demo_shell_metadata) None =
     Some (lit ''process_exit_nonzero'')" by code_simp
  have "opt_and_then (json_get (lit ''sandbox_failure_hint'') (tool_metadata_of demo_shell_metadata))
     (env_failure_hint demo_env) = None" by code_simp
  with q k tool_projection_total_and_bounded [OF q, of "lit ''shell''" Completed "lit ''no''" demo_shell_metadata]
  show ?thesis by simp
qed

end
