(* ===== verification/Compaction_Units.thy ===== *)
theory Compaction_Units
  imports History
begin

text \<open>
  The semantic units of a history that a compaction may replace,
  \<open>semantic_compaction_units_excluding\<close> in \<open>src/src/agent/context_manager.rs\<close>: one unit per
  response of the model with all its tool calls and outputs, one per input, checkpoint or error.
  The hash maps of the code are association lists; the order in which they are iterated is
  irrelevant because the units are sorted by the index of their first item, and the result is
  proved equal to a definition without maps.
\<close>

section \<open>The code\<close>

type_synonym indexed = "nat \<times> history_item"

text \<open>\<open>entry(k).or_default().push(v)\<close>.\<close>

definition hm_push :: "'k \<Rightarrow> 'v \<Rightarrow> ('k, 'v list) hmap \<Rightarrow> ('k, 'v list) hmap" where
  "hm_push k v m = hm_insert k ((case hm_get m k of None \<Rightarrow> [] | Some vs \<Rightarrow> vs) @ [v]) m"

definition active_indexed :: "history_item list \<Rightarrow> history_item_id list \<Rightarrow> indexed list" where
  "active_indexed items excluded =
     (let replaced = compacted_history_item_ids items in
      filter (\<lambda>(_, item). hi_id item \<notin> set replaced \<and> hi_id item \<notin> set excluded)
        (List.enumerate 0 items))"

record unit_scan =
  us_call_response :: "(tool_call_id, response_id) hmap"
  us_response_items :: "(response_id, (nat \<times> history_item_id) list) hmap"
  us_response_calls :: "(response_id, tool_call_id list) hmap"
  us_output_calls :: "tool_call_id list"

definition scan_item :: "unit_scan \<Rightarrow> indexed \<Rightarrow> unit_scan" where
  "scan_item s e =
     (case e of (index, item) \<Rightarrow>
      (case hi_payload item of
         AssistantMessage response_id _ \<Rightarrow>
           s\<lparr>us_response_items := hm_push response_id (index, hi_id item) (us_response_items s)\<rparr>
       | ToolCall call_id response_id _ _ _ \<Rightarrow>
           s\<lparr>us_call_response := hm_insert call_id response_id (us_call_response s),
             us_response_calls := hm_push response_id call_id (us_response_calls s),
             us_response_items := hm_push response_id (index, hi_id item) (us_response_items s)\<rparr>
       | ToolOutput call_id _ _ _ _ _ \<Rightarrow> s\<lparr>us_output_calls := call_id # us_output_calls s\<rparr>
       | _ \<Rightarrow> s))"

definition scan_output ::
  "(tool_call_id, response_id) hmap \<Rightarrow> (response_id, (nat \<times> history_item_id) list) hmap \<Rightarrow>
   indexed \<Rightarrow> (response_id, (nat \<times> history_item_id) list) hmap" where
  "scan_output call_response m e =
     (case e of (index, item) \<Rightarrow>
      (case hi_payload item of
         ToolOutput call_id _ _ _ _ _ \<Rightarrow>
           (case hm_get call_response call_id of
              None \<Rightarrow> m | Some response_id \<Rightarrow> hm_push response_id (index, hi_id item) m)
       | _ \<Rightarrow> m))"

definition has_unsettled_call :: "unit_scan \<Rightarrow> response_id \<Rightarrow> bool" where
  "has_unsettled_call s r =
     (case hm_get (us_response_calls s) r of
        None \<Rightarrow> False | Some calls \<Rightarrow> list_ex (\<lambda>c. c \<notin> set (us_output_calls s)) calls)"

definition min_opt :: "nat list \<Rightarrow> nat option" where
  "min_opt xs = (if xs = [] then None else Some (Min (set xs)))"

text \<open>\<open>items.sort_by_key\<close> and the unit of one response.\<close>

definition response_unit :: "(nat \<times> history_item_id) list \<Rightarrow> (nat \<times> history_item_id list) list" where
  "response_unit items =
     (case sort_key fst items of [] \<Rightarrow> [] | e # es \<Rightarrow> [(fst e, map snd (e # es))])"

fun is_single_unit :: "history_item_payload \<Rightarrow> bool" where
  "is_single_unit (UserTurn _ _ _) = True"
| "is_single_unit (SteerTurn _ _ _ _) = True"
| "is_single_unit (InterAgentCommunication _) = True"
| "is_single_unit (Compaction _ _ _ _ _ _) = True"
| "is_single_unit (ErrorItem _) = True"
| "is_single_unit _ = False"

definition semantic_compaction_units_excluding ::
  "history_item list \<Rightarrow> history_item_id list \<Rightarrow> history_item_id list list" where
  "semantic_compaction_units_excluding items excluded =
     (let active = active_indexed items excluded;
          s = foldl scan_item \<lparr>us_call_response = [], us_response_items = [], us_response_calls = [],
                                us_output_calls = []\<rparr> active;
          response_items = foldl (scan_output (us_call_response s)) (us_response_items s) active;
          first_unsettled_response_index =
            min_opt (List.map_filter (\<lambda>(r, its). if has_unsettled_call s r then min_opt (map fst its) else None)
                       response_items)
      in if first_unsettled_response_index \<noteq> None then []
         else let units =
                concat (map (\<lambda>(r, its). if has_unsettled_call s r then [] else response_unit its)
                          response_items) @
                map (\<lambda>(index, item). (index, [hi_id item]))
                  (filter (\<lambda>(_, item). is_single_unit (hi_payload item)) active)
              in map snd (sort_key fst units))"

definition semantic_compaction_units :: "history_item list \<Rightarrow> history_item_id list list" where
  "semantic_compaction_units items = semantic_compaction_units_excluding items []"

section \<open>The reference definition\<close>

datatype unit_key = ResponseUnit response_id | SingleUnit nat

fun call_entry :: "indexed \<Rightarrow> (tool_call_id \<times> response_id) option" where
  "call_entry (_, item) =
     (case hi_payload item of ToolCall c r _ _ _ \<Rightarrow> Some (c, r) | _ \<Rightarrow> None)"

fun output_call :: "indexed \<Rightarrow> tool_call_id option" where
  "output_call (_, item) = (case hi_payload item of ToolOutput c _ _ _ _ _ \<Rightarrow> Some c | _ \<Rightarrow> None)"

text \<open>The response a call belongs to: that of the last call item with its identity.\<close>

definition call_owner :: "indexed list \<Rightarrow> tool_call_id \<Rightarrow> response_id option" where
  "call_owner act = map_of (rev (List.map_filter call_entry act))"

definition unit_key_of :: "indexed list \<Rightarrow> indexed \<Rightarrow> unit_key option" where
  "unit_key_of act e =
     (case e of (index, item) \<Rightarrow>
      (case hi_payload item of
         AssistantMessage r _ \<Rightarrow> Some (ResponseUnit r)
       | ToolCall _ r _ _ _ \<Rightarrow> Some (ResponseUnit r)
       | ToolOutput c _ _ _ _ _ \<Rightarrow> map_option ResponseUnit (call_owner act c)
       | p \<Rightarrow> if is_single_unit p then Some (SingleUnit index) else None))"

text \<open>A call whose output is missing.\<close>

definition unsettled :: "indexed list \<Rightarrow> bool" where
  "unsettled act = list_ex (\<lambda>(c, _). c \<notin> set (List.map_filter output_call act))
     (List.map_filter call_entry act)"

text \<open>The elements with a key, grouped by key in the order of their first elements.\<close>

function groups :: "('a \<Rightarrow> 'k option) \<Rightarrow> 'a list \<Rightarrow> 'a list list" where
  "groups key [] = []"
| "groups key (x # xs) =
     (case key x of
        None \<Rightarrow> groups key xs
      | Some k \<Rightarrow> (x # filter (\<lambda>y. key y = Some k) xs) # groups key (filter (\<lambda>y. key y \<noteq> Some k) xs))"
  by pat_completeness auto

termination
  by (relation "measure (\<lambda>(key, xs). length xs)") (auto simp: le_imp_less_Suc)

definition unit_ids :: "indexed list \<Rightarrow> history_item_id list" where
  "unit_ids g = map (hi_id \<circ> snd) g"

definition unit_groups :: "history_item list \<Rightarrow> history_item_id list \<Rightarrow> indexed list list" where
  "unit_groups items excluded =
     (let act = active_indexed items excluded in
      if unsettled act then [] else groups (unit_key_of act) act)"

section \<open>Groups\<close>

lemma set_groups:
  "set (groups key xs) = (\<lambda>k. filter (\<lambda>y. key y = Some k) xs) ` {k. \<exists>x \<in> set xs. key x = Some k}"
proof (induction key xs rule: groups.induct)
  case (2 key x xs)
  show ?case
  proof (cases "key x")
    case None
    then show ?thesis using "2.IH"(1) by simp
  next
    case (Some k)
    let ?ys = "filter (\<lambda>y. key y \<noteq> Some k) xs" and ?at = "\<lambda>xs l. filter (\<lambda>y. key y = Some l) xs"
    let ?K = "\<lambda>xs. {l. \<exists>z \<in> set xs. key z = Some l}"
    have K: "?K ?ys = ?K (x # xs) - {k}" "k \<in> ?K (x # xs)" using Some by auto
    have eq: "?at ?ys l = ?at (x # xs) l" if "l \<noteq> k" for l
      using that Some by (auto intro: filter_cong)
    have "set (groups key (x # xs)) = insert (?at (x # xs) k) (set (groups key ?ys))"
      using Some by simp
    also have "set (groups key ?ys) = ?at ?ys ` ?K ?ys" by (rule "2.IH"(2) [OF Some])
    also have "\<dots> = ?at (x # xs) ` (?K (x # xs) - {k})"
      unfolding K by (rule image_cong [OF refl]) (rule eq, blast)
    also have "insert (?at (x # xs) k) \<dots> = ?at (x # xs) ` ?K (x # xs)"
      using K(2) by (metis (no_types, lifting) image_insert insert_Diff)
    finally show ?thesis .
  qed
qed simp

lemma group_member: "g \<in> set (groups key xs) \<Longrightarrow> g \<noteq> [] \<and> set g \<subseteq> set xs"
  by (auto simp: set_groups filter_empty_conv)

lemma groups_sorted:
  "sorted_wrt (\<lambda>a b. f a < f b) xs \<Longrightarrow>
     sorted_wrt (\<lambda>a b. (f a :: nat) < f b) (map hd (groups key xs))"
proof (induction key xs rule: groups.induct)
  case (2 key x xs)
  show ?case
  proof (cases "key x")
    case None
    then show ?thesis using "2.IH"(1) "2.prems" by simp
  next
    case (Some k)
    let ?ys = "filter (\<lambda>y. key y \<noteq> Some k) xs"
    have "sorted_wrt (\<lambda>a b. f a < f b) (map hd (groups key ?ys))"
      using "2.IH"(2) [OF Some] "2.prems" by (simp add: sorted_wrt_filter)
    moreover have "f x < f (hd g)" if "g \<in> set (groups key ?ys)" for g
      using group_member [OF that] "2.prems" by (cases g) auto
    ultimately show ?thesis using Some by simp
  qed
qed simp

section \<open>The maps of the scan\<close>

lemma hm_get_push:
  "hm_get (hm_push k v m) k' =
     (if k' = k then Some ((case hm_get m k of None \<Rightarrow> [] | Some vs \<Rightarrow> vs) @ [v]) else hm_get m k')"
  by (simp add: hm_push_def)

definition push_all :: "('a \<Rightarrow> ('k \<times> 'v) option) \<Rightarrow> 'a list \<Rightarrow> ('k, 'v list) hmap \<Rightarrow> ('k, 'v list) hmap" where
  "push_all f xs m = foldl (\<lambda>m x. case f x of None \<Rightarrow> m | Some (k, v) \<Rightarrow> hm_push k v m) m xs"

definition values_at :: "('a \<Rightarrow> ('k \<times> 'v) option) \<Rightarrow> 'k \<Rightarrow> 'a list \<Rightarrow> 'v list" where
  "values_at f k xs = List.map_filter (\<lambda>x. case f x of None \<Rightarrow> None | Some (k', v) \<Rightarrow> if k' = k then Some v else None) xs"

lemma values_at_simps [simp]:
  "values_at f k [] = []"
  "values_at f k (x # xs) =
     (case f x of None \<Rightarrow> values_at f k xs | Some (k', v) \<Rightarrow> if k' = k then v # values_at f k xs else values_at f k xs)"
  by (auto simp: values_at_def map_filter_simps split: option.split)

lemma set_values_at: "set (values_at f k xs) = {v. \<exists>x \<in> set xs. f x = Some (k, v)}"
  by (induction xs) (auto split: option.split)

lemma hm_get_push_all:
  "hm_get (push_all f xs m) k =
     (case hm_get m k of
        None \<Rightarrow> if values_at f k xs = [] then None else Some (values_at f k xs)
      | Some old \<Rightarrow> Some (old @ values_at f k xs))"
proof (induction xs arbitrary: m)
  case (Cons x xs)
  have "push_all f (x # xs) m = push_all f xs (case f x of None \<Rightarrow> m | Some (k, v) \<Rightarrow> hm_push k v m)"
    by (simp add: push_all_def)
  then show ?case by (simp add: Cons hm_get_push split: option.split)
qed (simp add: push_all_def split: option.split)

lemma distinct_push_all: "distinct (hm_keys m) \<Longrightarrow> distinct (hm_keys (push_all f xs m))"
proof (induction xs arbitrary: m)
  case (Cons x xs)
  then show ?case
    by (auto simp: push_all_def hm_push_def distinct_hm_insert split: option.split)
qed (simp add: push_all_def)

fun direct_entry :: "indexed \<Rightarrow> (response_id \<times> nat \<times> history_item_id) option" where
  "direct_entry (index, item) =
     (case hi_payload item of
        AssistantMessage r _ \<Rightarrow> Some (r, index, hi_id item)
      | ToolCall _ r _ _ _ \<Rightarrow> Some (r, index, hi_id item)
      | _ \<Rightarrow> None)"

fun output_entry :: "(tool_call_id \<rightharpoonup> response_id) \<Rightarrow> indexed \<Rightarrow> (response_id \<times> nat \<times> history_item_id) option" where
  "output_entry own (index, item) =
     (case hi_payload item of
        ToolOutput c _ _ _ _ _ \<Rightarrow> map_option (\<lambda>r. (r, index, hi_id item)) (own c)
      | _ \<Rightarrow> None)"

fun flipped_call_entry :: "indexed \<Rightarrow> (response_id \<times> tool_call_id) option" where
  "flipped_call_entry (_, item) =
     (case hi_payload item of ToolCall c r _ _ _ \<Rightarrow> Some (r, c) | _ \<Rightarrow> None)"

lemma scan_fields:
  "us_response_items (foldl scan_item s act) = push_all direct_entry act (us_response_items s)"
  "us_response_calls (foldl scan_item s act) = push_all flipped_call_entry act (us_response_calls s)"
  "set (us_output_calls (foldl scan_item s act)) =
     set (us_output_calls s) \<union> set (List.map_filter output_call act)"
  "hm_get (us_call_response (foldl scan_item s act)) c =
     (case call_owner act c of None \<Rightarrow> hm_get (us_call_response s) c | Some r \<Rightarrow> Some r)"
proof (induction act arbitrary: s)
  case (Cons e act)
  obtain i it where e: "e = (i, it)" by (cases e)
  { case 1
    show ?case using Cons(1) [of "scan_item s e"]
      by (cases "hi_payload it") (simp_all add: e scan_item_def push_all_def)
  next
    case 2
    show ?case using Cons(2) [of "scan_item s e"]
      by (cases "hi_payload it") (simp_all add: e scan_item_def push_all_def)
  next
    case 3
    show ?case using Cons(3) [of "scan_item s e"]
      by (cases "hi_payload it") (simp_all add: e scan_item_def map_filter_simps)
  next
    case 4
    show ?case using Cons(4) [of "scan_item s e"]
      by (cases "hi_payload it")
        (auto simp: e scan_item_def call_owner_def map_filter_simps map_add_def split: option.split) }
qed (simp_all add: push_all_def map_filter_simps call_owner_def)

lemma scan_outputs:
  "foldl (scan_output cr) m act = push_all (output_entry (hm_get cr)) act m"
proof (induction act arbitrary: m)
  case (Cons e act)
  obtain i it where e: "e = (i, it)" by (cases e)
  show ?case using Cons [of "scan_output cr m e"]
    by (cases "hi_payload it") (auto simp: e scan_output_def push_all_def split: option.split)
qed (simp add: push_all_def)

section \<open>One response\<close>

definition ent :: "indexed \<Rightarrow> nat \<times> history_item_id" where
  "ent e = (fst e, hi_id (snd e))"

abbreviation increasing :: "indexed list \<Rightarrow> bool" where
  "increasing \<equiv> sorted_wrt (\<lambda>a b. fst a < fst b)"

lemma increasing_active: "increasing (active_indexed items excluded)"
proof -
  have "sorted_wrt (\<lambda>a b. fst a < fst b) (List.enumerate n xs)" for n and xs :: "history_item list"
    by (induction xs arbitrary: n) (auto simp: in_set_enumerate_eq)
  then show ?thesis by (simp add: active_indexed_def Let_def sorted_wrt_filter)
qed

lemma increasing_keys: "increasing act \<Longrightarrow> sorted (map fst act) \<and> distinct (map fst act)"
  using strict_sorted_iff [of "map fst act"] unfolding sorted_wrt_map by blast

lemma same_index: "increasing act \<Longrightarrow> a \<in> set act \<Longrightarrow> b \<in> set act \<Longrightarrow> fst a = fst b \<Longrightarrow> a = b"
  using increasing_keys [of act] by (metis distinct_map inj_onD)

lemma values_at_filter:
  assumes "\<And>e k v. f e = Some (k, v) \<Longrightarrow> v = ent e"
  shows "values_at f r act = map ent (filter (\<lambda>e. \<exists>v. f e = Some (r, v)) act)"
  by (induction act) (auto dest: assms split: option.split)

lemma key_sorted_unique:
  assumes "sorted (map fst xs)" "distinct (map fst xs)" "sorted (map fst ys)" "distinct (map fst ys)"
    and "set xs = set ys"
  shows "(xs :: (nat \<times> 'a) list) = ys"
proof (rule map_sorted_distinct_set_unique [OF _ assms(1-4)])
  show "inj_on fst (set xs \<union> set ys)" using assms(2,5) by (simp add: distinct_map)
qed (rule assms(5))

lemma distinct_sort_key: "distinct (map f xs) \<Longrightarrow> distinct (map f (sort_key g xs))"
  by (metis mset_eq_imp_distinct_iff mset_map mset_sort)

lemma fst_ent: "map fst (map ent xs) = map fst xs"
  by (simp add: ent_def)

lemma sort_partition:
  assumes "increasing act" and "\<And>e. \<not> (P e \<and> Q e)"
  shows "sort_key fst (map ent (filter P act) @ map ent (filter Q act)) =
         map ent (filter (\<lambda>e. P e \<or> Q e) act)"
proof (rule key_sorted_unique)
  let ?xs = "map ent (filter P act) @ map ent (filter Q act)"
  have keys: "sorted (map fst (filter R act))" "distinct (map fst (filter R act))" for R
    using increasing_keys [of "filter R act"] assms(1) by (simp_all add: sorted_wrt_filter)
  show "sorted (map fst (map ent (filter (\<lambda>e. P e \<or> Q e) act)))"
    "distinct (map fst (map ent (filter (\<lambda>e. P e \<or> Q e) act)))"
    unfolding fst_ent by (rule keys)+
  show "sorted (map fst (sort_key fst ?xs))" by simp
  have "a = b" if "a \<in> set act" "b \<in> set act" "fst a = fst b" for a b
    using same_index [OF assms(1)] that by blast
  then have "distinct (map fst ?xs)"
    unfolding map_append fst_ent using keys assms(2) by fastforce
  then show "distinct (map fst (sort_key fst ?xs))" by (rule distinct_sort_key)
qed auto

definition response_group :: "indexed list \<Rightarrow> response_id \<Rightarrow> indexed list" where
  "response_group act r = filter (\<lambda>e. unit_key_of act e = Some (ResponseUnit r)) act"

definition unit_of :: "indexed list \<Rightarrow> nat \<times> history_item_id list" where
  "unit_of g = (fst (hd g), unit_ids g)"

lemma entry_is_ent:
  "direct_entry e = Some (k, v) \<Longrightarrow> v = ent e" "output_entry own e = Some (k, v) \<Longrightarrow> v = ent e"
  by (cases e; auto simp: ent_def split: history_item_payload.splits)+

lemma direct_values:
    "values_at direct_entry r act = map ent (filter (\<lambda>e. \<exists>v. direct_entry e = Some (r, v)) act)"
  and output_values:
    "values_at (output_entry own) r act = map ent (filter (\<lambda>e. \<exists>v. output_entry own e = Some (r, v)) act)"
  by (rule values_at_filter, erule entry_is_ent)+

lemma response_key_iff:
  "unit_key_of act e = Some (ResponseUnit r) \<longleftrightarrow>
     (\<exists>v. direct_entry e = Some (r, v)) \<or> (\<exists>v. output_entry (call_owner act) e = Some (r, v))"
  "\<not> ((\<exists>v. direct_entry e = Some (r, v)) \<and> (\<exists>v. output_entry own e = Some (r, v)))"
  by (cases e; auto simp: unit_key_of_def split: history_item_payload.splits)+

lemma sorted_response:
  assumes "increasing act"
  shows "sort_key fst (values_at direct_entry r act @ values_at (output_entry (call_owner act)) r act) =
         map ent (response_group act r)"
  unfolding direct_values output_values response_group_def response_key_iff(1)
  by (rule sort_partition [OF assms response_key_iff(2)])

lemma call_owner_direct:
  assumes "call_owner act c = Some r"
  shows "values_at direct_entry r act \<noteq> []"
proof -
  from map_of_SomeD [OF assms [unfolded call_owner_def]]
  obtain i it where "(i, it) \<in> set act" "call_entry (i, it) = Some (c, r)"
    by (auto simp: map_filter_def)
  then have "(i, hi_id it) \<in> set (values_at direct_entry r act)"
    unfolding set_values_at by (force split: history_item_payload.splits)
  then show ?thesis by (metis empty_iff empty_set)
qed

text \<open>The map of the responses after both loops.\<close>

definition response_map :: "indexed list \<Rightarrow> (response_id, (nat \<times> history_item_id) list) hmap" where
  "response_map act = push_all (output_entry (call_owner act)) act (push_all direct_entry act [])"

lemma get_response_map:
  "hm_get (response_map act) r =
     (if values_at direct_entry r act = [] then None
      else Some (values_at direct_entry r act @ values_at (output_entry (call_owner act)) r act))"
proof -
  have "values_at (output_entry (call_owner act)) r act = []" if "values_at direct_entry r act = []"
  proof (rule ccontr)
    assume "values_at (output_entry (call_owner act)) r act \<noteq> []"
    then obtain v where "v \<in> set (values_at (output_entry (call_owner act)) r act)"
      by (metis last_in_set)
    then obtain c where "call_owner act c = Some r"
      by (fastforce simp: set_values_at split: history_item_payload.splits)
    then show False using call_owner_direct that by blast
  qed
  then show ?thesis by (simp add: response_map_def hm_get_push_all)
qed

lemma response_map_entry:
  assumes "increasing act" and "(r, its) \<in> set (response_map act)"
  shows "its \<noteq> [] \<and> response_group act r \<noteq> [] \<and> response_unit its = [unit_of (response_group act r)]"
proof -
  have "distinct (hm_keys (response_map act))"
    unfolding response_map_def by (intro distinct_push_all) simp
  then have "hm_get (response_map act) r = Some its" using assms(2) by (rule map_of_is_SomeI)
  then have its: "its = values_at direct_entry r act @ values_at (output_entry (call_owner act)) r act"
    "its \<noteq> []" by (auto simp: get_response_map split: if_splits)
  have sorted: "sort_key fst its = map ent (response_group act r)"
    unfolding its(1) by (rule sorted_response [OF assms(1)])
  have "response_group act r \<noteq> []"
    using its(2) sorted by (metis length_0_conv length_map length_sort)
  then show ?thesis using its(2) sorted
    by (cases "response_group act r") (simp_all add: response_unit_def unit_of_def unit_ids_def ent_def)
qed

lemma response_map_keys:
  "fst ` set (response_map act) = {r. \<exists>e \<in> set act. unit_key_of act e = Some (ResponseUnit r)}"
proof (intro set_eqI)
  fix r
  have "r \<in> fst ` set (response_map act) \<longleftrightarrow> values_at direct_entry r act \<noteq> []"
    using get_response_map [of act r] map_of_eq_None_iff [of "response_map act" r]
    by (simp split: if_splits)
  also have "\<dots> \<longleftrightarrow> (\<exists>e \<in> set act. unit_key_of act e = Some (ResponseUnit r))"
  proof
    assume "values_at direct_entry r act \<noteq> []"
    then show "\<exists>e \<in> set act. unit_key_of act e = Some (ResponseUnit r)"
      unfolding direct_values response_key_iff by (auto simp: filter_empty_conv)
  next
    assume "\<exists>e \<in> set act. unit_key_of act e = Some (ResponseUnit r)"
    then obtain e where e: "e \<in> set act" "unit_key_of act e = Some (ResponseUnit r)" by blast
    show "values_at direct_entry r act \<noteq> []"
    proof (cases "\<exists>v. direct_entry e = Some (r, v)")
      case True
      then show ?thesis unfolding direct_values using e(1)
        by (auto simp: filter_empty_conv)
    next
      case False
      then obtain v where "output_entry (call_owner act) e = Some (r, v)" using e(2) response_key_iff by blast
      then obtain c where "call_owner act c = Some r"
        by (cases e) (auto split: history_item_payload.splits)
      then show ?thesis by (rule call_owner_direct)
    qed
  qed
  finally show "r \<in> fst ` set (response_map act) \<longleftrightarrow>
    r \<in> {r. \<exists>e \<in> set act. unit_key_of act e = Some (ResponseUnit r)}" by simp
qed

section \<open>Equivalence\<close>

lemma single_key_iff:
  "unit_key_of act (i, it) = Some (SingleUnit j) \<longleftrightarrow> i = j \<and> is_single_unit (hi_payload it)"
  by (auto simp: unit_key_of_def split: history_item_payload.splits)

lemma single_group:
  assumes "increasing act" and "(i, it) \<in> set act" and "is_single_unit (hi_payload it)"
  shows "filter (\<lambda>e. unit_key_of act e = Some (SingleUnit i)) act = [(i, it)]"
proof (rule key_sorted_unique)
  let ?g = "filter (\<lambda>e. unit_key_of act e = Some (SingleUnit i)) act"
  show "sorted (map fst ?g)" "distinct (map fst ?g)"
    using increasing_keys [of ?g] assms(1) by (simp_all add: sorted_wrt_filter)
  have "e = (i, it)" if "e \<in> set act" "unit_key_of act e = Some (SingleUnit i)" for e
    using same_index [OF assms(1) that(1) assms(2)] that(2) by (cases e) (simp add: single_key_iff)
  then have "set ?g \<subseteq> {(i, it)}" by auto
  moreover have "(i, it) \<in> set ?g" using assms(2,3) by (simp add: single_key_iff)
  ultimately show "set ?g = set [(i, it)]" by (simp only: list.set) blast
qed simp_all

text \<open>All units of the code, before they are sorted.\<close>

definition all_units :: "indexed list \<Rightarrow> (nat \<times> history_item_id list) list" where
  "all_units act =
     map (\<lambda>(r, _). unit_of (response_group act r)) (response_map act) @
     map (\<lambda>(i, it). (i, [hi_id it])) (filter (\<lambda>(_, it). is_single_unit (hi_payload it)) act)"

lemma set_all_units:
  assumes "increasing act"
  shows "set (all_units act) = unit_of ` set (groups (unit_key_of act) act)"
proof -
  let ?at = "\<lambda>k. filter (\<lambda>e. unit_key_of act e = Some k) act"
  let ?K = "{k. \<exists>e \<in> set act. unit_key_of act e = Some k}"
  have "?K = ResponseUnit ` {r. ResponseUnit r \<in> ?K} \<union> SingleUnit ` {i. SingleUnit i \<in> ?K}"
    (is "?K = ?R \<union> ?S")
  proof (intro set_eqI)
    show "k \<in> ?K \<longleftrightarrow> k \<in> ?R \<union> ?S" for k by (cases k) auto
  qed
  then have "unit_of ` set (groups (unit_key_of act) act) =
        (unit_of \<circ> ?at \<circ> ResponseUnit) ` {r. ResponseUnit r \<in> ?K} \<union>
        (unit_of \<circ> ?at \<circ> SingleUnit) ` {i. SingleUnit i \<in> ?K}"
    unfolding set_groups by (metis (no_types, lifting) image_Un image_comp)
  also have "(unit_of \<circ> ?at \<circ> ResponseUnit) ` {r. ResponseUnit r \<in> ?K} =
        set (map (\<lambda>(r, _). unit_of (response_group act r)) (response_map act))"
  proof -
    have "(unit_of \<circ> ?at \<circ> ResponseUnit) ` {r. ResponseUnit r \<in> ?K} =
          (\<lambda>r. unit_of (response_group act r)) ` (fst ` set (response_map act))"
      unfolding response_map_keys by (simp add: response_group_def)
    also have "\<dots> = set (map (\<lambda>(r, _). unit_of (response_group act r)) (response_map act))"
      unfolding image_image by (simp add: case_prod_beta)
    finally show ?thesis .
  qed
  also have "(unit_of \<circ> ?at \<circ> SingleUnit) ` {i. SingleUnit i \<in> ?K} =
        set (map (\<lambda>(i, it). (i, [hi_id it])) (filter (\<lambda>(_, it). is_single_unit (hi_payload it)) act))"
  proof -
    have unit: "(unit_of \<circ> ?at \<circ> SingleUnit) i = (i, [hi_id it])"
      if "(i, it) \<in> set act" "is_single_unit (hi_payload it)" for i it
      using single_group [OF assms that] by (simp add: unit_of_def unit_ids_def)
    have mem: "SingleUnit i \<in> ?K \<longleftrightarrow> (\<exists>it. (i, it) \<in> set act \<and> is_single_unit (hi_payload it))" for i
      unfolding mem_Collect_eq by (metis single_key_iff surj_pair)
    show ?thesis using unit unfolding mem by (force simp: image_iff)
  qed
  finally show ?thesis by (simp add: all_units_def)
qed

lemma distinct_all_units:
  assumes "increasing act"
  shows "distinct (map fst (all_units act))"
proof -
  let ?rs = "map (\<lambda>(r, _). unit_of (response_group act r)) (response_map act)"
  let ?ss = "filter (\<lambda>(_, it). is_single_unit (hi_payload it)) act"
  have first: "hd (response_group act r) \<in> set act \<and>
      unit_key_of act (hd (response_group act r)) = Some (ResponseUnit r)"
    if "r \<in> fst ` set (response_map act)" for r
  proof -
    have "response_group act r \<noteq> []" using that response_map_entry [OF assms] by force
    then have "hd (response_group act r) \<in> set (response_group act r)" by simp
    then show ?thesis by (simp add: response_group_def)
  qed
  have inj: "r = r'" if "r \<in> fst ` set (response_map act)" "r' \<in> fst ` set (response_map act)"
    "fst (hd (response_group act r)) = fst (hd (response_group act r'))" for r r'
  proof -
    have "hd (response_group act r) = hd (response_group act r')"
      using same_index [OF assms _ _ that(3)] first [OF that(1)] first [OF that(2)] by blast
    then show ?thesis using first [OF that(1)] first [OF that(2)] by (metis option.inject unit_key.inject(1))
  qed
  have keys: "distinct (hm_keys (response_map act))"
    unfolding response_map_def by (intro distinct_push_all) simp
  have eq: "map fst ?rs = map (\<lambda>r. fst (hd (response_group act r))) (hm_keys (response_map act))"
    by (simp add: unit_of_def case_prod_beta)
  have "inj_on (\<lambda>r. fst (hd (response_group act r))) (set (hm_keys (response_map act)))"
    by (rule inj_onI, rule inj) simp_all
  with keys have "distinct (map fst ?rs)" unfolding eq by (subst distinct_map) (rule conjI)
  moreover have "distinct (map fst (map (\<lambda>(i, it). (i, [hi_id it])) ?ss))"
  proof -
    have "map fst (map (\<lambda>(i, it). (i, [hi_id it])) xs) = map fst xs" for xs :: "indexed list"
      by (induction xs) auto
    then show ?thesis using increasing_keys [OF sorted_wrt_filter [OF assms]] by metis
  qed
  moreover have "fst ` set ?rs \<inter> fst ` set (map (\<lambda>(i, it). (i, [hi_id it])) ?ss) = {}"
  proof (rule ccontr)
    assume "\<not> ?thesis"
    then obtain u v where uv: "u \<in> set ?rs" "v \<in> set (map (\<lambda>(i, it). (i, [hi_id it])) ?ss)" "fst u = fst v"
      by blast
    from uv(1) obtain r where r: "r \<in> fst ` set (response_map act)" "fst u = fst (hd (response_group act r))"
      by (force simp: unit_of_def)
    from uv(2) obtain i it where it: "(i, it) \<in> set act" "is_single_unit (hi_payload it)" "fst v = i"
      by auto
    have "hd (response_group act r) = (i, it)"
      using same_index [OF assms, of "hd (response_group act r)" "(i, it)"] first [OF r(1)] it(1,3) uv(3) r(2)
      by simp
    then have "unit_key_of act (i, it) = Some (ResponseUnit r)" using first [OF r(1)] by metis
    moreover have "unit_key_of act (i, it) = Some (SingleUnit i)" using it(2) single_key_iff by blast
    ultimately show False by simp
  qed
  ultimately show ?thesis unfolding all_units_def map_append distinct_append set_map by blast
qed

lemma sorted_units:
  assumes "increasing act"
  shows "sort_key fst (all_units act) = map unit_of (groups (unit_key_of act) act)"
proof (rule key_sorted_unique)
  have "sorted_wrt (\<lambda>a b. fst a < fst b) (map hd (groups (unit_key_of act) act))"
    by (rule groups_sorted [OF assms])
  then have "sorted_wrt (<) (map fst (map unit_of (groups (unit_key_of act) act)))"
    by (simp add: unit_of_def sorted_wrt_map comp_def)
  then show "sorted (map fst (map unit_of (groups (unit_key_of act) act)))"
    "distinct (map fst (map unit_of (groups (unit_key_of act) act)))"
    unfolding strict_sorted_iff by blast+
qed (simp_all add: set_all_units [OF assms] distinct_sort_key distinct_all_units [OF assms] del: map_map)

lemma set_map_filter_iff: "set (List.map_filter f xs) = {y. \<exists>x \<in> set xs. f x = Some y}"
  by (induction xs) (auto simp: map_filter_simps split: option.split)

lemma call_entry_key: "call_entry e = Some (c, r) \<Longrightarrow> unit_key_of act e = Some (ResponseUnit r)"
  by (cases e) (auto simp: unit_key_of_def split: history_item_payload.splits)

lemma unsettled_scan:
  fixes act :: "indexed list"
  defines "s \<equiv> foldl scan_item \<lparr>us_call_response = [], us_response_items = [], us_response_calls = [],
                                us_output_calls = []\<rparr> act"
  shows "has_unsettled_call s r \<longleftrightarrow>
    (\<exists>c. (c, r) \<in> set (List.map_filter call_entry act) \<and> c \<notin> set (List.map_filter output_call act))"
proof -
  have out: "set (us_output_calls s) = set (List.map_filter output_call act)"
    by (simp add: s_def scan_fields)
  have calls: "hm_get (us_response_calls s) r =
    (if values_at flipped_call_entry r act = [] then None else Some (values_at flipped_call_entry r act))"
    by (simp add: s_def scan_fields hm_get_push_all)
  have "flipped_call_entry e = Some (r, c) \<longleftrightarrow> call_entry e = Some (c, r)" for e c
    by (cases e) (auto split: history_item_payload.splits)
  then have "set (values_at flipped_call_entry r act) = {c. (c, r) \<in> set (List.map_filter call_entry act)}"
    unfolding set_values_at set_map_filter_iff by blast
  then show ?thesis
    unfolding has_unsettled_call_def calls out by (auto simp: list_ex_iff split: if_splits)
qed

lemma units_eq:
  "semantic_compaction_units_excluding items excluded = map unit_ids (unit_groups items excluded)"
proof -
  let ?act = "active_indexed items excluded"
  define s where "s = foldl scan_item \<lparr>us_call_response = [], us_response_items = [],
    us_response_calls = [], us_output_calls = []\<rparr> ?act"
  note inc = increasing_active [of items excluded]
  have "hm_get (us_call_response s) = call_owner ?act"
    by (rule ext) (simp add: s_def scan_fields split: option.split)
  then have ri: "foldl (scan_output (us_call_response s)) (us_response_items s) ?act = response_map ?act"
    unfolding scan_outputs response_map_def by (simp add: s_def scan_fields)
  have uns: "has_unsettled_call s r \<longleftrightarrow> (\<exists>c. (c, r) \<in> set (List.map_filter call_entry ?act) \<and>
      c \<notin> set (List.map_filter output_call ?act))" for r
    unfolding s_def by (rule unsettled_scan)
  have first: "min_opt (List.map_filter (\<lambda>(r, its). if has_unsettled_call s r then min_opt (map fst its) else None)
                  (response_map ?act)) \<noteq> None \<longleftrightarrow> unsettled ?act"
  proof -
    have "(r, its) \<in> set (response_map ?act) \<Longrightarrow> min_opt (map fst its) \<noteq> None" for r its
      using response_map_entry [OF inc] by (auto simp: min_opt_def)
    then have "min_opt (List.map_filter (\<lambda>(r, its). if has_unsettled_call s r then min_opt (map fst its) else None)
                  (response_map ?act)) \<noteq> None \<longleftrightarrow>
          (\<exists>r \<in> fst ` set (response_map ?act). has_unsettled_call s r)"
      by (force simp: min_opt_def map_filter_def filter_empty_conv split: if_splits)
    also have "\<dots> \<longleftrightarrow> (\<exists>r. has_unsettled_call s r)"
    proof -
      have "r \<in> fst ` set (response_map ?act)" if unsr: "has_unsettled_call s r" for r
      proof -
        obtain c e where "e \<in> set ?act" "call_entry e = Some (c, r)"
          using unsr unfolding uns set_map_filter_iff by blast
        then show ?thesis unfolding response_map_keys using call_entry_key by blast
      qed
      then show ?thesis by blast
    qed
    also have "\<dots> \<longleftrightarrow> unsettled ?act" unfolding uns unsettled_def list_ex_iff by auto
    finally show ?thesis .
  qed
  show ?thesis
  proof (cases "unsettled ?act")
    case True
    then show ?thesis using first
      by (simp add: semantic_compaction_units_excluding_def Let_def ri unit_groups_def flip: s_def)
  next
    case False
    then have "\<not> has_unsettled_call s r" for r unfolding uns unsettled_def list_ex_iff by auto
    moreover have "concat (map (\<lambda>(r, its). response_unit its) (response_map ?act)) =
          map (\<lambda>(r, _). unit_of (response_group ?act r)) (response_map ?act)"
    proof -
      have "concat (map (\<lambda>(r, its). response_unit its) m) =
            map (\<lambda>(r, _). unit_of (response_group ?act r)) m"
        if "set m \<subseteq> set (response_map ?act)" for m
        using that response_map_entry [OF inc] by (induction m) auto
      then show ?thesis by blast
    qed
    ultimately have "semantic_compaction_units_excluding items excluded =
        map snd (sort_key fst (all_units ?act))"
      using first False
      by (simp add: semantic_compaction_units_excluding_def Let_def ri all_units_def flip: s_def)
    then show ?thesis using False
      by (simp add: sorted_units [OF inc] unit_groups_def unit_of_def comp_def Let_def)
  qed
qed

section \<open>Properties\<close>

text \<open>
  C20. The units a compaction may replace, computed with hash maps filled in two passes and a sort,
  are the active items grouped by what they belong to: nothing while a tool call has no output yet;
  otherwise one unit per model response, with its messages, all its calls and all their outputs in
  the order of the history, and one unit per input, checkpoint or error, the units in the order of
  their first items. So a unit never splits a response, no item is in two units, and the iteration
  order of the maps does not matter.
\<close>

theorem compaction_units_are_response_groups:
  "semantic_compaction_units_excluding items excluded =
     (let act = active_indexed items excluded in
      if unsettled act then [] else map unit_ids (groups (unit_key_of act) act))"
  unfolding units_eq by (simp add: unit_groups_def Let_def)

end
