(* ===== verification/Context_Window.thy ===== *)
theory Context_Window
  imports Text_Clip Model_Message
begin

text \<open>
  The token budget of a request, \<open>src/src/context/context_window.rs\<close>: the byte-based estimate of
  texts, messages and requests, the status of the context window, and the cutting of user messages
  to the budget of a compaction. Token counts are naturals with the saturation of \<open>usize\<close> and
  \<open>u32\<close> written out. The text of a tool schema (\<open>serde_json\<close>'s printer) is a parameter
  \<open>print\<close>. A slice or an index out of range, a panic in Rust, is \<open>None\<close>.
\<close>

section \<open>Estimates\<close>

definition REQUEST_OVERHEAD_TOKENS :: nat where "REQUEST_OVERHEAD_TOKENS = 12"
definition MESSAGE_OVERHEAD_TOKENS :: nat where "MESSAGE_OVERHEAD_TOKENS = 8"
definition TOOL_SCHEMA_OVERHEAD_TOKENS :: nat where "TOOL_SCHEMA_OVERHEAD_TOKENS = 16"
definition MIN_IMAGE_RESERVATION_TOKENS :: nat where "MIN_IMAGE_RESERVATION_TOKENS = 1024"
definition DECODED_IMAGE_BYTES_PER_RESERVED_TOKEN :: nat where
  "DECODED_IMAGE_BYTES_PER_RESERVED_TOKEN = 128"
definition COMPACTION_USER_MESSAGE_MAX_TOKENS :: nat where
  "COMPACTION_USER_MESSAGE_MAX_TOKENS = 20000"

definition estimate_text_tokens :: "ustr \<Rightarrow> nat" where
  "estimate_text_tokens s = div_ceil (utf8_len s) 4"

text \<open>The padding is counted in bytes; an equals sign is one byte and no byte of another character.\<close>

definition image_reservation :: "ustr \<Rightarrow> nat" where
  "image_reservation data =
     (let padding = min (length (takeWhile (\<lambda>c. c = 61) (rev data))) 2;
          decoded_bytes = min (div_ceil (utf8_len data) 4 * 3) USIZE_MAX - padding
      in max (div_ceil decoded_bytes DECODED_IMAGE_BYTES_PER_RESERVED_TOKEN)
             MIN_IMAGE_RESERVATION_TOKENS)"

definition part_tokens :: "model_content_part \<Rightarrow> nat" where
  "part_tokens part =
     (case part of PText s \<Rightarrow> estimate_text_tokens s | PImage _ data \<Rightarrow> image_reservation data)"

definition call_tokens :: "model_tool_call \<Rightarrow> nat" where
  "call_tokens call =
     sat_add (sat_add (sat_add MESSAGE_OVERHEAD_TOKENS (estimate_text_tokens (mtc_call_id call)))
       (estimate_text_tokens (mtc_tool_name call))) (estimate_text_tokens (mtc_arguments_json call))"

definition message_tokens :: "model_message \<Rightarrow> nat" where
  "message_tokens message =
     (let content_tokens =
        (case message of
           MSystem content \<Rightarrow> estimate_text_tokens content
         | MDeveloper content \<Rightarrow> estimate_text_tokens content
         | MAgent content \<Rightarrow> estimate_text_tokens content
         | MUser content \<Rightarrow> estimate_text_tokens content
         | MAssistant content \<Rightarrow> estimate_text_tokens content
         | MUserParts parts \<Rightarrow> foldl sat_add 0 (map part_tokens parts)
         | MAssistantToolCalls content tool_calls continuation \<Rightarrow>
             sat_add
               (sat_add (case content of None \<Rightarrow> 0 | Some c \<Rightarrow> estimate_text_tokens c)
                  (case continuation of None \<Rightarrow> 0
                   | Some v \<Rightarrow> estimate_text_tokens (ctc_reasoning_content v)))
               (foldl sat_add 0 (map call_tokens tool_calls))
         | MTool call_id tool_name result _ \<Rightarrow>
             sat_add (sat_add (estimate_text_tokens call_id) (estimate_text_tokens tool_name))
               (estimate_text_tokens result))
      in sat_add MESSAGE_OVERHEAD_TOKENS content_tokens)"

definition estimate_model_messages_tokens :: "model_message list \<Rightarrow> nat" where
  "estimate_model_messages_tokens messages = min (foldl sat_add 0 (map message_tokens messages)) U32_MAX"

record tool_schema =
  ts_name :: ustr
  ts_description :: ustr
  ts_input_schema :: json

text \<open>What the estimate reads of a prepared request.\<close>

record chat_request =
  cr_context_window :: nat
  cr_system_prompt :: ustr
  cr_pending_system_prompt_tokens :: "nat option"
  cr_messages :: "model_message list"
  cr_tools :: "tool_schema list"

definition schema_tokens :: "(json \<Rightarrow> ustr) \<Rightarrow> tool_schema \<Rightarrow> nat" where
  "schema_tokens print tool =
     sat_add (sat_add (sat_add TOOL_SCHEMA_OVERHEAD_TOKENS (estimate_text_tokens (ts_name tool)))
       (estimate_text_tokens (ts_description tool))) (estimate_text_tokens (print (ts_input_schema tool)))"

definition estimate_request_tokens :: "(json \<Rightarrow> ustr) \<Rightarrow> chat_request \<Rightarrow> nat" where
  "estimate_request_tokens print request =
     min (sat_add (sat_add (sat_add (sat_add REQUEST_OVERHEAD_TOKENS
            (case cr_pending_system_prompt_tokens request of None \<Rightarrow> 0 | Some n \<Rightarrow> n))
            (estimate_text_tokens (cr_system_prompt request)))
            (foldl sat_add 0 (map message_tokens (cr_messages request))))
            (foldl sat_add 0 (map (schema_tokens print) (cr_tools request)))) U32_MAX"

section \<open>The status of the context window\<close>

datatype active_context_token_source =
    FullPreparedRequestEstimate | ProviderUsageWithLocalEstimate

record context_window_token_status =
  ws_source :: active_context_token_source
  active_context_tokens :: nat
  full_context_window_limit :: nat
  configured_max_output_tokens :: "nat option"
  overflow_margin_tokens :: nat
  tokens_until_limit :: int
  token_limit_reached :: bool

definition from_active_context_tokens ::
  "chat_request \<Rightarrow> nat \<Rightarrow> nat \<Rightarrow> active_context_token_source \<Rightarrow> context_window_token_status" where
  "from_active_context_tokens request margin active source =
     (let until = int (cr_context_window request) - int active in
      \<lparr>ws_source = source, active_context_tokens = active,
       full_context_window_limit = cr_context_window request,
       configured_max_output_tokens = None, overflow_margin_tokens = min margin U32_MAX,
       tokens_until_limit = until, token_limit_reached = (until \<le> 0)\<rparr>)"

definition for_request :: "(json \<Rightarrow> ustr) \<Rightarrow> chat_request \<Rightarrow> nat \<Rightarrow> context_window_token_status" where
  "for_request print request margin =
     from_active_context_tokens request margin (estimate_request_tokens print request)
       FullPreparedRequestEstimate"

definition from_provider_usage ::
  "(json \<Rightarrow> ustr) \<Rightarrow> chat_request \<Rightarrow> nat \<Rightarrow> nat \<Rightarrow> model_message list \<Rightarrow> nat \<Rightarrow>
   context_window_token_status" where
  "from_provider_usage print request margin provider_total_tokens local_messages positive_noncanonical =
     (let local_tokens = estimate_model_messages_tokens local_messages;
          provider_usage_estimate =
            sat_add_u32 (sat_add_u32 provider_total_tokens local_tokens) positive_noncanonical;
          full_prepared_request_estimate = estimate_request_tokens print request;
          (active, source) =
            (if provider_usage_estimate > full_prepared_request_estimate
             then (provider_usage_estimate, ProviderUsageWithLocalEstimate)
             else (full_prepared_request_estimate, FullPreparedRequestEstimate))
      in from_active_context_tokens request margin active source)"

section \<open>Cutting text to a token budget\<close>

definition nth_opt :: "'a list \<Rightarrow> nat \<Rightarrow> 'a option" where
  "nth_opt xs i = (if i < length xs then Some (xs ! i) else None)"

text \<open>\<open>char_indices\<close> and the length: the byte positions between characters.\<close>

definition boundaries :: "ustr \<Rightarrow> nat list" where
  "boundaries s = map (\<lambda>i. utf8_len (take i s)) [0..<Suc (length s)]"

text \<open>The loop of both searches; \<open>fits\<close> is its condition at \<open>middle\<close>.\<close>

function bisect :: "(nat \<Rightarrow> bool option) \<Rightarrow> nat \<Rightarrow> nat \<Rightarrow> nat option" where
  "bisect fits low high =
     (if low + 1 < high
      then let middle = low + (high - low) div 2
           in (case fits middle of
                 None \<Rightarrow> None
               | Some True \<Rightarrow> bisect fits middle high
               | Some False \<Rightarrow> bisect fits low middle)
      else Some low)"
  by pat_completeness auto

termination
  by (relation "measure (\<lambda>(fits, low, high). high - low)") auto

declare bisect.simps [simp del]

definition prefix_within_estimated_tokens :: "ustr \<Rightarrow> nat \<Rightarrow> ustr option" where
  "prefix_within_estimated_tokens s max_tokens =
     (let bs = boundaries s in
      do {
        low \<leftarrow> bisect (\<lambda>middle. do {
                 b \<leftarrow> nth_opt bs middle;
                 t \<leftarrow> byte_take b s;
                 Some (estimate_text_tokens t \<le> max_tokens) }) 0 (length bs);
        b \<leftarrow> nth_opt bs low;
        byte_take b s
      })"

definition suffix_within_estimated_tokens :: "ustr \<Rightarrow> nat \<Rightarrow> ustr option" where
  "suffix_within_estimated_tokens s max_tokens =
     (let bs = boundaries s in
      do {
        low \<leftarrow> bisect (\<lambda>middle. do {
                 start \<leftarrow> nth_opt bs (length bs - 1 - middle);
                 t \<leftarrow> byte_drop start s;
                 Some (estimate_text_tokens t \<le> max_tokens) }) 0 (length bs);
        b \<leftarrow> nth_opt bs (length bs - 1 - low);
        byte_drop b s
      })"

definition MARKER :: ustr where
  "MARKER = [LF] @ lit ''[... compaction checkpoint truncated ...]'' @ [LF]"

definition truncate_text_to_estimated_tokens :: "ustr \<Rightarrow> nat \<Rightarrow> ustr option" where
  "truncate_text_to_estimated_tokens s max_tokens =
     (if max_tokens = 0 then Some []
      else if estimate_text_tokens s \<le> max_tokens then Some s
      else let marker_tokens = estimate_text_tokens MARKER in
      if marker_tokens \<ge> max_tokens then prefix_within_estimated_tokens s max_tokens
      else let content_tokens = max_tokens - marker_tokens;
               head_budget = div_ceil content_tokens 2;
               tail_budget = content_tokens div 2
           in do {
             head \<leftarrow> prefix_within_estimated_tokens s head_budget;
             tail_source \<leftarrow> byte_drop (utf8_len head) s;
             tail \<leftarrow> suffix_within_estimated_tokens tail_source tail_budget;
             Some (head @ MARKER @ tail)
           })"

section \<open>The user messages kept by a compaction\<close>

record compaction_user_message_budget =
  remaining_tokens :: nat
  newest_first :: "ustr list"

definition budget_new :: compaction_user_message_budget where
  "budget_new = \<lparr>remaining_tokens = COMPACTION_USER_MESSAGE_MAX_TOKENS, newest_first = []\<rparr>"

definition push_newest ::
  "compaction_user_message_budget \<Rightarrow> ustr \<Rightarrow> (compaction_user_message_budget \<times> bool) option" where
  "push_newest budget message =
     (let message_tokens = estimate_text_tokens message in
      if message_tokens \<le> remaining_tokens budget
      then let rest = remaining_tokens budget - message_tokens
           in Some (\<lparr>remaining_tokens = rest, newest_first = newest_first budget @ [message]\<rparr>, rest > 0)
      else do {
        boundary \<leftarrow> truncate_text_to_estimated_tokens message (remaining_tokens budget);
        Some (\<lparr>remaining_tokens = 0,
               newest_first = (if boundary \<noteq> [] then newest_first budget @ [boundary]
                               else newest_first budget)\<rparr>, False)
      })"

definition budget_finish :: "compaction_user_message_budget \<Rightarrow> ustr list" where
  "budget_finish budget = rev (newest_first budget)"

fun push_all ::
  "compaction_user_message_budget \<Rightarrow> ustr list \<Rightarrow> compaction_user_message_budget option" where
  "push_all budget [] = Some budget"
| "push_all budget (m # ms) =
     do { (budget', more) \<leftarrow> push_newest budget m; if more then push_all budget' ms else Some budget' }"

definition bounded_compaction_user_messages :: "ustr list \<Rightarrow> ustr list option" where
  "bounded_compaction_user_messages messages =
     map_option budget_finish (push_all budget_new (rev messages))"

section \<open>Lemmas\<close>

lemma estimate_le_iff: "estimate_text_tokens s \<le> n \<longleftrightarrow> utf8_len s \<le> 4 * n"
  by (simp add: estimate_text_tokens_def div_ceil_le_iff)

lemma less_estimate_iff: "n < estimate_text_tokens s \<longleftrightarrow> 4 * n < utf8_len s"
  using estimate_le_iff [of s n] by linarith

lemma estimate_Nil [simp]: "estimate_text_tokens [] = 0"
  by (simp add: estimate_text_tokens_def div_ceil_def)

lemma bisect_spec:
  assumes "low < high" and "\<And>m. m < high \<Longrightarrow> fits m = Some (q m)" and "q low"
    and "\<And>m n. m \<le> n \<Longrightarrow> q n \<Longrightarrow> q m"
  shows "\<exists>r. bisect fits low high = Some r \<and> low \<le> r \<and> r < high \<and> q r \<and>
             (\<forall>k. r < k \<longrightarrow> k < high \<longrightarrow> \<not> q k)"
  using assms
proof (induction fits low high rule: bisect.induct)
  case (1 fits low high)
  let ?m = "low + (high - low) div 2"
  show ?case
  proof (cases "low + 1 < high")
    case True
    then have m: "low < ?m" "?m < high" by auto
    then have f: "fits ?m = Some (q ?m)" using "1.prems"(2) by blast
    show ?thesis
    proof (cases "q ?m")
      case q: True
      have "\<exists>r. bisect fits ?m high = Some r \<and> ?m \<le> r \<and> r < high \<and> q r \<and>
              (\<forall>k. r < k \<longrightarrow> k < high \<longrightarrow> \<not> q k)"
        using "1.IH"(1) [OF True refl] f q m "1.prems" by simp
      moreover have "bisect fits low high = bisect fits ?m high"
        using True f q by (subst bisect.simps) simp
      ultimately show ?thesis using m by auto
    next
      case q: False
      have "\<exists>r. bisect fits low ?m = Some r \<and> low \<le> r \<and> r < ?m \<and> q r \<and>
              (\<forall>k. r < k \<longrightarrow> k < ?m \<longrightarrow> \<not> q k)"
        using "1.IH"(2) [OF True refl] f q m "1.prems" by simp
      moreover have "bisect fits low high = bisect fits low ?m"
        using True f q by (subst bisect.simps) simp
      moreover have "\<not> q k" if "?m \<le> k" for k using q "1.prems"(4) that by blast
      ultimately show ?thesis using m by (metis leI less_trans)
    qed
  next
    case False
    then show ?thesis using "1.prems" by (subst bisect.simps) auto
  qed
qed

lemma nth_boundaries: "i \<le> length s \<Longrightarrow> nth_opt (boundaries s) i = Some (utf8_len (take i s))"
  by (simp add: nth_opt_def boundaries_def del: upt_Suc)

lemma length_boundaries [simp]: "length (boundaries s) = Suc (length s)"
  by (simp add: boundaries_def)

lemma byte_take_chars [simp]: "byte_take (utf8_len (take i s)) s = Some (take i s)"
  by (metis append_take_drop_id byte_take_iff)

lemma byte_drop_chars [simp]: "byte_drop (utf8_len (take i s)) s = Some (drop i s)"
  by (metis append_take_drop_id byte_drop_iff)

lemma utf8_len_take_mono: "m \<le> n \<Longrightarrow> utf8_len (take m s) \<le> utf8_len (take n s)"
proof -
  assume "m \<le> n"
  then have "take n s = take m s @ take (n - m) (drop m s)" by (metis le_add_diff_inverse take_add)
  then show ?thesis by simp
qed

lemma utf8_len_drop_mono: "m \<le> n \<Longrightarrow> utf8_len (drop n s) \<le> utf8_len (drop m s)"
proof -
  assume "m \<le> n"
  then have "drop m s = take (n - m) (drop m s) @ drop n s"
    by (metis append_take_drop_id drop_drop le_add_diff_inverse2)
  then show ?thesis by (metis le_add2 utf8_len_simps(3))
qed

lemma prefix_within_spec:
  "\<exists>m. prefix_within_estimated_tokens s n = Some (take m s) \<and> m \<le> length s \<and>
       estimate_text_tokens (take m s) \<le> n \<and>
       (\<forall>k \<le> length s. m < k \<longrightarrow> n < estimate_text_tokens (take k s))"
proof -
  let ?q = "\<lambda>m. estimate_text_tokens (take m s) \<le> n"
  let ?fits = "\<lambda>middle. do { b \<leftarrow> nth_opt (boundaries s) middle; t \<leftarrow> byte_take b s;
                             Some (estimate_text_tokens t \<le> n) }"
  have "\<exists>r. bisect ?fits 0 (Suc (length s)) = Some r \<and> 0 \<le> r \<and> r < Suc (length s) \<and> ?q r \<and>
           (\<forall>k. r < k \<longrightarrow> k < Suc (length s) \<longrightarrow> \<not> ?q k)"
    by (rule bisect_spec) (auto simp: nth_boundaries estimate_le_iff intro: order_trans [OF utf8_len_take_mono])
  then obtain r where r: "bisect ?fits 0 (Suc (length s)) = Some r" "r \<le> length s" "?q r"
      "\<forall>k. r < k \<longrightarrow> k < Suc (length s) \<longrightarrow> \<not> ?q k" by (auto simp: less_Suc_eq_le)
  have "prefix_within_estimated_tokens s n = Some (take r s)"
    unfolding prefix_within_estimated_tokens_def using r(1,2) by (simp add: nth_boundaries)
  then show ?thesis using r(2-4) by (auto simp: less_Suc_eq_le not_le)
qed

lemma suffix_within_spec:
  "\<exists>m. suffix_within_estimated_tokens s n = Some (drop m s) \<and> m \<le> length s \<and>
       estimate_text_tokens (drop m s) \<le> n \<and>
       (\<forall>k < m. n < estimate_text_tokens (drop k s))"
proof -
  let ?q = "\<lambda>m. estimate_text_tokens (drop (length s - m) s) \<le> n"
  let ?fits = "\<lambda>middle. do { start \<leftarrow> nth_opt (boundaries s) (length s - middle); t \<leftarrow> byte_drop start s;
                             Some (estimate_text_tokens t \<le> n) }"
  have mono: "?q l" if "l \<le> m" "?q m" for l m
    using that utf8_len_drop_mono [of "length s - m" "length s - l" s]
    by (simp add: estimate_le_iff diff_le_mono2)
  have "\<exists>r. bisect ?fits 0 (Suc (length s)) = Some r \<and> 0 \<le> r \<and> r < Suc (length s) \<and> ?q r \<and>
           (\<forall>k. r < k \<longrightarrow> k < Suc (length s) \<longrightarrow> \<not> ?q k)"
    by (rule bisect_spec [OF _ _ _ mono]) (auto simp: nth_boundaries)
  then obtain r where r: "bisect ?fits 0 (Suc (length s)) = Some r" "r \<le> length s" "?q r"
      "\<forall>k. r < k \<longrightarrow> k < Suc (length s) \<longrightarrow> \<not> ?q k" by (auto simp: less_Suc_eq_le)
  have "n < estimate_text_tokens (drop k s)" if "k < length s - r" for k
  proof -
    have "r < length s - k" "length s - k < Suc (length s)" "length s - (length s - k) = k"
      using that r(2) by auto
    with r(4) show ?thesis by (metis not_le)
  qed
  moreover have "suffix_within_estimated_tokens s n = Some (drop (length s - r) s)"
    unfolding suffix_within_estimated_tokens_def using r(1,2) by (simp add: nth_boundaries)
  ultimately show ?thesis using r(3) by (intro exI [of _ "length s - r"]) auto
qed

lemma truncate_tokens_spec:
  "\<exists>t. truncate_text_to_estimated_tokens s n = Some t \<and> estimate_text_tokens t \<le> n \<and>
     (estimate_text_tokens s \<le> n \<longrightarrow> t = s) \<and>
     (estimate_text_tokens s > n \<longrightarrow>
        (if n \<le> estimate_text_tokens MARKER then prefix t s
         else \<exists>head middle tail. s = head @ middle @ tail \<and> t = head @ MARKER @ tail))"
proof (cases "n = 0 \<or> estimate_text_tokens s \<le> n \<or> n \<le> estimate_text_tokens MARKER")
  case True
  from prefix_within_spec [of s n] obtain m where
    "prefix_within_estimated_tokens s n = Some (take m s)" "estimate_text_tokens (take m s) \<le> n"
    by blast
  moreover have "s = []" if "utf8_len s = 0" using that by simp
  ultimately show ?thesis using True
    by (auto simp: truncate_text_to_estimated_tokens_def Let_def take_is_prefix estimate_le_iff
          less_estimate_iff)
next
  case False
  define c where "c = n - estimate_text_tokens MARKER"
  from prefix_within_spec [of s "div_ceil c 2"] obtain m where
    h: "prefix_within_estimated_tokens s (div_ceil c 2) = Some (take m s)"
       "estimate_text_tokens (take m s) \<le> div_ceil c 2" by blast
  from suffix_within_spec [of "drop m s" "c div 2"] obtain k where
    t: "suffix_within_estimated_tokens (drop m s) (c div 2) = Some (drop k (drop m s))"
       "estimate_text_tokens (drop k (drop m s)) \<le> c div 2" by blast
  let ?t = "take m s @ MARKER @ drop k (drop m s)"
  have "truncate_text_to_estimated_tokens s n = Some ?t"
    using False h(1) t(1) by (simp add: truncate_text_to_estimated_tokens_def Let_def c_def)
  moreover have "estimate_text_tokens ?t \<le> n"
  proof -
    have "div_ceil c 2 + c div 2 = c" by (simp add: div_ceil_def)
    moreover have "utf8_len MARKER \<le> 4 * estimate_text_tokens MARKER"
      by (simp add: estimate_le_iff [symmetric])
    ultimately have "utf8_len ?t \<le> 4 * (c + estimate_text_tokens MARKER)"
      using h(2) t(2) by (simp add: estimate_le_iff)
    moreover have "c + estimate_text_tokens MARKER = n" using False by (auto simp: c_def)
    ultimately show ?thesis unfolding estimate_le_iff by simp
  qed
  moreover have "s = take m s @ take k (drop m s) @ drop k (drop m s)"
    by (metis append_take_drop_id)
  ultimately show ?thesis using False by (metis (lifting))
qed

definition total_tokens :: "ustr list \<Rightarrow> nat" where
  "total_tokens ms = sum_list (map estimate_text_tokens ms)"

lemma total_tokens_simps [simp]:
  "total_tokens [] = 0" "total_tokens (m # ms) = estimate_text_tokens m + total_tokens ms"
  "total_tokens (ms @ ns) = total_tokens ms + total_tokens ns" "total_tokens (rev ms) = total_tokens ms"
  by (simp_all add: total_tokens_def rev_map [symmetric] sum_list.rev)

text \<open>
  Pushing messages keeps a run of the newest whole, then at most one cut message: \<open>ms\<close> is
  \<open>kept @ left\<close>, the cut one is the head of \<open>left\<close>.
\<close>

lemma push_all_spec:
  "\<exists>b' kept left cut. push_all b ms = Some b' \<and> ms = kept @ left \<and>
     newest_first b' = newest_first b @ kept @ cut \<and>
     total_tokens (kept @ cut) \<le> remaining_tokens b \<and>
     (cut = [] \<or> (\<exists>x r. cut = [x] \<and> left \<noteq> [] \<and>
        truncate_text_to_estimated_tokens (hd left) r = Some x)) \<and>
     (remaining_tokens b \<le> total_tokens ms \<or> left = [])"
proof (induction ms arbitrary: b)
  case Nil
  show ?case by simp
next
  case (Cons m ms)
  let ?n = "estimate_text_tokens m" and ?r = "remaining_tokens b"
  let ?b = "\<lparr>remaining_tokens = ?r - ?n, newest_first = newest_first b @ [m]\<rparr>"
  show ?case
  proof (cases "?n < ?r")
    case True
    obtain b' kept left cut where
      "push_all ?b ms = Some b'" "ms = kept @ left" "newest_first b' = newest_first ?b @ kept @ cut"
      "total_tokens (kept @ cut) \<le> ?r - ?n" and
      cut: "cut = [] \<or> (\<exists>x r. cut = [x] \<and> left \<noteq> [] \<and>
        truncate_text_to_estimated_tokens (hd left) r = Some x)" and
      all: "?r - ?n \<le> total_tokens ms \<or> left = []"
      using Cons.IH [of ?b] unfolding compaction_user_message_budget.simps by metis
    then have "push_all b (m # ms) = Some b'" "m # ms = (m # kept) @ left"
      "newest_first b' = newest_first b @ (m # kept) @ cut"
      "total_tokens ((m # kept) @ cut) \<le> ?r" "?r \<le> total_tokens (m # ms) \<or> left = []"
      using True by (auto simp: push_newest_def)
    then show ?thesis using cut by blast
  next
    case no: False
    show ?thesis
    proof (cases "?n = ?r")
      case True
      then have "push_all b (m # ms) = Some ?b" by (simp add: push_newest_def)
      then show ?thesis using True by (intro exI [of _ ?b] exI [of _ "[m]"] exI [of _ ms] exI [of _ "[]"]) simp
    next
      case False
      from truncate_tokens_spec [of m ?r] obtain t where
        t: "truncate_text_to_estimated_tokens m ?r = Some t" "estimate_text_tokens t \<le> ?r" by blast
      let ?c = "if t \<noteq> [] then [t] else []"
      let ?b' = "\<lparr>remaining_tokens = 0, newest_first = newest_first b @ ?c\<rparr>"
      have "push_all b (m # ms) = Some ?b'" using no False t(1) by (simp add: push_newest_def)
      then show ?thesis using no t
        by (intro exI [of _ ?b'] exI [of _ "[]"] exI [of _ "m # ms"] exI [of _ ?c]) auto
    qed
  qed
qed

text \<open>With the provider's usage the active tokens are the larger of two estimates.\<close>

lemma provider_status_is_conservative:
  "(let st = from_provider_usage print request margin reported msgs extra;
        usage = min (min (reported + estimate_model_messages_tokens msgs) U32_MAX + extra) U32_MAX
    in active_context_tokens st = max (estimate_request_tokens print request) usage \<and>
       active_context_tokens (for_request print request margin) \<le> active_context_tokens st \<and>
       active_context_tokens st \<le> U32_MAX \<and>
       (token_limit_reached st \<longleftrightarrow> cr_context_window request \<le> active_context_tokens st))"
proof -
  have "estimate_request_tokens print request \<le> U32_MAX" by (simp add: estimate_request_tokens_def)
  then show ?thesis
    by (auto simp: from_provider_usage_def for_request_def from_active_context_tokens_def Let_def
          sat_add_u32_def)
qed

section \<open>Properties\<close>

text \<open>
  A text cut to a token budget fits it, whatever the text and the budget: the function returns
  (neither a slice nor an index of its binary searches is out of range), a text that fits is
  unchanged, one that does not becomes a prefix of it when the marker has no room, and otherwise
  a head and a tail of it, which do not overlap, around the marker.
\<close>

theorem truncated_text_fits_its_budget:
  "\<exists>t. truncate_text_to_estimated_tokens s n = Some t \<and> estimate_text_tokens t \<le> n \<and>
     (if estimate_text_tokens s \<le> n then t = s
      else if n \<le> estimate_text_tokens MARKER then prefix t s
      else \<exists>head middle tail. s = head @ middle @ tail \<and> t = head @ MARKER @ tail)"
  using truncate_tokens_spec [of s n] by auto

text \<open>
  The user messages a compaction keeps cost at most \<open>COMPACTION_USER_MESSAGE_MAX_TOKENS\<close>
  in total. They are the newest messages, whole and in their order, with at most one more before
  them, the cut form of the newest message that no longer fits whole; when all messages cost less
  than the budget they are all kept.
\<close>

theorem compaction_keeps_newest_user_messages_within_budget:
  "\<exists>out older newer cut. bounded_compaction_user_messages ms = Some out \<and>
     ms = older @ newer \<and> out = cut @ newer \<and>
     total_tokens out \<le> COMPACTION_USER_MESSAGE_MAX_TOKENS \<and>
     (cut = [] \<or> (\<exists>x r. cut = [x] \<and> older \<noteq> [] \<and>
        truncate_text_to_estimated_tokens (last older) r = Some x)) \<and>
     (COMPACTION_USER_MESSAGE_MAX_TOKENS \<le> total_tokens ms \<or> out = ms)"
proof -
  have new: "remaining_tokens budget_new = COMPACTION_USER_MESSAGE_MAX_TOKENS"
    "newest_first budget_new = []" by (simp_all add: budget_new_def)
  obtain b' kept left cut where
    b: "push_all budget_new (rev ms) = Some b'" "rev ms = kept @ left"
       "newest_first b' = kept @ cut" "total_tokens (kept @ cut) \<le> COMPACTION_USER_MESSAGE_MAX_TOKENS"
    and cut: "cut = [] \<or> (\<exists>x r. cut = [x] \<and> left \<noteq> [] \<and>
        truncate_text_to_estimated_tokens (hd left) r = Some x)"
    and all: "COMPACTION_USER_MESSAGE_MAX_TOKENS \<le> total_tokens ms \<or> left = []"
    using push_all_spec [of budget_new "rev ms"] unfolding new total_tokens_simps append_Nil by metis
  have ms: "ms = rev left @ rev kept" using b(2) by (metis rev_append rev_rev_ident)
  have "bounded_compaction_user_messages ms = Some (cut @ rev kept)"
    using b(1,3) cut by (auto simp: bounded_compaction_user_messages_def budget_finish_def)
  moreover have "total_tokens (cut @ rev kept) \<le> COMPACTION_USER_MESSAGE_MAX_TOKENS"
    using b(4) by simp
  moreover have "COMPACTION_USER_MESSAGE_MAX_TOKENS \<le> total_tokens ms \<or> cut @ rev kept = ms"
    using all cut ms by auto
  moreover have "cut = [] \<or> (\<exists>x r. cut = [x] \<and> rev left \<noteq> [] \<and>
        truncate_text_to_estimated_tokens (last (rev left)) r = Some x)"
    using cut by (auto simp: last_rev)
  ultimately show ?thesis using ms by blast
qed

end
