(* ===== verification/Context_Manager.thy ===== *)
theory Context_Manager
  imports Message_Projection Context_Window
begin

text \<open>
  The owner of a run's model context, \<open>ContextManager\<close> and \<open>ActiveContextTokenState\<close> of
  \<open>src/src/agent/context_manager.rs\<close>: the active view of the append-only history, the deltas it
  ingests, the private continuations of the run, the selection of what a compaction replaces, and
  the tokens known from the provider. A panic is \<open>None\<close>.
\<close>

section \<open>State\<close>

record context_manager =
  cm_items :: "history_item list"
  cm_revision :: ustr
  cm_append_cursor :: "int option"
  cm_canonical_count :: nat
  cm_continuations :: "(response_id, chat_tool_continuation) hmap"

datatype history_change = Unchanged | Appended | Compacted

record context_delta =
  cd_change :: history_change
  steer_item_ids :: "history_item_id list"
  agent_communication_item_ids :: "history_item_id list"

text \<open>\<open>i64::to_le_bytes\<close>, of the two's complement.\<close>

definition le_bytes :: "int \<Rightarrow> nat list" where
  "le_bytes n = map (\<lambda>i. nat (n div 256 ^ i mod 256)) [0..<8]"

definition item_digest_input :: "host_env \<Rightarrow> history_item \<Rightarrow> nat list" where
  "item_digest_input env item =
     env_id_str env (hi_id item) @ scope_as_str (hi_scope item) @
     (case scope_turn_id (hi_scope item) of None \<Rightarrow> [] | Some t \<Rightarrow> env_id_str env t) @
     le_bytes (hi_sequence_no item) @
     (case env_payload_json env (hi_payload item) of None \<Rightarrow> [] | Some payload \<Rightarrow> payload)"

definition revision_for :: "host_env \<Rightarrow> history_item list \<Rightarrow> ustr" where
  "revision_for env items = env_digest env (concat (map (item_digest_input env) items))"

definition from_active_history ::
  "host_env \<Rightarrow> history_item list \<Rightarrow> int option \<Rightarrow> nat \<Rightarrow> context_manager" where
  "from_active_history env items append_cursor canonical_count =
     \<lparr>cm_items = items, cm_revision = revision_for env items, cm_append_cursor = append_cursor,
      cm_canonical_count = canonical_count, cm_continuations = []\<rparr>"

definition clear_chat_continuations :: "context_manager \<Rightarrow> context_manager" where
  "clear_chat_continuations cm = cm\<lparr>cm_continuations := []\<rparr>"

definition record_chat_continuation ::
  "context_manager \<Rightarrow> response_id \<Rightarrow> chat_tool_continuation \<Rightarrow> context_manager" where
  "record_chat_continuation cm r c = cm\<lparr>cm_continuations := hm_insert r c (cm_continuations cm)\<rparr>"

text \<open>The builder that takes the pages of a stored view.\<close>

record active_history_context_builder =
  ab_items :: "history_item list"

definition active_history_builder :: active_history_context_builder where
  "active_history_builder = \<lparr>ab_items = []\<rparr>"

definition ingest_page ::
  "active_history_context_builder \<Rightarrow> history_item list \<Rightarrow> active_history_context_builder" where
  "ingest_page b items = b\<lparr>ab_items := ab_items b @ items\<rparr>"

definition builder_finish ::
  "host_env \<Rightarrow> active_history_context_builder \<Rightarrow> int option \<Rightarrow> nat \<Rightarrow> context_manager" where
  "builder_finish env b append_cursor canonical_count =
     from_active_history env (ab_items b) append_cursor canonical_count"

section \<open>Ingesting committed rows\<close>

definition position :: "('a \<Rightarrow> bool) \<Rightarrow> 'a list \<Rightarrow> nat option" where
  "position p xs =
     (let n = length (takeWhile (\<lambda>x. \<not> p x) xs) in if n < length xs then Some n else None)"

definition vec_insert :: "nat \<Rightarrow> 'a \<Rightarrow> 'a list \<Rightarrow> 'a list" where
  "vec_insert i x xs = take i xs @ x # drop i xs"

fun drop_continuation ::
  "(response_id, chat_tool_continuation) hmap \<Rightarrow> history_item \<Rightarrow>
   (response_id, chat_tool_continuation) hmap" where
  "drop_continuation m existing =
     (case hi_payload existing of ToolCall _ response_id _ _ _ \<Rightarrow> hm_remove response_id m | _ \<Rightarrow> m)"

fun compaction_replaces :: "history_item_payload \<Rightarrow> history_item_id list option" where
  "compaction_replaces (Compaction _ _ _ _ _ ids) = Some ids"
| "compaction_replaces _ = None"

definition ingest_item :: "context_manager \<Rightarrow> history_item \<Rightarrow> context_manager" where
  "ingest_item cm item =
     (case compaction_replaces (hi_payload item) of
        Some replaced \<Rightarrow>
          let is_replaced = (\<lambda>existing. hi_id existing \<in> set replaced);
              insertion = (case position is_replaced (cm_items cm) of
                             None \<Rightarrow> length (cm_items cm) | Some i \<Rightarrow> i);
              retained = filter (\<lambda>existing. \<not> is_replaced existing) (cm_items cm)
          in cm\<lparr>cm_items := vec_insert (min insertion (length retained)) item retained,
                cm_continuations :=
                  foldl drop_continuation (cm_continuations cm) (filter is_replaced (cm_items cm))\<rparr>
      | None \<Rightarrow> cm\<lparr>cm_items := cm_items cm @ [item]\<rparr>)"

fun is_steer :: "history_item_payload \<Rightarrow> bool" where
  "is_steer (SteerTurn _ _ _ _) = True"
| "is_steer _ = False"

fun is_communication :: "history_item_payload \<Rightarrow> bool" where
  "is_communication (InterAgentCommunication _) = True"
| "is_communication _ = False"

text \<open>The ids are collected in the same loop; they do not depend on the view.\<close>

definition ids_where :: "(history_item_payload \<Rightarrow> bool) \<Rightarrow> history_item list \<Rightarrow> history_item_id list" where
  "ids_where p items = map hi_id (filter (p \<circ> hi_payload) items)"

definition opt_or :: "'a option \<Rightarrow> 'a option \<Rightarrow> 'a option" where
  "opt_or x y = (case x of None \<Rightarrow> y | Some _ \<Rightarrow> x)"

definition ingest_committed_delta ::
  "host_env \<Rightarrow> context_manager \<Rightarrow> history_item list \<Rightarrow> int option \<Rightarrow> context_manager \<times> context_delta" where
  "ingest_committed_delta env cm items next_cursor =
     (if items = [] then
        (cm\<lparr>cm_append_cursor := opt_or next_cursor (cm_append_cursor cm)\<rparr>,
         \<lparr>cd_change = Unchanged, steer_item_ids = [], agent_communication_item_ids = []\<rparr>)
      else
        let cm1 = foldl ingest_item cm items;
            compacted = list_ex (\<lambda>item. compaction_replaces (hi_payload item) \<noteq> None) items
        in (cm1\<lparr>cm_canonical_count := sat_add (cm_canonical_count cm1) (length items),
                cm_append_cursor := opt_or next_cursor (cm_append_cursor cm1),
                cm_revision := revision_for env (cm_items cm1)\<rparr>,
            \<lparr>cd_change = (if compacted then Compacted else Appended),
             steer_item_ids = ids_where is_steer items,
             agent_communication_item_ids = ids_where is_communication items\<rparr>))"

section \<open>Queries\<close>

fun is_user_turn :: "history_item_payload \<Rightarrow> bool" where
  "is_user_turn (UserTurn _ _ _) = True"
| "is_user_turn _ = False"

definition contains_user_turn_item :: "context_manager \<Rightarrow> history_item_id \<Rightarrow> bool" where
  "contains_user_turn_item cm i =
     list_ex (\<lambda>item. hi_id item = i \<and> is_user_turn (hi_payload item)) (cm_items cm)"

definition has_model_context :: "context_manager \<Rightarrow> bool" where
  "has_model_context cm =
     list_ex (\<lambda>item. is_user_turn (hi_payload item) \<or> is_steer (hi_payload item) \<or>
                is_communication (hi_payload item) \<or> compaction_replaces (hi_payload item) \<noteq> None)
       (cm_items cm)"

definition active_history_items :: "context_manager \<Rightarrow> history_item list" where
  "active_history_items cm =
     (let replaced = compacted_history_item_ids (cm_items cm) in
      filter (\<lambda>item. hi_id item \<notin> set replaced) (cm_items cm))"

definition active_item_ids :: "context_manager \<Rightarrow> history_item_id list" where
  "active_item_ids cm = map hi_id (active_history_items cm)"

fun response_of :: "history_item_payload \<Rightarrow> response_id option" where
  "response_of (AssistantMessage r _) = Some r"
| "response_of (ToolCall _ r _ _ _) = Some r"
| "response_of _ = None"

fun find_map :: "('a \<Rightarrow> 'b option) \<Rightarrow> 'a list \<Rightarrow> 'b option" where
  "find_map f [] = None"
| "find_map f (x # xs) = (case f x of None \<Rightarrow> find_map f xs | Some y \<Rightarrow> Some y)"

definition latest_model_response_id :: "history_item list \<Rightarrow> response_id option" where
  "latest_model_response_id active = find_map (response_of \<circ> hi_payload) (rev active)"

definition model_messages ::
  "host_env \<Rightarrow> context_manager \<Rightarrow> bool \<Rightarrow> model_message list option" where
  "model_messages env cm supports_images =
     project_model_messages env (cm_items cm) supports_images (cm_continuations cm)"

definition model_messages_excluding ::
  "host_env \<Rightarrow> context_manager \<Rightarrow> history_item_id list \<Rightarrow> bool \<Rightarrow> model_message list option" where
  "model_messages_excluding env cm excluded supports_images =
     project_model_messages env (filter (\<lambda>item. hi_id item \<notin> set excluded) (cm_items cm))
       supports_images (cm_continuations cm)"

definition model_messages_for_items ::
  "host_env \<Rightarrow> context_manager \<Rightarrow> history_item_id list \<Rightarrow> bool \<Rightarrow> model_message list option" where
  "model_messages_for_items env cm item_ids supports_images =
     project_model_messages env (filter (\<lambda>item. hi_id item \<in> set item_ids) (cm_items cm))
       supports_images (cm_continuations cm)"

definition checkpoint_with_source_records ::
  "host_env \<Rightarrow> context_manager \<Rightarrow> ustr \<Rightarrow> history_item_id list \<Rightarrow> (ustr, checkpoint_error) result" where
  "checkpoint_with_source_records env cm body item_ids =
     checkpoint_with_history_reference env body
       (filter (\<lambda>item. hi_id item \<in> set item_ids) (cm_items cm))"

section \<open>What a compaction replaces\<close>

fun is_snapshot :: "history_item_payload \<Rightarrow> bool" where
  "is_snapshot (Compaction _ _ _ (Some _) _ _) = True"
| "is_snapshot _ = False"

fun is_triggering :: "history_item_payload \<Rightarrow> bool" where
  "is_triggering (InterAgentCommunication c) = iac_trigger_turn c"
| "is_triggering _ = False"

definition protected_source :: "response_id option \<Rightarrow> history_item_payload \<Rightarrow> bool" where
  "protected_source latest p \<longleftrightarrow>
     is_user_turn p \<or> is_steer p \<or> is_triggering p \<or>
     (response_of p \<noteq> None \<and> response_of p = latest) \<or> is_snapshot p"

definition unprotected_units :: "history_item_id list \<Rightarrow> history_item_id list list \<Rightarrow> history_item_id list list" where
  "unprotected_units protected units = filter (\<lambda>u. \<not> list_ex (\<lambda>i. i \<in> set protected) u) units"

definition model_compaction_source_item_ids :: "context_manager \<Rightarrow> history_item_id list" where
  "model_compaction_source_item_ids cm =
     (let active = active_history_items cm;
          latest_response = latest_model_response_id active;
          protected = map hi_id (filter (protected_source latest_response \<circ> hi_payload) active)
      in concat (unprotected_units protected (semantic_compaction_units (cm_items cm))))"

text \<open>The loop over the active items, newest first: the newest input of each kind, and snapshots.\<close>

record newest_inputs =
  newest_user :: "history_item_id option"
  newest_steer :: "history_item_id option"
  newest_agent_input :: "history_item_id option"
  ni_protected :: "history_item_id list"

definition protect_newest :: "newest_inputs \<Rightarrow> history_item \<Rightarrow> newest_inputs" where
  "protect_newest s item =
     (let p = hi_payload item in
      if is_user_turn p \<and> newest_user s = None
      then s\<lparr>newest_user := Some (hi_id item), ni_protected := hi_id item # ni_protected s\<rparr>
      else if is_steer p \<and> newest_steer s = None
      then s\<lparr>newest_steer := Some (hi_id item), ni_protected := hi_id item # ni_protected s\<rparr>
      else if is_triggering p \<and> newest_agent_input s = None
      then s\<lparr>newest_agent_input := Some (hi_id item), ni_protected := hi_id item # ni_protected s\<rparr>
      else if is_snapshot p then s\<lparr>ni_protected := hi_id item # ni_protected s\<rparr>
      else s)"

definition automatic_protected :: "context_manager \<Rightarrow> history_item_id list \<Rightarrow> history_item_id list" where
  "automatic_protected cm excluded =
     ni_protected (foldl protect_newest
       \<lparr>newest_user = None, newest_steer = None, newest_agent_input = None, ni_protected = excluded\<rparr>
       (rev (active_history_items cm)))"

definition automatic_compaction_units_excluding ::
  "context_manager \<Rightarrow> history_item_id list \<Rightarrow> history_item_id list list" where
  "automatic_compaction_units_excluding cm excluded =
     unprotected_units (automatic_protected cm excluded)
       (semantic_compaction_units_excluding (cm_items cm) excluded)"

definition compaction_source_messages_for_items ::
  "host_env \<Rightarrow> context_manager \<Rightarrow> history_item_id list \<Rightarrow> history_item_id list \<Rightarrow> bool \<Rightarrow>
   model_message list option" where
  "compaction_source_messages_for_items env cm item_ids excluded supports_images =
     project_model_messages env
       (filter (\<lambda>item. hi_id item \<notin> set excluded \<and>
          (hi_id item \<in> set item_ids \<or> is_user_turn (hi_payload item) \<or> is_steer (hi_payload item) \<or>
           is_triggering (hi_payload item) \<or> is_snapshot (hi_payload item))) (cm_items cm))
       supports_images (cm_continuations cm)"

text \<open>The user's words a compaction carries over.\<close>

definition non_blank :: "ustr \<Rightarrow> ustr list" where
  "non_blank s = (if trim s = [] then [] else [s])"

fun anchor_text :: "model_message \<Rightarrow> ustr option" where
  "anchor_text (MUser content) = Some content"
| "anchor_text (MAgent content) = Some content"
| "anchor_text (MUserParts parts) = Some (parts_text parts)"
| "anchor_text _ = None"

definition user_messages_of :: "history_item_payload \<Rightarrow> ustr list option" where
  "user_messages_of p =
     (case p of
        UserTurn content _ _ \<Rightarrow> Some (non_blank (content_text content))
      | SteerTurn _ content _ _ \<Rightarrow> Some (non_blank (content_text content))
      | InterAgentCommunication c \<Rightarrow>
          Some (if iac_trigger_turn c then non_blank (inter_agent_input_text c) else [])
      | Compaction _ _ _ (Some checkpoint) _ _ \<Rightarrow>
          (case clm_messages checkpoint of
             Inl _ \<Rightarrow> None
           | Inr ms \<Rightarrow> Some (List.map_filter anchor_text (take (clm_protected_prefix_len checkpoint) ms)))
      | Compaction _ layout0 preserved None _ _ \<Rightarrow>
          Some (if appends_checkpoint layout0 then preserved else [])
      | _ \<Rightarrow> Some [])"

fun first_seen :: "history_item_id list \<Rightarrow> history_item list \<Rightarrow> history_item list" where
  "first_seen seen [] = []"
| "first_seen seen (x # xs) =
     (if hi_id x \<in> set seen then first_seen seen xs else x # first_seen (hi_id x # seen) xs)"

fun concat_opt :: "('a \<Rightarrow> 'b list option) \<Rightarrow> 'a list \<Rightarrow> 'b list option" where
  "concat_opt f [] = Some []"
| "concat_opt f (x # xs) = do { y \<leftarrow> f x; ys \<leftarrow> concat_opt f xs; Some (y @ ys) }"

definition compaction_user_messages_for_items ::
  "context_manager \<Rightarrow> history_item_id list \<Rightarrow> ustr list option" where
  "compaction_user_messages_for_items cm item_ids =
     (let replaced = compacted_history_item_ids (cm_items cm) in
      concat_opt (user_messages_of \<circ> hi_payload)
        (first_seen [] (filter (\<lambda>item. hi_id item \<in> set item_ids \<and> hi_id item \<notin> set replaced)
                          (cm_items cm))))"

definition model_messages_after_compaction ::
  "host_env \<Rightarrow> context_manager \<Rightarrow> history_item_id \<Rightarrow> session_id \<Rightarrow> turn_id \<Rightarrow> ustr list \<Rightarrow> ustr \<Rightarrow>
   history_item_id list \<Rightarrow> history_item_id list \<Rightarrow> bool \<Rightarrow> model_message list option" where
  "model_messages_after_compaction env cm new_id session turn preserved summary replacement excluded
     supports_images =
     (let item = \<lparr>hi_id = new_id, hi_session_id = session, hi_scope = Turn turn,
                  hi_sequence_no = 2 ^ 63 - 1, hi_created_at_ms = 0,
                  hi_payload = Compaction Automatic UserAnchoredCheckpoint preserved None summary replacement\<rparr>
      in model_messages_excluding env
           (fst (ingest_committed_delta env cm [item] (cm_append_cursor cm))) excluded supports_images)"

section \<open>Tokens known from the provider\<close>

record provider_token_baseline =
  pb_response_id :: response_id
  pb_total_tokens :: nat
  pb_noncanonical_prepared_tokens :: nat
  pb_known_item_ids :: "history_item_id list"

record active_context_token_state =
  provider_baseline :: "provider_token_baseline option"

definition tool_call_names ::
  "host_env \<Rightarrow> history_item list \<Rightarrow> (tool_call_id, ustr \<times> ustr) hmap" where
  "tool_call_names env active =
     rev (List.map_filter (\<lambda>item. case hi_payload item of
            ToolCall call_id _ model_call_id tool_name _ \<Rightarrow>
              Some (call_id, replay_call_id env call_id model_call_id, tool_name)
          | _ \<Rightarrow> None) active)"

text \<open>The messages of one item: the outer option is a panic, the inner one the early \<open>return None\<close>.\<close>

definition local_message ::
  "host_env \<Rightarrow> provider_token_baseline \<Rightarrow> bool \<Rightarrow> (tool_call_id, ustr \<times> ustr) hmap \<Rightarrow>
   history_item \<Rightarrow> model_message list option option" where
  "local_message env baseline supports_images tool_calls item =
     (if hi_id item \<in> set (pb_known_item_ids baseline) then Some (Some [])
      else (case hi_payload item of
        UserTurn content _ _ \<Rightarrow> Some (Some [user_message_from_content content supports_images])
      | SteerTurn _ content _ _ \<Rightarrow> Some (Some [user_message_from_content content supports_images])
      | InterAgentCommunication c \<Rightarrow> Some (Some [inter_agent_input_message c])
      | AssistantMessage r _ \<Rightarrow> Some (if r = pb_response_id baseline then Some [] else None)
      | ToolCall _ r _ _ _ \<Rightarrow> Some (if r = pb_response_id baseline then Some [] else None)
      | Compaction _ _ _ _ _ _ \<Rightarrow> Some None
      | ToolOutput call_id status _ output_text metadata _ \<Rightarrow>
          (case hm_get tool_calls call_id of
             None \<Rightarrow> Some None
           | Some (model_call_id, tool_name) \<Rightarrow>
               map_option (\<lambda>r. Some [MTool model_call_id tool_name r metadata])
                 (model_visible_tool_output env tool_name status output_text metadata))
      | ErrorItem message \<Rightarrow>
          Some (Some [MAssistant (lit ''Previous run ended with an error: '' @ message)])
      | _ \<Rightarrow> Some (Some [])))"

fun local_messages ::
  "(history_item \<Rightarrow> model_message list option option) \<Rightarrow> history_item list \<Rightarrow>
   model_message list option option" where
  "local_messages f [] = Some (Some [])"
| "local_messages f (x # xs) =
     (case f x of
        None \<Rightarrow> None
      | Some None \<Rightarrow> Some None
      | Some (Some ms) \<Rightarrow> map_option (map_option ((@) ms)) (local_messages f xs))"

definition local_messages_after_provider_baseline ::
  "host_env \<Rightarrow> context_manager \<Rightarrow> provider_token_baseline \<Rightarrow> bool \<Rightarrow> model_message list option option" where
  "local_messages_after_provider_baseline env cm baseline supports_images =
     (let active = active_history_items cm in
      if latest_model_response_id active \<noteq> Some (pb_response_id baseline) then Some None
      else if \<not> list_all (\<lambda>i. i \<in> set (map hi_id active)) (pb_known_item_ids baseline) then Some None
      else local_messages (local_message env baseline supports_images (tool_call_names env active)) active)"

definition noncanonical_prepared_request_tokens ::
  "host_env \<Rightarrow> chat_request \<Rightarrow> model_message list \<Rightarrow> nat" where
  "noncanonical_prepared_request_tokens env request canonical_messages =
     active_context_tokens (for_request (env_print_json env) request 0) -
     estimate_model_messages_tokens canonical_messages"

definition status_for_request ::
  "host_env \<Rightarrow> active_context_token_state \<Rightarrow> context_manager \<Rightarrow> chat_request \<Rightarrow> bool \<Rightarrow> nat \<Rightarrow>
   context_window_token_status option" where
  "status_for_request env st cm request supports_images margin =
     (case provider_baseline st of
        None \<Rightarrow> Some (for_request (env_print_json env) request margin)
      | Some baseline \<Rightarrow>
          (case local_messages_after_provider_baseline env cm baseline supports_images of
             None \<Rightarrow> None
           | Some None \<Rightarrow> Some (for_request (env_print_json env) request margin)
           | Some (Some msgs) \<Rightarrow>
               do {
                 canonical \<leftarrow> model_messages env cm supports_images;
                 let current = noncanonical_prepared_request_tokens env request canonical;
                 Some (from_provider_usage (env_print_json env) request margin (pb_total_tokens baseline)
                         msgs (current - pb_noncanonical_prepared_tokens baseline))
               }))"

definition record_provider_response ::
  "host_env \<Rightarrow> response_id \<Rightarrow> nat option \<Rightarrow> chat_request \<Rightarrow> model_message list \<Rightarrow>
   history_item_id list \<Rightarrow> active_context_token_state" where
  "record_provider_response env r usage_total sent_request sent_canonical_messages known_item_ids =
     \<lparr>provider_baseline = map_option (\<lambda>n.
        \<lparr>pb_response_id = r, pb_total_tokens = n,
         pb_noncanonical_prepared_tokens =
           noncanonical_prepared_request_tokens env sent_request sent_canonical_messages,
         pb_known_item_ids = known_item_ids\<rparr>) usage_total\<rparr>"

definition reset_after_compaction :: "active_context_token_state \<Rightarrow> active_context_token_state" where
  "reset_after_compaction st = st\<lparr>provider_baseline := None\<rparr>"

end
