(* ===== verification/Projection_Pairs.thy ===== *)
theory Projection_Pairs
  imports Message_Projection
begin

text \<open>
  Tool exchanges in the projected messages: every output shown to the model follows the call it
  answers, and every call shown is answered. The proof goes through the placed messages (index,
  priority, message) and the stable sort that orders them; legacy snapshots bring exchanges of
  their own, which their validation guarantees.
\<close>

section \<open>Exchanges\<close>

definition out_key :: "model_message \<Rightarrow> (ustr \<times> ustr) option" where
  "out_key m = (case m of MTool i n _ _ \<Rightarrow> Some (i, n) | _ \<Rightarrow> None)"

definition call_keys :: "model_message \<Rightarrow> (ustr \<times> ustr) set" where
  "call_keys m = (case m of MAssistantToolCalls _ calls _ \<Rightarrow> set (map call_key calls) | _ \<Rightarrow> {})"

text \<open>At every split of the conversation: an output is preceded by its call, a call followed by its output.\<close>

definition exchanges :: "model_message list \<Rightarrow> bool" where
  "exchanges ms \<longleftrightarrow> (\<forall>xs m ys. ms = xs @ m # ys \<longrightarrow>
     (\<forall>k. out_key m = Some k \<longrightarrow> (\<exists>a \<in> set xs. k \<in> call_keys a)) \<and>
     (\<forall>k \<in> call_keys m. \<exists>t \<in> set ys. out_key t = Some k))"

lemma exchangesD:
  assumes "exchanges (xs @ m # ys)"
  shows "out_key m = Some k \<Longrightarrow> \<exists>a \<in> set xs. k \<in> call_keys a"
    and "k \<in> call_keys m \<Longrightarrow> \<exists>t \<in> set ys. out_key t = Some k"
  using assms unfolding exchanges_def by blast+

lemma exchanges_append:
  assumes "exchanges xs" and "exchanges ys"
  shows "exchanges (xs @ ys)"
  unfolding exchanges_def
proof (intro allI impI)
  fix as m bs assume eq: "xs @ ys = as @ m # bs"
  show "(\<forall>k. out_key m = Some k \<longrightarrow> (\<exists>a \<in> set as. k \<in> call_keys a)) \<and>
        (\<forall>k \<in> call_keys m. \<exists>t \<in> set bs. out_key t = Some k)"
  proof (cases "length as < length xs")
    case True
    then obtain cs where c: "xs = as @ m # cs" "bs = cs @ ys"
      using eq by (auto simp: append_eq_append_conv2 append_eq_Cons_conv)
    from exchangesD [OF assms(1) [unfolded c(1)]] show ?thesis unfolding c(2) set_append by blast
  next
    case False
    then obtain cs where c: "as = xs @ cs" "ys = cs @ m # bs"
      using eq by (auto simp: append_eq_append_conv2 append_eq_Cons_conv)
    from exchangesD [OF assms(2) [unfolded c(2)]] show ?thesis unfolding c(1) set_append by blast
  qed
qed

lemma exchanges_plain: "out_key m = None \<Longrightarrow> call_keys m = {} \<Longrightarrow> exchanges [m]"
  by (auto simp: exchanges_def Cons_eq_append_conv)

lemma exchanges_Nil [simp]: "exchanges []"
  by (simp add: exchanges_def)

lemma exchanges_group:
  assumes "list_all is_tool_message outs" and "set (map tool_key outs) = set (map call_key calls)"
  shows "exchanges (MAssistantToolCalls content calls cont # outs)"
  unfolding exchanges_def
proof (intro allI impI)
  fix as m bs assume eq: "MAssistantToolCalls content calls cont # outs = as @ m # bs"
  have tool: "out_key t = Some (tool_key t) \<and> call_keys t = {}" if "t \<in> set outs" for t
  proof -
    have "is_tool_message t" using that assms(1) by (simp add: list_all_iff)
    then show ?thesis by (cases t) (simp_all add: out_key_def call_keys_def)
  qed
  show "(\<forall>k. out_key m = Some k \<longrightarrow> (\<exists>a \<in> set as. k \<in> call_keys a)) \<and>
        (\<forall>k \<in> call_keys m. \<exists>t \<in> set bs. out_key t = Some k)"
  proof (cases as)
    case Nil
    then have "m = MAssistantToolCalls content calls cont" "bs = outs" using eq by auto
    moreover have "\<exists>t \<in> set outs. out_key t = Some k" if "k \<in> set (map call_key calls)" for k
      using that assms(2) tool by (metis (no_types, lifting) image_iff list.set_map)
    ultimately show ?thesis by (simp add: out_key_def call_keys_def)
  next
    case (Cons a as')
    then have "a = MAssistantToolCalls content calls cont" "m \<in> set outs" using eq by auto
    then show ?thesis using tool [of m] assms(2) Cons by (auto simp: call_keys_def)
  qed
qed

lemma settled_exchanges: "settled ms \<Longrightarrow> exchanges ms"
proof (induction rule: settled.induct)
  case (settled_plain m ms)
  have "exchanges [m]"
    using settled_plain.hyps(1) by (cases m) (simp_all add: exchanges_plain out_key_def call_keys_def)
  from exchanges_append [OF this settled_plain.IH] show ?case by simp
next
  case (settled_group calls outs ms content continuation)
  have "set (map tool_key outs) = set (map call_key calls)"
    using settled_group.hyps(3) by (metis set_mset_mset)
  from exchanges_append [OF exchanges_group [OF settled_group.hyps(2) this] settled_group.IH]
  show ?case by simp
qed simp

section \<open>Legacy snapshots\<close>

lemma validate_set_metadata:
  "validate_messages pending (ms[i := set_metadata v (ms ! i)]) = validate_messages pending ms"
proof (induction pending ms arbitrary: i rule: validate_messages.induct)
  case (2 pending m ms)
  show ?case
  proof (cases i)
    case 0
    then show ?thesis by (cases m) simp_all
  next
    case (Suc j)
    then show ?thesis using 2 by (cases m) (auto simp: and_then_def split: sum.split)
  qed
qed simp

lemma validate_restored:
  "validate_messages pending (foldl restore_metadata ms md) = validate_messages pending ms"
  by (induction md arbitrary: ms)
    (auto simp: restore_metadata_def validate_set_metadata)

lemma clm_messages_settled: "clm_messages c = Ok ms \<Longrightarrow> settled ms"
proof -
  assume "clm_messages c = Ok ms"
  then have "clm_validate c = Ok ()" and ms: "ms = foldl restore_metadata (clm_msgs c) (clm_tool_metadata c)"
    by (auto simp: clm_messages_def and_then_Ok_iff)
  then have "validate_messages [] (clm_msgs c) = Ok ()"
    using validate_iff validate_messages_iff [of "[]"] by simp
  then have "validate_messages [] ms = Ok ()" by (simp add: ms validate_restored)
  then show ?thesis using validate_messages_iff [of "[]"] by simp
qed

section \<open>Placed messages\<close>

text \<open>The exchanges of placed messages, by key instead of position.\<close>

definition answers_placed :: "placed set \<Rightarrow> placed \<Rightarrow> bool" where
  "answers_placed P t \<longleftrightarrow> (\<forall>k. out_key (placed_message t) = Some k \<longrightarrow>
     (\<exists>a \<in> P. placed_key a < placed_key t \<and> k \<in> call_keys (placed_message a)))"

definition answered_placed :: "placed set \<Rightarrow> placed \<Rightarrow> bool" where
  "answered_placed P a \<longleftrightarrow> (\<forall>k \<in> call_keys (placed_message a).
     \<exists>t \<in> P. placed_key a < placed_key t \<and> out_key (placed_message t) = Some k)"

lemma placed_mono:
  "P \<subseteq> Q \<Longrightarrow> answers_placed P t \<Longrightarrow> answers_placed Q t"
  "P \<subseteq> Q \<Longrightarrow> answered_placed P t \<Longrightarrow> answered_placed Q t"
  unfolding answers_placed_def answered_placed_def by blast+

lemma sorted_split:
  assumes "sort_key f ps = as @ t # bs" and "a \<in> set ps"
  shows "f a < (f t :: 'k :: linorder) \<Longrightarrow> a \<in> set as" and "f t < f a \<Longrightarrow> a \<in> set bs"
proof -
  have "a \<in> set (as @ t # bs)" using assms by (metis set_sort)
  moreover have "sorted (map f (as @ t # bs))" using assms(1) by (metis sorted_sort_key)
  ultimately show "f a < f t \<Longrightarrow> a \<in> set as" "f t < f a \<Longrightarrow> a \<in> set bs"
    by (auto simp: sorted_append)
qed

lemma exchanges_sorted:
  assumes "\<forall>t \<in> set ps. answers_placed (set ps) t \<and> answered_placed (set ps) t"
  shows "exchanges (map placed_message (sort_key placed_key ps))"
  unfolding exchanges_def
proof (intro allI impI)
  fix xs m ys assume "map placed_message (sort_key placed_key ps) = xs @ m # ys"
  then obtain as t bs where sp: "sort_key placed_key ps = as @ t # bs"
    and eq: "xs = map placed_message as" "m = placed_message t" "ys = map placed_message bs"
    by (auto simp: map_eq_append_conv)
  have "t \<in> set ps" using sp by (metis in_set_conv_decomp set_sort)
  then have "answers_placed (set ps) t" "answered_placed (set ps) t" using assms by auto
  then show "(\<forall>k. out_key m = Some k \<longrightarrow> (\<exists>a \<in> set xs. k \<in> call_keys a)) \<and>
             (\<forall>k \<in> call_keys m. \<exists>t \<in> set ys. out_key t = Some k)"
    unfolding answers_placed_def answered_placed_def eq using sorted_split [OF sp]
    by (metis (no_types, lifting) image_eqI list.set_map)
qed

lemma without_images_keys [simp]:
  "out_key (without_images b m) = out_key m" "call_keys (without_images b m) = call_keys m"
  by (cases m; simp add: without_images_def out_key_def call_keys_def)+

lemma place_all_exchanges:
  assumes "exchanges ms" and "t \<in> set (place_all i (map (without_images b) ms))"
  shows "answers_placed (set (place_all i (map (without_images b) ms))) t \<and>
         answered_placed (set (place_all i (map (without_images b) ms))) t"
proof -
  let ?P = "set (place_all i (map (without_images b) ms))"
  have P: "?P = {(i, q, without_images b (ms ! q)) |q. q < length ms}"
    by (auto simp: place_all_def in_set_enumerate_eq image_iff)
  from assms(2) obtain q where q: "t = (i, q, without_images b (ms ! q))" "q < length ms"
    unfolding P by blast
  have "exchanges (take q ms @ ms ! q # drop (Suc q) ms)"
    using assms(1) id_take_nth_drop [OF q(2)] by metis
  note D = exchangesD [OF this]
  have before: "\<exists>p < q. p < length ms \<and> ms ! p = a" if "a \<in> set (take q ms)" for a
    using that q(2) by (auto simp: in_set_conv_nth)
  have after: "\<exists>p > q. p < length ms \<and> ms ! p = a" if "a \<in> set (drop (Suc q) ms)" for a
  proof -
    from that obtain l where "l < length (drop (Suc q) ms)" "drop (Suc q) ms ! l = a"
      by (auto simp: in_set_conv_nth)
    then show ?thesis by (intro exI [of _ "Suc q + l"]) auto
  qed
  show ?thesis
    unfolding answers_placed_def answered_placed_def P q(1) placed_message_def placed_key_def
    using D before after by (fastforce simp: less_prod_def)
qed

section \<open>The rows of the responses\<close>

fun call_row_entry ::
  "host_env \<Rightarrow> history_item_id list \<Rightarrow> tool_call_id list \<Rightarrow> indexed \<Rightarrow> (response_id \<times> call_row) option" where
  "call_row_entry env reps outs (index, item) =
     (if hi_id item \<in> set reps then None
      else case hi_payload item of
        ToolCall c r mid n args \<Rightarrow>
          if c \<in> set outs then Some (r, index, c, replay_call_id env c mid, n, args) else None
      | _ \<Rightarrow> None)"

lemma scan_calls:
  "calls_by_response (foldl (scan_response env reps outs) s es) =
     push_all (call_row_entry env reps outs) es (calls_by_response s)"
proof (induction es arbitrary: s)
  case (Cons e es)
  obtain i it where e: "e = (i, it)" by (cases e)
  show ?case using Cons [of "scan_response env reps outs s e"]
    by (cases "hi_payload it") (simp_all add: e scan_response_def push_all_def)
qed (simp add: push_all_def)

lemma note_index_get:
  "\<exists>f' \<le> i. hm_get (note_index r i m) r = Some f'"
  "hm_get m r' = Some f \<Longrightarrow> \<exists>f' \<le> f. hm_get (note_index r i m) r' = Some f'"
  by (auto simp: note_index_def split: option.split)

lemma first_index_step:
  "hm_get (response_first_index s) r = Some f \<Longrightarrow>
     \<exists>f' \<le> f. hm_get (response_first_index (scan_response env reps outs s e)) r = Some f'"
  by (cases e)
    (auto simp: scan_response_def note_index_get(2) split: history_item_payload.split)

lemma first_index_mono:
  "hm_get (response_first_index s) r = Some f \<Longrightarrow>
     \<exists>f' \<le> f. hm_get (response_first_index (foldl (scan_response env reps outs) s es)) r = Some f'"
proof (induction es arbitrary: s f)
  case (Cons e es)
  from first_index_step [OF Cons.prems] obtain f1 where
    "f1 \<le> f" "hm_get (response_first_index (scan_response env reps outs s e)) r = Some f1" by blast
  with Cons.IH [OF this(2)] show ?case by (auto intro: order_trans)
qed auto

lemma first_index_call:
  "e \<in> set es \<Longrightarrow> call_row_entry env reps outs e = Some (r, i, rest) \<Longrightarrow>
     \<exists>f \<le> i. hm_get (response_first_index (foldl (scan_response env reps outs) s es)) r = Some f"
proof (induction es arbitrary: s)
  case (Cons e' es)
  show ?case
  proof (cases "e = e'")
    case True
    have "\<exists>f \<le> i. hm_get (response_first_index (scan_response env reps outs s e')) r = Some f"
      using Cons.prems(2) True
      by (cases e')
        (auto simp: scan_response_def note_index_get(1) split: history_item_payload.splits if_splits)
    then obtain f where "f \<le> i" "hm_get (response_first_index (scan_response env reps outs s e')) r = Some f"
      by blast
    with first_index_mono [OF this(2), of env reps outs es] show ?thesis by (auto intro: order_trans)
  next
    case False
    then show ?thesis using Cons by simp
  qed
qed simp

lemma fold_insert_get:
  "hm_get (foldl (\<lambda>m (k, v). hm_insert k v m) m L) k =
     (case map_of (rev L) k of None \<Rightarrow> hm_get m k | Some v \<Rightarrow> Some v)"
  by (induction L arbitrary: m) (auto simp: map_add_def split: option.split)

text \<open>All rows of a history's projection, and what the maps hold of them.\<close>

definition call_rows :: "host_env \<Rightarrow> history_item list \<Rightarrow> (response_id \<times> call_row) set" where
  "call_rows env items =
     (let reps = compacted_history_item_ids items;
          outs = List.map_filter (active_output reps) items
      in {(r, row). \<exists>e \<in> set (List.enumerate 0 items). call_row_entry env reps outs e = Some (r, row)})"

lemma calls_by_response_entry:
  "(r, calls) \<in> set (calls_by_response (projection_of env items)) \<longleftrightarrow>
     calls \<noteq> [] \<and> calls = values_at (call_row_entry env (compacted_history_item_ids items)
       (List.map_filter (active_output (compacted_history_item_ids items)) items)) r (List.enumerate 0 items)"
proof -
  let ?f = "call_row_entry env (compacted_history_item_ids items)
       (List.map_filter (active_output (compacted_history_item_ids items)) items)"
  have eq: "calls_by_response (projection_of env items) = push_all ?f (List.enumerate 0 items) []"
    by (simp add: projection_of_def Let_def scan_calls)
  have "distinct (hm_keys (push_all ?f (List.enumerate 0 items) []))" by (rule distinct_push_all) simp
  then have "(r, calls) \<in> set (push_all ?f (List.enumerate 0 items) []) \<longleftrightarrow>
      hm_get (push_all ?f (List.enumerate 0 items) []) r = Some calls"
    by (metis map_of_SomeD map_of_is_SomeI)
  then show ?thesis unfolding eq by (auto simp: hm_get_push_all)
qed

lemma calls_rows:
  "(r, calls) \<in> set (calls_by_response (projection_of env items)) \<Longrightarrow>
     row \<in> set calls \<longleftrightarrow> (r, row) \<in> call_rows env items"
  by (auto simp: calls_by_response_entry set_values_at call_rows_def Let_def)

lemma row_calls:
  "(r, row) \<in> call_rows env items \<Longrightarrow>
     \<exists>calls. (r, calls) \<in> set (calls_by_response (projection_of env items)) \<and> row \<in> set calls"
proof -
  let ?f = "call_row_entry env (compacted_history_item_ids items)
       (List.map_filter (active_output (compacted_history_item_ids items)) items)"
  let ?c = "values_at ?f r (List.enumerate 0 items)"
  assume "(r, row) \<in> call_rows env items"
  then have "row \<in> set ?c" unfolding set_values_at by (auto simp: call_rows_def Let_def)
  then show ?thesis unfolding calls_by_response_entry by (metis empty_iff list.set(1))
qed

lemma row_first_index:
  "(r, i, rest) \<in> call_rows env items \<Longrightarrow>
     \<exists>f \<le> i. hm_get (response_first_index (projection_of env items)) r = Some f"
  unfolding call_rows_def projection_of_def Let_def using first_index_call by blast

lemma names_rows:
  "hm_get (tool_names_by_call env (projection_of env items)) k = Some (rid, n) \<Longrightarrow>
     \<exists>r i c args. (r, i, c, rid, n, args) \<in> call_rows env items \<and> k = env_id_str env c"
proof -
  let ?s = "projection_of env items"
  assume "hm_get (tool_names_by_call env ?s) k = Some (rid, n)"
  then have "(k, rid, n) \<in> set (concat (map (response_tool_names env ?s) (calls_by_response ?s)))"
    by (auto simp: tool_names_by_call_def fold_insert_get dest!: map_of_SomeD split: option.splits)
  then obtain r calls where rc: "(r, calls) \<in> set (calls_by_response ?s)"
    and m: "(k, rid, n) \<in> set (response_tool_names env ?s (r, calls))" by auto
  from m obtain i c args where "(i, c, rid, n, args) \<in> set calls" "k = env_id_str env c"
    by (auto simp: response_tool_names_def split: option.splits)
  then show ?thesis using calls_rows [OF rc] by blast
qed

lemma rows_names:
  assumes "(r, i, c, rid, n, args) \<in> call_rows env items"
  shows "\<exists>v. hm_get (tool_names_by_call env (projection_of env items)) (env_id_str env c) = Some v"
proof -
  let ?s = "projection_of env items"
  let ?L = "concat (map (response_tool_names env ?s) (calls_by_response ?s))"
  from row_calls [OF assms] obtain calls where
    rc: "(r, calls) \<in> set (calls_by_response ?s)" "(i, c, rid, n, args) \<in> set calls" by blast
  obtain f where "hm_get (response_first_index ?s) r = Some f" using row_first_index [OF assms] by blast
  then have "(env_id_str env c, rid, n) \<in> set (response_tool_names env ?s (r, calls))"
    using rc(2) by (force simp: response_tool_names_def)
  then have "env_id_str env c \<in> fst ` set ?L" using rc(1) by force
  then have "map_of (rev ?L) (env_id_str env c) \<noteq> None" unfolding map_of_eq_None_iff by simp
  then show ?thesis by (auto simp: tool_names_by_call_def fold_insert_get)
qed

lemma response_message_keys:
  assumes "(r, calls) \<in> set (calls_by_response (projection_of env items))"
    and "response_message s cc (r, calls) = Some p"
  shows "call_keys (placed_message p) = {(rid, n). \<exists>i c args. (r, i, c, rid, n, args) \<in> call_rows env items} \<and>
    out_key (placed_message p) = None \<and> placed_key p = (fst p, 1) \<and>
    hm_get (response_first_index s) r = Some (fst p)"
proof -
  from assms(2) obtain f ct where
    p: "p = (f, 1, MAssistantToolCalls ct (map tool_call_of_row (sort_key fst calls)) (hm_get cc r))"
    "hm_get (response_first_index s) r = Some f" by (auto simp: response_message_def)
  have "call_key (tool_call_of_row row) = (case row of (_, _, rid, n, _) \<Rightarrow> (rid, n))" for row
    by (cases row) (simp add: tool_call_of_row_def call_key_def)
  then have "call_keys (placed_message p) = (\<lambda>(_, _, rid, n, _). (rid, n)) ` set calls"
    by (simp add: p placed_message_def call_keys_def image_image)
  also have "\<dots> = {(rid, n). \<exists>i c args. (r, i, c, rid, n, args) \<in> call_rows env items}"
    using calls_rows [OF assms(1)] by force
  finally show ?thesis using p by (simp add: placed_message_def out_key_def placed_key_def)
qed

section \<open>Histories with ordered exchanges\<close>

text \<open>Call identities are unique, and an output is recorded after its call.\<close>

definition calls_precede_outputs :: "history_item list \<Rightarrow> bool" where
  "calls_precede_outputs items =
     (let act = active_indexed items [] in
      distinct (map fst (List.map_filter call_entry act)) \<and>
      list_all (\<lambda>o1. case output_call o1 of
                  None \<Rightarrow> True
                | Some c \<Rightarrow> list_all (\<lambda>e. case call_entry e of
                                             None \<Rightarrow> True | Some (c', _) \<Rightarrow> c' \<noteq> c \<or> fst e < fst o1) act) act)"

lemma unique_call:
  assumes "distinct (map fst (List.map_filter call_entry act))"
    and "e \<in> set act" "e' \<in> set act" "call_entry e = Some (c, r)" "call_entry e' = Some (c, r')"
  shows "e = e'"
  using assms
proof (induction act)
  case (Cons x act)
  have "c \<in> fst ` set (List.map_filter call_entry act)" if "y \<in> set act" "call_entry y = Some (c, q)" for y q
    using that unfolding set_map_filter_iff by force
  note mem = this
  have head: "c \<notin> fst ` set (List.map_filter call_entry act)" if "call_entry x = Some (c, q)" for q
    using Cons.prems(1) that by (simp add: map_filter_simps)
  have "distinct (map fst (List.map_filter call_entry act))"
    using Cons.prems(1) by (simp add: map_filter_simps split: option.splits)
  note IH = Cons.IH [OF this _ _ Cons.prems(4,5)]
  show ?case
  proof (cases "e \<in> set act"; cases "e' \<in> set act")
    assume "e \<in> set act" "e' \<in> set act"
    then show ?thesis by (rule IH)
  next
    assume "e \<in> set act" "e' \<notin> set act"
    then show ?thesis using Cons.prems(3,5) head mem [OF _ Cons.prems(4)] by (metis set_ConsD)
  next
    assume "e \<notin> set act" "e' \<in> set act"
    then show ?thesis using Cons.prems(2,4) head mem [OF _ Cons.prems(5)] by (metis set_ConsD)
  next
    assume "e \<notin> set act" "e' \<notin> set act"
    then show ?thesis using Cons.prems(2,3) by simp
  qed
qed simp

lemma active_iff:
  "(i, it) \<in> set (active_indexed items []) \<longleftrightarrow>
     (i, it) \<in> set (List.enumerate 0 items) \<and> hi_id it \<notin> set (compacted_history_item_ids items)"
  by (auto simp: active_indexed_def Let_def)

lemma output_active:
  assumes "c \<in> set (List.map_filter (active_output (compacted_history_item_ids items)) items)"
  shows "\<exists>k it. (k, it) \<in> set (active_indexed items []) \<and> output_call (k, it) = Some c"
proof -
  from assms obtain it where "it \<in> set items" "active_output (compacted_history_item_ids items) it = Some c"
    unfolding set_map_filter_iff by blast
  moreover from this(1) obtain k where "k < length items" "items ! k = it"
    by (auto simp: in_set_conv_nth)
  then have "(k, it) \<in> set (List.enumerate 0 items)" by (auto simp: in_set_enumerate_eq)
  ultimately show ?thesis
    by (auto simp: active_iff split: if_splits history_item_payload.splits intro!: exI [of _ k] exI [of _ it])
qed

lemma row_active:
  assumes "(r, i, c, rid, n, args) \<in> call_rows env items"
  shows "\<exists>it mid. (i, it) \<in> set (active_indexed items []) \<and> hi_payload it = ToolCall c r mid n args \<and>
    rid = replay_call_id env c mid \<and>
    c \<in> set (List.map_filter (active_output (compacted_history_item_ids items)) items)"
  using assms
  by (auto simp: call_rows_def Let_def active_iff split: if_splits history_item_payload.splits)

lemma row_before_output:
  assumes "calls_precede_outputs items" and "(r, i, c, rid, n, args) \<in> call_rows env items"
    and "(k, ot) \<in> set (active_indexed items [])" and "output_call (k, ot) = Some c"
  shows "i < k"
proof -
  from row_active [OF assms(2)] obtain it mid where
    "(i, it) \<in> set (active_indexed items [])" "hi_payload it = ToolCall c r mid n args" by blast
  then show ?thesis using assms(1,3,4)
    by (fastforce simp: calls_precede_outputs_def Let_def list_all_iff)
qed

lemma row_unique:
  assumes "calls_precede_outputs items" and "(r, i, c, rid, n, args) \<in> call_rows env items"
    and "(r', i', c, rid', n', args') \<in> call_rows env items"
  shows "rid' = rid \<and> n' = n"
proof -
  from row_active [OF assms(2)] obtain it mid where
    a: "(i, it) \<in> set (active_indexed items [])" "hi_payload it = ToolCall c r mid n args"
       "rid = replay_call_id env c mid" by blast
  from row_active [OF assms(3)] obtain it' mid' where
    b: "(i', it') \<in> set (active_indexed items [])" "hi_payload it' = ToolCall c r' mid' n' args'"
       "rid' = replay_call_id env c mid'" by blast
  have "(i, it) = (i', it')"
    using unique_call [OF _ a(1) b(1), of c r r'] assms(1) a(2) b(2)
    by (simp add: calls_precede_outputs_def Let_def)
  then show ?thesis using a b by simp
qed

section \<open>The placed messages of a history\<close>

lemma project_items_spec:
  "project_items f es = Some ps \<Longrightarrow>
     (\<forall>p \<in> set ps. \<exists>e \<in> set es. \<exists>qs. f e = Some qs \<and> p \<in> set qs) \<and>
     (\<forall>e \<in> set es. \<exists>qs. f e = Some qs \<and> set qs \<subseteq> set ps)"
  by (induction es arbitrary: ps) (auto simp: bind_eq_Some_conv, blast+)

lemma project_items_total: "\<forall>e \<in> set es. f e \<noteq> None \<Longrightarrow> \<exists>ps. project_items f es = Some ps"
  by (induction es) (auto simp: bind_eq_Some_conv)

definition valid_snapshots :: "history_item list \<Rightarrow> bool" where
  "valid_snapshots items = list_all (\<lambda>it. is_ok (validate_compaction_checkpoint (hi_payload it))) items"

lemma validated_messages:
  "is_ok (validate_checkpoint ClmCheckpointLayout clm preserved) \<Longrightarrow>
     \<exists>c ms. clm = Some c \<and> clm_messages c = Ok ms \<and> settled ms"
proof -
  assume ok: "is_ok (validate_checkpoint ClmCheckpointLayout clm preserved)"
  then obtain c where c: "clm = Some c" "clm_validate c = Ok ()"
    by (cases clm) (auto simp: validate_checkpoint_def split: sum.splits if_splits)
  then obtain ms where "clm_messages c = Ok ms" by (simp add: clm_messages_def)
  with c(1) clm_messages_settled [OF this] show ?thesis by blast
qed

lemma project_item_total:
  assumes "quotes_empty env" and "valid_snapshots items" and "e \<in> set (List.enumerate 0 items)"
  shows "project_item env b reps idx s names e \<noteq> None"
proof -
  obtain i it where e: "e = (i, it)" by (cases e)
  have "it \<in> set items" using assms(3) e by (auto simp: in_set_enumerate_eq)
  then have ok: "is_ok (validate_compaction_checkpoint (hi_payload it))"
    using assms(2) by (simp add: valid_snapshots_def list_all_iff)
  have vis: "\<exists>t. model_visible_tool_output env n st out md = Some t" for n st out md
    using tool_projection_total [OF assms(1)] by auto
  show ?thesis
  proof (cases "hi_payload it")
    case (Compaction m l preserved clm summary ids)
    then show ?thesis using ok validated_messages [of clm preserved]
      by (auto simp: e project_item_def)
  qed (auto simp: e project_item_def vis split: option.split)
qed

definition no_exchange :: "model_message \<Rightarrow> bool" where
  "no_exchange m \<longleftrightarrow> out_key m = None \<and> call_keys m = {}"

lemma no_exchange_simps [simp]:
  "no_exchange (MUser x)" "no_exchange (MAssistant x)" "no_exchange (MAgent x)"
  "no_exchange (MUserParts ps)" "no_exchange (user_message_from_content content b)"
  "no_exchange (inter_agent_input_message c)" "no_exchange (semantic_compaction_message env x)"
  by (simp_all add: no_exchange_def out_key_def call_keys_def user_message_from_content_def
      inter_agent_input_message_def semantic_compaction_message_def Let_def)

lemma place_users: "p \<in> set (place_all i (map MUser xs)) \<Longrightarrow> no_exchange (placed_message p)"
  by (auto simp: place_all_def in_set_enumerate_eq placed_message_def)

lemma project_item_cases:
  assumes "project_item env b reps idx s names (k, it) = Some qs" and "p \<in> set qs"
  shows "no_exchange (placed_message p) \<or>
    (\<exists>c rid n. hi_id it \<notin> set reps \<and> output_call (k, it) = Some c \<and>
       hm_get names (env_id_str env c) = Some (rid, n) \<and> out_key (placed_message p) = Some (rid, n) \<and>
       call_keys (placed_message p) = {} \<and> placed_key p = (k, 1)) \<or>
    (\<exists>ms i. settled ms \<and> qs = place_all i (map (without_images b) ms))"
proof (cases "hi_payload it")
  case (ToolOutput c st title out md ok)
  then show ?thesis using assms
    by (auto simp: project_item_def placed_message_def placed_key_def out_key_def call_keys_def
        split: option.splits if_splits)
next
  case (Compaction m l preserved clm summary ids)
  then show ?thesis using assms place_users [of p k preserved]
    by (auto simp: project_item_def placed_message_def dest: clm_messages_settled
        split: option.splits if_splits sum.splits)
qed (use assms in \<open>auto simp: project_item_def placed_message_def split: if_splits\<close>)

lemma output_placed:
  assumes "project_item env b reps idx s names (k, it) = Some qs" and "hi_id it \<notin> set reps"
    and "output_call (k, it) = Some c" and "hm_get names (env_id_str env c) = Some (rid, n)"
  shows "\<exists>t \<in> set qs. out_key (placed_message t) = Some (rid, n) \<and> placed_key t = (k, 1)"
  using assms
  by (auto simp: project_item_def placed_message_def placed_key_def out_key_def
      split: history_item_payload.splits)

lemma placed_exchanges:
  assumes "calls_precede_outputs items" and "inj (env_id_str env)"
    and "placed_messages env items b cc = Some ps" and "p \<in> set ps"
  shows "answers_placed (set ps) p \<and> answered_placed (set ps) p"
proof -
  let ?s = "projection_of env items" and ?reps = "compacted_history_item_ids items"
  let ?names = "tool_names_by_call env ?s"
  let ?f = "project_item env b ?reps (index_by_id items) ?s ?names"
  obtain qs where qs: "project_items ?f (List.enumerate 0 items) = Some qs"
    and ps: "ps = List.map_filter (response_message ?s cc) (calls_by_response ?s) @ qs"
    using assms(3) by (auto simp: placed_messages_def Let_def)
  note items = project_items_spec [OF qs]
  have active: "(k, it) \<in> set (active_indexed items [])"
    if "(k, it) \<in> set (List.enumerate 0 items)" "hi_id it \<notin> set ?reps" for k it
    using that by (simp add: active_iff)
  have call_of: "\<exists>a \<in> set ps. placed_key a < (k, 1) \<and> (rid, n) \<in> call_keys (placed_message a)"
    if row: "(r, i, c, rid, n, args) \<in> call_rows env items" and "i < k" for r i c rid n args k
  proof -
    from row_calls [OF row] obtain calls where rc: "(r, calls) \<in> set (calls_by_response ?s)" by blast
    from row_first_index [OF row] obtain f where f: "f \<le> i" "hm_get (response_first_index ?s) r = Some f" by blast
    then obtain a where a: "response_message ?s cc (r, calls) = Some a" by (simp add: response_message_def)
    then have "a \<in> set ps" using rc unfolding ps set_append set_map_filter_iff by blast
    moreover have "(rid, n) \<in> call_keys (placed_message a)" "placed_key a = (f, 1)"
      using response_message_keys [OF rc a] row f(2) by auto
    ultimately show ?thesis using f(1) that(2) by (intro bexI [of _ a]) (auto simp: less_prod_def)
  qed
  have "p \<in> set (List.map_filter (response_message ?s cc) (calls_by_response ?s)) \<or> p \<in> set qs"
    using assms(4) unfolding ps by simp
  then show ?thesis
  proof
    assume "p \<in> set (List.map_filter (response_message ?s cc) (calls_by_response ?s))"
    then obtain r calls where rc: "(r, calls) \<in> set (calls_by_response ?s)"
      and p: "response_message ?s cc (r, calls) = Some p" unfolding set_map_filter_iff by auto
    note keys = response_message_keys [OF rc p]
    have "\<exists>t \<in> set ps. placed_key p < placed_key t \<and> out_key (placed_message t) = Some (rid, n)"
      if "(rid, n) \<in> call_keys (placed_message p)" for rid n
    proof -
      from that keys obtain i c args where row: "(r, i, c, rid, n, args) \<in> call_rows env items" by blast
      from row_active [OF row] output_active obtain k ot where
        ot: "(k, ot) \<in> set (active_indexed items [])" "output_call (k, ot) = Some c" by blast
      from row_before_output [OF assms(1) row ot] have "i < k" .
      from rows_names [OF row] obtain v where v: "hm_get ?names (env_id_str env c) = Some v" by blast
      from names_rows [of env items "env_id_str env c"] v obtain r' i' c' args' where
        "(r', i', c', fst v, snd v, args') \<in> call_rows env items" "env_id_str env c = env_id_str env c'"
        by (metis prod.collapse)
      then have "v = (rid, n)"
        using row_unique [OF assms(1) row] injD [OF assms(2)] by (metis prod.collapse)
      moreover have e: "(k, ot) \<in> set (List.enumerate 0 items)" "hi_id ot \<notin> set ?reps"
        using ot(1) by (simp_all add: active_iff)
      moreover from items e(1) obtain xs where "?f (k, ot) = Some xs" "set xs \<subseteq> set qs" by blast
      ultimately obtain t where "t \<in> set qs" "out_key (placed_message t) = Some (rid, n)" "placed_key t = (k, 1)"
        using output_placed [of env b ?reps "index_by_id items" ?s ?names k ot xs c rid n] ot(2) v by blast
      moreover obtain f where "f \<le> i" "hm_get (response_first_index ?s) r = Some f"
        using row_first_index [OF row] by blast
      ultimately show ?thesis using keys \<open>i < k\<close> unfolding ps
        by (intro bexI [of _ t]) (auto simp: less_prod_def)
    qed
    then show ?thesis using keys unfolding answers_placed_def answered_placed_def by auto
  next
    assume pq: "p \<in> set qs"
    with items obtain k it xs where e: "(k, it) \<in> set (List.enumerate 0 items)"
      and xs: "?f (k, it) = Some xs" "p \<in> set xs" by (metis surj_pair)
    from items e xs(1) have sub: "set xs \<subseteq> set ps" unfolding ps by fastforce
    from project_item_cases [OF xs] consider "no_exchange (placed_message p)"
      | (out) c rid n where "hi_id it \<notin> set ?reps" "output_call (k, it) = Some c"
          "hm_get ?names (env_id_str env c) = Some (rid, n)" "out_key (placed_message p) = Some (rid, n)"
          "call_keys (placed_message p) = {}" "placed_key p = (k, 1)"
      | (snap) ms i where "settled ms" "xs = place_all i (map (without_images b) ms)" by blast
    then show ?thesis
    proof cases
      case 1
      then show ?thesis by (simp add: no_exchange_def answers_placed_def answered_placed_def)
    next
      case out
      from names_rows [OF out(3)] obtain r i c' args where
        row: "(r, i, c', rid, n, args) \<in> call_rows env items" and "env_id_str env c = env_id_str env c'" by blast
      then have "c' = c" using injD [OF assms(2)] by metis
      with row have row: "(r, i, c, rid, n, args) \<in> call_rows env items" by simp
      from row_before_output [OF assms(1) row active [OF e out(1)] out(2)] have "i < k" .
      from call_of [OF row this] show ?thesis
        using out by (auto simp: answers_placed_def answered_placed_def)
    next
      case snap
      from place_all_exchanges [OF settled_exchanges [OF snap(1)]] xs(2) snap(2)
      have "answers_placed (set xs) p \<and> answered_placed (set xs) p" by simp
      then show ?thesis using placed_mono [OF sub] by blast
    qed
  qed
qed

section \<open>Properties\<close>

text \<open>
  C21. The messages projected for the model are always produced and form complete tool exchanges:
  wherever a tool output stands, the assistant message with its call stands before it, and every
  call shown is followed by its output (calls without an output are not shown). This covers
  parallel calls of one response, compacted histories and legacy snapshots. It holds for histories
  whose call identities are unique and whose outputs are recorded after their calls, with validated
  snapshots, for a host that quotes the empty string in two bytes and writes identities uniquely.
\<close>

theorem projected_tool_exchanges_are_complete:
  assumes "calls_precede_outputs items" and "valid_snapshots items"
    and "quotes_empty env" and "inj (env_id_str env)"
  shows "\<exists>ms. project_model_messages env items supports_images continuations = Some ms \<and> exchanges ms"
proof -
  let ?s = "projection_of env items"
  have "\<exists>ps. placed_messages env items supports_images continuations = Some ps"
    unfolding placed_messages_def Let_def
    using project_items_total [of "List.enumerate 0 items"] project_item_total [OF assms(3,2)] by simp
  then obtain ps where ps: "placed_messages env items supports_images continuations = Some ps" by blast
  have "exchanges (map placed_message (sort_key placed_key ps))"
    by (rule exchanges_sorted) (use placed_exchanges [OF assms(1,4) ps] in blast)
  then show ?thesis by (simp add: project_model_messages_def ps)
qed

text \<open>A response with two calls, answered in the other order, and an unanswered call.\<close>

definition demo_item :: "nat \<Rightarrow> history_item_payload \<Rightarrow> history_item" where
  "demo_item i p = \<lparr>hi_id = i, hi_session_id = 0, hi_scope = Turn 0, hi_sequence_no = int i,
     hi_created_at_ms = 0, hi_payload = p\<rparr>"

definition demo_history :: "history_item list" where
  "demo_history =
     [demo_item 1 (UserTurn [CText (lit ''hi'')] None None),
      demo_item 2 (ToolCall 10 5 [] (lit ''ls'') (lit ''{}'')),
      demo_item 3 (ToolCall 11 5 (lit ''b'') (lit ''cat'') (lit ''{}'')),
      demo_item 4 (ToolOutput 11 Completed [] (lit ''text'') JNull None),
      demo_item 5 (ToolOutput 10 Completed [] (lit ''files'') JNull None),
      demo_item 6 (ToolCall 12 6 [] (lit ''ls'') (lit ''{}''))]"

text \<open>Decimal identities are unique.\<close>

lemma inj_show_nat: "inj show_nat"
proof (rule injI)
  show "show_nat m = show_nat n \<Longrightarrow> m = n" for m n
  proof (induction m arbitrary: n rule: show_nat.induct)
    case (1 m)
    show ?case
    proof (cases "m < 10 \<or> n < 10")
      case True
      then show ?thesis using 1(2) show_nat_digits [of "m div 10"] show_nat_digits [of "n div 10"]
        by (auto simp: show_nat.simps [of m] show_nat.simps [of n] split: if_splits)
    next
      case False
      then have "show_nat (m div 10) = show_nat (n div 10)" "m mod 10 = n mod 10"
        using 1(2) by (auto simp: show_nat.simps [of m] show_nat.simps [of n])
      then show ?thesis using 1(1) False by (metis div_mod_decomp)
    qed
  qed
qed

theorem projected_tool_exchanges_are_complete_witness:
  "calls_precede_outputs demo_history \<and> valid_snapshots demo_history \<and> quotes_empty demo_env \<and>
   inj (env_id_str demo_env) \<and>
   (\<exists>ms. project_model_messages demo_env demo_history False [] = Some ms \<and> exchanges ms)"
proof -
  have h: "calls_precede_outputs demo_history" "valid_snapshots demo_history" "quotes_empty demo_env"
    by code_simp+
  have i: "inj (env_id_str demo_env)" by (simp add: demo_env_def inj_show_nat)
  from projected_tool_exchanges_are_complete [OF h i] h i show ?thesis by blast
qed

end
