(* ===== verification/Context_Props.thy ===== *)
theory Context_Props
  imports Context_Manager Projection_Pairs
begin

text \<open>
  What the context manager guarantees: the active view is a fold of an abstract replacement over
  the committed rows, in whatever pages they arrive; a compaction takes whole units and leaves the
  protected ones; the token status is conservative.
\<close>

section \<open>The active view\<close>

text \<open>
  One committed row: a compaction replaces its sources, wherever they are, by itself at the
  position of the first; any other row is appended.
\<close>

definition apply_committed :: "history_item list \<Rightarrow> history_item \<Rightarrow> history_item list" where
  "apply_committed view item =
     (case compaction_replaces (hi_payload item) of
        None \<Rightarrow> view @ [item]
      | Some ids \<Rightarrow>
          takeWhile (\<lambda>x. hi_id x \<notin> set ids) view @
          item # filter (\<lambda>x. hi_id x \<notin> set ids) (dropWhile (\<lambda>x. hi_id x \<notin> set ids) view))"

lemma replace_at_first:
  "vec_insert (min (case position (\<lambda>x. \<not> P x) xs of None \<Rightarrow> length xs | Some i \<Rightarrow> i)
                 (length (filter P xs))) item (filter P xs) =
   takeWhile P xs @ item # filter P (dropWhile P xs)"
proof -
  have "filter P xs = filter P (takeWhile P xs @ dropWhile P xs)" by simp
  also have "\<dots> = takeWhile P xs @ filter P (dropWhile P xs)"
    unfolding filter_append by (simp add: filter_id_conv) (meson set_takeWhileD)
  finally have f: "filter P xs = takeWhile P xs @ filter P (dropWhile P xs)" .
  have len: "length (takeWhile P xs) \<le> length xs" by (rule length_takeWhile_le)
  have "(case position (\<lambda>x. \<not> P x) xs of None \<Rightarrow> length xs | Some i \<Rightarrow> i) = length (takeWhile P xs)"
    using len by (auto simp: position_def Let_def split: option.split)
  then show ?thesis unfolding f by (simp add: vec_insert_def)
qed

lemma ingest_item_view: "cm_items (ingest_item cm item) = apply_committed (cm_items cm) item"
  using replace_at_first [where P = "\<lambda>x. hi_id x \<notin> set ids" and xs = "cm_items cm" and item = item for ids]
  by (auto simp: ingest_item_def apply_committed_def Let_def split: option.split)

lemma ingest_item_other:
  "cm_revision (ingest_item cm item) = cm_revision cm"
  "cm_append_cursor (ingest_item cm item) = cm_append_cursor cm"
  "cm_canonical_count (ingest_item cm item) = cm_canonical_count cm"
  by (auto simp: ingest_item_def Let_def split: option.split)

lemma ingest_items_fields:
  "cm_items (foldl ingest_item cm items) = foldl apply_committed (cm_items cm) items"
  "cm_revision (foldl ingest_item cm items) = cm_revision cm"
  "cm_append_cursor (foldl ingest_item cm items) = cm_append_cursor cm"
  "cm_canonical_count (foldl ingest_item cm items) = cm_canonical_count cm"
  by (induction items arbitrary: cm) (simp_all add: ingest_item_view ingest_item_other)

lemma set_apply_committed:
  "set (apply_committed view item) =
     insert item (case compaction_replaces (hi_payload item) of
                    None \<Rightarrow> set view | Some ids \<Rightarrow> {x \<in> set view. hi_id x \<notin> set ids})"
proof (cases "compaction_replaces (hi_payload item)")
  case (Some ids)
  let ?P = "\<lambda>x. hi_id x \<notin> set ids"
  have "set view = set (takeWhile ?P view) \<union> set (dropWhile ?P view)"
    by (metis set_append takeWhile_dropWhile_id)
  then show ?thesis using Some set_takeWhileD [of _ ?P view] by (auto simp: apply_committed_def)
qed (simp add: apply_committed_def)

lemma ingest_item_more:
  "ingest_item (cm\<lparr>cm_canonical_count := n, cm_append_cursor := c, cm_revision := r\<rparr>) item =
   (ingest_item cm item)\<lparr>cm_canonical_count := n, cm_append_cursor := c, cm_revision := r\<rparr>"
  by (simp add: ingest_item_def Let_def split: option.split)

lemma ingest_items_more:
  "foldl ingest_item (cm\<lparr>cm_canonical_count := n, cm_append_cursor := c, cm_revision := r\<rparr>) items =
   (foldl ingest_item cm items)\<lparr>cm_canonical_count := n, cm_append_cursor := c, cm_revision := r\<rparr>"
  by (induction items arbitrary: cm) (simp_all add: ingest_item_more)

lemma sat_add_assoc: "sat_add (sat_add a m) n = sat_add a (m + n)"
  by (simp add: sat_add_def)

lemma opt_or_simps [simp]:
  "opt_or None y = y" "opt_or (Some v) y = Some v" "opt_or (opt_or u w) z = opt_or u (opt_or w z)"
  by (simp_all add: opt_or_def split: option.split)

lemma ingest_eq:
  "items \<noteq> [] \<Longrightarrow> fst (ingest_committed_delta env cm items c) =
     (foldl ingest_item cm items)\<lparr>cm_canonical_count := sat_add (cm_canonical_count cm) (length items),
        cm_append_cursor := opt_or c (cm_append_cursor cm),
        cm_revision := revision_for env (foldl apply_committed (cm_items cm) items)\<rparr>"
  by (simp add: ingest_committed_delta_def Let_def ingest_items_fields)

lemma ingest_Nil:
  "fst (ingest_committed_delta env cm [] c) = cm\<lparr>cm_append_cursor := opt_or c (cm_append_cursor cm)\<rparr>"
  by (simp add: ingest_committed_delta_def)

lemma ingest_item_cursor:
  "foldl ingest_item (cm\<lparr>cm_append_cursor := c\<rparr>) items = (foldl ingest_item cm items)\<lparr>cm_append_cursor := c\<rparr>"
proof (induction items arbitrary: cm)
  case (Cons x xs)
  have "ingest_item (cm\<lparr>cm_append_cursor := c\<rparr>) x = (ingest_item cm x)\<lparr>cm_append_cursor := c\<rparr>"
    by (simp add: ingest_item_def Let_def split: option.split)
  then show ?case using Cons by simp
qed simp

lemma ingest_pages:
  "fst (ingest_committed_delta env (fst (ingest_committed_delta env cm xs c1)) ys c2) =
   fst (ingest_committed_delta env cm (xs @ ys) (opt_or c2 c1))"
proof (cases "xs = [] \<or> ys = []")
  case True
  then show ?thesis
    by (cases "xs = []"; cases "ys = []")
      (simp_all add: ingest_eq ingest_Nil ingest_item_cursor ingest_items_fields)
next
  case False
  then show ?thesis
    by (simp add: ingest_eq ingest_items_more ingest_items_fields sat_add_assoc)
qed

lemma continuations_dropped:
  "hm_get (foldl drop_continuation m xs) r =
     (if \<exists>x \<in> set xs. \<exists>c mid n a. hi_payload x = ToolCall c r mid n a then None else hm_get m r)"
proof (induction xs arbitrary: m)
  case (Cons x xs)
  show ?case using Cons [of "drop_continuation m x"]
    by (cases "hi_payload x") auto
qed simp

text \<open>The view together with the continuations: those of the replaced tool calls are dropped.\<close>

definition calls_response :: "response_id \<Rightarrow> history_item \<Rightarrow> bool" where
  "calls_response r x = (case hi_payload x of ToolCall _ r' _ _ _ \<Rightarrow> r' = r | _ \<Rightarrow> False)"

definition apply_row ::
  "history_item list \<times> (response_id \<rightharpoonup> chat_tool_continuation) \<Rightarrow> history_item \<Rightarrow>
   history_item list \<times> (response_id \<rightharpoonup> chat_tool_continuation)" where
  "apply_row st item =
     (case st of (view, conts) \<Rightarrow>
        (apply_committed view item,
         \<lambda>r. if list_ex (\<lambda>x. hi_id x \<in> set (replacement_ids (hi_payload item)) \<and> calls_response r x) view
             then None else conts r))"

lemma ingest_item_row:
  "(cm_items (ingest_item cm item), hm_get (cm_continuations (ingest_item cm item))) =
   apply_row (cm_items cm, hm_get (cm_continuations cm)) item"
proof -
  have "hm_get (cm_continuations (ingest_item cm item)) r =
        (if list_ex (\<lambda>x. hi_id x \<in> set (replacement_ids (hi_payload item)) \<and> calls_response r x) (cm_items cm)
         then None else hm_get (cm_continuations cm) r)" for r
  proof -
    have call: "calls_response r x \<longleftrightarrow> (\<exists>c mid n a. hi_payload x = ToolCall c r mid n a)" for x
      by (auto simp: calls_response_def split: history_item_payload.split)
    show ?thesis
      by (cases "hi_payload item")
        (auto simp: ingest_item_def Let_def continuations_dropped list_ex_iff call)
  qed
  then show ?thesis by (auto simp: apply_row_def ingest_item_view)
qed

lemma ingest_items_rows:
  "(cm_items (foldl ingest_item cm items), hm_get (cm_continuations (foldl ingest_item cm items))) =
   foldl apply_row (cm_items cm, hm_get (cm_continuations cm)) items"
  by (induction items arbitrary: cm) (simp_all flip: ingest_item_row)

lemma fst_apply_rows: "fst (foldl apply_row st items) = foldl apply_committed (fst st) items"
  by (induction items arbitrary: st) (simp_all add: apply_row_def case_prod_beta)

section \<open>Selections\<close>

lemma active_items_indexed:
  "active_history_items cm = map snd (active_indexed (cm_items cm) [])"
proof -
  have "map snd (filter (\<lambda>(_, x). P x) (List.enumerate n xs)) = filter P xs" for P n and xs :: "history_item list"
    by (induction xs arbitrary: n) auto
  then show ?thesis by (simp add: active_history_items_def active_indexed_def Let_def)
qed

lemma in_groups:
  "g \<in> set (groups key xs) \<Longrightarrow> e \<in> set g \<Longrightarrow>
     \<exists>k. key e = Some k \<and> (\<forall>e' \<in> set xs. key e' = Some k \<longrightarrow> e' \<in> set g)"
  unfolding set_groups by auto

text \<open>Items of a history with distinct identities are determined by their identity.\<close>

lemma same_id:
  assumes "distinct (map hi_id items)" and "e \<in> set (active_indexed items ex)" "e' \<in> set (active_indexed items ex)"
    and "hi_id (snd e) = hi_id (snd e')"
  shows "e = e'"
proof -
  obtain i it j jt where e: "e = (i, it)" "e' = (j, jt)" by (metis surj_pair)
  then have "i < length items" "it = items ! i" "j < length items" "jt = items ! j"
    using assms(2,3) by (auto simp: active_indexed_def Let_def in_set_enumerate_eq)
  then show ?thesis using assms(1,4) e by (auto simp: distinct_conv_nth)
qed

text \<open>A selection of units that keeps those with a protected item: whole, and without protected ones.\<close>

lemma selected_units:
  assumes "distinct (map hi_id items)"
    and e: "e \<in> set (active_indexed items ex)"
    and sel: "hi_id (snd e) \<in> set (concat (unprotected_units prot (semantic_compaction_units_excluding items ex)))"
  defines "key \<equiv> unit_key_of (active_indexed items ex)"
  shows "\<exists>k. key e = Some k \<and>
    (\<forall>e' \<in> set (active_indexed items ex). key e' = Some k \<longrightarrow>
       hi_id (snd e') \<notin> set prot \<and>
       hi_id (snd e') \<in> set (concat (unprotected_units prot (semantic_compaction_units_excluding items ex))))"
proof -
  let ?act = "active_indexed items ex"
  from sel obtain u where u: "u \<in> set (semantic_compaction_units_excluding items ex)"
      "\<forall>i \<in> set u. i \<notin> set prot" "hi_id (snd e) \<in> set u"
    by (auto simp: unprotected_units_def list_ex_iff)
  from u(1) obtain g where g: "u = unit_ids g" "g \<in> set (groups key ?act)"
    by (auto simp: units_eq unit_groups_def Let_def key_def split: if_splits)
  from u(3) obtain e0 where e0: "e0 \<in> set g" "hi_id (snd e0) = hi_id (snd e)"
    by (auto simp: g(1) unit_ids_def)
  have "e0 \<in> set ?act" using group_member [OF g(2)] e0(1) by blast
  then have "e0 = e" using same_id [OF assms(1) _ e e0(2)] by blast
  with e0(1) in_groups [OF g(2)] obtain k where
    k: "key e = Some k" "\<forall>e' \<in> set ?act. key e' = Some k \<longrightarrow> e' \<in> set g" by blast
  have "hi_id (snd e') \<in> set u" if "e' \<in> set ?act" "key e' = Some k" for e'
    using k(2) that by (auto simp: g(1) unit_ids_def)
  with k(1) u(1,2) show ?thesis by (fastforce simp: unprotected_units_def list_ex_iff)
qed

lemma find_map_Some: "find_map f xs = Some y \<Longrightarrow> \<exists>x \<in> set xs. f x = Some y"
  by (induction xs) (auto split: option.splits)

lemma response_key: "response_of (hi_payload (snd e)) = Some r \<Longrightarrow> unit_key_of act e = Some (ResponseUnit r)"
  by (cases e; cases "hi_payload (snd e)") (auto simp: unit_key_of_def)

lemma protect_newest_mono: "set (ni_protected s) \<subseteq> set (ni_protected (foldl protect_newest s xs))"
proof (induction xs arbitrary: s)
  case (Cons x xs)
  have "set (ni_protected s) \<subseteq> set (ni_protected (protect_newest s x))"
    by (auto simp: protect_newest_def Let_def)
  then show ?case using Cons [of "protect_newest s x"] by auto
qed simp

lemma input_kinds:
  "is_user_turn p \<Longrightarrow> \<not> is_steer p \<and> \<not> is_triggering p \<and> \<not> is_snapshot p"
  "is_steer p \<Longrightarrow> \<not> is_user_turn p \<and> \<not> is_triggering p \<and> \<not> is_snapshot p"
  "is_triggering p \<Longrightarrow> \<not> is_user_turn p \<and> \<not> is_steer p \<and> \<not> is_snapshot p"
  "is_snapshot p \<Longrightarrow> \<not> is_user_turn p \<and> \<not> is_steer p \<and> \<not> is_triggering p"
  by (cases p; simp)+

lemma protect_newest_step:
  assumes "x \<in> set (take 1 (filter (K \<circ> hi_payload) xs))"
    and "\<And>s y. K (hi_payload y) \<Longrightarrow> new s = None \<Longrightarrow> hi_id y \<in> set (ni_protected (protect_newest s y))"
    and "\<And>s y. \<not> K (hi_payload y) \<Longrightarrow> new (protect_newest s y) = new s"
    and "new s = (None :: history_item_id option)"
  shows "hi_id x \<in> set (ni_protected (foldl protect_newest s xs))"
  using assms(1,4)
proof (induction xs arbitrary: s)
  case (Cons y ys)
  show ?case
  proof (cases "K (hi_payload y)")
    case True
    then have "hi_id x \<in> set (ni_protected (protect_newest s y))" using Cons.prems assms(2) by auto
    then show ?thesis using protect_newest_mono [of "protect_newest s y" ys] by auto
  next
    case False
    then show ?thesis using Cons.prems assms(3) by (auto intro: Cons.IH)
  qed
qed simp

lemma protect_snapshot:
  "x \<in> set xs \<Longrightarrow> is_snapshot (hi_payload x) \<Longrightarrow> hi_id x \<in> set (ni_protected (foldl protect_newest s xs))"
proof (induction xs arbitrary: s)
  case (Cons y ys)
  show ?case
  proof (cases "x = y")
    case True
    then have "hi_id x \<in> set (ni_protected (protect_newest s y))"
      using Cons.prems(2) input_kinds(4) by (simp add: protect_newest_def Let_def)
    then show ?thesis using protect_newest_mono [of "protect_newest s y" ys] by auto
  next
    case False
    then show ?thesis using Cons by auto
  qed
qed simp

text \<open>The newest active item of a kind.\<close>

definition newest :: "(history_item_payload \<Rightarrow> bool) \<Rightarrow> context_manager \<Rightarrow> history_item list" where
  "newest K cm = take 1 (filter (K \<circ> hi_payload) (rev (active_history_items cm)))"

lemma automatic_protects:
  "set excluded \<subseteq> set (automatic_protected cm excluded)"
  "x \<in> set (newest is_user_turn cm) \<Longrightarrow> hi_id x \<in> set (automatic_protected cm excluded)"
  "x \<in> set (newest is_steer cm) \<Longrightarrow> hi_id x \<in> set (automatic_protected cm excluded)"
  "x \<in> set (newest is_triggering cm) \<Longrightarrow> hi_id x \<in> set (automatic_protected cm excluded)"
  "x \<in> set (active_history_items cm) \<Longrightarrow> is_snapshot (hi_payload x) \<Longrightarrow>
     hi_id x \<in> set (automatic_protected cm excluded)"
proof -
  show "set excluded \<subseteq> set (automatic_protected cm excluded)"
    unfolding automatic_protected_def by (rule order_trans [OF _ protect_newest_mono]) simp
  show "hi_id x \<in> set (automatic_protected cm excluded)" if "x \<in> set (newest is_user_turn cm)"
    unfolding automatic_protected_def
    by (rule protect_newest_step [OF that [unfolded newest_def], where new = newest_user])
      (auto simp: protect_newest_def Let_def)
  show "hi_id x \<in> set (automatic_protected cm excluded)" if "x \<in> set (newest is_steer cm)"
    unfolding automatic_protected_def
    by (rule protect_newest_step [OF that [unfolded newest_def], where new = newest_steer])
      (auto simp: protect_newest_def Let_def dest: input_kinds)
  show "hi_id x \<in> set (automatic_protected cm excluded)" if "x \<in> set (newest is_triggering cm)"
    unfolding automatic_protected_def
    by (rule protect_newest_step [OF that [unfolded newest_def], where new = newest_agent_input])
      (auto simp: protect_newest_def Let_def dest: input_kinds)
  show "x \<in> set (active_history_items cm) \<Longrightarrow> is_snapshot (hi_payload x) \<Longrightarrow>
     hi_id x \<in> set (automatic_protected cm excluded)"
    unfolding automatic_protected_def by (rule protect_snapshot) simp_all
qed

section \<open>Token status\<close>

lemma local_messages_total:
  "\<forall>x \<in> set xs. f x \<noteq> None \<Longrightarrow> \<exists>ms. local_messages f xs = Some ms"
proof (induction xs)
  case (Cons x xs)
  then obtain y ms where "f x = Some y" "local_messages f xs = Some ms" by auto
  then show ?case by (cases y) simp_all
qed simp

lemma baseline_messages_total:
  assumes "quotes_empty env"
  shows "\<exists>ms. local_messages_after_provider_baseline env cm b si = Some ms"
proof -
  have vis: "\<exists>t. model_visible_tool_output env n st out md = Some t" for n st out md
    using tool_projection_total [OF assms] by auto
  have "local_message env b si names x \<noteq> None" for names x
    by (cases "hi_payload x") (auto simp: local_message_def vis split: option.split)
  then show ?thesis
    using local_messages_total by (auto simp: local_messages_after_provider_baseline_def Let_def)
qed

lemma model_messages_total:
  assumes "quotes_empty env" and "valid_snapshots (cm_items cm)"
  shows "\<exists>ms. model_messages env cm si = Some ms"
proof -
  have "project_items f (List.enumerate 0 (cm_items cm)) \<noteq> None"
    if "f = project_item env si reps idx s names" for f reps idx s names
    using project_items_total [of "List.enumerate 0 (cm_items cm)" f] project_item_total [OF assms] that by auto
  then show ?thesis
    by (auto simp: model_messages_def project_model_messages_def placed_messages_def Let_def)
qed

section \<open>Properties\<close>

text \<open>
  C19. The context manager's view of a session refines the append-only log: ingesting committed rows
  folds the abstract replacement over the view (a compaction stands where the first of its sources
  stood, everything else keeps its place, rows committed meanwhile stay after it), dropping the
  private continuations of the replaced tool calls and no others; the canonical count grows by the
  rows, and the revision is that of the new view.
\<close>

theorem ingest_refines_log_replay:
  "(let cm' = fst (ingest_committed_delta env cm items cursor) in
    (cm_items cm', hm_get (cm_continuations cm')) =
      foldl apply_row (cm_items cm, hm_get (cm_continuations cm)) items \<and>
    cm_canonical_count cm' = (if items = [] then cm_canonical_count cm
                              else min (cm_canonical_count cm + length items) USIZE_MAX) \<and>
    cm_revision cm' = (if items = [] then cm_revision cm else revision_for env (cm_items cm')) \<and>
    cm_append_cursor cm' = opt_or cursor (cm_append_cursor cm))"
  using ingest_items_rows [of cm items] ingest_items_fields(1) [of cm items]
  by (cases "items = []") (simp_all add: ingest_eq ingest_Nil sat_add_def Let_def)

text \<open>
  How committed rows are cut into pages does not matter: ingesting two pages one after the
  other leaves the same context as ingesting them at once (view, revision, cursor, count and
  continuations), empty pages and pages that end in a compaction included.
\<close>

theorem paged_ingestion_equals_one_ingestion:
  "fst (ingest_committed_delta env (fst (ingest_committed_delta env cm xs c1)) ys c2) =
   fst (ingest_committed_delta env cm (xs @ ys) (opt_or c2 c1))"
  by (rule ingest_pages)

text \<open>
  C22. What a model-written compaction replaces: whole units only (with an item every active item of
  its response, tool outputs included), never an explicit input (user, steer or triggering agent
  message), never a legacy snapshot, and nothing of the most recent response, be it its messages,
  its calls or the outputs of its calls.
\<close>

theorem compaction_sources_spare_inputs_and_latest_response:
  assumes "distinct (map hi_id (cm_items cm))"
    and "e \<in> set (active_indexed (cm_items cm) [])"
    and "hi_id (snd e) \<in> set (model_compaction_source_item_ids cm)"
  shows "\<not> is_user_turn (hi_payload (snd e)) \<and> \<not> is_steer (hi_payload (snd e)) \<and>
    \<not> is_triggering (hi_payload (snd e)) \<and> \<not> is_snapshot (hi_payload (snd e)) \<and>
    unit_key_of (active_indexed (cm_items cm) []) e \<noteq>
      map_option ResponseUnit (latest_model_response_id (active_history_items cm)) \<and>
    (\<forall>e' \<in> set (active_indexed (cm_items cm) []).
       unit_key_of (active_indexed (cm_items cm) []) e' = unit_key_of (active_indexed (cm_items cm) []) e \<longrightarrow>
       hi_id (snd e') \<in> set (model_compaction_source_item_ids cm))"
proof -
  let ?act = "active_indexed (cm_items cm) []" and ?latest = "latest_model_response_id (active_history_items cm)"
  let ?prot = "map hi_id (filter (protected_source ?latest \<circ> hi_payload) (active_history_items cm))"
  have src: "model_compaction_source_item_ids cm =
      concat (unprotected_units ?prot (semantic_compaction_units_excluding (cm_items cm) []))"
    by (simp add: model_compaction_source_item_ids_def Let_def semantic_compaction_units_def)
  from selected_units [OF assms(1,2), of ?prot] assms(3) obtain k where
    k: "unit_key_of ?act e = Some k" and
    all: "\<forall>e' \<in> set ?act. unit_key_of ?act e' = Some k \<longrightarrow> hi_id (snd e') \<notin> set ?prot \<and>
       hi_id (snd e') \<in> set (model_compaction_source_item_ids cm)"
    unfolding src by auto
  have prot: "\<not> protected_source ?latest (hi_payload (snd e'))"
    if "e' \<in> set ?act" "unit_key_of ?act e' = Some k" for e'
    using all that by (auto simp: active_items_indexed image_iff)
  have "k \<noteq> ResponseUnit r" if r: "?latest = Some r" for r
  proof
    assume kr: "k = ResponseUnit r"
    from find_map_Some [OF r [unfolded latest_model_response_id_def]] obtain e' where
      "e' \<in> set ?act" "response_of (hi_payload (snd e')) = Some r"
      by (auto simp: active_items_indexed)
    moreover from this(2) have "unit_key_of ?act e' = Some k" unfolding kr by (rule response_key)
    ultimately show False using prot [of e'] r by (auto simp: protected_source_def)
  qed
  then have "unit_key_of ?act e \<noteq> map_option ResponseUnit ?latest" using k by (cases ?latest) auto
  with k all prot [OF assms(2) k] show ?thesis by (auto simp: protected_source_def)
qed

text \<open>The demo history after its exchange: the next response is the latest.\<close>

definition demo_context :: context_manager where
  "demo_context = from_active_history demo_env
     (butlast demo_history @ [demo_item 6 (AssistantMessage 6 [CText (lit ''done'')])]) None 6"

theorem compaction_sources_spare_inputs_and_latest_response_witness:
  "distinct (map hi_id (cm_items demo_context)) \<and>
   model_compaction_source_item_ids demo_context = [2, 3, 4, 5] \<and>
   unit_key_of (active_indexed (cm_items demo_context) []) (active_indexed (cm_items demo_context) [] ! 3) \<noteq>
     map_option ResponseUnit (latest_model_response_id (active_history_items demo_context))"
proof -
  let ?e = "active_indexed (cm_items demo_context) [] ! 3"
  have d: "distinct (map hi_id (cm_items demo_context))" by code_simp
  have m: "?e \<in> set (active_indexed (cm_items demo_context) [])"
    by (rule nth_mem) code_simp
  have s: "model_compaction_source_item_ids demo_context = [2, 3, 4, 5]" by code_simp
  have i: "hi_id (snd ?e) = 4" by code_simp
  have "hi_id (snd ?e) \<in> set (model_compaction_source_item_ids demo_context)" by (simp add: s i)
  from compaction_sources_spare_inputs_and_latest_response [OF d m this] d s show ?thesis by blast
qed

text \<open>
  What an automatic compaction replaces: whole units only, never an item excluded by the caller
  (an input just admitted), never the newest user turn, the newest steer or the newest triggering
  agent message, and never a legacy snapshot.
\<close>

theorem automatic_compaction_spares_newest_inputs:
  assumes "distinct (map hi_id (cm_items cm))"
    and "e \<in> set (active_indexed (cm_items cm) excluded)"
    and "hi_id (snd e) \<in> set (concat (automatic_compaction_units_excluding cm excluded))"
  shows "hi_id (snd e) \<notin> set excluded \<and> \<not> is_snapshot (hi_payload (snd e)) \<and>
    snd e \<notin> set (newest is_user_turn cm) \<and> snd e \<notin> set (newest is_steer cm) \<and>
    snd e \<notin> set (newest is_triggering cm) \<and>
    (\<forall>e' \<in> set (active_indexed (cm_items cm) excluded).
       unit_key_of (active_indexed (cm_items cm) excluded) e' =
         unit_key_of (active_indexed (cm_items cm) excluded) e \<longrightarrow>
       hi_id (snd e') \<in> set (concat (automatic_compaction_units_excluding cm excluded)))"
proof -
  let ?act = "active_indexed (cm_items cm) excluded"
  from selected_units [OF assms(1,2), of "automatic_protected cm excluded"] assms(3) obtain k where
    k: "unit_key_of ?act e = Some k" and
    all: "\<forall>e' \<in> set ?act. unit_key_of ?act e' = Some k \<longrightarrow>
       hi_id (snd e') \<notin> set (automatic_protected cm excluded) \<and>
       hi_id (snd e') \<in> set (concat (automatic_compaction_units_excluding cm excluded))"
    unfolding automatic_compaction_units_excluding_def by auto
  have "hi_id (snd e) \<notin> set (automatic_protected cm excluded)" using all assms(2) k by blast
  moreover have "snd e \<in> set (active_history_items cm)"
  proof -
    obtain i it where "e = (i, it)" by (metis surj_pair)
    then show ?thesis using assms(2)
      by (auto simp: active_indexed_def active_history_items_def Let_def in_set_enumerate_eq)
  qed
  ultimately have "hi_id (snd e) \<notin> set excluded \<and> \<not> is_snapshot (hi_payload (snd e)) \<and>
    snd e \<notin> set (newest is_user_turn cm) \<and> snd e \<notin> set (newest is_steer cm) \<and>
    snd e \<notin> set (newest is_triggering cm)"
    using automatic_protects [where cm = cm and excluded = excluded] by blast
  then show ?thesis using k all by auto
qed

theorem automatic_compaction_spares_newest_inputs_witness:
  "distinct (map hi_id (cm_items demo_context)) \<and>
   concat (automatic_compaction_units_excluding demo_context []) = [2, 3, 4, 5, 6] \<and>
   snd (active_indexed (cm_items demo_context) [] ! 3) \<notin> set (newest is_user_turn demo_context)"
proof -
  let ?e = "active_indexed (cm_items demo_context) [] ! 3"
  have d: "distinct (map hi_id (cm_items demo_context))" by code_simp
  have m: "?e \<in> set (active_indexed (cm_items demo_context) [])"
    by (rule nth_mem) code_simp
  have s: "concat (automatic_compaction_units_excluding demo_context []) = [2, 3, 4, 5, 6]" by code_simp
  have i: "hi_id (snd ?e) = 4" by code_simp
  have "hi_id (snd ?e) \<in> set (concat (automatic_compaction_units_excluding demo_context []))"
    by (simp only: s i) simp
  from automatic_compaction_spares_newest_inputs [OF d m this] d s show ?thesis by blast
qed

text \<open>
  C23. The token status of a request is always computed and conservative: the active tokens are at
  least the estimate of the whole prepared request, whatever the provider reported, and at most
  \<open>u32::MAX\<close>; the limit is reported reached exactly when they fill the window; and the
  provider's count is used only while the response it belongs to is still the latest one and every
  item it covered is still active.
\<close>

theorem token_status_is_conservative:
  assumes "quotes_empty env" and "valid_snapshots (cm_items cm)"
  shows "\<exists>status. status_for_request env st cm request si margin = Some status \<and>
    active_context_tokens (for_request (env_print_json env) request margin) \<le> active_context_tokens status \<and>
    active_context_tokens status \<le> U32_MAX \<and>
    (token_limit_reached status \<longleftrightarrow> cr_context_window request \<le> active_context_tokens status) \<and>
    (case ws_source status of
       FullPreparedRequestEstimate \<Rightarrow> True
     | ProviderUsageWithLocalEstimate \<Rightarrow>
         (\<exists>b. provider_baseline st = Some b \<and>
              latest_model_response_id (active_history_items cm) = Some (pb_response_id b) \<and>
              set (pb_known_item_ids b) \<subseteq> set (active_item_ids cm)))"
proof -
  let ?est = "for_request (env_print_json env) request margin"
  have le: "estimate_request_tokens (env_print_json env) request \<le> U32_MAX"
    by (simp add: estimate_request_tokens_def)
  then have full: "active_context_tokens ?est \<le> U32_MAX \<and>
      (token_limit_reached ?est \<longleftrightarrow> cr_context_window request \<le> active_context_tokens ?est) \<and>
      ws_source ?est = FullPreparedRequestEstimate"
    by (auto simp: for_request_def from_active_context_tokens_def Let_def)
  show ?thesis
  proof (cases "provider_baseline st")
    case None
    then show ?thesis using full by (simp add: status_for_request_def)
  next
    case (Some b)
    obtain msgs where ms: "local_messages_after_provider_baseline env cm b si = Some msgs"
      using baseline_messages_total [OF assms(1)] by blast
    obtain canonical where can: "model_messages env cm si = Some canonical"
      using model_messages_total [OF assms] by blast
    show ?thesis
    proof (cases msgs)
      case None
      then show ?thesis using full Some ms by (simp add: status_for_request_def)
    next
      case (Some l)
      let ?st = "from_provider_usage (env_print_json env) request margin (pb_total_tokens b) l
        (noncanonical_prepared_request_tokens env request canonical - pb_noncanonical_prepared_tokens b)"
      have "status_for_request env st cm request si margin = Some ?st"
        using \<open>provider_baseline st = Some b\<close> ms can Some by (simp add: status_for_request_def)
      moreover have "latest_model_response_id (active_history_items cm) = Some (pb_response_id b)"
        "set (pb_known_item_ids b) \<subseteq> set (active_item_ids cm)"
        using ms Some
        by (auto simp: local_messages_after_provider_baseline_def Let_def list_all_iff active_item_ids_def
            split: if_splits)
      moreover note provider_status_is_conservative [of "env_print_json env" request margin
        "pb_total_tokens b" l "noncanonical_prepared_request_tokens env request canonical -
           pb_noncanonical_prepared_tokens b", unfolded Let_def]
      ultimately show ?thesis using \<open>provider_baseline st = Some b\<close>
        by (intro exI [of _ ?st] conjI) (blast | (cases "ws_source ?st"; simp))+
    qed
  qed
qed

definition demo_request :: chat_request where
  "demo_request = \<lparr>cr_context_window = 100, cr_system_prompt = [], cr_pending_system_prompt_tokens = None,
     cr_messages = [MUser (lit ''hi'')], cr_tools = []\<rparr>"

definition demo_baseline :: active_context_token_state where
  "demo_baseline = record_provider_response demo_env 6 (Some 120) demo_request [] [1, 2, 3, 4, 5]"

theorem token_status_is_conservative_witness:
  "quotes_empty demo_env \<and> valid_snapshots (cm_items demo_context) \<and>
   provider_baseline demo_baseline \<noteq> None \<and>
   (\<exists>status. status_for_request demo_env demo_baseline demo_context demo_request False 0 = Some status \<and>
      (token_limit_reached status \<longleftrightarrow> cr_context_window demo_request \<le> active_context_tokens status))"
proof -
  have h: "quotes_empty demo_env" "valid_snapshots (cm_items demo_context)" by code_simp+
  have "provider_baseline demo_baseline \<noteq> None"
    by (simp add: demo_baseline_def record_provider_response_def)
  with token_status_is_conservative [OF h, of demo_baseline demo_request False 0] h show ?thesis by blast
qed

end
