(* ===== verification/Responses_Text.thy ===== *)
theory Responses_Text
  imports Model_Message Text_Clip
begin

text \<open>
  The text of one message of a streamed response (\<open>MessageTextState\<close> of
  \<open>src/src/llm/responses.rs\<close>). A message has numbered parts; each grows by deltas until it is
  done. Text is released to the reader in the order of the parts: a part is held back until every
  part before it is done. A \<open>BTreeMap\<close> is the list of its entries in the order of the keys.
\<close>

section \<open>Ordered maps\<close>

type_synonym 'v btree = "(nat \<times> 'v) list"

text \<open>\<open>entry(k).or_insert(d)\<close> followed by an update of the value through the reference.\<close>

fun bt_update :: "nat \<Rightarrow> 'v \<Rightarrow> ('v \<Rightarrow> 'v) \<Rightarrow> 'v btree \<Rightarrow> 'v btree" where
  "bt_update k d f [] = [(k, f d)]"
| "bt_update k d f ((k', v) # m) =
     (if k < k' then (k, f d) # (k', v) # m
      else if k = k' then (k, f v) # m
      else (k', v) # bt_update k d f m)"

definition bt_ok :: "'v btree \<Rightarrow> bool" where
  "bt_ok m = sorted_wrt (<) (map fst m)"

lemma bt_ok_simps [simp]:
  "bt_ok []" "bt_ok ((k, v) # m) \<longleftrightarrow> (\<forall>k' \<in> fst ` set m. k < k') \<and> bt_ok m"
  by (simp_all add: bt_ok_def)

lemma fst_set_bt_update: "fst ` set (bt_update k d f m) = insert k (fst ` set m)"
  by (induction k d f m rule: bt_update.induct) auto

lemma bt_ok_update: "bt_ok m \<Longrightarrow> bt_ok (bt_update k d f m)"
  by (induction k d f m rule: bt_update.induct) (auto simp: fst_set_bt_update)

lemma bt_get_update:
  "bt_ok m \<Longrightarrow>
   map_of (bt_update k d f m) k' =
     (if k' = k then Some (f (case map_of m k of None \<Rightarrow> d | Some v \<Rightarrow> v)) else map_of m k')"
proof (induction k d f m rule: bt_update.induct)
  case (2 k d f k0 v m)
  have "k < k0 \<Longrightarrow> map_of m k = None"
    using "2.prems" by (fastforce simp: map_of_eq_None_iff)
  then show ?case using 2 by auto
qed auto

section \<open>The state of a message\<close>

datatype message_text_lifecycle = Streaming | TextDone

record message_text_part_state =
  mp_text :: ustr
  mp_lifecycle :: message_text_lifecycle
  mp_emitted_bytes :: nat

definition incomplete_part :: message_text_part_state where
  "incomplete_part = \<lparr>mp_text = [], mp_lifecycle = Streaming, mp_emitted_bytes = 0\<rparr>"

record message_text_state =
  mt_parts :: "message_text_part_state btree"
  mt_item_complete :: bool

definition incomplete_message :: message_text_state where
  "incomplete_message = \<lparr>mt_parts = [], mt_item_complete = False\<rparr>"

definition is_text_finalized :: "message_text_state \<Rightarrow> bool" where
  "is_text_finalized s =
     (mt_item_complete s \<or> list_ex (\<lambda>(_, p). mp_lifecycle p = TextDone) (mt_parts s))"

text \<open>
  The loop of \<open>take_pending_text\<close> over the parts from the number \<open>n\<close> on: the released text and
  the parts. Slicing a text inside a character panics: \<open>None\<close>.
\<close>

fun take_pending :: "nat \<Rightarrow> message_text_part_state btree \<Rightarrow>
    (ustr \<times> message_text_part_state btree) option" where
  "take_pending n [] = Some ([], [])"
| "take_pending n ((content_index, p) # rest) =
     (if content_index \<noteq> n then Some ([], (content_index, p) # rest)
      else case byte_drop (mp_emitted_bytes p) (mp_text p) of
        None \<Rightarrow> None
      | Some pending \<Rightarrow>
          let p' = p\<lparr>mp_emitted_bytes := utf8_len (mp_text p)\<rparr> in
          if mp_lifecycle p = Streaming then Some (pending, (content_index, p') # rest)
          else map_option (\<lambda>(text0, rest'). (pending @ text0, (content_index, p') # rest'))
                 (take_pending (Suc n) rest))"

definition take_pending_text :: "message_text_state \<Rightarrow> (ustr \<times> message_text_state) option" where
  "take_pending_text s =
     map_option (\<lambda>(text0, parts). (text0, s\<lparr>mt_parts := parts\<rparr>)) (take_pending 0 (mt_parts s))"

section \<open>What has been released\<close>

text \<open>The released prefix of a part, and of a message.\<close>

definition shown_part :: "message_text_part_state \<Rightarrow> ustr" where
  "shown_part p = (case byte_take (mp_emitted_bytes p) (mp_text p) of None \<Rightarrow> [] | Some t \<Rightarrow> t)"

definition shown :: "message_text_part_state btree \<Rightarrow> ustr" where
  "shown ps = concat (map (shown_part \<circ> snd) ps)"

text \<open>The specification: the texts of the parts up to the first gap or the first growing part.\<close>

fun flow :: "nat \<Rightarrow> message_text_part_state btree \<Rightarrow> ustr" where
  "flow n [] = []"
| "flow n ((k, p) # ps) =
     (if k \<noteq> n then [] else mp_text p @ (if mp_lifecycle p = Streaming then [] else flow (Suc n) ps))"

definition held :: "message_text_part_state btree \<Rightarrow> bool" where
  "held ps = list_all (\<lambda>(_, p). mp_emitted_bytes p = 0) ps"

text \<open>Parts whose released text is a prefix of the flow.\<close>

fun releasable :: "nat \<Rightarrow> message_text_part_state btree \<Rightarrow> bool" where
  "releasable n [] = True"
| "releasable n ((k, p) # ps) =
     (if k \<noteq> n then held ((k, p) # ps)
      else is_char_boundary (mp_text p) (mp_emitted_bytes p) \<and>
           (if mp_lifecycle p = TextDone \<and> mp_emitted_bytes p = utf8_len (mp_text p)
            then releasable (Suc n) ps else held ps))"

lemma held_simps [simp]:
  "held []" "held ((k, p) # ps) \<longleftrightarrow> mp_emitted_bytes p = 0 \<and> held ps"
  by (simp_all add: held_def)

lemma shown_simps [simp]: "shown [] = []" "shown ((k, p) # ps) = shown_part p @ shown ps"
  by (simp_all add: shown_def)

lemma shown_part_0 [simp]: "mp_emitted_bytes p = 0 \<Longrightarrow> shown_part p = []"
  by (simp add: shown_part_def)

lemma shown_part_all: "mp_emitted_bytes p = utf8_len (mp_text p) \<Longrightarrow> shown_part p = mp_text p"
proof -
  assume "mp_emitted_bytes p = utf8_len (mp_text p)"
  then have "byte_take (mp_emitted_bytes p) (mp_text p) = Some (mp_text p)"
    by (auto simp: byte_take_iff)
  then show ?thesis by (simp add: shown_part_def)
qed

lemma shown_held: "held ps \<Longrightarrow> shown ps = []"
  by (induction ps) auto

lemma held_releasable: "held ps \<Longrightarrow> releasable n ps"
  by (induction n ps rule: releasable.induct) auto

text \<open>Nothing of the released text is taken back, and after the step it is the whole flow.\<close>

lemma take_pending_releases:
  assumes "releasable n ps"
  shows "\<exists>t ps'. take_pending n ps = Some (t, ps') \<and> shown ps' = shown ps @ t \<and>
           shown ps' = flow n ps \<and> releasable n ps' \<and>
           map (\<lambda>(k, p). (k, mp_text p, mp_lifecycle p)) ps' =
           map (\<lambda>(k, p). (k, mp_text p, mp_lifecycle p)) ps"
  using assms
proof (induction ps arbitrary: n)
  case (Cons e ps)
  obtain k p where e: "e = (k, p)" by (cases e)
  show ?case
  proof (cases "k = n")
    case False
    with e Cons.prems show ?thesis by (auto simp: shown_held)
  next
    case True
    let ?p = "p\<lparr>mp_emitted_bytes := utf8_len (mp_text p)\<rparr>"
    from e True Cons.prems obtain a b
      where text0: "mp_text p = a @ b" "utf8_len a = mp_emitted_bytes p"
      by (auto simp: boundary_iff)
    then have drop: "byte_drop (mp_emitted_bytes p) (mp_text p) = Some b"
      and take: "byte_take (mp_emitted_bytes p) (mp_text p) = Some a"
      by (auto simp: byte_drop_iff byte_take_iff)
    have a: "shown_part p = a" using take by (simp add: shown_part_def)
    have p: "shown_part ?p = a @ b" using text0 by (simp add: shown_part_all)
    have bound: "is_char_boundary (a @ b) (mp_emitted_bytes p + utf8_len b)"
      using boundary_len [of "a @ b"] text0 by simp
    show ?thesis
    proof (cases "mp_lifecycle p = Streaming")
      case streaming: True
      with e True Cons.prems have "held ps" by simp
      with e True streaming drop a p text0 bound show ?thesis by (simp add: shown_held)
    next
      case False
      then have fin: "mp_lifecycle p = TextDone" by (cases "mp_lifecycle p") auto
      have rel: "releasable (Suc n) ps"
        using e True fin Cons.prems by (auto intro: held_releasable split: if_splits)
      have before: "shown ps = [] \<or> b = []"
        using e True fin Cons.prems text0 by (auto simp: shown_held split: if_splits)
      from Cons.IH [OF rel] obtain t ps' where "take_pending (Suc n) ps = Some (t, ps')"
        "shown ps' = shown ps @ t" "shown ps' = flow (Suc n) ps" "releasable (Suc n) ps'"
        "map (\<lambda>(k, p). (k, mp_text p, mp_lifecycle p)) ps' =
         map (\<lambda>(k, p). (k, mp_text p, mp_lifecycle p)) ps" by blast
      with e True fin drop a p text0 before bound show ?thesis by auto
    qed
  qed
qed auto

text \<open>
  An update of a part that the handlers make: the text is kept or grows at its end, what was
  released stays released, and a part that is done does not change.
\<close>

definition extends :: "message_text_part_state \<Rightarrow> message_text_part_state \<Rightarrow> bool" where
  "extends p q \<longleftrightarrow> mp_emitted_bytes q = mp_emitted_bytes p \<and> starts_with (mp_text p) (mp_text q) \<and>
     (mp_lifecycle p = TextDone \<longrightarrow> mp_lifecycle q = TextDone \<and> mp_text q = mp_text p)"

lemma shown_part_extends:
  assumes "extends p q" and "is_char_boundary (mp_text p) (mp_emitted_bytes p)"
  shows "shown_part q = shown_part p" and "is_char_boundary (mp_text q) (mp_emitted_bytes q)"
proof -
  from assms(2) obtain a b where p: "mp_text p = a @ b" "utf8_len a = mp_emitted_bytes p"
    by (auto simp: boundary_iff)
  from assms(1) p obtain r where q: "mp_text q = a @ b @ r" "mp_emitted_bytes q = utf8_len a"
    by (auto simp: extends_def starts_with_iff)
  have "byte_take (mp_emitted_bytes p) (mp_text p) = Some a"
    "byte_take (mp_emitted_bytes q) (mp_text q) = Some a"
    using p q by (auto simp: byte_take_iff)
  then show "shown_part q = shown_part p" by (simp add: shown_part_def)
  show "is_char_boundary (mp_text q) (mp_emitted_bytes q)" using q by (auto simp: boundary_iff)
qed

lemma held_update:
  assumes "held ps" and "\<And>p. map_of ps k = Some p \<Longrightarrow> extends p (f p)"
    and "map_of ps k = None \<Longrightarrow> mp_emitted_bytes (f d) = 0" and "bt_ok ps"
  shows "held (bt_update k d f ps)"
  using assms
proof (induction k d f ps rule: bt_update.induct)
  case (2 k d f k' v m)
  have "k < k' \<Longrightarrow> map_of m k = None" using "2.prems"(4) by (fastforce simp: map_of_eq_None_iff)
  with 2 show ?case by (auto simp: extends_def)
qed auto

lemma releasable_update:
  assumes "n \<le> k" and "releasable n ps" and "bt_ok ps" and "\<And>p. map_of ps k = Some p \<Longrightarrow> extends p (f p)"
    and "map_of ps k = None \<Longrightarrow> mp_emitted_bytes (f d) = 0"
  shows "releasable n (bt_update k d f ps) \<and> shown (bt_update k d f ps) = shown ps"
  using assms
proof (induction ps arbitrary: n)
  case Nil
  then show ?case by simp
next
  case (Cons e ps)
  obtain k' v where e: "e = (k', v)" by (cases e)
  have later: "map_of ps k = None" if "k \<le> k'"
    using that Cons.prems(3) e by (fastforce simp: map_of_eq_None_iff)
  note prems = Cons.prems [unfolded e]
  consider "k < k'" | "k = k'" | "k' < k" by linarith
  then show ?case
  proof cases
    case 1
    with later prems(5) have zero: "mp_emitted_bytes (f d) = 0" by simp
    show ?thesis
    proof (cases "k = n")
      case True
      with 1 prems(2) zero show ?thesis
        by (auto simp: e shown_held intro: held_releasable)
    next
      case False
      show ?thesis
      proof (cases "k' = n")
        case True
        then show ?thesis using 1 prems(1) by simp
      next
        case False
        then show ?thesis using 1 prems(2) zero \<open>k \<noteq> n\<close> by (simp add: e)
      qed
    qed
  next
    case 2
    then have ext: "extends v (f v)" using prems(4) by simp
    show ?thesis
    proof (cases "k' = n")
      case False
      with 2 prems(2) ext show ?thesis by (simp add: e extends_def)
    next
      case True
      with prems(2) have bound: "is_char_boundary (mp_text v) (mp_emitted_bytes v)" by simp
      note keeps = shown_part_extends [OF ext bound]
      from True prems(2) ext have "if mp_lifecycle (f v) = TextDone \<and>
            mp_emitted_bytes (f v) = utf8_len (mp_text (f v)) then releasable (Suc n) ps else held ps"
        by (auto simp: extends_def intro: held_releasable split: if_splits)
      with True 2 keeps show ?thesis by (simp add: e)
    qed
  next
    case 3
    then have old: "map_of (e # ps) k = map_of ps k" by (simp add: e)
    have ok: "bt_ok ps" using prems(3) by simp
    have some: "\<And>p. map_of ps k = Some p \<Longrightarrow> extends p (f p)"
      and none: "map_of ps k = None \<Longrightarrow> mp_emitted_bytes (f d) = 0"
      using prems(4,5) 3 by auto
    note IH = Cons.IH [OF _ _ ok some none]
    have held: "held ps \<Longrightarrow> held (bt_update k d f ps)" by (rule held_update [OF _ some none ok])
    show ?thesis
    proof (cases "k' = n")
      case False
      with 3 prems(2) held show ?thesis by (simp add: e shown_held)
    next
      case True
      with 3 prems(2) held IH [of "Suc n"] show ?thesis
        by (auto simp: e shown_held split: if_splits)
    qed
  qed
qed

text \<open>A message whose parts are all done has released its whole text.\<close>

definition full_text :: "message_text_part_state btree \<Rightarrow> ustr" where
  "full_text ps = concat (map (mp_text \<circ> snd) ps)"

lemma flow_complete:
  assumes "map fst ps = [n..<n + length ps]" and "list_all (\<lambda>(_, p). mp_lifecycle p = TextDone) ps"
  shows "flow n ps = full_text ps"
  using assms
proof (induction ps arbitrary: n)
  case (Cons e ps)
  have "[n..<n + length (e # ps)] = n # [Suc n..<Suc n + length ps]"
    by (subst upt_conv_Cons) simp_all
  with Cons.prems(1) have "fst e = n" and "map fst ps = [Suc n..<Suc n + length ps]" by simp_all
  with Cons.IH [of "Suc n"] Cons.prems(2) show ?case by (cases e) (auto simp: full_text_def)
qed (simp add: full_text_def)

end
