(* ===== verification/Responses_Stream.thy ===== *)
theory Responses_Stream
  imports Responses_Text
begin

text \<open>
  The reader of a streamed model response, \<open>ResponsesStreamAccumulator\<close> of
  \<open>src/src/llm/responses.rs\<close>: it turns the provider's JSON events into text deltas and tool calls,
  and rejects streams that contradict themselves. A method that changes the accumulator returns its
  result together with the state it leaves, also when it fails, so that what a failed method has
  already changed is visible. A slice inside a character and an \<open>expect\<close> that fails are the error
  \<open>Panicked\<close>.
\<close>

section \<open>Errors and methods\<close>

datatype llm_error =
    LlmMessage ustr
  | LlmJson ustr
  | ToolCallArgumentBytesExceeded (actual: nat) (maximum: nat)
  | Panicked

text \<open>\<open>?\<close> on the result of a method that reads, in the state \<open>s\<close>, and of one that changes \<open>s\<close>.\<close>

definition check :: "('a, 'e) result \<Rightarrow> 's \<Rightarrow> ('a \<Rightarrow> ('b, 'e) result \<times> 's) \<Rightarrow> ('b, 'e) result \<times> 's" where
  "check r s k = (case r of Inl e \<Rightarrow> (Err e, s) | Inr a \<Rightarrow> k a)"

definition chain ::
  "('a, 'e) result \<times> 's \<Rightarrow> ('a \<Rightarrow> 's \<Rightarrow> ('b, 'e) result \<times> 's) \<Rightarrow> ('b, 'e) result \<times> 's" where
  "chain m k = (case m of (r, s) \<Rightarrow> (case r of Inl e \<Rightarrow> (Err e, s) | Inr a \<Rightarrow> k a s))"

lemma check_simps [simp]: "check (Ok a) s k = k a" "check (Err e) s k = (Err e, s)"
  by (simp_all add: check_def)

lemma chain_simps [simp]: "chain (Ok a, s) k = k a s" "chain (Err e, s) k = (Err e, s)"
  by (simp_all add: chain_def)

text \<open>\<open>entry(k).or_insert(v)\<close> of a \<open>HashMap\<close>.\<close>

definition hm_or_insert :: "'k \<Rightarrow> 'v \<Rightarrow> ('k, 'v) hmap \<Rightarrow> ('k, 'v) hmap" where
  "hm_or_insert k v m = (if hm_contains m k then m else m @ [(k, v)])"

lemma hm_get_or_insert [simp]:
  "hm_get (hm_or_insert k v m) k' =
     (if k' = k then Some (case hm_get m k of None \<Rightarrow> v | Some w \<Rightarrow> w) else hm_get m k')"
  by (auto simp: hm_or_insert_def hm_contains_def map_add_def split: option.split)

lemma distinct_hm_or_insert: "distinct (hm_keys m) \<Longrightarrow> distinct (hm_keys (hm_or_insert k v m))"
  by (auto simp: hm_or_insert_def hm_contains_iff)

definition quoted :: "ustr \<Rightarrow> ustr" where
  "quoted s = [96] @ s @ [96]"

section \<open>Reading JSON\<close>

fun as_array :: "json \<Rightarrow> json list option" where
  "as_array (JArr vs) = Some vs"
| "as_array _ = None"

definition ok_or :: "'a option \<Rightarrow> 'e \<Rightarrow> ('a, 'e) result" where
  "ok_or x e = (case x of None \<Rightarrow> Err e | Some a \<Rightarrow> Ok a)"

lemma ok_or_simps [simp]: "ok_or None e = Err e" "ok_or (Some a) e = Ok a"
  by (simp_all add: ok_or_def)

definition required_string :: "json \<Rightarrow> ustr \<Rightarrow> ustr \<Rightarrow> (ustr, llm_error) result" where
  "required_string v field context0 =
     ok_or (opt_and_then (json_get field v) as_str)
       (LlmMessage (context0 @ lit '' is missing string field '' @ quoted field))"

definition required_nonempty_string :: "json \<Rightarrow> ustr \<Rightarrow> ustr \<Rightarrow> (ustr, llm_error) result" where
  "required_nonempty_string v field context0 =
     and_then (required_string v field context0) (\<lambda>text0.
       if trim text0 \<noteq> [] then Ok text0
       else Err (LlmMessage (context0 @ lit '' contains an empty string field '' @ quoted field)))"

definition required_u64 :: "json \<Rightarrow> ustr \<Rightarrow> ustr \<Rightarrow> (nat, llm_error) result" where
  "required_u64 v field context0 =
     ok_or (opt_and_then (json_get field v) as_u64)
       (LlmMessage (context0 @ lit '' is missing unsigned integer field '' @ quoted field))"

text \<open>\<open>event.get(field).map(|_| required(..)).transpose()\<close>\<close>

definition if_present ::
  "json \<Rightarrow> ustr \<Rightarrow> (json \<Rightarrow> ustr \<Rightarrow> ustr \<Rightarrow> ('a, llm_error) result) \<Rightarrow> ustr \<Rightarrow>
   ('a option, llm_error) result" where
  "if_present v field required context0 =
     (case json_get field v of
        None \<Rightarrow> Ok None
      | Some _ \<Rightarrow> and_then (required v field context0) (\<lambda>a. Ok (Some a)))"

definition message_content_index :: "json \<Rightarrow> ustr \<Rightarrow> (nat, llm_error) result" where
  "message_content_index event context0 =
     (if json_get (lit ''content_index'') event \<noteq> None
      then required_u64 event (lit ''content_index'') context0 else Ok 0)"

definition validate_assistant_message_role :: "json \<Rightarrow> ustr \<Rightarrow> (unit, llm_error) result" where
  "validate_assistant_message_role item context0 =
     and_then (required_string item (lit ''role'') context0) (\<lambda>role.
       if role \<noteq> lit ''assistant''
       then Err (LlmMessage (context0 @ lit '' contains unsupported message role '' @ quoted role))
       else Ok ())"

fun collect_message_output_text_parts :: "json list \<Rightarrow> ustr \<Rightarrow> (ustr list, llm_error) result" where
  "collect_message_output_text_parts [] context0 = Ok []"
| "collect_message_output_text_parts (part # content) context0 =
     and_then (required_string part (lit ''type'') context0) (\<lambda>part_type.
       if part_type \<noteq> lit ''output_text''
       then Err (LlmMessage (context0 @ lit '' contains unsupported content part type '' @ quoted part_type))
       else and_then (required_string part (lit ''text'') context0) (\<lambda>text0.
            and_then (collect_message_output_text_parts content context0) (\<lambda>parts.
            Ok (text0 # parts))))"

definition required_message_output_text_parts :: "json \<Rightarrow> ustr \<Rightarrow> (ustr list, llm_error) result" where
  "required_message_output_text_parts item context0 =
     and_then (ok_or (opt_and_then (json_get (lit ''content'') item) as_array)
                 (LlmMessage (context0 @ lit '' is missing array field `content`'')))
       (\<lambda>content. collect_message_output_text_parts content context0)"

definition validate_optional_message_output_text :: "json \<Rightarrow> ustr \<Rightarrow> (unit, llm_error) result" where
  "validate_optional_message_output_text item context0 =
     (case json_get (lit ''content'') item of
        None \<Rightarrow> Ok ()
      | Some v \<Rightarrow>
          and_then (ok_or (as_array v)
                      (LlmMessage (context0 @ lit '' contains a non-array field `content`'')))
            (\<lambda>content. and_then (collect_message_output_text_parts content context0) (\<lambda>_. Ok ())))"

definition response_object :: "json \<Rightarrow> ustr \<Rightarrow> (json, llm_error) result" where
  "response_object event event_type =
     ok_or (opt_and_then (json_get (lit ''response'') event) (\<lambda>r. if is_object r then Some r else None))
       (LlmMessage (event_type @ lit '' is missing `response`''))"

definition show_int :: "int \<Rightarrow> ustr" where
  "show_int n = (if n < 0 then [45] @ show_nat (nat (- n)) else show_nat (nat n))"

fun response_error_code :: "json \<Rightarrow> ustr option" where
  "response_error_code (JStr code) = Some code"
| "response_error_code (JInt n) =
     (if as_i64 (JInt n) \<noteq> None \<or> as_u64 (JInt n) \<noteq> None then Some (show_int n) else None)"
| "response_error_code _ = None"

definition optional_response_id :: "json \<Rightarrow> ustr option" where
  "optional_response_id response = opt_and_then (json_get (lit ''id'') response) as_str"

record token_usage =
  prompt_tokens :: nat
  completion_tokens :: nat
  total_tokens :: nat
  reasoning_tokens :: "nat option"

definition checked_usage_u32 :: "nat \<Rightarrow> ustr \<Rightarrow> (nat, llm_error) result" where
  "checked_usage_u32 v field =
     (if v \<le> U32_MAX then Ok v
      else Err (LlmMessage (lit ''Responses usage.'' @ field @ lit '' exceeds the supported u32 range'')))"

definition required_usage_u32 :: "json \<Rightarrow> ustr \<Rightarrow> (nat, llm_error) result" where
  "required_usage_u32 usage field =
     and_then (ok_or (opt_and_then (json_get field usage) as_u64)
                 (LlmMessage (lit ''Responses usage.'' @ field @ lit '' must be an unsigned integer'')))
       (\<lambda>v. checked_usage_u32 v field)"

definition parse_reasoning_tokens :: "json \<Rightarrow> (nat option, llm_error) result" where
  "parse_reasoning_tokens usage =
     (case json_get (lit ''output_tokens_details'') usage of
        None \<Rightarrow> Ok None
      | Some details \<Rightarrow>
          if \<not> is_object details
          then Err (LlmMessage (lit ''Responses usage.output_tokens_details must be an object when present''))
          else case json_get (lit ''reasoning_tokens'') details of
            None \<Rightarrow> Ok None
          | Some v \<Rightarrow>
              and_then (ok_or (as_u64 v) (LlmMessage (lit
                ''Responses usage.output_tokens_details.reasoning_tokens must be an unsigned integer'')))
                (\<lambda>n. and_then (checked_usage_u32 n (lit ''output_tokens_details.reasoning_tokens''))
                  (\<lambda>n. Ok (Some n))))"

definition parse_usage :: "json \<Rightarrow> (token_usage option, llm_error) result" where
  "parse_usage response =
     (case json_get (lit ''usage'') response of
        None \<Rightarrow> Ok None
      | Some usage \<Rightarrow>
          if \<not> is_object usage
          then Err (LlmMessage (lit ''Responses usage must be an object when present''))
          else and_then (required_usage_u32 usage (lit ''input_tokens'')) (\<lambda>prompt.
               and_then (required_usage_u32 usage (lit ''output_tokens'')) (\<lambda>completion.
               and_then (required_usage_u32 usage (lit ''total_tokens'')) (\<lambda>total0.
               and_then (parse_reasoning_tokens usage) (\<lambda>reasoning.
               Ok (Some \<lparr>prompt_tokens = prompt, completion_tokens = completion,
                         total_tokens = total0, reasoning_tokens = reasoning\<rparr>))))))"

text \<open>
  \<open>max_by_key\<close> returns the last of several longest candidates. Every candidate has to be the
  beginning of it.
\<close>

definition consistent_arguments :: "ustr option list \<Rightarrow> ustr \<Rightarrow> (ustr option, llm_error) result" where
  "consistent_arguments candidates context0 =
     (case List.map_filter (\<lambda>c. c) candidates of
        [] \<Rightarrow> Ok None
      | c # cs \<Rightarrow>
          let final_candidate = foldl (\<lambda>best d. if utf8_len best \<le> utf8_len d then d else best) c cs
          in if list_ex (\<lambda>d. \<not> starts_with d final_candidate) (c # cs)
             then Err (LlmMessage (context0 @ lit '' contains conflicting function arguments''))
             else Ok (Some final_candidate))"

section \<open>Identities of output items\<close>

datatype response_output_item_kind = KMessage | KFunctionCall | KReasoning

fun kind_as_str :: "response_output_item_kind \<Rightarrow> ustr" where
  "kind_as_str KMessage = lit ''message''"
| "kind_as_str KFunctionCall = lit ''function_call''"
| "kind_as_str KReasoning = lit ''reasoning''"

record identity_registry =
  item_to_output :: "(ustr, nat \<times> response_output_item_kind) hmap"
  output_index_to_item :: "(nat, ustr \<times> response_output_item_kind) hmap"

definition ensure_item_unchanged ::
  "identity_registry \<Rightarrow> ustr \<Rightarrow> nat \<Rightarrow> response_output_item_kind \<Rightarrow> (unit, llm_error) result" where
  "ensure_item_unchanged reg item_id output_index kind =
     (case hm_get (item_to_output reg) item_id of
        None \<Rightarrow> Ok ()
      | Some (i, k) \<Rightarrow>
          if i \<noteq> output_index \<or> k \<noteq> kind
          then Err (LlmMessage (lit ''Responses output item '' @ quoted item_id @
                 lit '' changed identity from '' @ kind_as_str k @ lit '' at index '' @ quoted (show_nat i) @
                 lit '' to '' @ kind_as_str kind @ lit '' at index '' @ quoted (show_nat output_index)))
          else Ok ())"

definition ensure_index_unchanged ::
  "identity_registry \<Rightarrow> ustr \<Rightarrow> nat \<Rightarrow> response_output_item_kind \<Rightarrow> (unit, llm_error) result" where
  "ensure_index_unchanged reg item_id output_index kind =
     (case hm_get (output_index_to_item reg) output_index of
        None \<Rightarrow> Ok ()
      | Some (i, k) \<Rightarrow>
          if i \<noteq> item_id \<or> k \<noteq> kind
          then Err (LlmMessage (lit ''Responses output index '' @ quoted (show_nat output_index) @
                 lit '' changed identity from '' @ kind_as_str k @ lit '' item '' @ quoted i @
                 lit '' to '' @ kind_as_str kind @ lit '' item '' @ quoted item_id))
          else Ok ())"

definition ensure_binding ::
  "identity_registry \<Rightarrow> ustr \<Rightarrow> nat \<Rightarrow> response_output_item_kind \<Rightarrow> (unit, llm_error) result" where
  "ensure_binding reg item_id output_index kind =
     and_then (ensure_item_unchanged reg item_id output_index kind)
       (\<lambda>_. ensure_index_unchanged reg item_id output_index kind)"

text \<open>\<open>bind\<close> changes nothing when it fails.\<close>

definition bind_identity ::
  "identity_registry \<Rightarrow> ustr \<Rightarrow> nat \<Rightarrow> response_output_item_kind \<Rightarrow>
   (identity_registry, llm_error) result" where
  "bind_identity reg item_id output_index kind =
     and_then (ensure_binding reg item_id output_index kind) (\<lambda>_.
       Ok (reg\<lparr>item_to_output := hm_or_insert item_id (output_index, kind) (item_to_output reg),
               output_index_to_item :=
                 hm_or_insert output_index (item_id, kind) (output_index_to_item reg)\<rparr>))"

section \<open>The accumulator\<close>

datatype finish_reason = FStop | FToolCall | FLength | FCancelled | FError

datatype llm_event =
    TextDelta ustr
  | ReasoningSummaryDelta ustr
  | ToolCallStart (start_call_id: ustr) (start_tool_name: ustr)
  | ToolCallArgsDelta (args_call_id: ustr) (args_delta: ustr)
  | Finished finish_reason "token_usage option"

datatype responses_terminal =
    TCompleted ustr finish_reason "token_usage option"
  | TFailed "ustr option" "ustr option" ustr
  | TIncomplete "ustr option" ustr finish_reason "token_usage option"

record responses_stream_update =
  ru_events :: "llm_event list"
  ru_terminal :: "responses_terminal option"

record emitted_tool_call =
  etc_name :: ustr
  etc_arguments :: ustr

datatype function_argument_key = ItemKey ustr | CallKey ustr

fun key_description :: "function_argument_key \<Rightarrow> ustr" where
  "key_description (ItemKey item_id) = lit ''item '' @ quoted item_id"
| "key_description (CallKey call_id) = lit ''call '' @ quoted call_id"

datatype function_item_lifecycle = ItemAdded | ItemComplete

record function_item_state =
  fi_output_index :: nat
  fi_call_id :: ustr
  fi_name :: ustr
  fi_lifecycle :: function_item_lifecycle

datatype function_argument_lifecycle = Accumulating | Finalized

record function_argument_state =
  fa_value :: ustr
  fa_lifecycle :: function_argument_lifecycle

datatype pending_argument_merge =
    MergeNone
  | KeepCall nat function_argument_lifecycle
  | MoveItem nat function_argument_lifecycle

fun merge_length :: "pending_argument_merge \<Rightarrow> nat" where
  "merge_length MergeNone = 0"
| "merge_length (KeepCall len _) = len"
| "merge_length (MoveItem len _) = len"

fun merge_lifecycle :: "pending_argument_merge \<Rightarrow> function_argument_lifecycle" where
  "merge_lifecycle MergeNone = Accumulating"
| "merge_lifecycle (KeepCall _ l) = l"
| "merge_lifecycle (MoveItem _ l) = l"

text \<open>A \<open>HashSet\<close> is the list of its elements.\<close>

record accumulator =
  max_argument_bytes :: nat
  pending_arguments :: "(function_argument_key, function_argument_state) hmap"
  item_to_call :: "(ustr, ustr) hmap"
  call_to_item :: "(ustr, ustr) hmap"
  function_items :: "(ustr, function_item_state) hmap"
  incomplete_reasoning_items :: "ustr list"
  completed_reasoning_items :: "ustr list"
  emitted_tool_calls :: "(ustr, emitted_tool_call) hmap"
  output_identities :: identity_registry
  message_text_items :: "(ustr, message_text_state) hmap"
  acc_terminal :: "responses_terminal option"

definition new_accumulator :: "nat \<Rightarrow> accumulator" where
  "new_accumulator max_tool_call_argument_bytes =
     \<lparr>max_argument_bytes = max_tool_call_argument_bytes, pending_arguments = [], item_to_call = [],
      call_to_item = [], function_items = [], incomplete_reasoning_items = [],
      completed_reasoning_items = [], emitted_tool_calls = [],
      output_identities = \<lparr>item_to_output = [], output_index_to_item = []\<rparr>,
      message_text_items = [], acc_terminal = None\<rparr>"

text \<open>The accumulator and the events of the current update.\<close>

type_synonym stream_state = "accumulator \<times> llm_event list"

definition acc_binding ::
  "ustr \<Rightarrow> nat \<Rightarrow> response_output_item_kind \<Rightarrow> accumulator \<Rightarrow> (accumulator, llm_error) result" where
  "acc_binding item_id output_index kind acc =
     and_then (bind_identity (output_identities acc) item_id output_index kind)
       (\<lambda>reg. Ok (acc\<lparr>output_identities := reg\<rparr>))"

section \<open>Function arguments\<close>

definition ensure_argument_bytes :: "accumulator \<Rightarrow> nat \<Rightarrow> (unit, llm_error) result" where
  "ensure_argument_bytes acc actual0 =
     (if actual0 > max_argument_bytes acc
      then Err (ToolCallArgumentBytesExceeded actual0 (max_argument_bytes acc)) else Ok ())"

definition ensure_argument_append :: "accumulator \<Rightarrow> nat \<Rightarrow> nat \<Rightarrow> (unit, llm_error) result" where
  "ensure_argument_append acc current_length delta_length =
     ensure_argument_bytes acc (sat_add current_length delta_length)"

definition ensure_argument_delta_allowed ::
  "function_argument_key \<Rightarrow> function_argument_lifecycle \<Rightarrow> (unit, llm_error) result" where
  "ensure_argument_delta_allowed key lifecycle =
     (if lifecycle = Finalized
      then Err (LlmMessage (lit ''Responses function argument '' @ key_description key @
                  lit '' received a delta after it was finalized''))
      else Ok ())"

definition merged_argument_lifecycle ::
  "function_argument_state \<Rightarrow> function_argument_state \<Rightarrow> function_argument_state \<Rightarrow> ustr \<Rightarrow> ustr \<Rightarrow>
   (function_argument_lifecycle, llm_error) result" where
  "merged_argument_lifecycle item_arguments call_arguments canonical item_id call_id =
     (if list_ex (\<lambda>a. fa_lifecycle a = Finalized \<and> fa_value a \<noteq> fa_value canonical)
           [item_arguments, call_arguments]
      then Err (LlmMessage (lit ''Responses item '' @ quoted item_id @ lit '' and function call '' @
                  quoted call_id @ lit '' disagree with finalized arguments''))
      else Ok (if fa_lifecycle item_arguments = Finalized \<or> fa_lifecycle call_arguments = Finalized
               then Finalized else Accumulating))"

definition plan_pending_merge ::
  "accumulator \<Rightarrow> ustr \<Rightarrow> ustr \<Rightarrow> (pending_argument_merge, llm_error) result" where
  "plan_pending_merge acc item_id call_id =
     (case (hm_get (pending_arguments acc) (ItemKey item_id),
            hm_get (pending_arguments acc) (CallKey call_id)) of
        (None, None) \<Rightarrow> Ok MergeNone
      | (None, Some c) \<Rightarrow> Ok (KeepCall (utf8_len (fa_value c)) (fa_lifecycle c))
      | (Some i, None) \<Rightarrow> Ok (MoveItem (utf8_len (fa_value i)) (fa_lifecycle i))
      | (Some i, Some c) \<Rightarrow>
          if starts_with (fa_value i) (fa_value c)
          then and_then (merged_argument_lifecycle i c c item_id call_id)
                 (\<lambda>l. Ok (KeepCall (utf8_len (fa_value c)) l))
          else if starts_with (fa_value c) (fa_value i)
          then and_then (merged_argument_lifecycle i c i item_id call_id)
                 (\<lambda>l. Ok (MoveItem (utf8_len (fa_value i)) l))
          else Err (LlmMessage (lit ''Responses item '' @ quoted item_id @ lit '' and function call '' @
                      quoted call_id @ lit '' contain conflicting arguments'')))"

definition plan_item_to_call_binding ::
  "accumulator \<Rightarrow> ustr \<Rightarrow> ustr \<Rightarrow> (pending_argument_merge, llm_error) result" where
  "plan_item_to_call_binding acc item_id call_id =
     (if (case hm_get (item_to_call acc) item_id of None \<Rightarrow> False | Some c \<Rightarrow> c \<noteq> call_id)
      then Err (LlmMessage (lit ''Responses item '' @ quoted item_id @
                  lit '' was associated with multiple function calls''))
      else case hm_get (call_to_item acc) call_id of
        Some i \<Rightarrow>
          if i \<noteq> item_id
          then Err (LlmMessage (lit ''Responses function call '' @ quoted call_id @
                      lit '' was associated with multiple items ('' @ quoted i @ lit '' and '' @
                      quoted item_id @ lit '')''))
          else plan_pending_merge acc item_id call_id
      | None \<Rightarrow> plan_pending_merge acc item_id call_id)"

definition merge_pending ::
  "ustr \<Rightarrow> ustr \<Rightarrow> pending_argument_merge \<Rightarrow>
   (function_argument_key, function_argument_state) hmap \<Rightarrow>
   (function_argument_key, function_argument_state) hmap" where
  "merge_pending item_id call_id merge m =
     (case merge of
        MergeNone \<Rightarrow> m
      | KeepCall _ l \<Rightarrow>
          hm_remove (ItemKey item_id) (hm_modify (CallKey call_id) (\<lambda>a. a\<lparr>fa_lifecycle := l\<rparr>) m)
      | MoveItem _ l \<Rightarrow>
          (case hm_get m (ItemKey item_id) of
             None \<Rightarrow> m
           | Some a \<Rightarrow>
               hm_insert (CallKey call_id) (a\<lparr>fa_lifecycle := l\<rparr>) (hm_remove (ItemKey item_id) m)))"

definition apply_item_to_call_binding ::
  "accumulator \<Rightarrow> ustr \<Rightarrow> ustr \<Rightarrow> pending_argument_merge \<Rightarrow> accumulator" where
  "apply_item_to_call_binding acc item_id call_id merge =
     acc\<lparr>item_to_call := hm_or_insert item_id call_id (item_to_call acc),
         call_to_item := hm_or_insert call_id item_id (call_to_item acc),
         pending_arguments := merge_pending item_id call_id merge (pending_arguments acc)\<rparr>"

definition bind_item_to_call :: "accumulator \<Rightarrow> ustr \<Rightarrow> ustr \<Rightarrow> (accumulator, llm_error) result" where
  "bind_item_to_call acc item_id call_id =
     and_then (plan_item_to_call_binding acc item_id call_id)
       (\<lambda>merge. Ok (apply_item_to_call_binding acc item_id call_id merge))"

definition canonical_argument_key ::
  "accumulator \<Rightarrow> ustr option \<Rightarrow> ustr option \<Rightarrow> function_argument_key option" where
  "canonical_argument_key acc item_id call_id =
     (case call_id of
        Some c \<Rightarrow> Some (CallKey c)
      | None \<Rightarrow> map_option (\<lambda>i. case hm_get (item_to_call acc) i of
                                 None \<Rightarrow> ItemKey i | Some c \<Rightarrow> CallKey c) item_id)"

text \<open>\<open>remember_final_arguments\<close> changes nothing when it fails.\<close>

definition remember_final_arguments ::
  "accumulator \<Rightarrow> function_argument_key \<Rightarrow> ustr \<Rightarrow> (accumulator, llm_error) result" where
  "remember_final_arguments acc key arguments =
     and_then (ensure_argument_bytes acc (utf8_len arguments)) (\<lambda>_.
       let finalized = \<lparr>fa_value = arguments, fa_lifecycle = Finalized\<rparr> in
       case hm_get (pending_arguments acc) key of
         None \<Rightarrow> Ok (acc\<lparr>pending_arguments := hm_insert key finalized (pending_arguments acc)\<rparr>)
       | Some existing \<Rightarrow>
           if fa_value existing = arguments
           then Ok (acc\<lparr>pending_arguments := hm_modify key (\<lambda>_. finalized) (pending_arguments acc)\<rparr>)
           else if fa_lifecycle existing = Finalized
           then Err (LlmMessage (lit ''Responses function call '' @ key_description key @
                       lit '' was finalized with different arguments''))
           else if starts_with (fa_value existing) arguments
           then Ok (acc\<lparr>pending_arguments := hm_modify key (\<lambda>_. finalized) (pending_arguments acc)\<rparr>)
           else Err (LlmMessage (lit ''Responses function call '' @ key_description key @
                       lit '' completed with conflicting arguments'')))"

definition emit_tool_call ::
  "ustr \<Rightarrow> ustr \<Rightarrow> ustr \<Rightarrow> stream_state \<Rightarrow> (unit, llm_error) result \<times> stream_state" where
  "emit_tool_call call_id name arguments s =
     (case s of (acc, events) \<Rightarrow>
      case hm_get (emitted_tool_calls acc) call_id of
        Some existing \<Rightarrow>
          (if etc_name existing \<noteq> name \<or> etc_arguments existing \<noteq> arguments
           then Err (LlmMessage (lit ''Responses function call '' @ quoted call_id @
                       lit '' was emitted with conflicting content''))
           else Ok (), s)
      | None \<Rightarrow>
          check (remember_final_arguments acc (CallKey call_id) arguments) s (\<lambda>acc.
            (Ok (),
             acc\<lparr>emitted_tool_calls :=
                   hm_insert call_id \<lparr>etc_name = name, etc_arguments = arguments\<rparr> (emitted_tool_calls acc)\<rparr>,
             events @ [ToolCallStart call_id name, ToolCallArgsDelta call_id arguments])))"

definition identity_changed :: "function_item_state \<Rightarrow> nat \<Rightarrow> ustr \<Rightarrow> ustr \<Rightarrow> bool" where
  "identity_changed existing output_index call_id name =
     (fi_output_index existing \<noteq> output_index \<or> fi_call_id existing \<noteq> call_id \<or> fi_name existing \<noteq> name)"

definition handle_function_call_done ::
  "json \<Rightarrow> ustr \<Rightarrow> nat \<Rightarrow> stream_state \<Rightarrow> (unit, llm_error) result \<times> stream_state" where
  "handle_function_call_done item item_id output_index s =
     (let context0 = lit ''Responses function_call item''; acc = fst s in
      check (required_nonempty_string item (lit ''call_id'') context0) s (\<lambda>call_id.
      check (required_nonempty_string item (lit ''name'') context0) s (\<lambda>name.
      check (if_present item (lit ''arguments'') required_string context0) s (\<lambda>inline_arguments.
      check (case inline_arguments of None \<Rightarrow> Ok ()
             | Some arguments \<Rightarrow> ensure_argument_bytes acc (utf8_len arguments)) s (\<lambda>_.
      check (ensure_binding (output_identities acc) item_id output_index KFunctionCall) s (\<lambda>_.
      if (case hm_get (function_items acc) item_id of
            None \<Rightarrow> False | Some existing \<Rightarrow> identity_changed existing output_index call_id name)
      then (Err (LlmMessage (lit ''Responses function item '' @ quoted item_id @
              lit '' changed identity between added and done'')), s)
      else
      check (bind_item_to_call acc item_id call_id) s (\<lambda>acc.
      let s = (acc, snd s);
          call_arguments = map_option fa_value (hm_get (pending_arguments acc) (CallKey call_id)) in
      check (consistent_arguments [inline_arguments, call_arguments] context0) s (\<lambda>merged.
      check (ok_or merged (LlmMessage (lit ''Responses function_call item is missing `arguments`''))) s
        (\<lambda>arguments.
      check (ensure_argument_bytes acc (utf8_len arguments)) s (\<lambda>_.
      chain (emit_tool_call call_id name arguments s) (\<lambda>_ s.
      check (acc_binding item_id output_index KFunctionCall (fst s)) s (\<lambda>acc.
      (Ok (),
       acc\<lparr>function_items :=
             hm_insert item_id \<lparr>fi_output_index = output_index, fi_call_id = call_id, fi_name = name,
                                fi_lifecycle = ItemComplete\<rparr> (function_items acc)\<rparr>,
       snd s)))))))))))))"

text \<open>The consistency checks of \<open>arguments.done\<close> and \<open>arguments.delta\<close> against a known item.\<close>

definition check_done_item ::
  "accumulator \<Rightarrow> ustr option \<Rightarrow> nat option \<Rightarrow> ustr option \<Rightarrow> ustr option \<Rightarrow> (unit, llm_error) result" where
  "check_done_item acc item_id output_index explicit_call_id name =
     (case item_id of
        None \<Rightarrow> Ok ()
      | Some item_id \<Rightarrow>
          and_then
            (case hm_get (function_items acc) item_id of
               None \<Rightarrow> Ok ()
             | Some existing \<Rightarrow>
                 let changed = (\<lambda>what. LlmMessage (lit ''Responses function item '' @ quoted item_id @
                                  lit '' changed '' @ what @ lit '' during arguments.done'')) in
                 if (case output_index of None \<Rightarrow> False | Some i \<Rightarrow> i \<noteq> fi_output_index existing)
                 then Err (changed (lit ''output_index''))
                 else if (case explicit_call_id of None \<Rightarrow> False | Some c \<Rightarrow> c \<noteq> fi_call_id existing)
                 then Err (changed (lit ''call_id''))
                 else if (case name of None \<Rightarrow> False | Some n \<Rightarrow> n \<noteq> fi_name existing)
                 then Err (changed (lit ''name''))
                 else Ok ())
            (\<lambda>_. case output_index of
               None \<Rightarrow> Ok ()
             | Some i \<Rightarrow> ensure_binding (output_identities acc) item_id i KFunctionCall))"

definition check_delta_item ::
  "accumulator \<Rightarrow> ustr option \<Rightarrow> nat option \<Rightarrow> (unit, llm_error) result" where
  "check_delta_item acc item_id output_index =
     (case item_id of
        None \<Rightarrow> Ok ()
      | Some item_id \<Rightarrow>
          and_then
            (case hm_get (function_items acc) item_id of
               None \<Rightarrow> Ok ()
             | Some existing \<Rightarrow>
                 if (case output_index of None \<Rightarrow> False | Some i \<Rightarrow> i \<noteq> fi_output_index existing)
                 then Err (LlmMessage (lit ''Responses function item '' @ quoted item_id @
                        lit '' changed output_index during arguments.delta''))
                 else Ok ())
            (\<lambda>_. case output_index of
               None \<Rightarrow> Ok ()
             | Some i \<Rightarrow> ensure_binding (output_identities acc) item_id i KFunctionCall))"

text \<open>\<open>if let (Some(item_id), Some(output_index)) = .. \{ self.output_identities.bind(..)? \}\<close>\<close>

definition bind_output_if_known ::
  "ustr option \<Rightarrow> nat option \<Rightarrow> accumulator \<Rightarrow> (accumulator, llm_error) result" where
  "bind_output_if_known item_id output_index acc =
     (case (item_id, output_index) of
        (Some i, Some n) \<Rightarrow> acc_binding i n KFunctionCall acc
      | _ \<Rightarrow> Ok acc)"

definition check_emitted ::
  "accumulator \<Rightarrow> ustr option \<Rightarrow> ustr \<Rightarrow> ustr option \<Rightarrow> (unit, llm_error) result" where
  "check_emitted acc call_id arguments name =
     (case call_id of
        None \<Rightarrow> Ok ()
      | Some call_id \<Rightarrow>
          (case hm_get (emitted_tool_calls acc) call_id of
             None \<Rightarrow> Ok ()
           | Some emitted \<Rightarrow>
               if etc_arguments emitted \<noteq> arguments
               then Err (LlmMessage (lit ''Responses function call '' @ quoted call_id @
                           lit '' completed with conflicting arguments''))
               else if (case name of None \<Rightarrow> False | Some n \<Rightarrow> etc_name emitted \<noteq> n)
               then Err (LlmMessage (lit ''Responses function call '' @ quoted call_id @
                           lit '' completed with a conflicting name''))
               else Ok ()))"

definition handle_function_call_arguments_done ::
  "json \<Rightarrow> stream_state \<Rightarrow> (unit, llm_error) result \<times> stream_state" where
  "handle_function_call_arguments_done event s =
     (let context0 = lit ''response.function_call_arguments.done''; acc = fst s in
      check (required_string event (lit ''arguments'') context0) s (\<lambda>arguments.
      check (if_present event (lit ''item_id'') required_nonempty_string context0) s (\<lambda>item_id.
      check (if_present event (lit ''call_id'') required_nonempty_string context0) s (\<lambda>explicit_call_id.
      check (if_present event (lit ''output_index'') required_u64 context0) s (\<lambda>output_index.
      check (if_present event (lit ''name'') required_nonempty_string context0) s (\<lambda>name.
      if item_id = None \<and> explicit_call_id = None
      then (Err (LlmMessage (lit
              ''response.function_call_arguments.done requires `item_id` or `call_id`'')), s)
      else
      check (ensure_argument_bytes acc (utf8_len arguments)) s (\<lambda>_.
      check (check_done_item acc item_id output_index explicit_call_id name) s (\<lambda>_.
      check (case (item_id, explicit_call_id) of
               (Some i, Some c) \<Rightarrow> bind_item_to_call acc i c
             | _ \<Rightarrow> Ok acc) s (\<lambda>acc.
      let s = (acc, snd s) in
      check (ok_or (canonical_argument_key acc item_id explicit_call_id) Panicked) s (\<lambda>key.
      check (remember_final_arguments acc key arguments) s (\<lambda>acc.
      let s = (acc, snd s) in
      check (bind_output_if_known item_id output_index acc) s (\<lambda>acc.
      let s = (acc, snd s);
          call_id = (case explicit_call_id of
                       Some c \<Rightarrow> Some c
                     | None \<Rightarrow> opt_and_then item_id (hm_get (item_to_call acc))) in
      (check_emitted acc call_id arguments name, s)))))))))))))"

text \<open>
  The key of a delta, with the binding of an item to its call that the event carries; the checks
  come before the binding is applied.
\<close>

definition delta_key ::
  "accumulator \<Rightarrow> ustr option \<Rightarrow> ustr option \<Rightarrow> nat \<Rightarrow>
   (function_argument_key \<times> accumulator, llm_error) result" where
  "delta_key acc item_id call_id delta_length =
     (case (item_id, call_id) of
        (Some i, Some c) \<Rightarrow>
          and_then (plan_item_to_call_binding acc i c) (\<lambda>merge.
          and_then (ensure_argument_delta_allowed (CallKey c) (merge_lifecycle merge)) (\<lambda>_.
          and_then (ensure_argument_append acc (merge_length merge) delta_length) (\<lambda>_.
          Ok (CallKey c, apply_item_to_call_binding acc i c merge))))
      | _ \<Rightarrow>
          and_then (ok_or (canonical_argument_key acc item_id call_id) Panicked) (\<lambda>key.
          let current = hm_get (pending_arguments acc) key in
          and_then (ensure_argument_delta_allowed key
                      (case current of None \<Rightarrow> Accumulating | Some a \<Rightarrow> fa_lifecycle a)) (\<lambda>_.
          and_then (ensure_argument_append acc
                      (case current of None \<Rightarrow> 0 | Some a \<Rightarrow> utf8_len (fa_value a)) delta_length) (\<lambda>_.
          Ok (key, acc)))))"

definition push_argument :: "function_argument_key \<Rightarrow> ustr \<Rightarrow> accumulator \<Rightarrow> accumulator" where
  "push_argument key delta acc =
     acc\<lparr>pending_arguments :=
           hm_modify key (\<lambda>a. a\<lparr>fa_value := fa_value a @ delta\<rparr>)
             (hm_or_insert key \<lparr>fa_value = [], fa_lifecycle = Accumulating\<rparr> (pending_arguments acc))\<rparr>"

definition handle_function_call_arguments_delta ::
  "json \<Rightarrow> stream_state \<Rightarrow> (unit, llm_error) result \<times> stream_state" where
  "handle_function_call_arguments_delta event s =
     (let context0 = lit ''response.function_call_arguments.delta''; acc = fst s in
      check (required_string event (lit ''delta'') context0) s (\<lambda>delta.
      check (if_present event (lit ''item_id'') required_nonempty_string context0) s (\<lambda>item_id.
      check (if_present event (lit ''call_id'') required_nonempty_string context0) s (\<lambda>call_id.
      check (if_present event (lit ''output_index'') required_u64 context0) s (\<lambda>output_index.
      if item_id = None \<and> call_id = None
      then (Err (LlmMessage (lit
              ''response.function_call_arguments.delta requires `item_id` or `call_id`'')), s)
      else
      check (check_delta_item acc item_id output_index) s (\<lambda>_.
      check (delta_key acc item_id call_id (utf8_len delta)) s (\<lambda>(key, acc).
      let acc = push_argument key delta acc; s = (acc, snd s) in
      check (bind_output_if_known item_id output_index acc) s (\<lambda>acc.
      (Ok (), acc, snd s)))))))))"

section \<open>Messages\<close>

definition message_of :: "accumulator \<Rightarrow> ustr \<Rightarrow> message_text_state" where
  "message_of acc item_id =
     (case hm_get (message_text_items acc) item_id of None \<Rightarrow> incomplete_message | Some st \<Rightarrow> st)"

text \<open>
  The last lines of the text handlers: the state of the message is stored, the released text is
  pushed unless it is empty (an empty delta is passed on).
\<close>

definition release_text ::
  "ustr \<Rightarrow> message_text_state \<Rightarrow> bool \<Rightarrow> stream_state \<Rightarrow> (unit, llm_error) result \<times> stream_state" where
  "release_text item_id st push_empty s =
     (case s of (acc, events) \<Rightarrow>
      case take_pending_text st of
        None \<Rightarrow> (Err Panicked, acc\<lparr>message_text_items := hm_insert item_id st (message_text_items acc)\<rparr>, events)
      | Some (pending, st') \<Rightarrow>
          (Ok (), acc\<lparr>message_text_items := hm_insert item_id st' (message_text_items acc)\<rparr>,
           if pending \<noteq> [] \<or> push_empty then events @ [TextDelta pending] else events))"

definition update_part ::
  "nat \<Rightarrow> (message_text_part_state \<Rightarrow> message_text_part_state) \<Rightarrow> message_text_state \<Rightarrow>
   message_text_state" where
  "update_part content_index f st =
     st\<lparr>mt_parts := bt_update content_index incomplete_part f (mt_parts st)\<rparr>"

definition finish_part :: "ustr \<Rightarrow> message_text_part_state \<Rightarrow> message_text_part_state" where
  "finish_part text0 p = p\<lparr>mp_text := text0, mp_lifecycle := TextDone\<rparr>"

definition delta_after_done :: "message_text_state \<Rightarrow> nat \<Rightarrow> bool" where
  "delta_after_done st content_index =
     (mt_item_complete st \<or>
      (case map_of (mt_parts st) content_index of
         None \<Rightarrow> False | Some p \<Rightarrow> mp_lifecycle p = TextDone))"

definition handle_output_text_delta ::
  "json \<Rightarrow> stream_state \<Rightarrow> (unit, llm_error) result \<times> stream_state" where
  "handle_output_text_delta event s =
     (let context0 = lit ''response.output_text.delta''; acc = fst s in
      check (required_string event (lit ''delta'') context0) s (\<lambda>delta.
      check (required_nonempty_string event (lit ''item_id'') context0) s (\<lambda>item_id.
      check (required_u64 event (lit ''output_index'') context0) s (\<lambda>output_index.
      check (message_content_index event context0) s (\<lambda>content_index.
      check (ensure_binding (output_identities acc) item_id output_index KMessage) s (\<lambda>_.
      if (case hm_get (message_text_items acc) item_id of
            None \<Rightarrow> False | Some st \<Rightarrow> delta_after_done st content_index)
      then (Err (LlmMessage (lit ''Responses message item '' @ quoted item_id @ lit '' part '' @
              show_nat content_index @ lit '' received a text delta after its text was finalized'')), s)
      else
      check (acc_binding item_id output_index KMessage acc) s (\<lambda>acc.
      release_text item_id
        (update_part content_index (\<lambda>p. p\<lparr>mp_text := mp_text p @ delta\<rparr>) (message_of acc item_id))
        (delta = []) (acc, snd s))))))))"

text \<open>The checks of \<open>output_text.done\<close> on a known message: \<open>Ok True\<close> is the early return.\<close>

definition check_text_done ::
  "message_text_state \<Rightarrow> ustr \<Rightarrow> nat \<Rightarrow> ustr \<Rightarrow> (bool, llm_error) result" where
  "check_text_done st item_id content_index text0 =
     (if mt_item_complete st
      then Err (LlmMessage (lit ''Responses message item '' @ quoted item_id @
                  lit '' received output_text.done after item completion''))
      else case map_of (mt_parts st) content_index of
        None \<Rightarrow> Ok False
      | Some p \<Rightarrow>
          if mp_lifecycle p = TextDone
          then if mp_text p = text0 then Ok True
               else Err (LlmMessage (lit ''Responses message item '' @ quoted item_id @ lit '' part '' @
                      show_nat content_index @ lit '' received conflicting output_text.done values''))
          else if \<not> starts_with (mp_text p) text0
          then Err (LlmMessage (lit ''Responses message item '' @ quoted item_id @ lit '' part '' @
                 show_nat content_index @
                 lit '' finalized text that conflicts with its streamed deltas''))
          else Ok False)"

definition handle_output_text_done ::
  "json \<Rightarrow> stream_state \<Rightarrow> (unit, llm_error) result \<times> stream_state" where
  "handle_output_text_done event s =
     (let context0 = lit ''response.output_text.done''; acc = fst s in
      check (required_string event (lit ''text'') context0) s (\<lambda>text0.
      check (required_nonempty_string event (lit ''item_id'') context0) s (\<lambda>item_id.
      check (required_u64 event (lit ''output_index'') context0) s (\<lambda>output_index.
      check (message_content_index event context0) s (\<lambda>content_index.
      check (ensure_binding (output_identities acc) item_id output_index KMessage) s (\<lambda>_.
      check (case hm_get (message_text_items acc) item_id of
               None \<Rightarrow> Ok False
             | Some st \<Rightarrow> check_text_done st item_id content_index text0) s (\<lambda>same.
      if same then (Ok (), s)
      else
      check (acc_binding item_id output_index KMessage acc) s (\<lambda>acc.
      release_text item_id (update_part content_index (finish_part text0) (message_of acc item_id))
        False (acc, snd s)))))))))"

definition nth_opt :: "'a list \<Rightarrow> nat \<Rightarrow> 'a option" where
  "nth_opt xs n = (if n < length xs then Some (xs ! n) else None)"

definition same_parts :: "message_text_state \<Rightarrow> ustr list \<Rightarrow> bool" where
  "same_parts st completed_parts =
     (length (mt_parts st) = length completed_parts \<and>
      list_all (\<lambda>(i, p). nth_opt completed_parts i = Some (mp_text p)) (mt_parts st))"

fun check_observed_parts ::
  "ustr \<Rightarrow> ustr list \<Rightarrow> message_text_part_state btree \<Rightarrow> (unit, llm_error) result" where
  "check_observed_parts item_id completed_parts [] = Ok ()"
| "check_observed_parts item_id completed_parts ((content_index, p) # parts) =
     (case nth_opt completed_parts content_index of
        None \<Rightarrow> Err (LlmMessage (lit ''Responses message item '' @ quoted item_id @
                  lit '' completion omitted observed part '' @ show_nat content_index))
      | Some completed_text \<Rightarrow>
          if mp_lifecycle p = TextDone \<and> mp_text p \<noteq> completed_text
          then Err (LlmMessage (lit ''Responses message item '' @ quoted item_id @ lit '' part '' @
                 show_nat content_index @ lit '' item completion conflicts with output_text.done''))
          else if mp_lifecycle p \<noteq> TextDone \<and> \<not> starts_with (mp_text p) completed_text
          then Err (LlmMessage (lit ''Responses message item '' @ quoted item_id @ lit '' part '' @
                 show_nat content_index @
                 lit '' completed with text that conflicts with its streamed deltas''))
          else check_observed_parts item_id completed_parts parts)"

fun complete_parts :: "nat \<Rightarrow> ustr list \<Rightarrow> message_text_state \<Rightarrow> message_text_state" where
  "complete_parts n [] st = st"
| "complete_parts n (text0 # texts) st =
     complete_parts (Suc n) texts (update_part n (finish_part text0) st)"

definition handle_message_done_at_index ::
  "json \<Rightarrow> nat \<Rightarrow> stream_state \<Rightarrow> (unit, llm_error) result \<times> stream_state" where
  "handle_message_done_at_index item output_index s =
     (let context0 = lit ''Responses message output item done''; acc = fst s in
      check (required_nonempty_string item (lit ''id'') context0) s (\<lambda>item_id.
      check (validate_assistant_message_role item context0) s (\<lambda>_.
      check (required_message_output_text_parts item context0) s (\<lambda>completed_parts.
      check (ensure_binding (output_identities acc) item_id output_index KMessage) s (\<lambda>_.
      if mt_item_complete (message_of acc item_id)
      then (if same_parts (message_of acc item_id) completed_parts then Ok ()
            else Err (LlmMessage (lit ''Responses message item '' @ quoted item_id @
                        lit '' was completed with conflicting text'')), s)
      else
      check (check_observed_parts item_id completed_parts (mt_parts (message_of acc item_id))) s (\<lambda>_.
      check (acc_binding item_id output_index KMessage acc) s (\<lambda>acc.
      release_text item_id
        ((complete_parts 0 completed_parts (message_of acc item_id))\<lparr>mt_item_complete := True\<rparr>)
        False (acc, snd s))))))))"

definition handle_message_done ::
  "json \<Rightarrow> json \<Rightarrow> stream_state \<Rightarrow> (unit, llm_error) result \<times> stream_state" where
  "handle_message_done event item s =
     check (required_u64 event (lit ''output_index'') (lit ''Responses message output item done'')) s
       (\<lambda>output_index. handle_message_done_at_index item output_index s)"

section \<open>Reasoning items\<close>

definition handle_reasoning_item_added ::
  "json \<Rightarrow> json \<Rightarrow> stream_state \<Rightarrow> (unit, llm_error) result \<times> stream_state" where
  "handle_reasoning_item_added event item s =
     (let context0 = lit ''Responses reasoning output item added''; acc = fst s in
      check (required_nonempty_string item (lit ''id'') context0) s (\<lambda>item_id.
      check (required_u64 event (lit ''output_index'') context0) s (\<lambda>output_index.
      check (ensure_binding (output_identities acc) item_id output_index KReasoning) s (\<lambda>_.
      if item_id \<in> set (completed_reasoning_items acc)
      then (Err (LlmMessage (lit ''Responses reasoning item '' @ quoted item_id @
              lit '' was added after it was complete'')), s)
      else
      check (acc_binding item_id output_index KReasoning acc) s (\<lambda>acc.
      (Ok (), acc\<lparr>incomplete_reasoning_items := List.insert item_id (incomplete_reasoning_items acc)\<rparr>,
       snd s))))))"

definition handle_reasoning_item_done_at_index ::
  "ustr \<Rightarrow> nat \<Rightarrow> stream_state \<Rightarrow> (unit, llm_error) result \<times> stream_state" where
  "handle_reasoning_item_done_at_index item_id output_index s =
     check (ensure_binding (output_identities (fst s)) item_id output_index KReasoning) s (\<lambda>_.
     check (acc_binding item_id output_index KReasoning (fst s)) s (\<lambda>acc.
     (Ok (), acc\<lparr>incomplete_reasoning_items := removeAll item_id (incomplete_reasoning_items acc),
                 completed_reasoning_items := List.insert item_id (completed_reasoning_items acc)\<rparr>,
      snd s)))"

definition handle_reasoning_item_done ::
  "json \<Rightarrow> json \<Rightarrow> stream_state \<Rightarrow> (unit, llm_error) result \<times> stream_state" where
  "handle_reasoning_item_done event item s =
     (let context0 = lit ''Responses reasoning output item done'' in
      check (required_nonempty_string item (lit ''id'') context0) s (\<lambda>item_id.
      check (required_u64 event (lit ''output_index'') context0) s (\<lambda>output_index.
      handle_reasoning_item_done_at_index item_id output_index s)))"

section \<open>Output items\<close>

text \<open>\<open>apply_atomically\<close> restores the accumulator and drops the events of a failed update.\<close>

definition apply_atomically ::
  "stream_state \<Rightarrow> (stream_state \<Rightarrow> ('a, llm_error) result \<times> stream_state) \<Rightarrow>
   ('a, llm_error) result \<times> stream_state" where
  "apply_atomically s update0 =
     (case update0 s of
        (r, acc', events') \<Rightarrow>
          (case r of Inr v \<Rightarrow> (Ok v, acc', events')
           | Inl e \<Rightarrow> (Err e, fst s, take (length (snd s)) events')))"

definition add_message ::
  "json \<Rightarrow> json \<Rightarrow> stream_state \<Rightarrow> (unit, llm_error) result \<times> stream_state" where
  "add_message event item s =
     (let context0 = lit ''Responses message output item added''; acc = fst s in
      check (required_nonempty_string item (lit ''id'') context0) s (\<lambda>item_id.
      check (required_u64 event (lit ''output_index'') context0) s (\<lambda>output_index.
      check (validate_assistant_message_role item context0) s (\<lambda>_.
      check (validate_optional_message_output_text item context0) s (\<lambda>_.
      check (ensure_binding (output_identities acc) item_id output_index KMessage) s (\<lambda>_.
      if (case hm_get (message_text_items acc) item_id of None \<Rightarrow> False | Some st \<Rightarrow> is_text_finalized st)
      then (Err (LlmMessage (lit ''Responses message item '' @ quoted item_id @
              lit '' was added after its text was finalized'')), s)
      else
      check (acc_binding item_id output_index KMessage acc) s (\<lambda>acc.
      (Ok (), acc\<lparr>message_text_items :=
                     hm_or_insert item_id incomplete_message (message_text_items acc)\<rparr>, snd s))))))))"

definition add_function_call ::
  "json \<Rightarrow> json \<Rightarrow> stream_state \<Rightarrow> (unit, llm_error) result \<times> stream_state" where
  "add_function_call event item s =
     (let context0 = lit ''Responses function_call item added''; acc = fst s in
      check (required_nonempty_string item (lit ''id'') context0) s (\<lambda>item_id.
      check (required_u64 event (lit ''output_index'') context0) s (\<lambda>output_index.
      check (required_nonempty_string item (lit ''call_id'') context0) s (\<lambda>call_id.
      check (required_nonempty_string item (lit ''name'') context0) s (\<lambda>name.
      check (if json_get (lit ''arguments'') item = None then Ok ()
             else and_then (required_string item (lit ''arguments'') context0)
                    (\<lambda>arguments. ensure_argument_bytes acc (utf8_len arguments))) s (\<lambda>_.
      check (ensure_binding (output_identities acc) item_id output_index KFunctionCall) s (\<lambda>_.
      check (case hm_get (function_items acc) item_id of
               None \<Rightarrow> Ok ()
             | Some existing \<Rightarrow>
                 if identity_changed existing output_index call_id name
                 then Err (LlmMessage (lit ''Responses function item '' @ quoted item_id @
                        lit '' changed identity between added events''))
                 else if fi_lifecycle existing = ItemComplete
                 then Err (LlmMessage (lit ''Responses function item '' @ quoted item_id @
                        lit '' was added after it was complete''))
                 else Ok ()) s (\<lambda>_.
      check (bind_item_to_call acc item_id call_id) s (\<lambda>acc.
      let s = (acc, snd s) in
      check (acc_binding item_id output_index KFunctionCall acc) s (\<lambda>acc.
      (Ok (), acc\<lparr>function_items :=
                     hm_or_insert item_id \<lparr>fi_output_index = output_index, fi_call_id = call_id,
                       fi_name = name, fi_lifecycle = ItemAdded\<rparr> (function_items acc)\<rparr>, snd s)))))))))))"

definition handle_output_item_added ::
  "json \<Rightarrow> stream_state \<Rightarrow> (unit, llm_error) result \<times> stream_state" where
  "handle_output_item_added event s =
     check (ok_or (json_get (lit ''item'') event)
              (LlmMessage (lit ''response.output_item.added is missing `item`''))) s (\<lambda>item.
     case opt_and_then (json_get (lit ''type'') item) as_str of
       None \<Rightarrow> (Err (LlmMessage (lit
                 ''response.output_item.added item is missing string field `type`'')), s)
     | Some item_type \<Rightarrow>
         if item_type = lit ''message'' then add_message event item s
         else if item_type = lit ''function_call'' then add_function_call event item s
         else if item_type = lit ''reasoning'' then handle_reasoning_item_added event item s
         else (Err (LlmMessage (lit ''response.output_item.added contains unsupported output item type '' @
                 quoted item_type)), s))"

definition handle_output_item_done ::
  "json \<Rightarrow> stream_state \<Rightarrow> (unit, llm_error) result \<times> stream_state" where
  "handle_output_item_done event s =
     check (ok_or (json_get (lit ''item'') event)
              (LlmMessage (lit ''response.output_item.done is missing `item`''))) s (\<lambda>item.
     case opt_and_then (json_get (lit ''type'') item) as_str of
       None \<Rightarrow> (Err (LlmMessage (lit
                 ''response.output_item.done item is missing string field `type`'')), s)
     | Some item_type \<Rightarrow>
         if item_type = lit ''message'' then handle_message_done event item s
         else if item_type = lit ''function_call''
         then check (required_nonempty_string item (lit ''id'') (lit ''Responses function_call item'')) s
                (\<lambda>item_id.
              check (required_u64 event (lit ''output_index'')
                       (lit ''Responses function_call output item done'')) s (\<lambda>output_index.
              apply_atomically s (handle_function_call_done item item_id output_index)))
         else if item_type = lit ''reasoning'' then handle_reasoning_item_done event item s
         else (Err (LlmMessage (lit ''response.output_item.done contains unsupported output item type '' @
                 quoted item_type)), s))"

section \<open>Terminal events\<close>

type_synonym output_binding = "ustr \<times> nat \<times> response_output_item_kind"

definition reconcile_item ::
  "nat \<Rightarrow> json \<Rightarrow> stream_state \<Rightarrow> (output_binding, llm_error) result \<times> stream_state" where
  "reconcile_item output_index item s =
     check (required_string item (lit ''type'') (lit ''response.completed response output item'')) s
       (\<lambda>item_type.
     if item_type = lit ''message''
     then check (required_nonempty_string item (lit ''id'')
                   (lit ''response.completed message output item'')) s (\<lambda>item_id.
          chain (handle_message_done_at_index item output_index s) (\<lambda>_ s.
          (Ok (item_id, output_index, KMessage), s)))
     else if item_type = lit ''function_call''
     then check (required_nonempty_string item (lit ''id'')
                   (lit ''response.completed function_call output item'')) s (\<lambda>item_id.
          chain (handle_function_call_done item item_id output_index s) (\<lambda>_ s.
          (Ok (item_id, output_index, KFunctionCall), s)))
     else if item_type = lit ''reasoning''
     then check (required_nonempty_string item (lit ''id'')
                   (lit ''response.completed reasoning output item'')) s (\<lambda>item_id.
          chain (handle_reasoning_item_done_at_index item_id output_index s) (\<lambda>_ s.
          (Ok (item_id, output_index, KReasoning), s)))
     else (Err (LlmMessage (lit ''response.completed contains unsupported output item type '' @
             quoted item_type)), s))"

fun reconcile_items ::
  "nat \<Rightarrow> json list \<Rightarrow> output_binding list \<Rightarrow> stream_state \<Rightarrow>
   (output_binding list, llm_error) result \<times> stream_state" where
  "reconcile_items n [] bindings s = (Ok bindings, s)"
| "reconcile_items n (item # items) bindings s =
     chain (reconcile_item n item s) (\<lambda>b s. reconcile_items (Suc n) items (bindings @ [b]) s)"

definition reconcile_completed_output ::
  "json \<Rightarrow> stream_state \<Rightarrow> (unit, llm_error) result \<times> stream_state" where
  "reconcile_completed_output response s =
     (case json_get (lit ''output'') response of
        None \<Rightarrow> (Ok (), s)
      | Some v \<Rightarrow>
          check (ok_or (as_array v) (LlmMessage (lit
                   ''response.completed response contains a non-array field `output`''))) s (\<lambda>output.
          chain (reconcile_items 0 output [] s) (\<lambda>terminal_bindings s.
          (case List.find (\<lambda>(item_id, output_index, kind).
                             (item_id, output_index, kind) \<notin> set terminal_bindings)
                  (item_to_output (output_identities (fst s))) of
             None \<Rightarrow> Ok ()
           | Some (item_id, output_index, kind) \<Rightarrow>
               Err (LlmMessage (lit ''response.completed output omitted observed '' @ kind_as_str kind @
                      lit '' item '' @ quoted item_id @ lit '' at index '' @ quoted (show_nat output_index))),
           s))))"

definition unresolved_key :: "accumulator \<Rightarrow> function_argument_key \<Rightarrow> bool" where
  "unresolved_key acc key =
     (case key of
        CallKey call_id \<Rightarrow> \<not> hm_contains (emitted_tool_calls acc) call_id
      | ItemKey item_id \<Rightarrow>
          (case hm_get (item_to_call acc) item_id of
             None \<Rightarrow> True | Some call_id \<Rightarrow> \<not> hm_contains (emitted_tool_calls acc) call_id))"

definition validate_completed_items :: "accumulator \<Rightarrow> (unit, llm_error) result" where
  "validate_completed_items acc =
     (case List.find (\<lambda>(_, st). \<not> mt_item_complete st) (message_text_items acc) of
        Some (item_id, _) \<Rightarrow> Err (LlmMessage (lit ''Responses stream completed before message item '' @
            quoted item_id @ lit '' was complete''))
      | None \<Rightarrow>
      case List.find (\<lambda>(_, st). fi_lifecycle st \<noteq> ItemComplete) (function_items acc) of
        Some (item_id, _) \<Rightarrow> Err (LlmMessage (lit ''Responses stream completed before function call item '' @
            quoted item_id @ lit '' was complete''))
      | None \<Rightarrow>
      case incomplete_reasoning_items acc of
        item_id # _ \<Rightarrow> Err (LlmMessage (lit ''Responses stream completed before reasoning item '' @
            quoted item_id @ lit '' was complete''))
      | [] \<Rightarrow>
      case List.find (\<lambda>(_, call_id). \<not> hm_contains (emitted_tool_calls acc) call_id) (item_to_call acc) of
        Some (item_id, call_id) \<Rightarrow> Err (LlmMessage (lit ''Responses stream completed before function call '' @
            quoted call_id @ lit '' for item '' @ quoted item_id @ lit '' was complete''))
      | None \<Rightarrow>
      case List.find (unresolved_key acc) (hm_keys (pending_arguments acc)) of
        Some key \<Rightarrow> Err (LlmMessage (lit
            ''Responses stream completed with unresolved function arguments for '' @ key_description key))
      | None \<Rightarrow> Ok ())"

definition completed_terminal ::
  "json \<Rightarrow> stream_state \<Rightarrow> (responses_terminal, llm_error) result \<times> stream_state" where
  "completed_terminal event s =
     check (response_object event (lit ''response.completed'')) s (\<lambda>response.
     check (required_nonempty_string response (lit ''id'') (lit ''response.completed response'')) s
       (\<lambda>response_id.
     chain (reconcile_completed_output response s) (\<lambda>_ s.
     check (validate_completed_items (fst s)) s (\<lambda>_.
     let finish_reason = (if emitted_tool_calls (fst s) = [] then FStop else FToolCall) in
     check (parse_usage response) s (\<lambda>usage.
     (Ok (TCompleted response_id finish_reason usage),
      fst s, snd s @ [Finished finish_reason usage]))))))"

definition failed_terminal :: "json \<Rightarrow> (responses_terminal, llm_error) result" where
  "failed_terminal event =
     and_then (response_object event (lit ''response.failed'')) (\<lambda>response.
     let error0 = json_get (lit ''error'') response;
         code = opt_and_then (opt_and_then error0 (json_get (lit ''code''))) response_error_code;
         message = (case opt_and_then (opt_and_then error0 (json_get (lit ''message''))) as_str of
                      None \<Rightarrow> lit ''Responses request failed'' | Some m \<Rightarrow> m)
     in Ok (TFailed (optional_response_id response) code message))"

definition incomplete_terminal :: "json \<Rightarrow> (responses_terminal, llm_error) result" where
  "incomplete_terminal event =
     and_then (response_object event (lit ''response.incomplete'')) (\<lambda>response.
     let reason = (case opt_and_then (opt_and_then (json_get (lit ''incomplete_details'') response)
                          (json_get (lit ''reason''))) as_str of
                     None \<Rightarrow> lit ''unknown'' | Some r \<Rightarrow> r);
         finish_reason = (if reason = lit ''max_output_tokens'' \<or> reason = lit ''max_tokens''
                          then FLength else FError)
     in and_then (parse_usage response) (\<lambda>usage.
        Ok (TIncomplete (optional_response_id response) reason finish_reason usage)))"

definition error_terminal :: "json \<Rightarrow> (responses_terminal, llm_error) result" where
  "error_terminal event =
     (let error0 = (case json_get (lit ''error'') event of None \<Rightarrow> event | Some e \<Rightarrow> e);
          code = opt_and_then (json_get (lit ''code'') error0) response_error_code;
          message = (case opt_and_then (json_get (lit ''message'') error0) as_str of
                       None \<Rightarrow> lit ''Responses stream error'' | Some m \<Rightarrow> m)
      in Ok (TFailed None code message))"

section \<open>One event\<close>

definition no_terminal ::
  "(unit, llm_error) result \<times> stream_state \<Rightarrow>
   (responses_terminal option, llm_error) result \<times> stream_state" where
  "no_terminal m = chain m (\<lambda>_ s. (Ok None, s))"

definition push_typed ::
  "ustr \<Rightarrow> json \<Rightarrow> stream_state \<Rightarrow> (responses_terminal option, llm_error) result \<times> stream_state" where
  "push_typed event_type event s =
     (if event_type = lit ''response.output_text.delta''
      then no_terminal (handle_output_text_delta event s)
      else if event_type = lit ''response.output_text.done''
      then no_terminal (handle_output_text_done event s)
      else if event_type = lit ''response.reasoning_summary_text.delta''
      then check (required_string event (lit ''delta'') event_type) s
             (\<lambda>delta. (Ok None, fst s, snd s @ [ReasoningSummaryDelta delta]))
      else if event_type \<in> {lit ''response.reasoning_text.delta'', lit ''response.reasoning_text.done''}
      then (Ok None, s)
      else if event_type = lit ''response.output_item.done''
      then no_terminal (handle_output_item_done event s)
      else if event_type = lit ''response.output_item.added''
      then no_terminal (apply_atomically s (handle_output_item_added event))
      else if event_type = lit ''response.function_call_arguments.done''
      then no_terminal (apply_atomically s (handle_function_call_arguments_done event))
      else if event_type = lit ''response.function_call_arguments.delta''
      then no_terminal (handle_function_call_arguments_delta event s)
      else if event_type = lit ''response.completed''
      then chain (apply_atomically s (completed_terminal event)) (\<lambda>t s. (Ok (Some t), s))
      else if event_type = lit ''response.failed''
      then check (failed_terminal event) s (\<lambda>t. (Ok (Some t), s))
      else if event_type = lit ''response.incomplete''
      then check (incomplete_terminal event) s (\<lambda>t. (Ok (Some t), s))
      else if event_type = lit ''error''
      then check (error_terminal event) s (\<lambda>t. (Ok (Some t), s))
      else (Ok None, s))"

definition push_value ::
  "json \<Rightarrow> accumulator \<Rightarrow> (responses_stream_update, llm_error) result \<times> accumulator" where
  "push_value event acc =
     (if acc_terminal acc \<noteq> None
      then (Err (LlmMessage (lit ''Responses stream emitted an event after its terminal event'')), acc)
      else check (ok_or (opt_and_then (json_get (lit ''type'') event) as_str)
                    (LlmMessage (lit ''Responses event is missing `type`''))) acc (\<lambda>event_type.
           case push_typed event_type event (acc, []) of
             (r, acc', events) \<Rightarrow>
               (case r of
                  Inl e \<Rightarrow> (Err e, acc')
                | Inr terminal \<Rightarrow>
                    (Ok \<lparr>ru_events = events, ru_terminal = terminal\<rparr>,
                     case terminal of None \<Rightarrow> acc' | Some t \<Rightarrow> acc'\<lparr>acc_terminal := Some t\<rparr>))))"

text \<open>The parser of JSON is a parameter.\<close>

definition push_json ::
  "(ustr \<Rightarrow> (json, ustr) result) \<Rightarrow> ustr \<Rightarrow> accumulator \<Rightarrow>
   (responses_stream_update, llm_error) result \<times> accumulator" where
  "push_json from_str data acc =
     (case from_str data of
        Inl e \<Rightarrow> (Err (LlmJson e), acc)
      | Inr event \<Rightarrow> push_value event acc)"

text \<open>A whole stream: the caller stops at the first error.\<close>

fun push_all ::
  "json list \<Rightarrow> accumulator \<Rightarrow> llm_event list \<Rightarrow> (llm_event list, llm_error) result \<times> accumulator" where
  "push_all [] acc events = (Ok events, acc)"
| "push_all (v # vs) acc events =
     chain (push_value v acc) (\<lambda>u acc. push_all vs acc (events @ ru_events u))"

end
