(* ===== verification/Responses_Inv.thy ===== *)
theory Responses_Inv
  imports Responses_Stream
begin

text \<open>
  The invariant of the stream reader and a small logic for its methods: a method that succeeds
  keeps the invariant and only appends to what has been released, and no method panics.
\<close>

section \<open>Methods that keep an invariant\<close>

locale method_logic =
  fixes invar :: "'s \<Rightarrow> bool"
    and grows :: "'s \<Rightarrow> 's \<Rightarrow> bool"
    and panic :: 'e
  assumes grows_refl: "grows s s"
    and grows_trans: "grows s t \<Longrightarrow> grows t u \<Longrightarrow> grows s u"
begin

definition good :: "('a, 'e) result \<times> 's \<Rightarrow> 's \<Rightarrow> bool" where
  "good m s = (case m of (r, s') \<Rightarrow>
     (case r of Inl e \<Rightarrow> e \<noteq> panic | Inr _ \<Rightarrow> invar s' \<and> grows s s'))"

lemma good_Ok: "good (Ok a, s') s \<longleftrightarrow> invar s' \<and> grows s s'"
  by (simp add: good_def)

lemma good_Err: "good (Err e, s') s \<longleftrightarrow> e \<noteq> panic"
  by (simp add: good_def)

lemma good_stay: "invar s \<Longrightarrow> good (Ok a, s) s"
  by (simp add: good_Ok grows_refl)

lemma good_result: "invar s \<Longrightarrow> r \<noteq> Err panic \<Longrightarrow> good (r, s) s"
  by (cases r) (auto simp: good_Ok good_Err grows_refl)

lemma good_from: "grows s t \<Longrightarrow> good m t \<Longrightarrow> good m s"
  by (auto simp: good_def intro: grows_trans split: prod.splits sum.splits)

lemma good_check:
  assumes "r \<noteq> Err panic" and "\<And>a. r = Ok a \<Longrightarrow> good (k a) s"
  shows "good (check r s' k) s"
  using assms by (cases r) (auto simp: good_Err)

lemma good_if: "(P \<Longrightarrow> good m s) \<Longrightarrow> (\<not> P \<Longrightarrow> good m' s) \<Longrightarrow> good (if P then m else m') s"
  by simp

lemma good_case:
  "(x = None \<Longrightarrow> good m s) \<Longrightarrow> (\<And>a. x = Some a \<Longrightarrow> good (k a) s) \<Longrightarrow>
   good (case x of None \<Rightarrow> m | Some a \<Rightarrow> k a) s"
  by (cases x) simp_all

lemma good_ErrI: "e \<noteq> panic \<Longrightarrow> good (Err e, s') s"
  by (simp add: good_Err)

lemma good_chain:
  assumes "good m s" and "\<And>a s'. m = (Ok a, s') \<Longrightarrow> invar s' \<Longrightarrow> grows s s' \<Longrightarrow> good (k a s') s'"
  shows "good (chain m k) s"
proof (cases m)
  case (Pair r s')
  show ?thesis
  proof (cases r)
    case (Inl e)
    with assms(1) Pair show ?thesis by (simp add: good_Err)
  next
    case (Inr a)
    with assms(1) Pair have "invar s'" "grows s s'" by (simp_all add: good_Ok)
    with assms(2) Pair Inr have "good (k a s') s'" by simp
    with \<open>grows s s'\<close> Pair Inr show ?thesis
      by (auto simp: good_def intro: grows_trans split: prod.splits sum.splits)
  qed
qed

end

section \<open>Map extension\<close>

lemma or_insert_le: "hm_get m \<subseteq>\<^sub>m hm_get (hm_or_insert k v m)"
  by (auto simp: map_le_def)

lemma insert_le: "hm_get m k = None \<Longrightarrow> hm_get m \<subseteq>\<^sub>m hm_get (hm_insert k v m)"
  by (auto simp: map_le_def)

lemma map_leD: "m \<subseteq>\<^sub>m m' \<Longrightarrow> m k = Some v \<Longrightarrow> m' k = Some v"
  by (auto simp: map_le_def dom_def)

section \<open>The identity registry\<close>

text \<open>Items and output indexes correspond one to one, with the same kind.\<close>

definition reg_ok :: "identity_registry \<Rightarrow> bool" where
  "reg_ok reg \<longleftrightarrow>
     distinct (hm_keys (item_to_output reg)) \<and> distinct (hm_keys (output_index_to_item reg)) \<and>
     (\<forall>i n k. hm_get (item_to_output reg) i = Some (n, k) \<longleftrightarrow>
              hm_get (output_index_to_item reg) n = Some (i, k))"

lemma ensure_binding_Ok_iff:
  "ensure_binding reg i n k = Ok () \<longleftrightarrow>
     (\<forall>x. hm_get (item_to_output reg) i = Some x \<longrightarrow> x = (n, k)) \<and>
     (\<forall>y. hm_get (output_index_to_item reg) n = Some y \<longrightarrow> y = (i, k))"
  by (auto simp: ensure_binding_def ensure_item_unchanged_def ensure_index_unchanged_def
      split: option.splits prod.splits)

lemma bind_identity_ok:
  assumes "reg_ok reg" and "bind_identity reg i n k = Ok reg'"
  shows "reg_ok reg'" and "hm_get (item_to_output reg') i = Some (n, k)"
    and "hm_get (item_to_output reg) \<subseteq>\<^sub>m hm_get (item_to_output reg')"
proof -
  from assms(2) have ens: "ensure_binding reg i n k = Ok ()"
    and reg': "reg' = reg\<lparr>item_to_output := hm_or_insert i (n, k) (item_to_output reg),
               output_index_to_item := hm_or_insert n (i, k) (output_index_to_item reg)\<rparr>"
    by (auto simp: bind_identity_def and_then_Ok_iff)
  from assms(1) have dist: "distinct (hm_keys (item_to_output reg))"
      "distinct (hm_keys (output_index_to_item reg))"
    and bij: "\<And>i n k. hm_get (item_to_output reg) i = Some (n, k) \<longleftrightarrow>
              hm_get (output_index_to_item reg) n = Some (i, k)"
    unfolding reg_ok_def by blast+
  note agree = ens [unfolded ensure_binding_Ok_iff]
  show "hm_get (item_to_output reg) \<subseteq>\<^sub>m hm_get (item_to_output reg')"
    by (simp add: reg' or_insert_le)
  have "reg_ok reg' \<and> hm_get (item_to_output reg') i = Some (n, k)"
  proof (cases "hm_get (item_to_output reg) i")
    case None
    have "hm_get (output_index_to_item reg) n = None"
    proof (rule ccontr)
      assume "hm_get (output_index_to_item reg) n \<noteq> None"
      with agree have "hm_get (output_index_to_item reg) n = Some (i, k)" by blast
      with None bij [of i n k] show False by simp
    qed
    then have fresh: "hm_get (item_to_output reg) j \<noteq> Some (n, q)"
      "hm_get (output_index_to_item reg) m \<noteq> Some (i, q)" for j m q
      using None bij [of j n q] bij [of i m q] by simp_all
    have "hm_get (item_to_output reg') j = Some (m, q) \<longleftrightarrow>
          hm_get (output_index_to_item reg') m = Some (j, q)" for j m q
      using None \<open>hm_get (output_index_to_item reg) n = None\<close> fresh bij [of j m q]
      by (auto simp: reg')
    with None show ?thesis
      using distinct_hm_or_insert [OF dist(1)] distinct_hm_or_insert [OF dist(2)]
      unfolding reg_ok_def by (simp add: reg' del: map_of_eq_Some_iff)
  next
    case (Some x)
    with agree have x: "x = (n, k)" by blast
    with Some bij [of i n k] have "hm_get (output_index_to_item reg) n = Some (i, k)" by simp
    with Some x have "reg' = reg" by (simp add: reg' hm_or_insert_def hm_contains_def)
    with assms(1) Some x show ?thesis by simp
  qed
  then show "reg_ok reg'" "hm_get (item_to_output reg') i = Some (n, k)" by simp_all
qed

text \<open>After a check that succeeded, binding succeeds.\<close>

lemma bind_after_ensure: "ensure_binding reg i n k = Ok () \<Longrightarrow> \<exists>reg'. bind_identity reg i n k = Ok reg'"
  by (simp add: bind_identity_def)

section \<open>The invariant\<close>

definition pairs_ok :: "(ustr, ustr) hmap \<Rightarrow> (ustr, ustr) hmap \<Rightarrow> bool" where
  "pairs_ok itc cti \<longleftrightarrow> distinct (hm_keys itc) \<and> distinct (hm_keys cti) \<and>
     (\<forall>i c. hm_get itc i = Some c \<longleftrightarrow> hm_get cti c = Some i)"

text \<open>
  Pending arguments are within the limit and are kept under the call once an item is bound to it;
  an emitted call has its item, and its arguments are final.
\<close>

definition pend_ok ::
  "nat \<Rightarrow> (function_argument_key, function_argument_state) hmap \<Rightarrow> (ustr, ustr) hmap \<Rightarrow>
   (ustr, emitted_tool_call) hmap \<Rightarrow> bool" where
  "pend_ok limit pend itc em \<longleftrightarrow> distinct (hm_keys pend) \<and> distinct (hm_keys em) \<and>
     (\<forall>key a. hm_get pend key = Some a \<longrightarrow> limit < USIZE_MAX \<longrightarrow> utf8_len (fa_value a) \<le> limit) \<and>
     (\<forall>i c. hm_get itc i = Some c \<longrightarrow> hm_get pend (ItemKey i) = None) \<and>
     (\<forall>c e. hm_get em c = Some e \<longrightarrow>
        (\<exists>i. hm_get itc i = Some c) \<and>
        hm_get pend (CallKey c) = Some \<lparr>fa_value = etc_arguments e, fa_lifecycle = Finalized\<rparr>)"

definition items_ok ::
  "(ustr, function_item_state) hmap \<Rightarrow> (ustr, ustr) hmap \<Rightarrow> identity_registry \<Rightarrow>
   (ustr, emitted_tool_call) hmap \<Rightarrow> bool" where
  "items_ok fis itc reg em \<longleftrightarrow> distinct (hm_keys fis) \<and>
     (\<forall>i f. hm_get fis i = Some f \<longrightarrow>
        hm_get itc i = Some (fi_call_id f) \<and>
        hm_get (item_to_output reg) i = Some (fi_output_index f, KFunctionCall) \<and>
        (fi_lifecycle f = ItemComplete \<longrightarrow>
           (\<exists>e. hm_get em (fi_call_id f) = Some e \<and> etc_name e = fi_name f)))"

text \<open>A message is ordered, has released exactly its flow, and is whole once it is complete.\<close>

definition text_ok :: "message_text_state \<Rightarrow> bool" where
  "text_ok st \<longleftrightarrow> bt_ok (mt_parts st) \<and> releasable 0 (mt_parts st) \<and>
     shown (mt_parts st) = flow 0 (mt_parts st) \<and>
     (mt_item_complete st \<longrightarrow>
        map fst (mt_parts st) = [0..<length (mt_parts st)] \<and>
        list_all (\<lambda>(_, p). mp_lifecycle p = TextDone) (mt_parts st))"

definition texts_ok :: "(ustr, message_text_state) hmap \<Rightarrow> identity_registry \<Rightarrow> bool" where
  "texts_ok mts reg \<longleftrightarrow> distinct (hm_keys mts) \<and>
     (\<forall>i st. hm_get mts i = Some st \<longrightarrow>
        text_ok st \<and> (\<exists>n. hm_get (item_to_output reg) i = Some (n, KMessage)))"

definition reasoning_ok :: "ustr list \<Rightarrow> ustr list \<Rightarrow> identity_registry \<Rightarrow> bool" where
  "reasoning_ok inc fin reg \<longleftrightarrow> set inc \<inter> set fin = {} \<and>
     (\<forall>i \<in> set inc \<union> set fin. \<exists>n. hm_get (item_to_output reg) i = Some (n, KReasoning))"

definition acc_inv :: "accumulator \<Rightarrow> bool" where
  "acc_inv acc \<longleftrightarrow>
     reg_ok (output_identities acc) \<and>
     pairs_ok (item_to_call acc) (call_to_item acc) \<and>
     pend_ok (max_argument_bytes acc) (pending_arguments acc) (item_to_call acc) (emitted_tool_calls acc) \<and>
     items_ok (function_items acc) (item_to_call acc) (output_identities acc) (emitted_tool_calls acc) \<and>
     texts_ok (message_text_items acc) (output_identities acc) \<and>
     reasoning_ok (incomplete_reasoning_items acc) (completed_reasoning_items acc) (output_identities acc)"

lemma acc_inv_new: "acc_inv (new_accumulator n)"
  by (simp add: acc_inv_def new_accumulator_def reg_ok_def pairs_ok_def pend_ok_def items_ok_def
      texts_ok_def reasoning_ok_def)

lemma items_ok_mono:
  assumes "items_ok fis itc reg em" and "hm_get itc \<subseteq>\<^sub>m hm_get itc'"
    and "hm_get (item_to_output reg) \<subseteq>\<^sub>m hm_get (item_to_output reg')" and "hm_get em \<subseteq>\<^sub>m hm_get em'"
  shows "items_ok fis itc' reg' em'"
  using assms unfolding items_ok_def by (blast dest: map_leD)

lemma texts_ok_mono:
  assumes "texts_ok mts reg" and "hm_get (item_to_output reg) \<subseteq>\<^sub>m hm_get (item_to_output reg')"
  shows "texts_ok mts reg'"
  using assms unfolding texts_ok_def by (blast dest: map_leD)

lemma reasoning_ok_mono:
  assumes "reasoning_ok inc fin reg" and "hm_get (item_to_output reg) \<subseteq>\<^sub>m hm_get (item_to_output reg')"
  shows "reasoning_ok inc fin reg'"
  using assms unfolding reasoning_ok_def by (blast dest: map_leD)

section \<open>What a reader of the stream sees\<close>

definition shown_of :: "accumulator \<Rightarrow> ustr \<Rightarrow> ustr" where
  "shown_of acc i =
     (case hm_get (message_text_items acc) i of None \<Rightarrow> [] | Some st \<Rightarrow> shown (mt_parts st))"

fun text_deltas :: "llm_event list \<Rightarrow> ustr list" where
  "text_deltas [] = []"
| "text_deltas (TextDelta t # evs) = t # text_deltas evs"
| "text_deltas (_ # evs) = text_deltas evs"

fun tool_events :: "llm_event list \<Rightarrow> llm_event list" where
  "tool_events [] = []"
| "tool_events (ToolCallStart c n # evs) = ToolCallStart c n # tool_events evs"
| "tool_events (ToolCallArgsDelta c d # evs) = ToolCallArgsDelta c d # tool_events evs"
| "tool_events (_ # evs) = tool_events evs"

definition call_events :: "(ustr, emitted_tool_call) hmap \<Rightarrow> llm_event list" where
  "call_events em =
     concat (map (\<lambda>(c, e). [ToolCallStart c (etc_name e), ToolCallArgsDelta c (etc_arguments e)]) em)"

lemma text_deltas_append [simp]: "text_deltas (xs @ ys) = text_deltas xs @ text_deltas ys"
  by (induction xs rule: text_deltas.induct) auto

lemma tool_events_append [simp]: "tool_events (xs @ ys) = tool_events xs @ tool_events ys"
  by (induction xs rule: tool_events.induct) auto

lemma call_events_append [simp]: "call_events (xs @ ys) = call_events xs @ call_events ys"
  by (simp add: call_events_def)

text \<open>The deltas that belong to the item \<open>i\<close>, of a log that names the item of each delta.\<close>

definition log_of :: "(ustr \<times> ustr) list \<Rightarrow> ustr \<Rightarrow> ustr" where
  "log_of log i = concat (map snd (filter (\<lambda>(j, _). j = i) log))"

lemma log_of_simps [simp]: "log_of [] i = []" "log_of (xs @ ys) i = log_of xs i @ log_of ys i"
  "log_of [(j, t)] i = (if j = i then t else [])"
  by (simp_all add: log_of_def)

text \<open>A message that is complete never changes again.\<close>

definition complete_at :: "accumulator \<Rightarrow> ustr \<Rightarrow> message_text_state \<Rightarrow> bool" where
  "complete_at acc i st \<longleftrightarrow> hm_get (message_text_items acc) i = Some st \<and> mt_item_complete st"

text \<open>
  What a successful step releases: new events, whose text belongs to the items a log names, and
  whose tool calls are the ones that are recorded as emitted.
\<close>

definition releases :: "stream_state \<Rightarrow> stream_state \<Rightarrow> bool" where
  "releases s t \<longleftrightarrow>
     (\<forall>i st. complete_at (fst s) i st \<longrightarrow> complete_at (fst t) i st) \<and>
     (\<exists>new log added. snd t = snd s @ new \<and>
        map snd log = text_deltas new \<and> (\<forall>i. shown_of (fst t) i = shown_of (fst s) i @ log_of log i) \<and>
        emitted_tool_calls (fst t) = emitted_tool_calls (fst s) @ added \<and>
        tool_events new = call_events added)"

definition stream_grows :: "stream_state \<Rightarrow> stream_state \<Rightarrow> bool" where
  "stream_grows s t \<longleftrightarrow>
     max_argument_bytes (fst t) = max_argument_bytes (fst s) \<and>
     acc_terminal (fst t) = acc_terminal (fst s) \<and> releases s t"

lemma releasesI:
  assumes "snd t = snd s @ new"
    and "map snd log = text_deltas new" and "\<And>i. shown_of (fst t) i = shown_of (fst s) i @ log_of log i"
    and "emitted_tool_calls (fst t) = emitted_tool_calls (fst s) @ added"
    and "tool_events new = call_events added"
    and "\<And>i st. complete_at (fst s) i st \<Longrightarrow> complete_at (fst t) i st"
  shows "releases s t"
  using assms unfolding releases_def by blast

lemma releases_refl: "releases s s"
  by (rule releasesI [where new = "[]" and log = "[]" and added = "[]"]) (simp_all add: call_events_def)

lemma releases_trans:
  assumes "releases s t" and "releases t u"
  shows "releases s u"
proof -
  from assms(1) obtain n1 l1 a1 where 1: "snd t = snd s @ n1" "map snd l1 = text_deltas n1"
    "\<And>i. shown_of (fst t) i = shown_of (fst s) i @ log_of l1 i"
    "emitted_tool_calls (fst t) = emitted_tool_calls (fst s) @ a1" "tool_events n1 = call_events a1"
    "\<And>i st. complete_at (fst s) i st \<Longrightarrow> complete_at (fst t) i st"
    unfolding releases_def by blast
  from assms(2) obtain n2 l2 a2 where 2: "snd u = snd t @ n2" "map snd l2 = text_deltas n2"
    "\<And>i. shown_of (fst u) i = shown_of (fst t) i @ log_of l2 i"
    "emitted_tool_calls (fst u) = emitted_tool_calls (fst t) @ a2" "tool_events n2 = call_events a2"
    "\<And>i st. complete_at (fst t) i st \<Longrightarrow> complete_at (fst u) i st"
    unfolding releases_def by blast
  show ?thesis
    by (rule releasesI [where new = "n1 @ n2" and log = "l1 @ l2" and added = "a1 @ a2"])
      (simp_all add: 1 2)
qed

lemma releases_shift: "releases (acc, []) (acc', new) \<Longrightarrow> releases (acc, evs) (acc', evs @ new)"
  by (simp add: releases_def)

lemma stream_growsI:
  assumes "max_argument_bytes (fst t) = max_argument_bytes (fst s)"
    and "acc_terminal (fst t) = acc_terminal (fst s)" and "snd t = snd s @ new"
    and "map snd log = text_deltas new" and "\<And>i. shown_of (fst t) i = shown_of (fst s) i @ log_of log i"
    and "emitted_tool_calls (fst t) = emitted_tool_calls (fst s) @ added"
    and "tool_events new = call_events added"
    and "\<And>i st. complete_at (fst s) i st \<Longrightarrow> complete_at (fst t) i st"
  shows "stream_grows s t"
  unfolding stream_grows_def using assms(1,2) releasesI [OF assms(3-8)] by blast

lemma stream_grows_refl: "stream_grows s s"
  by (simp add: stream_grows_def releases_refl)

lemma stream_grows_trans: "stream_grows s t \<Longrightarrow> stream_grows t u \<Longrightarrow> stream_grows s u"
  by (auto simp: stream_grows_def intro: releases_trans)

interpretation stream: method_logic "\<lambda>s. acc_inv (fst s)" stream_grows Panicked
  by unfold_locales (auto intro: stream_grows_refl stream_grows_trans)

text \<open>Changes that release nothing.\<close>

lemma stream_grows_silent:
  assumes "max_argument_bytes acc' = max_argument_bytes acc" and "acc_terminal acc' = acc_terminal acc"
    and "message_text_items acc' = message_text_items acc"
    and "emitted_tool_calls acc' = emitted_tool_calls acc"
  shows "stream_grows (acc, evs) (acc', evs)"
  using stream_grows_refl [of "(acc, evs)"] assms
  by (simp add: stream_grows_def releases_def shown_of_def complete_at_def)

end
