(* ===== verification/Responses_Keep.thy ===== *)
theory Responses_Keep
  imports Responses_Inv
begin

text \<open>
  Every method of the stream reader keeps its invariant, only appends to what has been released,
  and does not panic; the methods that are not applied atomically leave the state as it was when
  they fail.
\<close>

section \<open>Reading never panics\<close>

named_theorems no_panic

lemma and_then_Err_iff: "and_then r f = Err e \<longleftrightarrow> r = Err e \<or> (\<exists>a. r = Ok a \<and> f a = Err e)"
  by (cases r) auto

lemma ok_or_no_panic [no_panic]: "ok_or x (LlmMessage m) \<noteq> Err Panicked"
  by (cases x) auto

lemma case_no_panic [no_panic]:
  "(x = None \<Longrightarrow> r \<noteq> Err e) \<Longrightarrow> (\<And>y. x = Some y \<Longrightarrow> f y \<noteq> Err e) \<Longrightarrow> (case x of None \<Rightarrow> r | Some y \<Rightarrow> f y) \<noteq> Err e"
  by (cases x) auto

lemma error_no_panic [no_panic]: "LlmMessage m \<noteq> Panicked" "Ok a \<noteq> Err e" "e1 \<noteq> e2 \<Longrightarrow> Err e1 \<noteq> Err e2"
  by simp_all

lemma required_no_panic [no_panic]:
  "required_string v f c \<noteq> Err Panicked"
  "required_nonempty_string v f c \<noteq> Err Panicked"
  "required_u64 v f c \<noteq> Err Panicked"
  by (auto simp: required_string_def required_nonempty_string_def required_u64_def ok_or_def
      and_then_def split: option.splits if_splits sum.splits)

lemma if_present_no_panic [no_panic]:
  "(\<And>v f c. required v f c \<noteq> Err Panicked) \<Longrightarrow> if_present v f required c \<noteq> Err Panicked"
  by (auto simp: if_present_def and_then_def split: option.splits sum.splits)

lemma collect_no_panic [no_panic]: "collect_message_output_text_parts ps c \<noteq> Err Panicked"
proof (induction ps)
  case (Cons p ps)
  have "required_string p f c \<noteq> Err Panicked" for f by (rule no_panic)
  with Cons.IH show ?case by (auto simp: and_then_def split: sum.splits)
qed simp

lemma message_reading_no_panic [no_panic]:
  "message_content_index v c \<noteq> Err Panicked"
  "validate_assistant_message_role v c \<noteq> Err Panicked"
  "required_message_output_text_parts v c \<noteq> Err Panicked"
  "validate_optional_message_output_text v c \<noteq> Err Panicked"
  by (auto simp: message_content_index_def validate_assistant_message_role_def
      required_message_output_text_parts_def validate_optional_message_output_text_def
      and_then_Err_iff no_panic split: option.splits)

lemma response_no_panic [no_panic]:
  "response_object v c \<noteq> Err Panicked" "parse_usage v \<noteq> Err Panicked"
  by (auto simp: response_object_def parse_usage_def parse_reasoning_tokens_def
      required_usage_u32_def checked_usage_u32_def
      and_then_Err_iff no_panic split: option.splits)

lemma argument_checks_no_panic [no_panic]:
  "ensure_argument_bytes acc n \<noteq> Err Panicked"
  "ensure_argument_append acc n m \<noteq> Err Panicked"
  "ensure_argument_delta_allowed key l \<noteq> Err Panicked"
  "merged_argument_lifecycle i c d x y \<noteq> Err Panicked"
  "consistent_arguments cs ctx \<noteq> Err Panicked"
  by (auto simp: ensure_argument_bytes_def ensure_argument_append_def ensure_argument_delta_allowed_def
      merged_argument_lifecycle_def consistent_arguments_def Let_def split: list.splits)

lemma binding_no_panic [no_panic]:
  "ensure_binding reg i n k \<noteq> Err Panicked"
  "bind_identity reg i n k \<noteq> Err Panicked"
  "acc_binding i n k acc \<noteq> Err Panicked"
proof -
  show ensure: "ensure_binding reg i n k \<noteq> Err Panicked" for reg
    by (auto simp: ensure_binding_def ensure_item_unchanged_def ensure_index_unchanged_def
        and_then_Err_iff split: option.splits prod.splits)
  show bind: "bind_identity reg i n k \<noteq> Err Panicked" for reg
    by (auto simp: bind_identity_def ensure and_then_Err_iff)
  show "acc_binding i n k acc \<noteq> Err Panicked"
    by (auto simp: acc_binding_def bind and_then_Err_iff)
qed

lemma item_binding_no_panic [no_panic]:
  "plan_item_to_call_binding acc i c \<noteq> Err Panicked"
  "bind_item_to_call acc i c \<noteq> Err Panicked"
proof -
  have merge: "plan_pending_merge acc i c \<noteq> Err Panicked"
    by (auto simp: plan_pending_merge_def and_then_Err_iff no_panic split: option.splits)
  then show plan: "plan_item_to_call_binding acc i c \<noteq> Err Panicked"
    by (auto simp: plan_item_to_call_binding_def split: option.splits)
  then show "bind_item_to_call acc i c \<noteq> Err Panicked"
    by (auto simp: bind_item_to_call_def and_then_Err_iff)
qed

lemma remember_no_panic [no_panic]: "remember_final_arguments acc key a \<noteq> Err Panicked"
  by (auto simp: remember_final_arguments_def Let_def and_then_Err_iff no_panic
      split: option.splits)

lemma composed_no_panic [no_panic]:
  "(P \<Longrightarrow> r \<noteq> Err e) \<Longrightarrow> (\<not> P \<Longrightarrow> r' \<noteq> Err e) \<Longrightarrow> (if P then r else r') \<noteq> Err e"
  "r0 \<noteq> Err e \<Longrightarrow> (\<And>a. r0 = Ok a \<Longrightarrow> f a \<noteq> Err e) \<Longrightarrow> and_then r0 f \<noteq> Err e"
  by (auto simp: and_then_Err_iff)

section \<open>Binding an output item\<close>

lemma acc_binding_keeps:
  assumes "acc_inv acc" and "acc_binding i n k acc = Ok acc'"
  shows "acc_inv acc'" and "hm_get (item_to_output (output_identities acc')) i = Some (n, k)"
    and "\<exists>reg. acc' = acc\<lparr>output_identities := reg\<rparr>"
proof -
  from assms(2) obtain reg where reg: "bind_identity (output_identities acc) i n k = Ok reg"
    and acc': "acc' = acc\<lparr>output_identities := reg\<rparr>"
    by (auto simp: acc_binding_def and_then_Ok_iff)
  from assms(1) have "reg_ok (output_identities acc)" by (simp add: acc_inv_def)
  note bound = bind_identity_ok [OF this reg]
  show "acc_inv acc'"
    using assms(1) bound(1)
      items_ok_mono [OF _ map_le_refl bound(3) map_le_refl] texts_ok_mono [OF _ bound(3)]
      reasoning_ok_mono [OF _ bound(3)]
    by (simp add: acc_inv_def acc')
  show "hm_get (item_to_output (output_identities acc')) i = Some (n, k)"
    using bound(2) by (simp add: acc')
  show "\<exists>reg. acc' = acc\<lparr>output_identities := reg\<rparr>" using acc' by blast
qed

lemma acc_binding_after_ensure:
  "ensure_binding (output_identities acc) i n k = Ok () \<Longrightarrow> \<exists>acc'. acc_binding i n k acc = Ok acc'"
  using bind_after_ensure [of "output_identities acc" i n k] by (auto simp: acc_binding_def)

section \<open>Binding an item to its call\<close>

lemma pairs_ok_bind:
  assumes "pairs_ok itc cti"
    and item: "\<And>c'. hm_get itc i = Some c' \<Longrightarrow> c' = c" and call: "\<And>i'. hm_get cti c = Some i' \<Longrightarrow> i' = i"
  shows "pairs_ok (hm_or_insert i c itc) (hm_or_insert c i cti)"
    and "hm_get (hm_or_insert i c itc) i = Some c"
proof -
  from assms(1) have dist: "distinct (hm_keys itc)" "distinct (hm_keys cti)"
    and bij: "\<And>i c. hm_get itc i = Some c \<longleftrightarrow> hm_get cti c = Some i"
    unfolding pairs_ok_def by blast+
  show "hm_get (hm_or_insert i c itc) i = Some c"
    using item by (auto split: option.splits)
  have "hm_get (hm_or_insert i c itc) j = Some d \<longleftrightarrow> hm_get (hm_or_insert c i cti) d = Some j" for j d
  proof (cases "hm_get itc i")
    case None
    have "hm_get cti c = None"
    proof (rule ccontr)
      assume "hm_get cti c \<noteq> None"
      then obtain i' where "hm_get cti c = Some i'" by blast
      with call bij None show False by (metis option.distinct(1))
    qed
    then have fresh: "hm_get itc j \<noteq> Some c" "hm_get cti d \<noteq> Some i"
      using None bij [of j c] bij [of i d] by simp_all
    with None \<open>hm_get cti c = None\<close> bij [of j d] show ?thesis by auto
  next
    case (Some c')
    with item have "c' = c" by blast
    with Some bij [of i c] have "hm_get cti c = Some i" by simp
    with Some \<open>c' = c\<close> bij [of j d] show ?thesis
      by (simp add: hm_or_insert_def hm_contains_def)
  qed
  then show "pairs_ok (hm_or_insert i c itc) (hm_or_insert c i cti)"
    using distinct_hm_or_insert [OF dist(1)] distinct_hm_or_insert [OF dist(2)]
    unfolding pairs_ok_def by blast
qed

text \<open>What the plan says of the pending arguments of the call once it is applied.\<close>

lemma merge_pending_keys:
  assumes "plan_pending_merge acc i c = Ok merge" and "key \<noteq> ItemKey i" and "key \<noteq> CallKey c"
  shows "hm_get (merge_pending i c merge (pending_arguments acc)) key = hm_get (pending_arguments acc) key"
  using assms by (cases merge) (auto simp: merge_pending_def split: option.splits)

lemma merge_pending_item:
  assumes "plan_pending_merge acc i c = Ok merge"
  shows "hm_get (merge_pending i c merge (pending_arguments acc)) (ItemKey i) = None"
  using assms
  by (cases merge)
    (auto simp: merge_pending_def plan_pending_merge_def and_then_Ok_iff split: option.splits if_splits)

lemma merge_pending_call:
  assumes "plan_pending_merge acc i c = Ok merge"
  shows "case hm_get (merge_pending i c merge (pending_arguments acc)) (CallKey c) of
           None \<Rightarrow> merge = MergeNone
         | Some a \<Rightarrow> utf8_len (fa_value a) = merge_length merge \<and> fa_lifecycle a = merge_lifecycle merge \<and>
             (\<exists>key \<in> {ItemKey i, CallKey c}. \<exists>b. hm_get (pending_arguments acc) key = Some b \<and>
                fa_value a = fa_value b)"
  using assms
  by (auto simp: merge_pending_def plan_pending_merge_def and_then_Ok_iff
      split: option.splits if_splits)

lemma merge_pending_unbound:
  assumes "plan_pending_merge acc i c = Ok merge" and "hm_get (pending_arguments acc) (ItemKey i) = None"
  shows "hm_get (merge_pending i c merge (pending_arguments acc)) (CallKey c) =
         hm_get (pending_arguments acc) (CallKey c)"
  using assms by (auto simp: merge_pending_def plan_pending_merge_def split: option.splits)

lemma distinct_merge_pending:
  "distinct (hm_keys m) \<Longrightarrow> distinct (hm_keys (merge_pending i c merge m))"
  by (auto simp: merge_pending_def intro!: distinct_hm_insert distinct_hm_remove
      split: pending_argument_merge.splits option.splits)

lemma plan_binding_Ok:
  assumes "plan_item_to_call_binding acc i c = Ok merge"
  shows "plan_pending_merge acc i c = Ok merge"
    and "hm_get (item_to_call acc) i = Some c' \<Longrightarrow> c' = c"
    and "hm_get (call_to_item acc) c = Some i' \<Longrightarrow> i' = i"
  using assms by (auto simp: plan_item_to_call_binding_def split: option.splits if_splits)

lemma pend_ok_bind:
  assumes pend: "pend_ok limit (pending_arguments acc) (item_to_call acc) em"
    and pairs: "pairs_ok (item_to_call acc) (call_to_item acc)"
    and plan: "plan_item_to_call_binding acc i c = Ok merge"
  shows "pend_ok limit (merge_pending i c merge (pending_arguments acc))
           (hm_or_insert i c (item_to_call acc)) em"
proof -
  let ?p = "pending_arguments acc" and ?q = "merge_pending i c merge (pending_arguments acc)"
  note plan_ok = plan_binding_Ok [OF plan]
  note keys = merge_pending_keys [OF plan_ok(1)] merge_pending_item [OF plan_ok(1)]
    merge_pending_call [OF plan_ok(1)]
  from pend have dist: "distinct (hm_keys ?p)" "distinct (hm_keys em)"
    and small: "\<And>key a. hm_get ?p key = Some a \<Longrightarrow> limit < USIZE_MAX \<Longrightarrow> utf8_len (fa_value a) \<le> limit"
    and bound: "\<And>i c. hm_get (item_to_call acc) i = Some c \<Longrightarrow> hm_get ?p (ItemKey i) = None"
    and final: "\<And>c e. hm_get em c = Some e \<Longrightarrow> (\<exists>i. hm_get (item_to_call acc) i = Some c) \<and>
        hm_get ?p (CallKey c) = Some \<lparr>fa_value = etc_arguments e, fa_lifecycle = Finalized\<rparr>"
    unfolding pend_ok_def by blast+
  have "utf8_len (fa_value a) \<le> limit" if "hm_get ?q key = Some a" "limit < USIZE_MAX" for key a
  proof (cases "key = CallKey c")
    case True
    with that(1) keys(3) obtain key' b where "hm_get ?p key' = Some b" "fa_value a = fa_value b" by auto
    with small that(2) show ?thesis by auto
  next
    case False
    with that keys(2) have "key \<noteq> ItemKey i" by auto
    with False that keys(1) small show ?thesis by auto
  qed
  moreover have "hm_get ?q (ItemKey j) = None" if "hm_get (hm_or_insert i c (item_to_call acc)) j = Some d" for j d
    using that keys(1) [of "ItemKey j"] keys(2) bound [of j] by (cases "j = i") auto
  moreover have "(\<exists>j. hm_get (hm_or_insert i c (item_to_call acc)) j = Some d) \<and>
        hm_get ?q (CallKey d) = Some \<lparr>fa_value = etc_arguments e, fa_lifecycle = Finalized\<rparr>"
    if "hm_get em d = Some e" for d e
  proof -
    from final [OF that] obtain j where j: "hm_get (item_to_call acc) j = Some d" by blast
    then have some: "hm_get (hm_or_insert i c (item_to_call acc)) j = Some d"
      by (rule map_leD [OF or_insert_le])
    have "hm_get ?q (CallKey d) = hm_get ?p (CallKey d)"
    proof (cases "d = c")
      case True
      with j pairs have "hm_get (call_to_item acc) c = Some j" unfolding pairs_ok_def by blast
      with plan_ok(3) have "j = i" by simp
      with j bound have "hm_get ?p (ItemKey i) = None" by blast
      with merge_pending_unbound [OF plan_ok(1)] True show ?thesis by simp
    next
      case False
      with keys(1) show ?thesis by simp
    qed
    with final [OF that] some show ?thesis by metis
  qed
  ultimately show ?thesis
    using dist distinct_merge_pending [OF dist(1)] unfolding pend_ok_def by blast
qed

lemma apply_binding_keeps:
  assumes inv: "acc_inv acc" and plan: "plan_item_to_call_binding acc i c = Ok merge"
  defines "acc' \<equiv> apply_item_to_call_binding acc i c merge"
  shows "acc_inv acc'" and "hm_get (item_to_call acc') i = Some c"
proof -
  note plan_ok = plan_binding_Ok [OF plan]
  from inv have pairs: "pairs_ok (item_to_call acc) (call_to_item acc)" by (simp add: acc_inv_def)
  note new = pairs_ok_bind [OF pairs plan_ok(2,3)]
  show "hm_get (item_to_call acc') i = Some c"
    using new(2) by (simp add: acc'_def apply_item_to_call_binding_def)
  show "acc_inv acc'"
    using inv new(1) pend_ok_bind [OF _ pairs plan] items_ok_mono [OF _ or_insert_le map_le_refl map_le_refl]
    by (simp add: acc_inv_def acc'_def apply_item_to_call_binding_def)
qed

lemma bind_item_to_call_keeps:
  assumes "acc_inv acc" and "bind_item_to_call acc i c = Ok acc'"
  shows "acc_inv acc'" and "hm_get (item_to_call acc') i = Some c"
    and "\<exists>itc cti pend. acc' = acc\<lparr>item_to_call := itc, call_to_item := cti, pending_arguments := pend\<rparr>"
proof -
  from assms(2) obtain merge where "plan_item_to_call_binding acc i c = Ok merge"
    and acc': "acc' = apply_item_to_call_binding acc i c merge"
    by (auto simp: bind_item_to_call_def and_then_Ok_iff)
  with apply_binding_keeps [OF assms(1)] show "acc_inv acc'" "hm_get (item_to_call acc') i = Some c"
    by simp_all
  show "\<exists>itc cti pend. acc' = acc\<lparr>item_to_call := itc, call_to_item := cti, pending_arguments := pend\<rparr>"
    unfolding acc' apply_item_to_call_binding_def by blast
qed

section \<open>Arguments of a call\<close>

text \<open>A key under which arguments may be kept: an item that is bound to a call keeps none.\<close>

fun key_ok :: "accumulator \<Rightarrow> function_argument_key \<Rightarrow> bool" where
  "key_ok acc (ItemKey i) = (hm_get (item_to_call acc) i = None)"
| "key_ok acc (CallKey c) = True"

lemma canonical_key_ok: "canonical_argument_key acc i c = Some key \<Longrightarrow> key_ok acc key"
  by (auto simp: canonical_argument_key_def split: option.splits)

lemma canonical_key_no_panic [no_panic]:
  "\<not> (i = None \<and> c = None) \<Longrightarrow> ok_or (canonical_argument_key acc i c) Panicked \<noteq> Err Panicked"
  by (auto simp: canonical_argument_key_def split: option.splits)

lemma remember_keeps:
  assumes inv: "acc_inv acc" and key: "key_ok acc key"
    and ok: "remember_final_arguments acc key arguments = Ok acc'"
  shows "acc_inv acc'"
    and "hm_get (pending_arguments acc') key = Some \<lparr>fa_value = arguments, fa_lifecycle = Finalized\<rparr>"
    and "\<exists>pend. acc' = acc\<lparr>pending_arguments := pend\<rparr>"
proof -
  let ?fin = "\<lparr>fa_value = arguments, fa_lifecycle = Finalized\<rparr>"
  from ok obtain pend where acc': "acc' = acc\<lparr>pending_arguments := pend\<rparr>"
    and get: "hm_get pend = (hm_get (pending_arguments acc))(key \<mapsto> ?fin)"
    and dist: "distinct (hm_keys (pending_arguments acc)) \<Longrightarrow> distinct (hm_keys pend)"
    and small: "utf8_len arguments \<le> max_argument_bytes acc"
    and same: "\<And>a. hm_get (pending_arguments acc) key = Some a \<Longrightarrow> fa_lifecycle a = Finalized \<Longrightarrow>
                 fa_value a = arguments"
    by (auto simp: remember_final_arguments_def ensure_argument_bytes_def and_then_Ok_iff Let_def
        fun_eq_iff distinct_hm_insert split: option.splits if_splits)
  show "\<exists>pend. acc' = acc\<lparr>pending_arguments := pend\<rparr>" using acc' by blast
  show "hm_get (pending_arguments acc') key = Some ?fin" using acc' get by simp
  from inv have "pend_ok (max_argument_bytes acc) (pending_arguments acc) (item_to_call acc) (emitted_tool_calls acc)"
    by (simp add: acc_inv_def)
  then have "pend_ok (max_argument_bytes acc) pend (item_to_call acc) (emitted_tool_calls acc)"
    using dist small same key unfolding pend_ok_def get by (cases key) (auto; fastforce)+
  with inv show "acc_inv acc'" by (simp add: acc_inv_def acc')
qed

lemma push_argument_keeps:
  assumes inv: "acc_inv acc" and key: "key_ok acc key"
    and growing: "\<And>a. hm_get (pending_arguments acc) key = Some a \<Longrightarrow> fa_lifecycle a = Accumulating"
    and small: "max_argument_bytes acc < USIZE_MAX \<Longrightarrow>
      utf8_len (case hm_get (pending_arguments acc) key of None \<Rightarrow> [] | Some a \<Rightarrow> fa_value a) +
        utf8_len delta \<le> max_argument_bytes acc"
  shows "acc_inv (push_argument key delta acc)"
proof -
  let ?a = "case hm_get (pending_arguments acc) key of None \<Rightarrow> [] | Some a \<Rightarrow> fa_value a"
  define pend where "pend = pending_arguments (push_argument key delta acc)"
  have acc': "push_argument key delta acc = acc\<lparr>pending_arguments := pend\<rparr>"
    by (simp add: pend_def push_argument_def)
  have get: "hm_get pend = (hm_get (pending_arguments acc))
               (key \<mapsto> \<lparr>fa_value = ?a @ delta, fa_lifecycle = Accumulating\<rparr>)"
    using growing by (auto simp: pend_def push_argument_def fun_eq_iff split: option.splits)
  have dist: "distinct (hm_keys (pending_arguments acc)) \<Longrightarrow> distinct (hm_keys pend)"
    by (simp add: pend_def push_argument_def distinct_hm_or_insert)
  have unfinished: "hm_get (pending_arguments acc) key \<noteq> Some \<lparr>fa_value = v, fa_lifecycle = Finalized\<rparr>" for v
    using growing by force
  from inv have "pend_ok (max_argument_bytes acc) (pending_arguments acc) (item_to_call acc) (emitted_tool_calls acc)"
    by (simp add: acc_inv_def)
  then have "pend_ok (max_argument_bytes acc) pend (item_to_call acc) (emitted_tool_calls acc)"
    using dist small unfinished key unfolding pend_ok_def get
    by (cases key) (auto; fastforce)+
  with inv show ?thesis by (simp add: acc_inv_def acc')
qed

lemma append_allowed:
  assumes "ensure_argument_append acc n m = Ok ()" and "max_argument_bytes acc < USIZE_MAX"
  shows "n + m \<le> max_argument_bytes acc"
  using assms by (auto simp: ensure_argument_append_def ensure_argument_bytes_def sat_add_def split: if_splits)

lemma delta_allowed: "ensure_argument_delta_allowed key l = Ok () \<Longrightarrow> l = Accumulating"
  by (cases l) (simp_all add: ensure_argument_delta_allowed_def)

lemma delta_key_keeps:
  assumes inv: "acc_inv acc" and ok: "delta_key acc i c (utf8_len delta) = Ok (key, acc')"
  shows "acc_inv (push_argument key delta acc')"
    and "\<exists>itc cti pend. acc' = acc\<lparr>item_to_call := itc, call_to_item := cti, pending_arguments := pend\<rparr>"
proof -
  have "acc_inv (push_argument key delta acc') \<and>
    (\<exists>itc cti pend. acc' = acc\<lparr>item_to_call := itc, call_to_item := cti, pending_arguments := pend\<rparr>)"
  proof (cases "\<exists>i' c'. i = Some i' \<and> c = Some c'")
    case True
    then obtain i' c' where ic: "i = Some i'" "c = Some c'" by blast
    from ok obtain merge where plan: "plan_item_to_call_binding acc i' c' = Ok merge"
      and allowed: "ensure_argument_delta_allowed (CallKey c') (merge_lifecycle merge) = Ok ()"
      and append: "ensure_argument_append acc (merge_length merge) (utf8_len delta) = Ok ()"
      and new: "key = CallKey c'" "acc' = apply_item_to_call_binding acc i' c' merge"
      by (auto simp: delta_key_def ic and_then_Ok_iff)
    have pend: "pending_arguments acc' = merge_pending i' c' merge (pending_arguments acc)"
      and limit: "max_argument_bytes acc' = max_argument_bytes acc"
      by (simp_all add: new apply_item_to_call_binding_def)
    note call = merge_pending_call [OF plan_binding_Ok(1) [OF plan], folded pend]
    have inv': "acc_inv acc'" unfolding new(2) by (rule apply_binding_keeps(1) [OF inv plan])
    have growing: "fa_lifecycle a = Accumulating" if "hm_get (pending_arguments acc') key = Some a" for a
      using that call delta_allowed [OF allowed] by (simp add: new(1))
    have small: "utf8_len (case hm_get (pending_arguments acc') key of None \<Rightarrow> [] | Some a \<Rightarrow> fa_value a) +
        utf8_len delta \<le> max_argument_bytes acc'" if "max_argument_bytes acc' < USIZE_MAX"
      using call append_allowed [OF append] that by (auto simp: new(1) limit split: option.splits)
    have "key_ok acc' key" by (simp add: new(1))
    from push_argument_keeps [OF inv' this growing small] new(2) show ?thesis
      unfolding apply_item_to_call_binding_def by blast
  next
    case False
    then have "delta_key acc i c (utf8_len delta) =
          and_then (ok_or (canonical_argument_key acc i c) Panicked) (\<lambda>key.
          let current = hm_get (pending_arguments acc) key in
          and_then (ensure_argument_delta_allowed key
                      (case current of None \<Rightarrow> Accumulating | Some a \<Rightarrow> fa_lifecycle a)) (\<lambda>_.
          and_then (ensure_argument_append acc
                      (case current of None \<Rightarrow> 0 | Some a \<Rightarrow> utf8_len (fa_value a)) (utf8_len delta)) (\<lambda>_.
          Ok (key, acc))))"
      unfolding delta_key_def by (cases i; cases c) auto
    with ok have canonical: "canonical_argument_key acc i c = Some key" and same: "acc' = acc"
      and allowed: "ensure_argument_delta_allowed key
         (case hm_get (pending_arguments acc) key of None \<Rightarrow> Accumulating | Some a \<Rightarrow> fa_lifecycle a) = Ok ()"
      and append: "ensure_argument_append acc
         (case hm_get (pending_arguments acc) key of None \<Rightarrow> 0 | Some a \<Rightarrow> utf8_len (fa_value a))
         (utf8_len delta) = Ok ()"
      by (auto simp: and_then_Ok_iff Let_def ok_or_def split: option.splits)
    have growing: "fa_lifecycle a = Accumulating" if "hm_get (pending_arguments acc) key = Some a" for a
      using that delta_allowed [OF allowed] by simp
    have small: "utf8_len (case hm_get (pending_arguments acc) key of None \<Rightarrow> [] | Some a \<Rightarrow> fa_value a) +
        utf8_len delta \<le> max_argument_bytes acc" if "max_argument_bytes acc < USIZE_MAX"
      using append_allowed [OF append that] by (auto split: option.splits)
    have "acc_inv (push_argument key delta acc)"
      by (rule push_argument_keeps [OF inv canonical_key_ok [OF canonical] growing small])
    moreover have "\<exists>itc cti pend. acc = acc\<lparr>item_to_call := itc, call_to_item := cti, pending_arguments := pend\<rparr>"
      by (rule exI [of _ "item_to_call acc"], rule exI [of _ "call_to_item acc"],
          rule exI [of _ "pending_arguments acc"]) simp
    ultimately show ?thesis unfolding same by blast
  qed
  then show "acc_inv (push_argument key delta acc')"
    "\<exists>itc cti pend. acc' = acc\<lparr>item_to_call := itc, call_to_item := cti, pending_arguments := pend\<rparr>"
    by simp_all
qed

section \<open>Tool calls\<close>

lemma grows_by_update:
  assumes "\<exists>itc cti pend. acc' = acc\<lparr>item_to_call := itc, call_to_item := cti, pending_arguments := pend\<rparr>"
  shows "stream_grows (acc, evs) (acc', evs)"
  using assms by (auto intro: stream_grows_silent)

lemma grows_by_binding:
  assumes "\<exists>reg. acc' = acc\<lparr>output_identities := reg\<rparr>"
  shows "stream_grows (acc, evs) (acc', evs)"
  using assms by (auto intro: stream_grows_silent)

lemma emit_tool_call_good:
  assumes inv: "acc_inv acc" and bound: "hm_get (item_to_call acc) i = Some c"
  shows "stream.good (emit_tool_call c n a (acc, evs)) (acc, evs)"
    and "emit_tool_call c n a (acc, evs) = (Ok (), acc', evs') \<Longrightarrow>
         hm_get (emitted_tool_calls acc') c = Some \<lparr>etc_name = n, etc_arguments = a\<rparr> \<and>
         (\<exists>pend em. acc' = acc\<lparr>pending_arguments := pend, emitted_tool_calls := em\<rparr>)"
proof -
  have "stream.good (emit_tool_call c n a (acc, evs)) (acc, evs) \<and>
    (emit_tool_call c n a (acc, evs) = (Ok (), acc', evs') \<longrightarrow>
         hm_get (emitted_tool_calls acc') c = Some \<lparr>etc_name = n, etc_arguments = a\<rparr> \<and>
         (\<exists>pend em. acc' = acc\<lparr>pending_arguments := pend, emitted_tool_calls := em\<rparr>))"
  proof (cases "hm_get (emitted_tool_calls acc) c")
    case (Some e)
    have "\<exists>pend em. acc = acc\<lparr>pending_arguments := pend, emitted_tool_calls := em\<rparr>"
      by (rule exI [of _ "pending_arguments acc"], rule exI [of _ "emitted_tool_calls acc"]) simp
    with Some inv show ?thesis
      by (auto simp: emit_tool_call_def stream.good_Err stream.good_stay)
  next
    case None
    show ?thesis
    proof (cases "remember_final_arguments acc (CallKey c) a")
      case (Inl e)
      with None remember_no_panic [of acc "CallKey c" a] show ?thesis
        by (auto simp: emit_tool_call_def stream.good_Err)
    next
      case (Inr acc1)
      have "key_ok acc (CallKey c)" by simp
      note kept = remember_keeps [OF inv this Inr]
      obtain pend where acc1: "acc1 = acc\<lparr>pending_arguments := pend\<rparr>" using kept(3) by blast
      let ?e = "\<lparr>etc_name = n, etc_arguments = a\<rparr>"
      let ?acc = "acc1\<lparr>emitted_tool_calls := hm_insert c ?e (emitted_tool_calls acc1)\<rparr>"
      let ?evs = "[ToolCallStart c n, ToolCallArgsDelta c a]"
      have run: "emit_tool_call c n a (acc, evs) = (Ok (), ?acc, evs @ ?evs)"
        using None Inr by (simp add: emit_tool_call_def)
      have old: "pend_ok (max_argument_bytes acc1) (pending_arguments acc1) (item_to_call acc1)
          (emitted_tool_calls acc1)" using kept(1) by (simp add: acc_inv_def)
      have "hm_get (item_to_call acc1) i = Some c" using bound by (simp add: acc1)
      with old kept(2) have "pend_ok (max_argument_bytes acc1) (pending_arguments acc1) (item_to_call acc1)
          (hm_insert c ?e (emitted_tool_calls acc1))"
        unfolding pend_ok_def by (auto simp: distinct_hm_insert)
      moreover have "items_ok (function_items acc1) (item_to_call acc1) (output_identities acc1)
          (hm_insert c ?e (emitted_tool_calls acc1))"
        using kept(1) items_ok_mono [OF _ map_le_refl map_le_refl insert_le] None
        by (simp add: acc_inv_def acc1)
      ultimately have inv': "acc_inv ?acc" using kept(1) by (simp add: acc_inv_def)
      have em: "emitted_tool_calls ?acc = emitted_tool_calls acc @ [(c, ?e)]"
        using None by (simp add: acc1 hm_insert_def hm_contains_def)
      have "stream_grows (acc, evs) (?acc, evs @ ?evs)"
        by (rule stream_growsI [where new = ?evs and log = "[]" and added = "[(c, ?e)]"])
          (simp_all add: em, simp_all add: acc1 shown_of_def call_events_def complete_at_def)
      with inv' have "stream.good (emit_tool_call c n a (acc, evs)) (acc, evs)"
        by (simp add: run stream.good_Ok)
      moreover have "\<exists>pend em. ?acc = acc\<lparr>pending_arguments := pend, emitted_tool_calls := em\<rparr>"
        unfolding acc1 by (simp, blast)
      moreover have "hm_get (emitted_tool_calls ?acc) c = Some ?e" by simp
      ultimately show ?thesis unfolding run by blast
    qed
  qed
  then show "stream.good (emit_tool_call c n a (acc, evs)) (acc, evs)"
    "emit_tool_call c n a (acc, evs) = (Ok (), acc', evs') \<Longrightarrow>
         hm_get (emitted_tool_calls acc') c = Some \<lparr>etc_name = n, etc_arguments = a\<rparr> \<and>
         (\<exists>pend em. acc' = acc\<lparr>pending_arguments := pend, emitted_tool_calls := em\<rparr>)"
    by simp_all
qed

lemma items_ok_insert:
  assumes "items_ok fis itc reg em" and "hm_get itc i = Some (fi_call_id f)"
    and "hm_get (item_to_output reg) i = Some (fi_output_index f, KFunctionCall)"
    and "fi_lifecycle f = ItemComplete \<Longrightarrow> \<exists>e. hm_get em (fi_call_id f) = Some e \<and> etc_name e = fi_name f"
  shows "items_ok (hm_insert i f fis) itc reg em" and "items_ok (hm_or_insert i f fis) itc reg em"
  using assms by (auto simp: items_ok_def distinct_hm_insert distinct_hm_or_insert split: option.splits)

lemma complete_function_call_good:
  assumes inv: "acc_inv acc" and bound: "hm_get (item_to_call acc) i = Some c"
  shows "stream.good
     (chain (emit_tool_call c name arguments (acc, evs)) (\<lambda>_ s.
      check (acc_binding i n KFunctionCall (fst s)) s (\<lambda>acc.
      (Ok (), acc\<lparr>function_items := hm_insert i \<lparr>fi_output_index = n, fi_call_id = c, fi_name = name,
         fi_lifecycle = ItemComplete\<rparr> (function_items acc)\<rparr>, snd s)))) (acc, evs)"
proof (intro stream.good_chain stream.good_check no_panic emit_tool_call_good(1) [OF inv bound])
  fix u s acc2
  assume run: "emit_tool_call c name arguments (acc, evs) = (Ok u, s)" and "acc_inv (fst s)"
    and "acc_binding i n KFunctionCall (fst s) = Ok acc2"
  moreover obtain acc1 evs1 where s: "s = (acc1, evs1)" by (cases s)
  ultimately have inv1: "acc_inv acc1" and bind: "acc_binding i n KFunctionCall acc1 = Ok acc2" by simp_all
  from emit_tool_call_good(2) [OF inv bound] run s
  have em: "hm_get (emitted_tool_calls acc1) c = Some \<lparr>etc_name = name, etc_arguments = arguments\<rparr>"
    and acc1: "\<exists>pend em. acc1 = acc\<lparr>pending_arguments := pend, emitted_tool_calls := em\<rparr>" by simp_all
  note kept = acc_binding_keeps [OF inv1 bind]
  from kept(3) obtain reg where acc2: "acc2 = acc1\<lparr>output_identities := reg\<rparr>" by blast
  let ?f = "\<lparr>fi_output_index = n, fi_call_id = c, fi_name = name, fi_lifecycle = ItemComplete\<rparr>"
  let ?acc = "acc2\<lparr>function_items := hm_insert i ?f (function_items acc2)\<rparr>"
  have "items_ok (function_items acc2) (item_to_call acc2) (output_identities acc2) (emitted_tool_calls acc2)"
    using kept(1) by (simp add: acc_inv_def)
  moreover have "hm_get (item_to_call acc2) i = Some (fi_call_id ?f)" using bound acc1 acc2 by auto
  ultimately have "items_ok (hm_insert i ?f (function_items acc2)) (item_to_call acc2)
      (output_identities acc2) (emitted_tool_calls acc2)"
    using kept(2) em by (intro items_ok_insert(1)) (simp_all add: acc2)
  then have "acc_inv ?acc" using kept(1) by (simp add: acc_inv_def)
  moreover have "stream_grows (acc1, evs1) (?acc, evs1)"
    by (rule stream_grows_silent) (simp_all add: acc2)
  ultimately show "stream.good (Ok (), ?acc, snd s) s" by (simp add: s stream.good_Ok)
qed

lemma handle_function_call_done_good:
  assumes "acc_inv (fst s)"
  shows "stream.good (handle_function_call_done item i n s) s"
proof -
  obtain acc evs where s: "s = (acc, evs)" by (cases s)
  have inv: "acc_inv acc" using assms s by simp
  show ?thesis unfolding handle_function_call_done_def s Let_def fst_conv snd_conv
  proof (intro stream.good_check stream.good_if stream.good_ErrI no_panic)
    fix c name arguments acc1
    assume "bind_item_to_call acc i c = Ok acc1"
    note kept = bind_item_to_call_keeps [OF inv this]
    show "stream.good
     (chain (emit_tool_call c name arguments (acc1, evs)) (\<lambda>_ s.
      check (acc_binding i n KFunctionCall (fst s)) s (\<lambda>acc.
      (Ok (), acc\<lparr>function_items := hm_insert i \<lparr>fi_output_index = n, fi_call_id = c, fi_name = name,
         fi_lifecycle = ItemComplete\<rparr> (function_items acc)\<rparr>, snd s)))) (acc, evs)"
      by (rule stream.good_from [OF grows_by_update [OF kept(3)]
            complete_function_call_good [OF kept(1,2)]])
  qed
qed

lemma add_function_call_good:
  assumes "acc_inv (fst s)"
  shows "stream.good (add_function_call event item s) s"
proof -
  obtain acc evs where s: "s = (acc, evs)" by (cases s)
  have inv: "acc_inv acc" using assms s by simp
  show ?thesis unfolding add_function_call_def s Let_def fst_conv snd_conv
  proof (intro stream.good_check stream.good_if stream.good_ErrI no_panic)
    fix i n c name acc1 acc2
    assume "bind_item_to_call acc i c = Ok acc1" and bind: "acc_binding i n KFunctionCall acc1 = Ok acc2"
    note kept1 = bind_item_to_call_keeps [OF inv this(1)]
    note kept2 = acc_binding_keeps [OF kept1(1) bind]
    from kept2(3) obtain reg where acc2: "acc2 = acc1\<lparr>output_identities := reg\<rparr>" by blast
    let ?f = "\<lparr>fi_output_index = n, fi_call_id = c, fi_name = name, fi_lifecycle = ItemAdded\<rparr>"
    let ?acc = "acc2\<lparr>function_items := hm_or_insert i ?f (function_items acc2)\<rparr>"
    have "items_ok (function_items acc2) (item_to_call acc2) (output_identities acc2) (emitted_tool_calls acc2)"
      using kept2(1) by (simp add: acc_inv_def)
    moreover have "hm_get (item_to_call acc2) i = Some (fi_call_id ?f)" using kept1(2) by (simp add: acc2)
    ultimately have "items_ok (hm_or_insert i ?f (function_items acc2)) (item_to_call acc2)
        (output_identities acc2) (emitted_tool_calls acc2)"
      using kept2(2) by (intro items_ok_insert(2)) (simp_all add: acc2)
    then have "acc_inv ?acc" using kept2(1) by (simp add: acc_inv_def)
    moreover have "stream_grows (acc1, evs) (?acc, evs)"
      by (rule stream_grows_silent) (simp_all add: acc2)
    ultimately have "stream.good (Ok (), ?acc, evs) (acc1, evs)" by (simp add: stream.good_Ok)
    then show "stream.good (Ok (), ?acc, evs) (acc, evs)"
      by (rule stream.good_from [OF grows_by_update [OF kept1(3)]])
  qed
qed

section \<open>Argument events\<close>

lemma check_items_no_panic [no_panic]:
  "check_done_item acc i n c name \<noteq> Err Panicked"
  "check_delta_item acc i n \<noteq> Err Panicked"
  "check_emitted acc i a name \<noteq> Err Panicked"
  unfolding check_done_item_def check_delta_item_def check_emitted_def Let_def
  by (intro no_panic)+

lemma bind_output_no_panic [no_panic]: "bind_output_if_known i n acc \<noteq> Err Panicked"
  using no_panic by (auto simp: bind_output_if_known_def split: option.splits)

lemma bind_output_keeps:
  assumes "acc_inv acc" and "bind_output_if_known i n acc = Ok acc'"
  shows "acc_inv acc'" and "\<exists>reg. acc' = acc\<lparr>output_identities := reg\<rparr>"
proof -
  have "acc_inv acc' \<and> (\<exists>reg. acc' = acc\<lparr>output_identities := reg\<rparr>)"
  proof (cases "\<exists>i' n'. i = Some i' \<and> n = Some n'")
    case True
    then obtain i' n' where "i = Some i'" "n = Some n'" by blast
    with assms(2) have "acc_binding i' n' KFunctionCall acc = Ok acc'"
      by (simp add: bind_output_if_known_def)
    from acc_binding_keeps [OF assms(1) this] show ?thesis by simp
  next
    case False
    with assms(2) have "acc' = acc" by (auto simp: bind_output_if_known_def split: option.splits)
    moreover have "acc = acc\<lparr>output_identities := output_identities acc\<rparr>" by simp
    ultimately show ?thesis using assms(1) by metis
  qed
  then show "acc_inv acc'" "\<exists>reg. acc' = acc\<lparr>output_identities := reg\<rparr>" by simp_all
qed

lemma handle_function_call_arguments_done_good:
  assumes "acc_inv (fst s)"
  shows "stream.good (handle_function_call_arguments_done event s) s"
proof -
  obtain acc evs where s: "s = (acc, evs)" by (cases s)
  have inv: "acc_inv acc" using assms s by simp
  show ?thesis unfolding handle_function_call_arguments_done_def s Let_def fst_conv snd_conv
  proof (intro stream.good_check stream.good_if stream.good_ErrI no_panic)
    fix arguments item_id call_id output_index name acc1 key acc2 acc3
    assume bind: "(case (item_id, call_id) of (Some i, Some c) \<Rightarrow> bind_item_to_call acc i c | _ \<Rightarrow> Ok acc) = Ok acc1"
      and key: "ok_or (canonical_argument_key acc1 item_id call_id) Panicked = Ok key"
      and rem: "remember_final_arguments acc1 key arguments = Ok acc2"
      and out: "bind_output_if_known item_id output_index acc2 = Ok acc3"
    have kept1: "acc_inv acc1 \<and>
      (\<exists>itc cti pend. acc1 = acc\<lparr>item_to_call := itc, call_to_item := cti, pending_arguments := pend\<rparr>)"
    proof (cases "\<exists>i c. item_id = Some i \<and> call_id = Some c")
      case True
      then obtain i c where "bind_item_to_call acc i c = Ok acc1" using bind by auto
      from bind_item_to_call_keeps [OF inv this] show ?thesis by blast
    next
      case False
      with bind have "acc1 = acc" by (auto split: option.splits)
      moreover have "acc = acc\<lparr>item_to_call := item_to_call acc, call_to_item := call_to_item acc,
          pending_arguments := pending_arguments acc\<rparr>" by simp
      ultimately show ?thesis using inv by metis
    qed
    from key have "canonical_argument_key acc1 item_id call_id = Some key"
      by (auto simp: ok_or_def split: option.splits)
    from kept1 remember_keeps [OF _ canonical_key_ok [OF this] rem]
    have inv2: "acc_inv acc2" and "\<exists>pend. acc2 = acc1\<lparr>pending_arguments := pend\<rparr>" by blast+
    with kept1 have "\<exists>itc cti pend. acc2 = acc\<lparr>item_to_call := itc, call_to_item := cti, pending_arguments := pend\<rparr>"
      by force
    note grow2 = grows_by_update [OF this]
    note kept3 = bind_output_keeps [OF inv2 out]
    show "stream.good
       (check_emitted acc3 (case call_id of None \<Rightarrow> opt_and_then item_id (hm_get (item_to_call acc3)) | Some c \<Rightarrow> Some c) arguments name,
        acc3, evs) (acc, evs)"
      by (rule stream.good_from [OF grow2], rule stream.good_from [OF grows_by_binding [OF kept3(2)]],
          rule stream.good_result) (simp_all add: kept3(1) no_panic)
  qed (auto simp: no_panic split: option.splits)
qed

lemma delta_key_no_panic [no_panic]:
  "\<not> (i = None \<and> c = None) \<Longrightarrow> delta_key acc i c n \<noteq> Err Panicked"
  unfolding delta_key_def Let_def by (cases i; cases c; simp; intro no_panic; simp)

lemma handle_function_call_arguments_delta_good:
  assumes "acc_inv (fst s)"
  shows "stream.good (handle_function_call_arguments_delta event s) s"
proof -
  obtain acc evs where s: "s = (acc, evs)" by (cases s)
  have inv: "acc_inv acc" using assms s by simp
  show ?thesis unfolding handle_function_call_arguments_delta_def s Let_def fst_conv snd_conv case_prod_beta
  proof (intro stream.good_check stream.good_if stream.good_ErrI no_panic)
    fix delta item_id call_id output_index ka acc2
    assume ka: "delta_key acc item_id call_id (utf8_len delta) = Ok ka"
      and out: "bind_output_if_known item_id output_index (push_argument (fst ka) delta (snd ka)) = Ok acc2"
    obtain key acc1 where ka': "ka = (key, acc1)" by (cases ka)
    note kept1 = delta_key_keeps [OF inv ka [unfolded ka']]
    note kept2 = bind_output_keeps [OF kept1(1) out [unfolded ka' fst_conv snd_conv]]
    have "\<exists>itc cti pend. push_argument key delta acc1 =
        acc\<lparr>item_to_call := itc, call_to_item := cti, pending_arguments := pend\<rparr>"
      using kept1(2) by (force simp: push_argument_def)
    note grow = grows_by_update [OF this]
    show "stream.good (Ok (), acc2, evs) (acc, evs)"
      by (rule stream.good_from [OF grow], rule stream.good_from [OF grows_by_binding [OF kept2(2)]])
        (simp add: stream.good_stay kept2(1))
  qed auto
qed

section \<open>Messages\<close>

text \<open>Everything of a message but how much of it has been released.\<close>

definition part_texts :: "message_text_state \<Rightarrow> (nat \<times> ustr \<times> message_text_lifecycle) list" where
  "part_texts st = map (\<lambda>(k, p). (k, mp_text p, mp_lifecycle p)) (mt_parts st)"

text \<open>A message before its pending text is taken.\<close>

definition ready :: "message_text_state \<Rightarrow> bool" where
  "ready st \<longleftrightarrow> bt_ok (mt_parts st) \<and> releasable 0 (mt_parts st) \<and>
     (mt_item_complete st \<longrightarrow>
        map fst (mt_parts st) = [0..<length (mt_parts st)] \<and>
        list_all (\<lambda>(_, p). mp_lifecycle p = TextDone) (mt_parts st))"

lemma part_texts_facts:
  assumes "part_texts st = part_texts st'"
  shows "map fst (mt_parts st) = map fst (mt_parts st')"
    and "list_all (\<lambda>(_, p). mp_lifecycle p = TextDone) (mt_parts st) \<longleftrightarrow>
         list_all (\<lambda>(_, p). mp_lifecycle p = TextDone) (mt_parts st')"
    and "full_text (mt_parts st) = full_text (mt_parts st')"
proof -
  have fst: "map fst (mt_parts st) = map fst (part_texts st)" for st
    by (simp add: part_texts_def comp_def case_prod_beta)
  have all: "list_all (\<lambda>(_, p). mp_lifecycle p = TextDone) (mt_parts st) \<longleftrightarrow>
      list_all (\<lambda>(_, _, l). l = TextDone) (part_texts st)" for st
    by (simp add: part_texts_def list_all_iff case_prod_beta)
  have full: "full_text (mt_parts st) = concat (map (\<lambda>(_, t, _). t) (part_texts st))" for st
    by (simp add: part_texts_def full_text_def comp_def case_prod_beta)
  show "map fst (mt_parts st) = map fst (mt_parts st')"
    "list_all (\<lambda>(_, p). mp_lifecycle p = TextDone) (mt_parts st) \<longleftrightarrow>
     list_all (\<lambda>(_, p). mp_lifecycle p = TextDone) (mt_parts st')"
    "full_text (mt_parts st) = full_text (mt_parts st')"
    using assms by (simp_all add: fst [of st] fst [of st'] all [of st] all [of st'] full [of st] full [of st'])
qed

text \<open>The flow depends on the texts and lifecycles only.\<close>

fun flow_of :: "nat \<Rightarrow> (nat \<times> ustr \<times> message_text_lifecycle) list \<Rightarrow> ustr" where
  "flow_of n [] = []"
| "flow_of n ((k, t, l) # ps) =
     (if k \<noteq> n then [] else t @ (if l = Streaming then [] else flow_of (Suc n) ps))"

lemma flow_part_texts: "flow n (mt_parts st) = flow_of n (part_texts st)"
proof -
  have "flow n ps = flow_of n (map (\<lambda>(k, p). (k, mp_text p, mp_lifecycle p)) ps)" for ps
    by (induction n ps rule: flow.induct) auto
  then show ?thesis by (simp add: part_texts_def)
qed

lemma take_pending_text_ready:
  assumes "ready st"
  shows "\<exists>t st'. take_pending_text st = Some (t, st') \<and> text_ok st' \<and>
     shown (mt_parts st') = shown (mt_parts st) @ t \<and> part_texts st' = part_texts st \<and>
     mt_item_complete st' = mt_item_complete st"
proof -
  from assms have "releasable 0 (mt_parts st)" by (simp add: ready_def)
  from take_pending_releases [OF this] obtain t ps where
    run: "take_pending 0 (mt_parts st) = Some (t, ps)" and grow: "shown ps = shown (mt_parts st) @ t"
    and flow: "shown ps = flow 0 (mt_parts st)" and rel: "releasable 0 ps"
    and texts: "map (\<lambda>(k, p). (k, mp_text p, mp_lifecycle p)) ps =
                map (\<lambda>(k, p). (k, mp_text p, mp_lifecycle p)) (mt_parts st)" by blast
  let ?st = "st\<lparr>mt_parts := ps\<rparr>"
  have same: "part_texts ?st = part_texts st" using texts by (simp add: part_texts_def)
  note facts = part_texts_facts [OF same]
  have "flow 0 ps = flow 0 (mt_parts st)"
    using same flow_part_texts [of 0 ?st] flow_part_texts [of 0 st] by simp
  moreover have "length ps = length (mt_parts st)" using arg_cong [OF texts, of length] by simp
  ultimately have "text_ok ?st"
    using assms facts rel flow by (simp add: text_ok_def ready_def bt_ok_def)
  with run grow same show ?thesis by (auto simp: take_pending_text_def)
qed

lemma texts_ok_insert:
  assumes "texts_ok mts reg" and "text_ok st" and "hm_get (item_to_output reg) i = Some (n, KMessage)"
  shows "texts_ok (hm_insert i st mts) reg"
  using assms by (auto simp: texts_ok_def distinct_hm_insert)

lemma release_text_good:
  assumes inv: "acc_inv acc" and bound: "hm_get (item_to_output (output_identities acc)) i = Some (n, KMessage)"
    and ready: "ready st" and same: "shown (mt_parts st) = shown_of acc i"
    and open0: "\<not> mt_item_complete (message_of acc i)"
  shows "stream.good (release_text i st e (acc, evs)) (acc, evs)"
    and "\<exists>s. release_text i st e (acc, evs) = (Ok (), s)"
    and "release_text i st e (acc, evs) = (Ok (), acc', evs') \<Longrightarrow>
      \<exists>st'. acc' = acc\<lparr>message_text_items := hm_insert i st' (message_text_items acc)\<rparr> \<and>
        part_texts st' = part_texts st \<and> mt_item_complete st' = mt_item_complete st"
proof -
  from take_pending_text_ready [OF ready] obtain t st' where
    take: "take_pending_text st = Some (t, st')" and ok: "text_ok st'"
    and grow: "shown (mt_parts st') = shown_of acc i @ t" and texts: "part_texts st' = part_texts st"
    and comp: "mt_item_complete st' = mt_item_complete st"
    using same by auto
  let ?acc = "acc\<lparr>message_text_items := hm_insert i st' (message_text_items acc)\<rparr>"
  let ?new = "if t \<noteq> [] \<or> e then [TextDelta t] else []"
  have run: "release_text i st e (acc, evs) = (Ok (), ?acc, evs @ ?new)"
    using take by (simp add: release_text_def)
  from run show "\<exists>s. release_text i st e (acc, evs) = (Ok (), s)" by blast
  show "\<exists>st'. acc' = acc\<lparr>message_text_items := hm_insert i st' (message_text_items acc)\<rparr> \<and>
        part_texts st' = part_texts st \<and> mt_item_complete st' = mt_item_complete st"
    if "release_text i st e (acc, evs) = (Ok (), acc', evs')"
    using that texts comp unfolding run by auto
  have "acc_inv ?acc"
    using inv texts_ok_insert [OF _ ok bound] by (simp add: acc_inv_def)
  moreover have "stream_grows (acc, evs) (?acc, evs @ ?new)"
    by (rule stream_growsI [where new = ?new and added = "[]"
          and log = "if t \<noteq> [] \<or> e then [(i, t)] else []"])
      (use open0 in \<open>auto simp: shown_of_def call_events_def grow [unfolded shown_of_def] complete_at_def
        message_of_def\<close>)
  ultimately show "stream.good (release_text i st e (acc, evs)) (acc, evs)"
    by (simp add: run stream.good_Ok)
qed

lemma message_of_ok:
  assumes "acc_inv acc"
  shows "text_ok (message_of acc i)" and "shown (mt_parts (message_of acc i)) = shown_of acc i"
  using assms
  by (auto simp: message_of_def shown_of_def acc_inv_def texts_ok_def incomplete_message_def text_ok_def
      split: option.splits)

lemma message_of_binding:
  "\<exists>reg. acc' = acc\<lparr>output_identities := reg\<rparr> \<Longrightarrow> message_of acc' i = message_of acc i"
  by (auto simp: message_of_def)

lemma update_part_ready:
  assumes "ready st" and "\<not> mt_item_complete st"
    and "\<And>p. map_of (mt_parts st) k = Some p \<Longrightarrow> extends p (f p)" and "mp_emitted_bytes (f incomplete_part) = 0"
  shows "ready (update_part k f st)" and "shown (mt_parts (update_part k f st)) = shown (mt_parts st)"
    and "\<not> mt_item_complete (update_part k f st)"
  using assms releasable_update [of 0 k "mt_parts st" f incomplete_part]
  by (auto simp: ready_def update_part_def bt_ok_update)

lemma text_ok_ready: "text_ok st \<Longrightarrow> ready st"
  by (simp add: text_ok_def ready_def)

section \<open>Methods that fail cleanly\<close>

definition clean :: "('a, 'e) result \<times> 's \<Rightarrow> 's \<Rightarrow> bool" where
  "clean m s \<longleftrightarrow> is_ok (fst m) \<or> snd m = s"

lemma clean_Err: "clean (Err e, s) s"
  by (simp add: clean_def)

lemma clean_Ok: "clean (Ok a, s') s"
  by (simp add: clean_def)

lemma clean_stay: "clean (r, s) s"
  by (simp add: clean_def)

lemma clean_if: "(P \<Longrightarrow> clean m s) \<Longrightarrow> (\<not> P \<Longrightarrow> clean m' s) \<Longrightarrow> clean (if P then m else m') s"
  by simp

lemma clean_case:
  "(x = None \<Longrightarrow> clean m s) \<Longrightarrow> (\<And>a. x = Some a \<Longrightarrow> clean (k a) s) \<Longrightarrow>
   clean (case x of None \<Rightarrow> m | Some a \<Rightarrow> k a) s"
  by (cases x) simp_all

lemma clean_check: "(\<And>a. r = Ok a \<Longrightarrow> clean (k a) s) \<Longrightarrow> clean (check r s k) s"
  by (cases r) (simp_all add: clean_Err)

lemma clean_chain: "clean m s \<Longrightarrow> (\<And>a s'. m = (Ok a, s') \<Longrightarrow> is_ok (fst (k a s'))) \<Longrightarrow> clean (chain m k) s"
  by (cases m; cases "fst m") (auto simp: clean_def)

lemmas clean_intros = clean_check clean_if clean_Err clean_stay

section \<open>Text events\<close>

lemma text_update_good:
  assumes inv: "acc_inv acc" and bind: "acc_binding i n KMessage acc = Ok acc1"
    and ready: "ready st" and same: "shown (mt_parts st) = shown_of acc i"
    and open0: "\<not> mt_item_complete (message_of acc i)"
  shows "stream.good (release_text i st e (acc1, evs)) (acc, evs)"
    and "clean (release_text i st e (acc1, evs)) (acc, evs)"
proof -
  note kept = acc_binding_keeps [OF inv bind]
  have "shown_of acc1 i = shown_of acc i" using kept(3) by (auto simp: shown_of_def)
  note release = release_text_good [OF kept(1,2) ready same [folded this]
      open0 [folded message_of_binding [OF kept(3)]]]
  show "stream.good (release_text i st e (acc1, evs)) (acc, evs)"
    by (rule stream.good_from [OF grows_by_binding [OF kept(3)] release(1)])
  show "clean (release_text i st e (acc1, evs)) (acc, evs)"
    using release(2) [of e evs] by (auto simp: clean_def)
qed

lemma delta_part_ready:
  fixes delta :: ustr
  assumes inv: "acc_inv acc" and growing: "\<not> delta_after_done (message_of acc i) k"
  defines "st \<equiv> update_part k (\<lambda>p. p\<lparr>mp_text := mp_text p @ delta\<rparr>) (message_of acc i)"
  shows "ready st" and "shown (mt_parts st) = shown_of acc i" and "\<not> mt_item_complete (message_of acc i)"
proof -
  have "extends p (p\<lparr>mp_text := mp_text p @ delta\<rparr>)" if "map_of (mt_parts (message_of acc i)) k = Some p" for p
    using that growing by (auto simp: extends_def delta_after_done_def)
  moreover show "\<not> mt_item_complete (message_of acc i)" using growing by (simp add: delta_after_done_def)
  ultimately show "ready st" "shown (mt_parts st) = shown_of acc i"
    using update_part_ready [OF text_ok_ready [OF message_of_ok(1) [OF inv]]] message_of_ok(2) [OF inv]
    by (simp_all add: st_def incomplete_part_def)
qed

lemma not_delta_after_done:
  "\<not> (case hm_get (message_text_items acc) i of None \<Rightarrow> False | Some st \<Rightarrow> delta_after_done st k) \<Longrightarrow>
   \<not> delta_after_done (message_of acc i) k"
  by (auto simp: message_of_def incomplete_message_def delta_after_done_def split: option.splits)

lemma handle_output_text_delta_good:
  assumes "acc_inv (fst s)"
  shows "stream.good (handle_output_text_delta event s) s" and "clean (handle_output_text_delta event s) s"
proof -
  obtain acc evs where s: "s = (acc, evs)" by (cases s)
  have inv: "acc_inv acc" using assms s by simp
  have step: "stream.good (release_text i (update_part k (\<lambda>p. p\<lparr>mp_text := mp_text p @ delta\<rparr>)
          (message_of acc1 i)) (delta = []) (acc1, evs)) (acc, evs)"
    "clean (release_text i (update_part k (\<lambda>p. p\<lparr>mp_text := mp_text p @ delta\<rparr>)
          (message_of acc1 i)) (delta = []) (acc1, evs)) (acc, evs)"
    if "\<not> (case hm_get (message_text_items acc) i of None \<Rightarrow> False | Some st \<Rightarrow> delta_after_done st k)"
      and bind: "acc_binding i n KMessage acc = Ok acc1" for i n k delta acc1
    using text_update_good [OF inv bind delta_part_ready [OF inv not_delta_after_done [OF that(1)]]]
      message_of_binding [OF acc_binding_keeps(3) [OF inv bind]] by simp_all
  show "stream.good (handle_output_text_delta event s) s"
    unfolding handle_output_text_delta_def s Let_def fst_conv snd_conv
    by (intro stream.good_check stream.good_if stream.good_ErrI no_panic step)
  show "clean (handle_output_text_delta event s) s"
    unfolding handle_output_text_delta_def s Let_def fst_conv snd_conv
    by (intro clean_check clean_if clean_Err step)
qed

lemma text_done_part_ready:
  assumes inv: "acc_inv acc"
    and ok: "(case hm_get (message_text_items acc) i of None \<Rightarrow> Ok False
              | Some st \<Rightarrow> check_text_done st i k t) = Ok False"
  defines "st \<equiv> update_part k (finish_part t) (message_of acc i)"
  shows "ready st" and "shown (mt_parts st) = shown_of acc i" and "\<not> mt_item_complete (message_of acc i)"
proof -
  show open0: "\<not> mt_item_complete (message_of acc i)"
    using ok by (auto simp: message_of_def incomplete_message_def check_text_done_def
        split: option.splits if_splits)
  have "extends p (finish_part t p)" if "map_of (mt_parts (message_of acc i)) k = Some p" for p
    using that ok by (auto simp: extends_def finish_part_def message_of_def incomplete_message_def
        check_text_done_def split: option.splits if_splits)
  with open0 show "ready st" "shown (mt_parts st) = shown_of acc i"
    using update_part_ready [OF text_ok_ready [OF message_of_ok(1) [OF inv]]] message_of_ok(2) [OF inv]
    by (simp_all add: st_def incomplete_part_def finish_part_def)
qed

lemma check_text_done_no_panic [no_panic]: "check_text_done st i k t \<noteq> Err Panicked"
  unfolding check_text_done_def by (intro no_panic)

lemma handle_output_text_done_good:
  assumes "acc_inv (fst s)"
  shows "stream.good (handle_output_text_done event s) s" and "clean (handle_output_text_done event s) s"
proof -
  obtain acc evs where s: "s = (acc, evs)" by (cases s)
  have inv: "acc_inv acc" using assms s by simp
  have step: "stream.good (release_text i (update_part k (finish_part t) (message_of acc1 i)) False
          (acc1, evs)) (acc, evs)"
    "clean (release_text i (update_part k (finish_part t) (message_of acc1 i)) False (acc1, evs)) (acc, evs)"
    if "(case hm_get (message_text_items acc) i of None \<Rightarrow> Ok False
         | Some st \<Rightarrow> check_text_done st i k t) = Ok b" "\<not> b"
      and bind: "acc_binding i n KMessage acc = Ok acc1" for i n k t b acc1
    using text_update_good [OF inv bind text_done_part_ready [OF inv]] that
      message_of_binding [OF acc_binding_keeps(3) [OF inv bind]] by simp_all
  show "stream.good (handle_output_text_done event s) s"
    unfolding handle_output_text_done_def s Let_def fst_conv snd_conv
    by (intro stream.good_check stream.good_if stream.good_ErrI no_panic step)
      (assumption | simp add: stream.good_stay inv)+
  show "clean (handle_output_text_done event s) s"
    unfolding handle_output_text_done_def s Let_def fst_conv snd_conv
    by (intro clean_check clean_if clean_Err clean_stay step)
qed

section \<open>Completed messages\<close>

definition agrees :: "message_text_part_state \<Rightarrow> ustr \<Rightarrow> bool" where
  "agrees p t \<longleftrightarrow> (if mp_lifecycle p = TextDone then mp_text p = t else starts_with (mp_text p) t)"

lemma agrees_extends: "agrees p t \<Longrightarrow> extends p (finish_part t p)"
  by (auto simp: agrees_def extends_def finish_part_def starts_with_iff split: if_splits)

lemma check_observed_parts_Ok:
  "check_observed_parts i ts ps = Ok () \<longleftrightarrow> (\<forall>(k, p) \<in> set ps. k < length ts \<and> agrees p (ts ! k))"
  by (induction i ts ps rule: check_observed_parts.induct) (auto simp: nth_opt_def agrees_def)

lemma check_observed_no_panic [no_panic]: "check_observed_parts i ts ps \<noteq> Err Panicked"
  by (induction i ts ps rule: check_observed_parts.induct) (auto split: option.splits)

lemma update_part_get:
  "bt_ok (mt_parts st) \<Longrightarrow> map_of (mt_parts (update_part k f st)) j =
     (if j = k then Some (f (case map_of (mt_parts st) k of None \<Rightarrow> incomplete_part | Some p \<Rightarrow> p))
      else map_of (mt_parts st) j)"
  by (simp add: update_part_def bt_get_update)

text \<open>Filling in the parts keeps what was released; every part from \<open>n\<close> on is done.\<close>

lemma complete_parts_ready:
  assumes "ready st" and "\<not> mt_item_complete st"
    and "\<And>k p. map_of (mt_parts st) k = Some p \<Longrightarrow> n \<le> k \<Longrightarrow> k < n + length ts \<Longrightarrow> agrees p (ts ! (k - n))"
  shows "ready (complete_parts n ts st) \<and> \<not> mt_item_complete (complete_parts n ts st) \<and>
    shown (mt_parts (complete_parts n ts st)) = shown (mt_parts st) \<and>
    (\<forall>k. map_option (\<lambda>p. (mp_text p, mp_lifecycle p)) (map_of (mt_parts (complete_parts n ts st)) k) =
       (if n \<le> k \<and> k < n + length ts then Some (ts ! (k - n), TextDone)
        else map_option (\<lambda>p. (mp_text p, mp_lifecycle p)) (map_of (mt_parts st) k)))"
  using assms
proof (induction n ts st rule: complete_parts.induct)
  case (2 n t ts st)
  let ?st = "update_part n (finish_part t) st"
  have bt: "bt_ok (mt_parts st)" using "2.prems"(1) by (simp add: ready_def)
  have upd: "ready ?st" "shown (mt_parts ?st) = shown (mt_parts st)" "\<not> mt_item_complete ?st"
    using update_part_ready [OF "2.prems"(1,2), of n "finish_part t"]
      agrees_extends [of _ t] "2.prems"(3) [of n]
    by (auto simp: finish_part_def incomplete_part_def)
  have "agrees p (ts ! (k - Suc n))"
    if "map_of (mt_parts ?st) k = Some p" "Suc n \<le> k" "k < Suc n + length ts" for k p
    using "2.prems"(3) [of k p] that by (auto simp: update_part_get [OF bt] nth_Cons' split: if_splits)
  note IH = "2.IH" [OF upd(1,3) this]
  have "map_option (\<lambda>p. (mp_text p, mp_lifecycle p)) (map_of (mt_parts (complete_parts (Suc n) ts ?st)) k) =
     (if n \<le> k \<and> k < n + length (t # ts) then Some ((t # ts) ! (k - n), TextDone)
      else map_option (\<lambda>p. (mp_text p, mp_lifecycle p)) (map_of (mt_parts st) k))" for k
    using IH by (auto simp: update_part_get [OF bt] finish_part_def nth_Cons' split: if_splits)
  with IH upd(2) show ?case by simp
qed auto

lemma alist_by_keys:
  assumes "distinct (map fst ps)"
  shows "map (\<lambda>k. (k, the (map_of ps k))) (map fst ps) = ps"
proof -
  have "(fst e, the (map_of ps (fst e))) = e" if "e \<in> set ps" for e
    using map_of_is_SomeI [OF assms, of "fst e" "snd e"] that by simp
  then show ?thesis by (simp add: comp_def map_idI)
qed

definition done_parts :: "ustr list \<Rightarrow> (nat \<times> ustr \<times> message_text_lifecycle) list" where
  "done_parts ts = map (\<lambda>k. (k, ts ! k, TextDone)) [0..<length ts]"

lemma done_parts_facts:
  assumes "part_texts st = done_parts ts"
  shows "map fst (mt_parts st) = [0..<length (mt_parts st)]"
    and "list_all (\<lambda>(_, p). mp_lifecycle p = TextDone) (mt_parts st)"
    and "full_text (mt_parts st) = concat ts"
proof -
  have len: "length (mt_parts st) = length ts"
    using arg_cong [OF assms, of length] by (simp add: part_texts_def done_parts_def)
  have "map fst (mt_parts st) = map fst (part_texts st)"
    by (simp add: part_texts_def comp_def case_prod_beta)
  also have "\<dots> = [0..<length ts]" by (simp add: assms done_parts_def comp_def)
  finally show "map fst (mt_parts st) = [0..<length (mt_parts st)]" by (simp add: len)
  have "list_all (\<lambda>(_, _, l). l = TextDone) (part_texts st)"
    by (simp add: assms done_parts_def list_all_iff)
  then show "list_all (\<lambda>(_, p). mp_lifecycle p = TextDone) (mt_parts st)"
    by (simp add: part_texts_def list_all_iff case_prod_beta)
  have "full_text (mt_parts st) = concat (map (\<lambda>(_, t, _). t) (part_texts st))"
    by (simp add: part_texts_def full_text_def comp_def case_prod_beta)
  also have "map (\<lambda>(_, t, _). t) (part_texts st) = ts"
    by (simp add: assms done_parts_def comp_def map_nth)
  finally show "full_text (mt_parts st) = concat ts" .
qed

lemma completed_message:
  assumes inv: "acc_inv acc" and open0: "\<not> mt_item_complete (message_of acc i)"
    and ok: "check_observed_parts i ts (mt_parts (message_of acc i)) = Ok ()"
  defines "st \<equiv> (complete_parts 0 ts (message_of acc i))\<lparr>mt_item_complete := True\<rparr>"
  shows "ready st" and "shown (mt_parts st) = shown_of acc i" and "part_texts st = done_parts ts"
proof -
  let ?st = "complete_parts 0 ts (message_of acc i)" and ?old = "mt_parts (message_of acc i)"
  let ?view = "\<lambda>p. (mp_text p, mp_lifecycle p)"
  have parts: "mt_parts st = mt_parts ?st" by (simp add: st_def)
  note old = message_of_ok [OF inv, of i]
  have obs: "k < length ts \<and> agrees p (ts ! k)" if "map_of ?old k = Some p" for k p
    using ok map_of_SomeD [OF that] by (auto simp: check_observed_parts_Ok)
  have fill: "ready ?st \<and> \<not> mt_item_complete ?st \<and> shown (mt_parts ?st) = shown ?old \<and>
    (\<forall>k. map_option ?view (map_of (mt_parts ?st) k) =
       (if 0 \<le> k \<and> k < 0 + length ts then Some (ts ! (k - 0), TextDone)
        else map_option ?view (map_of ?old k)))"
    by (rule complete_parts_ready) (use text_ok_ready [OF old(1)] open0 obs in auto)
  have get: "map_option ?view (map_of (mt_parts ?st) k) =
       (if k < length ts then Some (ts ! k, TextDone) else None)" for k
    using fill obs [of k] by (cases "map_of ?old k") auto
  have bt: "bt_ok (mt_parts ?st)" using fill by (simp add: ready_def)
  have "set (map fst (mt_parts ?st)) = set [0..<length ts]"
  proof -
    have "k \<in> set (map fst (mt_parts ?st)) \<longleftrightarrow> map_of (mt_parts ?st) k \<noteq> None" for k
      by (simp add: map_of_eq_None_iff)
    also have "map_of (mt_parts ?st) k \<noteq> None \<longleftrightarrow> k < length ts" for k
      using get [of k] by (cases "map_of (mt_parts ?st) k") (auto split: if_splits)
    finally have "k \<in> set (map fst (mt_parts ?st)) \<longleftrightarrow> k \<in> set [0..<length ts]" for k by simp
    then show ?thesis by (intro set_eqI)
  qed
  then have keys: "map fst (mt_parts ?st) = [0..<length ts]"
    using bt strict_sorted_equal [of "[0..<length ts]" "map fst (mt_parts ?st)"]
    by (simp add: bt_ok_def)
  then have eq: "mt_parts ?st = map (\<lambda>k. (k, the (map_of (mt_parts ?st) k))) [0..<length ts]"
    using alist_by_keys [of "mt_parts ?st"] by simp
  have "part_texts st = map (\<lambda>(k, p). (k, ?view p)) (mt_parts ?st)"
    by (simp add: part_texts_def parts)
  also have "\<dots> = map (\<lambda>(k, p). (k, ?view p)) (map (\<lambda>k. (k, the (map_of (mt_parts ?st) k))) [0..<length ts])"
    by (rule arg_cong [OF eq])
  also have "\<dots> = map (\<lambda>k. (k, ?view (the (map_of (mt_parts ?st) k)))) [0..<length ts]"
    by (simp add: comp_def)
  also have "\<dots> = done_parts ts"
  proof -
    have "?view (the (map_of (mt_parts ?st) k)) = (ts ! k, TextDone)" if "k < length ts" for k
      using get [of k] that by auto
    then show ?thesis by (auto simp: done_parts_def)
  qed
  finally show texts: "part_texts st = done_parts ts" .
  note facts = done_parts_facts [OF texts]
  show "ready st" using fill facts by (simp add: ready_def parts)
  show "shown (mt_parts st) = shown_of acc i" using fill old(2) by (simp add: parts)
qed

text \<open>A message that is announced as complete again has to have the same parts.\<close>

lemma same_parts_done:
  assumes "text_ok st" and "mt_item_complete st" and "same_parts st ts"
  shows "part_texts st = done_parts ts"
proof -
  let ?ps = "mt_parts st"
  from assms have keys: "map fst ?ps = [0..<length ?ps]" and len: "length ?ps = length ts"
    and fin: "\<And>k p. (k, p) \<in> set ?ps \<Longrightarrow> mp_lifecycle p = TextDone"
    and texts: "\<And>k p. (k, p) \<in> set ?ps \<Longrightarrow> nth_opt ts k = Some (mp_text p)"
    by (auto simp: text_ok_def same_parts_def list_all_iff)
  show ?thesis
  proof (rule nth_equalityI)
    show "length (part_texts st) = length (done_parts ts)"
      by (simp add: part_texts_def done_parts_def len)
    fix k
    assume "k < length (part_texts st)"
    then have k: "k < length ?ps" by (simp add: part_texts_def)
    obtain j p where jp: "?ps ! k = (j, p)" by (cases "?ps ! k")
    have "map fst ?ps ! k = k" using k keys by simp
    with k jp have "j = k" by simp
    with k jp fin [of k p] texts [of k p] have "mp_lifecycle p = TextDone" "mp_text p = ts ! k"
      by (metis nth_mem, metis nth_mem nth_opt_def option.sel option.distinct(1))
    with jp \<open>j = k\<close> k len show "part_texts st ! k = done_parts ts ! k"
      by (simp add: part_texts_def done_parts_def)
  qed
qed

text \<open>What \<open>output_item.done\<close> and \<open>response.completed\<close> say of a message.\<close>

definition message_reads :: "json \<Rightarrow> ustr \<Rightarrow> ustr list \<Rightarrow> bool" where
  "message_reads item i ts \<longleftrightarrow>
     (let context0 = lit ''Responses message output item done'' in
      required_nonempty_string item (lit ''id'') context0 = Ok i \<and>
      required_message_output_text_parts item context0 = Ok ts)"

definition message_done :: "accumulator \<Rightarrow> ustr \<Rightarrow> ustr list \<Rightarrow> bool" where
  "message_done acc i ts \<longleftrightarrow>
     (\<exists>st. complete_at acc i st \<and> part_texts st = done_parts ts)"

lemma handle_message_done_at_index_good:
  assumes "acc_inv (fst s)"
  shows "stream.good (handle_message_done_at_index item n s) s"
    and "clean (handle_message_done_at_index item n s) s"
    and "handle_message_done_at_index item n s = (Ok (), s') \<Longrightarrow>
      \<exists>i ts. message_reads item i ts \<and> message_done (fst s') i ts"
proof -
  obtain acc evs where s: "s = (acc, evs)" by (cases s)
  have inv: "acc_inv acc" using assms s by simp
  let ?st = "\<lambda>acc i ts. (complete_parts 0 ts (message_of acc i))\<lparr>mt_item_complete := True\<rparr>"
  have step: "stream.good (release_text i (?st acc1 i ts) False (acc1, evs)) (acc, evs)"
    "clean (release_text i (?st acc1 i ts) False (acc1, evs)) (acc, evs)"
    "release_text i (?st acc1 i ts) False (acc1, evs) = (Ok (), s') \<Longrightarrow> message_done (fst s') i ts"
    if "\<not> mt_item_complete (message_of acc i)"
      "check_observed_parts i ts (mt_parts (message_of acc i)) = Ok u"
      and bind: "acc_binding i n KMessage acc = Ok acc1" for i ts u acc1
  proof -
    have msg: "message_of acc1 i = message_of acc i"
      by (rule message_of_binding [OF acc_binding_keeps(3) [OF inv bind]])
    have obs: "check_observed_parts i ts (mt_parts (message_of acc i)) = Ok ()" using that(2) by simp
    note made = completed_message [OF inv that(1) obs]
    show "stream.good (release_text i (?st acc1 i ts) False (acc1, evs)) (acc, evs)"
      "clean (release_text i (?st acc1 i ts) False (acc1, evs)) (acc, evs)"
      unfolding msg using text_update_good [OF inv bind made(1,2) that(1)] by simp_all
    note kept = acc_binding_keeps [OF inv bind]
    have "shown_of acc1 i = shown_of acc i" using kept(3) by (auto simp: shown_of_def)
    note release = release_text_good(3) [OF kept(1,2) made(1) made(2) [folded this]
        that(1) [folded msg]]
    assume run: "release_text i (?st acc1 i ts) False (acc1, evs) = (Ok (), s')"
    obtain acc2 evs2 where s': "s' = (acc2, evs2)" by (cases s')
    from release [OF run [unfolded msg s']] made(3)
    show "message_done (fst s') i ts" by (auto simp: message_done_def complete_at_def s')
  qed
  show "stream.good (handle_message_done_at_index item n s) s"
    unfolding handle_message_done_at_index_def s Let_def fst_conv snd_conv
    by (intro stream.good_check stream.good_if stream.good_ErrI no_panic step)
      (assumption | simp add: stream.good_result inv no_panic)+
  show "clean (handle_message_done_at_index item n s) s"
    unfolding handle_message_done_at_index_def s Let_def fst_conv snd_conv
    by (intro clean_check clean_if clean_Err clean_stay step)
  show "\<exists>i ts. message_reads item i ts \<and> message_done (fst s') i ts"
    if run: "handle_message_done_at_index item n s = (Ok (), s')"
  proof -
    let ?c = "lit ''Responses message output item done''"
    from run obtain i ts where i: "required_nonempty_string item (lit ''id'') ?c = Ok i"
      and ts: "required_message_output_text_parts item ?c = Ok ts"
      and rest: "if mt_item_complete (message_of acc i)
        then (if same_parts (message_of acc i) ts then Ok ()
            else Err (LlmMessage (lit ''Responses message item '' @ quoted i @
                        lit '' was completed with conflicting text'')), s) = (Ok (), s')
        else \<exists>u acc1. check_observed_parts i ts (mt_parts (message_of acc i)) = Ok u \<and>
          acc_binding i n KMessage acc = Ok acc1 \<and>
          release_text i (?st acc1 i ts) False (acc1, evs) = (Ok (), s')"
      unfolding handle_message_done_at_index_def s Let_def fst_conv snd_conv check_def
      by (auto split: sum.splits if_splits)
    have "message_done (fst s') i ts"
    proof (cases "mt_item_complete (message_of acc i)")
      case True
      with rest have same: "same_parts (message_of acc i) ts" and "s' = s" by (auto split: if_splits)
      from True obtain st where st: "hm_get (message_text_items acc) i = Some st" "message_of acc i = st"
        by (auto simp: message_of_def incomplete_message_def split: option.splits)
      with same_parts_done [OF message_of_ok(1) [OF inv] True same] True \<open>s' = s\<close> s
      show ?thesis by (auto simp: message_done_def complete_at_def)
    next
      case False
      with rest step(3) show ?thesis by (auto split: if_splits)
    qed
    with i ts show ?thesis unfolding message_reads_def Let_def by blast
  qed
qed

end
