(* ===== verification/Responses_Push.thy ===== *)
theory Responses_Push
  imports Responses_Keep
begin

text \<open>
  From the handlers to one event: output items, terminal events and \<open>push_value\<close>.
\<close>

section \<open>Items that are announced\<close>

lemma add_message_good:
  assumes "acc_inv (fst s)"
  shows "stream.good (add_message event item s) s"
proof -
  obtain acc evs where s: "s = (acc, evs)" by (cases s)
  have inv: "acc_inv acc" using assms s by simp
  show ?thesis unfolding add_message_def s Let_def fst_conv snd_conv
  proof (intro stream.good_check stream.good_if stream.good_ErrI no_panic)
    fix i n acc1
    assume bind: "acc_binding i n KMessage acc = Ok acc1"
    note kept = acc_binding_keeps [OF inv bind]
    let ?acc = "acc1\<lparr>message_text_items := hm_or_insert i incomplete_message (message_text_items acc1)\<rparr>"
    have "text_ok incomplete_message" by (simp add: text_ok_def incomplete_message_def)
    with kept(1,2) have "texts_ok (hm_or_insert i incomplete_message (message_text_items acc1)) (output_identities acc1)"
      by (auto simp: acc_inv_def texts_ok_def distinct_hm_or_insert split: option.splits)
    with kept(1) have "acc_inv ?acc" by (simp add: acc_inv_def)
    moreover have "stream_grows (acc1, evs) (?acc, evs)"
      by (rule stream_growsI [where new = "[]" and log = "[]" and added = "[]"])
        (auto simp: call_events_def shown_of_def incomplete_message_def complete_at_def split: option.splits)
    ultimately have "stream.good (Ok (), ?acc, evs) (acc1, evs)" by (simp add: stream.good_Ok)
    then show "stream.good (Ok (), ?acc, evs) (acc, evs)"
      by (rule stream.good_from [OF grows_by_binding [OF kept(3)]])
  qed
qed

lemma handle_reasoning_item_added_good:
  assumes "acc_inv (fst s)"
  shows "stream.good (handle_reasoning_item_added event item s) s"
proof -
  obtain acc evs where s: "s = (acc, evs)" by (cases s)
  have inv: "acc_inv acc" using assms s by simp
  show ?thesis unfolding handle_reasoning_item_added_def s Let_def fst_conv snd_conv
  proof (intro stream.good_check stream.good_if stream.good_ErrI no_panic)
    fix i n acc1
    assume bind: "acc_binding i n KReasoning acc = Ok acc1"
      and fresh: "\<not> i \<in> set (completed_reasoning_items acc)"
    note kept = acc_binding_keeps [OF inv bind]
    let ?acc = "acc1\<lparr>incomplete_reasoning_items := List.insert i (incomplete_reasoning_items acc1)\<rparr>"
    have "i \<notin> set (completed_reasoning_items acc1)" using fresh kept(3) by auto
    with kept(1,2) have "acc_inv ?acc" by (auto simp: acc_inv_def reasoning_ok_def)
    moreover have "stream_grows (acc1, evs) (?acc, evs)" by (rule stream_grows_silent) simp_all
    ultimately have "stream.good (Ok (), ?acc, evs) (acc1, evs)" by (simp add: stream.good_Ok)
    then show "stream.good (Ok (), ?acc, evs) (acc, evs)"
      by (rule stream.good_from [OF grows_by_binding [OF kept(3)]])
  qed
qed

lemma handle_reasoning_item_done_at_index_good:
  assumes "acc_inv (fst s)"
  shows "stream.good (handle_reasoning_item_done_at_index i n s) s"
    and "clean (handle_reasoning_item_done_at_index i n s) s"
proof -
  obtain acc evs where s: "s = (acc, evs)" by (cases s)
  have inv: "acc_inv acc" using assms s by simp
  show "stream.good (handle_reasoning_item_done_at_index i n s) s"
    unfolding handle_reasoning_item_done_at_index_def s Let_def fst_conv snd_conv
  proof (intro stream.good_check no_panic)
    fix acc1
    assume bind: "acc_binding i n KReasoning acc = Ok acc1"
    note kept = acc_binding_keeps [OF inv bind]
    let ?acc = "acc1\<lparr>incomplete_reasoning_items := removeAll i (incomplete_reasoning_items acc1),
        completed_reasoning_items := List.insert i (completed_reasoning_items acc1)\<rparr>"
    have "acc_inv ?acc" using kept(1,2) by (auto simp: acc_inv_def reasoning_ok_def)
    moreover have "stream_grows (acc1, evs) (?acc, evs)" by (rule stream_grows_silent) simp_all
    ultimately have "stream.good (Ok (), ?acc, evs) (acc1, evs)" by (simp add: stream.good_Ok)
    then show "stream.good (Ok (), ?acc, evs) (acc, evs)"
      by (rule stream.good_from [OF grows_by_binding [OF kept(3)]])
  qed
  show "clean (handle_reasoning_item_done_at_index i n s) s"
    unfolding handle_reasoning_item_done_at_index_def by (intro clean_check clean_Ok)
qed

lemma handle_output_item_added_good:
  assumes "acc_inv (fst s)"
  shows "stream.good (handle_output_item_added event s) s"
proof -
  show ?thesis
    unfolding handle_output_item_added_def
    by (intro stream.good_check stream.good_case stream.good_if stream.good_ErrI no_panic
        add_message_good add_function_call_good handle_reasoning_item_added_good assms)
qed

section \<open>Atomic updates\<close>

lemma apply_atomically_good: "stream.good (f s) s \<Longrightarrow> stream.good (apply_atomically s f) s"
  by (auto simp: apply_atomically_def stream.good_def split: prod.splits sum.splits)

lemma apply_atomically_clean: "clean (apply_atomically (acc, []) f) (acc, [])"
  by (auto simp: apply_atomically_def clean_def split: prod.splits sum.splits)

lemma handle_output_item_done_good:
  assumes "acc_inv acc"
  shows "stream.good (handle_output_item_done event (acc, [])) (acc, [])"
    and "clean (handle_output_item_done event (acc, [])) (acc, [])"
proof -
  let ?s = "(acc, []) :: stream_state"
  have msg: "stream.good (handle_message_done event item ?s) ?s \<and> clean (handle_message_done event item ?s) ?s" for item
    unfolding handle_message_done_def using assms
    by (auto intro!: stream.good_check clean_check no_panic handle_message_done_at_index_good)
  have reason: "stream.good (handle_reasoning_item_done event item ?s) ?s \<and>
      clean (handle_reasoning_item_done event item ?s) ?s" for item
    unfolding handle_reasoning_item_done_def Let_def using assms
    by (auto intro!: stream.good_check clean_check no_panic handle_reasoning_item_done_at_index_good)
  have call: "stream.good (apply_atomically ?s (handle_function_call_done item i n)) ?s" for item i n
    using assms by (simp add: apply_atomically_good handle_function_call_done_good)
  show "stream.good (handle_output_item_done event ?s) ?s"
    unfolding handle_output_item_done_def
    by (intro stream.good_check stream.good_case stream.good_if stream.good_ErrI no_panic call)
      (simp_all add: msg reason)
  show "clean (handle_output_item_done event ?s) ?s"
    unfolding handle_output_item_done_def
    by (intro clean_check clean_case clean_if clean_Err apply_atomically_clean)
      (simp_all add: msg reason)
qed

lemma handle_function_call_arguments_delta_clean:
  assumes "acc_inv (fst s)"
  shows "clean (handle_function_call_arguments_delta event s) s"
proof -
  obtain acc evs where s: "s = (acc, evs)" by (cases s)
  have known: "\<exists>acc2. bind_output_if_known i n (push_argument key delta acc1) = Ok acc2"
    if "check_delta_item acc i n = Ok u" "delta_key acc i c len = Ok (key, acc1)" for i n u c len key delta acc1
  proof -
    have same: "output_identities (push_argument key delta acc1) = output_identities acc"
      using that(2) by (auto simp: push_argument_def delta_key_def and_then_Ok_iff Let_def
          apply_item_to_call_binding_def split: option.splits)
    have "ensure_binding (output_identities acc) i' n' KFunctionCall = Ok ()"
      if "i = Some i'" "n = Some n'" for i' n'
      using \<open>check_delta_item acc i n = Ok u\<close> that
      by (auto simp: check_delta_item_def and_then_Ok_iff)
    with acc_binding_after_ensure [of "push_argument key delta acc1"] same show ?thesis
      by (auto simp: bind_output_if_known_def split: option.split)
  qed
  show ?thesis
    unfolding handle_function_call_arguments_delta_def s Let_def fst_conv snd_conv
  proof (intro clean_check clean_if clean_Err)
    fix delta i c n u ka
    assume "check_delta_item acc i n = Ok u" and ka: "delta_key acc i c (utf8_len delta) = Ok ka"
    moreover obtain key acc1 where "ka = (key, acc1)" by (cases ka)
    ultimately obtain acc2 where "bind_output_if_known i n (push_argument key delta acc1) = Ok acc2"
      using known by blast
    then show "clean (case ka of (key, acc) \<Rightarrow>
        check (bind_output_if_known i n (push_argument key delta acc))
         (push_argument key delta acc, evs) (\<lambda>acc. (Ok (), acc, evs))) (acc, evs)"
      using \<open>ka = (key, acc1)\<close> by (simp add: clean_Ok)
  qed
qed

section \<open>The items of a completed response\<close>

definition item_identity :: "json \<Rightarrow> ustr option" where
  "item_identity item = opt_and_then (json_get (lit ''id'') item) as_str"

definition item_kind :: "json \<Rightarrow> response_output_item_kind option" where
  "item_kind item =
     opt_and_then (opt_and_then (json_get (lit ''type'') item) as_str) (\<lambda>t.
       if t = lit ''message'' then Some KMessage
       else if t = lit ''function_call'' then Some KFunctionCall
       else if t = lit ''reasoning'' then Some KReasoning else None)"

definition call_reads :: "json \<Rightarrow> ustr \<Rightarrow> ustr \<Rightarrow> ustr option \<Rightarrow> bool" where
  "call_reads item c name arguments \<longleftrightarrow>
     opt_and_then (json_get (lit ''call_id'') item) as_str = Some c \<and>
     opt_and_then (json_get (lit ''name'') item) as_str = Some name \<and>
     opt_and_then (json_get (lit ''arguments'') item) as_str = arguments"

text \<open>
  What the accumulator holds of an output item: a message has its text, a call has been emitted
  with its name and with arguments that begin with those of the item.
\<close>

definition item_settled :: "accumulator \<Rightarrow> json \<Rightarrow> bool" where
  "item_settled acc item \<longleftrightarrow>
     (item_kind item = Some KMessage \<longrightarrow> (\<exists>i ts. message_reads item i ts \<and> message_done acc i ts)) \<and>
     (item_kind item = Some KFunctionCall \<longrightarrow>
        (\<exists>c name arguments e. call_reads item c name arguments \<and> hm_get (emitted_tool_calls acc) c = Some e \<and>
           etc_name e = name \<and> (\<forall>a. arguments = Some a \<longrightarrow> starts_with a (etc_arguments e))))"

lemma required_string_Ok:
  "required_string v f c = Ok t \<longleftrightarrow> opt_and_then (json_get f v) as_str = Some t"
  by (auto simp: required_string_def ok_or_def split: option.splits)

lemma required_nonempty_string_Ok:
  "required_nonempty_string v f c = Ok t \<longleftrightarrow>
     opt_and_then (json_get f v) as_str = Some t \<and> trim t \<noteq> []"
  by (auto simp: required_nonempty_string_def and_then_Ok_iff required_string_Ok split: if_splits)

lemma if_present_string_Ok:
  "if_present v f required_string c = Ok a \<Longrightarrow> opt_and_then (json_get f v) as_str = a"
  by (auto simp: if_present_def and_then_Ok_iff required_string_Ok split: option.splits)

lemma consistent_arguments_Ok:
  assumes "consistent_arguments cs ctx = Ok (Some a)" and "Some c \<in> set cs"
  shows "starts_with c a"
proof -
  have mem: "c \<in> set (List.map_filter (\<lambda>c. c) cs)"
    using assms(2) by (induction cs) (auto simp: map_filter_simps split: option.splits)
  show ?thesis
  proof (cases "List.map_filter (\<lambda>c. c) cs")
    case Nil
    with mem show ?thesis by simp
  next
    case (Cons d ds)
    with assms(1) have "\<not> list_ex (\<lambda>d. \<not> starts_with d a) (d # ds)"
      by (simp add: consistent_arguments_def Let_def split: if_splits)
    with mem Cons show ?thesis by (auto simp: list_ex_iff)
  qed
qed

lemma settled_mono:
  assumes "stream_grows s t" and "acc_inv (fst t)" and "item_settled (fst s) item"
  shows "item_settled (fst t) item"
proof -
  from assms(1) have comp: "\<And>i st. complete_at (fst s) i st \<Longrightarrow> complete_at (fst t) i st"
    and "\<exists>added. emitted_tool_calls (fst t) = emitted_tool_calls (fst s) @ added"
    unfolding stream_grows_def releases_def by blast+
  then obtain added where em: "emitted_tool_calls (fst t) = emitted_tool_calls (fst s) @ added" by blast
  have "distinct (hm_keys (emitted_tool_calls (fst t)))"
    using assms(2) by (simp add: acc_inv_def pend_ok_def)
  then have "hm_get (emitted_tool_calls (fst s)) c = Some e \<Longrightarrow> hm_get (emitted_tool_calls (fst t)) c = Some e" for c e
    using map_of_SomeD by (fastforce simp: em map_add_Some_iff)
  with comp assms(3) show ?thesis unfolding item_settled_def message_done_def by blast
qed

lemma function_call_done_settles:
  assumes "acc_inv (fst s)" and "handle_function_call_done item i n s = (Ok u, s')"
  shows "\<exists>c name arguments e. call_reads item c name arguments \<and>
           hm_get (emitted_tool_calls (fst s')) c = Some e \<and> etc_name e = name \<and>
           (\<forall>a. arguments = Some a \<longrightarrow> starts_with a (etc_arguments e))"
proof -
  obtain acc evs where s: "s = (acc, evs)" by (cases s)
  have inv: "acc_inv acc" using assms s by simp
  let ?c = "lit ''Responses function_call item''"
  from assms(2) obtain c name inline acc1 merged arguments s2 acc3 where
    c: "required_nonempty_string item (lit ''call_id'') ?c = Ok c"
    and name: "required_nonempty_string item (lit ''name'') ?c = Ok name"
    and inline: "if_present item (lit ''arguments'') required_string ?c = Ok inline"
    and bind: "bind_item_to_call acc i c = Ok acc1"
    and merged: "consistent_arguments [inline, map_option fa_value (hm_get (pending_arguments acc1) (CallKey c))] ?c
                 = Ok (Some arguments)"
    and emit: "emit_tool_call c name arguments (acc1, evs) = (Ok (), s2)"
    and out: "acc_binding i n KFunctionCall (fst s2) = Ok acc3"
    and em: "emitted_tool_calls (fst s') = emitted_tool_calls acc3"
    unfolding handle_function_call_done_def s Let_def fst_conv snd_conv check_def chain_def ok_or_def
    by (auto split: sum.splits if_splits prod.splits option.splits)
  note kept = bind_item_to_call_keeps [OF inv bind]
  obtain acc2 evs2 where s2: "s2 = (acc2, evs2)" by (cases s2)
  from emit_tool_call_good(2) [OF kept(1,2) emit [unfolded s2]]
  have "hm_get (emitted_tool_calls acc2) c = Some \<lparr>etc_name = name, etc_arguments = arguments\<rparr>" by simp
  moreover have "emitted_tool_calls acc3 = emitted_tool_calls acc2"
    using out by (auto simp: s2 acc_binding_def and_then_Ok_iff)
  moreover have "\<forall>a. inline = Some a \<longrightarrow> starts_with a arguments"
    using consistent_arguments_Ok [OF merged] by auto
  moreover have "call_reads item c name inline"
    using c name if_present_string_Ok [OF inline]
    by (simp add: call_reads_def required_nonempty_string_Ok)
  ultimately show ?thesis using em by force
qed

definition accounts :: "output_binding \<Rightarrow> nat \<Rightarrow> json \<Rightarrow> bool" where
  "accounts b n item \<longleftrightarrow>
     (\<exists>i k. b = (i, n, k) \<and> item_identity item = Some i \<and> item_kind item = Some k)"

lemma reconcile_item_good:
  assumes "acc_inv (fst s)"
  shows "stream.good (reconcile_item n item s) s"
    and "reconcile_item n item s = (Ok b, s') \<Longrightarrow> accounts b n item \<and> item_settled (fst s') item"
proof -
  show "stream.good (reconcile_item n item s) s"
    unfolding reconcile_item_def using assms
    by (auto intro!: stream.good_check stream.good_if stream.good_ErrI stream.good_chain no_panic
        handle_message_done_at_index_good(1) handle_function_call_done_good
        handle_reasoning_item_done_at_index_good(1) stream.good_stay)
  assume run: "reconcile_item n item s = (Ok b, s')"
  obtain t where t: "opt_and_then (json_get (lit ''type'') item) as_str = Some t"
    using run by (auto simp: reconcile_item_def check_def required_string_def ok_or_def
        split: sum.splits option.splits)
  have kinds: "lit ''message'' \<noteq> lit ''function_call''" "lit ''message'' \<noteq> lit ''reasoning''"
    "lit ''function_call'' \<noteq> lit ''reasoning''" by (simp_all add: lit_def)
  consider "t = lit ''message''" | "t = lit ''function_call''" | "t = lit ''reasoning''"
    using run t by (auto simp: reconcile_item_def check_def required_string_def split: if_splits)
  then show "accounts b n item \<and> item_settled (fst s') item"
  proof cases
    case 1
    with run t obtain i u where b: "b = (i, n, KMessage)" "item_identity item = Some i"
      and done0: "handle_message_done_at_index item n s = (Ok u, s')"
      by (auto simp: reconcile_item_def check_def chain_def required_nonempty_string_Ok item_identity_def
          required_string_def ok_or_def split: sum.splits prod.splits)
    with handle_message_done_at_index_good(3) [OF assms, of item n s'] 1 t kinds show ?thesis
      by (auto simp: accounts_def item_settled_def item_kind_def)
  next
    case 2
    with run t kinds obtain i u where b: "b = (i, n, KFunctionCall)" "item_identity item = Some i"
      and done0: "handle_function_call_done item i n s = (Ok u, s')"
      by (auto simp: reconcile_item_def check_def chain_def required_nonempty_string_Ok item_identity_def
          required_string_def ok_or_def split: sum.splits prod.splits)
    with function_call_done_settles [OF assms done0] 2 t kinds show ?thesis
      by (auto simp: accounts_def item_settled_def item_kind_def)
  next
    case 3
    with run t kinds obtain i where "b = (i, n, KReasoning)" "item_identity item = Some i"
      by (auto simp: reconcile_item_def check_def chain_def required_nonempty_string_Ok item_identity_def
          required_string_def ok_or_def split: sum.splits prod.splits)
    with 3 t kinds show ?thesis by (auto simp: accounts_def item_settled_def item_kind_def)
  qed
qed

lemma reconcile_items_good:
  assumes "acc_inv (fst s)"
  shows "stream.good (reconcile_items n items bs s) s"
    and "reconcile_items n items bs s = (Ok bs', s') \<Longrightarrow>
      \<exists>new. bs' = bs @ new \<and> length new = length items \<and>
        (\<forall>j < length items. accounts (new ! j) (n + j) (items ! j) \<and> item_settled (fst s') (items ! j))"
proof -
  have "stream.good (reconcile_items n items bs s) s \<and>
    (reconcile_items n items bs s = (Ok bs', s') \<longrightarrow>
      (\<exists>new. bs' = bs @ new \<and> length new = length items \<and>
        (\<forall>j < length items. accounts (new ! j) (n + j) (items ! j) \<and> item_settled (fst s') (items ! j))))"
    using assms
  proof (induction n items bs s rule: reconcile_items.induct)
    case (1 n bs s)
    then show ?case by (simp add: stream.good_stay)
  next
    case (2 n item items bs s)
    note item = reconcile_item_good [OF "2.prems", of n item]
    have good: "stream.good (reconcile_items n (item # items) bs s) s"
      using "2.IH" by (auto intro!: stream.good_chain item(1))
    moreover have "\<exists>new. bs' = bs @ new \<and> length new = length (item # items) \<and>
        (\<forall>j < length (item # items). accounts (new ! j) (n + j) ((item # items) ! j) \<and>
           item_settled (fst s') ((item # items) ! j))"
      if run: "reconcile_items n (item # items) bs s = (Ok bs', s')"
    proof -
      from run obtain b t where first: "reconcile_item n item s = (Ok b, t)"
        and rest: "reconcile_items (Suc n) items (bs @ [b]) t = (Ok bs', s')"
        by (auto simp: chain_def split: prod.splits sum.splits)
      have t: "acc_inv (fst t)" using item(1) first by (simp add: stream.good_Ok)
      note IH = "2.IH" [OF t, of b]
      have grow: "stream_grows t s'" and inv': "acc_inv (fst s')"
        using IH rest by (simp_all add: stream.good_Ok)
      from IH rest obtain new where new: "bs' = (bs @ [b]) @ new" "length new = length items"
        "\<forall>j < length items. accounts (new ! j) (Suc n + j) (items ! j) \<and> item_settled (fst s') (items ! j)"
        by blast
      note head = item(2) [OF first]
      have "item_settled (fst s') item" by (rule settled_mono [OF grow inv' conjunct2 [OF head]])
      with new head have "bs' = bs @ b # new" and
        "\<forall>j < length (item # items). accounts ((b # new) ! j) (n + j) ((item # items) ! j) \<and>
           item_settled (fst s') ((item # items) ! j)"
        by (auto simp: nth_Cons split: nat.split)
      with new(2) show ?thesis by (intro exI [of _ "b # new"]) simp
    qed
    ultimately show ?case by blast
  qed
  then show "stream.good (reconcile_items n items bs s) s"
    and "reconcile_items n items bs s = (Ok bs', s') \<Longrightarrow>
      \<exists>new. bs' = bs @ new \<and> length new = length items \<and>
        (\<forall>j < length items. accounts (new ! j) (n + j) (items ! j) \<and> item_settled (fst s') (items ! j))"
    by blast+
qed

text \<open>
  The output of a completed response accounts for what was streamed: each of its items is
  settled, and every item that was observed is at its index, with its kind.
\<close>

definition output_accounted :: "accumulator \<Rightarrow> json list \<Rightarrow> bool" where
  "output_accounted acc output \<longleftrightarrow>
     (\<forall>item \<in> set output. item_settled acc item) \<and>
     (\<forall>i n k. hm_get (item_to_output (output_identities acc)) i = Some (n, k) \<longrightarrow>
        n < length output \<and> item_identity (output ! n) = Some i \<and> item_kind (output ! n) = Some k)"

lemma reconcile_completed_output_good:
  assumes "acc_inv (fst s)"
  shows "stream.good (reconcile_completed_output response s) s"
    and "reconcile_completed_output response s = (Ok u, s') \<Longrightarrow>
      opt_and_then (json_get (lit ''output'') response) as_array = Some output \<Longrightarrow>
      output_accounted (fst s') output"
proof -
  show "stream.good (reconcile_completed_output response s) s"
    unfolding reconcile_completed_output_def using assms
    by (auto intro!: stream.good_check stream.good_case stream.good_chain no_panic stream.good_stay
        reconcile_items_good(1) stream.good_result split: option.splits prod.splits)
  assume run: "reconcile_completed_output response s = (Ok u, s')"
    and out: "opt_and_then (json_get (lit ''output'') response) as_array = Some output"
  from out obtain v where v: "json_get (lit ''output'') response = Some v" "as_array v = Some output"
    by (cases "json_get (lit ''output'') response") auto
  with run obtain bs where items: "reconcile_items 0 output [] s = (Ok bs, s')"
    and all: "List.find (\<lambda>(item_id, output_index, kind). (item_id, output_index, kind) \<notin> set bs)
          (item_to_output (output_identities (fst s'))) = None"
    by (auto simp: reconcile_completed_output_def chain_def split: prod.splits sum.splits option.splits)
  from reconcile_items_good(2) [OF assms items] have len: "length bs = length output"
    and at: "\<forall>j < length output. accounts (bs ! j) j (output ! j) \<and> item_settled (fst s') (output ! j)"
    by auto
  have "item_settled (fst s') item" if "item \<in> set output" for item
    using that at by (auto simp: in_set_conv_nth)
  moreover have "n < length output \<and> item_identity (output ! n) = Some i \<and> item_kind (output ! n) = Some k"
    if "hm_get (item_to_output (output_identities (fst s'))) i = Some (n, k)" for i n k
  proof -
    from map_of_SomeD [OF that] all have "(i, n, k) \<in> set bs" by (auto simp: find_None_iff)
    then obtain j where "j < length output" "bs ! j = (i, n, k)" using len by (auto simp: in_set_conv_nth)
    with at show ?thesis by (auto simp: accounts_def)
  qed
  ultimately show "output_accounted (fst s') output" by (simp add: output_accounted_def)
qed

section \<open>Terminal events\<close>

lemma validate_completed_no_panic [no_panic]: "validate_completed_items acc \<noteq> Err Panicked"
  by (auto simp: validate_completed_items_def split: option.splits list.splits)

text \<open>What \<open>validate_completed_items\<close> accepts.\<close>

definition all_complete :: "accumulator \<Rightarrow> bool" where
  "all_complete acc \<longleftrightarrow>
     (\<forall>i st. hm_get (message_text_items acc) i = Some st \<longrightarrow> mt_item_complete st) \<and>
     (\<forall>i f. hm_get (function_items acc) i = Some f \<longrightarrow> fi_lifecycle f = ItemComplete) \<and>
     incomplete_reasoning_items acc = [] \<and>
     (\<forall>i c. hm_get (item_to_call acc) i = Some c \<longrightarrow> hm_contains (emitted_tool_calls acc) c) \<and>
     (\<forall>c a. hm_get (pending_arguments acc) (CallKey c) = Some a \<longrightarrow> hm_contains (emitted_tool_calls acc) c) \<and>
     (\<forall>i. hm_get (pending_arguments acc) (ItemKey i) = None)"

lemma validate_completed_items_Ok:
  assumes inv: "acc_inv acc" and ok: "validate_completed_items acc = Ok ()"
  shows "all_complete acc"
proof -
  from ok have msgs: "\<forall>(_, st) \<in> set (message_text_items acc). mt_item_complete st"
    and calls: "\<forall>(_, f) \<in> set (function_items acc). fi_lifecycle f = ItemComplete"
    and reason: "incomplete_reasoning_items acc = []"
    and bound: "\<forall>(_, c) \<in> set (item_to_call acc). hm_contains (emitted_tool_calls acc) c"
    and keys: "\<forall>key \<in> fst ` set (pending_arguments acc). \<not> unresolved_key acc key"
    by (auto simp: validate_completed_items_def find_None_iff split: option.splits list.splits)
  have resolved: "\<not> unresolved_key acc key" if "hm_get (pending_arguments acc) key = Some a" for key a
    using keys map_of_SomeD [OF that] by force
  have "hm_get (pending_arguments acc) (ItemKey i) = None" for i
  proof (rule ccontr)
    assume "hm_get (pending_arguments acc) (ItemKey i) \<noteq> None"
    then obtain a where a: "hm_get (pending_arguments acc) (ItemKey i) = Some a" by blast
    from resolved [OF a] obtain c where "hm_get (item_to_call acc) i = Some c"
      by (auto simp: unresolved_key_def split: option.splits)
    with inv a show False by (auto simp: acc_inv_def pend_ok_def)
  qed
  moreover have "hm_contains (emitted_tool_calls acc) c"
    if "hm_get (pending_arguments acc) (CallKey c) = Some a" for c a
    using resolved [OF that] by (simp add: unresolved_key_def)
  ultimately show ?thesis
    using msgs calls reason bound unfolding all_complete_def by (auto dest: map_of_SomeD)
qed

lemma finished_grows: "stream_grows (acc, evs) (acc, evs @ [Finished fr usage])"
  by (rule stream_growsI [where new = "[Finished fr usage]" and log = "[]" and added = "[]"])
    (simp_all add: call_events_def)

lemma completed_terminal_good:
  assumes "acc_inv (fst s)"
  shows "stream.good (completed_terminal event s) s"
  unfolding completed_terminal_def Let_def using assms
  by (auto intro!: stream.good_check stream.good_chain no_panic reconcile_completed_output_good(1)
      simp: stream.good_Ok finished_grows)

lemma completed_terminal_Ok:
  assumes inv: "acc_inv (fst s)" and run: "completed_terminal event s = (Ok t, s')"
  shows "\<exists>rid usage. t = TCompleted rid (if emitted_tool_calls (fst s') = [] then FStop else FToolCall) usage"
    and "all_complete (fst s')"
    and "json_get (lit ''response'') event = Some response \<Longrightarrow>
      opt_and_then (json_get (lit ''output'') response) as_array = Some output \<Longrightarrow>
      output_accounted (fst s') output"
proof -
  from run obtain resp rid s1 usage where
    resp: "response_object event (lit ''response.completed'') = Ok resp"
    and rec: "reconcile_completed_output resp s = (Ok (), s1)"
    and val: "validate_completed_items (fst s1) = Ok ()"
    and t: "t = TCompleted rid (if emitted_tool_calls (fst s1) = [] then FStop else FToolCall) usage"
    and s': "fst s' = fst s1"
    unfolding completed_terminal_def Let_def check_def chain_def
    by (auto split: sum.splits prod.splits)
  have inv1: "acc_inv (fst s1)"
    using reconcile_completed_output_good(1) [OF inv, of resp] rec by (simp add: stream.good_Ok)
  show "\<exists>rid usage. t = TCompleted rid (if emitted_tool_calls (fst s') = [] then FStop else FToolCall) usage"
    using t s' by auto
  show "all_complete (fst s')" unfolding s' by (rule validate_completed_items_Ok [OF inv1 val])
  assume "json_get (lit ''response'') event = Some response"
    and out: "opt_and_then (json_get (lit ''output'') response) as_array = Some output"
  with resp have "resp = response" by (auto simp: response_object_def split: if_splits)
  then show "output_accounted (fst s') output"
    unfolding s' using reconcile_completed_output_good(2) [OF inv rec] out by simp
qed

section \<open>One event\<close>

lemma terminal_readers_no_panic [no_panic]:
  "failed_terminal v \<noteq> Err Panicked" "incomplete_terminal v \<noteq> Err Panicked" "error_terminal v \<noteq> Err Panicked"
  by (auto simp: failed_terminal_def incomplete_terminal_def error_terminal_def Let_def and_then_Err_iff no_panic)

lemma no_terminal_good: "stream.good m s \<Longrightarrow> stream.good (no_terminal m) s"
  unfolding no_terminal_def by (intro stream.good_chain stream.good_stay)

lemma no_terminal_clean: "clean m s \<Longrightarrow> clean (no_terminal m) s"
  unfolding no_terminal_def by (intro clean_chain) simp_all

lemma push_typed_good:
  assumes "acc_inv acc"
  shows "stream.good (push_typed t event (acc, [])) (acc, [])"
    and "clean (push_typed t event (acc, [])) (acc, [])"
proof -
  let ?s = "(acc, []) :: stream_state"
  have inv: "acc_inv (fst ?s)" using assms by simp
  have summary: "stream.good (Ok None, fst ?s, snd ?s @ [ReasoningSummaryDelta d]) ?s" for d
    using assms by (simp add: stream.good_Ok)
      (rule stream_growsI [where new = "[ReasoningSummaryDelta d]" and log = "[]" and added = "[]"],
        simp_all add: call_events_def)
  have atomic: "stream.good (apply_atomically ?s (handle_output_item_added event)) ?s"
    "stream.good (apply_atomically ?s (handle_function_call_arguments_done event)) ?s"
    "stream.good (apply_atomically ?s (completed_terminal event)) ?s"
    using assms by (simp_all add: apply_atomically_good handle_output_item_added_good
        handle_function_call_arguments_done_good completed_terminal_good)
  show "stream.good (push_typed t event ?s) ?s"
    unfolding push_typed_def
    by (intro stream.good_if stream.good_check stream.good_chain no_panic no_terminal_good summary atomic
        handle_output_text_delta_good(1) handle_output_text_done_good(1) handle_output_item_done_good(1)
        handle_function_call_arguments_delta_good stream.good_stay inv assms)
  show "clean (push_typed t event ?s) ?s"
    unfolding push_typed_def
    by (intro clean_if clean_check clean_chain no_terminal_clean clean_Ok apply_atomically_clean
        handle_output_text_delta_good(2) handle_output_text_done_good(2) handle_output_item_done_good(2)
        handle_function_call_arguments_delta_clean inv assms) simp_all
qed

lemma releases_terminal:
  "releases (acc, evs) (acc', evs') \<Longrightarrow> releases (acc, evs) (acc'\<lparr>acc_terminal := t\<rparr>, evs')"
  by (simp add: releases_def shown_of_def complete_at_def)

lemma acc_inv_terminal [simp]: "acc_inv (acc\<lparr>acc_terminal := t\<rparr>) \<longleftrightarrow> acc_inv acc"
  by (simp add: acc_inv_def)

lemma push_value_Ok:
  assumes inv: "acc_inv acc" and run: "push_value v acc = (Ok u, acc')"
  shows "acc_inv acc'" and "releases (acc, []) (acc', ru_events u)"
    and "max_argument_bytes acc' = max_argument_bytes acc"
    and "acc_terminal acc = None" and "acc_terminal acc' = ru_terminal u"
proof -
  from run obtain t acc1 where open0: "acc_terminal acc = None"
    and push: "push_typed t v (acc, []) = (Ok (ru_terminal u), acc1, ru_events u)"
    and acc': "acc' = (case ru_terminal u of None \<Rightarrow> acc1 | Some x \<Rightarrow> acc1\<lparr>acc_terminal := Some x\<rparr>)"
    by (auto simp: push_value_def check_def split: if_splits sum.splits prod.splits)
  from push_typed_good(1) [OF inv, of t v] push have inv1: "acc_inv acc1"
    and grow: "stream_grows (acc, []) (acc1, ru_events u)" by (simp_all add: stream.good_Ok)
  then have rel: "releases (acc, []) (acc1, ru_events u)"
    and same: "max_argument_bytes acc1 = max_argument_bytes acc" "acc_terminal acc1 = acc_terminal acc"
    by (simp_all add: stream_grows_def)
  show "acc_inv acc'" "max_argument_bytes acc' = max_argument_bytes acc"
    "acc_terminal acc = None" "acc_terminal acc' = ru_terminal u"
    using inv1 same open0 by (simp_all add: acc' split: option.split)
  show "releases (acc, []) (acc', ru_events u)"
    using rel releases_terminal [OF rel] by (simp add: acc' split: option.split)
qed

lemma push_value_Err:
  assumes inv: "acc_inv acc" and run: "push_value v acc = (Err e, acc')"
  shows "acc' = acc" and "e \<noteq> Panicked"
proof -
  have "acc' = acc \<and> e \<noteq> Panicked"
  proof (cases "\<exists>t. acc_terminal acc = None \<and> opt_and_then (json_get (lit ''type'') v) as_str = Some t")
    case True
    then obtain t where t: "acc_terminal acc = None" "opt_and_then (json_get (lit ''type'') v) as_str = Some t"
      by blast
    with run obtain evs where "push_typed t v (acc, []) = (Err e, acc', evs)"
      by (auto simp: push_value_def split: prod.splits sum.splits)
    with push_typed_good [OF inv, of t v] show ?thesis
      by (simp add: stream.good_Err clean_def)
  next
    case False
    with run show ?thesis
      by (cases "opt_and_then (json_get (lit ''type'') v) as_str")
        (auto simp: push_value_def split: if_splits)
  qed
  then show "acc' = acc" "e \<noteq> Panicked" by simp_all
qed

lemma push_all_Ok:
  assumes "acc_inv acc" and "push_all vs acc evs = (Ok evs', acc')"
  shows "acc_inv acc'" and "releases (acc, evs) (acc', evs')"
    and "max_argument_bytes acc' = max_argument_bytes acc"
proof -
  have "acc_inv acc' \<and> releases (acc, evs) (acc', evs') \<and> max_argument_bytes acc' = max_argument_bytes acc"
    using assms
  proof (induction vs acc evs rule: push_all.induct)
    case (1 acc evs)
    then show ?case by (simp add: releases_refl)
  next
    case (2 v vs acc evs)
    from "2.prems"(2) obtain u acc1 where first: "push_value v acc = (Ok u, acc1)"
      and rest: "push_all vs acc1 (evs @ ru_events u) = (Ok evs', acc')"
      by (auto simp: chain_def split: prod.splits sum.splits)
    note step = push_value_Ok [OF "2.prems"(1) first]
    from "2.IH" [OF step(1) rest] releases_shift [OF step(2), of evs] step(3)
    show ?case by (auto intro: releases_trans)
  qed
  then show "acc_inv acc'" "releases (acc, evs) (acc', evs')"
    "max_argument_bytes acc' = max_argument_bytes acc" by simp_all
qed

lemma push_all_append:
  "push_all (us @ vs) acc evs = chain (push_all us acc evs) (\<lambda>evs acc. push_all vs acc evs)"
proof (induction us acc evs rule: push_all.induct)
  case (2 u us acc evs)
  then show ?case
    by (cases "push_value u acc"; cases "fst (push_value u acc)") auto
qed simp

end
