(* ===== verification/Responses_Props.thy ===== *)
theory Responses_Props
  imports Responses_Push "HOL-Library.Code_Target_Nat"
begin

text \<open>
  What a reader of a model's response can rely on: text arrives once and in order, tool calls are
  announced once and within their limit, an event that is refused changes nothing, and a response
  is completed only when everything that was streamed is accounted for.
\<close>

section \<open>A stream\<close>

text \<open>
  A response with a message of two parts that arrive out of order and one tool call; the provider
  repeats the output at the end.
\<close>

lemma byte_drop_code [code]:
  "byte_drop n s =
     (if n = 0 then Some s
      else case s of [] \<Rightarrow> None | c # cs \<Rightarrow> if len_utf8 c \<le> n then byte_drop (n - len_utf8 c) cs else None)"
  by (cases n; cases s) simp_all

definition jobj :: "(string \<times> json) list \<Rightarrow> json" where
  "jobj kvs = JObj (map (\<lambda>(k, v). (lit k, v)) kvs)"

definition jstr :: "string \<Rightarrow> json" where
  "jstr s = JStr (lit s)"

definition demo_message :: json where
  "demo_message = jobj [(''id'', jstr ''m''), (''type'', jstr ''message''), (''role'', jstr ''assistant''),
     (''content'', JArr [jobj [(''type'', jstr ''output_text''), (''text'', jstr ''Hi '')],
                         jobj [(''type'', jstr ''output_text''), (''text'', jstr ''you'')]])]"

definition demo_call :: json where
  "demo_call = jobj [(''id'', jstr ''f''), (''type'', jstr ''function_call''), (''call_id'', jstr ''c''),
     (''name'', jstr ''read''), (''arguments'', jstr ''{}'')]"

definition demo_text :: "string \<Rightarrow> string \<Rightarrow> int \<Rightarrow> string \<Rightarrow> json" where
  "demo_text ty field part t = jobj [(''type'', jstr ty), (field, jstr t), (''item_id'', jstr ''m''),
     (''output_index'', JInt 0), (''content_index'', JInt part)]"

definition demo_stream :: "json list" where
  "demo_stream =
     [demo_text ''response.output_text.delta'' ''delta'' 0 ''H'',
      demo_text ''response.output_text.delta'' ''delta'' 1 ''yo'',
      demo_text ''response.output_text.done'' ''text'' 0 ''Hi '',
      jobj [(''type'', jstr ''response.output_item.done''), (''output_index'', JInt 1), (''item'', demo_call)]]"

definition demo_completed :: json where
  "demo_completed = jobj [(''type'', jstr ''response.completed''),
     (''response'', jobj [(''id'', jstr ''r''), (''output'', JArr [demo_message, demo_call])])]"

definition demo_run :: "(llm_event list, llm_error) result \<times> accumulator" where
  "demo_run = push_all demo_stream (new_accumulator 10) []"

definition demo_full_run :: "(llm_event list, llm_error) result \<times> accumulator" where
  "demo_full_run = push_all (demo_stream @ [demo_completed]) (new_accumulator 10) []"

definition demo_events :: "llm_event list" where
  "demo_events = [TextDelta (lit ''H''), TextDelta (lit ''i yo''), ToolCallStart (lit ''c'') (lit ''read''),
     ToolCallArgsDelta (lit ''c'') (lit ''{}'')]"

lemma demo_run_events: "fst demo_run = Ok demo_events"
  by code_simp

lemma demo_run_eq: "push_all demo_stream (new_accumulator 10) [] = (Ok demo_events, snd demo_run)"
  using demo_run_events by (metis demo_run_def prod.collapse)

lemma demo_full_run_events:
  "fst demo_full_run = Ok (demo_events @ [TextDelta (lit ''u''), Finished FToolCall None])"
  by code_simp

lemma demo_full_run_eq:
  "push_all (demo_stream @ [demo_completed]) (new_accumulator 10) [] =
   (Ok (demo_events @ [TextDelta (lit ''u''), Finished FToolCall None]), snd demo_full_run)"
  using demo_full_run_events by (metis demo_full_run_def prod.collapse)

section \<open>Rejected events\<close>

text \<open>
  C29. An event that the reader refuses leaves the accumulator as it was, whatever part of it the
  handler had already processed, and the refusal is an error value: slicing a text and the
  \<open>expect\<close>s of the source never panic. A stream that has ended refuses every event.
\<close>

theorem rejected_events_change_nothing:
  assumes "push_all vs (new_accumulator limit) [] = (Ok evs, acc)" and "push_value v acc = (Err e, acc')"
  shows "acc' = acc \<and> e \<noteq> Panicked"
  using push_value_Err [OF push_all_Ok(1) [OF acc_inv_new assms(1)] assms(2)] by simp

text \<open>A text delta that moves the message to another output index is refused.\<close>

definition demo_conflict :: json where
  "demo_conflict = jobj [(''type'', jstr ''response.output_text.delta''), (''delta'', jstr ''x''),
     (''item_id'', jstr ''m''), (''output_index'', JInt 7)]"

theorem rejected_events_change_nothing_witness:
  "\<exists>e. push_value demo_conflict (snd demo_run) = (Err e, snd demo_run) \<and> e \<noteq> Panicked"
proof -
  have "\<not> is_ok (fst (push_value demo_conflict (snd demo_run)))" by code_simp
  then obtain e where "fst (push_value demo_conflict (snd demo_run)) = Err e"
    by (cases "fst (push_value demo_conflict (snd demo_run))") auto
  then obtain acc' where run: "push_value demo_conflict (snd demo_run) = (Err e, acc')"
    by (metis prod.collapse)
  from rejected_events_change_nothing [OF demo_run_eq run] run show ?thesis by blast
qed

section \<open>Text\<close>

lemma run_log:
  assumes "push_all vs (new_accumulator limit) [] = (Ok evs, acc)"
  shows "\<exists>log. map snd log = text_deltas evs \<and> (\<forall>i. log_of log i = shown_of acc i)"
    and "tool_events evs = call_events (emitted_tool_calls acc)"
  using push_all_Ok(2) [OF acc_inv_new assms]
  by (auto simp: releases_def new_accumulator_def shown_of_def)

lemma shown_of_flow:
  assumes "acc_inv acc"
  shows "shown_of acc i = (case hm_get (message_text_items acc) i of None \<Rightarrow> [] | Some st \<Rightarrow> flow 0 (mt_parts st))"
    and "complete_at acc i st \<Longrightarrow> shown_of acc i = full_text (mt_parts st)"
proof -
  show flow: "shown_of acc i = (case hm_get (message_text_items acc) i of None \<Rightarrow> [] | Some st \<Rightarrow> flow 0 (mt_parts st))"
    using assms by (auto simp: shown_of_def acc_inv_def texts_ok_def text_ok_def split: option.split)
  assume "complete_at acc i st"
  with assms have "text_ok st" "mt_item_complete st" "hm_get (message_text_items acc) i = Some st"
    by (auto simp: complete_at_def acc_inv_def texts_ok_def)
  with flow flow_complete [of "mt_parts st" 0] show "shown_of acc i = full_text (mt_parts st)"
    by (simp add: text_ok_def)
qed

text \<open>
  C26. The text of a response is delivered once and in order. The text deltas that the reader passes
  on can be assigned to the messages of the stream, one after the other, so that what each message
  receives is the text of its parts in the order of their numbers, up to the first part that is
  missing or may still grow: nothing is repeated, nothing overtakes text that comes before it. A
  message that is complete has been delivered as a whole.
\<close>

theorem text_is_delivered_once_in_order:
  assumes "push_all vs (new_accumulator limit) [] = (Ok evs, acc)"
  shows "\<exists>log. map snd log = text_deltas evs \<and>
     (\<forall>i. log_of log i =
        (case hm_get (message_text_items acc) i of None \<Rightarrow> [] | Some st \<Rightarrow> flow 0 (mt_parts st))) \<and>
     (\<forall>i st. complete_at acc i st \<longrightarrow> log_of log i = full_text (mt_parts st))"
  using run_log(1) [OF assms] shown_of_flow [OF push_all_Ok(1) [OF acc_inv_new assms]] by metis

theorem text_is_delivered_once_in_order_witness:
  "\<exists>log. map snd log = [lit ''H'', lit ''i yo''] \<and> log_of log (lit ''m'') = lit ''Hi yo''"
proof -
  have "map_option (\<lambda>st. flow 0 (mt_parts st)) (hm_get (message_text_items (snd demo_run)) (lit ''m'')) =
      Some (lit ''Hi yo'')" by code_simp
  then have "(case hm_get (message_text_items (snd demo_run)) (lit ''m'') of None \<Rightarrow> []
      | Some st \<Rightarrow> flow 0 (mt_parts st)) = lit ''Hi yo''" by (auto split: option.splits)
  moreover have "text_deltas demo_events = [lit ''H'', lit ''i yo'']" by (simp add: demo_events_def)
  ultimately show ?thesis using text_is_delivered_once_in_order [OF demo_run_eq] by metis
qed

section \<open>Tool calls\<close>

text \<open>
  C28. Every tool call of a response is announced once: the tool events that the reader passes on are
  a start and one argument event per call, for distinct calls, and they are the calls that the
  accumulator has recorded. Each belongs to exactly one output item, and its arguments are within
  the limit of the provider.
\<close>

theorem tool_calls_are_announced_once:
  assumes "push_all vs (new_accumulator limit) [] = (Ok evs, acc)" and "limit < USIZE_MAX"
  shows "tool_events evs = call_events (emitted_tool_calls acc) \<and>
     distinct (hm_keys (emitted_tool_calls acc)) \<and>
     (\<forall>c e. hm_get (emitted_tool_calls acc) c = Some e \<longrightarrow>
        utf8_len (etc_arguments e) \<le> limit \<and> (\<exists>!i. hm_get (item_to_call acc) i = Some c))"
proof -
  note inv = push_all_Ok(1) [OF acc_inv_new assms(1)]
  have limit: "max_argument_bytes acc = limit"
    using push_all_Ok(3) [OF acc_inv_new assms(1)] by (simp add: new_accumulator_def)
  from inv have pend: "pend_ok limit (pending_arguments acc) (item_to_call acc) (emitted_tool_calls acc)"
    and pairs: "pairs_ok (item_to_call acc) (call_to_item acc)"
    by (simp_all add: acc_inv_def limit)
  have "utf8_len (etc_arguments e) \<le> limit \<and> (\<exists>!i. hm_get (item_to_call acc) i = Some c)"
    if "hm_get (emitted_tool_calls acc) c = Some e" for c e
  proof -
    from pend that have item: "\<exists>i. hm_get (item_to_call acc) i = Some c"
      and "hm_get (pending_arguments acc) (CallKey c) = Some \<lparr>fa_value = etc_arguments e, fa_lifecycle = Finalized\<rparr>"
      unfolding pend_ok_def by blast+
    then have "utf8_len (etc_arguments e) \<le> limit"
      using pend assms(2) unfolding pend_ok_def by force
    moreover have "i = j" if "hm_get (item_to_call acc) i = Some c" "hm_get (item_to_call acc) j = Some c" for i j
    proof -
      from pairs that have "hm_get (call_to_item acc) c = Some i" "hm_get (call_to_item acc) c = Some j"
        unfolding pairs_ok_def by blast+
      then show ?thesis by simp
    qed
    ultimately show ?thesis using item by blast
  qed
  moreover have "distinct (hm_keys (emitted_tool_calls acc))" using pend by (simp add: pend_ok_def)
  ultimately show ?thesis using run_log(2) [OF assms(1)] by blast
qed

theorem tool_calls_are_announced_once_witness:
  "tool_events demo_events = call_events (emitted_tool_calls (snd demo_run)) \<and>
   hm_keys (emitted_tool_calls (snd demo_run)) = [lit ''c'']"
proof -
  have "hm_keys (emitted_tool_calls (snd demo_run)) = [lit ''c'']" by code_simp
  moreover have "(10 :: nat) < USIZE_MAX" by (simp add: USIZE_MAX_def)
  ultimately show ?thesis using tool_calls_are_announced_once [OF demo_run_eq] by blast
qed

section \<open>Completed responses\<close>

lemma terminal_push:
  assumes "push_all (vs @ [v]) (new_accumulator limit) [] = (Ok evs, acc)"
    and "acc_terminal acc = Some (TCompleted rid fr usage)"
  shows "\<exists>acc0 acc1 events. acc_inv acc0 \<and> completed_terminal v (acc0, []) = (Ok (TCompleted rid fr usage), acc1, events) \<and>
     acc = acc1\<lparr>acc_terminal := Some (TCompleted rid fr usage)\<rparr>"
proof -
  let ?t = "TCompleted rid fr usage"
  from assms(1) obtain evs0 acc0 u where before: "push_all vs (new_accumulator limit) [] = (Ok evs0, acc0)"
    and last: "push_value v acc0 = (Ok u, acc)"
    by (auto simp: push_all_append chain_def split: prod.splits sum.splits)
  note inv = push_all_Ok(1) [OF acc_inv_new before]
  note step = push_value_Ok [OF inv last]
  with assms(2) have ended: "ru_terminal u = Some ?t" by simp
  from last step(4) obtain ty acc1 where ty: "opt_and_then (json_get (lit ''type'') v) as_str = Some ty"
    and push: "push_typed ty v (acc0, []) = (Ok (Some ?t), acc1, ru_events u)"
    and acc: "acc = acc1\<lparr>acc_terminal := Some ?t\<rparr>"
    using ended by (cases "opt_and_then (json_get (lit ''type'') v) as_str")
      (auto simp: push_value_def split: prod.splits sum.splits)
  have "completed_terminal v (acc0, []) = (Ok ?t, acc1, ru_events u)"
    using push
    by (auto simp: push_typed_def no_terminal_def chain_def check_def apply_atomically_def failed_terminal_def
        incomplete_terminal_def error_terminal_def Let_def and_then_def
        split: if_splits prod.splits sum.splits)
  with inv acc show ?thesis by blast
qed

text \<open>
  C27. A response counts as completed only if everything that was streamed is accounted for: every
  message and every function item is complete, no reasoning item is open, every call that any event
  mentioned has been announced and no arguments are left over. The finish reason says whether there
  were tool calls. When the provider repeats the output, each of its items is the one that was
  streamed: a message was delivered with exactly the text of the output, a call was announced with
  its name and arguments, and every item that was observed is in the output at its index.
\<close>

theorem completed_response_accounts_for_the_stream:
  assumes "push_all (vs @ [v]) (new_accumulator limit) [] = (Ok evs, acc)"
    and "acc_terminal acc = Some (TCompleted rid fr usage)"
  shows "all_complete acc \<and> fr = (if tool_events evs = [] then FStop else FToolCall) \<and>
    (\<exists>log. map snd log = text_deltas evs \<and>
      (\<forall>response output. json_get (lit ''response'') v = Some response \<longrightarrow>
         opt_and_then (json_get (lit ''output'') response) as_array = Some output \<longrightarrow>
         output_accounted acc output \<and>
         (\<forall>item \<in> set output. item_kind item = Some KMessage \<longrightarrow>
            (\<exists>i ts. message_reads item i ts \<and> log_of log i = concat ts))))"
proof -
  from terminal_push [OF assms] obtain acc0 acc1 events where inv0: "acc_inv acc0"
    and run: "completed_terminal v (acc0, []) = (Ok (TCompleted rid fr usage), acc1, events)"
    and acc: "acc = acc1\<lparr>acc_terminal := Some (TCompleted rid fr usage)\<rparr>" by blast
  have inv: "acc_inv (fst (acc0, [] :: llm_event list))" using inv0 by simp
  note fin = completed_terminal_Ok [OF inv run]
  have whole: "all_complete acc" using fin(2) by (simp add: acc all_complete_def)
  have "emitted_tool_calls acc = [] \<longleftrightarrow> tool_events evs = []"
    by (cases "emitted_tool_calls acc") (auto simp: run_log(2) [OF assms(1)] call_events_def)
  with fin(1) have reason: "fr = (if tool_events evs = [] then FStop else FToolCall)"
    by (simp add: acc)
  from run_log(1) [OF assms(1)] obtain log where log: "map snd log = text_deltas evs"
    "\<And>i. log_of log i = shown_of acc i" by blast
  have inv': "acc_inv acc" by (rule push_all_Ok(1) [OF acc_inv_new assms(1)])
  have "output_accounted acc outp \<and>
         (\<forall>item \<in> set outp. item_kind item = Some KMessage \<longrightarrow>
            (\<exists>i ts. message_reads item i ts \<and> log_of log i = concat ts))"
    if "json_get (lit ''response'') v = Some response"
      "opt_and_then (json_get (lit ''output'') response) as_array = Some outp" for response outp
  proof -
    have out: "output_accounted acc outp"
      using fin(3) [OF that] by (simp add: acc output_accounted_def item_settled_def message_done_def complete_at_def)
    have "\<exists>i ts. message_reads item i ts \<and> log_of log i = concat ts"
      if item: "item \<in> set outp" "item_kind item = Some KMessage" for item
    proof -
      from out item obtain i ts st where read: "message_reads item i ts" and comp: "complete_at acc i st"
        and texts: "part_texts st = done_parts ts"
        unfolding output_accounted_def item_settled_def message_done_def by blast
      have "log_of log i = concat ts"
        using log(2) shown_of_flow(2) [OF inv' comp] done_parts_facts(3) [OF texts] by simp
      with read show ?thesis by blast
    qed
    with out show ?thesis by blast
  qed
  then have "\<exists>log. map snd log = text_deltas evs \<and>
      (\<forall>response output. json_get (lit ''response'') v = Some response \<longrightarrow>
         opt_and_then (json_get (lit ''output'') response) as_array = Some output \<longrightarrow>
         output_accounted acc output \<and>
         (\<forall>item \<in> set output. item_kind item = Some KMessage \<longrightarrow>
            (\<exists>i ts. message_reads item i ts \<and> log_of log i = concat ts)))"
    using log(1) by blast
  with whole reason show ?thesis by blast
qed


theorem completed_response_accounts_for_the_stream_witness:
  "all_complete (snd demo_full_run) \<and>
   acc_terminal (snd demo_full_run) = Some (TCompleted (lit ''r'') FToolCall None)"
proof -
  have "acc_terminal (snd demo_full_run) = Some (TCompleted (lit ''r'') FToolCall None)" by code_simp
  with completed_response_accounts_for_the_stream [OF demo_full_run_eq this] show ?thesis by blast
qed

end
