(* ===== verification/Active_Runs.thy ===== *)
theory Active_Runs
  imports Run_Control
begin

text \<open>
  The registry of active runs, \<open>src/src/runtime/active_run.rs\<close>: which session runs, under which
  \<open>RunControl\<close>, and which turn a stop may aim at. Controls live in the heap of \<open>Run_Control\<close>, so a
  stop through the registry is \<open>request_cancel\<close> of that theory. The watch channel of a run is the
  value it holds; the result of awaiting a change is an argument of the waiting method. The
  machine adds the leases that callers hold; its theorems speak of every interleaving of them.
\<close>

section \<open>Data\<close>

record active_run_turn_target =
  at_turn_id :: turn_id
  at_admission_revision :: u64

record active_run_entry =
  ar_generation :: u64
  ar_control :: ctl_id
  ar_steer_activity :: u64
  ar_turn_target :: "active_run_turn_target option"

record active_run_state =
  ar_next_generation :: u64
  ar_runs :: "(session_id, active_run_entry) hmap"

record active_run_lease =
  ls_session_id :: session_id
  ls_generation :: u64

datatype active_run_interrupt_outcome =
    InterruptApplied
  | InterruptDeferred
  | AlreadyClassified
  | TargetChanged
  | NotActive

text \<open>The messages of the errors, with the identities they mention.\<close>

datatype active_run_error =
    AlreadyActive session_id
  | NoRunToSteer session_id
  | TurnNotStarted session_id
  | TurnMismatch turn_id turn_id
  | NoRunToObserve session_id
  | StoppedWhileWaiting session_id
  | RunDisappeared session_id
  | GenerationChanged session_id

definition default_active_runs :: active_run_state where
  "default_active_runs = \<lparr>ar_next_generation = 0, ar_runs = []\<rparr>"

section \<open>Operations of the registry\<close>

definition try_start ::
  "active_run_state \<Rightarrow> session_id \<Rightarrow> ctl_id \<Rightarrow>
   (active_run_state \<times> active_run_lease, active_run_error) result" where
  "try_start st session control =
     (if hm_contains (ar_runs st) session then Err (AlreadyActive session)
      else let generation = ar_next_generation st + 1;
               entry = \<lparr>ar_generation = generation, ar_control = control, ar_steer_activity = 0,
                        ar_turn_target = None\<rparr>
           in Ok (st\<lparr>ar_next_generation := generation, ar_runs := hm_insert session entry (ar_runs st)\<rparr>,
                  \<lparr>ls_session_id = session, ls_generation = generation\<rparr>))"

definition is_active :: "active_run_state \<Rightarrow> session_id \<Rightarrow> bool" where
  "is_active st session = hm_contains (ar_runs st) session"

fun interrupt_outcome :: "run_cancel_outcome \<Rightarrow> active_run_interrupt_outcome" where
  "interrupt_outcome Applied = InterruptApplied"
| "interrupt_outcome (Deferred _) = InterruptDeferred"
| "interrupt_outcome Rejected = AlreadyClassified"

definition cancel_turn ::
  "router_env \<Rightarrow> active_run_state \<Rightarrow> ctl_heap \<Rightarrow> session_id \<Rightarrow> turn_id \<Rightarrow> turn_interruption_cause \<Rightarrow>
   ctl_heap \<times> active_run_interrupt_outcome" where
  "cancel_turn env st h session expected_turn_id cause0 =
     (case hm_get (ar_runs st) session of
        None \<Rightarrow> (h, NotActive)
      | Some run \<Rightarrow>
          if map_option at_turn_id (ar_turn_target run) \<noteq> Some expected_turn_id then (h, TargetChanged)
          else let (h', outcome) = request_cancel env h (ar_control run) (Interruption cause0)
               in (h', interrupt_outcome outcome))"

definition cancel_turn_at_target ::
  "router_env \<Rightarrow> active_run_state \<Rightarrow> ctl_heap \<Rightarrow> session_id \<Rightarrow> active_run_turn_target \<Rightarrow>
   turn_interruption_cause \<Rightarrow> ctl_heap \<times> active_run_interrupt_outcome" where
  "cancel_turn_at_target env st h session expected_target cause0 =
     (case hm_get (ar_runs st) session of
        None \<Rightarrow> (h, NotActive)
      | Some run \<Rightarrow>
          if ar_turn_target run \<noteq> Some expected_target then (h, TargetChanged)
          else let (h', outcome) = request_cancel env h (ar_control run) (Interruption cause0)
               in (h', interrupt_outcome outcome))"

definition run_control_of :: "active_run_state \<Rightarrow> session_id \<Rightarrow> ctl_id option" where
  "run_control_of st session = map_option ar_control (hm_get (ar_runs st) session)"

definition active_turn_target :: "active_run_state \<Rightarrow> session_id \<Rightarrow> active_run_turn_target option" where
  "active_turn_target st session = Option.bind (hm_get (ar_runs st) session) ar_turn_target"

definition active_turn_id :: "active_run_state \<Rightarrow> session_id \<Rightarrow> turn_id option" where
  "active_turn_id st session =
     map_option at_turn_id (Option.bind (hm_get (ar_runs st) session) ar_turn_target)"

definition active_session_ids :: "active_run_state \<Rightarrow> session_id list" where
  "active_session_ids st = hm_keys (ar_runs st)"

definition notify_steer_activity ::
  "active_run_state \<Rightarrow> session_id \<Rightarrow> turn_id \<Rightarrow> (active_run_state, active_run_error) result" where
  "notify_steer_activity st session expected_turn_id =
     (case hm_get (ar_runs st) session of
        None \<Rightarrow> Err (NoRunToSteer session)
      | Some run \<Rightarrow>
          (case map_option at_turn_id (ar_turn_target run) of
             None \<Rightarrow> Err (TurnNotStarted session)
           | Some turn \<Rightarrow>
               if turn \<noteq> expected_turn_id then Err (TurnMismatch expected_turn_id turn)
               else Ok (st\<lparr>ar_runs :=
                      hm_modify session (\<lambda>e. e\<lparr>ar_steer_activity := ar_steer_activity e + 1\<rparr>) (ar_runs st)\<rparr>)))"

definition steer_generation :: "active_run_state \<Rightarrow> session_id \<Rightarrow> (u64, active_run_error) result" where
  "steer_generation st session =
     (case hm_get (ar_runs st) session of
        None \<Rightarrow> Err (NoRunToObserve session)
      | Some run \<Rightarrow> Ok (ar_steer_activity run))"

text \<open>
  \<open>changed\<close> is what \<open>activity.changed().await\<close> reports in the end: that the channel was closed, or
  the value it has when the waiter reads it.
\<close>

definition wait_for_steer_activity ::
  "active_run_state \<Rightarrow> session_id \<Rightarrow> u64 \<Rightarrow> (u64, unit) result \<Rightarrow> (u64, active_run_error) result" where
  "wait_for_steer_activity st session observed changed =
     (case hm_get (ar_runs st) session of
        None \<Rightarrow> Err (NoRunToObserve session)
      | Some run \<Rightarrow>
          if ar_steer_activity run \<noteq> observed then Ok (ar_steer_activity run)
          else case changed of Inl _ \<Rightarrow> Err (StoppedWhileWaiting session) | Inr v \<Rightarrow> Ok v)"

definition registry_set_turn_target ::
  "active_run_state \<Rightarrow> session_id \<Rightarrow> u64 \<Rightarrow> active_run_turn_target \<Rightarrow>
   (active_run_state, active_run_error) result" where
  "registry_set_turn_target st session generation target =
     (case hm_get (ar_runs st) session of
        None \<Rightarrow> Err (RunDisappeared session)
      | Some run \<Rightarrow>
          if ar_generation run \<noteq> generation then Err (GenerationChanged session)
          else Ok (st\<lparr>ar_runs := hm_modify session (\<lambda>e. e\<lparr>ar_turn_target := Some target\<rparr>) (ar_runs st)\<rparr>))"

definition remove_if_generation :: "active_run_state \<Rightarrow> session_id \<Rightarrow> u64 \<Rightarrow> active_run_state" where
  "remove_if_generation st session generation =
     (case hm_get (ar_runs st) session of
        Some run \<Rightarrow>
          if ar_generation run = generation then st\<lparr>ar_runs := hm_remove session (ar_runs st)\<rparr> else st
      | None \<Rightarrow> st)"

section \<open>Operations of a lease\<close>

definition set_turn_target ::
  "active_run_state \<Rightarrow> active_run_lease \<Rightarrow> turn_id \<Rightarrow> u64 \<Rightarrow> (active_run_state, active_run_error) result" where
  "set_turn_target st lease turn admission_revision =
     registry_set_turn_target st (ls_session_id lease) (ls_generation lease)
       \<lparr>at_turn_id = turn, at_admission_revision = admission_revision\<rparr>"

definition set_turn_id ::
  "active_run_state \<Rightarrow> active_run_lease \<Rightarrow> turn_id \<Rightarrow> (active_run_state, active_run_error) result" where
  "set_turn_id st lease turn = set_turn_target st lease turn 0"

definition drop_active_run :: "active_run_state \<Rightarrow> active_run_lease \<Rightarrow> active_run_state" where
  "drop_active_run st lease = remove_if_generation st (ls_session_id lease) (ls_generation lease)"

section \<open>The machine\<close>

text \<open>
  A world: the registry, the controls, and the live leases, each with the control it was started
  with and the target it published last. A lease is dropped once, as its owner goes out of scope.
  The controls may change at any time through their other owners.
\<close>

record held_lease =
  hl_lease :: active_run_lease
  hl_control :: ctl_id
  hl_target :: "active_run_turn_target option"

record run_world =
  rw_registry :: active_run_state
  rw_heap :: ctl_heap
  rw_leases :: "held_lease list"

definition run_init :: "run_world \<Rightarrow> bool" where
  "run_init w \<longleftrightarrow> rw_registry w = default_active_runs \<and> rw_leases w = []"

inductive run_step :: "router_env \<Rightarrow> run_world \<Rightarrow> run_world \<Rightarrow> bool" for env where
  rs_start:
    "try_start (rw_registry w) session control = Ok (st, lease) \<Longrightarrow>
     run_step env w (w\<lparr>rw_registry := st,
                       rw_leases := \<lparr>hl_lease = lease, hl_control = control, hl_target = None\<rparr> # rw_leases w\<rparr>)"
| rs_target:
    "rw_leases w = before @ l # after \<Longrightarrow>
     set_turn_target (rw_registry w) (hl_lease l) turn rev0 = Ok st \<Longrightarrow>
     run_step env w (w\<lparr>rw_registry := st,
       rw_leases := before @ l\<lparr>hl_target := Some \<lparr>at_turn_id = turn, at_admission_revision = rev0\<rparr>\<rparr>
                      # after\<rparr>)"
| rs_drop:
    "rw_leases w = before @ l # after \<Longrightarrow>
     run_step env w (w\<lparr>rw_registry := drop_active_run (rw_registry w) (hl_lease l),
                       rw_leases := before @ after\<rparr>)"
| rs_cancel:
    "cancel_turn env (rw_registry w) (rw_heap w) session turn x = (h, outcome) \<Longrightarrow>
     run_step env w (w\<lparr>rw_heap := h\<rparr>)"
| rs_cancel_at_target:
    "cancel_turn_at_target env (rw_registry w) (rw_heap w) session target x = (h, outcome) \<Longrightarrow>
     run_step env w (w\<lparr>rw_heap := h\<rparr>)"
| rs_steer:
    "notify_steer_activity (rw_registry w) session turn = Ok st \<Longrightarrow>
     run_step env w (w\<lparr>rw_registry := st\<rparr>)"
| rs_controls:
    "run_step env w (w\<lparr>rw_heap := h\<rparr>)"

text \<open>
  The invariant: the runs of the registry are exactly the live leases, one per session. Since a
  session is free only after its lease was dropped, this does not depend on generations being
  fresh, which wrap around.
\<close>

definition owned_by :: "active_run_entry \<Rightarrow> session_id \<Rightarrow> held_lease \<Rightarrow> bool" where
  "owned_by e s l \<longleftrightarrow>
     hl_lease l = \<lparr>ls_session_id = s, ls_generation = ar_generation e\<rparr> \<and>
     hl_control l = ar_control e \<and> hl_target l = ar_turn_target e"

abbreviation lease_session :: "held_lease \<Rightarrow> session_id" where
  "lease_session l \<equiv> ls_session_id (hl_lease l)"

definition run_inv :: "run_world \<Rightarrow> bool" where
  "run_inv w \<longleftrightarrow>
     distinct (map lease_session (rw_leases w)) \<and>
     (\<forall>s. case hm_get (ar_runs (rw_registry w)) s of
            None \<Rightarrow> (\<forall>l \<in> set (rw_leases w). lease_session l \<noteq> s)
          | Some e \<Rightarrow> (\<exists>l \<in> set (rw_leases w). owned_by e s l))"

lemma run_inv_none:
  assumes "run_inv w" and "hm_get (ar_runs (rw_registry w)) s = None" and "l \<in> set (rw_leases w)"
  shows "lease_session l \<noteq> s"
  using assms(1) [unfolded run_inv_def, THEN conjunct2, THEN spec, of s] assms(2,3) by simp

lemma run_inv_some:
  assumes "run_inv w" and "hm_get (ar_runs (rw_registry w)) s = Some e"
  obtains l where "l \<in> set (rw_leases w)" and "owned_by e s l"
  using assms(1) [unfolded run_inv_def, THEN conjunct2, THEN spec, of s] assms(2) that by auto

lemma lease_has_run:
  assumes inv: "run_inv w" and l: "l \<in> set (rw_leases w)"
  obtains e where "hm_get (ar_runs (rw_registry w)) (lease_session l) = Some e"
    and "owned_by e (lease_session l) l"
proof (cases "hm_get (ar_runs (rw_registry w)) (lease_session l)")
  case None
  with run_inv_none [OF inv None l] show ?thesis by simp
next
  case (Some e)
  from run_inv_some [OF inv Some] obtain k where k: "k \<in> set (rw_leases w)" "owned_by e (lease_session l) k" .
  have "distinct (map lease_session (rw_leases w))" using inv by (simp add: run_inv_def)
  moreover have "lease_session k = lease_session l" using k(2) by (simp add: owned_by_def)
  ultimately have "k = l" using k(1) l by (auto simp: distinct_map inj_on_def)
  with Some k(2) that show ?thesis by simp
qed

lemma run_inv_registry:
  assumes "run_inv w"
    and "\<And>s. map_option (\<lambda>e. (ar_generation e, ar_control e, ar_turn_target e)) (hm_get (ar_runs st) s) =
             map_option (\<lambda>e. (ar_generation e, ar_control e, ar_turn_target e))
               (hm_get (ar_runs (rw_registry w)) s)"
  shows "run_inv (w\<lparr>rw_registry := st, rw_heap := h\<rparr>)"
  unfolding run_inv_def
proof (intro conjI allI)
  show "distinct (map lease_session (rw_leases (w\<lparr>rw_registry := st, rw_heap := h\<rparr>)))"
    using assms(1) by (simp add: run_inv_def)
  fix s
  show "case hm_get (ar_runs (rw_registry (w\<lparr>rw_registry := st, rw_heap := h\<rparr>))) s of
          None \<Rightarrow> \<forall>l \<in> set (rw_leases (w\<lparr>rw_registry := st, rw_heap := h\<rparr>)). lease_session l \<noteq> s
        | Some e \<Rightarrow> \<exists>l \<in> set (rw_leases (w\<lparr>rw_registry := st, rw_heap := h\<rparr>)). owned_by e s l"
  proof (cases "hm_get (ar_runs st) s")
    case None
    with assms(2) [of s] have "hm_get (ar_runs (rw_registry w)) s = None" by simp
    with None run_inv_none [OF assms(1)] show ?thesis by simp
  next
    case (Some e)
    with assms(2) [of s] obtain e' where e': "hm_get (ar_runs (rw_registry w)) s = Some e'"
      "ar_generation e' = ar_generation e" "ar_control e' = ar_control e" "ar_turn_target e' = ar_turn_target e"
      by (cases "hm_get (ar_runs (rw_registry w)) s") auto
    from run_inv_some [OF assms(1) e'(1)] obtain l where "l \<in> set (rw_leases w)" "owned_by e' s l" .
    with e' Some show ?thesis by (auto simp: owned_by_def)
  qed
qed

text \<open>A new run, and the end of one.\<close>

lemma run_inv_start:
  assumes inv: "run_inv w" and start: "try_start (rw_registry w) s c = Ok (st, lease)"
  shows "run_inv (w\<lparr>rw_registry := st,
                    rw_leases := \<lparr>hl_lease = lease, hl_control = c, hl_target = None\<rparr> # rw_leases w\<rparr>)"
    (is "run_inv ?w")
proof -
  define e where "e = \<lparr>ar_generation = ar_next_generation (rw_registry w) + 1, ar_control = c,
                       ar_steer_activity = 0, ar_turn_target = None\<rparr>"
  from start have free: "hm_get (ar_runs (rw_registry w)) s = None"
    and st: "ar_runs st = hm_insert s e (ar_runs (rw_registry w))"
    and lease: "lease = \<lparr>ls_session_id = s, ls_generation = ar_generation e\<rparr>"
    by (auto simp: try_start_def hm_contains_def e_def Let_def split: if_splits)
  have fresh: "lease_session l \<noteq> s" if "l \<in> set (rw_leases w)" for l
    using run_inv_none [OF inv free that] .
  show ?thesis unfolding run_inv_def
  proof (intro conjI allI)
    show "distinct (map lease_session (rw_leases ?w))"
      using inv fresh by (auto simp: run_inv_def lease)
    fix s'
    show "case hm_get (ar_runs (rw_registry ?w)) s' of
            None \<Rightarrow> \<forall>l \<in> set (rw_leases ?w). lease_session l \<noteq> s'
          | Some e \<Rightarrow> \<exists>l \<in> set (rw_leases ?w). owned_by e s' l"
    proof (cases "s' = s")
      case True
      then show ?thesis by (auto simp: st lease owned_by_def e_def)
    next
      case False
      then have get: "hm_get (ar_runs st) s' = hm_get (ar_runs (rw_registry w)) s'" by (simp add: st)
      show ?thesis
      proof (cases "hm_get (ar_runs (rw_registry w)) s'")
        case None
        with get False run_inv_none [OF inv None] show ?thesis by (auto simp: lease)
      next
        case (Some e')
        with get run_inv_some [OF inv Some] show ?thesis by auto
      qed
    qed
  qed
qed

lemma run_inv_lease_change:
  assumes inv: "run_inv w" and ls: "rw_leases w = before @ l # after"
    and l': "lease_session l' = lease_session l" "owned_by e (lease_session l) l'"
    and runs: "\<And>s. hm_get (ar_runs st) s =
                  (if s = lease_session l then Some e else hm_get (ar_runs (rw_registry w)) s)"
  shows "run_inv (w\<lparr>rw_registry := st, rw_leases := before @ l' # after\<rparr>)" (is "run_inv ?w")
  unfolding run_inv_def
proof (intro conjI allI)
  show "distinct (map lease_session (rw_leases ?w))"
    using inv ls l'(1) by (simp add: run_inv_def)
  fix s
  show "case hm_get (ar_runs (rw_registry ?w)) s of
          None \<Rightarrow> \<forall>l \<in> set (rw_leases ?w). lease_session l \<noteq> s
        | Some e \<Rightarrow> \<exists>l \<in> set (rw_leases ?w). owned_by e s l"
  proof (cases "s = lease_session l")
    case True
    with l'(2) show ?thesis by (simp add: runs)
  next
    case other: False
    show ?thesis
    proof (cases "hm_get (ar_runs (rw_registry w)) s")
      case None
      with other run_inv_none [OF inv None] l'(1) show ?thesis by (auto simp: runs ls)
    next
      case (Some f)
      from run_inv_some [OF inv Some] obtain k where "k \<in> set (rw_leases w)" "owned_by f s k" .
      moreover from this other have "k \<noteq> l" by (auto simp: owned_by_def)
      ultimately show ?thesis using Some other by (auto simp: runs ls)
    qed
  qed
qed

lemma run_inv_drop:
  assumes inv: "run_inv w" and ls: "rw_leases w = before @ l # after"
  shows "run_inv (w\<lparr>rw_registry := drop_active_run (rw_registry w) (hl_lease l), rw_leases := before @ after\<rparr>)"
    (is "run_inv ?w")
proof -
  have l: "l \<in> set (rw_leases w)" using ls by simp
  from lease_has_run [OF inv l] obtain e where e: "hm_get (ar_runs (rw_registry w)) (lease_session l) = Some e"
    "owned_by e (lease_session l) l" .
  from e(2) have "ls_generation (hl_lease l) = ar_generation e" unfolding owned_by_def by (metis active_run_lease.select_convs(2))
  with e(1) have runs: "ar_runs (drop_active_run (rw_registry w) (hl_lease l)) =
      hm_remove (lease_session l) (ar_runs (rw_registry w))"
    by (simp add: drop_active_run_def remove_if_generation_def)
  have dist: "distinct (map lease_session (before @ l # after))" using inv ls by (simp add: run_inv_def)
  show ?thesis unfolding run_inv_def
  proof (intro conjI allI)
    show "distinct (map lease_session (rw_leases ?w))" using dist by auto
    fix s
    show "case hm_get (ar_runs (rw_registry ?w)) s of
            None \<Rightarrow> \<forall>l \<in> set (rw_leases ?w). lease_session l \<noteq> s
          | Some e \<Rightarrow> \<exists>l \<in> set (rw_leases ?w). owned_by e s l"
    proof (cases "s = lease_session l")
      case True
      with dist show ?thesis by (auto simp: runs image_iff)
    next
      case other: False
      show ?thesis
      proof (cases "hm_get (ar_runs (rw_registry w)) s")
        case None
        with other run_inv_none [OF inv None] show ?thesis by (auto simp: runs ls)
      next
        case (Some f)
        from run_inv_some [OF inv Some] obtain k where "k \<in> set (rw_leases w)" "owned_by f s k" .
        moreover from this other have "k \<noteq> l" by (auto simp: owned_by_def)
        ultimately show ?thesis using Some other by (auto simp: runs ls)
      qed
    qed
  qed
qed

lemma set_turn_target_held:
  assumes inv: "run_inv w" and l: "l \<in> set (rw_leases w)"
  obtains e where "hm_get (ar_runs (rw_registry w)) (lease_session l) = Some e"
    and "owned_by e (lease_session l) l"
    and "set_turn_target (rw_registry w) (hl_lease l) t r =
         Ok ((rw_registry w)\<lparr>ar_runs := hm_modify (lease_session l)
               (\<lambda>e. e\<lparr>ar_turn_target := Some \<lparr>at_turn_id = t, at_admission_revision = r\<rparr>\<rparr>)
               (ar_runs (rw_registry w))\<rparr>)"
proof -
  from lease_has_run [OF inv l] obtain e where e: "hm_get (ar_runs (rw_registry w)) (lease_session l) = Some e"
    "owned_by e (lease_session l) l" .
  moreover from e(2) have "ls_generation (hl_lease l) = ar_generation e"
    unfolding owned_by_def by (metis active_run_lease.select_convs(2))
  ultimately show ?thesis
    by (intro that [of e]) (simp_all add: set_turn_target_def registry_set_turn_target_def)
qed

lemma run_step_inv: "run_inv w \<Longrightarrow> run_step env w w' \<Longrightarrow> run_inv w'"
proof -
  assume inv: "run_inv w"
  assume "run_step env w w'"
  then show "run_inv w'"
  proof cases
    case (rs_start session control st lease)
    then show ?thesis using run_inv_start [OF inv] by simp
  next
    case (rs_target before l after turn rev0 st)
    have "l \<in> set (rw_leases w)" using rs_target(2) by simp
    from set_turn_target_held [OF inv this, of turn rev0] obtain e where
      e: "hm_get (ar_runs (rw_registry w)) (lease_session l) = Some e" "owned_by e (lease_session l) l"
      and ok: "set_turn_target (rw_registry w) (hl_lease l) turn rev0 =
         Ok ((rw_registry w)\<lparr>ar_runs := hm_modify (lease_session l)
               (\<lambda>e. e\<lparr>ar_turn_target := Some \<lparr>at_turn_id = turn, at_admission_revision = rev0\<rparr>\<rparr>)
               (ar_runs (rw_registry w))\<rparr>)" .
    show ?thesis unfolding rs_target(1)
      by (rule run_inv_lease_change [OF inv rs_target(2),
            where e = "e\<lparr>ar_turn_target := Some \<lparr>at_turn_id = turn, at_admission_revision = rev0\<rparr>\<rparr>"])
         (use e ok rs_target(3) in \<open>auto simp: owned_by_def\<close>)
  next
    case (rs_drop before l after)
    then show ?thesis using run_inv_drop [OF inv] by simp
  next
    case (rs_cancel session turn x h outcome)
    have "run_inv (w\<lparr>rw_registry := rw_registry w, rw_heap := h\<rparr>)" by (rule run_inv_registry [OF inv]) simp
    with rs_cancel show ?thesis by simp
  next
    case (rs_cancel_at_target session target x h outcome)
    have "run_inv (w\<lparr>rw_registry := rw_registry w, rw_heap := h\<rparr>)" by (rule run_inv_registry [OF inv]) simp
    with rs_cancel_at_target show ?thesis by simp
  next
    case (rs_steer session turn st)
    have "run_inv (w\<lparr>rw_registry := st, rw_heap := rw_heap w\<rparr>)"
      by (rule run_inv_registry [OF inv])
         (use rs_steer(2) in \<open>auto simp: notify_steer_activity_def option.map_comp o_def
            split: option.splits if_splits\<close>)
    with rs_steer show ?thesis by simp
  next
    case (rs_controls h)
    have "run_inv (w\<lparr>rw_registry := rw_registry w, rw_heap := h\<rparr>)" by (rule run_inv_registry [OF inv]) simp
    with rs_controls show ?thesis by simp
  qed
qed

lemma run_init_inv: "run_init w \<Longrightarrow> run_inv w"
  by (simp add: run_init_def run_inv_def default_active_runs_def)

interpretation runs: invariant_machine run_init "run_step env" run_inv for env
  by unfold_locales (auto intro: run_init_inv run_step_inv)

lemma run_inv_active:
  assumes inv: "run_inv w"
  shows "hm_contains (ar_runs (rw_registry w)) s \<longleftrightarrow> s \<in> lease_session ` set (rw_leases w)"
proof
  assume "hm_contains (ar_runs (rw_registry w)) s"
  then obtain e where "hm_get (ar_runs (rw_registry w)) s = Some e" by (auto simp: hm_contains_def)
  from run_inv_some [OF inv this] obtain l where "l \<in> set (rw_leases w)" "owned_by e s l" .
  then show "s \<in> lease_session ` set (rw_leases w)" by (force simp: owned_by_def)
next
  assume "s \<in> lease_session ` set (rw_leases w)"
  then obtain l where l: "l \<in> set (rw_leases w)" "s = lease_session l" by auto
  from lease_has_run [OF inv l(1)] l(2) show "hm_contains (ar_runs (rw_registry w)) s"
    by (metis hm_contains_def option.discI)
qed

lemma set_turn_target_effect:
  assumes inv: "run_inv w" and l: "l \<in> set (rw_leases w)"
  shows "\<exists>st. set_turn_target (rw_registry w) (hl_lease l) t r = Ok st \<and>
              active_turn_target st = (active_turn_target (rw_registry w))
                (lease_session l \<mapsto> \<lparr>at_turn_id = t, at_admission_revision = r\<rparr>) \<and>
              run_control_of st = run_control_of (rw_registry w)"
proof -
  from set_turn_target_held [OF inv l, of t r] obtain e where
    e: "hm_get (ar_runs (rw_registry w)) (lease_session l) = Some e" "owned_by e (lease_session l) l"
    and ok: "set_turn_target (rw_registry w) (hl_lease l) t r =
         Ok ((rw_registry w)\<lparr>ar_runs := hm_modify (lease_session l)
               (\<lambda>e. e\<lparr>ar_turn_target := Some \<lparr>at_turn_id = t, at_admission_revision = r\<rparr>\<rparr>)
               (ar_runs (rw_registry w))\<rparr>)" .
  from e(1) ok show ?thesis
    by (auto simp: fun_eq_iff active_turn_target_def run_control_of_def option.map_comp o_def)
qed

lemma drop_active_run_effect:
  assumes inv: "run_inv w" and l: "l \<in> set (rw_leases w)"
  shows "hm_get (ar_runs (drop_active_run (rw_registry w) (hl_lease l))) =
         (hm_get (ar_runs (rw_registry w)))(lease_session l := None)"
proof -
  from lease_has_run [OF inv l] obtain e where e: "hm_get (ar_runs (rw_registry w)) (lease_session l) = Some e"
    "owned_by e (lease_session l) l" .
  from e(2) have "ls_generation (hl_lease l) = ar_generation e"
    unfolding owned_by_def by (metis active_run_lease.select_convs(2))
  with e(1) show ?thesis by (auto simp: drop_active_run_def remove_if_generation_def fun_eq_iff)
qed

section \<open>What the registry guarantees\<close>

text \<open>
  C30. A session has one active run, owned by one lease. In every reachable world, whatever the
  interleaving of starts, targets, stops, steers and drops, no two live leases have the same
  session, and a session is active exactly if it has a live lease. A start succeeds exactly if the
  session has none. The lease of a run can always publish its target, which is then the target of
  its session and of no other, and dropping it frees its session and leaves every other run as it
  is. Nothing of this depends on generations, which wrap around, being fresh.
\<close>

theorem active_runs_have_one_owner:
  assumes "run_init w0" and "(run_step env)\<^sup>*\<^sup>* w0 w"
  shows "distinct (map lease_session (rw_leases w)) \<and>
    (is_active (rw_registry w) s \<longleftrightarrow> s \<in> lease_session ` set (rw_leases w)) \<and>
    (is_ok (try_start (rw_registry w) s c) \<longleftrightarrow> s \<notin> lease_session ` set (rw_leases w)) \<and>
    (\<forall>l \<in> set (rw_leases w).
       (\<exists>st. set_turn_target (rw_registry w) (hl_lease l) t r = Ok st \<and>
             active_turn_target st = (active_turn_target (rw_registry w))
               (lease_session l \<mapsto> \<lparr>at_turn_id = t, at_admission_revision = r\<rparr>) \<and>
             run_control_of st = run_control_of (rw_registry w)) \<and>
       hm_get (ar_runs (drop_active_run (rw_registry w) (hl_lease l))) =
         (hm_get (ar_runs (rw_registry w)))(lease_session l := None))"
proof -
  have inv: "run_inv w" using assms by (rule runs.reachable_invar)
  have active: "hm_contains (ar_runs (rw_registry w)) s \<longleftrightarrow> s \<in> lease_session ` set (rw_leases w)"
    by (rule run_inv_active [OF inv])
  have "distinct (map lease_session (rw_leases w))" using inv by (simp add: run_inv_def)
  moreover from active have "is_active (rw_registry w) s \<longleftrightarrow> s \<in> lease_session ` set (rw_leases w)"
    by (simp add: is_active_def)
  moreover from active have "is_ok (try_start (rw_registry w) s c) \<longleftrightarrow> s \<notin> lease_session ` set (rw_leases w)"
    by (simp add: try_start_def Let_def)
  moreover have "(\<exists>st. set_turn_target (rw_registry w) (hl_lease l) t r = Ok st \<and>
             active_turn_target st = (active_turn_target (rw_registry w))
               (lease_session l \<mapsto> \<lparr>at_turn_id = t, at_admission_revision = r\<rparr>) \<and>
             run_control_of st = run_control_of (rw_registry w)) \<and>
       hm_get (ar_runs (drop_active_run (rw_registry w) (hl_lease l))) =
         (hm_get (ar_runs (rw_registry w)))(lease_session l := None)"
    if "l \<in> set (rw_leases w)" for l
    using set_turn_target_effect [OF inv that] drop_active_run_effect [OF inv that] by blast
  ultimately show ?thesis by blast
qed

text \<open>Two runs start, the first publishes a turn and ends, and its session starts again.\<close>

definition demo_runs :: run_world where
  "demo_runs =
     \<lparr>rw_registry = \<lparr>ar_next_generation = 2, ar_runs =
        [(7, \<lparr>ar_generation = 2, ar_control = 4, ar_steer_activity = 0, ar_turn_target = None\<rparr>)]\<rparr>,
      rw_heap = (\<lambda>_. new_run_control),
      rw_leases = [\<lparr>hl_lease = \<lparr>ls_session_id = 7, ls_generation = 2\<rparr>, hl_control = 4, hl_target = None\<rparr>]\<rparr>"

definition demo_start :: run_world where
  "demo_start = \<lparr>rw_registry = default_active_runs, rw_heap = (\<lambda>_. new_run_control), rw_leases = []\<rparr>"

lemma demo_runs_reachable: "(run_step env)\<^sup>*\<^sup>* demo_start demo_runs"
proof -
  define l1 where "l1 = \<lparr>hl_lease = \<lparr>ls_session_id = 7, ls_generation = 1\<rparr>, hl_control = 3,
    hl_target = (None :: active_run_turn_target option)\<rparr>"
  define w1 where "w1 = demo_start\<lparr>rw_registry := \<lparr>ar_next_generation = 1, ar_runs =
      [(7, \<lparr>ar_generation = 1, ar_control = 3, ar_steer_activity = 0, ar_turn_target = None\<rparr>)]\<rparr>,
    rw_leases := [l1]\<rparr>"
  define w2 where "w2 = w1\<lparr>rw_registry := \<lparr>ar_next_generation = 1, ar_runs =
      [(7, \<lparr>ar_generation = 1, ar_control = 3, ar_steer_activity = 0,
            ar_turn_target = Some \<lparr>at_turn_id = 11, at_admission_revision = 0\<rparr>\<rparr>)]\<rparr>,
    rw_leases := [l1\<lparr>hl_target := Some \<lparr>at_turn_id = 11, at_admission_revision = 0\<rparr>\<rparr>]\<rparr>"
  define w3 where "w3 = w2\<lparr>rw_registry := \<lparr>ar_next_generation = 1, ar_runs = []\<rparr>, rw_leases := []\<rparr>"
  have "run_step env demo_start w1"
    using rs_start [of demo_start 7 3] by (simp add: demo_start_def w1_def l1_def try_start_def
      default_active_runs_def hm_contains_def hm_insert_def)
  moreover have "run_step env w1 w2"
    using rs_target [of w1 "[]" l1 "[]" 11 0] by (simp add: w2_def w1_def l1_def set_turn_target_def
      registry_set_turn_target_def hm_modify_def)
  moreover have "run_step env w2 w3"
    using rs_drop [of w2 "[]" "l1\<lparr>hl_target := Some \<lparr>at_turn_id = 11, at_admission_revision = 0\<rparr>\<rparr>" "[]"]
    by (simp add: w3_def w2_def w1_def l1_def drop_active_run_def remove_if_generation_def hm_remove_def)
  moreover have "run_step env w3 demo_runs"
    using rs_start [of w3 7 4] by (simp add: demo_runs_def demo_start_def w3_def w2_def w1_def try_start_def
      hm_contains_def hm_insert_def)
  ultimately show ?thesis by (meson converse_rtranclp_into_rtranclp rtranclp.rtrancl_refl)
qed

lemma demo_start_init: "run_init demo_start"
  by (simp add: run_init_def demo_start_def)

theorem active_runs_have_one_owner_witness:
  "is_active (rw_registry demo_runs) 7 \<and> \<not> is_ok (try_start (rw_registry demo_runs) 7 5) \<and>
   is_ok (try_start (rw_registry demo_runs) 8 5)"
  using active_runs_have_one_owner [OF demo_start_init demo_runs_reachable, of 7]
    active_runs_have_one_owner [OF demo_start_init demo_runs_reachable, of 8]
  by (simp add: demo_runs_def)

text \<open>
  C31. A stop reaches the turn it was meant for or nothing. In every reachable world, a stop of
  turn \<open>t\<close> of session \<open>s\<close> changes no control unless a live lease of \<open>s\<close> itself published \<open>t\<close> as its
  target last; a turn of an earlier run of the session is not found, even if it was never
  withdrawn. If it was published, the stop is the cancellation of exactly the control that this
  lease was started with, and the outcome is that of the control. A stop that also names the
  admission revision reaches no more than that.
\<close>

theorem stops_reach_the_published_turn:
  assumes "run_init w0" and "(run_step env)\<^sup>*\<^sup>* w0 w"
  shows "(s \<notin> lease_session ` set (rw_leases w) \<longrightarrow>
       cancel_turn env (rw_registry w) (rw_heap w) s t x = (rw_heap w, NotActive)) \<and>
    (\<forall>l \<in> set (rw_leases w). lease_session l = s \<longrightarrow>
       cancel_turn env (rw_registry w) (rw_heap w) s t x =
         (if map_option at_turn_id (hl_target l) = Some t
          then map_prod id interrupt_outcome
                 (request_cancel env (rw_heap w) (hl_control l) (Interruption x))
          else (rw_heap w, TargetChanged)) \<and>
       cancel_turn_at_target env (rw_registry w) (rw_heap w) s target x =
         (if hl_target l = Some target
          then cancel_turn env (rw_registry w) (rw_heap w) s (at_turn_id target) x
          else (rw_heap w, TargetChanged)))"
proof (intro conjI impI ballI)
  have inv: "run_inv w" using assms by (rule runs.reachable_invar)
  show "cancel_turn env (rw_registry w) (rw_heap w) s t x = (rw_heap w, NotActive)"
    if "s \<notin> lease_session ` set (rw_leases w)"
    using that run_inv_active [OF inv, of s] by (auto simp: cancel_turn_def hm_contains_def)
  fix l assume l: "l \<in> set (rw_leases w)" "lease_session l = s"
  from lease_has_run [OF inv l(1)] l(2) obtain e where
    e: "hm_get (ar_runs (rw_registry w)) s = Some e" "owned_by e s l" by metis
  then show "cancel_turn env (rw_registry w) (rw_heap w) s t x =
         (if map_option at_turn_id (hl_target l) = Some t
          then map_prod id interrupt_outcome
                 (request_cancel env (rw_heap w) (hl_control l) (Interruption x))
          else (rw_heap w, TargetChanged))"
    by (auto simp: cancel_turn_def owned_by_def map_prod_def case_prod_beta Let_def)
  from e show "cancel_turn_at_target env (rw_registry w) (rw_heap w) s target x =
         (if hl_target l = Some target
          then cancel_turn env (rw_registry w) (rw_heap w) s (at_turn_id target) x
          else (rw_heap w, TargetChanged))"
    by (simp add: cancel_turn_at_target_def cancel_turn_def owned_by_def)
qed

theorem stops_reach_the_published_turn_witness:
  "cancel_turn (\<lambda>_. None) (rw_registry demo_runs) (rw_heap demo_runs) 7 11 UserStop =
   (rw_heap demo_runs, TargetChanged)"
  using stops_reach_the_published_turn [OF demo_start_init demo_runs_reachable, of 7]
  by (simp add: demo_runs_def)

end
