(* ===== verification/Run_Events.thy ===== *)
theory Run_Events
  imports History Run_Classification
begin

text \<open>
  The events of a run (\<open>RunEvent\<close> of \<open>src/src/session/model.rs\<close>) and the protocol items they become
  (\<open>src/src/protocol/projection.rs\<close>): a runtime event, at most one canonical history item and at most
  one turn item for the surfaces. Names of tools are those of \<open>src/src/tool/contract.rs\<close>. Fresh
  identities and the clock are an argument; a panic is \<open>None\<close>.
\<close>

section \<open>Names of tools\<close>

datatype tool_name =
    ToolList
  | ToolGlob
  | ToolGrep
  | ToolRead
  | ToolReadHistory
  | ToolInspectDirectory
  | ToolApplyPatch
  | ToolWrite
  | ToolShell
  | ToolShellStart
  | ToolShellStatus
  | ToolShellStop
  | ToolCurrentTime
  | ToolSkill
  | ToolSecurityReview
  | ToolDoclingConvert
  | ToolMcpCall
  | ToolWaitRemoteTasks
  | ToolTeamPcs
  | ToolTeamUploadFile
  | ToolTeamDelegate
  | ToolTeamRetrySubmission
  | ToolTeamWait
  | ToolTeamReadArtifact
  | ToolTeamSaveArtifact
  | ToolTeamStopService
  | ToolTeamStopConversation
  | ToolSharedServices
  | ToolSharedStopService
  | ToolSharedDelegate
  | ToolSharedUploadFile
  | ToolSharedJobArtifacts
  | ToolSharedReadArtifact
  | ToolSharedSaveArtifact
  | ToolSharedPublishArtifact
  | ToolUpdatePlan
  | ToolCompactContext
  | ToolGetGoal
  | ToolCreateGoal
  | ToolUpdateGoal
  | ToolSpawnAgent
  | ToolSendMessage
  | ToolFollowupTask
  | ToolWaitAgent
  | ToolInterruptAgent
  | ToolListAgents
  | ToolInvalid

fun tool_display :: "tool_name \<Rightarrow> ustr" where
  "tool_display ToolList = lit ''list''"
| "tool_display ToolGlob = lit ''glob''"
| "tool_display ToolGrep = lit ''grep''"
| "tool_display ToolRead = lit ''read''"
| "tool_display ToolReadHistory = lit ''read_history''"
| "tool_display ToolInspectDirectory = lit ''inspect_directory''"
| "tool_display ToolApplyPatch = lit ''apply_patch''"
| "tool_display ToolWrite = lit ''write''"
| "tool_display ToolShell = lit ''shell''"
| "tool_display ToolShellStart = lit ''shell_start''"
| "tool_display ToolShellStatus = lit ''shell_status''"
| "tool_display ToolShellStop = lit ''shell_stop''"
| "tool_display ToolCurrentTime = lit ''current_time''"
| "tool_display ToolSkill = lit ''skill''"
| "tool_display ToolSecurityReview = lit ''security_review''"
| "tool_display ToolDoclingConvert = lit ''docling_convert''"
| "tool_display ToolMcpCall = lit ''mcp_call''"
| "tool_display ToolWaitRemoteTasks = lit ''wait_remote_tasks''"
| "tool_display ToolTeamPcs = lit ''team_pcs''"
| "tool_display ToolTeamUploadFile = lit ''team_upload_file''"
| "tool_display ToolTeamDelegate = lit ''team_delegate''"
| "tool_display ToolTeamRetrySubmission = lit ''team_retry_submission''"
| "tool_display ToolTeamWait = lit ''team_wait''"
| "tool_display ToolTeamReadArtifact = lit ''team_read_artifact''"
| "tool_display ToolTeamSaveArtifact = lit ''team_save_artifact''"
| "tool_display ToolTeamStopService = lit ''team_stop_service''"
| "tool_display ToolTeamStopConversation = lit ''team_stop_conversation''"
| "tool_display ToolSharedServices = lit ''shared_services''"
| "tool_display ToolSharedStopService = lit ''shared_stop_service''"
| "tool_display ToolSharedDelegate = lit ''shared_delegate''"
| "tool_display ToolSharedUploadFile = lit ''shared_upload_file''"
| "tool_display ToolSharedJobArtifacts = lit ''shared_job_artifacts''"
| "tool_display ToolSharedReadArtifact = lit ''shared_read_artifact''"
| "tool_display ToolSharedSaveArtifact = lit ''shared_save_artifact''"
| "tool_display ToolSharedPublishArtifact = lit ''shared_publish_artifact''"
| "tool_display ToolUpdatePlan = lit ''update_plan''"
| "tool_display ToolCompactContext = lit ''compact_context''"
| "tool_display ToolGetGoal = lit ''get_goal''"
| "tool_display ToolCreateGoal = lit ''create_goal''"
| "tool_display ToolUpdateGoal = lit ''update_goal''"
| "tool_display ToolSpawnAgent = lit ''spawn_agent''"
| "tool_display ToolSendMessage = lit ''send_message''"
| "tool_display ToolFollowupTask = lit ''followup_task''"
| "tool_display ToolWaitAgent = lit ''wait_agent''"
| "tool_display ToolInterruptAgent = lit ''interrupt_agent''"
| "tool_display ToolListAgents = lit ''list_agents''"
| "tool_display ToolInvalid = lit ''invalid''"

definition tool_parse :: "ustr \<Rightarrow> tool_name" where
  "tool_parse value =
     (if value = lit ''list'' then ToolList
      else if value = lit ''glob'' then ToolGlob
      else if value = lit ''grep'' then ToolGrep
      else if value = lit ''read'' then ToolRead
      else if value = lit ''read_history'' then ToolReadHistory
      else if value = lit ''inspect_directory'' then ToolInspectDirectory
      else if value = lit ''apply_patch'' then ToolApplyPatch
      else if value = lit ''write'' then ToolWrite
      else if value = lit ''shell'' then ToolShell
      else if value = lit ''shell_start'' then ToolShellStart
      else if value = lit ''shell_status'' then ToolShellStatus
      else if value = lit ''shell_stop'' then ToolShellStop
      else if value = lit ''current_time'' then ToolCurrentTime
      else if value = lit ''skill'' then ToolSkill
      else if value = lit ''security_review'' then ToolSecurityReview
      else if value = lit ''docling_convert'' then ToolDoclingConvert
      else if value = lit ''mcp_call'' then ToolMcpCall
      else if value = lit ''wait_remote_tasks'' then ToolWaitRemoteTasks
      else if value = lit ''team_pcs'' then ToolTeamPcs
      else if value = lit ''team_upload_file'' then ToolTeamUploadFile
      else if value = lit ''team_delegate'' then ToolTeamDelegate
      else if value = lit ''team_retry_submission'' then ToolTeamRetrySubmission
      else if value = lit ''team_wait'' then ToolTeamWait
      else if value = lit ''team_read_artifact'' then ToolTeamReadArtifact
      else if value = lit ''team_save_artifact'' then ToolTeamSaveArtifact
      else if value = lit ''team_stop_service'' then ToolTeamStopService
      else if value = lit ''team_stop_conversation'' then ToolTeamStopConversation
      else if value = lit ''shared_services'' then ToolSharedServices
      else if value = lit ''shared_stop_service'' then ToolSharedStopService
      else if value = lit ''shared_delegate'' then ToolSharedDelegate
      else if value = lit ''shared_upload_file'' then ToolSharedUploadFile
      else if value = lit ''shared_job_artifacts'' then ToolSharedJobArtifacts
      else if value = lit ''shared_read_artifact'' then ToolSharedReadArtifact
      else if value = lit ''shared_save_artifact'' then ToolSharedSaveArtifact
      else if value = lit ''shared_publish_artifact'' then ToolSharedPublishArtifact
      else if value = lit ''update_plan'' then ToolUpdatePlan
      else if value = lit ''compact_context'' then ToolCompactContext
      else if value = lit ''get_goal'' then ToolGetGoal
      else if value = lit ''create_goal'' then ToolCreateGoal
      else if value = lit ''update_goal'' then ToolUpdateGoal
      else if value = lit ''spawn_agent'' then ToolSpawnAgent
      else if value = lit ''send_message'' then ToolSendMessage
      else if value = lit ''followup_task'' then ToolFollowupTask
      else if value = lit ''wait_agent'' then ToolWaitAgent
      else if value = lit ''interrupt_agent'' then ToolInterruptAgent
      else if value = lit ''list_agents'' then ToolListAgents
      else ToolInvalid)"

section \<open>Data of the protocol\<close>

datatype user_input_item = TextInput ustr | ImageInput image_part

fun contains_image :: "user_input_item \<Rightarrow> bool" where
  "contains_image (ImageInput _) = True"
| "contains_image (TextInput _) = False"

record user_turn =
  ut_turn_id :: turn_id
  ut_items :: "user_input_item list"
  ut_prompt_dispatch :: "nat option"
  ut_editor_context :: "nat option"

definition requires_image_capability :: "user_turn \<Rightarrow> bool" where
  "requires_image_capability turn = list_ex contains_image (ut_items turn)"

fun input_text :: "user_input_item \<Rightarrow> ustr option" where
  "input_text (TextInput s) = Some s"
| "input_text (ImageInput _) = None"

definition user_turn_own_text :: "user_turn \<Rightarrow> ustr" where
  "user_turn_own_text turn = join [10] (List.map_filter input_text (ut_items turn))"

fun input_image :: "user_input_item \<Rightarrow> image_part option" where
  "input_image (ImageInput img) = Some img"
| "input_image (TextInput _) = None"

definition user_turn_images :: "user_turn \<Rightarrow> image_part list" where
  "user_turn_images turn = List.map_filter input_image (ut_items turn)"

fun input_content :: "user_input_item \<Rightarrow> content_part option" where
  "input_content (TextInput s) = (if s = [] then None else Some (CText s))"
| "input_content (ImageInput img) = Some (CImage img)"

definition content_parts :: "user_turn \<Rightarrow> content_part list" where
  "content_parts turn = List.map_filter input_content (ut_items turn)"

datatype turn_terminal_outcome =
    TerminalCompleted
  | TerminalInterrupted turn_interruption_cause
  | TerminalFailed ustr

text \<open>The metrics of a terminal are only carried.\<close>

record durable_turn_terminal =
  dt_outcome :: turn_terminal_outcome
  dt_final_response_id :: "response_id option"
  dt_tool_call_count :: nat
  dt_failed_tool_count :: nat
  dt_change_count :: nat
  dt_metrics :: nat

datatype session_status = SessionIdle | SessionRunning | SessionCompleted | SessionCancelled | SessionFailed

fun terminal_session_status :: "turn_terminal_outcome \<Rightarrow> session_status" where
  "terminal_session_status TerminalCompleted = SessionCompleted"
| "terminal_session_status (TerminalInterrupted _) = SessionCancelled"
| "terminal_session_status (TerminalFailed _) = SessionFailed"

fun terminal_interruption_cause :: "turn_terminal_outcome \<Rightarrow> turn_interruption_cause option" where
  "terminal_interruption_cause (TerminalInterrupted c) = Some c"
| "terminal_interruption_cause TerminalCompleted = None"
| "terminal_interruption_cause (TerminalFailed _) = None"

fun terminal_summary :: "turn_terminal_outcome \<Rightarrow> ustr" where
  "terminal_summary TerminalCompleted = lit ''completed''"
| "terminal_summary (TerminalInterrupted c) = summary c"
| "terminal_summary (TerminalFailed e) = e"

section \<open>File changes\<close>

record change_summary =
  cs_change_id :: ulid
  cs_kind :: change_kind
  cs_path_before :: "ustr option"
  cs_path_after :: "ustr option"

text \<open>\<open>render_display_path\<close> and \<open>summary_line\<close> without a workspace root, as the projection calls them.\<close>

definition render_display_path :: "ustr option \<Rightarrow> ustr" where
  "render_display_path path = (case path of None \<Rightarrow> [] | Some p \<Rightarrow> p)"

definition summary_line :: "change_summary \<Rightarrow> ustr" where
  "summary_line change =
     (case cs_kind change of
        AddChange \<Rightarrow> lit ''Added '' @ render_display_path (cs_path_after change)
      | UpdateChange \<Rightarrow> lit ''Updated '' @
          render_display_path (case cs_path_after change of None \<Rightarrow> cs_path_before change | Some p \<Rightarrow> Some p)
      | DeleteChange \<Rightarrow> lit ''Deleted '' @ render_display_path (cs_path_before change)
      | MoveChange \<Rightarrow> lit ''Moved '' @ render_display_path (cs_path_before change) @ lit '' -> '' @
          render_display_path (cs_path_after change))"

definition file_change_evidence_of :: "change_summary \<Rightarrow> file_change_evidence" where
  "file_change_evidence_of change =
     \<lparr>fce_change_id = cs_change_id change, fce_kind = cs_kind change,
      fce_path_before = cs_path_before change, fce_path_after = cs_path_after change,
      fce_summary = summary_line change\<rparr>"

definition file_changes_summary :: "change_summary list \<Rightarrow> ustr" where
  "file_changes_summary changes = join (lit ''; '') (map summary_line changes)"

section \<open>Events of a run\<close>

text \<open>Diagnostics of a request and the phases of a provider are only carried.\<close>

datatype run_event =
    SessionStarted session_id ustr
  | SessionTitleUpdated session_id ustr
  | UserTurnStored session_id user_turn
  | ModelRequestPrepared session_id nat
  | ProviderPhase response_id nat
  | WorldStateUpdated session_id world_state_snapshot ustr
  | TextDelta response_id ustr
  | AssistantMessageCommitted response_id ustr
  | ReasoningSummaryDelta response_id ustr
  | ToolCallPending tool_call_id response_id ustr ustr ustr
  | ToolCallCompleted tool_call_id tool_name ustr ustr json
  | ToolCallDeclined tool_call_id tool_name ustr json
  | ToolCallCancelled tool_call_id tool_name ustr json
  | ToolCallFailed tool_call_id tool_name ustr json
  | FileChangesRecorded tool_call_id "change_summary list"
  | CompactionCompleted nat compaction_layout "clm_checkpoint option" "ustr list" ustr "history_item_id list"
  | PermissionRequested tool_call_id tool_name ustr
  | PermissionResolved tool_call_id tool_name bool
  | RuntimeNotice session_id ustr
  | RecoverableRuntimeFeedback session_id durable_runtime_feedback
  | TurnTerminal session_id durable_turn_terminal

datatype run_event_durability = Committed | RuntimeOnly

fun durability :: "run_event \<Rightarrow> run_event_durability" where
  "durability (ProviderPhase _ _) = RuntimeOnly"
| "durability (TextDelta _ _) = RuntimeOnly"
| "durability (ReasoningSummaryDelta _ _) = RuntimeOnly"
| "durability (RuntimeNotice _ _) = RuntimeOnly"
| "durability _ = Committed"

fun event_session_id :: "run_event \<Rightarrow> session_id option" where
  "event_session_id (SessionStarted s _) = Some s"
| "event_session_id (SessionTitleUpdated s _) = Some s"
| "event_session_id (UserTurnStored s _) = Some s"
| "event_session_id (ModelRequestPrepared s _) = Some s"
| "event_session_id (WorldStateUpdated s _ _) = Some s"
| "event_session_id (RuntimeNotice s _) = Some s"
| "event_session_id (RecoverableRuntimeFeedback s _) = Some s"
| "event_session_id (TurnTerminal s _) = Some s"
| "event_session_id _ = None"

section \<open>What observers and surfaces get\<close>

record tool_lifecycle_envelope =
  tl_call_id :: tool_call_id
  tl_tool :: tool_name
  tl_status :: tool_lifecycle_status
  tl_title :: ustr
  tl_summary :: ustr
  tl_success :: "bool option"

datatype runtime_event_msg =
    MsgUserInputAccepted nat
  | MsgSteerInputAccepted nat "ustr option"
  | MsgInterAgentCommunicationReceived inter_agent_communication
  | MsgSubAgentActivity ustr session_id ustr sub_agent_activity_kind
  | MsgAssistantMessageCommitted response_id ustr
  | MsgModelRequestPrepared nat
  | MsgWorldStateUpdated world_state_snapshot
  | MsgToolLifecycle tool_lifecycle_envelope
  | MsgApprovalRequested tool_call_id tool_name ustr
  | MsgApprovalResolved tool_call_id tool_name permission_decision
  | MsgContextCompacted history_item_id compaction_mode
  | MsgFileChangesRecorded tool_call_id "ulid list" ustr
  | MsgWarning ustr
  | MsgDurableFeedback durable_runtime_feedback
  | MsgTurnTerminal durable_turn_terminal

record runtime_event =
  re_id :: ulid
  re_session_id :: session_id
  re_turn_id :: turn_id
  re_sequence_no :: int
  re_created_at_ms :: int
  re_msg :: runtime_event_msg

datatype plan_step_status = StepPending | StepInProgress | StepCompleted

record plan_step =
  ps_step :: ustr
  ps_status :: plan_step_status

datatype turn_item_payload =
    ItemUserMessage ustr
  | ItemSteerMessage ustr
  | ItemInterAgentCommunication inter_agent_communication
  | ItemSubAgentActivity ustr session_id ustr sub_agent_activity_kind
  | ItemAgentMessage ustr
  | ItemPlan "tool_call_id option" "ustr option" "plan_step list"
  | ItemWorldState ustr
  | ItemToolStatus tool_call_id tool_name tool_lifecycle_status ustr ustr
  | ItemFileChange tool_call_id "ulid list" "file_change_evidence list" ustr
  | ItemContextCompaction ustr
  | ItemApprovalRequest tool_call_id ustr
  | ItemWarning ustr
  | ItemError ustr
  | ItemDurableFeedback durable_runtime_feedback
  | ItemTerminal turn_terminal_outcome

record turn_item =
  ti_id :: ulid
  ti_session_id :: session_id
  ti_turn_id :: turn_id
  ti_source_item_id :: "history_item_id option"
  ti_sequence_no :: int
  ti_payload :: turn_item_payload

section \<open>Reading metadata\<close>

definition metadata_success :: "json \<Rightarrow> bool option" where
  "metadata_success metadata =
     (case opt_and_then (opt_and_then (json_get (lit ''tool_metadata'') metadata) (json_get (lit ''success''))) as_bool of
        Some b \<Rightarrow> Some b
      | None \<Rightarrow> opt_and_then (json_get (lit ''success'') metadata) as_bool)"

definition completed_tool_display_status :: "json \<Rightarrow> tool_lifecycle_status" where
  "completed_tool_display_status metadata =
     (if metadata_success metadata = Some False then Failed else Completed)"

definition permission_decision_of :: "bool \<Rightarrow> permission_decision" where
  "permission_decision_of approved =
     (if approved then PermissionApproved else PermissionDenied (lit ''permission denied by user''))"

text \<open>The derived reading of the steps of a plan is the argument \<open>read_plan\<close>.\<close>

definition plan_from_metadata ::
  "(json \<Rightarrow> plan_step list option) \<Rightarrow> json \<Rightarrow> (ustr option \<times> plan_step list) option" where
  "plan_from_metadata read_plan metadata =
     (let v = (case json_get (lit ''tool_metadata'') metadata of None \<Rightarrow> metadata | Some m \<Rightarrow> m);
          explanation = opt_and_then (opt_and_then (json_get (lit ''explanation'') v) as_str)
            (\<lambda>s. if trim s = [] then None else Some (trim s))
      in case opt_and_then (json_get (lit ''plan'') v) read_plan of
           None \<Rightarrow> None
         | Some plan \<Rightarrow>
             if list_ex (\<lambda>item. trim (ps_step item) = []) plan \<or>
                1 < length (filter (\<lambda>item. ps_status item = StepInProgress) plan)
             then None
             else Some (explanation, plan))"

definition part_display :: "content_part \<Rightarrow> ustr" where
  "part_display part =
     (case part of
        CText s \<Rightarrow> s
      | CImage img \<Rightarrow>
          (case img_source_path img of
             Some path \<Rightarrow> path @ lit '' ('' @ show_nat (img_byte_len img) @ lit '' bytes)''
           | None \<Rightarrow> lit ''image attachment ('' @ show_nat (img_byte_len img) @ lit '' bytes)''))"

definition user_turn_text :: "user_turn \<Rightarrow> ustr" where
  "user_turn_text turn = join [10] (map part_display (content_parts turn))"

section \<open>The projection\<close>

text \<open>The identities and times one projection draws.\<close>

record fresh_values =
  fv_history_item_id :: history_item_id
  fv_runtime_event_id :: ulid
  fv_turn_item_id :: ulid
  fv_fallback_item_id :: history_item_id
  fv_history_ms :: int
  fv_runtime_ms :: int

definition history_payload :: "run_event \<Rightarrow> history_item_payload option" where
  "history_payload event =
     (case event of
        TextDelta _ _ \<Rightarrow> None
      | ProviderPhase _ _ \<Rightarrow> None
      | ReasoningSummaryDelta _ _ \<Rightarrow> None
      | SessionStarted _ _ \<Rightarrow> None
      | SessionTitleUpdated _ _ \<Rightarrow> None
      | RuntimeNotice _ _ \<Rightarrow> None
      | PermissionRequested _ _ _ \<Rightarrow> None
      | TurnTerminal _ _ \<Rightarrow> None
      | AssistantMessageCommitted response_id txt \<Rightarrow> Some (AssistantMessage response_id [CText txt])
      | ModelRequestPrepared _ diagnostics \<Rightarrow> Some (RequestDiagnostics diagnostics)
      | WorldStateUpdated _ snapshot rendered \<Rightarrow> Some (WorldState snapshot rendered)
      | ToolCallPending call response_id model_call_id name arguments \<Rightarrow>
          Some (ToolCall call response_id model_call_id name arguments)
      | ToolCallCompleted call _ title summary0 metadata \<Rightarrow>
          Some (ToolOutput call Completed title summary0 metadata
                  (Some (case metadata_success metadata of None \<Rightarrow> True | Some b \<Rightarrow> b)))
      | ToolCallDeclined call _ reason metadata \<Rightarrow>
          Some (ToolOutput call Declined (lit ''Tool declined'') reason metadata (Some False))
      | ToolCallCancelled call _ reason metadata \<Rightarrow>
          Some (ToolOutput call tool_lifecycle_status.Cancelled (lit ''Tool cancelled'') reason metadata (Some False))
      | ToolCallFailed call _ err metadata \<Rightarrow>
          Some (ToolOutput call Failed (lit ''Tool failed'') err metadata (Some False))
      | FileChangesRecorded call changes \<Rightarrow>
          Some (FileChange call (map cs_change_id changes) (map file_change_evidence_of changes)
                  (file_changes_summary changes))
      | CompactionCompleted summarized layout checkpoint preserved summary0 replaced \<Rightarrow>
          Some (Compaction Automatic layout preserved checkpoint
                  (if trim summary0 = [] then lit ''summarized '' @ show_nat summarized @ lit '' messages''
                   else summary0)
                  replaced)
      | PermissionResolved call _ approved \<Rightarrow> Some (ApprovalDecision call (permission_decision_of approved))
      | RecoverableRuntimeFeedback _ feedback \<Rightarrow> Some (DurableFeedback feedback)
      | UserTurnStored _ turn \<Rightarrow>
          Some (UserTurn (content_parts turn) (ut_prompt_dispatch turn) (ut_editor_context turn)))"

definition project_history_item ::
  "fresh_values \<Rightarrow> run_event \<Rightarrow> session_id \<Rightarrow> turn_id \<Rightarrow> int \<Rightarrow> history_item option" where
  "project_history_item fv event session turn sequence_no =
     map_option (\<lambda>payload.
         \<lparr>hi_id = fv_history_item_id fv, hi_session_id = session, hi_scope = Turn turn,
          hi_sequence_no = sequence_no, hi_created_at_ms = fv_history_ms fv, hi_payload = payload\<rparr>)
       (history_payload event)"

definition turn_payload ::
  "(json \<Rightarrow> plan_step list option) \<Rightarrow> run_event \<Rightarrow> turn_item_payload option" where
  "turn_payload read_plan event =
     (case event of
        TextDelta _ _ \<Rightarrow> None
      | ProviderPhase _ _ \<Rightarrow> None
      | ReasoningSummaryDelta _ _ \<Rightarrow> None
      | SessionStarted _ _ \<Rightarrow> None
      | SessionTitleUpdated _ _ \<Rightarrow> None
      | RuntimeNotice _ _ \<Rightarrow> None
      | ModelRequestPrepared _ _ \<Rightarrow> None
      | AssistantMessageCommitted _ txt \<Rightarrow> Some (ItemAgentMessage txt)
      | ToolCallPending call _ _ name _ \<Rightarrow> Some (ItemToolStatus call (tool_parse name) Pending name [])
      | ToolCallCompleted call tool title summary0 metadata \<Rightarrow>
          (case (if tool = ToolUpdatePlan then plan_from_metadata read_plan metadata else None) of
             Some (explanation, plan) \<Rightarrow> Some (ItemPlan (Some call) explanation plan)
           | None \<Rightarrow> Some (ItemToolStatus call tool (completed_tool_display_status metadata) title summary0))
      | ToolCallDeclined call tool reason _ \<Rightarrow>
          Some (ItemToolStatus call tool Declined (lit ''Tool declined'') reason)
      | ToolCallCancelled call tool reason _ \<Rightarrow>
          Some (ItemToolStatus call tool tool_lifecycle_status.Cancelled (lit ''Tool cancelled'') reason)
      | ToolCallFailed call tool err _ \<Rightarrow>
          Some (ItemToolStatus call tool Failed (lit ''Tool failed'') err)
      | FileChangesRecorded call changes \<Rightarrow>
          Some (ItemFileChange call (map cs_change_id changes) (map file_change_evidence_of changes)
                  (file_changes_summary changes))
      | CompactionCompleted _ _ _ _ summary0 _ \<Rightarrow> Some (ItemContextCompaction summary0)
      | PermissionRequested call _ summary0 \<Rightarrow> Some (ItemApprovalRequest call summary0)
      | PermissionResolved _ _ _ \<Rightarrow> None
      | RecoverableRuntimeFeedback _ feedback \<Rightarrow> Some (ItemDurableFeedback feedback)
      | TurnTerminal _ terminal \<Rightarrow> Some (ItemTerminal (dt_outcome terminal))
      | UserTurnStored _ turn \<Rightarrow> Some (ItemUserMessage (user_turn_text turn))
      | WorldStateUpdated _ snapshot _ \<Rightarrow>
          Some (ItemWorldState (lit ''world state updated: '' @ show_nat (section_count snapshot) @
                  lit '' sections'')))"

definition project_turn_item_for_run_event ::
  "(json \<Rightarrow> plan_step list option) \<Rightarrow> fresh_values \<Rightarrow> run_event \<Rightarrow> session_id \<Rightarrow> turn_id \<Rightarrow> int \<Rightarrow>
   turn_item option" where
  "project_turn_item_for_run_event read_plan fv event session turn sequence_no =
     map_option (\<lambda>payload.
         \<lparr>ti_id = fv_turn_item_id fv, ti_session_id = session, ti_turn_id = turn,
          ti_source_item_id = None, ti_sequence_no = sequence_no, ti_payload = payload\<rparr>)
       (turn_payload read_plan event)"

definition lifecycle ::
  "tool_call_id \<Rightarrow> tool_name \<Rightarrow> tool_lifecycle_status \<Rightarrow> ustr \<Rightarrow> ustr \<Rightarrow> bool option \<Rightarrow> runtime_event_msg" where
  "lifecycle call tool status title summary0 success =
     MsgToolLifecycle \<lparr>tl_call_id = call, tl_tool = tool, tl_status = status, tl_title = title,
                       tl_summary = summary0, tl_success = success\<rparr>"

text \<open>\<open>None\<close> is \<open>unreachable!\<close>.\<close>

definition project_runtime_message ::
  "fresh_values \<Rightarrow> run_event \<Rightarrow> history_item option \<Rightarrow> runtime_event_msg option" where
  "project_runtime_message fv event item =
     (case event of
        ProviderPhase _ _ \<Rightarrow> None
      | TextDelta _ _ \<Rightarrow> None
      | ReasoningSummaryDelta _ _ \<Rightarrow> None
      | SessionStarted _ title \<Rightarrow> Some (MsgWarning (lit ''thread started: '' @ title))
      | SessionTitleUpdated _ title \<Rightarrow> Some (MsgWarning (lit ''thread title updated: '' @ title))
      | UserTurnStored _ turn \<Rightarrow> Some (MsgUserInputAccepted (length (ut_items turn)))
      | ModelRequestPrepared _ diagnostics \<Rightarrow> Some (MsgModelRequestPrepared diagnostics)
      | WorldStateUpdated _ snapshot _ \<Rightarrow> Some (MsgWorldStateUpdated snapshot)
      | AssistantMessageCommitted response_id txt \<Rightarrow> Some (MsgAssistantMessageCommitted response_id txt)
      | ToolCallPending call _ _ name _ \<Rightarrow> Some (lifecycle call (tool_parse name) Pending name [] None)
      | ToolCallCompleted call tool title summary0 metadata \<Rightarrow>
          Some (lifecycle call tool Completed title summary0
                  (Some (case metadata_success metadata of None \<Rightarrow> True | Some b \<Rightarrow> b)))
      | ToolCallDeclined call tool reason _ \<Rightarrow>
          Some (lifecycle call tool Declined (lit ''Tool declined'') reason (Some False))
      | ToolCallCancelled call tool reason _ \<Rightarrow>
          Some (lifecycle call tool tool_lifecycle_status.Cancelled (lit ''Tool cancelled'') reason (Some False))
      | ToolCallFailed call tool err _ \<Rightarrow>
          Some (lifecycle call tool Failed (lit ''Tool failed'') err (Some False))
      | FileChangesRecorded call changes \<Rightarrow>
          Some (MsgFileChangesRecorded call (map cs_change_id changes) (file_changes_summary changes))
      | CompactionCompleted _ _ _ _ _ _ \<Rightarrow>
          Some (MsgContextCompacted (case item of None \<Rightarrow> fv_fallback_item_id fv | Some it \<Rightarrow> hi_id it) Automatic)
      | PermissionRequested call tool summary0 \<Rightarrow> Some (MsgApprovalRequested call tool summary0)
      | PermissionResolved call tool approved \<Rightarrow>
          Some (MsgApprovalResolved call tool (permission_decision_of approved))
      | RuntimeNotice _ message \<Rightarrow> Some (MsgWarning message)
      | RecoverableRuntimeFeedback _ feedback \<Rightarrow> Some (MsgDurableFeedback feedback)
      | TurnTerminal _ terminal \<Rightarrow> Some (MsgTurnTerminal terminal))"

record protocol_run_event_projection =
  pp_runtime_event :: runtime_event
  pp_history_item :: "history_item option"
  pp_turn_item :: "turn_item option"

text \<open>The outer \<open>None\<close> is a panic, the inner one \<open>None\<close> of the source.\<close>

definition project_protocol_run_event ::
  "(json \<Rightarrow> plan_step list option) \<Rightarrow> fresh_values \<Rightarrow> run_event \<Rightarrow> session_id option \<Rightarrow> turn_id \<Rightarrow> int \<Rightarrow>
   protocol_run_event_projection option option" where
  "project_protocol_run_event read_plan fv event fallback turn sequence_no =
     (if durability event = RuntimeOnly then Some None
      else case (case event_session_id event of Some s \<Rightarrow> Some s | None \<Rightarrow> fallback) of
        None \<Rightarrow> Some None
      | Some session \<Rightarrow>
          let item = project_history_item fv event session turn sequence_no;
              shown = project_turn_item_for_run_event read_plan fv event session turn sequence_no;
              shown' = (case item of None \<Rightarrow> shown
                        | Some it \<Rightarrow> map_option (\<lambda>t. t\<lparr>ti_source_item_id := Some (hi_id it)\<rparr>) shown)
          in map_option (\<lambda>msg.
               Some \<lparr>pp_runtime_event =
                       \<lparr>re_id = fv_runtime_event_id fv, re_session_id = session, re_turn_id = turn,
                        re_sequence_no = sequence_no, re_created_at_ms = fv_runtime_ms fv, re_msg = msg\<rparr>,
                     pp_history_item = item, pp_turn_item = shown'\<rparr>)
             (project_runtime_message fv event item))"

definition project_inter_agent_communication ::
  "fresh_values \<Rightarrow> session_id \<Rightarrow> turn_id \<Rightarrow> int \<Rightarrow> history_item_id \<Rightarrow> inter_agent_communication \<Rightarrow>
   protocol_run_event_projection" where
  "project_inter_agent_communication fv session turn sequence_no item_id communication =
     \<lparr>pp_runtime_event =
        \<lparr>re_id = fv_runtime_event_id fv, re_session_id = session, re_turn_id = turn,
         re_sequence_no = sequence_no, re_created_at_ms = fv_runtime_ms fv,
         re_msg = MsgInterAgentCommunicationReceived communication\<rparr>,
      pp_history_item = Some
        \<lparr>hi_id = item_id, hi_session_id = session, hi_scope = Turn turn, hi_sequence_no = sequence_no,
         hi_created_at_ms = fv_runtime_ms fv, hi_payload = InterAgentCommunication communication\<rparr>,
      pp_turn_item = Some
        \<lparr>ti_id = fv_turn_item_id fv, ti_session_id = session, ti_turn_id = turn,
         ti_source_item_id = Some item_id, ti_sequence_no = sequence_no,
         ti_payload = ItemInterAgentCommunication communication\<rparr>\<rparr>"

definition project_sub_agent_activity ::
  "fresh_values \<Rightarrow> session_id \<Rightarrow> turn_id \<Rightarrow> int \<Rightarrow> ustr \<Rightarrow> session_id \<Rightarrow> ustr \<Rightarrow> sub_agent_activity_kind \<Rightarrow>
   protocol_run_event_projection" where
  "project_sub_agent_activity fv session turn sequence_no activity agent path kind =
     \<lparr>pp_runtime_event =
        \<lparr>re_id = fv_runtime_event_id fv, re_session_id = session, re_turn_id = turn,
         re_sequence_no = sequence_no, re_created_at_ms = fv_runtime_ms fv,
         re_msg = MsgSubAgentActivity activity agent path kind\<rparr>,
      pp_history_item = Some
        \<lparr>hi_id = fv_history_item_id fv, hi_session_id = session, hi_scope = Turn turn,
         hi_sequence_no = sequence_no, hi_created_at_ms = fv_runtime_ms fv,
         hi_payload = SubAgentActivity activity agent path kind\<rparr>,
      pp_turn_item = Some
        \<lparr>ti_id = fv_turn_item_id fv, ti_session_id = session, ti_turn_id = turn,
         ti_source_item_id = Some (fv_history_item_id fv), ti_sequence_no = sequence_no,
         ti_payload = ItemSubAgentActivity activity agent path kind\<rparr>\<rparr>"

section \<open>Display roles\<close>

datatype turn_item_projection_role =
    UserVisibleMessage
  | AssistantVisibleMessage
  | RuntimeProjection
  | RuntimeControl
  | ToolLifecycleEvidence
  | FileEvidence
  | MemoryContinuity
  | ApprovalEvidence
  | RuntimeDiagnostic
  | RuntimeErrorRole
  | TerminalOutcome

fun projection_role :: "turn_item_payload \<Rightarrow> turn_item_projection_role" where
  "projection_role (ItemUserMessage _) = UserVisibleMessage"
| "projection_role (ItemSteerMessage _) = UserVisibleMessage"
| "projection_role (ItemAgentMessage _) = AssistantVisibleMessage"
| "projection_role (ItemInterAgentCommunication _) = AssistantVisibleMessage"
| "projection_role (ItemPlan _ _ _) = RuntimeProjection"
| "projection_role (ItemWorldState _) = RuntimeProjection"
| "projection_role (ItemSubAgentActivity _ _ _ _) = RuntimeControl"
| "projection_role (ItemToolStatus _ _ _ _ _) = ToolLifecycleEvidence"
| "projection_role (ItemFileChange _ _ _ _) = FileEvidence"
| "projection_role (ItemContextCompaction _) = MemoryContinuity"
| "projection_role (ItemApprovalRequest _ _) = ApprovalEvidence"
| "projection_role (ItemWarning _) = RuntimeDiagnostic"
| "projection_role (ItemError _) = RuntimeErrorRole"
| "projection_role (ItemDurableFeedback feedback) =
     (case drf_severity feedback of ErrorFeedback \<Rightarrow> RuntimeErrorRole | _ \<Rightarrow> RuntimeDiagnostic)"
| "projection_role (ItemTerminal _) = TerminalOutcome"

definition is_internal_projection_only :: "turn_item_payload \<Rightarrow> bool" where
  "is_internal_projection_only payload =
     (projection_role payload = RuntimeProjection \<or> projection_role payload = RuntimeControl)"

definition turn_order :: "turn_item list \<Rightarrow> turn_id list" where
  "turn_order items =
     foldl (\<lambda>order item. if ti_turn_id item \<in> set order then order else order @ [ti_turn_id item]) [] items"

text \<open>
  The position of a turn in the order of its first item; every turn has one. The sort by the key
  (turn, sequence number, id) is three stable sorts.
\<close>

definition turn_items_in_projection_order :: "turn_item list \<Rightarrow> turn_item list" where
  "turn_items_in_projection_order items =
     (let order = turn_order items in
      sort_key (\<lambda>item. length (takeWhile (\<lambda>t. t \<noteq> ti_turn_id item) order))
        (sort_key ti_sequence_no (sort_key ti_id items)))"

section \<open>Facts\<close>

lemma committed_events_have_a_message:
  "durability event = Committed \<Longrightarrow> project_runtime_message fv event item \<noteq> None"
  by (cases event) (simp_all add: project_runtime_message_def)

lemma tool_parse_display: "tool_parse (tool_display t) = t"
  by (cases t) (simp_all add: tool_parse_def lit_def)

end
