(* ===== verification/Protocol_Store.thy ===== *)
theory Protocol_Store
  imports Run_Events
begin

text \<open>
  The part of \<open>src/src/protocol/store.rs\<close> that writes and reads the canonical protocol: the tables of
  runtime events, history items and turn items, the order of appends that spans them, and the
  allocators of sequence numbers. A table is the list of its rows, a statement is a function on the
  tables: an \<open>INSERT\<close> that violates a primary key or a unique index fails, \<open>INSERT OR IGNORE\<close> skips the
  row, an error in a transaction leaves the tables as they were. Triggers, foreign keys and the disk may refuse a
  row for further reasons: \<open>refused\<close> is an arbitrary predicate on rows. Payloads are stored as JSON and
  read back; the tables hold the values.
\<close>

section \<open>Tables\<close>

datatype source_kind = EventSource | HistorySource | TurnSource | MailboxSource

record append_row =
  ap_position :: int
  ap_session_id :: session_id
  ap_scope :: history_scope
  ap_sequence_no :: int
  ap_source_kind :: source_kind
  ap_source_id :: ulid
  ap_created_at_ms :: int

record stop_fence =
  sf_root_session_id :: session_id
  sf_stopped_session_id :: session_id
  sf_after_append_position :: int

record spawn_edge =
  se_root_session_id :: session_id
  se_parent_session_id :: session_id
  se_child_session_id :: session_id
  se_agent_path :: ustr

record protocol_db =
  db_events :: "runtime_event list"
  db_history :: "history_item list"
  db_turns :: "turn_item list"
  db_append :: "append_row list"
  db_next_position :: int
  db_allocators :: "(session_id \<times> turn_id, int) hmap"
  db_fences :: "stop_fence list"
  db_edges :: "spawn_edge list"
  db_steer_inputs :: "history_item list"

definition empty_protocol_db :: protocol_db where
  "empty_protocol_db =
     \<lparr>db_events = [], db_history = [], db_turns = [], db_append = [], db_next_position = 1,
      db_allocators = [], db_fences = [], db_edges = [], db_steer_inputs = []\<rparr>"

datatype db_row =
    EventRow runtime_event
  | HistoryRow history_item
  | TurnRow turn_item
  | AppendOrderRow append_row
  | AllocatorRow session_id turn_id int
  | SteerInputRow history_item

text \<open>The errors of the store, with what their messages mention.\<close>

datatype storage_error =
    DatabaseRefused
  | SequenceOverflow
  | BundleSessionMismatch
  | BundleTurnMismatch
  | BundleSourceMismatch
  | SinkCannotOwn ustr
  | InvalidHistoryPayload layout_error
  | StaleSubAgentOwner
  | PageLimitZero
  | PageLimitTooLarge nat
  | AppendOrderInvariantFailed session_id
  | SourceLimitZero
  | SourceLimitExceeded nat
  | NonModeItem session_id
  | TraversalStuck session_id
  | TraversalBeyond session_id
  | TraversalShort session_id
  | HistoryFenceChanged session_id
  | ActiveExceedsCanonical session_id
  | ActiveLimitZero
  | ActiveLimitExceeded nat
  | UnresolvedItems session_id
  | ProjectionCursorStuck session_id
  | ItemQueryTooLarge nat
  | ForkSameSession
  | ForkZeroTurns
  | ForkSourceMissing session_id
  | ForkTargetMissing session_id
  | ForkTargetNotEmpty session_id
  | ForkMappingMissing history_item_id
  | ForkMappingCount nat nat
  | ForkSourceFenceChanged session_id
  | ForkedSteerNotScoped history_item_id
  | SharedHistoryInvalid
  | ForkDuplicateTerminal turn_id
  | ForkResponseAfterTerminal response_id turn_id
  | ForkNotLatestResponse response_id turn_id
  | ForkMissingResponse response_id turn_id
  | ForkNotPlainAnswer response_id turn_id

definition MAX_PROTOCOL_PAGE_LIMIT :: nat where "MAX_PROTOCOL_PAGE_LIMIT = 200"

definition I64_MAX :: int where "I64_MAX = 2 ^ 63 - 1"

definition i64_saturating_succ :: "int \<Rightarrow> int" where
  "i64_saturating_succ n = min (n + 1) I64_MAX"

section \<open>Inserting rows\<close>

text \<open>
  \<open>INSERT OR IGNORE\<close> into the append order: a row that exists, or one that its checks do not allow, is
  skipped. Positions are assigned by the table and never reused.
\<close>

definition append_row_allowed :: "source_kind \<Rightarrow> history_scope \<Rightarrow> int \<Rightarrow> bool" where
  "append_row_allowed kind scope sequence_no \<longleftrightarrow>
     0 \<le> sequence_no \<and>
     (case scope of Turn _ \<Rightarrow> kind \<noteq> MailboxSource | Session \<Rightarrow> kind \<in> {HistorySource, MailboxSource})"

definition insert_protocol_append_order ::
  "(db_row \<Rightarrow> bool) \<Rightarrow> protocol_db \<Rightarrow> session_id \<Rightarrow> history_scope \<Rightarrow> int \<Rightarrow> source_kind \<Rightarrow> ulid \<Rightarrow> int \<Rightarrow>
   (protocol_db, storage_error) result" where
  "insert_protocol_append_order refused db session scope sequence_no kind source_id created_at_ms =
     (let row = \<lparr>ap_position = db_next_position db, ap_session_id = session, ap_scope = scope,
                 ap_sequence_no = sequence_no, ap_source_kind = kind, ap_source_id = source_id,
                 ap_created_at_ms = created_at_ms\<rparr>
      in if refused (AppendOrderRow row) then Err DatabaseRefused
         else if list_ex (\<lambda>a. ap_source_kind a = kind \<and> ap_source_id a = source_id) (db_append db) \<or>
                 \<not> append_row_allowed kind scope sequence_no
         then Ok db
         else Ok (db\<lparr>db_append := db_append db @ [row], db_next_position := db_next_position db + 1\<rparr>))"

fun is_terminal_msg :: "runtime_event_msg \<Rightarrow> bool" where
  "is_terminal_msg (MsgTurnTerminal _) = True"
| "is_terminal_msg _ = False"

text \<open>The primary key, the unique index on the sequence and the one terminal of a turn.\<close>

definition event_conflicts :: "runtime_event \<Rightarrow> runtime_event \<Rightarrow> bool" where
  "event_conflicts e e' \<longleftrightarrow>
     re_id e' = re_id e \<or>
     re_session_id e' = re_session_id e \<and> re_turn_id e' = re_turn_id e \<and>
       (re_sequence_no e' = re_sequence_no e \<or> is_terminal_msg (re_msg e') \<and> is_terminal_msg (re_msg e))"

definition insert_runtime_event ::
  "(db_row \<Rightarrow> bool) \<Rightarrow> protocol_db \<Rightarrow> runtime_event \<Rightarrow> (protocol_db, storage_error) result" where
  "insert_runtime_event refused db e =
     (if refused (EventRow e) \<or> list_ex (event_conflicts e) (db_events db) then Err DatabaseRefused
      else insert_protocol_append_order refused (db\<lparr>db_events := db_events db @ [e]\<rparr>)
             (re_session_id e) (Turn (re_turn_id e)) (re_sequence_no e) EventSource (re_id e)
             (re_created_at_ms e))"

definition history_conflicts :: "history_item \<Rightarrow> history_item \<Rightarrow> bool" where
  "history_conflicts h h' \<longleftrightarrow>
     hi_id h' = hi_id h \<or>
     hi_session_id h' = hi_session_id h \<and> hi_scope h' = hi_scope h \<and> hi_sequence_no h' = hi_sequence_no h"

definition insert_history_item ::
  "(db_row \<Rightarrow> bool) \<Rightarrow> protocol_db \<Rightarrow> history_item \<Rightarrow> (protocol_db, storage_error) result" where
  "insert_history_item refused db h =
     (case validate_compaction_checkpoint (hi_payload h) of
        Inl e \<Rightarrow> Err (InvalidHistoryPayload e)
      | Inr _ \<Rightarrow>
          if refused (HistoryRow h) \<or> hi_sequence_no h < 0 \<or> list_ex (history_conflicts h) (db_history db)
          then Err DatabaseRefused
          else insert_protocol_append_order refused (db\<lparr>db_history := db_history db @ [h]\<rparr>)
                 (hi_session_id h) (hi_scope h) (hi_sequence_no h) HistorySource (hi_id h)
                 (hi_created_at_ms h))"

definition turn_conflicts :: "turn_item \<Rightarrow> turn_item \<Rightarrow> bool" where
  "turn_conflicts t t' \<longleftrightarrow>
     ti_id t' = ti_id t \<or>
     ti_session_id t' = ti_session_id t \<and> ti_turn_id t' = ti_turn_id t \<and> ti_sequence_no t' = ti_sequence_no t"

definition insert_turn_item ::
  "(db_row \<Rightarrow> bool) \<Rightarrow> protocol_db \<Rightarrow> turn_item \<Rightarrow> (protocol_db, storage_error) result" where
  "insert_turn_item refused db t =
     (if refused (TurnRow t) \<or> list_ex (turn_conflicts t) (db_turns db) then Err DatabaseRefused
      else insert_protocol_append_order refused (db\<lparr>db_turns := db_turns db @ [t]\<rparr>)
             (ti_session_id t) (Turn (ti_turn_id t)) (ti_sequence_no t) TurnSource (ti_id t) 0)"

section \<open>Sequence numbers\<close>

definition turn_sequence_numbers :: "protocol_db \<Rightarrow> session_id \<Rightarrow> turn_id \<Rightarrow> int list" where
  "turn_sequence_numbers db session turn =
     map re_sequence_no (filter (\<lambda>e. re_session_id e = session \<and> re_turn_id e = turn) (db_events db)) @
     map hi_sequence_no (filter (\<lambda>h. hi_session_id h = session \<and> hi_scope h = Turn turn) (db_history db)) @
     map ti_sequence_no (filter (\<lambda>t. ti_session_id t = session \<and> ti_turn_id t = turn) (db_turns db))"

text \<open>\<open>MAX\<close>, with the default of the source for no row.\<close>

definition max_or :: "int \<Rightarrow> int list \<Rightarrow> int" where
  "max_or d xs = (if xs = [] then d else Max (set xs))"

text \<open>
  An allocator is inserted or moved forward; the claimed number is its value before. SQLite leaves
  the integers where its addition would overflow, so that the number cannot be read.
\<close>

definition claim_protocol_sequence_in_transaction ::
  "(db_row \<Rightarrow> bool) \<Rightarrow> protocol_db \<Rightarrow> session_id \<Rightarrow> turn_id \<Rightarrow> int \<Rightarrow>
   (protocol_db \<times> int, storage_error) result" where
  "claim_protocol_sequence_in_transaction refused db session turn requested =
     (let stored_max = max_or (- 1) (turn_sequence_numbers db session turn);
          sequence_floor = max (max requested 0) (i64_saturating_succ stored_max);
          claimed = (case hm_get (db_allocators db) (session, turn) of
                       None \<Rightarrow> sequence_floor | Some next_no \<Rightarrow> max next_no sequence_floor)
      in if refused (AllocatorRow session turn (claimed + 1)) then Err DatabaseRefused
         else if I64_MAX < claimed + 1 then Err SequenceOverflow
         else Ok (db\<lparr>db_allocators := hm_insert (session, turn) (claimed + 1) (db_allocators db)\<rparr>, claimed))"

definition claim_session_history_sequence_in_transaction :: "protocol_db \<Rightarrow> session_id \<Rightarrow> int \<Rightarrow> int" where
  "claim_session_history_sequence_in_transaction db session requested =
     max (max requested 0)
       (i64_saturating_succ (max_or (- 1) (map hi_sequence_no
          (filter (\<lambda>h. hi_session_id h = session \<and> hi_scope h = Session) (db_history db)))))"

section \<open>Bundles\<close>

definition validate_event_history_identity ::
  "runtime_event \<Rightarrow> history_item \<Rightarrow> (unit, storage_error) result" where
  "validate_event_history_identity e h =
     (if re_session_id e \<noteq> hi_session_id h then Err BundleSessionMismatch
      else if hi_scope h \<noteq> Turn (re_turn_id e) then Err BundleTurnMismatch
      else Ok ())"

definition validate_event_turn_identity :: "runtime_event \<Rightarrow> turn_item \<Rightarrow> (unit, storage_error) result" where
  "validate_event_turn_identity e t =
     (if re_session_id e \<noteq> ti_session_id t then Err BundleSessionMismatch
      else if re_turn_id e \<noteq> ti_turn_id t then Err BundleTurnMismatch
      else Ok ())"

definition validate_history_turn_bundle_coherence ::
  "history_item \<Rightarrow> turn_item \<Rightarrow> (unit, storage_error) result" where
  "validate_history_turn_bundle_coherence h t =
     (if hi_session_id h \<noteq> ti_session_id t then Err BundleSessionMismatch
      else if hi_scope h \<noteq> Turn (ti_turn_id t) then Err BundleTurnMismatch
      else if ti_source_item_id t \<noteq> Some (hi_id h) then Err BundleSourceMismatch
      else Ok ())"

definition if_some :: "'a option \<Rightarrow> ('a \<Rightarrow> (unit, 'e) result) \<Rightarrow> (unit, 'e) result" where
  "if_some x f = (case x of None \<Rightarrow> Ok () | Some y \<Rightarrow> f y)"

definition validate_event_bundle_coherence ::
  "runtime_event \<Rightarrow> history_item option \<Rightarrow> turn_item option \<Rightarrow> (unit, storage_error) result" where
  "validate_event_bundle_coherence e h t =
     and_then (if_some h (validate_event_history_identity e)) (\<lambda>_.
     and_then (if_some t (validate_event_turn_identity e)) (\<lambda>_.
     (case (h, t) of
        (Some h', Some t') \<Rightarrow> validate_history_turn_bundle_coherence h' t'
      | _ \<Rightarrow> Ok ())))"

record stored_protocol_event_bundle =
  sb_runtime_event :: runtime_event
  sb_history_item :: "history_item option"

definition insert_if_some ::
  "(protocol_db \<Rightarrow> 'a \<Rightarrow> (protocol_db, storage_error) result) \<Rightarrow> protocol_db \<Rightarrow> 'a option \<Rightarrow>
   (protocol_db, storage_error) result" where
  "insert_if_some ins db x = (case x of None \<Rightarrow> Ok db | Some y \<Rightarrow> ins db y)"

definition insert_event_bundle_unchecked ::
  "(db_row \<Rightarrow> bool) \<Rightarrow> protocol_db \<Rightarrow> runtime_event \<Rightarrow> history_item option \<Rightarrow> turn_item option \<Rightarrow>
   (protocol_db \<times> stored_protocol_event_bundle, storage_error) result" where
  "insert_event_bundle_unchecked refused db e h t =
     and_then (validate_event_bundle_coherence e h t) (\<lambda>_.
     and_then (claim_protocol_sequence_in_transaction refused db (re_session_id e) (re_turn_id e)
                 (re_sequence_no e)) (\<lambda>(db1, sequence_no).
     let e' = e\<lparr>re_sequence_no := sequence_no\<rparr>;
         h' = map_option (\<lambda>h. h\<lparr>hi_sequence_no := sequence_no\<rparr>) h;
         t' = map_option (\<lambda>t. t\<lparr>ti_sequence_no := sequence_no\<rparr>) t
     in and_then (insert_runtime_event refused db1 e') (\<lambda>db2.
        and_then (insert_if_some (insert_history_item refused) db2 h') (\<lambda>db3.
        and_then (insert_if_some (insert_turn_item refused) db3 t') (\<lambda>db4.
        Ok (db4, \<lparr>sb_runtime_event = e', sb_history_item = h'\<rparr>))))))"

fun runtime_event_kind :: "runtime_event_msg \<Rightarrow> ustr" where
  "runtime_event_kind (MsgUserInputAccepted _) = lit ''user_input_accepted''"
| "runtime_event_kind (MsgSteerInputAccepted _ _) = lit ''steer_input_accepted''"
| "runtime_event_kind (MsgInterAgentCommunicationReceived _) = lit ''inter_agent_communication_received''"
| "runtime_event_kind (MsgSubAgentActivity _ _ _ _) = lit ''sub_agent_activity''"
| "runtime_event_kind (MsgAssistantMessageCommitted _ _) = lit ''assistant_message_committed''"
| "runtime_event_kind (MsgModelRequestPrepared _) = lit ''model_request_prepared''"
| "runtime_event_kind (MsgWorldStateUpdated _) = lit ''world_state_updated''"
| "runtime_event_kind (MsgToolLifecycle _) = lit ''tool_lifecycle''"
| "runtime_event_kind (MsgApprovalRequested _ _ _) = lit ''approval_requested''"
| "runtime_event_kind (MsgApprovalResolved _ _ _) = lit ''approval_resolved''"
| "runtime_event_kind (MsgContextCompacted _ _) = lit ''context_compacted''"
| "runtime_event_kind (MsgFileChangesRecorded _ _ _) = lit ''file_changes_recorded''"
| "runtime_event_kind (MsgWarning _) = lit ''warning''"
| "runtime_event_kind (MsgDurableFeedback _) = lit ''durable_feedback''"
| "runtime_event_kind (MsgTurnTerminal _) = lit ''turn_terminal''"

definition recording_allowed ::
  "runtime_event \<Rightarrow> history_item option \<Rightarrow> turn_item option \<Rightarrow> bool" where
  "recording_allowed e h t =
     (case (re_msg e, map_option hi_payload h, map_option ti_payload t) of
        (MsgWarning _, None, None) \<Rightarrow> True
      | (MsgWarning message, Some (ErrorItem history_message), Some (ItemError turn_message)) \<Rightarrow>
          message = history_message \<and> message = turn_message
      | (MsgModelRequestPrepared _, Some (RequestDiagnostics _), None) \<Rightarrow> True
      | (MsgWorldStateUpdated _, Some (WorldState _ _), Some (ItemWorldState _)) \<Rightarrow> True
      | (MsgApprovalRequested call _ _, None, Some (ItemApprovalRequest turn_call _)) \<Rightarrow> call = turn_call
      | (MsgApprovalResolved call _ _, Some (ApprovalDecision history_call _), None) \<Rightarrow> call = history_call
      | (MsgContextCompacted item_id mode, Some (Compaction history_mode _ _ _ _ _), Some (ItemContextCompaction _)) \<Rightarrow>
          (case h of None \<Rightarrow> False | Some it \<Rightarrow> hi_id it = item_id) \<and> mode = history_mode
      | (MsgDurableFeedback feedback, Some (DurableFeedback history_feedback), Some (ItemDurableFeedback turn_feedback)) \<Rightarrow>
          feedback = history_feedback \<and> feedback = turn_feedback
      | _ \<Rightarrow> False)"

definition validate_recording_projection ::
  "runtime_event \<Rightarrow> history_item option \<Rightarrow> turn_item option \<Rightarrow> (unit, storage_error) result" where
  "validate_recording_projection e h t =
     and_then (validate_event_bundle_coherence e h t) (\<lambda>_.
       if recording_allowed e h t then Ok () else Err (SinkCannotOwn (runtime_event_kind (re_msg e))))"

definition append_recording_projection_allocating ::
  "(db_row \<Rightarrow> bool) \<Rightarrow> protocol_db \<Rightarrow> runtime_event \<Rightarrow> history_item option \<Rightarrow> turn_item option \<Rightarrow>
   (protocol_db \<times> stored_protocol_event_bundle, storage_error) result" where
  "append_recording_projection_allocating refused db e h t =
     and_then (validate_recording_projection e h t) (\<lambda>_. insert_event_bundle_unchecked refused db e h t)"

text \<open>\<open>owned\<close>: what the query for the fresh active admission of the turn returns.\<close>

definition append_admitted_recording_projection_allocating ::
  "(db_row \<Rightarrow> bool) \<Rightarrow> protocol_db \<Rightarrow> (bool, storage_error) result \<Rightarrow>
   runtime_event \<Rightarrow> history_item option \<Rightarrow> turn_item option \<Rightarrow>
   (protocol_db \<times> stored_protocol_event_bundle option, storage_error) result" where
  "append_admitted_recording_projection_allocating refused db owned e h t =
     and_then (validate_recording_projection e h t) (\<lambda>_.
     and_then owned (\<lambda>owned.
       if \<not> owned then Ok (db, None)
       else and_then (insert_event_bundle_unchecked refused db e h t) (\<lambda>(db', stored). Ok (db', Some stored))))"

definition append_sub_agent_activity ::
  "(db_row \<Rightarrow> bool) \<Rightarrow> fresh_values \<Rightarrow> protocol_db \<Rightarrow> (bool, storage_error) result \<Rightarrow> session_id \<Rightarrow> session_id \<Rightarrow>
   turn_id \<Rightarrow> ustr \<Rightarrow> session_id \<Rightarrow> ustr \<Rightarrow> sub_agent_activity_kind \<Rightarrow> (protocol_db, storage_error) result" where
  "append_sub_agent_activity refused fv db owns_caller_turn root caller turn activity agent path kind =
     and_then owns_caller_turn (\<lambda>owns_caller_turn.
       let caller_belongs_to_tree = (caller = root \<or>
             list_ex (\<lambda>e. se_root_session_id e = root \<and> se_child_session_id e = caller) (db_edges db));
           owned_lineage = (owns_caller_turn \<and> caller_belongs_to_tree \<and>
             list_ex (\<lambda>e. se_root_session_id e = root \<and> se_child_session_id e = agent \<and> se_agent_path e = path)
               (db_edges db));
           p = project_sub_agent_activity fv caller turn 0 activity agent path kind
       in if \<not> owned_lineage then Err StaleSubAgentOwner
          else and_then (insert_event_bundle_unchecked refused db (pp_runtime_event p) (pp_history_item p)
                           (pp_turn_item p)) (\<lambda>(db', _). Ok db'))"

definition insert_mailbox_append_order_in_transaction ::
  "(db_row \<Rightarrow> bool) \<Rightarrow> protocol_db \<Rightarrow> session_id \<Rightarrow> history_item_id \<Rightarrow> int \<Rightarrow>
   (protocol_db \<times> int, storage_error) result" where
  "insert_mailbox_append_order_in_transaction refused db session message_id created_at_ms =
     (let row = \<lparr>ap_position = db_next_position db, ap_session_id = session, ap_scope = Session,
                 ap_sequence_no = 0, ap_source_kind = MailboxSource, ap_source_id = message_id,
                 ap_created_at_ms = created_at_ms\<rparr>
      in if refused (AppendOrderRow row) \<or>
            list_ex (\<lambda>a. ap_source_kind a = MailboxSource \<and> ap_source_id a = message_id) (db_append db)
         then Err DatabaseRefused
         else Ok (db\<lparr>db_append := db_append db @ [row], db_next_position := db_next_position db + 1\<rparr>,
                  db_next_position db))"

end
