(* ===== verification/Protocol_Pages.thy ===== *)
theory Protocol_Pages
  imports Protocol_Store
begin

text \<open>
  Reading the canonical protocol, \<open>src/src/protocol/store.rs\<close>: rows of one session in the order of
  their appends, pages of them by offset or after a cursor, the consistency check that precedes a page,
  and the bounded traversal of a whole history. A visitor is a function on a state that may fail. A
  \<open>SELECT\<close> over a table joined with the append order lists the rows of the order and looks their items up;
  identities are primary keys, so there is at most one.
\<close>

section \<open>Rows of a session\<close>

definition order_rows :: "protocol_db \<Rightarrow> source_kind \<Rightarrow> session_id \<Rightarrow> append_row list" where
  "order_rows db kind session =
     sort_key ap_position
       (filter (\<lambda>a. ap_session_id a = session \<and> ap_source_kind a = kind) (db_append db))"

definition joined_rows ::
  "(ulid \<Rightarrow> 'a option) \<Rightarrow> append_row list \<Rightarrow> (int \<times> 'a) list" where
  "joined_rows lookup rows =
     List.map_filter (\<lambda>a. map_option (Pair (ap_position a)) (lookup (ap_source_id a))) rows"

definition event_by_id :: "protocol_db \<Rightarrow> session_id \<Rightarrow> ulid \<Rightarrow> runtime_event option" where
  "event_by_id db session i =
     List.find (\<lambda>e. re_session_id e = session \<and> re_id e = i) (db_events db)"

definition history_by_id :: "protocol_db \<Rightarrow> session_id \<Rightarrow> ulid \<Rightarrow> history_item option" where
  "history_by_id db session i =
     List.find (\<lambda>h. hi_session_id h = session \<and> hi_id h = i) (db_history db)"

definition turn_item_by_id :: "protocol_db \<Rightarrow> session_id \<Rightarrow> ulid \<Rightarrow> turn_item option" where
  "turn_item_by_id db session i =
     List.find (\<lambda>t. ti_session_id t = session \<and> ti_id t = i) (db_turns db)"

definition event_rows :: "protocol_db \<Rightarrow> session_id \<Rightarrow> (int \<times> runtime_event) list" where
  "event_rows db session = joined_rows (event_by_id db session) (order_rows db EventSource session)"

definition history_rows :: "protocol_db \<Rightarrow> session_id \<Rightarrow> (int \<times> history_item) list" where
  "history_rows db session = joined_rows (history_by_id db session) (order_rows db HistorySource session)"

definition turn_rows :: "protocol_db \<Rightarrow> session_id \<Rightarrow> (int \<times> turn_item) list" where
  "turn_rows db session = joined_rows (turn_item_by_id db session) (order_rows db TurnSource session)"

section \<open>Counting\<close>

definition source_ids :: "protocol_db \<Rightarrow> source_kind \<Rightarrow> session_id \<Rightarrow> ulid list" where
  "source_ids db kind session =
     (case kind of
        EventSource \<Rightarrow> map re_id (filter (\<lambda>e. re_session_id e = session) (db_events db))
      | HistorySource \<Rightarrow> map hi_id (filter (\<lambda>h. hi_session_id h = session) (db_history db))
      | TurnSource \<Rightarrow> map ti_id (filter (\<lambda>t. ti_session_id t = session) (db_turns db))
      | MailboxSource \<Rightarrow> [])"

text \<open>Table rows, order rows, and the pairs of the join.\<close>

definition joined_count :: "protocol_db \<Rightarrow> source_kind \<Rightarrow> session_id \<Rightarrow> nat" where
  "joined_count db kind session =
     length (filter (\<lambda>(i, a). ap_source_id a = i)
       (List.product (source_ids db kind session) (order_rows db kind session)))"

definition protocol_source_count ::
  "protocol_db \<Rightarrow> session_id \<Rightarrow> source_kind \<Rightarrow> (nat, storage_error) result" where
  "protocol_source_count db session kind =
     (let table_count = length (source_ids db kind session);
          append_count = length (order_rows db kind session)
      in if table_count \<noteq> append_count \<or> table_count \<noteq> joined_count db kind session
         then Err (AppendOrderInvariantFailed session) else Ok table_count)"

text \<open>Counts under a \<open>LIMIT\<close> of one more than the bound.\<close>

definition protocol_source_count_bounded ::
  "protocol_db \<Rightarrow> session_id \<Rightarrow> source_kind \<Rightarrow> nat \<Rightarrow> (nat, storage_error) result" where
  "protocol_source_count_bounded db session kind limit =
     (if limit = 0 then Err SourceLimitZero
      else let fetch = (\<lambda>n. min n (limit + 1));
               table_count = fetch (length (source_ids db kind session));
               append_count = fetch (length (order_rows db kind session));
               both = fetch (joined_count db kind session)
           in if limit < table_count \<or> limit < append_count \<or> limit < both
              then Err (SourceLimitExceeded limit)
              else if table_count \<noteq> append_count \<or> table_count \<noteq> both
              then Err (AppendOrderInvariantFailed session) else Ok table_count)"

section \<open>Pages\<close>

datatype protocol_page_request =
    OffsetPage nat nat
  | LatestPage nat
  | AfterPage "int option" nat

record 'a protocol_page =
  pg_offset :: nat
  pg_limit :: nat
  pg_total :: nat
  pg_items :: "'a list"
  pg_next_cursor :: "int option"

definition has_more :: "'a protocol_page \<Rightarrow> bool" where
  "has_more p \<longleftrightarrow> pg_offset p + length (pg_items p) < pg_total p"

definition latest_page_offset :: "nat \<Rightarrow> nat \<Rightarrow> nat" where
  "latest_page_offset total0 limit = total0 - limit"

definition resolve_page ::
  "protocol_page_request \<Rightarrow> nat \<Rightarrow> (nat \<times> nat \<times> int option, storage_error) result" where
  "resolve_page request total0 =
     (let (offset, limit, after) =
            (case request of
               OffsetPage offset limit \<Rightarrow> (offset, limit, None)
             | LatestPage limit \<Rightarrow> (latest_page_offset total0 limit, limit, None)
             | AfterPage position limit \<Rightarrow> (0, limit, position))
      in if limit = 0 then Err PageLimitZero
         else if MAX_PROTOCOL_PAGE_LIMIT < limit then Err (PageLimitTooLarge limit)
         else Ok (offset, limit, after))"

definition protocol_cursor_offset :: "protocol_db \<Rightarrow> session_id \<Rightarrow> source_kind \<Rightarrow> int \<Rightarrow> nat" where
  "protocol_cursor_offset db session kind cursor =
     length (filter (\<lambda>a. ap_position a \<le> cursor) (order_rows db kind session))"

definition after_cursor :: "int option \<Rightarrow> (int \<times> 'a) list \<Rightarrow> (int \<times> 'a) list" where
  "after_cursor cursor rows = filter (\<lambda>(p, _). case cursor of None \<Rightarrow> True | Some c \<Rightarrow> c < p) rows"

definition last_position :: "(int \<times> 'a) list \<Rightarrow> int option" where
  "last_position rows = (if rows = [] then None else Some (fst (last rows)))"

text \<open>Decoding the rows of a statement, up to the first error.\<close>

fun read_all :: "('a \<Rightarrow> ('b, 'e) result) \<Rightarrow> (int \<times> 'a) list \<Rightarrow> ('b list, 'e) result" where
  "read_all read [] = Ok []"
| "read_all read (row # rows) =
     and_then (read (snd row)) (\<lambda>x. and_then (read_all read rows) (\<lambda>items. Ok (x # items)))"

text \<open>The body that the pages of the three tables share; \<open>read\<close> decodes a row.\<close>

definition page_of_rows ::
  "('a \<Rightarrow> ('b, storage_error) result) \<Rightarrow> protocol_db \<Rightarrow> session_id \<Rightarrow> source_kind \<Rightarrow> (int \<times> 'a) list \<Rightarrow>
   protocol_page_request \<Rightarrow> nat \<Rightarrow> ('b protocol_page, storage_error) result" where
  "page_of_rows read db session kind rows request total0 =
     and_then (resolve_page request total0) (\<lambda>(requested_offset, limit, after).
       let offset = (case after of Some c \<Rightarrow> protocol_cursor_offset db session kind c
                                 | None \<Rightarrow> requested_offset);
           sql_offset = (if after = None then requested_offset else 0);
           selected = take limit (drop sql_offset (after_cursor after rows))
       in and_then (read_all read selected)
            (\<lambda>items. Ok \<lparr>pg_offset = offset, pg_limit = limit, pg_total = total0, pg_items = items,
                         pg_next_cursor = last_position selected\<rparr>))"

definition decode_history :: "history_item \<Rightarrow> (history_item, storage_error) result" where
  "decode_history h =
     (case validate_compaction_checkpoint (hi_payload h) of
        Inl e \<Rightarrow> Err (InvalidHistoryPayload e) | Inr _ \<Rightarrow> Ok h)"

definition runtime_event_page_from_connection ::
  "protocol_db \<Rightarrow> session_id \<Rightarrow> protocol_page_request \<Rightarrow> nat \<Rightarrow>
   (runtime_event protocol_page, storage_error) result" where
  "runtime_event_page_from_connection db session request total0 =
     page_of_rows Inr db session EventSource (event_rows db session) request total0"

definition history_item_page_from_connection ::
  "protocol_db \<Rightarrow> session_id \<Rightarrow> protocol_page_request \<Rightarrow> nat \<Rightarrow>
   (history_item protocol_page, storage_error) result" where
  "history_item_page_from_connection db session request total0 =
     page_of_rows decode_history db session HistorySource (history_rows db session) request total0"

text \<open>
  A tool status that an earlier projector stored as completed is shown as failed if the output it was
  projected from says so.
\<close>

definition turn_item_source :: "protocol_db \<Rightarrow> turn_item \<Rightarrow> history_item option" where
  "turn_item_source db t =
     List.find (\<lambda>h. ti_source_item_id t = Some (hi_id h) \<and> hi_session_id h = ti_session_id t \<and>
                    hi_scope h = Turn (ti_turn_id t) \<and> hi_sequence_no h = ti_sequence_no t) (db_history db)"

definition decode_turn_item :: "protocol_db \<Rightarrow> turn_item \<Rightarrow> (turn_item, storage_error) result" where
  "decode_turn_item db t =
     (case ti_payload t of
        ItemToolStatus call tool status title summary0 \<Rightarrow>
          (if status \<noteq> Completed then Ok t
           else case turn_item_source db t of
             None \<Rightarrow> Ok t
           | Some source \<Rightarrow>
               and_then (decode_history source) (\<lambda>source.
                 case hi_payload source of
                   ToolOutput source_call source_status _ _ _ success \<Rightarrow>
                     if source_status = Completed \<and> success = Some False \<and> call = source_call
                     then Ok (t\<lparr>ti_payload := ItemToolStatus call tool Failed title summary0\<rparr>)
                     else Ok t
                 | _ \<Rightarrow> Ok t))
      | _ \<Rightarrow> Ok t)"

definition turn_item_page_from_connection ::
  "protocol_db \<Rightarrow> session_id \<Rightarrow> protocol_page_request \<Rightarrow> nat \<Rightarrow>
   (turn_item protocol_page, storage_error) result" where
  "turn_item_page_from_connection db session request total0 =
     page_of_rows (decode_turn_item db) db session TurnSource (turn_rows db session) request total0"

definition runtime_event_page_for_session ::
  "protocol_db \<Rightarrow> session_id \<Rightarrow> nat \<Rightarrow> nat \<Rightarrow> (runtime_event protocol_page, storage_error) result" where
  "runtime_event_page_for_session db session offset limit =
     and_then (protocol_source_count db session EventSource)
       (runtime_event_page_from_connection db session (OffsetPage offset limit))"

definition runtime_event_cursor_page_for_session ::
  "protocol_db \<Rightarrow> session_id \<Rightarrow> int option \<Rightarrow> nat \<Rightarrow> (runtime_event protocol_page, storage_error) result" where
  "runtime_event_cursor_page_for_session db session after limit =
     and_then (protocol_source_count db session EventSource)
       (runtime_event_page_from_connection db session (AfterPage after limit))"

definition latest_runtime_event_page_for_session ::
  "protocol_db \<Rightarrow> session_id \<Rightarrow> nat \<Rightarrow> (runtime_event protocol_page, storage_error) result" where
  "latest_runtime_event_page_for_session db session limit =
     and_then (protocol_source_count db session EventSource)
       (runtime_event_page_from_connection db session (LatestPage limit))"

definition history_item_page_for_session ::
  "protocol_db \<Rightarrow> session_id \<Rightarrow> nat \<Rightarrow> nat \<Rightarrow> (history_item protocol_page, storage_error) result" where
  "history_item_page_for_session db session offset limit =
     and_then (protocol_source_count db session HistorySource)
       (history_item_page_from_connection db session (OffsetPage offset limit))"

definition history_item_cursor_page_for_session ::
  "protocol_db \<Rightarrow> session_id \<Rightarrow> int option \<Rightarrow> nat \<Rightarrow> (history_item protocol_page, storage_error) result" where
  "history_item_cursor_page_for_session db session after limit =
     and_then (protocol_source_count db session HistorySource)
       (history_item_page_from_connection db session (AfterPage after limit))"

definition turn_item_page_for_session ::
  "protocol_db \<Rightarrow> session_id \<Rightarrow> nat \<Rightarrow> nat \<Rightarrow> (turn_item protocol_page, storage_error) result" where
  "turn_item_page_for_session db session offset limit =
     and_then (protocol_source_count db session TurnSource)
       (turn_item_page_from_connection db session (OffsetPage offset limit))"

definition turn_item_cursor_page_for_session ::
  "protocol_db \<Rightarrow> session_id \<Rightarrow> int option \<Rightarrow> nat \<Rightarrow> (turn_item protocol_page, storage_error) result" where
  "turn_item_cursor_page_for_session db session after limit =
     and_then (protocol_source_count db session TurnSource)
       (turn_item_page_from_connection db session (AfterPage after limit))"

definition runtime_event_page_for_turn_after_sequence ::
  "protocol_db \<Rightarrow> session_id \<Rightarrow> turn_id \<Rightarrow> int option \<Rightarrow> nat \<Rightarrow> (runtime_event list, storage_error) result" where
  "runtime_event_page_for_turn_after_sequence db session turn after limit =
     (if limit = 0 \<or> MAX_PROTOCOL_PAGE_LIMIT < limit then Err (PageLimitTooLarge limit)
      else Ok (take limit (sort_key re_sequence_no (filter
             (\<lambda>e. re_session_id e = session \<and> re_turn_id e = turn \<and>
                  (case after of None \<Rightarrow> True | Some n \<Rightarrow> n < re_sequence_no e)) (db_events db)))))"

section \<open>Further queries\<close>

definition query_latest_protocol_turn_id :: "protocol_db \<Rightarrow> session_id \<Rightarrow> turn_id option" where
  "query_latest_protocol_turn_id db session =
     (let rows = sort_key ap_position
            (filter (\<lambda>a. ap_session_id a = session \<and> scope_turn_id (ap_scope a) \<noteq> None) (db_append db))
      in if rows = [] then None else scope_turn_id (ap_scope (last rows)))"

definition latest_turn_position_for_session :: "protocol_db \<Rightarrow> session_id \<Rightarrow> (turn_id \<times> int) option" where
  "latest_turn_position_for_session db session =
     map_option (\<lambda>turn. (turn, max_or (- 1) (turn_sequence_numbers db session turn) + 1))
       (query_latest_protocol_turn_id db session)"

fun mode_of :: "history_item_payload \<Rightarrow> mode_kind option" where
  "mode_of (CollaborationModeInstruction mode) = Some mode"
| "mode_of _ = None"

definition latest_collaboration_mode_from_connection ::
  "protocol_db \<Rightarrow> session_id \<Rightarrow> (mode_kind, storage_error) result" where
  "latest_collaboration_mode_from_connection db session =
     (let rows = filter (\<lambda>(_, h). hi_scope h = Session \<and> mode_of (hi_payload h) \<noteq> None) (history_rows db session)
      in if rows = [] then Ok DefaultMode
         else and_then (decode_history (snd (last rows)))
                (\<lambda>h. case mode_of (hi_payload h) of Some mode \<Rightarrow> Ok mode | None \<Rightarrow> Err (NonModeItem session)))"

definition set_collaboration_mode ::
  "(db_row \<Rightarrow> bool) \<Rightarrow> history_item_id \<Rightarrow> int \<Rightarrow> protocol_db \<Rightarrow> session_id \<Rightarrow> mode_kind \<Rightarrow>
   (protocol_db \<times> history_item option, storage_error) result" where
  "set_collaboration_mode refused fresh_id now db session mode =
     and_then (latest_collaboration_mode_from_connection db session) (\<lambda>current.
       if current = mode then Ok (db, None)
       else let item = \<lparr>hi_id = fresh_id, hi_session_id = session, hi_scope = Session,
                        hi_sequence_no = claim_session_history_sequence_in_transaction db session 0,
                        hi_created_at_ms = now, hi_payload = CollaborationModeInstruction mode\<rparr>
            in and_then (insert_history_item refused db item) (\<lambda>db'. Ok (db', Some item)))"

definition history_items_by_id ::
  "protocol_db \<Rightarrow> session_id \<Rightarrow> history_item_id list \<Rightarrow> (history_item list, storage_error) result" where
  "history_items_by_id db session item_ids =
     (if item_ids = [] then Ok []
      else if MAX_PROTOCOL_PAGE_LIMIT < length item_ids then Err (ItemQueryTooLarge (length item_ids))
      else let rows = filter (\<lambda>(_, h). hi_id h \<in> set item_ids) (history_rows db session)
           in and_then (read_all decode_history rows)
                (\<lambda>items. if length items \<noteq> length (remdups item_ids) then Err (UnresolvedItems session)
                          else Ok items))"

section \<open>The traversal of a whole history\<close>

record canonical_history_snapshot =
  ch_append_fence :: "int option"
  ch_canonical_count :: nat

definition max_append_position :: "protocol_db \<Rightarrow> session_id \<Rightarrow> int option" where
  "max_append_position db session =
     (let positions = map ap_position (filter (\<lambda>a. ap_session_id a = session) (db_append db))
      in if positions = [] then None else Some (Max (set positions)))"

definition canonical_history_keyset_page ::
  "protocol_db \<Rightarrow> session_id \<Rightarrow> canonical_history_snapshot \<Rightarrow> int option \<Rightarrow> nat \<Rightarrow> nat \<Rightarrow>
   (history_item protocol_page, storage_error) result" where
  "canonical_history_keyset_page db session snapshot after offset limit =
     (let rows = take limit (filter (\<lambda>(p, _). case ch_append_fence snapshot of None \<Rightarrow> False | Some f \<Rightarrow> p \<le> f)
                               (after_cursor after (history_rows db session)))
      in and_then (read_all decode_history rows) (\<lambda>items.
           Ok \<lparr>pg_offset = offset, pg_limit = limit, pg_total = ch_canonical_count snapshot, pg_items = items,
               pg_next_cursor = last_position rows\<rparr>))"

definition advance_canonical_fork_page_offset ::
  "session_id \<Rightarrow> nat \<Rightarrow> nat \<Rightarrow> nat \<Rightarrow> (nat, storage_error) result" where
  "advance_canonical_fork_page_offset session offset page_items expected_total =
     (if page_items = 0 then Err (TraversalStuck session)
      else if expected_total < offset + page_items then Err (TraversalBeyond session)
      else Ok (offset + page_items))"

definition advancing :: "int option \<Rightarrow> int option \<Rightarrow> int option" where
  "advancing previous next_cursor =
     (case next_cursor of
        None \<Rightarrow> None
      | Some n \<Rightarrow> (case previous of None \<Rightarrow> Some n | Some p \<Rightarrow> if p < n then Some n else None))"

text \<open>
  The loop of the traversal. Offsets and counts count rows, far below the largest \<open>usize\<close>, so that
  \<open>saturating_add\<close> is addition.
\<close>

function canonical_loop ::
  "protocol_db \<Rightarrow> session_id \<Rightarrow> canonical_history_snapshot \<Rightarrow> nat \<Rightarrow>
   ('v \<Rightarrow> history_item protocol_page \<Rightarrow> ('v, storage_error) result) \<Rightarrow> 'v \<Rightarrow> nat \<Rightarrow> int option \<Rightarrow>
   ('v, storage_error) result" where
  "canonical_loop db session snapshot limit visitor v offset cursor =
     (if \<not> offset < ch_canonical_count snapshot then Ok v
      else case canonical_history_keyset_page db session snapshot cursor offset limit of
        Inl e \<Rightarrow> Err e
      | Inr page \<Rightarrow>
          (case advancing cursor (pg_next_cursor page) of
             None \<Rightarrow> Err (TraversalStuck session)
           | Some next_cursor \<Rightarrow>
               (case advance_canonical_fork_page_offset session offset (length (pg_items page))
                       (ch_canonical_count snapshot) of
                  Inl e \<Rightarrow> Err e
                | Inr next_offset \<Rightarrow>
                    (case visitor v page of
                       Inl e \<Rightarrow> Err e
                     | Inr v' \<Rightarrow> canonical_loop db session snapshot limit visitor v' next_offset (Some next_cursor)))))"
  by pat_completeness auto

termination
proof (relation "measure (\<lambda>(db, session, snapshot, limit, visitor, v, offset, cursor).
    ch_canonical_count snapshot - offset)", goal_cases)
  case 1
  show ?case by simp
next
  case (2 db session snapshot limit visitor v offset cursor page next_cursor next_offset v')
  then show ?case
    by (cases "pg_items page") (auto simp: advance_canonical_fork_page_offset_def split: if_splits)
qed

definition visit_bounded_canonical_history_pages_for_session ::
  "protocol_db \<Rightarrow> session_id \<Rightarrow> nat \<Rightarrow> nat \<Rightarrow>
   ('v \<Rightarrow> history_item protocol_page \<Rightarrow> ('v, storage_error) result) \<Rightarrow> 'v \<Rightarrow>
   ('v \<times> canonical_history_snapshot, storage_error) result" where
  "visit_bounded_canonical_history_pages_for_session db session limit source_item_limit visitor v =
     and_then (resolve_page (AfterPage None limit) 0) (\<lambda>_.
     and_then (protocol_source_count_bounded db session HistorySource source_item_limit) (\<lambda>canonical_count.
       let snapshot = \<lparr>ch_append_fence = max_append_position db session, ch_canonical_count = canonical_count\<rparr>
       in and_then (canonical_loop db session snapshot limit visitor v 0 None) (\<lambda>v'. Ok (v', snapshot))))"

end
