(* ===== verification/Protocol_Inv.thy ===== *)
theory Protocol_Inv
  imports Protocol_Pages
begin

text \<open>
  The invariant of the protocol tables and that every write keeps it: positions of the append order
  grow, every row of a table has exactly one row of the order and the reverse, sequence numbers of a
  turn stay below its allocator, and two runtime events of a turn have different ones.
\<close>

section \<open>The invariant\<close>

definition all_sources :: "protocol_db \<Rightarrow> source_kind \<Rightarrow> (session_id \<times> ulid) list" where
  "all_sources db kind =
     (case kind of
        EventSource \<Rightarrow> map (\<lambda>e. (re_session_id e, re_id e)) (db_events db)
      | HistorySource \<Rightarrow> map (\<lambda>h. (hi_session_id h, hi_id h)) (db_history db)
      | TurnSource \<Rightarrow> map (\<lambda>t. (ti_session_id t, ti_id t)) (db_turns db)
      | MailboxSource \<Rightarrow> [])"

abbreviation rows_of :: "protocol_db \<Rightarrow> source_kind \<Rightarrow> append_row list" where
  "rows_of db kind \<equiv> filter (\<lambda>a. ap_source_kind a = kind) (db_append db)"

abbreviation row_source :: "append_row \<Rightarrow> session_id \<times> ulid" where
  "row_source a \<equiv> (ap_session_id a, ap_source_id a)"

definition order_ok :: "protocol_db \<Rightarrow> bool" where
  "order_ok db \<longleftrightarrow>
     sorted_wrt (<) (map ap_position (db_append db)) \<and>
     (\<forall>a \<in> set (db_append db). ap_position a < db_next_position db) \<and>
     distinct (map (\<lambda>a. (ap_source_kind a, ap_source_id a)) (db_append db))"

definition owned :: "protocol_db \<Rightarrow> source_kind \<Rightarrow> bool" where
  "owned db kind \<longleftrightarrow>
     distinct (map snd (all_sources db kind)) \<and>
     map row_source (rows_of db kind) = all_sources db kind"

definition below_allocator :: "protocol_db \<Rightarrow> session_id \<Rightarrow> turn_id \<Rightarrow> int \<Rightarrow> bool" where
  "below_allocator db s t n \<longleftrightarrow>
     0 \<le> n \<and> (\<exists>next_no. hm_get (db_allocators db) (s, t) = Some next_no \<and> n < next_no)"

definition sequences_ok :: "protocol_db \<Rightarrow> bool" where
  "sequences_ok db \<longleftrightarrow>
     distinct (hm_keys (db_allocators db)) \<and>
     (\<forall>k next_no. hm_get (db_allocators db) k = Some next_no \<longrightarrow> next_no \<le> I64_MAX) \<and>
     (\<forall>s t. \<forall>n \<in> set (turn_sequence_numbers db s t). below_allocator db s t n) \<and>
     distinct (map (\<lambda>e. (re_session_id e, re_turn_id e, re_sequence_no e)) (db_events db))"

definition payloads_ok :: "protocol_db \<Rightarrow> bool" where
  "payloads_ok db \<longleftrightarrow> (\<forall>h \<in> set (db_history db). is_ok (validate_compaction_checkpoint (hi_payload h)))"

definition db_inv :: "protocol_db \<Rightarrow> bool" where
  "db_inv db \<longleftrightarrow>
     order_ok db \<and> (\<forall>kind. kind \<noteq> MailboxSource \<longrightarrow> owned db kind) \<and> sequences_ok db \<and> payloads_ok db"

lemma db_inv_empty: "db_inv empty_protocol_db"
  by (auto simp: db_inv_def empty_protocol_db_def order_ok_def owned_def all_sources_def sequences_ok_def
        turn_sequence_numbers_def payloads_ok_def split: source_kind.split)

lemma source_ids_sources: "source_ids db kind s = map snd (filter (\<lambda>p. fst p = s) (all_sources db kind))"
  by (simp add: source_ids_def all_sources_def filter_map o_def split: source_kind.split)

section \<open>Appending to the order\<close>

lemma append_order_Ok:
  assumes "insert_protocol_append_order refused db s scope n kind i c = Ok db'"
    and "order_ok db" and "(kind, i) \<notin> (\<lambda>a. (ap_source_kind a, ap_source_id a)) ` set (db_append db)"
    and "append_row_allowed kind scope n"
  obtains row where "row_source row = (s, i)" and "ap_source_kind row = kind" and "ap_scope row = scope"
    and "ap_position row = db_next_position db"
    and "db' = db\<lparr>db_append := db_append db @ [row], db_next_position := db_next_position db + 1\<rparr>"
    and "order_ok db'"
proof -
  let ?row = "\<lparr>ap_position = db_next_position db, ap_session_id = s, ap_scope = scope,
      ap_sequence_no = n, ap_source_kind = kind, ap_source_id = i, ap_created_at_ms = c\<rparr>"
  have new: "\<not> list_ex (\<lambda>a. ap_source_kind a = kind \<and> ap_source_id a = i) (db_append db)"
    using assms(3) by (auto simp: list_ex_iff)
  from assms(1,4) new have db': "db' = db\<lparr>db_append := db_append db @ [?row],
      db_next_position := db_next_position db + 1\<rparr>"
    by (auto simp: insert_protocol_append_order_def Let_def split: if_splits)
  moreover have "order_ok db'" using assms(2,3) unfolding db' order_ok_def
    by (auto simp: sorted_wrt_append)
  ultimately show ?thesis by (intro that [of ?row]) simp_all
qed

text \<open>A row in a table and in the order keeps the ownership of every table.\<close>

lemma owned_insert:
  assumes "\<And>k. k \<noteq> MailboxSource \<Longrightarrow> owned db k"
    and "\<And>k. all_sources db' k = (if k = kind then all_sources db k @ [(s, i)] else all_sources db k)"
    and "i \<notin> snd ` set (all_sources db kind)"
    and "db_append db' = db_append db @ [row]" and "row_source row = (s, i)" and "ap_source_kind row = kind"
    and "k \<noteq> MailboxSource"
  shows "owned db' k"
  using assms(1) [OF assms(7)] assms(2-6) by (auto simp: owned_def)

lemma source_unused:
  assumes "owned db kind" and "order_ok db" and "i \<notin> snd ` set (all_sources db kind)"
  shows "(kind, i) \<notin> (\<lambda>a. (ap_source_kind a, ap_source_id a)) ` set (db_append db)"
proof
  assume "(kind, i) \<in> (\<lambda>a. (ap_source_kind a, ap_source_id a)) ` set (db_append db)"
  then obtain a where "a \<in> set (rows_of db kind)" "ap_source_id a = i" by auto
  then have "(ap_session_id a, i) \<in> set (map row_source (rows_of db kind))" by force
  with assms(1,3) show False by (force simp: owned_def)
qed

section \<open>Inserting\<close>

text \<open>What one inserted row changes: the table, and one new row of the order.\<close>

definition ordered :: "protocol_db \<Rightarrow> append_row \<Rightarrow> protocol_db" where
  "ordered db row = db\<lparr>db_append := db_append db @ [row], db_next_position := db_next_position db + 1\<rparr>"

lemma ordered_fields [simp]:
  "db_events (ordered db row) = db_events db" "db_history (ordered db row) = db_history db"
  "db_turns (ordered db row) = db_turns db" "db_allocators (ordered db row) = db_allocators db"
  "db_append (ordered db row) = db_append db @ [row]"
  "db_next_position (ordered db row) = db_next_position db + 1"
  "db_fences (ordered db row) = db_fences db" "db_edges (ordered db row) = db_edges db"
  "turn_sequence_numbers (ordered db row) = turn_sequence_numbers db"
  "all_sources (ordered db row) = all_sources db"
  "sequences_ok (ordered db row) = sequences_ok db" "payloads_ok (ordered db row) = payloads_ok db"
  by (simp_all add: ordered_def fun_eq_iff turn_sequence_numbers_def all_sources_def sequences_ok_def
        payloads_ok_def below_allocator_def split: source_kind.split)

lemma table_insert_inv:
  assumes inv: "db_inv db" and kind: "kind \<noteq> MailboxSource"
    and app: "insert_protocol_append_order refused db1 s scope n kind i c = Ok db'"
    and allowed: "append_row_allowed kind scope n"
    and src: "\<And>k. all_sources db1 k = (if k = kind then all_sources db k @ [(s, i)] else all_sources db k)"
    and unused: "i \<notin> snd ` set (all_sources db kind)"
    and same: "db_append db1 = db_append db" "db_next_position db1 = db_next_position db"
    and rest: "sequences_ok db1" "payloads_ok db1"
  obtains row where "db' = ordered db1 row" and "row_source row = (s, i)" and "ap_source_kind row = kind"
    and "ap_scope row = scope" and "ap_position row = db_next_position db" and "db_inv db'"
proof -
  have ok: "order_ok db" "\<And>k. k \<noteq> MailboxSource \<Longrightarrow> owned db k" using inv by (auto simp: db_inv_def)
  have ok1: "order_ok db1" using ok(1) by (simp add: order_ok_def same)
  have "(kind, i) \<notin> (\<lambda>a. (ap_source_kind a, ap_source_id a)) ` set (db_append db1)"
    using source_unused [OF ok(2) [OF kind] ok(1) unused] by (simp add: same)
  from append_order_Ok [OF app ok1 this allowed] obtain row where row:
    "row_source row = (s, i)" "ap_source_kind row = kind" "ap_scope row = scope"
    "ap_position row = db_next_position db1" "db' = ordered db1 row" "order_ok db'"
    unfolding ordered_def .
  have "owned db' k" if "k \<noteq> MailboxSource" for k
    by (rule owned_insert [where db = db, OF ok(2) _ unused _ row(1,2) that]) (simp_all add: row(5) src same)
  then have "db_inv db'" using rest row(6) by (simp add: db_inv_def row(5))
  with row same(2) that show ?thesis by simp
qed

lemma insert_event_inv:
  assumes ins: "insert_runtime_event refused db e = Ok db'" and inv: "db_inv db"
    and seq: "below_allocator db (re_session_id e) (re_turn_id e) (re_sequence_no e)"
  obtains row where "db' = ordered (db\<lparr>db_events := db_events db @ [e]\<rparr>) row"
    and "row_source row = (re_session_id e, re_id e)" and "ap_source_kind row = EventSource"
    and "ap_scope row = Turn (re_turn_id e)" and "ap_position row = db_next_position db" and "db_inv db'"
proof -
  let ?db1 = "db\<lparr>db_events := db_events db @ [e]\<rparr>"
  from ins have conf: "\<not> list_ex (event_conflicts e) (db_events db)"
    and app: "insert_protocol_append_order refused ?db1 (re_session_id e) (Turn (re_turn_id e))
        (re_sequence_no e) EventSource (re_id e) (re_created_at_ms e) = Ok db'"
    by (auto simp: insert_runtime_event_def split: if_splits)
  from conf have unused: "re_id e \<notin> snd ` set (all_sources db EventSource)"
    and new_seq: "(re_session_id e, re_turn_id e, re_sequence_no e) \<notin>
        (\<lambda>e. (re_session_id e, re_turn_id e, re_sequence_no e)) ` set (db_events db)"
    by (auto simp: all_sources_def list_ex_iff event_conflicts_def)
  have "sequences_ok ?db1" "payloads_ok ?db1" using inv new_seq seq
    by (auto simp: db_inv_def sequences_ok_def turn_sequence_numbers_def below_allocator_def payloads_ok_def)
  moreover have "all_sources ?db1 k =
      (if k = EventSource then all_sources db k @ [(re_session_id e, re_id e)] else all_sources db k)" for k
    by (simp add: all_sources_def split: source_kind.split)
  moreover have "append_row_allowed EventSource (Turn (re_turn_id e)) (re_sequence_no e)"
    using seq by (simp add: append_row_allowed_def below_allocator_def split: history_scope.split)
  ultimately show ?thesis
    by (intro table_insert_inv [OF inv _ app _ _ unused _ _ _ _ that]) simp_all
qed

definition scoped_below :: "protocol_db \<Rightarrow> history_item \<Rightarrow> bool" where
  "scoped_below db h \<longleftrightarrow>
     (\<forall>t. hi_scope h = Turn t \<longrightarrow> below_allocator db (hi_session_id h) t (hi_sequence_no h))"

lemma insert_history_inv:
  assumes ins: "insert_history_item refused db h = Ok db'" and inv: "db_inv db" and seq: "scoped_below db h"
  obtains row where "db' = ordered (db\<lparr>db_history := db_history db @ [h]\<rparr>) row"
    and "row_source row = (hi_session_id h, hi_id h)" and "ap_source_kind row = HistorySource"
    and "ap_scope row = hi_scope h" and "ap_position row = db_next_position db" and "db_inv db'"
proof -
  let ?db1 = "db\<lparr>db_history := db_history db @ [h]\<rparr>"
  from ins have conf: "\<not> list_ex (history_conflicts h) (db_history db)" and nonneg: "0 \<le> hi_sequence_no h"
    and valid: "is_ok (validate_compaction_checkpoint (hi_payload h))"
    and app: "insert_protocol_append_order refused ?db1 (hi_session_id h) (hi_scope h)
        (hi_sequence_no h) HistorySource (hi_id h) (hi_created_at_ms h) = Ok db'"
    by (auto simp: insert_history_item_def split: if_splits sum.splits)
  from conf have unused: "hi_id h \<notin> snd ` set (all_sources db HistorySource)"
    by (auto simp: all_sources_def list_ex_iff history_conflicts_def)
  have "sequences_ok ?db1" "payloads_ok ?db1" using inv seq valid
    by (auto simp: db_inv_def sequences_ok_def turn_sequence_numbers_def below_allocator_def payloads_ok_def
          scoped_below_def)
  moreover have "all_sources ?db1 k =
      (if k = HistorySource then all_sources db k @ [(hi_session_id h, hi_id h)] else all_sources db k)" for k
    by (simp add: all_sources_def split: source_kind.split)
  moreover have "append_row_allowed HistorySource (hi_scope h) (hi_sequence_no h)"
    using nonneg by (simp add: append_row_allowed_def below_allocator_def split: history_scope.split)
  ultimately show ?thesis
    by (intro table_insert_inv [OF inv _ app _ _ unused _ _ _ _ that]) simp_all
qed

lemma insert_turn_inv:
  assumes ins: "insert_turn_item refused db t = Ok db'" and inv: "db_inv db"
    and seq: "below_allocator db (ti_session_id t) (ti_turn_id t) (ti_sequence_no t)"
  obtains row where "db' = ordered (db\<lparr>db_turns := db_turns db @ [t]\<rparr>) row"
    and "row_source row = (ti_session_id t, ti_id t)" and "ap_source_kind row = TurnSource"
    and "ap_scope row = Turn (ti_turn_id t)" and "ap_position row = db_next_position db" and "db_inv db'"
proof -
  let ?db1 = "db\<lparr>db_turns := db_turns db @ [t]\<rparr>"
  from ins have conf: "\<not> list_ex (turn_conflicts t) (db_turns db)"
    and app: "insert_protocol_append_order refused ?db1 (ti_session_id t) (Turn (ti_turn_id t))
        (ti_sequence_no t) TurnSource (ti_id t) 0 = Ok db'"
    by (auto simp: insert_turn_item_def split: if_splits)
  from conf have unused: "ti_id t \<notin> snd ` set (all_sources db TurnSource)"
    by (auto simp: all_sources_def list_ex_iff turn_conflicts_def)
  have "sequences_ok ?db1" "payloads_ok ?db1" using inv seq
    by (auto simp: db_inv_def sequences_ok_def turn_sequence_numbers_def below_allocator_def payloads_ok_def)
  moreover have "all_sources ?db1 k =
      (if k = TurnSource then all_sources db k @ [(ti_session_id t, ti_id t)] else all_sources db k)" for k
    by (simp add: all_sources_def split: source_kind.split)
  moreover have "append_row_allowed TurnSource (Turn (ti_turn_id t)) (ti_sequence_no t)"
    using seq by (simp add: append_row_allowed_def below_allocator_def split: history_scope.split)
  ultimately show ?thesis
    by (intro table_insert_inv [OF inv _ app _ _ unused _ _ _ _ that]) simp_all
qed

section \<open>Claiming a sequence number\<close>

lemma le_max_or: "n \<in> set xs \<Longrightarrow> n \<le> max_or d xs"
  by (auto simp: max_or_def)

lemma claim_inv:
  assumes claim: "claim_protocol_sequence_in_transaction refused db s t requested = Ok (db', n)" and inv: "db_inv db"
  shows "db' = db\<lparr>db_allocators := hm_insert (s, t) (n + 1) (db_allocators db)\<rparr>" and "db_inv db'"
    and "0 \<le> n" and "requested \<le> n" and "n < I64_MAX" and "below_allocator db' s t n"
    and "\<And>m. m \<in> set (turn_sequence_numbers db s t) \<Longrightarrow> m < n"
    and "\<And>m. below_allocator db s t m \<Longrightarrow> m < n"
proof -
  let ?floor = "max (max requested 0) (i64_saturating_succ (max_or (- 1) (turn_sequence_numbers db s t)))"
  from claim have db': "db' = db\<lparr>db_allocators := hm_insert (s, t) (n + 1) (db_allocators db)\<rparr>"
    and n: "n = (case hm_get (db_allocators db) (s, t) of None \<Rightarrow> ?floor | Some k \<Rightarrow> max k ?floor)"
    and top: "n + 1 \<le> I64_MAX"
    by (auto simp: claim_protocol_sequence_in_transaction_def Let_def split: if_splits)
  show "db' = db\<lparr>db_allocators := hm_insert (s, t) (n + 1) (db_allocators db)\<rparr>" by (rule db')
  have ge: "?floor \<le> n" unfolding n by (cases "hm_get (db_allocators db) (s, t)") simp_all
  then show "0 \<le> n" "requested \<le> n" by simp_all
  show "n < I64_MAX" using top by simp
  show "below_allocator db' s t n" using \<open>0 \<le> n\<close> by (simp add: below_allocator_def db')
  have below: "m < n" if "below_allocator db s t m" for m
    using that n by (auto simp: below_allocator_def)
  then show "\<And>m. below_allocator db s t m \<Longrightarrow> m < n" .
  show "m < n" if "m \<in> set (turn_sequence_numbers db s t)" for m
    using inv that by (intro below) (simp add: db_inv_def sequences_ok_def)
  have "below_allocator db' a b m" if "below_allocator db a b m" for a b m
    using that below [of m] by (auto simp: below_allocator_def db')
  moreover have "turn_sequence_numbers db' = turn_sequence_numbers db" "all_sources db' = all_sources db"
    by (simp_all add: db' fun_eq_iff turn_sequence_numbers_def all_sources_def split: source_kind.split)
  ultimately show "db_inv db'" using inv top
    by (auto simp: db_inv_def db' order_ok_def owned_def sequences_ok_def payloads_ok_def distinct_hm_insert)
qed

section \<open>A bundle\<close>

definition opt_list :: "'a option \<Rightarrow> 'a list" where
  "opt_list x = (case x of None \<Rightarrow> [] | Some y \<Rightarrow> [y])"

lemma opt_list_simps [simp]: "opt_list None = []" "opt_list (Some x) = [x]"
  by (simp_all add: opt_list_def)

lemma coherent_scope:
  assumes "validate_event_bundle_coherence e h t = Ok ()"
  shows "h = Some h' \<Longrightarrow> hi_session_id h' = re_session_id e \<and> hi_scope h' = Turn (re_turn_id e)"
    and "t = Some t' \<Longrightarrow> ti_session_id t' = re_session_id e \<and> ti_turn_id t' = re_turn_id e"
    and "h = Some h' \<Longrightarrow> t = Some t' \<Longrightarrow> ti_source_item_id t' = Some (hi_id h')"
  using assms by (auto simp: validate_event_bundle_coherence_def if_some_def validate_event_history_identity_def
      validate_event_turn_identity_def validate_history_turn_bundle_coherence_def and_then_Ok_iff
      split: if_splits option.splits)

text \<open>What a stored bundle adds to the tables.\<close>

definition bundle_added ::
  "protocol_db \<Rightarrow> protocol_db \<Rightarrow> runtime_event \<Rightarrow> history_item option \<Rightarrow> turn_item option \<Rightarrow> int \<Rightarrow> bool" where
  "bundle_added db db' e h t n \<longleftrightarrow>
     db_events db' = db_events db @ [e\<lparr>re_sequence_no := n\<rparr>] \<and>
     db_history db' = db_history db @ opt_list (map_option (\<lambda>h. h\<lparr>hi_sequence_no := n\<rparr>) h) \<and>
     db_turns db' = db_turns db @ opt_list (map_option (\<lambda>t. t\<lparr>ti_sequence_no := n\<rparr>) t) \<and>
     db_allocators db' = hm_insert (re_session_id e, re_turn_id e) (n + 1) (db_allocators db) \<and>
     db_fences db' = db_fences db \<and> db_edges db' = db_edges db \<and>
     (\<exists>rows. db_append db' = db_append db @ rows \<and>
        map (\<lambda>a. (ap_source_kind a, row_source a)) rows =
          (EventSource, re_session_id e, re_id e) #
          map (\<lambda>h. (HistorySource, re_session_id e, hi_id h)) (opt_list h) @
          map (\<lambda>t. (TurnSource, re_session_id e, ti_id t)) (opt_list t) \<and>
        (\<forall>a \<in> set rows. ap_scope a = Turn (re_turn_id e) \<and> db_next_position db \<le> ap_position a))"

lemma bundle_inv:
  assumes ins: "insert_event_bundle_unchecked refused db e h t = Ok (db', stored)" and inv: "db_inv db"
  obtains n where "db_inv db'" and "bundle_added db db' e h t n"
    and "stored = \<lparr>sb_runtime_event = e\<lparr>re_sequence_no := n\<rparr>,
                   sb_history_item = map_option (\<lambda>h. h\<lparr>hi_sequence_no := n\<rparr>) h\<rparr>"
    and "re_sequence_no e \<le> n" and "0 \<le> n" and "n < I64_MAX"
    and "\<And>m. m \<in> set (turn_sequence_numbers db (re_session_id e) (re_turn_id e)) \<Longrightarrow> m < n"
proof -
  let ?s = "re_session_id e" and ?t = "re_turn_id e"
  from ins obtain db1 n db2 db3 where
    coh: "validate_event_bundle_coherence e h t = Ok ()"
    and claim: "claim_protocol_sequence_in_transaction refused db ?s ?t (re_sequence_no e) = Ok (db1, n)"
    and ev: "insert_runtime_event refused db1 (e\<lparr>re_sequence_no := n\<rparr>) = Ok db2"
    and hi: "insert_if_some (insert_history_item refused) db2 (map_option (\<lambda>h. h\<lparr>hi_sequence_no := n\<rparr>) h) = Ok db3"
    and ti: "insert_if_some (insert_turn_item refused) db3 (map_option (\<lambda>t. t\<lparr>ti_sequence_no := n\<rparr>) t) = Ok db'"
    and st: "stored = \<lparr>sb_runtime_event = e\<lparr>re_sequence_no := n\<rparr>,
                   sb_history_item = map_option (\<lambda>h. h\<lparr>hi_sequence_no := n\<rparr>) h\<rparr>"
    by (auto simp: insert_event_bundle_unchecked_def and_then_Ok_iff Let_def split: prod.splits)
  note c = claim_inv [OF claim inv]
  obtain r1 where r1: "db2 = ordered (db1\<lparr>db_events := db_events db1 @ [e\<lparr>re_sequence_no := n\<rparr>]\<rparr>) r1"
    "row_source r1 = (?s, re_id e)" "ap_source_kind r1 = EventSource" "ap_scope r1 = Turn ?t"
    "ap_position r1 = db_next_position db1" "db_inv db2"
    by (rule insert_event_inv [OF ev c(2)]) (use c(6) in simp_all)
  have low2: "below_allocator db2 ?s ?t n" using c(6) by (simp add: r1(1) below_allocator_def)
  obtain rh where rh: "db_inv db3" "db_history db3 = db_history db @ opt_list (map_option (\<lambda>h. h\<lparr>hi_sequence_no := n\<rparr>) h)"
    "db3 = db2\<lparr>db_history := db_history db3, db_append := db_append db2 @ rh,
                db_next_position := db_next_position db3\<rparr>" "db_next_position db2 \<le> db_next_position db3"
    "map (\<lambda>a. (ap_source_kind a, row_source a)) rh = map (\<lambda>h. (HistorySource, ?s, hi_id h)) (opt_list h)"
    "\<forall>a \<in> set rh. ap_scope a = Turn ?t \<and> db_next_position db2 \<le> ap_position a"
  proof (cases h)
    case None
    with hi have "db3 = db2" by (simp add: insert_if_some_def)
    with None r1 c(1) show ?thesis by (intro that [of "[]"]) simp_all
  next
    case (Some h0)
    let ?h = "h0\<lparr>hi_sequence_no := n\<rparr>"
    from hi Some have insh: "insert_history_item refused db2 ?h = Ok db3" by (simp add: insert_if_some_def)
    have sc: "hi_session_id h0 = ?s" "hi_scope h0 = Turn ?t" using coherent_scope(1) [OF coh Some] by simp_all
    with low2 have "scoped_below db2 ?h" by (simp add: scoped_below_def)
    from insert_history_inv [OF insh r1(6) this] obtain r where
      "db3 = ordered (db2\<lparr>db_history := db_history db2 @ [?h]\<rparr>) r"
      "row_source r = (?s, hi_id h0)" "ap_source_kind r = HistorySource" "ap_scope r = Turn ?t"
      "ap_position r = db_next_position db2" "db_inv db3" using sc by auto
    with Some r1(1) c(1) show ?thesis by (intro that [of "[r]"]) (simp_all add: ordered_def)
  qed
  have low3: "below_allocator db3 ?s ?t n" using low2 by (subst rh(3)) (simp add: below_allocator_def)
  obtain rt where rt: "db_inv db'" "db_turns db' = db_turns db @ opt_list (map_option (\<lambda>t. t\<lparr>ti_sequence_no := n\<rparr>) t)"
    "db' = db3\<lparr>db_turns := db_turns db', db_append := db_append db3 @ rt,
                db_next_position := db_next_position db'\<rparr>"
    "map (\<lambda>a. (ap_source_kind a, row_source a)) rt = map (\<lambda>t. (TurnSource, ?s, ti_id t)) (opt_list t)"
    "\<forall>a \<in> set rt. ap_scope a = Turn ?t \<and> db_next_position db3 \<le> ap_position a"
  proof (cases t)
    case None
    with ti have "db' = db3" by (simp add: insert_if_some_def)
    moreover have "db_turns db3 = db_turns db" by (subst rh(3)) (simp add: r1(1) c(1))
    ultimately show ?thesis using None rh(1) by (intro that [of "[]"]) simp_all
  next
    case (Some t0)
    let ?ti = "t0\<lparr>ti_sequence_no := n\<rparr>"
    from ti Some have inst: "insert_turn_item refused db3 ?ti = Ok db'" by (simp add: insert_if_some_def)
    have sc: "ti_session_id t0 = ?s" "ti_turn_id t0 = ?t" using coherent_scope(2) [OF coh Some] by simp_all
    have "db_turns db3 = db_turns db" by (subst rh(3)) (simp add: r1(1) c(1))
    moreover from low3 sc have "below_allocator db3 (ti_session_id ?ti) (ti_turn_id ?ti) (ti_sequence_no ?ti)" by simp
    from insert_turn_inv [OF inst rh(1) this] obtain r where
      "db' = ordered (db3\<lparr>db_turns := db_turns db3 @ [?ti]\<rparr>) r"
      "row_source r = (?s, ti_id t0)" "ap_source_kind r = TurnSource" "ap_scope r = Turn ?t"
      "ap_position r = db_next_position db3" "db_inv db'" using sc by auto
    ultimately show ?thesis using Some by (intro that [of "[r]"]) (simp_all add: ordered_def)
  qed
  have tables: "db_events db' = db_events db @ [e\<lparr>re_sequence_no := n\<rparr>]"
    "db_allocators db' = hm_insert (?s, ?t) (n + 1) (db_allocators db)"
    "db_fences db' = db_fences db" "db_edges db' = db_edges db"
    "db_append db' = db_append db @ r1 # rh @ rt"
    by (subst rt(3), simp, subst rh(3), simp add: r1(1) c(1))+
  have "db_history db' = db_history db3" by (subst rt(3)) simp
  moreover have "\<forall>a \<in> set (r1 # rh @ rt). ap_scope a = Turn ?t \<and> db_next_position db \<le> ap_position a"
    using r1(1,4,5) rh(4,6) rt(5) c(1) by fastforce
  moreover have "map (\<lambda>a. (ap_source_kind a, row_source a)) (r1 # rh @ rt) =
      (EventSource, ?s, re_id e) # map (\<lambda>h. (HistorySource, ?s, hi_id h)) (opt_list h) @
      map (\<lambda>t. (TurnSource, ?s, ti_id t)) (opt_list t)"
    unfolding map_append list.map rh(5) rt(4) using r1(2,3) by simp
  ultimately have "bundle_added db db' e h t n" unfolding bundle_added_def
    using tables rh(2) rt(2) by auto
  with rt(1) st c(3,4,5,7) show ?thesis by (intro that) auto
qed

section \<open>The other writes\<close>

lemma mailbox_inv:
  assumes "insert_mailbox_append_order_in_transaction refused db s i c = Ok (db', n)" and "db_inv db"
  shows "db_inv db'"
proof -
  let ?row = "\<lparr>ap_position = db_next_position db, ap_session_id = s, ap_scope = Session,
      ap_sequence_no = 0, ap_source_kind = MailboxSource, ap_source_id = i, ap_created_at_ms = c\<rparr>"
  from assms(1) have "db' = ordered db ?row"
    and "\<not> list_ex (\<lambda>a. ap_source_kind a = MailboxSource \<and> ap_source_id a = i) (db_append db)"
    by (auto simp: insert_mailbox_append_order_in_transaction_def ordered_def Let_def split: if_splits)
  with assms(2) show ?thesis
    by (auto simp: db_inv_def order_ok_def owned_def sorted_wrt_append list_ex_iff)
qed

lemma collaboration_mode_inv:
  assumes "set_collaboration_mode refused i now db s mode = Ok (db', item)" and "db_inv db"
  shows "db_inv db'"
proof -
  from assms(1) consider "db' = db" | h where "insert_history_item refused db h = Ok db'" "hi_scope h = Session"
    by (auto simp: set_collaboration_mode_def and_then_Ok_iff Let_def split: if_splits)
  then show ?thesis
  proof cases
    case 1
    with assms(2) show ?thesis by simp
  next
    case 2
    then have "scoped_below db h" by (simp add: scoped_below_def)
    from insert_history_inv [OF 2(1) assms(2) this] show ?thesis by metis
  qed
qed

section \<open>Rows under the invariant\<close>

lemma order_rows_eq:
  assumes "order_ok db"
  shows "order_rows db kind s = filter (\<lambda>a. ap_session_id a = s \<and> ap_source_kind a = kind) (db_append db)"
    and "sorted_wrt (<) (map ap_position (order_rows db kind s))"
    and "distinct (map ap_source_id (order_rows db kind s))"
proof -
  let ?rows = "filter (\<lambda>a. ap_session_id a = s \<and> ap_source_kind a = kind) (db_append db)"
  have sorted: "sorted_wrt (<) (map ap_position ?rows)"
    using assms by (simp add: order_ok_def sorted_wrt_map sorted_wrt_filter)
  then have "sorted (map ap_position ?rows)"
    by (rule sorted_wrt_mono_rel [rotated]) simp
  then show eq: "order_rows db kind s = ?rows"
    by (simp add: order_rows_def sort_key_id_if_sorted)
  show "sorted_wrt (<) (map ap_position (order_rows db kind s))" using sorted eq by simp
  have "distinct (map (\<lambda>a. (ap_source_kind a, ap_source_id a)) ?rows)"
    using assms by (auto simp: order_ok_def intro: distinct_map_filter)
  then show "distinct (map ap_source_id (order_rows db kind s))"
    unfolding eq by (auto simp: distinct_map inj_on_def)
qed

lemma rows_own_sources:
  assumes "db_inv db" and "kind \<noteq> MailboxSource"
  shows "map ap_source_id (order_rows db kind s) = source_ids db kind s" and "distinct (source_ids db kind s)"
proof -
  have ok: "order_ok db" and own: "owned db kind" using assms by (simp_all add: db_inv_def)
  have "map ap_source_id (order_rows db kind s) =
      map snd (filter (\<lambda>p. fst p = s) (map row_source (rows_of db kind)))"
    by (simp add: order_rows_eq(1) [OF ok] filter_map o_def conj_commute)
  also have "\<dots> = source_ids db kind s" using own by (simp add: owned_def source_ids_sources)
  finally show ids: "map ap_source_id (order_rows db kind s) = source_ids db kind s" .
  show "distinct (source_ids db kind s)"
    using own by (auto simp: owned_def source_ids_sources intro: distinct_map_filter)
qed

lemma joined_count_eq:
  assumes "db_inv db" and "kind \<noteq> MailboxSource"
  shows "joined_count db kind s = length (source_ids db kind s)"
proof -
  let ?rows = "order_rows db kind s" and ?ids = "source_ids db kind s"
  let ?pairs = "filter (\<lambda>(i, a). ap_source_id a = i) (List.product ?ids ?rows)"
  note own = rows_own_sources [OF assms, of s]
  have ok: "order_ok db" using assms by (simp add: db_inv_def)
  have rows: "distinct ?rows" using order_rows_eq(3) [OF ok, of kind s] by (simp add: distinct_map)
  have "set ?pairs = (\<lambda>a. (ap_source_id a, a)) ` set ?rows" unfolding own(1) [symmetric] by auto
  moreover have "distinct ?pairs" using own(2) rows by (simp add: distinct_product)
  ultimately have "length ?pairs = card ((\<lambda>a. (ap_source_id a, a)) ` set ?rows)"
    by (metis distinct_card)
  also have "\<dots> = length ?rows" using rows by (simp add: card_image inj_on_def distinct_card)
  finally show ?thesis using arg_cong [OF own(1), of length] by (simp add: joined_count_def)
qed

lemma source_count_Ok:
  assumes "db_inv db" and "kind \<noteq> MailboxSource"
  shows "protocol_source_count db s kind = Ok (length (source_ids db kind s))"
  using arg_cong [OF rows_own_sources(1) [OF assms, of s], of length] joined_count_eq [OF assms, of s]
  by (simp add: protocol_source_count_def)

lemma find_by_key:
  "distinct (map key xs) \<Longrightarrow> x \<in> set xs \<Longrightarrow> P x \<Longrightarrow> List.find (\<lambda>y. P y \<and> key y = key x) xs = Some x"
proof (induction xs)
  case (Cons y ys)
  then show ?case by (cases "y = x") (auto dest: imageI [of x "set ys" key])
qed simp

lemma joined_rows_zip:
  "map ap_source_id rows = map key xs \<Longrightarrow> \<forall>x \<in> set xs. lookup (key x) = Some x \<Longrightarrow>
   joined_rows lookup rows = zip (map ap_position rows) xs"
proof (induction rows arbitrary: xs)
  case (Cons a rows)
  from Cons.prems(1) obtain x xs' where xs: "xs = x # xs'" "ap_source_id a = key x"
    "map ap_source_id rows = map key xs'" by auto
  with Cons.prems(2) have "lookup (ap_source_id a) = Some x" by simp
  moreover have "joined_rows lookup rows = zip (map ap_position rows) xs'"
    using Cons.IH [OF xs(3)] Cons.prems(2) xs(1) by simp
  ultimately show ?case using xs(1) by (simp add: joined_rows_def)
qed (simp add: joined_rows_def)

lemma joined_rows_map:
  assumes "map ap_source_id rows = map key xs" and "\<And>x. x \<in> set xs \<Longrightarrow> lookup (key x) = Some x"
  shows "map snd (joined_rows lookup rows) = xs" and "map fst (joined_rows lookup rows) = map ap_position rows"
  using joined_rows_zip [OF assms(1)] assms(2) arg_cong [OF assms(1), of length] by simp_all

text \<open>The rows of a session are its part of the table, in the order of the appends.\<close>

lemma event_rows_eq:
  assumes "db_inv db"
  shows "map snd (event_rows db s) = filter (\<lambda>e. re_session_id e = s) (db_events db)"
    and "sorted_wrt (<) (map fst (event_rows db s))"
proof -
  let ?es = "filter (\<lambda>e. re_session_id e = s) (db_events db)"
  have "map ap_source_id (order_rows db EventSource s) = map re_id ?es"
    using rows_own_sources(1) [OF assms, of EventSource s] by (simp add: source_ids_def)
  moreover have "distinct (map re_id (db_events db))"
    using assms by (auto simp: db_inv_def owned_def all_sources_def o_def dest!: spec [of _ EventSource])
  then have "event_by_id db s (re_id e) = Some e" if "e \<in> set ?es" for e
    using that find_by_key [of re_id "db_events db" e "\<lambda>e. re_session_id e = s"] by (simp add: event_by_id_def)
  ultimately show "map snd (event_rows db s) = ?es" "sorted_wrt (<) (map fst (event_rows db s))"
    using joined_rows_map [of "order_rows db EventSource s" re_id ?es "event_by_id db s"]
      order_rows_eq(2) [of db EventSource s] assms
    by (simp_all add: event_rows_def db_inv_def)
qed

lemma history_rows_eq:
  assumes "db_inv db"
  shows "map snd (history_rows db s) = filter (\<lambda>h. hi_session_id h = s) (db_history db)"
    and "sorted_wrt (<) (map fst (history_rows db s))"
    and "map fst (history_rows db s) = map ap_position (order_rows db HistorySource s)"
proof -
  let ?hs = "filter (\<lambda>h. hi_session_id h = s) (db_history db)"
  have "map ap_source_id (order_rows db HistorySource s) = map hi_id ?hs"
    using rows_own_sources(1) [OF assms, of HistorySource s] by (simp add: source_ids_def)
  moreover have "distinct (map hi_id (db_history db))"
    using assms by (auto simp: db_inv_def owned_def all_sources_def o_def dest!: spec [of _ HistorySource])
  then have "history_by_id db s (hi_id h) = Some h" if "h \<in> set ?hs" for h
    using that find_by_key [of hi_id "db_history db" h "\<lambda>h. hi_session_id h = s"] by (simp add: history_by_id_def)
  ultimately show "map snd (history_rows db s) = ?hs" "sorted_wrt (<) (map fst (history_rows db s))"
    "map fst (history_rows db s) = map ap_position (order_rows db HistorySource s)"
    using joined_rows_map [of "order_rows db HistorySource s" hi_id ?hs "history_by_id db s"]
      order_rows_eq(2) [of db HistorySource s] assms
    by (simp_all add: history_rows_def db_inv_def)
qed

end
