(* ===== verification/Event_Hub.thy ===== *)
theory Event_Hub
  imports Protocol_Inv "HOL-Library.Sublist"
begin

text \<open>
  Live fan-out of runtime events, \<open>src/src/runtime/event_bus.rs\<close>: a hub that forwards every event to
  the channel of its session once, remembering the identities it forwarded last, and subscriptions that
  show a bounded backfill of stored events before the live ones. The broadcast channels are
  tokio's: a send is recorded with the channel it goes to, and what a receiver returns is the argument of
  \<open>recv\<close>, the list of its outcomes.
\<close>

section \<open>Errors and durability\<close>

datatype channel_error = ChannelClosed | ChannelLagged nat

datatype runtime_error =
    RunEventReceiveFailed channel_error
  | SessionEventReceiveFailed channel_error
  | ForeignSessionEvent session_id session_id
  | DurabilityMismatch ustr run_event_durability run_event_durability
  | StorageFailed storage_error
  | AdmissionNotOwner nat turn_id

definition validate_run_event_durability ::
  "run_event \<Rightarrow> run_event_durability \<Rightarrow> ustr \<Rightarrow> (unit, runtime_error) result" where
  "validate_run_event_durability event expected boundary =
     (if durability event = expected then Ok () else Err (DurabilityMismatch boundary expected (durability event)))"

text \<open>The bus of one run: a send without receivers is not an error.\<close>

definition publish_run_event :: "(nat, run_event) result \<Rightarrow> (unit, runtime_error) result" where
  "publish_run_event sent = (case sent of Inl _ \<Rightarrow> Ok () | Inr _ \<Rightarrow> Ok ())"

definition recv_run_event :: "(run_event, channel_error) result \<Rightarrow> (run_event, runtime_error) result" where
  "recv_run_event received = (case received of Inl e \<Rightarrow> Err (RunEventReceiveFailed e) | Inr event \<Rightarrow> Ok event)"

section \<open>The hub\<close>

type_synonym channel_id = nat

record session_runtime_event_hub_state =
  hub_buffer :: nat
  hub_senders :: "(session_id, channel_id) hmap"
  hub_order :: "(session_id, ulid list) hmap"
  hub_ids :: "(session_id, ulid set) hmap"

definition new_hub :: "nat \<Rightarrow> session_runtime_event_hub_state" where
  "new_hub buffer = \<lparr>hub_buffer = max buffer 1, hub_senders = [], hub_order = [], hub_ids = []\<rparr>"

definition or_default :: "'a \<Rightarrow> 'a option \<Rightarrow> 'a" where
  "or_default d x = (case x of None \<Rightarrow> d | Some y \<Rightarrow> y)"

text \<open>The event goes to the channel of its session, if there is one and the event is not a repetition.\<close>

definition hub_publish ::
  "session_runtime_event_hub_state \<Rightarrow> runtime_event \<Rightarrow>
   session_runtime_event_hub_state \<times> (channel_id \<times> runtime_event) option" where
  "hub_publish st event =
     (let session = re_session_id event;
          ids = or_default {} (hm_get (hub_ids st) session);
          order = or_default [] (hm_get (hub_order st) session)
      in if re_id event \<in> ids then (st, None)
         else let ids1 = insert (re_id event) ids;
                  order1 = order @ [re_id event];
                  (order2, ids2) = (if hub_buffer st < length order1 then (tl order1, ids1 - {hd order1})
                                    else (order1, ids1))
              in (st\<lparr>hub_order := hm_insert session order2 (hub_order st),
                     hub_ids := hm_insert session ids2 (hub_ids st)\<rparr>,
                  map_option (\<lambda>c. (c, event)) (hm_get (hub_senders st) session)))"

section \<open>Subscriptions\<close>

record session_runtime_event_subscription =
  sub_session_id :: session_id
  sub_backfill :: "runtime_event list"
  sub_backfill_event_ids :: "ulid set"
  sub_omitted_backfill_events :: nat
  sub_sender :: channel_id

definition bounded_backfill :: "runtime_event list \<Rightarrow> nat \<Rightarrow> runtime_event list \<times> nat" where
  "bounded_backfill backfill omitted =
     (let limit = MAX_PROTOCOL_PAGE_LIMIT in
      if length backfill \<le> limit then (backfill, omitted)
      else let additionally_omitted = length backfill - limit
           in (drop additionally_omitted backfill, sat_add omitted additionally_omitted))"

definition new_subscription ::
  "session_id \<Rightarrow> runtime_event list \<Rightarrow> nat \<Rightarrow> channel_id \<Rightarrow> session_runtime_event_subscription" where
  "new_subscription session backfill omitted sender =
     (let (backfill', omitted') = bounded_backfill backfill omitted in
      \<lparr>sub_session_id = session, sub_backfill = backfill', sub_backfill_event_ids = set (map re_id backfill'),
       sub_omitted_backfill_events = omitted', sub_sender = sender\<rparr>)"

text \<open>\<open>fresh\<close>: the identity of a channel that is created.\<close>

definition hub_subscribe ::
  "channel_id \<Rightarrow> session_runtime_event_hub_state \<Rightarrow> session_id \<Rightarrow>
   session_runtime_event_hub_state \<times> session_runtime_event_subscription" where
  "hub_subscribe fresh st session =
     (let sender = or_default fresh (hm_get (hub_senders st) session)
      in (st\<lparr>hub_senders := hm_insert session sender (hub_senders st)\<rparr>, new_subscription session [] 0 sender))"

definition with_bounded_backfill_page ::
  "session_runtime_event_subscription \<Rightarrow> runtime_event list \<Rightarrow> nat \<Rightarrow> session_runtime_event_subscription" where
  "with_bounded_backfill_page sub backfill omitted =
     (let (backfill', omitted') = bounded_backfill backfill omitted in
      sub\<lparr>sub_backfill_event_ids := set (map re_id backfill'), sub_backfill := backfill',
          sub_omitted_backfill_events := omitted'\<rparr>)"

definition with_backfill ::
  "session_runtime_event_subscription \<Rightarrow> runtime_event list \<Rightarrow> session_runtime_event_subscription" where
  "with_backfill sub backfill = with_bounded_backfill_page sub backfill 0"

definition subscribe_with_backfill ::
  "channel_id \<Rightarrow> session_runtime_event_hub_state \<Rightarrow> session_id \<Rightarrow> runtime_event list \<Rightarrow>
   session_runtime_event_hub_state \<times> session_runtime_event_subscription" where
  "subscribe_with_backfill fresh st session backfill =
     (let (st', sub) = hub_subscribe fresh st session in (st', with_backfill sub backfill))"

text \<open>
  One call of \<open>recv\<close>: the result, if the outcomes of the receiver so far give one, the subscription
  after it and the outcomes that are left.
\<close>

fun recv_live ::
  "session_runtime_event_subscription \<Rightarrow> (runtime_event, channel_error) result list \<Rightarrow>
   session_runtime_event_subscription \<times> (runtime_event, runtime_error) result option \<times>
   (runtime_event, channel_error) result list" where
  "recv_live sub [] = (sub, None, [])"
| "recv_live sub (Inl e # outcomes) = (sub, Some (Err (SessionEventReceiveFailed e)), outcomes)"
| "recv_live sub (Inr event # outcomes) =
     (if re_session_id event \<noteq> sub_session_id sub
      then (sub, Some (Err (ForeignSessionEvent (re_session_id event) (sub_session_id sub))), outcomes)
      else if re_id event \<in> sub_backfill_event_ids sub
      then recv_live (sub\<lparr>sub_backfill_event_ids := sub_backfill_event_ids sub - {re_id event}\<rparr>) outcomes
      else (sub, Some (Ok event), outcomes))"

definition recv ::
  "session_runtime_event_subscription \<Rightarrow> (runtime_event, channel_error) result list \<Rightarrow>
   session_runtime_event_subscription \<times> (runtime_event, runtime_error) result option \<times>
   (runtime_event, channel_error) result list" where
  "recv sub outcomes =
     (case sub_backfill sub of
        event # rest \<Rightarrow> (sub\<lparr>sub_backfill := rest\<rparr>, Some (Ok event), outcomes)
      | [] \<Rightarrow> recv_live sub outcomes)"

text \<open>
  Dropping a subscription, \<open>hub\<close> the state if it still exists, \<open>receivers\<close> the receivers of the
  channel, the own one included.
\<close>

definition drop_subscription ::
  "session_runtime_event_hub_state option \<Rightarrow> session_runtime_event_subscription \<Rightarrow> nat \<Rightarrow>
   session_runtime_event_hub_state option" where
  "drop_subscription hub sub receivers =
     map_option (\<lambda>st. if receivers = 1 then st\<lparr>hub_senders := hm_remove (sub_session_id sub) (hub_senders st)\<rparr> else st)
       hub"

section \<open>Forwarding\<close>

text \<open>The identities the hub remembers are those it forwarded last.\<close>

definition last_n :: "nat \<Rightarrow> 'a list \<Rightarrow> 'a list" where
  "last_n n xs = drop (length xs - n) xs"

definition hub_remembers :: "session_runtime_event_hub_state \<Rightarrow> (session_id \<Rightarrow> ulid list) \<Rightarrow> bool" where
  "hub_remembers st forwarded \<longleftrightarrow>
     1 \<le> hub_buffer st \<and>
     (\<forall>s. or_default [] (hm_get (hub_order st) s) = last_n (hub_buffer st) (forwarded s) \<and>
          or_default {} (hm_get (hub_ids st) s) = set (last_n (hub_buffer st) (forwarded s)) \<and>
          distinct (last_n (hub_buffer st) (forwarded s)))"

lemma last_n_snoc:
  "1 \<le> n \<Longrightarrow> last_n n (xs @ [x]) =
     (if n < length (last_n n xs @ [x]) then tl (last_n n xs @ [x]) else last_n n xs @ [x])"
proof (cases "length xs < n")
  case False
  moreover assume "1 \<le> n"
  ultimately have "drop (length xs - n) xs \<noteq> []" by simp
  then show ?thesis using False \<open>1 \<le> n\<close>
    by (simp add: last_n_def Suc_diff_le drop_Suc tl_append2 tl_drop)
qed (simp add: last_n_def)

text \<open>One event: forwarded exactly if it is not among the last \<open>buffer\<close> forwarded of its session.\<close>

lemma hub_publish_remembers:
  assumes "hub_remembers st forwarded"
  shows "hub_remembers (fst (hub_publish st event))
      (if re_id event \<in> set (last_n (hub_buffer st) (forwarded (re_session_id event))) then forwarded
       else forwarded(re_session_id event := forwarded (re_session_id event) @ [re_id event]))"
    and "snd (hub_publish st event) =
      (if re_id event \<in> set (last_n (hub_buffer st) (forwarded (re_session_id event))) then None
       else map_option (\<lambda>c. (c, event)) (hm_get (hub_senders st) (re_session_id event)))"
    and "hub_senders (fst (hub_publish st event)) = hub_senders st"
    and "hub_buffer (fst (hub_publish st event)) = hub_buffer st"
proof -
  let ?s = "re_session_id event" and ?i = "re_id event"
  let ?last = "last_n (hub_buffer st) (forwarded ?s)"
  have b: "1 \<le> hub_buffer st" and ord: "or_default [] (hm_get (hub_order st) ?s) = ?last"
    and ids: "or_default {} (hm_get (hub_ids st) ?s) = set ?last" and dist: "distinct ?last"
    using assms by (auto simp: hub_remembers_def)
  show "snd (hub_publish st event) =
      (if ?i \<in> set ?last then None else map_option (\<lambda>c. (c, event)) (hm_get (hub_senders st) ?s))"
    by (simp add: hub_publish_def Let_def ids split_beta)
  show "hub_senders (fst (hub_publish st event)) = hub_senders st"
    "hub_buffer (fst (hub_publish st event)) = hub_buffer st"
    by (simp_all add: hub_publish_def Let_def split_beta)
  show "hub_remembers (fst (hub_publish st event))
      (if ?i \<in> set ?last then forwarded else forwarded(?s := forwarded ?s @ [?i]))"
  proof (cases "?i \<in> set ?last")
    case True
    with assms ids show ?thesis by (simp add: hub_publish_def Let_def)
  next
    case False
    have new: "last_n (hub_buffer st) (forwarded ?s @ [?i]) =
        (if hub_buffer st < length (?last @ [?i]) then tl (?last @ [?i]) else ?last @ [?i])"
      by (rule last_n_snoc [OF b])
    have "distinct (?last @ [?i])" using False dist by simp
    then have "distinct (tl (?last @ [?i]))"
      and "set (tl (?last @ [?i])) = insert ?i (set ?last) - {hd (?last @ [?i])}"
      by (cases ?last; force)+
    then show ?thesis using False dist assms b
      by (auto simp: hub_publish_def Let_def ids ord hub_remembers_def new or_default_def split_beta)
  qed
qed

lemma hub_other_steps:
  "hub_remembers (fst (hub_subscribe c st s)) forwarded = hub_remembers st forwarded"
  "drop_subscription (Some st) sub n = Some st' \<Longrightarrow> hub_remembers st' forwarded = hub_remembers st forwarded"
  by (auto simp: hub_subscribe_def drop_subscription_def Let_def hub_remembers_def split: if_splits)

section \<open>The machine\<close>

text \<open>
  A hub with what it did: the identities forwarded for each session, the sends, and the session each channel was
  created for. A created channel is a new one.
\<close>

record hub_world =
  hw_hub :: session_runtime_event_hub_state
  hw_forwarded :: "session_id \<Rightarrow> ulid list"
  hw_sent :: "(channel_id \<times> runtime_event) list"
  hw_owner :: "channel_id \<Rightarrow> session_id option"

definition hub_init :: "hub_world \<Rightarrow> bool" where
  "hub_init w \<longleftrightarrow>
     (\<exists>n. w = \<lparr>hw_hub = new_hub n, hw_forwarded = (\<lambda>_. []), hw_sent = [], hw_owner = (\<lambda>_. None)\<rparr>)"

definition published :: "hub_world \<Rightarrow> runtime_event \<Rightarrow> hub_world" where
  "published w event =
     (let (hub', sent) = hub_publish (hw_hub w) event;
          s = re_session_id event
      in w\<lparr>hw_hub := hub', hw_sent := hw_sent w @ opt_list sent,
           hw_forwarded := (if re_id event \<in> or_default {} (hm_get (hub_ids (hw_hub w)) s) then hw_forwarded w
                            else (hw_forwarded w)(s := hw_forwarded w s @ [re_id event]))\<rparr>)"

inductive hub_step :: "hub_world \<Rightarrow> hub_world \<Rightarrow> bool" where
  hs_publish: "hub_step w (published w event)"
| hs_subscribe: "hw_owner w c = None \<Longrightarrow>
    hub_step w (w\<lparr>hw_hub := fst (hub_subscribe c (hw_hub w) s),
      hw_owner := (if hm_contains (hub_senders (hw_hub w)) s then hw_owner w else (hw_owner w)(c := Some s))\<rparr>)"
| hs_drop: "drop_subscription (Some (hw_hub w)) sub n = Some hub' \<Longrightarrow> hub_step w (w\<lparr>hw_hub := hub'\<rparr>)"

definition hub_inv :: "hub_world \<Rightarrow> bool" where
  "hub_inv w \<longleftrightarrow>
     hub_remembers (hw_hub w) (hw_forwarded w) \<and>
     (\<forall>s c. hm_get (hub_senders (hw_hub w)) s = Some c \<longrightarrow> hw_owner w c = Some s) \<and>
     (\<forall>c e. (c, e) \<in> set (hw_sent w) \<longrightarrow> hw_owner w c = Some (re_session_id e))"

lemma published_inv:
  assumes "hub_inv w"
  shows "hub_inv (published w event)"
proof -
  let ?s = "re_session_id event" and ?st = "hw_hub w"
  have rem: "hub_remembers ?st (hw_forwarded w)" using assms by (simp add: hub_inv_def)
  have ids: "or_default {} (hm_get (hub_ids ?st) ?s) = set (last_n (hub_buffer ?st) (hw_forwarded w ?s))"
    using rem by (simp add: hub_remembers_def)
  note step = hub_publish_remembers [OF rem, of event]
  have "hub_remembers (hw_hub (published w event)) (hw_forwarded (published w event))"
    using step(1) ids by (simp add: published_def Let_def split_beta)
  moreover have "hub_senders (hw_hub (published w event)) = hub_senders ?st" "hw_owner (published w event) = hw_owner w"
    using step(3) by (simp_all add: published_def Let_def split_beta)
  moreover have "set (hw_sent (published w event)) \<subseteq>
      set (hw_sent w) \<union> {(c, event) |c. hm_get (hub_senders ?st) ?s = Some c}"
    using step(2) by (cases "hm_get (hub_senders ?st) ?s") (auto simp: published_def Let_def split_beta)
  ultimately show ?thesis using assms unfolding hub_inv_def by fastforce
qed

lemma published_steps: "hub_step\<^sup>*\<^sup>* w0 w \<Longrightarrow> hub_step\<^sup>*\<^sup>* w0 (published w event)"
  by (erule rtranclp.rtrancl_into_rtrancl) (rule hs_publish)

lemma hub_step_inv: "hub_inv w \<Longrightarrow> hub_step w w' \<Longrightarrow> hub_inv w'"
proof -
  assume inv: "hub_inv w"
  assume "hub_step w w'"
  then show "hub_inv w'"
  proof cases
    case (hs_publish event)
    with inv show ?thesis by (simp add: published_inv)
  next
    case (hs_subscribe c s)
    show ?thesis
    proof (cases "hm_get (hub_senders (hw_hub w)) s")
      case None
      with inv hs_subscribe show ?thesis
        by (auto simp: hub_inv_def hub_remembers_def hm_contains_def hub_subscribe_def Let_def or_default_def)
    next
      case (Some c0)
      with inv hs_subscribe show ?thesis
        by (auto simp: hub_inv_def hub_other_steps hm_contains_def hub_subscribe_def Let_def or_default_def
              hub_remembers_def)
    qed
  next
    case (hs_drop sub n hub')
    with inv show ?thesis
      by (auto simp: hub_inv_def hub_other_steps drop_subscription_def hub_remembers_def split: if_splits)
  qed
qed

lemma hub_init_inv: "hub_init w \<Longrightarrow> hub_inv w"
  by (auto simp: hub_init_def hub_inv_def hub_remembers_def new_hub_def or_default_def last_n_def)

interpretation hubs: invariant_machine hub_init hub_step hub_inv
  by unfold_locales (auto intro: hub_init_inv hub_step_inv)

section \<open>What a subscriber sees\<close>

lemma recv_live_rest:
  "recv_live sub outcomes = (sub', Some r, rest) \<Longrightarrow>
   length rest < length outcomes \<and> sub_backfill sub' = sub_backfill sub"
  by (induction sub outcomes rule: recv_live.induct) (auto split: if_splits)

text \<open>All calls of \<open>recv\<close> until the outcomes are used up.\<close>

function recv_all ::
  "session_runtime_event_subscription \<Rightarrow> (runtime_event, channel_error) result list \<Rightarrow>
   (runtime_event, runtime_error) result list" where
  "recv_all sub outcomes =
     (case recv sub outcomes of
        (_, None, _) \<Rightarrow> []
      | (sub', Some r, rest) \<Rightarrow> r # recv_all sub' rest)"
  by pat_completeness auto

termination
proof (relation "measure (\<lambda>(sub, outcomes). length (sub_backfill sub) + length outcomes)", goal_cases)
  case (2 sub outcomes p q sub' r rest)
  then show ?case
    by (auto simp: recv_def split: list.splits dest: recv_live_rest [OF sym])
qed simp

declare recv_all.simps [simp del]

lemma recv_all_live:
  assumes "sub_backfill sub = []" and "\<forall>e \<in> set events. re_session_id e = sub_session_id sub"
    and "distinct (map re_id events)"
  shows "recv_all sub (map Inr events) = map Ok (filter (\<lambda>e. re_id e \<notin> sub_backfill_event_ids sub) events)"
  using assms
proof (induction events arbitrary: sub)
  case Nil
  then show ?case by (simp add: recv_all.simps recv_def)
next
  case (Cons e events)
  show ?case
  proof (cases "re_id e \<in> sub_backfill_event_ids sub")
    case True
    let ?sub = "sub\<lparr>sub_backfill_event_ids := sub_backfill_event_ids sub - {re_id e}\<rparr>"
    have "recv_all sub (map Inr (e # events)) = recv_all ?sub (map Inr events)"
      using True Cons.prems by (subst (1 2) recv_all.simps) (simp add: recv_def)
    moreover have "filter (\<lambda>x. re_id x \<notin> sub_backfill_event_ids ?sub) events =
        filter (\<lambda>x. re_id x \<notin> sub_backfill_event_ids sub) events"
      using Cons.prems(3) by (intro filter_cong) (auto simp: image_iff)
    ultimately show ?thesis using Cons.IH [of ?sub] Cons.prems True by simp
  next
    case False
    have "recv_all sub (map Inr (e # events)) = Ok e # recv_all sub (map Inr events)"
      using False Cons.prems by (subst recv_all.simps) (simp add: recv_def)
    with False Cons show ?thesis by simp
  qed
qed

lemma recv_all_backfill:
  "recv_all sub outcomes = map Ok (sub_backfill sub) @ recv_all (sub\<lparr>sub_backfill := []\<rparr>) outcomes"
proof (induction "sub_backfill sub" arbitrary: sub)
  case Nil
  then have "sub\<lparr>sub_backfill := []\<rparr> = sub" by simp
  with Nil show ?case by (metis append_Nil list.map(1))
next
  case (Cons e rest)
  have "recv_all sub outcomes = Ok e # recv_all (sub\<lparr>sub_backfill := rest\<rparr>) outcomes"
    using Cons.hyps(2) by (subst recv_all.simps) (simp add: recv_def flip: Cons.hyps(2))
  with Cons.hyps(1) [of "sub\<lparr>sub_backfill := rest\<rparr>"] show ?case by (simp flip: Cons.hyps(2))
qed

lemma bounded_backfill_last: "fst (bounded_backfill backfill n) = last_n MAX_PROTOCOL_PAGE_LIMIT backfill"
  by (simp add: bounded_backfill_def last_n_def Let_def)

section \<open>Properties\<close>


definition hub_demo_event :: "nat \<Rightarrow> runtime_event" where
  "hub_demo_event i =
     \<lparr>re_id = i, re_session_id = 7, re_turn_id = 0, re_sequence_no = int i, re_created_at_ms = 0, re_msg = MsgWarning []\<rparr>"

definition hub_demo :: hub_world where
  "hub_demo = (let w0 = \<lparr>hw_hub = new_hub 4, hw_forwarded = (\<lambda>_. []), hw_sent = [], hw_owner = (\<lambda>_. None)\<rparr>;
       w1 = w0\<lparr>hw_hub := fst (hub_subscribe 3 (hw_hub w0) 7), hw_owner := (\<lambda>_. None)(3 := Some 7)\<rparr>
     in published (published (published w1 (hub_demo_event 1)) (hub_demo_event 2)) (hub_demo_event 2))"


end
