(* ===== verification/Event_Recording.thy ===== *)
theory Event_Recording
  imports Event_Hub
begin

text \<open>
  Recording and fan-out of a run's events, \<open>src/src/protocol/recording.rs\<close>: the sink that stores what a run
  emits and publishes the committed events of its turn to live observers, and the projector that
  replays stored events of a session. Harness and hub never influence what is stored. The
  harness store is the argument \<open>harness\<close>, the sink behind this one the state \<open>'i\<close> with the functions of a
  record.
\<close>

section \<open>Fan-out\<close>

text \<open>The hub, and what was done so far: events given to the hub, sends, and terminals given to the harness.\<close>

record fan_out =
  fo_hub :: session_runtime_event_hub_state
  fo_published :: "runtime_event list"
  fo_sent :: "(channel_id \<times> runtime_event) list"
  fo_terminals :: "runtime_event list"

definition publish_to_hub :: "fan_out \<Rightarrow> runtime_event \<Rightarrow> fan_out" where
  "publish_to_hub fo event =
     (let (hub', sent) = hub_publish (fo_hub fo) event
      in fo\<lparr>fo_hub := hub', fo_published := fo_published fo @ [event], fo_sent := fo_sent fo @ opt_list sent\<rparr>)"

record canonical_runtime_projection_report =
  pr_event_count :: nat
  pr_harness_projection_errors :: "ustr list"
  pr_live_publish_errors :: "ustr list"

definition empty_report :: canonical_runtime_projection_report where
  "empty_report = \<lparr>pr_event_count = 0, pr_harness_projection_errors = [], pr_live_publish_errors = []\<rparr>"

definition is_clean :: "canonical_runtime_projection_report \<Rightarrow> bool" where
  "is_clean report \<longleftrightarrow> pr_harness_projection_errors report = [] \<and> pr_live_publish_errors report = []"

definition merge_reports ::
  "canonical_runtime_projection_report \<Rightarrow> canonical_runtime_projection_report \<Rightarrow>
   canonical_runtime_projection_report" where
  "merge_reports a b =
     \<lparr>pr_event_count = sat_add (pr_event_count a) (pr_event_count b),
      pr_harness_projection_errors = pr_harness_projection_errors a @ pr_harness_projection_errors b,
      pr_live_publish_errors = pr_live_publish_errors a @ pr_live_publish_errors b\<rparr>"

text \<open>Publishing to the hub always succeeds.\<close>

definition project_event ::
  "(runtime_event \<Rightarrow> (unit, ustr) result) \<Rightarrow> fan_out \<Rightarrow> runtime_event \<Rightarrow>
   fan_out \<times> canonical_runtime_projection_report" where
  "project_event harness fo event =
     (let (fo1, errors) =
            (if is_terminal_msg (re_msg event)
             then (fo\<lparr>fo_terminals := fo_terminals fo @ [event]\<rparr>,
                   case harness event of Inl e \<Rightarrow> [e] | Inr _ \<Rightarrow> [])
             else (fo, []))
      in (publish_to_hub fo1 event,
          \<lparr>pr_event_count = 1, pr_harness_projection_errors = errors, pr_live_publish_errors = []\<rparr>))"

fun project_page ::
  "(runtime_event \<Rightarrow> (unit, ustr) result) \<Rightarrow> fan_out \<Rightarrow> canonical_runtime_projection_report \<Rightarrow>
   runtime_event list \<Rightarrow> fan_out \<times> canonical_runtime_projection_report" where
  "project_page harness fo report [] = (fo, report)"
| "project_page harness fo report (event # events) =
     (let (fo', r) = project_event harness fo event
      in project_page harness fo' (merge_reports report r) events)"

definition latest_cursor :: "protocol_db \<Rightarrow> session_id \<Rightarrow> (int option, storage_error) result" where
  "latest_cursor db session =
     and_then (latest_runtime_event_page_for_session db session 1) (\<lambda>page. Ok (pg_next_cursor page))"

lemma read_all_Inr: "read_all Inr rows = Ok (map snd rows)"
  by (induction rows) auto

lemma cursor_page_shape:
  assumes "runtime_event_cursor_page_for_session db session cursor MAX_PROTOCOL_PAGE_LIMIT = Ok page"
  shows "pg_items page = map snd (take 200 (after_cursor cursor (event_rows db session)))"
    and "pg_next_cursor page = last_position (take 200 (after_cursor cursor (event_rows db session)))"
  using assms
  by (auto simp: runtime_event_cursor_page_for_session_def runtime_event_page_from_connection_def page_of_rows_def
        resolve_page_def MAX_PROTOCOL_PAGE_LIMIT_def and_then_Ok_iff read_all_Inr Let_def)

text \<open>The cursor of a page that is not empty leaves fewer rows to come.\<close>

lemma after_cursor_mono: "set (take n (after_cursor c rows)) \<subseteq> set (after_cursor c rows)"
  by (rule set_take_subset)

lemma cursor_decreases:
  assumes "take 200 (after_cursor c rows) \<noteq> []"
  shows "length (after_cursor (last_position (take 200 (after_cursor c rows))) rows) < length (after_cursor c rows)"
proof -
  let ?page = "take 200 (after_cursor c rows)"
  have last: "last ?page \<in> set (after_cursor c rows)" using assms last_in_set after_cursor_mono by blast
  let ?n = "fst (last ?page)"
  have next_cursor: "last_position ?page = Some ?n" using assms by (simp add: last_position_def)
  have sub: "after_cursor (Some ?n) rows = filter (\<lambda>r. ?n < fst r) (after_cursor c rows)"
    using last by (auto simp: after_cursor_def split_beta split: option.splits intro!: filter_cong)
  have "length (filter (\<lambda>r. ?n < fst r) (after_cursor c rows)) < length (after_cursor c rows)"
    using last by (intro length_filter_less [of "last ?page"]) auto
  then show ?thesis unfolding next_cursor sub .
qed

function project_loop ::
  "(runtime_event \<Rightarrow> (unit, ustr) result) \<Rightarrow> protocol_db \<Rightarrow> session_id \<Rightarrow> int option \<Rightarrow> fan_out \<Rightarrow>
   canonical_runtime_projection_report \<Rightarrow>
   fan_out \<times> (canonical_runtime_projection_report, storage_error) result" where
  "project_loop harness db session cursor fo report =
     (case runtime_event_cursor_page_for_session db session cursor MAX_PROTOCOL_PAGE_LIMIT of
        Inl e \<Rightarrow> (fo, Err e)
      | Inr page \<Rightarrow>
          if pg_items page = [] then (fo, Ok report)
          else let (fo', report') = project_page harness fo report (pg_items page)
               in if length (pg_items page) < MAX_PROTOCOL_PAGE_LIMIT then (fo', Ok report')
                  else if pg_next_cursor page = cursor then (fo', Err (ProjectionCursorStuck session))
                  else project_loop harness db session (pg_next_cursor page) fo' report')"
  by pat_completeness auto

termination
proof (relation "measure (\<lambda>(harness, db, session, cursor, fo, report).
    length (after_cursor cursor (event_rows db session)))", goal_cases)
  case (2 harness db session cursor fo report page x y z)
  with cursor_page_shape [OF 2(1)] cursor_decreases [of cursor "event_rows db session"] show ?case by simp
qed simp

definition project_after_cursor ::
  "(runtime_event \<Rightarrow> (unit, ustr) result) \<Rightarrow> protocol_db \<Rightarrow> fan_out \<Rightarrow> session_id \<Rightarrow> int option \<Rightarrow>
   fan_out \<times> (canonical_runtime_projection_report, storage_error) result" where
  "project_after_cursor harness db fo session cursor = project_loop harness db session cursor fo empty_report"

section \<open>The recording sink\<close>

record 'i recording_sink =
  rs_fallback_session_id :: "session_id option"
  rs_turn_id :: turn_id
  rs_admission_id :: "nat option"
  rs_next_sequence_no :: int
  rs_published_runtime_sequence_no :: "int option"
  rs_committed_terminal_fanout_attempted :: bool
  rs_has_publisher :: bool
  rs_has_projector :: bool
  rs_inner :: 'i

text \<open>The three operations of the sink behind.\<close>

record 'i run_event_sink =
  in_emit :: "'i \<Rightarrow> run_event \<Rightarrow> 'i \<times> (unit, runtime_error) result"
  in_emit_committed :: "'i \<Rightarrow> run_event \<Rightarrow> 'i \<times> (unit, runtime_error) result"
  in_emit_runtime_only :: "'i \<Rightarrow> run_event \<Rightarrow> 'i \<times> (unit, runtime_error) result"

definition new_recording_sink :: "session_id option \<Rightarrow> turn_id \<Rightarrow> 'i \<Rightarrow> 'i recording_sink" where
  "new_recording_sink fallback turn inner =
     \<lparr>rs_fallback_session_id = fallback, rs_turn_id = turn, rs_admission_id = None, rs_next_sequence_no = 0,
      rs_published_runtime_sequence_no = None, rs_committed_terminal_fanout_attempted = False,
      rs_has_publisher = False, rs_has_projector = False, rs_inner = inner\<rparr>"

definition sync_next_sequence_no_from_store :: "protocol_db \<Rightarrow> 'i recording_sink \<Rightarrow> 'i recording_sink" where
  "sync_next_sequence_no_from_store db sink =
     (case rs_fallback_session_id sink of
        None \<Rightarrow> sink
      | Some session \<Rightarrow>
          (case latest_turn_position_for_session db session of
             None \<Rightarrow> sink
           | Some (turn, next_no) \<Rightarrow>
               if turn = rs_turn_id sink \<and> rs_next_sequence_no sink < next_no
               then sink\<lparr>rs_next_sequence_no := next_no\<rparr> else sink))"

text \<open>\<open>None\<close>: the addition overflows.\<close>

definition reserve_sequence_no :: "protocol_db \<Rightarrow> 'i recording_sink \<Rightarrow> ('i recording_sink \<times> int) option" where
  "reserve_sequence_no db sink =
     (let sink' = sync_next_sequence_no_from_store db sink in
      if I64_MAX \<le> rs_next_sequence_no sink' then None
      else Some (sink'\<lparr>rs_next_sequence_no := rs_next_sequence_no sink' + 1\<rparr>, rs_next_sequence_no sink'))"

text \<open>With a projector an event goes through it, to the same hub; its report is only logged.\<close>

definition publish_committed_event ::
  "(runtime_event \<Rightarrow> (unit, ustr) result) \<Rightarrow> 'i recording_sink \<Rightarrow> fan_out \<Rightarrow> runtime_event \<Rightarrow>
   'i recording_sink \<times> fan_out" where
  "publish_committed_event harness sink fo event =
     (let n = re_sequence_no event;
          fo' = (if rs_has_projector sink then fst (project_event harness fo event) else publish_to_hub fo event)
      in (sink\<lparr>rs_next_sequence_no := max (rs_next_sequence_no sink) (i64_saturating_succ n),
               rs_published_runtime_sequence_no :=
                 Some (case rs_published_runtime_sequence_no sink of None \<Rightarrow> n | Some current \<Rightarrow> max current n)\<rparr>,
          fo'))"

fun publish_committed_page ::
  "(runtime_event \<Rightarrow> (unit, ustr) result) \<Rightarrow> 'i recording_sink \<Rightarrow> fan_out \<Rightarrow> runtime_event list \<Rightarrow>
   'i recording_sink \<times> fan_out" where
  "publish_committed_page harness sink fo [] = (sink, fo)"
| "publish_committed_page harness sink fo (event # events) =
     (let (sink', fo') = publish_committed_event harness sink fo event
      in publish_committed_page harness sink' fo' events)"

definition events_after :: "protocol_db \<Rightarrow> session_id \<Rightarrow> turn_id \<Rightarrow> int option \<Rightarrow> runtime_event list" where
  "events_after db session turn after =
     filter (\<lambda>e. re_session_id e = session \<and> re_turn_id e = turn \<and>
                 (case after of None \<Rightarrow> True | Some n \<Rightarrow> n < re_sequence_no e)) (db_events db)"

lemma turn_page_shape:
  assumes "runtime_event_page_for_turn_after_sequence db session turn after MAX_PROTOCOL_PAGE_LIMIT = Ok events"
  shows "events = take 200 (sort_key re_sequence_no (events_after db session turn after))"
  using assms by (simp add: runtime_event_page_for_turn_after_sequence_def MAX_PROTOCOL_PAGE_LIMIT_def events_after_def)

lemma publish_page_marker:
  "rs_turn_id (fst (publish_committed_page harness sink fo events)) = rs_turn_id sink"
  "events \<noteq> [] \<Longrightarrow> \<exists>n. rs_published_runtime_sequence_no (fst (publish_committed_page harness sink fo events)) = Some n \<and>
     (\<forall>e \<in> set events. re_sequence_no e \<le> n) \<and>
     (\<forall>m. rs_published_runtime_sequence_no sink = Some m \<longrightarrow> m \<le> n)"
proof (induction events arbitrary: sink fo)
  case (Cons e events)
  { case 1
    show ?case using Cons.IH(1) by (simp add: publish_committed_event_def Let_def) }
  { case 2
    let ?sink = "fst (publish_committed_event harness sink fo e)"
    have now: "\<exists>n. rs_published_runtime_sequence_no ?sink = Some n \<and> re_sequence_no e \<le> n \<and>
        (\<forall>m. rs_published_runtime_sequence_no sink = Some m \<longrightarrow> m \<le> n)"
      by (simp add: publish_committed_event_def Let_def split: option.split)
    show ?case
    proof (cases "events = []")
      case True
      with now show ?thesis by (simp add: split_beta)
    next
      case False
      from Cons.IH(2) [OF this, of ?sink "snd (publish_committed_event harness sink fo e)"] now
      show ?thesis by (fastforce simp: split_beta)
    qed }
qed simp_all

text \<open>What is left after the marker of a page that is not empty.\<close>

lemma marker_decreases:
  assumes "events = take 200 (sort_key re_sequence_no (events_after db session turn after))" and "events \<noteq> []"
    and "\<forall>e \<in> set events. re_sequence_no e \<le> n" and "\<forall>m. after = Some m \<longrightarrow> m \<le> n"
  shows "length (events_after db session turn (Some n)) < length (events_after db session turn after)"
proof -
  from assms(2) obtain e where e: "e \<in> set events" by (cases events) auto
  then have mem: "e \<in> set (events_after db session turn after)" using assms(1) by (metis in_set_takeD set_sort)
  have "events_after db session turn (Some n) = filter (\<lambda>e. n < re_sequence_no e) (events_after db session turn after)"
    using assms(4) by (auto simp: events_after_def split: option.splits intro!: filter_cong)
  moreover have "length (filter (\<lambda>e. n < re_sequence_no e) (events_after db session turn after)) <
      length (events_after db session turn after)"
    using mem e assms(3) by (intro length_filter_less [of e]) auto
  ultimately show ?thesis by simp
qed

function publish_committed_loop ::
  "(runtime_event \<Rightarrow> (unit, ustr) result) \<Rightarrow> protocol_db \<Rightarrow> session_id \<Rightarrow> 'i recording_sink \<Rightarrow> fan_out \<Rightarrow>
   'i recording_sink \<times> fan_out \<times> (unit, runtime_error) result" where
  "publish_committed_loop harness db session sink fo =
     (case runtime_event_page_for_turn_after_sequence db session (rs_turn_id sink)
             (rs_published_runtime_sequence_no sink) MAX_PROTOCOL_PAGE_LIMIT of
        Inl e \<Rightarrow> (sink, fo, Err (StorageFailed e))
      | Inr events \<Rightarrow>
          if events = [] then (sink, fo, Ok ())
          else let (sink', fo') = publish_committed_page harness sink fo events
               in if length events < MAX_PROTOCOL_PAGE_LIMIT then (sink', fo', Ok ())
                  else publish_committed_loop harness db session sink' fo')"
  by pat_completeness auto

termination
proof (relation "measure (\<lambda>(harness, db, session, sink, fo).
    length (events_after db session (rs_turn_id sink) (rs_published_runtime_sequence_no sink)))", goal_cases)
  case (2 harness db session sink fo events p sink' fo')
  have sink': "sink' = fst (publish_committed_page harness sink fo events)" using 2(3,4) by (metis fst_conv)
  note shape = turn_page_shape [OF 2(1)]
  from publish_page_marker(2) [OF 2(2), of harness sink fo] obtain n where
    n: "rs_published_runtime_sequence_no sink' = Some n" "\<forall>e \<in> set events. re_sequence_no e \<le> n"
    "\<forall>m. rs_published_runtime_sequence_no sink = Some m \<longrightarrow> m \<le> n" unfolding sink' by blast
  from marker_decreases [OF shape 2(2) n(2,3)] show ?case
    using n(1) publish_page_marker(1) [of harness sink fo events] by (simp add: sink')
qed simp

definition publish_committed_runtime_events ::
  "(runtime_event \<Rightarrow> (unit, ustr) result) \<Rightarrow> protocol_db \<Rightarrow> 'i recording_sink \<Rightarrow> fan_out \<Rightarrow>
   'i recording_sink \<times> fan_out \<times> (unit, runtime_error) result" where
  "publish_committed_runtime_events harness db sink fo =
     (case rs_fallback_session_id sink of
        Some session \<Rightarrow>
          if rs_has_publisher sink then publish_committed_loop harness db session sink fo else (sink, fo, Ok ())
      | None \<Rightarrow> (sink, fo, Ok ()))"

definition to_inner ::
  "('i \<Rightarrow> run_event \<Rightarrow> 'i \<times> (unit, runtime_error) result) \<Rightarrow> 'i recording_sink \<Rightarrow> run_event \<Rightarrow>
   'i recording_sink \<times> (unit, runtime_error) result" where
  "to_inner f sink event = (let (i', r) = f (rs_inner sink) event in (sink\<lparr>rs_inner := i'\<rparr>, r))"

fun is_turn_terminal :: "run_event \<Rightarrow> bool" where
  "is_turn_terminal (TurnTerminal _ _) = True"
| "is_turn_terminal _ = False"

definition emit_committed ::
  "(runtime_event \<Rightarrow> (unit, ustr) result) \<Rightarrow> 'i run_event_sink \<Rightarrow> protocol_db \<Rightarrow> 'i recording_sink \<Rightarrow> fan_out \<Rightarrow>
   run_event \<Rightarrow> 'i recording_sink \<times> fan_out \<times> (unit, runtime_error) result" where
  "emit_committed harness inner db sink fo event =
     (case validate_run_event_durability event Committed (lit ''ProtocolRecordingSink::emit_committed'') of
        Inl e \<Rightarrow> (sink, fo, Err e)
      | Inr _ \<Rightarrow>
          if is_turn_terminal event
          then let (sink1, inner_result) =
                     to_inner (in_emit_committed inner) (sink\<lparr>rs_committed_terminal_fanout_attempted := True\<rparr>) event;
                   (sink2, fo', _) = publish_committed_runtime_events harness db sink1 fo
               in (sink2, fo', inner_result)
          else (case publish_committed_runtime_events harness db sink fo of
                  (sink1, fo', Inl e) \<Rightarrow> (sink1, fo', Err e)
                | (sink1, fo', Inr _) \<Rightarrow>
                    let (sink2, r) = to_inner (in_emit_committed inner) sink1 event in (sink2, fo', r)))"

definition emit_runtime_only ::
  "'i run_event_sink \<Rightarrow> 'i recording_sink \<Rightarrow> run_event \<Rightarrow> 'i recording_sink \<times> (unit, runtime_error) result" where
  "emit_runtime_only inner sink event =
     (case validate_run_event_durability event RuntimeOnly (lit ''ProtocolRecordingSink::emit_runtime_only'') of
        Inl e \<Rightarrow> (sink, Err e)
      | Inr _ \<Rightarrow> to_inner (in_emit_runtime_only inner) sink event)"

text \<open>\<open>ownership\<close>: what the query for the fresh active admission of the turn returns.\<close>

definition append_for_sink ::
  "(db_row \<Rightarrow> bool) \<Rightarrow> protocol_db \<Rightarrow> (bool, storage_error) result \<Rightarrow> 'i recording_sink \<Rightarrow>
   protocol_run_event_projection \<Rightarrow> (protocol_db \<times> stored_protocol_event_bundle, runtime_error) result" where
  "append_for_sink refused db ownership sink p =
     (case rs_admission_id sink of
        Some admission \<Rightarrow>
          (case append_admitted_recording_projection_allocating refused db ownership
                  (pp_runtime_event p) (pp_history_item p) (pp_turn_item p) of
             Inl e \<Rightarrow> Err (StorageFailed e)
           | Inr (db', None) \<Rightarrow> Err (AdmissionNotOwner admission (rs_turn_id sink))
           | Inr (db', Some stored) \<Rightarrow> Ok (db', stored))
      | None \<Rightarrow>
          (case append_recording_projection_allocating refused db
                  (pp_runtime_event p) (pp_history_item p) (pp_turn_item p) of
             Inl e \<Rightarrow> Err (StorageFailed e)
           | Inr r \<Rightarrow> Ok r))"

text \<open>\<open>None\<close>: the projection panics.\<close>

definition emit ::
  "(json \<Rightarrow> plan_step list option) \<Rightarrow> fresh_values \<Rightarrow> (db_row \<Rightarrow> bool) \<Rightarrow> (bool, storage_error) result \<Rightarrow>
   (runtime_event \<Rightarrow> (unit, ustr) result) \<Rightarrow> 'i run_event_sink \<Rightarrow> protocol_db \<Rightarrow> 'i recording_sink \<Rightarrow> fan_out \<Rightarrow>
   run_event \<Rightarrow> (protocol_db \<times> 'i recording_sink \<times> fan_out \<times> (unit, runtime_error) result) option" where
  "emit read_plan fv refused ownership harness inner db sink fo event =
     (let sink0 = sync_next_sequence_no_from_store db sink in
      map_option (\<lambda>projection.
        case projection of
          None \<Rightarrow> (let (sink1, r) = to_inner (in_emit inner) sink0 event in (db, sink1, fo, r))
        | Some p \<Rightarrow>
            (case append_for_sink refused db ownership sink0 p of
               Inl e \<Rightarrow> (db, sink0, fo, Err e)
             | Inr (db', stored) \<Rightarrow>
                 let sink1 = sink0\<lparr>rs_next_sequence_no :=
                               i64_saturating_succ (re_sequence_no (sb_runtime_event stored))\<rparr>
                 in (case publish_committed_runtime_events harness db' sink1 fo of
                       (sink2, fo', Inl e) \<Rightarrow> (db', sink2, fo', Err e)
                     | (sink2, fo', Inr _) \<Rightarrow>
                         let (sink3, r) = to_inner (in_emit inner) sink2 event in (db', sink3, fo', r))))
        (project_protocol_run_event read_plan fv event (rs_fallback_session_id sink0) (rs_turn_id sink0)
           (rs_next_sequence_no sink0)))"

end
