(* ===== verification/Active_History.thy ===== *)
theory Active_History
  imports Protocol_Pages Context_Manager "HOL-Library.Product_Lexorder"
begin

text \<open>
  The active view of a stored history, \<open>src/src/protocol/store.rs\<close>: a statement selects the items that
  no committed compaction replaced and no stop of the agent tree withdrew, gives a compaction the
  position of the first item it stands for, and pages walk the view in that order. The hydration
  of a context (\<open>context_manager\<close> of \<open>src/src/app/run_service.rs\<close>) is the visitor that collects the pages.
\<close>

section \<open>Recursive statements\<close>

text \<open>
  A recursive \<open>UNION\<close> collects what is reachable from its start rows. \<open>graph\<close> lists the successors of
  a node. The statement on fences says \<open>UNION ALL\<close>: a session has one parent, so that the edges form a
  forest and no row comes twice.
\<close>

definition successors :: "('a \<times> 'a list) list \<Rightarrow> 'a \<Rightarrow> 'a list" where
  "successors graph x = concat (map snd (filter (\<lambda>(n, _). n = x) graph))"

function collect :: "('a \<times> 'a list) list \<Rightarrow> 'a list \<Rightarrow> 'a list \<Rightarrow> 'a list" where
  "collect graph seen [] = seen"
| "collect graph seen (x # work) =
     (if x \<in> set seen then collect graph seen work
      else collect graph (x # seen) (successors graph x @ work))"
  by pat_completeness auto

termination
proof (relation "(\<lambda>(graph, seen, work). card (fst ` set graph - set seen)) <*mlex*>
    measure (\<lambda>(graph, seen, work). length work)", goal_cases)
  case 1
  show ?case by (simp add: wf_mlex)
next
  case (2 graph seen x work)
  then show ?case by (simp add: mlex_leq)
next
  case (3 graph seen x work)
  show ?case
  proof (cases "x \<in> fst ` set graph")
    case True
    with 3 have "fst ` set graph - set (x # seen) \<subset> fst ` set graph - set seen" by auto
    then have "card (fst ` set graph - set (x # seen)) < card (fst ` set graph - set seen)"
      by (intro psubset_card_mono) simp_all
    then show ?thesis by (simp add: mlex_less)
  next
    case False
    then have "fst ` set graph - set (x # seen) = fst ` set graph - set seen" by auto
    moreover have "successors graph x = []" using False by (force simp: successors_def filter_empty_conv)
    ultimately show ?thesis by (simp add: mlex_leq)
  qed
qed

section \<open>The statement\<close>

text \<open>The sessions a stop fence covers: the stopped one and its descendants in the tree of the fence.\<close>

definition fenced_scope :: "protocol_db \<Rightarrow> stop_fence \<Rightarrow> session_id list" where
  "fenced_scope db fence =
     collect (map (\<lambda>e. (se_parent_session_id e, [se_child_session_id e]))
                (filter (\<lambda>e. se_root_session_id e = sf_root_session_id fence) (db_edges db)))
       [] [sf_stopped_session_id fence]"

fun triggers_turn :: "history_item_payload \<Rightarrow> bool" where
  "triggers_turn (InterAgentCommunication c) = iac_trigger_turn c"
| "triggers_turn _ = False"

definition withdrawn :: "protocol_db \<Rightarrow> session_id \<Rightarrow> int \<times> history_item \<Rightarrow> bool" where
  "withdrawn db session row \<longleftrightarrow>
     hi_scope (snd row) = Session \<and> triggers_turn (hi_payload (snd row)) \<and>
     list_ex (\<lambda>fence. session \<in> set (fenced_scope db fence) \<and> fst row \<le> sf_after_append_position fence)
       (db_fences db)"

definition replacement_graph :: "history_item list \<Rightarrow> (history_item_id \<times> history_item_id list) list" where
  "replacement_graph items =
     List.map_filter (\<lambda>h. map_option (Pair (hi_id h)) (compaction_replaces (hi_payload h))) items"

definition replacement_tree ::
  "(history_item_id \<times> history_item_id list) list \<Rightarrow> history_item_id list \<Rightarrow> history_item_id list" where
  "replacement_tree graph ids = collect graph [] ids"

text \<open>\<open>orders\<close>: positions and identities of the history rows of the session.\<close>

definition effective_position ::
  "(history_item_id \<times> history_item_id list) list \<Rightarrow> (int \<times> history_item_id) list \<Rightarrow> int \<times> history_item \<Rightarrow> int" where
  "effective_position graph orders row =
     (case compaction_replaces (hi_payload (snd row)) of
        None \<Rightarrow> fst row
      | Some ids \<Rightarrow>
          (let tree = replacement_tree graph ids;
               positions = map fst (filter (\<lambda>(_, i). i \<in> set tree) orders)
           in if positions = [] then fst row else Min (set positions)))"

definition hidden_ids :: "history_item list \<Rightarrow> history_item_id list" where
  "hidden_ids items = concat (map snd (replacement_graph items))"

text \<open>The rows of the temporary table: effective position, append position, item.\<close>

definition active_rows :: "protocol_db \<Rightarrow> session_id \<Rightarrow> (int \<times> int \<times> history_item) list" where
  "active_rows db session =
     (let rows = history_rows db session;
          items = filter (\<lambda>h. hi_session_id h = session) (db_history db);
          graph = replacement_graph items;
          orders = map (\<lambda>a. (ap_position a, ap_source_id a)) (order_rows db HistorySource session)
      in map (\<lambda>row. (effective_position graph orders row, row))
           (filter (\<lambda>row. \<not> withdrawn db session row \<and> hi_id (snd row) \<notin> set (hidden_ids items)) rows))"

record active_history_traversal_bounds =
  tb_source_item_limit :: nat
  tb_active_item_limit :: nat

definition new_traversal_bounds ::
  "nat \<Rightarrow> nat \<Rightarrow> (active_history_traversal_bounds, storage_error) result" where
  "new_traversal_bounds source_item_limit active_item_limit =
     (if source_item_limit = 0 then Err SourceLimitZero
      else if active_item_limit = 0 then Err ActiveLimitZero
      else Ok \<lparr>tb_source_item_limit = source_item_limit, tb_active_item_limit = active_item_limit\<rparr>)"

record active_history_snapshot =
  ah_append_fence :: "int option"
  ah_canonical_count :: nat
  ah_active_count :: nat

text \<open>The temporary table and the snapshot that describes it.\<close>

definition prepare_active_history_snapshot ::
  "protocol_db \<Rightarrow> session_id \<Rightarrow> active_history_traversal_bounds option \<Rightarrow>
   ((int \<times> int \<times> history_item) list \<times> active_history_snapshot, storage_error) result" where
  "prepare_active_history_snapshot db session bounds =
     and_then (case bounds of
                 Some b \<Rightarrow> protocol_source_count_bounded db session HistorySource (tb_source_item_limit b)
               | None \<Rightarrow> protocol_source_count db session HistorySource) (\<lambda>canonical_count.
       let table = (case bounds of
                      Some b \<Rightarrow> take (tb_active_item_limit b + 1) (active_rows db session)
                    | None \<Rightarrow> active_rows db session);
           active_count = length table
       in if canonical_count < active_count then Err (ActiveExceedsCanonical session)
          else if (case bounds of Some b \<Rightarrow> tb_active_item_limit b < active_count | None \<Rightarrow> False)
          then Err (ActiveLimitExceeded (case bounds of Some b \<Rightarrow> tb_active_item_limit b | None \<Rightarrow> 0))
          else Ok (table, \<lparr>ah_append_fence = max_append_position db session,
                           ah_canonical_count = canonical_count, ah_active_count = active_count\<rparr>))"

section \<open>Pages of the view\<close>

type_synonym active_history_cursor = "int \<times> int"

record active_history_traversal_page =
  tp_items :: "history_item list"
  tp_next_cursor :: "active_history_cursor option"
  tp_has_more :: bool

definition cursor_less :: "active_history_cursor \<Rightarrow> active_history_cursor \<Rightarrow> bool" where
  "cursor_less c d \<longleftrightarrow> fst c < fst d \<or> fst c = fst d \<and> snd c < snd d"

definition row_cursor :: "int \<times> int \<times> history_item \<Rightarrow> active_history_cursor" where
  "row_cursor row = (fst row, fst (snd row))"

definition in_view_order :: "(int \<times> int \<times> history_item) list \<Rightarrow> (int \<times> int \<times> history_item) list" where
  "in_view_order table = sort_key row_cursor table"

definition active_history_keyset_page ::
  "(int \<times> int \<times> history_item) list \<Rightarrow> active_history_cursor option \<Rightarrow> nat \<Rightarrow>
   (active_history_traversal_page, storage_error) result" where
  "active_history_keyset_page table cursor limit =
     (let rows = take (limit + 1) (filter (\<lambda>row. case cursor of None \<Rightarrow> True | Some c \<Rightarrow> cursor_less c (row_cursor row))
                    (in_view_order table));
          kept = take limit rows
      in and_then (read_all decode_history (map snd rows)) (\<lambda>items.
           Ok \<lparr>tp_items = take limit items,
               tp_next_cursor = (if kept = [] then None else Some (row_cursor (last kept))),
               tp_has_more = limit < length items\<rparr>))"

record active_history_page =
  hp_items :: "history_item list"
  hp_has_more :: bool

record active_history_traversal_stats =
  ts_snapshot :: active_history_snapshot
  ts_pages :: nat
  ts_max_page_items :: nat

definition validate_active_history_page_limit :: "nat \<Rightarrow> (unit, storage_error) result" where
  "validate_active_history_page_limit limit =
     (if limit = 0 then Err PageLimitZero
      else if MAX_PROTOCOL_PAGE_LIMIT < limit then Err (PageLimitTooLarge limit) else Ok ())"

definition ensure_active_history_snapshot ::
  "session_id \<Rightarrow> active_history_snapshot \<Rightarrow> active_history_snapshot \<Rightarrow> (unit, storage_error) result" where
  "ensure_active_history_snapshot session expected actual =
     (if expected = actual then Ok () else Err (HistoryFenceChanged session))"

text \<open>The loop: visited items, pages, largest page and the state of the visitor.\<close>

function traverse_loop ::
  "session_id \<Rightarrow> (int \<times> int \<times> history_item) list \<Rightarrow> nat \<Rightarrow> nat \<Rightarrow>
   ('v \<Rightarrow> active_history_page \<Rightarrow> ('v, storage_error) result) \<Rightarrow> 'v \<Rightarrow> active_history_cursor option \<Rightarrow>
   nat \<Rightarrow> nat \<Rightarrow> nat \<Rightarrow> ('v \<times> nat \<times> nat \<times> nat, storage_error) result" where
  "traverse_loop session table active_count limit visitor v cursor traversed pages max_items =
     (if \<not> traversed < active_count then Ok (v, traversed, pages, max_items)
      else case active_history_keyset_page table cursor limit of
        Inl e \<Rightarrow> Err e
      | Inr page \<Rightarrow>
          (let item_count = length (tp_items page) in
           if item_count = 0 then Err (TraversalStuck session)
           else case tp_next_cursor page of
             None \<Rightarrow> Err (TraversalStuck session)
           | Some next_cursor \<Rightarrow>
               if (case cursor of None \<Rightarrow> False | Some previous \<Rightarrow> \<not> cursor_less previous next_cursor)
               then Err (TraversalStuck session)
               else if active_count < traversed + item_count then Err (TraversalBeyond session)
               else (case visitor v \<lparr>hp_items = tp_items page, hp_has_more = tp_has_more page\<rparr> of
                       Inl e \<Rightarrow> Err e
                     | Inr v' \<Rightarrow>
                         if tp_has_more page
                         then traverse_loop session table active_count limit visitor v' (Some next_cursor)
                                (traversed + item_count) (pages + 1) (max max_items item_count)
                         else Ok (v', traversed + item_count, pages + 1, max max_items item_count))))"
  by pat_completeness auto

termination
proof (relation "measure (\<lambda>(session, table, active_count, limit, visitor, v, cursor, traversed, pages, max_items).
    active_count - traversed)", goal_cases)
  case (2 session table active_count limit visitor v cursor traversed pages max_items page x y z)
  then show ?case by (cases "tp_items page") auto
qed simp

definition traverse_active_history_in_transaction_with_bounds ::
  "protocol_db \<Rightarrow> session_id \<Rightarrow> active_history_snapshot option \<Rightarrow> nat \<Rightarrow> active_history_traversal_bounds option \<Rightarrow>
   ('v \<Rightarrow> active_history_page \<Rightarrow> ('v, storage_error) result) \<Rightarrow> 'v \<Rightarrow>
   ('v \<times> active_history_traversal_stats, storage_error) result" where
  "traverse_active_history_in_transaction_with_bounds db session expected_snapshot limit bounds visitor v =
     and_then (validate_active_history_page_limit limit) (\<lambda>_.
     and_then (prepare_active_history_snapshot db session bounds) (\<lambda>(table, snapshot).
     and_then (case expected_snapshot of None \<Rightarrow> Ok ()
               | Some expected \<Rightarrow> ensure_active_history_snapshot session expected snapshot) (\<lambda>_.
     and_then (traverse_loop session table (ah_active_count snapshot) limit visitor v None 0 0 0)
       (\<lambda>(v', traversed, pages, max_items).
          if traversed \<noteq> ah_active_count snapshot then Err (TraversalShort session)
          else Ok (v', \<lparr>ts_snapshot = snapshot, ts_pages = pages, ts_max_page_items = max_items\<rparr>)))))"

definition visit_active_history_pages_for_session ::
  "protocol_db \<Rightarrow> session_id \<Rightarrow> nat \<Rightarrow> ('v \<Rightarrow> active_history_page \<Rightarrow> ('v, storage_error) result) \<Rightarrow> 'v \<Rightarrow>
   ('v \<times> active_history_snapshot, storage_error) result" where
  "visit_active_history_pages_for_session db session limit visitor v =
     and_then (traverse_active_history_in_transaction_with_bounds db session None limit None visitor v)
       (\<lambda>(v', stats). Ok (v', ts_snapshot stats))"

definition visit_bounded_active_history_pages_for_session ::
  "protocol_db \<Rightarrow> session_id \<Rightarrow> nat \<Rightarrow> nat \<Rightarrow> nat \<Rightarrow>
   ('v \<Rightarrow> active_history_page \<Rightarrow> ('v, storage_error) result) \<Rightarrow> 'v \<Rightarrow>
   ('v \<times> active_history_snapshot, storage_error) result" where
  "visit_bounded_active_history_pages_for_session db session limit source_item_limit active_item_limit visitor v =
     and_then (new_traversal_bounds source_item_limit active_item_limit) (\<lambda>bounds.
     and_then (traverse_active_history_in_transaction_with_bounds db session None limit (Some bounds) visitor v)
       (\<lambda>(v', stats). Ok (v', ts_snapshot stats)))"

section \<open>Hydration\<close>

datatype hydration_error = HydrationStorage storage_error | NoActiveModelContext

definition hydrate_context_manager ::
  "host_env \<Rightarrow> protocol_db \<Rightarrow> session_id \<Rightarrow> bool \<Rightarrow> (context_manager, hydration_error) result" where
  "hydrate_context_manager env db session allow_empty =
     (case visit_active_history_pages_for_session db session MAX_PROTOCOL_PAGE_LIMIT
             (\<lambda>builder page. Ok (ingest_page builder (hp_items page))) active_history_builder of
        Inl e \<Rightarrow> Err (HydrationStorage e)
      | Inr (builder, snapshot) \<Rightarrow>
          let context0 = builder_finish env builder (ah_append_fence snapshot) (ah_canonical_count snapshot)
          in if \<not> allow_empty \<and> \<not> has_model_context context0 then Err NoActiveModelContext else Ok context0)"

end
