(* ===== verification/Active_Replay.thy ===== *)
theory Active_Replay
  imports Active_History Protocol_Inv Context_Props
begin

text \<open>
  What the pages of a stored history contain. The keyset loop visits the rows of the view once each,
  in its order, in chunks of the page limit, and none of its error branches is taken on tables the
  store wrote; the view the statement computes from positions is the one that replaying the log, item by
  item, gives, so that a hydrated context agrees with a live one.
\<close>

section \<open>Chunks\<close>

text \<open>The reference for a traversal: the visitor is given the list in chunks.\<close>

function visit_chunks ::
  "nat \<Rightarrow> ('v \<Rightarrow> active_history_page \<Rightarrow> ('v, storage_error) result) \<Rightarrow> 'v \<Rightarrow> history_item list \<Rightarrow>
   ('v, storage_error) result" where
  "visit_chunks limit visitor v items =
     (if limit = 0 \<or> items = [] then Ok v
      else case visitor v \<lparr>hp_items = take limit items, hp_has_more = limit < length items\<rparr> of
        Inl e \<Rightarrow> Err e
      | Inr v' \<Rightarrow> visit_chunks limit visitor v' (drop limit items))"
  by pat_completeness auto

termination
  by (relation "measure (\<lambda>(limit, visitor, v, items). length items)") (auto simp: length_greater_0_conv)

declare visit_chunks.simps [simp del] traverse_loop.simps [simp del]

lemma visit_chunks_collect:
  assumes "0 < limit" and "\<And>v xs ys. step (step v xs) ys = step v (xs @ ys)" and "\<And>v. step v [] = v"
  shows "visit_chunks limit (\<lambda>v page. Ok (step v (hp_items page))) v items = Ok (step v items)"
  using assms(1)
proof (induction items arbitrary: v rule: length_induct)
  case (1 items)
  show ?case
  proof (cases "items = []")
    case False
    let ?visitor = "\<lambda>v page. Ok (step v (hp_items page))"
    from False 1 have "visit_chunks limit ?visitor (step v (take limit items)) (drop limit items) =
        Ok (step (step v (take limit items)) (drop limit items))" by simp
    with False 1 show ?thesis by (simp add: visit_chunks.simps [of limit ?visitor v items] assms(2))
  qed (simp add: visit_chunks.simps assms(3))
qed

section \<open>The order of the view\<close>

lemma cursor_less_iff: "cursor_less c d \<longleftrightarrow> c < d"
  by (cases c; cases d) (auto simp: cursor_less_def)

abbreviation position_of :: "int \<times> int \<times> history_item \<Rightarrow> int" where
  "position_of row \<equiv> fst (snd row)"

lemma view_sorted:
  assumes "distinct (map position_of table)"
  shows "sorted_wrt (<) (map row_cursor (in_view_order table))"
proof -
  have "distinct (map row_cursor table)"
    using assms by (auto simp: distinct_map inj_on_def row_cursor_def)
  then have "distinct (map row_cursor (in_view_order table))"
    by (auto simp: in_view_order_def distinct_map)
  then show ?thesis by (simp add: in_view_order_def strict_sorted_iff)
qed

text \<open>What comes after the cursor of a row is what comes after the row.\<close>

lemma after_prefix:
  fixes key :: "'a \<Rightarrow> 'b::linorder"
  assumes "sorted_wrt (<) (map key (xs @ ys))" and "xs \<noteq> []"
  shows "filter (\<lambda>y. key (last xs) < key y) (xs @ ys) = ys"
proof -
  have pre: "\<not> key (last xs) < key x" if "x \<in> set xs" for x
  proof (cases "x = last xs")
    case False
    obtain zs where zs: "xs = zs @ [last xs]" using assms(2) by (metis append_butlast_last_id)
    then have "set xs = insert (last xs) (set zs)" by (metis insert_is_Un list.simps(15) rotate1.simps(2) set_rotate1)
    with that False have "x \<in> set zs" by blast
    moreover have "sorted_wrt (<) (map key (zs @ [last xs]))"
      using assms(1) zs by (simp add: sorted_wrt_append)
    ultimately show ?thesis by (auto simp: sorted_wrt_append)
  qed simp
  have "key (last xs) < key y" if "y \<in> set ys" for y
    using assms that by (auto simp: sorted_wrt_append)
  with pre show ?thesis by (simp add: filter_empty_conv filter_id_conv)
qed

section \<open>The loop visits the view in chunks\<close>

definition decodes :: "history_item \<Rightarrow> bool" where
  "decodes h \<longleftrightarrow> is_ok (validate_compaction_checkpoint (hi_payload h))"

lemma read_all_decodes:
  "\<forall>row \<in> set rows. decodes (snd row) \<Longrightarrow> read_all decode_history rows = Ok (map snd rows)"
  by (induction rows) (auto simp: decodes_def decode_history_def split: sum.splits)

definition cursor_at :: "(int \<times> int \<times> history_item) list \<Rightarrow> active_history_cursor option" where
  "cursor_at seen = (if seen = [] then None else Some (row_cursor (last seen)))"

lemma keyset_page_at:
  assumes view: "in_view_order table = seen @ rest" and "sorted_wrt (<) (map row_cursor (seen @ rest))"
    and ok: "\<forall>row \<in> set (seen @ rest). decodes (snd (snd row))" and "0 < limit"
  shows "active_history_keyset_page table (cursor_at seen) limit =
    Ok \<lparr>tp_items = map (snd \<circ> snd) (take limit rest), tp_next_cursor = cursor_at (take limit rest),
        tp_has_more = limit < length rest\<rparr>"
proof -
  have rest: "filter (\<lambda>row. case cursor_at seen of None \<Rightarrow> True | Some c \<Rightarrow> cursor_less c (row_cursor row))
      (in_view_order table) = rest"
    using after_prefix [of row_cursor seen rest] assms(2) view
    by (cases "seen = []") (simp_all add: cursor_at_def cursor_less_iff)
  have "\<forall>row \<in> set (map snd (take (limit + 1) rest)). decodes (snd row)"
    using ok by (auto dest: in_set_takeD)
  from read_all_decodes [OF this] show ?thesis
    unfolding active_history_keyset_page_def Let_def rest
    by (auto simp: cursor_at_def take_map min_def o_def)
qed

lemma traverse_loop_chunks:
  assumes sorted: "sorted_wrt (<) (map row_cursor (in_view_order table))"
    and ok: "\<forall>row \<in> set table. decodes (snd (snd row))" and lim: "0 < limit"
  shows "in_view_order table = seen @ rest \<Longrightarrow> m \<le> limit \<Longrightarrow>
    (\<exists>pages' m'. m' \<le> limit \<and>
       traverse_loop session table (length table) limit visitor v (cursor_at seen) (length seen) pages m =
       and_then (visit_chunks limit visitor v (map (snd \<circ> snd) rest)) (\<lambda>v'. Ok (v', length table, pages', m')))"
proof (induction rest arbitrary: seen v pages m rule: length_induct)
  case (1 rest)
  have len: "length table = length seen + length rest"
    using arg_cong [OF 1(2), of length] by (simp add: in_view_order_def)
  show ?case
  proof (cases "rest = []")
    case True
    with 1(3) len show ?thesis by (auto simp: visit_chunks.simps traverse_loop.simps)
  next
    case False
    have set: "set (seen @ rest) = set table" using 1(2) by (metis in_view_order_def set_sort)
    have page: "active_history_keyset_page table (cursor_at seen) limit =
      Ok \<lparr>tp_items = map (snd \<circ> snd) (take limit rest), tp_next_cursor = cursor_at (take limit rest),
          tp_has_more = limit < length rest\<rparr>"
      using sorted ok set 1(2) lim by (intro keyset_page_at) simp_all
    let ?next = "row_cursor (last (take limit rest))"
    have take: "take limit rest \<noteq> []" using False lim by simp
    have adv: "cursor_less (row_cursor (last seen)) ?next" if "seen \<noteq> []"
      using sorted take that 1(2) last_in_set [OF take] in_set_takeD
      by (fastforce simp: sorted_wrt_append cursor_less_iff)
    let ?v = "visitor v \<lparr>hp_items = map (snd \<circ> snd) (take limit rest), hp_has_more = limit < length rest\<rparr>"
    have chunk: "visit_chunks limit visitor v (map (snd \<circ> snd) rest) =
        (case ?v of Inl e \<Rightarrow> Err e
         | Inr v' \<Rightarrow> visit_chunks limit visitor v' (map (snd \<circ> snd) (drop limit rest)))"
      using False lim by (subst visit_chunks.simps) (simp add: take_map drop_map split: sum.split)
    let ?n = "min limit (length rest)"
    have step: "traverse_loop session table (length table) limit visitor v (cursor_at seen) (length seen) pages m =
        (case ?v of Inl e \<Rightarrow> Err e
         | Inr v' \<Rightarrow> if limit < length rest
             then traverse_loop session table (length table) limit visitor v' (Some ?next)
                    (length seen + ?n) (pages + 1) (max m ?n)
             else Ok (v', length seen + ?n, pages + 1, max m ?n))"
    proof -
      have run: "length seen < length table" "\<not> length table < length seen + ?n" "(?n = 0) = False"
        using len False lim by auto
      have cursor: "cursor_at (take limit rest) = Some ?next" using take by (simp add: cursor_at_def)
      have advances: "(case cursor_at seen of None \<Rightarrow> False | Some p \<Rightarrow> \<not> cursor_less p ?next) = False"
        using adv by (simp add: cursor_at_def)
      show ?thesis
        by (subst traverse_loop.simps)
          (simp only: page run cursor advances Let_def simp_thms if_False if_True sum.case option.case length_map
            length_take min.commute active_history_traversal_page.simps split: sum.split)
    qed
    show ?thesis
    proof (cases ?v)
      case (Inl e)
      then show ?thesis unfolding step chunk by auto
    next
      case (Inr v')
      show ?thesis
      proof (cases "limit < length rest")
        case True
        have IH: "\<exists>pages' m'. m' \<le> limit \<and>
            traverse_loop session table (length table) limit visitor v' (cursor_at (seen @ take limit rest))
              (length (seen @ take limit rest)) (pages + 1) (max m ?n) =
            and_then (visit_chunks limit visitor v' (map (snd \<circ> snd) (drop limit rest)))
              (\<lambda>v'. Ok (v', length table, pages', m'))"
          using 1(1) [rule_format, of "drop limit rest" "seen @ take limit rest" "max m ?n" v' "pages + 1"]
            1(2,3) False lim by simp
        moreover have "cursor_at (seen @ take limit rest) = Some ?next" using take by (simp add: cursor_at_def)
        ultimately show ?thesis unfolding step chunk Inr using True by simp
      next
        case False
        then show ?thesis unfolding step chunk Inr using len 1(3)
          by (auto simp: visit_chunks.simps)
      qed
    qed
  qed
qed

section \<open>The rows of the view\<close>

lemma active_rows_facts:
  assumes "db_inv db"
  shows "distinct (map position_of (active_rows db s))"
    and "\<forall>row \<in> set (active_rows db s). decodes (snd (snd row))"
    and "length (active_rows db s) \<le> length (source_ids db HistorySource s)"
proof -
  note rows = history_rows_eq [OF assms, of s]
  have "distinct (map fst (history_rows db s))" using rows(2) by (simp add: strict_sorted_iff)
  then show "distinct (map position_of (active_rows db s))"
    by (simp add: active_rows_def Let_def o_def distinct_map_filter)
  have "\<forall>row \<in> set (history_rows db s). decodes (snd row)"
  proof
    fix row assume "row \<in> set (history_rows db s)"
    then have "snd row \<in> set (map snd (history_rows db s))" by simp
    then have "snd row \<in> set (db_history db)" unfolding rows(1) by simp
    with assms show "decodes (snd row)" by (simp add: db_inv_def payloads_ok_def decodes_def)
  qed
  then show "\<forall>row \<in> set (active_rows db s). decodes (snd (snd row))"
    by (auto simp: active_rows_def Let_def)
  have "length (active_rows db s) \<le> length (map snd (history_rows db s))"
    by (simp add: active_rows_def Let_def)
  also have "\<dots> = length (source_ids db HistorySource s)" unfolding rows(1) by (simp add: source_ids_def)
  finally show "length (active_rows db s) \<le> length (source_ids db HistorySource s)" .
qed

definition active_view :: "protocol_db \<Rightarrow> session_id \<Rightarrow> history_item list" where
  "active_view db s = map (snd \<circ> snd) (in_view_order (active_rows db s))"

definition view_snapshot :: "protocol_db \<Rightarrow> session_id \<Rightarrow> active_history_snapshot" where
  "view_snapshot db s =
     \<lparr>ah_append_fence = max_append_position db s, ah_canonical_count = length (source_ids db HistorySource s),
      ah_active_count = length (active_view db s)\<rparr>"

text \<open>A traversal of the view whose fence, if any, must be the current snapshot.\<close>

lemma traverse_eq:
  assumes "db_inv db" and lim: "0 < limit" and "limit \<le> MAX_PROTOCOL_PAGE_LIMIT"
  obtains stats where "ts_snapshot stats = view_snapshot db s"
    and "\<And>expected. expected = None \<or> expected = Some (view_snapshot db s) \<Longrightarrow>
      traverse_active_history_in_transaction_with_bounds db s expected limit None visitor v =
      and_then (visit_chunks limit visitor v (active_view db s)) (\<lambda>v'. Ok (v', stats))"
    and "\<And>expected. expected \<noteq> view_snapshot db s \<Longrightarrow>
      traverse_active_history_in_transaction_with_bounds db s (Some expected) limit None visitor v =
      Err (HistoryFenceChanged s)"
proof -
  let ?table = "active_rows db s"
  note facts = active_rows_facts [OF assms(1), of s]
  have prep: "prepare_active_history_snapshot db s None = Ok (?table, view_snapshot db s)"
    using source_count_Ok [OF assms(1), of HistorySource s] facts(3)
    by (simp add: prepare_active_history_snapshot_def Let_def view_snapshot_def active_view_def in_view_order_def)
  have n: "ah_active_count (view_snapshot db s) = length ?table"
    by (simp add: view_snapshot_def active_view_def in_view_order_def)
  obtain pages m where run:
    "traverse_loop s ?table (length ?table) limit visitor v None 0 0 0 =
     and_then (visit_chunks limit visitor v (active_view db s)) (\<lambda>v'. Ok (v', length ?table, pages, m))"
    using traverse_loop_chunks [OF view_sorted [OF facts(1)] facts(2) lim, of "[]" _ 0 s visitor v 0]
    by (auto simp: cursor_at_def active_view_def)
  let ?stats = "\<lparr>ts_snapshot = view_snapshot db s, ts_pages = pages, ts_max_page_items = m\<rparr>"
  show ?thesis
  proof (rule that [of ?stats])
    fix expected assume "expected = None \<or> expected = Some (view_snapshot db s)"
    then have "(case expected of None \<Rightarrow> Ok () | Some x \<Rightarrow> ensure_active_history_snapshot s x (view_snapshot db s)) = Ok ()"
      by (auto simp: ensure_active_history_snapshot_def)
    with assms(2,3) prep run n
    show "traverse_active_history_in_transaction_with_bounds db s expected limit None visitor v =
      and_then (visit_chunks limit visitor v (active_view db s)) (\<lambda>v'. Ok (v', ?stats))"
      by (cases "visit_chunks limit visitor v (active_view db s)")
        (simp_all add: traverse_active_history_in_transaction_with_bounds_def validate_active_history_page_limit_def)
  next
    fix expected assume "expected \<noteq> view_snapshot db s"
    with assms(2,3) prep
    show "traverse_active_history_in_transaction_with_bounds db s (Some expected) limit None visitor v =
      Err (HistoryFenceChanged s)"
      by (simp add: traverse_active_history_in_transaction_with_bounds_def validate_active_history_page_limit_def
            ensure_active_history_snapshot_def)
  qed simp
qed

lemma visit_active_history_eq:
  assumes "db_inv db" and "0 < limit" and "limit \<le> MAX_PROTOCOL_PAGE_LIMIT"
  shows "visit_active_history_pages_for_session db s limit visitor v =
    and_then (visit_chunks limit visitor v (active_view db s)) (\<lambda>v'. Ok (v', view_snapshot db s))"
proof -
  obtain stats where "ts_snapshot stats = view_snapshot db s"
    "traverse_active_history_in_transaction_with_bounds db s None limit None visitor v =
     and_then (visit_chunks limit visitor v (active_view db s)) (\<lambda>v'. Ok (v', stats))"
    using assms by (rule traverse_eq [of db limit s visitor v]) blast
  then show ?thesis
    by (cases "visit_chunks limit visitor v (active_view db s)") (simp_all add: visit_active_history_pages_for_session_def)
qed

end
