(* ===== verification/Log_Replay.thy ===== *)
theory Log_Replay
  imports Active_Replay
begin

text \<open>
  The view of a stored log is its replay. A statement over positions hides what compactions replaced
  and places a compaction at the first position it transitively stands for; the replay of the log
  puts a compaction where the first of its sources stands. They agree as long as a compaction replaces
  what is active when it is committed.
\<close>

section \<open>What a recursive statement collects\<close>

definition successor_rel :: "('a \<times> 'a list) list \<Rightarrow> ('a \<times> 'a) set" where
  "successor_rel graph = {(x, y). y \<in> set (successors graph x)}"

lemma collect_reaches:
  "(\<forall>x \<in> set seen. set (successors graph x) \<subseteq> set seen \<union> set work) \<Longrightarrow>
   set (collect graph seen work) = set seen \<union> (successor_rel graph)\<^sup>* `` set work"
proof (induction graph seen work rule: collect.induct)
  case (1 graph seen)
  then show ?case by simp
next
  case (2 graph seen x work)
  let ?r = "successor_rel graph"
  show ?case
  proof (cases "x \<in> set seen")
    case True
    let ?all = "set seen \<union> ?r\<^sup>* `` set work"
    have IH: "set (collect graph seen work) = ?all" using 2(1) [OF True] 2(3) True by auto
    have "y \<in> ?all" if "z \<in> ?all" and "(z, y) \<in> ?r" for z y
    proof (cases "z \<in> set seen")
      case True
      with 2(3) that(2) \<open>x \<in> set seen\<close> show ?thesis by (auto simp: successor_rel_def)
    next
      case False
      with that show ?thesis by (auto intro: rtrancl_into_rtrancl)
    qed
    then have "?r `` ?all \<subseteq> ?all" by blast
    from Image_closed_trancl [OF this] True have "?r\<^sup>* `` {x} \<subseteq> ?all" by blast
    with IH True show ?thesis by auto
  next
    case False
    have "?r\<^sup>* `` {x} = {x} \<union> ?r\<^sup>* `` (?r `` {x})"
      by (auto elim: converse_rtranclE intro: converse_rtrancl_into_rtrancl)
    moreover have "?r `` {x} = set (successors graph x)" by (auto simp: successor_rel_def)
    ultimately have "?r\<^sup>* `` {x} = {x} \<union> ?r\<^sup>* `` set (successors graph x)" by simp
    moreover have "\<forall>y \<in> set (x # seen). set (successors graph y) \<subseteq> set (x # seen) \<union> set (successors graph x @ work)"
      using 2(3) by auto
    note 2(2) [OF False this]
    moreover have "?r\<^sup>* `` set (x # work) = ?r\<^sup>* `` {x} \<union> ?r\<^sup>* `` set work" by auto
    ultimately show ?thesis using False by (simp add: Image_Un Un_ac)
  qed
qed

lemma set_replacement_tree:
  "set (replacement_tree graph ids) = (successor_rel graph)\<^sup>* `` set ids"
  using collect_reaches [of "[]" graph ids] by (simp add: replacement_tree_def)

section \<open>The view of a list of rows\<close>

type_synonym history_row = "int \<times> history_item"

abbreviation row_id :: "history_row \<Rightarrow> history_item_id" where
  "row_id r \<equiv> hi_id (snd r)"

definition replaced_ids :: "history_row \<Rightarrow> history_item_id list" where
  "replaced_ids r = (case compaction_replaces (hi_payload (snd r)) of None \<Rightarrow> [] | Some ids \<Rightarrow> ids)"

definition rows_graph :: "history_row list \<Rightarrow> (history_item_id \<times> history_item_id list) list" where
  "rows_graph rows = replacement_graph (map snd rows)"

definition placed :: "history_row list \<Rightarrow> history_row \<Rightarrow> int" where
  "placed rows r = effective_position (rows_graph rows) (map (\<lambda>r. (fst r, row_id r)) rows) r"

definition replay_row :: "history_row list \<Rightarrow> history_row \<Rightarrow> history_row list" where
  "replay_row view r =
     (if compaction_replaces (hi_payload (snd r)) = None then view @ [r]
      else takeWhile (\<lambda>x. row_id x \<notin> set (replaced_ids r)) view @
        r # filter (\<lambda>x. row_id x \<notin> set (replaced_ids r)) (dropWhile (\<lambda>x. row_id x \<notin> set (replaced_ids r)) view))"

definition replay :: "history_row list \<Rightarrow> history_row list" where
  "replay rows = foldl replay_row [] rows"

lemma replay_snoc: "replay (rows @ [r]) = replay_row (replay rows) r"
  by (simp add: replay_def)

lemma replay_row_committed: "map snd (replay_row view r) = apply_committed (map snd view) (snd r)"
  by (auto simp: replay_row_def apply_committed_def replaced_ids_def takeWhile_map dropWhile_map filter_map o_def
        split: option.split)

lemma replay_committed: "map snd (replay rows) = foldl apply_committed [] (map snd rows)"
  by (induction rows rule: rev_induct) (simp_all add: replay_def replay_row_committed)

text \<open>Every compaction replaces items that are active when it is committed, or nothing of the log.\<close>

definition replaces_active :: "history_item list \<Rightarrow> bool" where
  "replaces_active items \<longleftrightarrow>
     (\<forall>n < length items. \<forall>i \<in> set (case compaction_replaces (hi_payload (items ! n)) of None \<Rightarrow> [] | Some ids \<Rightarrow> ids).
        i \<in> hi_id ` set (foldl apply_committed [] (take n items)) \<or> i \<notin> hi_id ` set items)"

definition well_replaced :: "history_row list \<Rightarrow> bool" where
  "well_replaced rows \<longleftrightarrow>
     sorted_wrt (<) (map fst rows) \<and> distinct (map row_id rows) \<and> replaces_active (map snd rows)"

section \<open>The graph of replacements\<close>

lemma rows_graph_snoc:
  "rows_graph (rows @ [r]) = rows_graph rows @ (if compaction_replaces (hi_payload (snd r)) = None then []
     else [(row_id r, replaced_ids r)])"
  by (auto simp: rows_graph_def replacement_graph_def replaced_ids_def List.map_filter_def)

lemma successors_append: "successors (g @ h) x = successors g x @ successors h x"
  by (simp add: successors_def)

lemma set_successors:
  "set (successors (rows_graph rows) x) = (\<Union>r \<in> {r \<in> set rows. row_id r = x}. set (replaced_ids r))"
proof (induction rows rule: rev_induct)
  case (snoc r rows)
  have "{y \<in> set (rows @ [r]). row_id y = x} = {y \<in> set rows. row_id y = x} \<union> (if row_id r = x then {r} else {})"
    by auto
  then show ?case using snoc
    by (auto simp: rows_graph_snoc successors_append successors_def replaced_ids_def)
qed (simp add: rows_graph_def replacement_graph_def List.map_filter_def successors_def)

lemma row_successors:
  assumes "distinct (map row_id rows)" and "r \<in> set rows"
  shows "set (successors (rows_graph rows) (row_id r)) = set (replaced_ids r)"
proof -
  have "{y \<in> set rows. row_id y = row_id r} = {r}" using assms by (auto simp: distinct_map inj_on_def)
  then show ?thesis by (simp add: set_successors)
qed

lemma no_row_no_successors:
  "i \<notin> row_id ` set rows \<Longrightarrow> set (successors (rows_graph rows) i) = {}"
  by (auto simp: set_successors image_iff)

lemma set_replay_row: "set (replay_row view r) = insert r {x \<in> set view. row_id x \<notin> set (replaced_ids r)}"
proof (cases "compaction_replaces (hi_payload (snd r))")
  case None
  then show ?thesis by (simp add: replay_row_def replaced_ids_def)
next
  case (Some ids)
  let ?P = "\<lambda>x. row_id x \<notin> set (replaced_ids r)"
  have "set view = set (takeWhile ?P view) \<union> set (dropWhile ?P view)"
    by (metis set_append takeWhile_dropWhile_id)
  then show ?thesis using Some set_takeWhileD [of _ ?P view] by (auto simp: replay_row_def)
qed

lemma replay_rows: "set (replay rows) \<subseteq> set rows"
  by (induction rows rule: rev_induct) (auto simp: replay_snoc set_replay_row, simp add: replay_def)

text \<open>What a well-formed log says of its last row, and of the rows before.\<close>

lemma well_replaced_snoc:
  assumes "well_replaced (rows @ [r])"
  shows "well_replaced rows"
    and "\<And>i. i \<in> set (replaced_ids r) \<Longrightarrow> i \<in> row_id ` set (replay rows) \<or> i \<notin> row_id ` set (rows @ [r])"
    and "\<And>x. x \<in> set rows \<Longrightarrow> row_id r \<notin> set (replaced_ids x)"
    and "\<And>x. x \<in> set rows \<Longrightarrow> fst x < fst r" and "row_id r \<notin> row_id ` set rows"
proof -
  let ?items = "map snd (rows @ [r])"
  have active: "i \<in> row_id ` set (replay (take n rows)) \<or> i \<notin> row_id ` set (rows @ [r])"
    if "n \<le> length rows" "i \<in> set (replaced_ids ((rows @ [r]) ! n))" for n i
  proof -
    have "foldl apply_committed [] (take n ?items) = map snd (replay (take n rows))"
      using that(1) by (simp add: replay_committed take_map)
    moreover have "?items ! n = snd ((rows @ [r]) ! n)" using that(1) by (simp add: nth_append)
    ultimately show ?thesis
      using assms [unfolded well_replaced_def replaces_active_def, THEN conjunct2, THEN conjunct2, THEN spec, of n]
        that(2) by (simp add: image_image replaced_ids_def less_Suc_eq_le that(1))
  qed
  show last: "i \<in> row_id ` set (replay rows) \<or> i \<notin> row_id ` set (rows @ [r])" if "i \<in> set (replaced_ids r)" for i
    using active [of "length rows" i] that by simp
  show new: "row_id r \<notin> row_id ` set rows" using assms by (auto simp: well_replaced_def)
  show "fst x < fst r" if "x \<in> set rows" for x
    using assms that by (auto simp: well_replaced_def sorted_wrt_append)
  show "row_id r \<notin> set (replaced_ids x)" if "x \<in> set rows" for x
  proof
    assume r: "row_id r \<in> set (replaced_ids x)"
    from that obtain n where n: "n < length rows" "x = rows ! n" by (auto simp: in_set_conv_nth)
    from active [of n "row_id r"] r n have "row_id r \<in> row_id ` set (replay (take n rows))" by (auto simp: nth_append)
    with replay_rows [of "take n rows"] set_take_subset [of n rows] new show False by blast
  qed
  have "replaces_active (map snd rows)"
    unfolding replaces_active_def
  proof (intro allI impI ballI)
    fix n i
    assume n: "n < length (map snd rows)"
      and "i \<in> set (case compaction_replaces (hi_payload (map snd rows ! n)) of None \<Rightarrow> [] | Some ids \<Rightarrow> ids)"
    then have "i \<in> set (replaced_ids ((rows @ [r]) ! n))" by (simp add: replaced_ids_def nth_append)
    from active [OF _ this] n have "i \<in> row_id ` set (replay (take n rows)) \<or> i \<notin> row_id ` set rows" by auto
    then show "i \<in> hi_id ` set (foldl apply_committed [] (take n (map snd rows))) \<or> i \<notin> hi_id ` set (map snd rows)"
      by (simp add: take_map image_image flip: replay_committed)
  qed
  with assms show "well_replaced rows" by (simp add: well_replaced_def sorted_wrt_append)
qed

section \<open>Positions\<close>

text \<open>What a row stands for, and the positions of it.\<close>

definition stands_for :: "history_row list \<Rightarrow> history_item_id set \<Rightarrow> history_item_id set" where
  "stands_for rows ids = (successor_rel (rows_graph rows))\<^sup>* `` ids"

definition positions :: "history_row list \<Rightarrow> history_item_id set \<Rightarrow> int set" where
  "positions rows ids = fst ` {r \<in> set rows. row_id r \<in> ids}"

lemma finite_positions [simp]: "finite (positions rows ids)"
  by (simp add: positions_def)

lemma placed_eq:
  "placed rows r =
     (let ps = positions rows (stands_for rows (set (replaced_ids r))) in
      if ps = {} then fst r else Min ps)"
proof (cases "compaction_replaces (hi_payload (snd r))")
  case None
  then show ?thesis
    by (simp add: placed_def effective_position_def replaced_ids_def stands_for_def positions_def)
next
  case (Some ids)
  let ?ps = "map fst (filter (\<lambda>(_, i). i \<in> set (replacement_tree (rows_graph rows) ids))
      (map (\<lambda>r. (fst r, row_id r)) rows))"
  have ps: "set ?ps = positions rows (stands_for rows (set ids))"
    by (force simp: positions_def stands_for_def set_replacement_tree)
  then have "?ps = [] \<longleftrightarrow> positions rows (stands_for rows (set ids)) = {}" by (metis set_empty)
  with ps show ?thesis
    unfolding placed_def effective_position_def replaced_ids_def Some option.case Let_def by (simp only:)
qed

text \<open>A new row that nothing refers to does not change what the others stand for.\<close>

lemma stands_for_snoc:
  assumes "well_replaced (rows @ [r])" and "row_id r \<notin> ids"
  shows "stands_for (rows @ [r]) ids = stands_for rows ids" and "row_id r \<notin> stands_for rows ids"
proof -
  let ?r = "successor_rel (rows_graph rows)" and ?r' = "successor_rel (rows_graph (rows @ [r]))"
  note wf = well_replaced_snoc [OF assms(1)]
  have target: "row_id r \<noteq> y" if "(x, y) \<in> ?r" for x y
    using that wf(3) by (auto simp: successor_rel_def set_successors)
  show avoid: "row_id r \<notin> stands_for rows ids"
    using assms(2) target by (auto simp: stands_for_def) (metis rtranclE)
  have same: "(x, y) \<in> ?r' \<longleftrightarrow> (x, y) \<in> ?r" if "x \<noteq> row_id r" for x y
    using that by (auto simp: successor_rel_def rows_graph_snoc successors_append successors_def)
  have "y \<in> stands_for rows ids" if "z \<in> stands_for rows ids" and "(z, y) \<in> ?r'" for z y
  proof -
    have "z \<noteq> row_id r" using avoid that(1) by auto
    with that(2) have "(z, y) \<in> ?r" by (simp add: same)
    with that(1) show ?thesis by (auto simp: stands_for_def intro: rtrancl_into_rtrancl)
  qed
  then have "?r' `` stands_for rows ids \<subseteq> stands_for rows ids" by blast
  from Image_closed_trancl [OF this] have "?r'\<^sup>* `` stands_for rows ids \<subseteq> stands_for rows ids" by simp
  then have "stands_for (rows @ [r]) ids \<subseteq> stands_for rows ids"
    by (auto simp: stands_for_def)
  moreover have "?r \<subseteq> ?r'" by (auto simp: successor_rel_def rows_graph_snoc successors_append)
  then have "stands_for rows ids \<subseteq> stands_for (rows @ [r]) ids"
    unfolding stands_for_def by (intro Image_mono rtrancl_mono subset_refl)
  ultimately show "stands_for (rows @ [r]) ids = stands_for rows ids" by blast
qed

lemma stands_for_Union: "stands_for rows ids = (\<Union>i \<in> ids. stands_for rows {i})"
  by (auto simp: stands_for_def)

lemma stands_for_step: "stands_for rows {i} = insert i (stands_for rows (set (successors (rows_graph rows) i)))"
  by (auto simp: stands_for_def successor_rel_def elim: converse_rtranclE intro: converse_rtrancl_into_rtrancl)

lemma positions_Union: "positions rows (\<Union>i \<in> ids. f i) = (\<Union>i \<in> ids. positions rows (f i))"
  by (auto simp: positions_def)

lemma positions_unknown:
  assumes "i \<notin> row_id ` set rows"
  shows "positions rows (stands_for rows {i}) = {}"
proof -
  have "stands_for rows {i} = {i}"
    using no_row_no_successors [OF assms] by (subst stands_for_step) (simp add: stands_for_def)
  moreover have "{r \<in> set rows. row_id r \<in> {i}} = {}" using assms by blast
  ultimately show ?thesis by (simp add: positions_def)
qed

text \<open>The first position of what a row stands for, itself included, is where it is placed.\<close>

lemma Min_positions:
  assumes "distinct (map row_id rows)" and "x \<in> set rows" and "placed rows x \<le> fst x"
  shows "Min (positions rows (stands_for rows {row_id x})) = placed rows x"
    and "positions rows (stands_for rows {row_id x}) \<noteq> {}"
proof -
  let ?ps = "positions rows (stands_for rows (set (replaced_ids x)))"
  have "{r \<in> set rows. row_id r = row_id x} = {x}" using assms(1,2) by (auto simp: distinct_map inj_on_def)
  then have "positions rows (insert (row_id x) T) = insert (fst x) (positions rows T)" for T
    by (auto simp: positions_def)
  then have eq: "positions rows (stands_for rows {row_id x}) = insert (fst x) ?ps"
    using row_successors [OF assms(1,2)] by (simp add: stands_for_step [of rows "row_id x"])
  then show "positions rows (stands_for rows {row_id x}) \<noteq> {}" by simp
  show "Min (positions rows (stands_for rows {row_id x})) = placed rows x"
    unfolding eq using assms(3) by (cases "?ps = {}") (simp_all add: placed_eq Let_def)
qed

section \<open>The view is the replay\<close>

definition replay_ok :: "history_row list \<Rightarrow> bool" where
  "replay_ok rows \<longleftrightarrow>
     set (replay rows) = {r \<in> set rows. \<forall>x \<in> set rows. row_id r \<notin> set (replaced_ids x)} \<and>
     sorted_wrt (<) (map (placed rows) (replay rows)) \<and>
     (\<forall>r \<in> set rows. placed rows r \<le> fst r)"

lemma placed_snoc:
  assumes "well_replaced (rows @ [r])" and "x \<in> set rows"
  shows "placed (rows @ [r]) x = placed rows x"
proof -
  note wf = well_replaced_snoc [OF assms(1)]
  note eq = stands_for_snoc [OF assms(1) wf(3) [OF assms(2)]]
  have "positions (rows @ [r]) S = positions rows S" if "row_id r \<notin> S" for S
    using that by (auto simp: positions_def)
  with eq show ?thesis by (simp add: placed_eq)
qed

lemma self_not_replaced:
  assumes "well_replaced (rows @ [r])"
  shows "row_id r \<notin> set (replaced_ids r)"
proof
  assume "row_id r \<in> set (replaced_ids r)"
  from well_replaced_snoc(2) [OF assms this] have "row_id r \<in> row_id ` set (replay rows)" by auto
  with replay_rows [of rows] well_replaced_snoc(5) [OF assms] show False by blast
qed

text \<open>The positions of a new compaction are those of the active rows it replaces.\<close>

lemma new_positions:
  assumes "well_replaced (rows @ [r])"
  shows "positions (rows @ [r]) (stands_for (rows @ [r]) (set (replaced_ids r))) =
    (\<Union>x \<in> {x \<in> set (replay rows). row_id x \<in> set (replaced_ids r)}. positions rows (stands_for rows {row_id x}))"
proof -
  note wf = well_replaced_snoc [OF assms]
  note self = stands_for_snoc [OF assms self_not_replaced [OF assms]]
  have "positions (rows @ [r]) (stands_for (rows @ [r]) (set (replaced_ids r))) =
      positions rows (stands_for rows (set (replaced_ids r)))"
    using self by (auto simp: positions_def)
  also have "\<dots> = (\<Union>i \<in> set (replaced_ids r). positions rows (stands_for rows {i}))"
    by (subst stands_for_Union) (rule positions_Union)
  also have "\<dots> = (\<Union>x \<in> {x \<in> set (replay rows). row_id x \<in> set (replaced_ids r)}. positions rows (stands_for rows {row_id x}))"
  proof (rule Set.equalityI; rule subsetI)
    fix p assume "p \<in> (\<Union>i \<in> set (replaced_ids r). positions rows (stands_for rows {i}))"
    then obtain i where i: "i \<in> set (replaced_ids r)" "p \<in> positions rows (stands_for rows {i})" by blast
    then have "i \<in> row_id ` set rows" using positions_unknown [of i rows] by blast
    with wf(2) [OF i(1)] obtain x where "x \<in> set (replay rows)" "i = row_id x" by auto
    with i show "p \<in> (\<Union>x \<in> {x \<in> set (replay rows). row_id x \<in> set (replaced_ids r)}. positions rows (stands_for rows {row_id x}))"
      by blast
  qed blast
  finally show ?thesis .
qed

lemma replay_row_none:
  assumes "\<And>x. x \<in> set view \<Longrightarrow> row_id x \<notin> set (replaced_ids r)"
  shows "replay_row view r = view @ [r]"
proof -
  have "takeWhile (\<lambda>x. row_id x \<notin> set (replaced_ids r)) view = view" using assms by (simp add: takeWhile_eq_all_conv)
  moreover have "dropWhile (\<lambda>x. row_id x \<notin> set (replaced_ids r)) view = []" using assms by simp
  ultimately show ?thesis by (simp only: replay_row_def filter.simps if_cancel)
qed

lemma replay_row_first:
  assumes "row_id x \<in> set (replaced_ids r)" and "\<And>y. y \<in> set pre \<Longrightarrow> row_id y \<notin> set (replaced_ids r)"
  shows "replay_row (pre @ x # post) r = pre @ r # filter (\<lambda>y. row_id y \<notin> set (replaced_ids r)) post"
proof -
  obtain ids where "compaction_replaces (hi_payload (snd r)) = Some ids"
    using assms(1) by (cases "compaction_replaces (hi_payload (snd r))") (simp_all add: replaced_ids_def)
  with assms show ?thesis by (simp add: replay_row_def)
qed

lemma sorted_snoc:
  assumes wf: "well_replaced (rows @ [r])" and ok: "replay_ok rows"
  shows "sorted_wrt (<) (map (placed (rows @ [r])) (replay_row (replay rows) r)) \<and> placed (rows @ [r]) r \<le> fst r"
proof -
  let ?ids = "set (replaced_ids r)" and ?view = "replay rows"
  let ?X = "{x \<in> set ?view. row_id x \<in> ?ids}"
  have sub: "set ?view \<subseteq> set rows" by (rule replay_rows)
  have sorted: "sorted_wrt (<) (map (placed rows) ?view)" and low: "\<And>x. x \<in> set rows \<Longrightarrow> placed rows x \<le> fst x"
    using ok by (auto simp: replay_ok_def)
  have dist: "distinct (map row_id rows)" using well_replaced_snoc(1) [OF wf] by (simp add: well_replaced_def)
  have old: "placed (rows @ [r]) x = placed rows x" if "x \<in> set rows" for x by (rule placed_snoc [OF wf that])
  have before: "placed rows x < fst r" if "x \<in> set rows" for x
    using low [OF that] well_replaced_snoc(4) [OF wf that] by simp
  note new = new_positions [OF wf]
  show ?thesis
  proof (cases "?X = {}")
    case True
    then have "placed (rows @ [r]) r = fst r" unfolding placed_eq Let_def new by (simp only: UN_empty simp_thms if_True)
    moreover have view: "replay_row ?view r = ?view @ [r]" using True by (intro replay_row_none) blast
    moreover have same: "map (placed (rows @ [r])) ?view = map (placed rows) ?view" using old sub by auto
    ultimately show ?thesis using sorted before sub unfolding view map_append same by (auto simp: sorted_wrt_append)
  next
    case False
    then obtain pre x post where view: "?view = pre @ x # post" and x: "row_id x \<in> ?ids"
      and pre: "\<And>y. y \<in> set pre \<Longrightarrow> row_id y \<notin> ?ids"
      using split_list_first_prop [of ?view "\<lambda>x. row_id x \<in> ?ids"] by blast
    have xs: "x \<in> set rows" using sub view by auto
    have mins: "Min (positions rows (stands_for rows {row_id y})) = placed rows y"
      "positions rows (stands_for rows {row_id y}) \<noteq> {}" if "y \<in> set rows" for y
      using Min_positions [OF dist that low [OF that]] by auto
    let ?ps = "\<Union>x \<in> ?X. positions rows (stands_for rows {row_id x})"
    have "placed rows x \<in> positions rows (stands_for rows {row_id x})"
      using Min_in [OF finite_positions mins(2) [OF xs]] mins(1) [OF xs] by simp
    moreover have "x \<in> ?X" using view x by simp
    ultimately have mem: "placed rows x \<in> ?ps" by (rule UN_I [rotated])
    have least: "placed rows x \<le> p" if "p \<in> ?ps" for p
    proof -
      from that obtain y where y: "y \<in> ?X" "p \<in> positions rows (stands_for rows {row_id y})" by blast
      then have "y \<notin> set pre" using pre by blast
      with y(1) have "y \<in> set rows" "y \<in> set (x # post)" using sub view by auto
      then have "placed rows x \<le> placed rows y" using sorted view by (auto simp: sorted_wrt_append)
      also have "\<dots> \<le> p" using y(2) mins(1) [OF \<open>y \<in> set rows\<close>] Min_le [OF finite_positions y(2)] by simp
      finally show ?thesis .
    qed
    have "finite ?ps" by simp
    then have first: "Min ?ps = placed rows x" using least mem by (rule Min_eqI)
    have "(?ps = {}) = False" using mem by blast
    with first have "placed (rows @ [r]) r = placed rows x"
      unfolding placed_eq [of "rows @ [r]"] Let_def new by (simp only: if_False)
    moreover have new_view: "replay_row ?view r = pre @ r # filter (\<lambda>y. row_id y \<notin> ?ids) post"
      unfolding view by (rule replay_row_first [OF x pre])
    moreover have same: "map (placed (rows @ [r])) pre = map (placed rows) pre"
      "map (placed (rows @ [r])) (filter P post) = map (placed rows) (filter P post)" for P
      using old sub view by auto
    ultimately show ?thesis using sorted [unfolded view] before [OF xs] unfolding new_view map_append list.map same
      by (auto simp: sorted_wrt_append sorted_wrt_map sorted_wrt_filter)
  qed
qed

lemma replay_ok_all: "well_replaced rows \<Longrightarrow> replay_ok rows"
proof (induction rows rule: rev_induct)
  case Nil
  show ?case by (simp add: replay_ok_def replay_def)
next
  case (snoc r rows)
  note wf = well_replaced_snoc [OF snoc.prems]
  have ok: "replay_ok rows" using snoc.IH wf(1) by blast
  note sorted = sorted_snoc [OF snoc.prems ok]
  have "set (replay (rows @ [r])) =
      {y \<in> set (rows @ [r]). \<forall>x \<in> set (rows @ [r]). row_id y \<notin> set (replaced_ids x)}"
    using ok wf(3) self_not_replaced [OF snoc.prems]
    by (auto simp: replay_ok_def replay_snoc set_replay_row)
  moreover have "\<forall>x \<in> set (rows @ [r]). placed (rows @ [r]) x \<le> fst x"
    using ok sorted placed_snoc [OF snoc.prems] by (auto simp: replay_ok_def)
  ultimately show ?case using sorted by (simp add: replay_ok_def replay_snoc)
qed

end
