(* ===== verification/Protocol_Forks.thy ===== *)
theory Protocol_Forks
  imports Active_History
begin

text \<open>
  Copies of a history into another session, \<open>src/src/protocol/store.rs\<close>: a fork of the whole log with new
  identities, the import of a shared log, and the context an agent gives to a child it spawns. All
  run inside one transaction, which an error rolls back. The table of sessions is the argument
  \<open>exists_session\<close>; the new identity of a copied item is a function of the old one, and the temporary table
  of identities checks that the new ones differ.
\<close>

section \<open>Preconditions\<close>

definition ensure_protocol_source_exists ::
  "(session_id \<Rightarrow> bool) \<Rightarrow> session_id \<Rightarrow> (unit, storage_error) result" where
  "ensure_protocol_source_exists exists_session source =
     (if exists_session source then Ok () else Err (ForkSourceMissing source))"

definition has_protocol_data :: "protocol_db \<Rightarrow> session_id \<Rightarrow> bool" where
  "has_protocol_data db s \<longleftrightarrow>
     list_ex (\<lambda>e. re_session_id e = s) (db_events db) \<or> list_ex (\<lambda>h. hi_session_id h = s) (db_history db) \<or>
     list_ex (\<lambda>t. ti_session_id t = s) (db_turns db) \<or> list_ex (\<lambda>a. ap_session_id a = s) (db_append db) \<or>
     list_ex (\<lambda>k. fst k = s) (hm_keys (db_allocators db))"

definition ensure_empty_protocol_target ::
  "(session_id \<Rightarrow> bool) \<Rightarrow> protocol_db \<Rightarrow> session_id \<Rightarrow> (unit, storage_error) result" where
  "ensure_empty_protocol_target exists_session db target =
     (if \<not> exists_session target then Err (ForkTargetMissing target)
      else if has_protocol_data db target then Err (ForkTargetNotEmpty target)
      else Ok ())"

record canonical_protocol_fence =
  cf_append_position :: "int option"
  cf_history_count :: nat
  cf_turn_count :: nat
  cf_runtime_event_count :: nat

definition canonical_protocol_fence_from_connection ::
  "protocol_db \<Rightarrow> session_id \<Rightarrow> (canonical_protocol_fence, storage_error) result" where
  "canonical_protocol_fence_from_connection db s =
     and_then (protocol_source_count db s HistorySource) (\<lambda>history_count.
     and_then (protocol_source_count db s TurnSource) (\<lambda>turn_count.
     and_then (protocol_source_count db s EventSource) (\<lambda>event_count.
       Ok \<lparr>cf_append_position = max_append_position db s, cf_history_count = history_count,
           cf_turn_count = turn_count, cf_runtime_event_count = event_count\<rparr>)))"

definition ensure_canonical_fork_source_fence ::
  "session_id \<Rightarrow> canonical_protocol_fence \<Rightarrow> canonical_protocol_fence \<Rightarrow> (unit, storage_error) result" where
  "ensure_canonical_fork_source_fence source expected actual =
     (if expected = actual then Ok () else Err (ForkSourceFenceChanged source))"

section \<open>The map of identities\<close>

type_synonym fork_id_map = "(history_item_id \<times> history_item_id) list"

definition insert_canonical_fork_history_id_mapping ::
  "fork_id_map \<Rightarrow> history_item_id \<Rightarrow> history_item_id \<Rightarrow> (fork_id_map, storage_error) result" where
  "insert_canonical_fork_history_id_mapping ids source_id target_id =
     (if list_ex (\<lambda>(i, j). i = source_id \<or> j = target_id) ids then Err DatabaseRefused
      else Ok (ids @ [(source_id, target_id)]))"

fun insert_mappings ::
  "(history_item_id \<Rightarrow> history_item_id) \<Rightarrow> fork_id_map \<Rightarrow> history_item_id list \<Rightarrow> (fork_id_map, storage_error) result" where
  "insert_mappings new_id ids [] = Ok ids"
| "insert_mappings new_id ids (i # items) =
     and_then (insert_canonical_fork_history_id_mapping ids i (new_id i)) (\<lambda>ids'. insert_mappings new_id ids' items)"

definition canonical_fork_target_history_id ::
  "fork_id_map \<Rightarrow> history_item_id \<Rightarrow> (history_item_id, storage_error) result" where
  "canonical_fork_target_history_id ids source_id =
     (case map_of ids source_id of None \<Rightarrow> Err (ForkMappingMissing source_id) | Some i \<Rightarrow> Ok i)"

definition ensure_canonical_fork_history_mapping_count ::
  "fork_id_map \<Rightarrow> nat \<Rightarrow> (unit, storage_error) result" where
  "ensure_canonical_fork_history_mapping_count ids expected =
     (if length ids = expected then Ok () else Err (ForkMappingCount (length ids) expected))"

text \<open>\<open>collect\<close> over results.\<close>

fun collect_results :: "('a \<Rightarrow> ('b, 'e) result) \<Rightarrow> 'a list \<Rightarrow> ('b list, 'e) result" where
  "collect_results f [] = Ok []"
| "collect_results f (x # xs) = and_then (f x) (\<lambda>y. and_then (collect_results f xs) (\<lambda>ys. Ok (y # ys)))"

definition fork_history_payload_for_session ::
  "fork_id_map \<Rightarrow> history_item_payload \<Rightarrow> (history_item_payload, storage_error) result" where
  "fork_history_payload_for_session ids payload =
     (case payload of
        Compaction mode layout preserved checkpoint summary0 replaced \<Rightarrow>
          and_then (collect_results (canonical_fork_target_history_id ids) replaced)
            (\<lambda>replaced'. Ok (Compaction mode layout preserved checkpoint summary0 replaced'))
      | other \<Rightarrow> Ok other)"

definition fork_history_item ::
  "fork_id_map \<Rightarrow> session_id \<Rightarrow> history_item \<Rightarrow> (history_item, storage_error) result" where
  "fork_history_item ids target item =
     and_then (canonical_fork_target_history_id ids (hi_id item)) (\<lambda>target_id.
     and_then (fork_history_payload_for_session ids (hi_payload item)) (\<lambda>payload.
       Ok (item\<lparr>hi_id := target_id, hi_session_id := target, hi_payload := payload\<rparr>)))"

definition fork_turn_item ::
  "fork_id_map \<Rightarrow> (ulid \<Rightarrow> ulid) \<Rightarrow> session_id \<Rightarrow> turn_item \<Rightarrow> (turn_item, storage_error) result" where
  "fork_turn_item ids new_turn_item_id target item =
     and_then (case ti_source_item_id item of
                 None \<Rightarrow> Ok None
               | Some i \<Rightarrow> and_then (canonical_fork_target_history_id ids i) (\<lambda>j. Ok (Some j))) (\<lambda>source_item_id.
       Ok (item\<lparr>ti_id := new_turn_item_id (ti_id item), ti_session_id := target,
                ti_source_item_id := source_item_id\<rparr>))"

section \<open>Writing copies\<close>

fun is_steer_turn :: "history_item_payload \<Rightarrow> bool" where
  "is_steer_turn (SteerTurn _ _ _ _) = True"
| "is_steer_turn _ = False"

definition insert_forked_turn_steer_provenance ::
  "(db_row \<Rightarrow> bool) \<Rightarrow> protocol_db \<Rightarrow> history_item \<Rightarrow> (protocol_db, storage_error) result" where
  "insert_forked_turn_steer_provenance refused db item =
     (if \<not> is_steer_turn (hi_payload item) then Ok db
      else if scope_turn_id (hi_scope item) = None then Err (ForkedSteerNotScoped (hi_id item))
      else if refused (SteerInputRow item) \<or> list_ex (\<lambda>h. hi_id h = hi_id item) (db_steer_inputs db)
      then Err DatabaseRefused
      else Ok (db\<lparr>db_steer_inputs := db_steer_inputs db @ [item]\<rparr>))"

fun insert_forked_items ::
  "(db_row \<Rightarrow> bool) \<Rightarrow> protocol_db \<Rightarrow> history_item list \<Rightarrow> (protocol_db, storage_error) result" where
  "insert_forked_items refused db [] = Ok db"
| "insert_forked_items refused db (item # items) =
     and_then (insert_history_item refused db item) (\<lambda>db1.
     and_then (insert_forked_turn_steer_provenance refused db1 item) (\<lambda>db2.
       insert_forked_items refused db2 items))"

fun insert_turn_items ::
  "(db_row \<Rightarrow> bool) \<Rightarrow> protocol_db \<Rightarrow> turn_item list \<Rightarrow> (protocol_db, storage_error) result" where
  "insert_turn_items refused db [] = Ok db"
| "insert_turn_items refused db (item # items) =
     and_then (insert_turn_item refused db item) (\<lambda>db1. insert_turn_items refused db1 items)"

text \<open>The next number of every turn first, then one statement for each.\<close>

fun next_sequence_by_turn :: "(turn_id, int) hmap \<Rightarrow> (turn_id \<times> int) list \<Rightarrow> (turn_id, int) hmap" where
  "next_sequence_by_turn m [] = m"
| "next_sequence_by_turn m ((turn, sequence_no) # rest) =
     (let next_no = i64_saturating_succ (max sequence_no (- 1)) in
      next_sequence_by_turn
        (hm_insert turn (case hm_get m turn of None \<Rightarrow> next_no | Some current \<Rightarrow> max current next_no) m) rest)"

fun seed_allocators ::
  "(db_row \<Rightarrow> bool) \<Rightarrow> protocol_db \<Rightarrow> session_id \<Rightarrow> (turn_id \<times> int) list \<Rightarrow> (protocol_db, storage_error) result" where
  "seed_allocators refused db target [] = Ok db"
| "seed_allocators refused db target ((turn, next_no) # rest) =
     (let next_no' = (case hm_get (db_allocators db) (target, turn) of None \<Rightarrow> next_no | Some n \<Rightarrow> max n next_no)
      in if refused (AllocatorRow target turn next_no') then Err DatabaseRefused
         else seed_allocators refused
                (db\<lparr>db_allocators := hm_insert (target, turn) next_no' (db_allocators db)\<rparr>) target rest)"

definition seed_turn_sequence_allocators ::
  "(db_row \<Rightarrow> bool) \<Rightarrow> protocol_db \<Rightarrow> session_id \<Rightarrow> (turn_id \<times> int) list \<Rightarrow> (protocol_db, storage_error) result" where
  "seed_turn_sequence_allocators refused db target turn_sequences =
     seed_allocators refused db target (next_sequence_by_turn [] turn_sequences)"

definition history_turn_sequences :: "history_item list \<Rightarrow> (turn_id \<times> int) list" where
  "history_turn_sequences items =
     List.map_filter (\<lambda>h. map_option (\<lambda>t. (t, hi_sequence_no h)) (scope_turn_id (hi_scope h))) items"

definition seed_history_turn_sequence_allocators ::
  "(db_row \<Rightarrow> bool) \<Rightarrow> protocol_db \<Rightarrow> session_id \<Rightarrow> history_item list \<Rightarrow> (protocol_db, storage_error) result" where
  "seed_history_turn_sequence_allocators refused db target items =
     seed_turn_sequence_allocators refused db target (history_turn_sequences items)"

definition write_forked_page ::
  "(db_row \<Rightarrow> bool) \<Rightarrow> protocol_db \<Rightarrow> session_id \<Rightarrow> history_item list \<Rightarrow> (protocol_db, storage_error) result" where
  "write_forked_page refused db target page =
     and_then (insert_forked_items refused db page) (\<lambda>db1.
       seed_history_turn_sequence_allocators refused db1 target page)"

definition write_turn_page ::
  "(db_row \<Rightarrow> bool) \<Rightarrow> protocol_db \<Rightarrow> session_id \<Rightarrow> turn_item list \<Rightarrow> (protocol_db, storage_error) result" where
  "write_turn_page refused db target page =
     and_then (insert_turn_items refused db page) (\<lambda>db1.
       seed_turn_sequence_allocators refused db1 target (map (\<lambda>t. (ti_turn_id t, ti_sequence_no t)) page))"

section \<open>The fork of a log\<close>

text \<open>
  The three loops read pages of 200 by offset. \<open>step\<close> takes a page: it notes identities, or writes copies.
\<close>

function fork_pages ::
  "('s \<Rightarrow> nat \<Rightarrow> ('a list, storage_error) result) \<Rightarrow> ('s \<Rightarrow> 'a list \<Rightarrow> ('s, storage_error) result) \<Rightarrow>
   session_id \<Rightarrow> nat \<Rightarrow> nat \<Rightarrow> 's \<Rightarrow> ('s, storage_error) result" where
  "fork_pages page_at step source total0 offset st =
     (if \<not> offset < total0 then Ok st
      else case page_at st offset of
        Inl e \<Rightarrow> Err e
      | Inr items \<Rightarrow>
          (case step st items of
             Inl e \<Rightarrow> Err e
           | Inr st' \<Rightarrow>
               (case advance_canonical_fork_page_offset source offset (length items) total0 of
                  Inl e \<Rightarrow> Err e
                | Inr offset' \<Rightarrow> fork_pages page_at step source total0 offset' st')))"
  by pat_completeness auto

termination
proof (relation "measure (\<lambda>(page_at, step, source, total0, offset, st). total0 - offset)", goal_cases)
  case (2 page_at step source total0 offset st items st' offset')
  then show ?case by (cases items) (auto simp: advance_canonical_fork_page_offset_def split: if_splits)
qed simp

definition history_page_at :: "session_id \<Rightarrow> nat \<Rightarrow> protocol_db \<Rightarrow> nat \<Rightarrow> (history_item list, storage_error) result" where
  "history_page_at source total0 db offset =
     and_then (history_item_page_from_connection db source (OffsetPage offset MAX_PROTOCOL_PAGE_LIMIT) total0)
       (\<lambda>page. Ok (pg_items page))"

definition turn_page_at :: "session_id \<Rightarrow> nat \<Rightarrow> protocol_db \<Rightarrow> nat \<Rightarrow> (turn_item list, storage_error) result" where
  "turn_page_at source total0 db offset =
     and_then (turn_item_page_from_connection db source (OffsetPage offset MAX_PROTOCOL_PAGE_LIMIT) total0)
       (\<lambda>page. Ok (pg_items page))"

definition fork_canonical_items_in_transaction ::
  "(db_row \<Rightarrow> bool) \<Rightarrow> (session_id \<Rightarrow> bool) \<Rightarrow> (history_item_id \<Rightarrow> history_item_id) \<Rightarrow> (ulid \<Rightarrow> ulid) \<Rightarrow> protocol_db \<Rightarrow>
   session_id \<Rightarrow> session_id \<Rightarrow> (protocol_db \<times> nat \<times> nat, storage_error) result" where
  "fork_canonical_items_in_transaction refused exists_session new_id new_turn_item_id db source target =
     (if source = target then Err ForkSameSession
      else
        and_then (ensure_protocol_source_exists exists_session source) (\<lambda>_.
        and_then (ensure_empty_protocol_target exists_session db target) (\<lambda>_.
        and_then (canonical_protocol_fence_from_connection db source) (\<lambda>fence.
        and_then (fork_pages (\<lambda>_. history_page_at source (cf_history_count fence) db)
                    (\<lambda>ids items. insert_mappings new_id ids (map hi_id items)) source (cf_history_count fence) 0 [])
          (\<lambda>ids.
        and_then (ensure_canonical_fork_history_mapping_count ids (cf_history_count fence)) (\<lambda>_.
        and_then (fork_pages (\<lambda>(db, _). history_page_at source (cf_history_count fence) db)
                    (\<lambda>(db, copied) items.
                       and_then (collect_results (fork_history_item ids target) items) (\<lambda>page.
                       and_then (write_forked_page refused db target page) (\<lambda>db'.
                         Ok (db', copied + length page)))) source (cf_history_count fence) 0 (db, 0))
          (\<lambda>(db1, copied_history).
        and_then (fork_pages (\<lambda>(db, _). turn_page_at source (cf_turn_count fence) db)
                    (\<lambda>(db, copied) items.
                       and_then (collect_results (fork_turn_item ids new_turn_item_id target) items) (\<lambda>page.
                       and_then (write_turn_page refused db target page) (\<lambda>db'.
                         Ok (db', copied + length page)))) source (cf_turn_count fence) 0 (db1, 0))
          (\<lambda>(db2, copied_turns).
        and_then (canonical_protocol_fence_from_connection db2 source) (\<lambda>final_fence.
        and_then (ensure_canonical_fork_source_fence source fence final_fence) (\<lambda>_.
          Ok (db2, copied_history, copied_turns)))))))))))"

text \<open>The import of a shared log, whose items come as arguments.\<close>

fun import_history ::
  "(db_row \<Rightarrow> bool) \<Rightarrow> fork_id_map \<Rightarrow> session_id \<Rightarrow> protocol_db \<Rightarrow> history_item list \<Rightarrow> history_item list \<Rightarrow>
   (protocol_db \<times> history_item list, storage_error) result" where
  "import_history refused ids target db copied [] = Ok (db, copied)"
| "import_history refused ids target db copied (item # items) =
     and_then (fork_history_item ids target item) (\<lambda>forked.
     and_then (insert_history_item refused db forked) (\<lambda>db1.
     and_then (insert_forked_turn_steer_provenance refused db1 forked) (\<lambda>db2.
       import_history refused ids target db2 (copied @ [forked]) items)))"

fun import_turns ::
  "(db_row \<Rightarrow> bool) \<Rightarrow> fork_id_map \<Rightarrow> (ulid \<Rightarrow> ulid) \<Rightarrow> session_id \<Rightarrow> protocol_db \<Rightarrow> turn_item list \<Rightarrow>
   (protocol_db, storage_error) result" where
  "import_turns refused ids new_turn_item_id target db [] = Ok db"
| "import_turns refused ids new_turn_item_id target db (item # items) =
     and_then (fork_turn_item ids new_turn_item_id target item) (\<lambda>forked.
     and_then (insert_turn_item refused db forked) (\<lambda>db1.
     and_then (seed_turn_sequence_allocators refused db1 target [(ti_turn_id forked, ti_sequence_no forked)]) (\<lambda>db2.
       import_turns refused ids new_turn_item_id target db2 items)))"

definition fork_shared_history_in_transaction ::
  "(db_row \<Rightarrow> bool) \<Rightarrow> (session_id \<Rightarrow> bool) \<Rightarrow> (history_item_id \<Rightarrow> history_item_id) \<Rightarrow> (ulid \<Rightarrow> ulid) \<Rightarrow> protocol_db \<Rightarrow>
   session_id \<Rightarrow> session_id \<Rightarrow> history_item list \<Rightarrow> turn_item list \<Rightarrow> (protocol_db, storage_error) result" where
  "fork_shared_history_in_transaction refused exists_session new_id new_turn_item_id db source target history turns =
     and_then (ensure_empty_protocol_target exists_session db target) (\<lambda>_.
       if source = target \<or> 100000 < length history + length turns \<or>
          list_ex (\<lambda>h. hi_session_id h \<noteq> source) history \<or> list_ex (\<lambda>t. ti_session_id t \<noteq> source) turns
       then Err SharedHistoryInvalid
       else
         and_then (insert_mappings new_id [] (map hi_id history)) (\<lambda>ids.
         and_then (import_history refused ids target db [] history) (\<lambda>(db1, copied).
         and_then (seed_history_turn_sequence_allocators refused db1 target copied) (\<lambda>db2.
           import_turns refused ids new_turn_item_id target db2 turns))))"

section \<open>The context of a child\<close>

definition fork_agent_context_payload :: "history_item_payload \<Rightarrow> bool \<Rightarrow> history_item_payload option" where
  "fork_agent_context_payload payload include_assistant_message =
     (case payload of
        UserTurn content _ _ \<Rightarrow> Some (UserTurn content None None)
      | SteerTurn expected content additional client \<Rightarrow> Some (SteerTurn expected content additional client)
      | AssistantMessage response content \<Rightarrow>
          if include_assistant_message then Some (AssistantMessage response content) else None
      | CollaborationModeInstruction mode \<Rightarrow> Some (CollaborationModeInstruction mode)
      | Compaction mode layout preserved checkpoint summary0 _ \<Rightarrow>
          Some (Compaction mode layout preserved checkpoint summary0 [])
      | _ \<Rightarrow> None)"

definition is_agent_fork_turn_boundary :: "history_item_payload \<Rightarrow> bool" where
  "is_agent_fork_turn_boundary payload =
     (case payload of
        UserTurn _ _ _ \<Rightarrow> True
      | SteerTurn _ _ _ _ \<Rightarrow> True
      | Compaction _ _ _ _ _ _ \<Rightarrow> True
      | InterAgentCommunication c \<Rightarrow> iac_trigger_turn c
      | _ \<Rightarrow> False)"

fun terminal_of :: "runtime_event_msg \<Rightarrow> durable_turn_terminal option" where
  "terminal_of (MsgTurnTerminal t) = Some t"
| "terminal_of _ = None"

definition unique_terminal_for_turn ::
  "protocol_db \<Rightarrow> session_id \<Rightarrow> turn_id \<Rightarrow> ((durable_turn_terminal \<times> int) option, storage_error) result" where
  "unique_terminal_for_turn db s turn =
     (case rev (List.map_filter (\<lambda>(p, e). if re_turn_id e = turn then map_option (\<lambda>t. (t, p)) (terminal_of (re_msg e)) else None)
              (event_rows db s)) of
        [] \<Rightarrow> Ok None
      | [x] \<Rightarrow> Ok (Some x)
      | _ \<Rightarrow> Err (ForkDuplicateTerminal turn))"

definition canonical_turn_history_with_append_positions ::
  "protocol_db \<Rightarrow> session_id \<Rightarrow> turn_id \<Rightarrow> ((history_item \<times> int) list, storage_error) result" where
  "canonical_turn_history_with_append_positions db s turn =
     collect_results (\<lambda>(p, h). and_then (decode_history h) (\<lambda>item. Ok (item, p)))
       (filter (\<lambda>(_, h). hi_scope h = Turn turn) (history_rows db s))"

record fork_response_bundle =
  fb_assistant_items :: "(history_item_id \<times> content_part list) list"
  fb_has_tool_call :: bool

definition empty_response_bundle :: fork_response_bundle where
  "empty_response_bundle = \<lparr>fb_assistant_items = [], fb_has_tool_call = False\<rparr>"

definition bundle_entry :: "(response_id, fork_response_bundle) hmap \<Rightarrow> response_id \<Rightarrow> fork_response_bundle" where
  "bundle_entry m r = (case hm_get m r of None \<Rightarrow> empty_response_bundle | Some b \<Rightarrow> b)"

text \<open>An item of a response, noted in the bundle of the response.\<close>

definition note_response ::
  "(response_id, fork_response_bundle) hmap \<Rightarrow> history_item \<Rightarrow> (response_id \<times> (response_id, fork_response_bundle) hmap) option" where
  "note_response m item =
     (case hi_payload item of
        AssistantMessage r content \<Rightarrow>
          let b = bundle_entry m r in
          Some (r, hm_insert r (b\<lparr>fb_assistant_items := fb_assistant_items b @ [(hi_id item, content)]\<rparr>) m)
      | ToolCall _ r _ _ _ \<Rightarrow> Some (r, hm_insert r ((bundle_entry m r)\<lparr>fb_has_tool_call := True\<rparr>) m)
      | _ \<Rightarrow> None)"

fun response_bundles ::
  "turn_id \<Rightarrow> int \<Rightarrow> (response_id, fork_response_bundle) hmap \<Rightarrow> response_id option \<Rightarrow> (history_item \<times> int) list \<Rightarrow>
   ((response_id, fork_response_bundle) hmap \<times> response_id option, storage_error) result" where
  "response_bundles turn terminal_position m latest [] = Ok (m, latest)"
| "response_bundles turn terminal_position m latest ((item, position0) # rest) =
     (case note_response m item of
        None \<Rightarrow> response_bundles turn terminal_position m latest rest
      | Some (r, m') \<Rightarrow>
          if terminal_position \<le> position0 then Err (ForkResponseAfterTerminal r turn)
          else response_bundles turn terminal_position m' (Some r) rest)"

definition plain_answer :: "fork_response_bundle \<Rightarrow> history_item_id option" where
  "plain_answer b =
     (if fb_has_tool_call b then None
      else case fb_assistant_items b of
        [(i, [CText text0])] \<Rightarrow> if trim text0 \<noteq> [] then Some i else None
      | _ \<Rightarrow> None)"

text \<open>The response that the terminal names, or the latest; a named one must be the latest and an answer.\<close>

definition chosen_answer ::
  "turn_id \<Rightarrow> response_id option \<Rightarrow> (response_id, fork_response_bundle) hmap \<Rightarrow> response_id option \<Rightarrow>
   (history_item_id option, storage_error) result" where
  "chosen_answer turn explicit bundles latest =
     (case (case explicit of Some r \<Rightarrow> Some r | None \<Rightarrow> latest) of
        None \<Rightarrow> Ok None
      | Some r \<Rightarrow>
          if explicit \<noteq> None \<and> latest \<noteq> Some r then Err (ForkNotLatestResponse r turn)
          else case hm_get bundles r of
            None \<Rightarrow> if explicit \<noteq> None then Err (ForkMissingResponse r turn) else Ok None
          | Some b \<Rightarrow>
              (case plain_answer b of
                 Some i \<Rightarrow> Ok (Some i)
               | None \<Rightarrow> if explicit \<noteq> None then Err (ForkNotPlainAnswer r turn) else Ok None))"

text \<open>The item of the final answer of a completed turn, if there is one.\<close>

definition final_answer_of_turn ::
  "protocol_db \<Rightarrow> session_id \<Rightarrow> turn_id \<Rightarrow> (history_item_id option, storage_error) result" where
  "final_answer_of_turn db s turn =
     and_then (unique_terminal_for_turn db s turn) (\<lambda>terminal.
       case terminal of
         None \<Rightarrow> Ok None
       | Some (t, terminal_position) \<Rightarrow>
           if dt_outcome t \<noteq> TerminalCompleted then Ok None
           else
             and_then (canonical_turn_history_with_append_positions db s turn) (\<lambda>history.
             and_then (response_bundles turn terminal_position [] None history) (\<lambda>(bundles, latest).
               chosen_answer turn (dt_final_response_id t) bundles latest)))"

definition final_answer_history_item_ids_for_turns ::
  "protocol_db \<Rightarrow> session_id \<Rightarrow> turn_id list \<Rightarrow> (history_item_id list, storage_error) result" where
  "final_answer_history_item_ids_for_turns db s turns =
     and_then (collect_results (final_answer_of_turn db s) (rev (remdups (rev turns))))
       (\<lambda>answers. Ok (List.map_filter (\<lambda>a. a) answers))"

text \<open>What the first traversal collects: the turns of assistant messages and the number of boundaries.\<close>

definition collect_assistant_turns :: "turn_id list \<times> nat \<Rightarrow> history_item \<Rightarrow> turn_id list \<times> nat" where
  "collect_assistant_turns st item =
     (let (turns, boundaries) = st in
      (turns @ (case (hi_payload item, scope_turn_id (hi_scope item)) of
                  (AssistantMessage _ _, Some t) \<Rightarrow> [t] | _ \<Rightarrow> []),
       if is_agent_fork_turn_boundary (hi_payload item) then boundaries + 1 else boundaries))"

text \<open>What the second copies of a page: boundaries to skip, whether copying started, the copies.\<close>

definition copy_agent_item ::
  "history_item_id list \<Rightarrow> (history_item_id \<Rightarrow> history_item_id) \<Rightarrow> session_id \<Rightarrow>
   nat option \<times> bool \<times> history_item list \<Rightarrow> history_item \<Rightarrow> nat option \<times> bool \<times> history_item list" where
  "copy_agent_item final_answers new_id target st item =
     (let (to_skip, started, copies) = st;
          boundary = is_agent_fork_turn_boundary (hi_payload item)
      in if boundary \<and> (case to_skip of Some n \<Rightarrow> 0 < n | None \<Rightarrow> False)
         then (map_option (\<lambda>n. n - 1) to_skip, started, copies)
         else let started' = (started \<or> boundary)
              in if \<not> started' then (to_skip, started', copies)
                 else case fork_agent_context_payload (hi_payload item) (hi_id item \<in> set final_answers) of
                        None \<Rightarrow> (to_skip, started', copies)
                      | Some payload \<Rightarrow>
                          (to_skip, started',
                           copies @ [item\<lparr>hi_id := new_id (hi_id item), hi_session_id := target, hi_payload := payload\<rparr>]))"

definition copy_agent_page ::
  "(db_row \<Rightarrow> bool) \<Rightarrow> history_item_id list \<Rightarrow> (history_item_id \<Rightarrow> history_item_id) \<Rightarrow> session_id \<Rightarrow>
   protocol_db \<times> nat option \<times> bool \<times> nat \<Rightarrow> active_history_page \<Rightarrow>
   (protocol_db \<times> nat option \<times> bool \<times> nat, storage_error) result" where
  "copy_agent_page refused final_answers new_id target st page =
     (let (db, to_skip, started, copied) = st;
          (to_skip', started', copies) = foldl (copy_agent_item final_answers new_id target) (to_skip, started, []) (hp_items page)
      in and_then (write_forked_page refused db target copies) (\<lambda>db'.
           Ok (db', to_skip', started', copied + length copies)))"

definition fork_agent_context_in_transaction ::
  "(db_row \<Rightarrow> bool) \<Rightarrow> (session_id \<Rightarrow> bool) \<Rightarrow> (history_item_id \<Rightarrow> history_item_id) \<Rightarrow> protocol_db \<Rightarrow>
   session_id \<Rightarrow> session_id \<Rightarrow> active_history_snapshot option \<Rightarrow> nat option \<Rightarrow> (protocol_db \<times> nat, storage_error) result" where
  "fork_agent_context_in_transaction refused exists_session new_id db source target expected_fence recent_turns =
     and_then (ensure_empty_protocol_target exists_session db target) (\<lambda>_.
     and_then (traverse_active_history_in_transaction_with_bounds db source expected_fence MAX_PROTOCOL_PAGE_LIMIT None
                 (\<lambda>st page. Ok (foldl collect_assistant_turns st (hp_items page))) ([], 0))
       (\<lambda>((assistant_turns, boundary_count), stats).
     and_then (final_answer_history_item_ids_for_turns db source assistant_turns) (\<lambda>final_answers.
     and_then (traverse_active_history_in_transaction_with_bounds db source (Some (ts_snapshot stats))
                 MAX_PROTOCOL_PAGE_LIMIT None (copy_agent_page refused final_answers new_id target)
                 (db, map_option (\<lambda>turns. boundary_count - turns) recent_turns, recent_turns = None, 0))
       (\<lambda>((db', _, _, copied), _). Ok (db', copied)))))"

definition fork_agent_context_in_transaction_for_spawn ::
  "(db_row \<Rightarrow> bool) \<Rightarrow> (session_id \<Rightarrow> bool) \<Rightarrow> (history_item_id \<Rightarrow> history_item_id) \<Rightarrow> protocol_db \<Rightarrow>
   session_id \<Rightarrow> session_id \<Rightarrow> nat option \<Rightarrow> (protocol_db \<times> nat, storage_error) result" where
  "fork_agent_context_in_transaction_for_spawn refused exists_session new_id db source target recent_turns =
     (if source = target then Err ForkSameSession
      else if recent_turns = Some 0 then Err ForkZeroTurns
      else fork_agent_context_in_transaction refused exists_session new_id db source target None recent_turns)"

definition fork_agent_context ::
  "(db_row \<Rightarrow> bool) \<Rightarrow> (session_id \<Rightarrow> bool) \<Rightarrow> (history_item_id \<Rightarrow> history_item_id) \<Rightarrow> protocol_db \<Rightarrow>
   session_id \<Rightarrow> session_id \<Rightarrow> (protocol_db \<times> nat, storage_error) result" where
  "fork_agent_context refused exists_session new_id db source target =
     (if source = target then Err ForkSameSession
      else fork_agent_context_in_transaction refused exists_session new_id db source target None None)"

definition fork_agent_context_recent ::
  "(db_row \<Rightarrow> bool) \<Rightarrow> (session_id \<Rightarrow> bool) \<Rightarrow> (history_item_id \<Rightarrow> history_item_id) \<Rightarrow> protocol_db \<Rightarrow>
   session_id \<Rightarrow> session_id \<Rightarrow> nat \<Rightarrow> (protocol_db \<times> nat, storage_error) result" where
  "fork_agent_context_recent refused exists_session new_id db source target turns =
     (if turns = 0 then Err ForkZeroTurns
      else if source = target then Err ForkSameSession
      else fork_agent_context_in_transaction refused exists_session new_id db source target None (Some turns))"

end
