(* ===== verification/Fork_Keep.thy ===== *)
theory Fork_Keep
  imports Protocol_Forks Active_Replay
begin

text \<open>
  What a copy does to the tables. A page of copies is inserted before its allocators are seeded, so
  that the invariant does not hold in between; seeding and inserting commute, and seeding first keeps it. A
  copy appends to the part of its target session and leaves every other session as it was.
\<close>

section \<open>Seeding commutes with inserting\<close>

abbreviation with_allocators :: "protocol_db \<Rightarrow> (session_id \<times> turn_id, int) hmap \<Rightarrow> protocol_db" where
  "with_allocators db m \<equiv> db\<lparr>db_allocators := m\<rparr>"

lemma insert_history_allocators:
  "insert_history_item refused (with_allocators db m) h =
   map_sum id (\<lambda>d. with_allocators d m) (insert_history_item refused db h)"
  by (simp add: insert_history_item_def insert_protocol_append_order_def Let_def split: sum.split)

lemma insert_turn_allocators:
  "insert_turn_item refused (with_allocators db m) t =
   map_sum id (\<lambda>d. with_allocators d m) (insert_turn_item refused db t)"
  by (simp add: insert_turn_item_def insert_protocol_append_order_def Let_def)

lemma provenance_allocators:
  "insert_forked_turn_steer_provenance refused (with_allocators db m) h =
   map_sum id (\<lambda>d. with_allocators d m) (insert_forked_turn_steer_provenance refused db h)"
  by (simp add: insert_forked_turn_steer_provenance_def)

lemma forked_items_allocators:
  "insert_forked_items refused db items = Ok db' \<Longrightarrow>
   insert_forked_items refused (with_allocators db m) items = Ok (with_allocators db' m)"
  by (induction items arbitrary: db)
    (auto simp: and_then_Ok_iff insert_history_allocators provenance_allocators)

lemma turn_items_allocators:
  "insert_turn_items refused db items = Ok db' \<Longrightarrow>
   insert_turn_items refused (with_allocators db m) items = Ok (with_allocators db' m)"
  by (induction items arbitrary: db) (auto simp: and_then_Ok_iff insert_turn_allocators)

lemma append_order_keeps: "insert_protocol_append_order refused db s scope n kind i c = Ok db' \<Longrightarrow> db_allocators db' = db_allocators db"
  by (auto simp: insert_protocol_append_order_def Let_def split: if_splits)

lemma forked_items_keep_allocators:
  "insert_forked_items refused db items = Ok db' \<Longrightarrow> db_allocators db' = db_allocators db"
proof (induction items arbitrary: db)
  case (Cons h items)
  then show ?case
    by (fastforce simp: and_then_Ok_iff insert_history_item_def insert_forked_turn_steer_provenance_def
          split: if_splits sum.splits dest: append_order_keeps)
qed simp

lemma turn_items_keep_allocators:
  "insert_turn_items refused db items = Ok db' \<Longrightarrow> db_allocators db' = db_allocators db"
  by (induction items arbitrary: db)
    (fastforce simp: and_then_Ok_iff insert_turn_item_def split: if_splits dest: append_order_keeps)+

section \<open>Seeding\<close>

fun seeded :: "session_id \<Rightarrow> (session_id \<times> turn_id, int) hmap \<Rightarrow> (turn_id \<times> int) list \<Rightarrow> (session_id \<times> turn_id, int) hmap" where
  "seeded target m [] = m"
| "seeded target m ((turn, next_no) # rest) =
     seeded target
       (hm_insert (target, turn) (case hm_get m (target, turn) of None \<Rightarrow> next_no | Some n \<Rightarrow> max n next_no) m) rest"

lemma seed_allocators_Ok:
  "seed_allocators refused db target xs = Ok db' \<Longrightarrow> db' = with_allocators db (seeded target (db_allocators db) xs)"
proof (induction refused db target xs rule: seed_allocators.induct)
  case (2 refused db target turn next_no rest)
  from 2(2) show ?case by (auto simp: Let_def split: if_splits dest!: 2(1) [OF refl])
qed simp

lemma seeded_grows:
  "hm_get m k = Some n \<Longrightarrow> n \<le> I64_MAX \<Longrightarrow> \<forall>x \<in> set xs. snd x \<le> I64_MAX \<Longrightarrow>
   \<exists>n'. hm_get (seeded target m xs) k = Some n' \<and> n \<le> n' \<and> n' \<le> I64_MAX"
proof (induction xs arbitrary: m n)
  case (Cons x xs)
  obtain turn next_no where x: "x = (turn, next_no)" by (cases x)
  let ?m = "hm_insert (target, turn) (case hm_get m (target, turn) of None \<Rightarrow> next_no | Some n \<Rightarrow> max n next_no) m"
  obtain n1 where n1: "hm_get ?m k = Some n1" "n \<le> n1" "n1 \<le> I64_MAX"
    using Cons.prems x by (cases "k = (target, turn)") auto
  from Cons.IH [OF n1(1,3)] Cons.prems(3) n1(2) show ?case unfolding x by fastforce
qed auto

lemma seeded_has:
  "(turn, n) \<in> set xs \<Longrightarrow> \<forall>x \<in> set xs. snd x \<le> I64_MAX \<Longrightarrow> \<forall>k v. hm_get m k = Some v \<longrightarrow> v \<le> I64_MAX \<Longrightarrow>
   \<exists>n'. hm_get (seeded target m xs) (target, turn) = Some n' \<and> n \<le> n' \<and> n' \<le> I64_MAX"
proof (induction xs arbitrary: m)
  case (Cons x xs)
  obtain t next_no where x: "x = (t, next_no)" by (cases x)
  let ?v = "case hm_get m (target, t) of None \<Rightarrow> next_no | Some n \<Rightarrow> max n next_no"
  let ?m = "hm_insert (target, t) ?v m"
  have v: "next_no \<le> ?v" "?v \<le> I64_MAX" using Cons.prems(2,3) x by (auto split: option.split)
  show ?case
  proof (cases "(turn, n) \<in> set xs")
    case True
    have "\<forall>k v. hm_get ?m k = Some v \<longrightarrow> v \<le> I64_MAX" using v(2) Cons.prems(3) by simp
    with Cons.IH [OF True, of ?m] Cons.prems(2) show ?thesis by (simp add: x)
  next
    case False
    with Cons.prems(1) x have "turn = t" "n = next_no" by simp_all
    with seeded_grows [of ?m "(target, t)" ?v xs target] v Cons.prems(2) show ?thesis unfolding x by fastforce
  qed
qed simp

lemma seeded_other: "fst k \<noteq> target \<Longrightarrow> hm_get (seeded target m xs) k = hm_get m k"
  by (induction target m xs rule: seeded.induct) auto

lemma seeded_keys: "distinct (hm_keys m) \<Longrightarrow> distinct (hm_keys (seeded target m xs))"
  by (induction target m xs rule: seeded.induct) (auto simp: distinct_hm_insert)

lemma next_sequence_keys: "distinct (hm_keys m) \<Longrightarrow> distinct (hm_keys (next_sequence_by_turn m seqs))"
  by (induction m seqs rule: next_sequence_by_turn.induct) (auto simp: Let_def distinct_hm_insert)

lemma next_sequence_bound:
  "\<forall>k v. hm_get m k = Some v \<longrightarrow> v \<le> I64_MAX \<Longrightarrow> hm_get (next_sequence_by_turn m seqs) t = Some v \<Longrightarrow> v \<le> I64_MAX"
proof (induction m seqs rule: next_sequence_by_turn.induct)
  case (2 m turn sequence_no rest)
  have "i64_saturating_succ k \<le> I64_MAX" for k by (simp add: i64_saturating_succ_def)
  then have "\<forall>k v. hm_get (hm_insert turn (case hm_get m turn of None \<Rightarrow> i64_saturating_succ (max sequence_no (- 1))
      | Some c \<Rightarrow> max c (i64_saturating_succ (max sequence_no (- 1)))) m) k = Some v \<longrightarrow> v \<le> I64_MAX"
    using 2(2) by (auto split: option.splits)
  from 2(1) [OF refl this] 2(3) show ?case by (simp add: Let_def)
qed simp

lemma next_sequence_grows:
  "hm_get m t = Some v \<Longrightarrow> \<exists>v'. hm_get (next_sequence_by_turn m seqs) t = Some v' \<and> v \<le> v'"
proof (induction m seqs arbitrary: v rule: next_sequence_by_turn.induct)
  case (2 m turn sequence_no rest)
  let ?n = "i64_saturating_succ (max sequence_no (- 1))"
  let ?m = "hm_insert turn (case hm_get m turn of None \<Rightarrow> ?n | Some c \<Rightarrow> max c ?n) m"
  obtain v1 where v1: "hm_get ?m t = Some v1" "v \<le> v1" using 2(2) by (cases "t = turn") auto
  from 2(1) [OF refl v1(1)] v1(2) show ?case by (auto simp: Let_def)
qed auto

lemma next_sequence_has:
  "(t, n) \<in> set seqs \<Longrightarrow> n < I64_MAX \<Longrightarrow> \<exists>v. hm_get (next_sequence_by_turn m seqs) t = Some v \<and> n < v"
proof (induction m seqs rule: next_sequence_by_turn.induct)
  case (2 m turn sequence_no rest)
  let ?n = "i64_saturating_succ (max sequence_no (- 1))"
  let ?m = "hm_insert turn (case hm_get m turn of None \<Rightarrow> ?n | Some c \<Rightarrow> max c ?n) m"
  show ?case
  proof (cases "(t, n) \<in> set rest")
    case True
    from 2(1) [OF refl True 2(3)] show ?thesis by (simp add: Let_def)
  next
    case False
    with 2(2,3) have t: "t = turn" and n: "n < ?n" by (auto simp: i64_saturating_succ_def)
    obtain v1 where "hm_get ?m t = Some v1" "?n \<le> v1" using t by (cases "hm_get m turn") auto
    with next_sequence_grows [of ?m t v1 rest] n show ?thesis by (auto simp: Let_def)
  qed
qed simp

text \<open>An allocator that covers the numbers of copies.\<close>

definition reserved :: "protocol_db \<Rightarrow> session_id \<Rightarrow> turn_id \<Rightarrow> int \<Rightarrow> bool" where
  "reserved db s t n \<longleftrightarrow> (\<exists>next_no. hm_get (db_allocators db) (s, t) = Some next_no \<and> n < next_no \<and> next_no \<le> I64_MAX)"

lemma seeded_bound:
  "\<forall>k v. hm_get m k = Some v \<longrightarrow> v \<le> I64_MAX \<Longrightarrow> \<forall>x \<in> set xs. snd x \<le> I64_MAX \<Longrightarrow>
   hm_get (seeded target m xs) k = Some v \<Longrightarrow> v \<le> I64_MAX"
proof (induction target m xs rule: seeded.induct)
  case (2 target m turn next_no rest)
  let ?v = "case hm_get m (target, turn) of None \<Rightarrow> next_no | Some n \<Rightarrow> max n next_no"
  have "?v \<le> I64_MAX" using 2(2,3) by (simp split: option.split)
  then have "\<forall>k v. hm_get (hm_insert (target, turn) ?v m) k = Some v \<longrightarrow> v \<le> I64_MAX" using 2(2) by simp
  from 2(1) [OF this] 2(3,4) show ?case by simp
next
  case (1 target m)
  then show ?case by (cases k) simp
qed

lemma seed_inv:
  assumes seed: "seed_turn_sequence_allocators refused db target seqs = Ok db'"
    and inv: "db_inv db0" and same: "db_allocators db = db_allocators db0"
  obtains m where "db' = with_allocators db m" and "db_inv (with_allocators db0 m)"
    and "\<And>t n. (t, n) \<in> set seqs \<Longrightarrow> n < I64_MAX \<Longrightarrow> reserved (with_allocators db0 m) target t n"
    and "\<And>k. fst k \<noteq> target \<Longrightarrow> hm_get m k = hm_get (db_allocators db0) k"
proof -
  let ?xs = "next_sequence_by_turn [] seqs"
  let ?m = "seeded target (db_allocators db0) ?xs"
  have db': "db' = with_allocators db ?m" 
    using seed_allocators_Ok [OF seed [unfolded seed_turn_sequence_allocators_def]] same by simp
  have dist: "distinct (hm_keys ?xs)" by (rule next_sequence_keys) simp
  have xs: "\<forall>x \<in> set ?xs. snd x \<le> I64_MAX"
    using next_sequence_bound [of "[]" seqs] map_of_is_SomeI [OF dist] by fastforce
  have ok: "\<forall>k v. hm_get (db_allocators db0) k = Some v \<longrightarrow> v \<le> I64_MAX"
    using inv by (simp add: db_inv_def sequences_ok_def)
  have grows: "below_allocator (with_allocators db0 ?m) s t n" if "below_allocator db0 s t n" for s t n
    using that seeded_grows [OF _ _ xs] ok by (force simp: below_allocator_def)
  have "db_inv (with_allocators db0 ?m)"
    using inv grows seeded_bound [OF ok xs]
    by (simp add: db_inv_def order_ok_def owned_def all_sources_def sequences_ok_def
        turn_sequence_numbers_def payloads_ok_def seeded_keys cong: source_kind.case_cong)
  moreover have "reserved (with_allocators db0 ?m) target t n" if "(t, n) \<in> set seqs" "n < I64_MAX" for t n
  proof -
    from next_sequence_has [OF that] obtain v where v: "hm_get ?xs t = Some v" "n < v" by blast
    then have "(t, v) \<in> set ?xs" by (simp add: map_of_SomeD)
    from seeded_has [OF this xs] ok v(2) show ?thesis by (force simp: reserved_def)
  qed
  ultimately show ?thesis using db' seeded_other by (intro that [of ?m]) blast+
qed

section \<open>Copies\<close>

text \<open>\<open>hs\<close> and \<open>ts\<close> are appended to the part of the target, and no other session changes.\<close>

definition copied :: "session_id \<Rightarrow> history_item list \<Rightarrow> turn_item list \<Rightarrow> protocol_db \<Rightarrow> protocol_db \<Rightarrow> bool" where
  "copied target hs ts db db' \<longleftrightarrow>
     db_events db' = db_events db \<and> db_fences db' = db_fences db \<and> db_edges db' = db_edges db \<and>
     db_history db' = db_history db @ hs \<and> db_turns db' = db_turns db @ ts \<and>
     (\<forall>h \<in> set hs. hi_session_id h = target) \<and> (\<forall>t \<in> set ts. ti_session_id t = target) \<and>
     (\<exists>rows. db_append db' = db_append db @ rows \<and> (\<forall>a \<in> set rows. ap_session_id a = target)) \<and>
     (\<forall>k. fst k \<noteq> target \<longrightarrow> hm_get (db_allocators db') k = hm_get (db_allocators db) k)"

lemma copied_refl: "copied target [] [] db db"
  by (simp add: copied_def)

lemma copied_trans:
  "copied target hs ts a b \<Longrightarrow> copied target hs' ts' b c \<Longrightarrow> copied target (hs @ hs') (ts @ ts') a c"
  by (auto simp: copied_def)

lemma provenance_Ok:
  assumes "insert_forked_turn_steer_provenance refused db h = Ok db'"
  obtains steers where "db' = db\<lparr>db_steer_inputs := steers\<rparr>"
  using assms that [of "db_steer_inputs db'"]
  by (auto simp: insert_forked_turn_steer_provenance_def split: if_splits)

lemma steers_inv [simp]:
  "db_inv (db\<lparr>db_steer_inputs := steers\<rparr>) = db_inv db"
  "reserved (db\<lparr>db_steer_inputs := steers\<rparr>) s t n = reserved db s t n"
  "copied target hs ts db0 (db\<lparr>db_steer_inputs := steers\<rparr>) = copied target hs ts db0 db"
  by (simp_all add: db_inv_def order_ok_def owned_def all_sources_def sequences_ok_def turn_sequence_numbers_def
        below_allocator_def payloads_ok_def reserved_def copied_def cong: source_kind.case_cong)

definition history_reserved :: "protocol_db \<Rightarrow> history_item \<Rightarrow> bool" where
  "history_reserved db h \<longleftrightarrow> (\<forall>t. hi_scope h = Turn t \<longrightarrow> reserved db (hi_session_id h) t (hi_sequence_no h))"

lemma insert_history_copied:
  assumes "insert_history_item refused db h = Ok db'" and "db_inv db" and "history_reserved db h"
  shows "db_inv db'" and "copied (hi_session_id h) [h] [] db db'" and "db_allocators db' = db_allocators db"
proof -
  have "0 \<le> hi_sequence_no h" using assms(1) by (auto simp: insert_history_item_def split: if_splits sum.splits)
  with assms(3) have "scoped_below db h" by (auto simp: scoped_below_def history_reserved_def reserved_def below_allocator_def)
  from insert_history_inv [OF assms(1,2) this] obtain row where
    "db' = ordered (db\<lparr>db_history := db_history db @ [h]\<rparr>) row" "row_source row = (hi_session_id h, hi_id h)" "db_inv db'"
    by metis
  then show "db_inv db'" "copied (hi_session_id h) [h] [] db db'" "db_allocators db' = db_allocators db"
    by (simp_all add: copied_def)
qed

lemma forked_items_copied:
  assumes "insert_forked_items refused db items = Ok db'" and "db_inv db"
    and "\<forall>h \<in> set items. hi_session_id h = target \<and> history_reserved db h"
  shows "db_inv db' \<and> copied target items [] db db' \<and> db_allocators db' = db_allocators db"
  using assms
proof (induction items arbitrary: db)
  case (Cons h items)
  from Cons.prems(1) obtain db1 db2 where ins: "insert_history_item refused db h = Ok db1"
    "insert_forked_turn_steer_provenance refused db1 h = Ok db2" "insert_forked_items refused db2 items = Ok db'"
    by (auto simp: and_then_Ok_iff)
  obtain steers where db2: "db2 = db1\<lparr>db_steer_inputs := steers\<rparr>" using ins(2) by (rule provenance_Ok)
  have h: "hi_session_id h = target" "history_reserved db h" using Cons.prems(3) by simp_all
  note one = insert_history_copied [OF ins(1) Cons.prems(2) h(2)]
  have "db_allocators db2 = db_allocators db" using one(3) db2 by simp
  then have "\<forall>h \<in> set items. hi_session_id h = target \<and> history_reserved db2 h"
    using Cons.prems(3) by (auto simp: history_reserved_def reserved_def)
  from Cons.IH [OF ins(3) _ this] one(1) db2
  have IH: "db_inv db'" "copied target items [] db2 db'" "db_allocators db' = db_allocators db2" by auto
  have "copied target [h] [] db db2" using one(2) h(1) db2 by simp
  from copied_trans [OF this IH(2)] IH(1,3) one(3) db2 show ?case by simp
qed (simp add: copied_refl)

lemma insert_turn_copied:
  assumes "insert_turn_item refused db t = Ok db'" and "db_inv db" and "0 \<le> ti_sequence_no t"
    and "reserved db (ti_session_id t) (ti_turn_id t) (ti_sequence_no t)"
  shows "db_inv db'" and "copied (ti_session_id t) [] [t] db db'" and "db_allocators db' = db_allocators db"
proof -
  have "below_allocator db (ti_session_id t) (ti_turn_id t) (ti_sequence_no t)"
    using assms(3,4) by (auto simp: reserved_def below_allocator_def)
  from insert_turn_inv [OF assms(1,2) this] obtain row where
    "db' = ordered (db\<lparr>db_turns := db_turns db @ [t]\<rparr>) row" "row_source row = (ti_session_id t, ti_id t)" "db_inv db'"
    by metis
  then show "db_inv db'" "copied (ti_session_id t) [] [t] db db'" "db_allocators db' = db_allocators db"
    by (simp_all add: copied_def)
qed

lemma turn_items_copied:
  assumes "insert_turn_items refused db items = Ok db'" and "db_inv db"
    and "\<forall>t \<in> set items. ti_session_id t = target \<and> 0 \<le> ti_sequence_no t \<and>
          reserved db target (ti_turn_id t) (ti_sequence_no t)"
  shows "db_inv db' \<and> copied target [] items db db'"
  using assms
proof (induction items arbitrary: db)
  case (Cons t items)
  from Cons.prems(1) obtain db1 where ins: "insert_turn_item refused db t = Ok db1"
    "insert_turn_items refused db1 items = Ok db'" by (auto simp: and_then_Ok_iff)
  have t: "ti_session_id t = target" "0 \<le> ti_sequence_no t"
    "reserved db (ti_session_id t) (ti_turn_id t) (ti_sequence_no t)" using Cons.prems(3) by simp_all
  note one = insert_turn_copied [OF ins(1) Cons.prems(2) t(2,3)]
  have "\<forall>t \<in> set items. ti_session_id t = target \<and> 0 \<le> ti_sequence_no t \<and>
      reserved db1 target (ti_turn_id t) (ti_sequence_no t)"
    using Cons.prems(3) one(3) by (simp add: reserved_def)
  from Cons.IH [OF ins(2) one(1) this] have IH: "db_inv db'" "copied target [] items db1 db'" by auto
  have "copied target [] [t] db db1" using one(2) t(1) by simp
  from copied_trans [OF this IH(2)] IH(1) show ?case by simp
qed (simp add: copied_refl)

lemma history_seqs_mem:
  "h \<in> set items \<Longrightarrow> hi_scope h = Turn t \<Longrightarrow> (t, hi_sequence_no h) \<in> set (history_turn_sequences items)"
  by (force simp: history_turn_sequences_def List.map_filter_def)

text \<open>Seeding is the only write to the allocators, so it may be taken first.\<close>

lemma copied_seeded:
  assumes "copied target hs ts (with_allocators db m) db'"
    and "\<And>k. fst k \<noteq> target \<Longrightarrow> hm_get m k = hm_get (db_allocators db) k"
  shows "copied target hs ts db db'"
  using assms by (simp add: copied_def)

lemma forked_page_copied:
  assumes wr: "write_forked_page refused db target page = Ok db'" and inv: "db_inv db"
    and seqs: "\<forall>h \<in> set page. hi_session_id h = target \<and> (hi_scope h \<noteq> Session \<longrightarrow> hi_sequence_no h < I64_MAX)"
  shows "db_inv db'" and "copied target page [] db db'"
proof -
  from wr obtain db1 where ins: "insert_forked_items refused db page = Ok db1"
    and seed: "seed_turn_sequence_allocators refused db1 target (history_turn_sequences page) = Ok db'"
    by (auto simp: write_forked_page_def seed_history_turn_sequence_allocators_def and_then_Ok_iff)
  have same: "db_allocators db1 = db_allocators db" using forked_items_keep_allocators [OF ins] .
  from seed_inv [OF seed inv same] obtain m where m: "db' = with_allocators db1 m" "db_inv (with_allocators db m)"
    "\<And>t n. (t, n) \<in> set (history_turn_sequences page) \<Longrightarrow> n < I64_MAX \<Longrightarrow> reserved (with_allocators db m) target t n"
    "\<And>k. fst k \<noteq> target \<Longrightarrow> hm_get m k = hm_get (db_allocators db) k" by blast
  have "insert_forked_items refused (with_allocators db m) page = Ok db'"
    using forked_items_allocators [OF ins] m(1) by simp
  moreover have "\<forall>h \<in> set page. hi_session_id h = target \<and> history_reserved (with_allocators db m) h"
    using seqs m(3) history_seqs_mem by (auto simp: history_reserved_def)
  ultimately have res: "db_inv db'" "copied target page [] (with_allocators db m) db'"
    using forked_items_copied [OF _ m(2)] by blast+
  show "db_inv db'" by (rule res(1))
  show "copied target page [] db db'" by (rule copied_seeded [OF res(2) m(4)])
qed

lemma turn_page_copied:
  assumes wr: "write_turn_page refused db target page = Ok db'" and inv: "db_inv db"
    and seqs: "\<forall>t \<in> set page. ti_session_id t = target \<and> 0 \<le> ti_sequence_no t \<and> ti_sequence_no t < I64_MAX"
  shows "db_inv db'" and "copied target [] page db db'"
proof -
  let ?seqs = "map (\<lambda>t. (ti_turn_id t, ti_sequence_no t)) page"
  from wr obtain db1 where ins: "insert_turn_items refused db page = Ok db1"
    and seed: "seed_turn_sequence_allocators refused db1 target ?seqs = Ok db'"
    by (auto simp: write_turn_page_def and_then_Ok_iff)
  have same: "db_allocators db1 = db_allocators db" using turn_items_keep_allocators [OF ins] .
  from seed_inv [OF seed inv same] obtain m where m: "db' = with_allocators db1 m" "db_inv (with_allocators db m)"
    "\<And>t n. (t, n) \<in> set ?seqs \<Longrightarrow> n < I64_MAX \<Longrightarrow> reserved (with_allocators db m) target t n"
    "\<And>k. fst k \<noteq> target \<Longrightarrow> hm_get m k = hm_get (db_allocators db) k" by blast
  have "insert_turn_items refused (with_allocators db m) page = Ok db'"
    using turn_items_allocators [OF ins] m(1) by simp
  moreover have "\<forall>t \<in> set page. ti_session_id t = target \<and> 0 \<le> ti_sequence_no t \<and>
      reserved (with_allocators db m) target (ti_turn_id t) (ti_sequence_no t)"
    using seqs m(3) by auto
  ultimately have res: "db_inv db'" "copied target [] page (with_allocators db m) db'"
    using turn_items_copied [OF _ m(2)] by blast+
  show "db_inv db'" by (rule res(1))
  show "copied target [] page db db'" by (rule copied_seeded [OF res(2) m(4)])
qed

end
