(* ===== verification/Fork_Effects.thy ===== *)
theory Fork_Effects
  imports Fork_Keep
begin

text \<open>
  The effect of each kind of copy: the log of the target as a function of that of the source, and that
  all other sessions read as before.
\<close>

section \<open>Reading beside a copy\<close>

abbreviation history_of :: "protocol_db \<Rightarrow> session_id \<Rightarrow> history_item list" where
  "history_of db s \<equiv> filter (\<lambda>h. hi_session_id h = s) (db_history db)"

abbreviation turns_of :: "protocol_db \<Rightarrow> session_id \<Rightarrow> turn_item list" where
  "turns_of db s \<equiv> filter (\<lambda>t. ti_session_id t = s) (db_turns db)"

lemma turn_rows_eq:
  assumes "db_inv db"
  shows "map snd (turn_rows db s) = turns_of db s"
    and "map fst (turn_rows db s) = map ap_position (order_rows db TurnSource s)"
proof -
  let ?ts = "turns_of db s"
  have "map ap_source_id (order_rows db TurnSource s) = map ti_id ?ts"
    using rows_own_sources(1) [OF assms, of TurnSource s] by (simp add: source_ids_def)
  moreover have "distinct (map ti_id (db_turns db))"
    using assms by (auto simp: db_inv_def owned_def all_sources_def o_def dest!: spec [of _ TurnSource])
  then have "turn_item_by_id db s (ti_id t) = Some t" if "t \<in> set ?ts" for t
    using that find_by_key [of ti_id "db_turns db" t "\<lambda>t. ti_session_id t = s"] by (simp add: turn_item_by_id_def)
  ultimately show "map snd (turn_rows db s) = ?ts"
    "map fst (turn_rows db s) = map ap_position (order_rows db TurnSource s)"
    using joined_rows_map [of "order_rows db TurnSource s" ti_id ?ts "turn_item_by_id db s"]
    by (simp_all add: turn_rows_def)
qed

lemma event_rows_positions:
  assumes "db_inv db"
  shows "map fst (event_rows db s) = map ap_position (order_rows db EventSource s)"
proof -
  let ?es = "filter (\<lambda>e. re_session_id e = s) (db_events db)"
  have "map ap_source_id (order_rows db EventSource s) = map re_id ?es"
    using rows_own_sources(1) [OF assms, of EventSource s] by (simp add: source_ids_def)
  moreover have "distinct (map re_id (db_events db))"
    using assms by (auto simp: db_inv_def owned_def all_sources_def o_def dest!: spec [of _ EventSource])
  then have "event_by_id db s (re_id e) = Some e" if "e \<in> set ?es" for e
    using that find_by_key [of re_id "db_events db" e "\<lambda>e. re_session_id e = s"] by (simp add: event_by_id_def)
  ultimately show ?thesis
    using joined_rows_map(2) [of "order_rows db EventSource s" re_id ?es "event_by_id db s"]
    by (simp add: event_rows_def)
qed

lemma zip_rows: "map fst rows = map fst rows' \<Longrightarrow> map snd rows = map snd rows' \<Longrightarrow> rows = rows'"
  by (metis zip_map_fst_snd)

lemma copied_order_rows:
  assumes "copied target hs ts db db'" and "s \<noteq> target"
  shows "order_rows db' kind s = order_rows db kind s"
proof -
  from assms(1) obtain rows where "db_append db' = db_append db @ rows" "\<forall>a \<in> set rows. ap_session_id a = target"
    by (auto simp: copied_def)
  with assms(2) have "filter (\<lambda>a. ap_session_id a = s \<and> ap_source_kind a = kind) (db_append db') =
      filter (\<lambda>a. ap_session_id a = s \<and> ap_source_kind a = kind) (db_append db)" by simp
  then show ?thesis by (simp add: order_rows_def)
qed

lemma copied_others:
  assumes "copied target hs ts db db'" and "s \<noteq> target"
  shows "history_of db' s = history_of db s" and "turns_of db' s = turns_of db s"
    and "source_ids db' kind s = source_ids db kind s" and "max_append_position db' s = max_append_position db s"
proof -
  show h: "history_of db' s = history_of db s" and t: "turns_of db' s = turns_of db s"
    using assms by (simp_all add: copied_def)
  show "source_ids db' kind s = source_ids db kind s"
    using assms(1) h t by (simp add: source_ids_def copied_def split: source_kind.split)
  from assms obtain rows where "db_append db' = db_append db @ rows" "\<forall>a \<in> set rows. ap_session_id a = target"
    by (auto simp: copied_def)
  with assms(2) have "filter (\<lambda>a. ap_session_id a = s) (db_append db') = filter (\<lambda>a. ap_session_id a = s) (db_append db)"
    by simp
  then show "max_append_position db' s = max_append_position db s" by (simp add: max_append_position_def)
qed

lemma copied_rows:
  assumes "copied target hs ts db db'" and "s \<noteq> target" and "db_inv db" and "db_inv db'"
  shows "history_rows db' s = history_rows db s" and "turn_rows db' s = turn_rows db s"
    and "event_rows db' s = event_rows db s"
proof -
  note same = copied_order_rows [OF assms(1,2)] copied_others(1,2) [OF assms(1,2)]
  show "history_rows db' s = history_rows db s"
    by (rule zip_rows) (simp_all only: history_rows_eq(1,3) assms(3,4) same)
  show "turn_rows db' s = turn_rows db s"
    by (rule zip_rows) (simp_all only: turn_rows_eq assms(3,4) same)
  have "db_events db' = db_events db" using assms(1) by (simp add: copied_def)
  then show "event_rows db' s = event_rows db s"
    by (intro zip_rows) (simp_all only: event_rows_eq(1) event_rows_positions assms(3,4) same)
qed

section \<open>Pages of the source\<close>

lemma read_all_Ok_map: "(\<And>row. row \<in> set rows \<Longrightarrow> read (snd row) = Ok (f (snd row))) \<Longrightarrow> read_all read rows = Ok (map (f \<circ> snd) rows)"
  by (induction rows) auto

lemma offset_page:
  assumes "\<And>row. row \<in> set rows \<Longrightarrow> read (snd row) = Ok (f (snd row))"
  shows "and_then (page_of_rows read db s kind rows (OffsetPage offset MAX_PROTOCOL_PAGE_LIMIT) total0)
      (\<lambda>page. Ok (pg_items page)) = Ok (take MAX_PROTOCOL_PAGE_LIMIT (drop offset (map (f \<circ> snd) rows)))"
proof -
  have "read_all read (take MAX_PROTOCOL_PAGE_LIMIT (drop offset rows)) =
      Ok (map (f \<circ> snd) (take MAX_PROTOCOL_PAGE_LIMIT (drop offset rows)))"
    using assms by (intro read_all_Ok_map) (meson in_set_dropD in_set_takeD)
  then show ?thesis
    by (simp add: page_of_rows_def resolve_page_def MAX_PROTOCOL_PAGE_LIMIT_def after_cursor_def
          case_prod_unfold take_map drop_map Let_def)
qed

lemma decode_history_Ok: "payloads_ok db \<Longrightarrow> h \<in> set (db_history db) \<Longrightarrow> decode_history h = Ok h"
  by (auto simp: payloads_ok_def decode_history_def split: sum.splits)

lemma history_page_Ok:
  assumes "db_inv db"
  shows "history_page_at s total0 db offset = Ok (take MAX_PROTOCOL_PAGE_LIMIT (drop offset (history_of db s)))"
proof -
  have "decode_history (snd row) = Ok (id (snd row))" if "row \<in> set (history_rows db s)" for row
  proof -
    from that have "snd row \<in> set (map snd (history_rows db s))" by simp
    then have "snd row \<in> set (db_history db)" unfolding history_rows_eq(1) [OF assms] by simp
    with assms show ?thesis using decode_history_Ok [of db "snd row"] by (simp add: db_inv_def)
  qed
  from offset_page [where f = id, OF this] show ?thesis
    by (simp add: history_page_at_def history_item_page_from_connection_def history_rows_eq(1) [OF assms])
qed

text \<open>A turn item as it is read.\<close>

definition shown_turn_item :: "protocol_db \<Rightarrow> turn_item \<Rightarrow> turn_item" where
  "shown_turn_item db t = (case decode_turn_item db t of Inl _ \<Rightarrow> t | Inr t' \<Rightarrow> t')"

lemma turn_item_source_mem: "turn_item_source db t = Some h \<Longrightarrow> h \<in> set (db_history db)"
  by (auto simp: turn_item_source_def find_Some_iff)

lemma decode_turn_Ok: "payloads_ok db \<Longrightarrow> decode_turn_item db t = Ok (shown_turn_item db t)"
  using decode_history_Ok [of db] turn_item_source_mem [of db t]
  by (auto simp: shown_turn_item_def decode_turn_item_def split: turn_item_payload.split option.split
        history_item_payload.split)

lemma shown_turn_item_fields [simp]:
  "ti_id (shown_turn_item db t) = ti_id t" "ti_session_id (shown_turn_item db t) = ti_session_id t"
  "ti_turn_id (shown_turn_item db t) = ti_turn_id t" "ti_sequence_no (shown_turn_item db t) = ti_sequence_no t"
  "ti_source_item_id (shown_turn_item db t) = ti_source_item_id t"
  by (auto simp: shown_turn_item_def decode_turn_item_def and_then_def decode_history_def
        split: turn_item_payload.split option.split history_item_payload.split sum.split)

lemma find_append: "\<forall>y \<in> set ys. \<not> P y \<Longrightarrow> List.find P (xs @ ys) = List.find P xs"
  by (induction xs) (auto simp: find_None_iff)

lemma shown_copied:
  assumes "copied target hs ts db db'" and "ti_session_id t \<noteq> target"
  shows "shown_turn_item db' t = shown_turn_item db t"
proof -
  have same: "turn_item_source db' t = turn_item_source db t"
    using assms by (auto simp: turn_item_source_def copied_def intro!: find_append)
  show ?thesis unfolding shown_turn_item_def decode_turn_item_def same ..
qed

lemma turn_page_Ok:
  assumes "db_inv db"
  shows "turn_page_at s total0 db offset =
    Ok (take MAX_PROTOCOL_PAGE_LIMIT (drop offset (map (shown_turn_item db) (turns_of db s))))"
proof -
  have ok: "payloads_ok db" using assms by (simp add: db_inv_def)
  have "map (shown_turn_item db \<circ> snd) (turn_rows db s) = map (shown_turn_item db) (map snd (turn_rows db s))" by simp
  then have map: "map (shown_turn_item db \<circ> snd) (turn_rows db s) = map (shown_turn_item db) (turns_of db s)"
    by (simp only: turn_rows_eq(1) [OF assms])
  show ?thesis
    using offset_page [of "turn_rows db s" "decode_turn_item db" "shown_turn_item db" db s TurnSource offset total0]
      decode_turn_Ok [OF ok]
    by (simp add: turn_page_at_def turn_item_page_from_connection_def map)
qed

section \<open>The loop over pages\<close>

declare fork_pages.simps [simp del]

lemma fork_pages_Ok:
  assumes "fork_pages page_at step source total0 offset st = Ok st'" and "offset \<le> total0" and "P offset st"
    and "\<And>offset st items st1. P offset st \<Longrightarrow> offset < total0 \<Longrightarrow> page_at st offset = Ok items \<Longrightarrow>
           step st items = Ok st1 \<Longrightarrow> P (offset + length items) st1"
  shows "P total0 st'"
  using assms(1-3)
proof (induction "total0 - offset" arbitrary: offset st rule: less_induct)
  case less
  show ?case
  proof (cases "offset < total0")
    case True
    with less.prems(1) obtain items st1 offset' where page: "page_at st offset = Ok items" "step st items = Ok st1"
      "advance_canonical_fork_page_offset source offset (length items) total0 = Ok offset'"
      "fork_pages page_at step source total0 offset' st1 = Ok st'"
      by (subst (asm) fork_pages.simps) (auto split: sum.splits)
    have "items \<noteq> []" "offset' = offset + length items" "offset' \<le> total0"
      using page(3) by (auto simp: advance_canonical_fork_page_offset_def split: if_splits)
    moreover from this have "total0 - offset' < total0 - offset" using True by (cases items) auto
    moreover have "P (offset + length items) st1" by (rule assms(4) [OF less.prems(3) True page(1,2)])
    ultimately show ?thesis using less.hyps [of offset' st1] page(4) by simp
  next
    case False
    with less.prems show ?thesis by (simp add: fork_pages.simps)
  qed
qed

section \<open>The fork of a log\<close>

text \<open>The copy of an item, with the identities renamed, also where a compaction mentions them.\<close>

definition forked_payload :: "(history_item_id \<Rightarrow> history_item_id) \<Rightarrow> history_item_payload \<Rightarrow> history_item_payload" where
  "forked_payload new_id payload =
     (case payload of
        Compaction mode layout preserved checkpoint summary0 replaced \<Rightarrow>
          Compaction mode layout preserved checkpoint summary0 (map new_id replaced)
      | other \<Rightarrow> other)"

definition forked_item :: "(history_item_id \<Rightarrow> history_item_id) \<Rightarrow> session_id \<Rightarrow> history_item \<Rightarrow> history_item" where
  "forked_item new_id target h =
     h\<lparr>hi_id := new_id (hi_id h), hi_session_id := target, hi_payload := forked_payload new_id (hi_payload h)\<rparr>"

definition forked_turn_item ::
  "(history_item_id \<Rightarrow> history_item_id) \<Rightarrow> (ulid \<Rightarrow> ulid) \<Rightarrow> session_id \<Rightarrow> turn_item \<Rightarrow> turn_item" where
  "forked_turn_item new_id new_turn_item_id target t =
     t\<lparr>ti_id := new_turn_item_id (ti_id t), ti_session_id := target,
       ti_source_item_id := map_option new_id (ti_source_item_id t)\<rparr>"

abbreviation renames :: "(history_item_id \<Rightarrow> history_item_id) \<Rightarrow> fork_id_map \<Rightarrow> bool" where
  "renames new_id ids \<equiv> \<forall>p \<in> set ids. snd p = new_id (fst p)"

definition replaced_by :: "history_item_payload \<Rightarrow> history_item_id list" where
  "replaced_by payload = (case compaction_replaces payload of None \<Rightarrow> [] | Some ids \<Rightarrow> ids)"

lemma target_id_Ok:
  "canonical_fork_target_history_id ids i = Ok j \<Longrightarrow> renames new_id ids \<Longrightarrow> j = new_id i \<and> i \<in> fst ` set ids"
  by (force simp: canonical_fork_target_history_id_def split: option.splits dest: map_of_SomeD)

lemma collect_results_Ok:
  "collect_results f xs = Ok ys \<Longrightarrow> (\<And>x y. x \<in> set xs \<Longrightarrow> f x = Ok y \<Longrightarrow> y = g x \<and> Q x) \<Longrightarrow>
   ys = map g xs \<and> (\<forall>x \<in> set xs. Q x)"
  by (induction xs arbitrary: ys) (auto simp: and_then_Ok_iff)

lemma fork_payload_Ok:
  assumes "fork_history_payload_for_session ids payload = Ok payload'" and "renames new_id ids"
  shows "payload' = forked_payload new_id payload"
    and "set (replaced_by payload) \<subseteq> fst ` set ids"
proof -
  have "payload' = forked_payload new_id payload \<and> set (replaced_by payload) \<subseteq> fst ` set ids"
  proof (cases "compaction_replaces payload")
    case (Some ids0)
    then obtain mode layout preserved checkpoint summary0 replaced where
      Compaction: "payload = Compaction mode layout preserved checkpoint summary0 replaced" by (cases payload) simp_all
    with assms(1) obtain rs where rs: "collect_results (canonical_fork_target_history_id ids) replaced = Ok rs"
      "payload' = Compaction mode layout preserved checkpoint summary0 rs"
      by (auto simp: fork_history_payload_for_session_def and_then_Ok_iff)
    have "rs = map new_id replaced \<and> (\<forall>i \<in> set replaced. i \<in> fst ` set ids)"
      by (rule collect_results_Ok [OF rs(1)]) (rule target_id_Ok [OF _ assms(2)])
    with rs(2) Compaction show ?thesis by (auto simp: forked_payload_def replaced_by_def)
  next
    case None
    then have "fork_history_payload_for_session ids payload = Ok payload" "forked_payload new_id payload = payload"
      by (cases payload; simp add: fork_history_payload_for_session_def forked_payload_def)+
    with assms(1) None show ?thesis by (simp add: replaced_by_def)
  qed
  then show "payload' = forked_payload new_id payload"
    "set (replaced_by payload) \<subseteq> fst ` set ids" by simp_all
qed

lemma fork_history_item_Ok:
  assumes "fork_history_item ids target h = Ok h'" and "renames new_id ids"
  shows "h' = forked_item new_id target h \<and> hi_id h \<in> fst ` set ids \<and>
    set (replaced_by (hi_payload h)) \<subseteq> fst ` set ids"
  using assms(1) target_id_Ok [OF _ assms(2)] fork_payload_Ok [OF _ assms(2)]
  by (fastforce simp: fork_history_item_def forked_item_def and_then_Ok_iff)

lemma fork_turn_item_Ok:
  assumes "fork_turn_item ids new_turn_item_id target t = Ok t'" and "renames new_id ids"
  shows "t' = forked_turn_item new_id new_turn_item_id target t"
  using assms(1) target_id_Ok [OF _ assms(2)]
  by (auto simp: fork_turn_item_def forked_turn_item_def and_then_Ok_iff split: option.splits)

lemma insert_mappings_Ok:
  assumes "insert_mappings new_id ids items = Ok ids'"
  shows "ids' = ids @ map (\<lambda>i. (i, new_id i)) items"
    and "distinct (map snd ids) \<Longrightarrow> distinct (map snd ids')"
  using assms
proof (induction items arbitrary: ids)
  case (Cons i items)
  {
    case 1
    then show ?case using Cons(1) [of "ids @ [(i, new_id i)]"]
      by (auto simp: insert_canonical_fork_history_id_mapping_def and_then_Ok_iff split: if_splits)
  next
    case 2
    then have ins: "insert_mappings new_id (ids @ [(i, new_id i)]) items = Ok ids'"
      and "\<not> list_ex (\<lambda>(a, j). a = i \<or> j = new_id i) ids"
      by (auto simp: insert_canonical_fork_history_id_mapping_def and_then_Ok_iff split: if_splits)
    then have "new_id i \<notin> set (map snd ids)" by (auto simp: list_ex_iff)
    with Cons(2) [OF _ ins] 2 show ?case by simp
  }
qed simp_all

lemma take_page: "take (offset + length (take k (drop offset xs))) xs = take offset xs @ take k (drop offset xs)"
  by (simp add: take_add min_def)

lemma page_subset: "set (take k (drop offset xs)) \<subseteq> set xs"
  by (meson dual_order.trans set_drop_subset set_take_subset)

lemma history_sequences_fit:
  assumes "db_inv db" and "h \<in> set (db_history db)" and "hi_scope h \<noteq> Session"
  shows "hi_sequence_no h < I64_MAX"
proof -
  obtain t where t: "hi_scope h = Turn t" using assms(3) by (cases "hi_scope h") simp_all
  with assms(2) have "hi_sequence_no h \<in> set (turn_sequence_numbers db (hi_session_id h) t)"
    by (simp add: turn_sequence_numbers_def)
  with assms(1) have "below_allocator db (hi_session_id h) t (hi_sequence_no h)"
    by (simp add: db_inv_def sequences_ok_def)
  with assms(1) show ?thesis by (fastforce simp: below_allocator_def db_inv_def sequences_ok_def)
qed

lemma turn_sequences_fit:
  assumes "db_inv db" and "t \<in> set (db_turns db)"
  shows "0 \<le> ti_sequence_no t" and "ti_sequence_no t < I64_MAX"
proof -
  have "ti_sequence_no t \<in> set (turn_sequence_numbers db (ti_session_id t) (ti_turn_id t))"
    using assms(2) by (simp add: turn_sequence_numbers_def)
  with assms(1) have "below_allocator db (ti_session_id t) (ti_turn_id t) (ti_sequence_no t)"
    by (simp add: db_inv_def sequences_ok_def)
  with assms(1) show "0 \<le> ti_sequence_no t" "ti_sequence_no t < I64_MAX"
    by (fastforce simp: below_allocator_def db_inv_def sequences_ok_def)+
qed

text \<open>The three loops.\<close>

lemma fork_mapping_loop:
  assumes "fork_pages (\<lambda>_. history_page_at source total0 db)
      (\<lambda>ids items. insert_mappings new_id ids (map hi_id items)) source total0 0 [] = Ok ids"
    and "db_inv db" and "total0 = length (history_of db source)"
  shows "ids = map (\<lambda>h. (hi_id h, new_id (hi_id h))) (history_of db source) \<and> distinct (map snd ids)"
proof -
  let ?hist = "history_of db source" and ?pair = "\<lambda>h. (hi_id h, new_id (hi_id h))"
  let ?P = "\<lambda>offset ids. ids = map ?pair (take offset ?hist) \<and> distinct (map snd ids)"
  have "?P total0 ids"
  proof (rule fork_pages_Ok [OF assms(1)])
    fix offset ids items ids1
    assume P: "?P offset ids" and page: "history_page_at source total0 db offset = Ok items"
      and ins: "insert_mappings new_id ids (map hi_id items) = Ok ids1"
    have items: "items = take MAX_PROTOCOL_PAGE_LIMIT (drop offset ?hist)" using page history_page_Ok [OF assms(2)] by simp
    have "ids1 = map ?pair (take offset ?hist @ items)" using insert_mappings_Ok(1) [OF ins] P by simp
    then have "ids1 = map ?pair (take (offset + length items) ?hist)" unfolding items take_page .
    with insert_mappings_Ok(2) [OF ins] P show "?P (offset + length items) ids1" by blast
  qed simp_all
  then show ?thesis unfolding assms(3) take_all [OF order_refl] .
qed

lemma fork_history_loop:
  assumes loop: "fork_pages (\<lambda>(db, _). history_page_at source total0 db)
      (\<lambda>(db, copied) items. and_then (collect_results (fork_history_item ids target) items) (\<lambda>page.
         and_then (write_forked_page refused db target page) (\<lambda>db'. Ok (db', copied + length page))))
      source total0 0 (db, 0) = Ok (db', n)"
    and inv: "db_inv db" and total: "total0 = length (history_of db source)" and diff: "source \<noteq> target"
    and ren: "renames new_id ids"
  shows "db_inv db' \<and> copied target (map (forked_item new_id target) (history_of db source)) [] db db' \<and>
    n = length (history_of db source) \<and>
    (\<forall>h \<in> set (history_of db source). set (replaced_by (hi_payload h)) \<subseteq> fst ` set ids)"
proof -
  let ?hist = "history_of db source" and ?F = "forked_item new_id target"
  let ?P = "\<lambda>offset (dbk, k). db_inv dbk \<and> copied target (map ?F (take offset ?hist)) [] db dbk \<and>
      k = length (take offset ?hist) \<and> (\<forall>h \<in> set (take offset ?hist). set (replaced_by (hi_payload h)) \<subseteq> fst ` set ids)"
  let ?step = "\<lambda>(db, copied) items. and_then (collect_results (fork_history_item ids target) items) (\<lambda>page.
         and_then (write_forked_page refused db target page) (\<lambda>db'. Ok (db', copied + length page)))"
  have "?P total0 (db', n)"
  proof (rule fork_pages_Ok [OF loop])
    fix offset st items st1
    assume P: "?P offset st" and page: "(case st of (db, _) \<Rightarrow> history_page_at source total0 db) offset = Ok items"
      and stp: "?step st items = Ok st1"
    obtain dbk k where st: "st = (dbk, k)" by (cases st)
    with P have k: "db_inv dbk" "copied target (map ?F (take offset ?hist)) [] db dbk" "k = length (take offset ?hist)"
      "\<forall>h \<in> set (take offset ?hist). set (replaced_by (hi_payload h)) \<subseteq> fst ` set ids" by simp_all
    have items: "items = take MAX_PROTOCOL_PAGE_LIMIT (drop offset ?hist)"
      using page st history_page_Ok [OF k(1)] copied_others(1) [OF k(2) diff] by simp
    from stp st obtain copies dbk1 where cp: "collect_results (fork_history_item ids target) items = Ok copies"
      "write_forked_page refused dbk target copies = Ok dbk1" "st1 = (dbk1, k + length copies)"
      by (auto simp: and_then_Ok_iff)
    have copies: "copies = map ?F items \<and> (\<forall>h \<in> set items. set (replaced_by (hi_payload h)) \<subseteq> fst ` set ids)"
      by (rule collect_results_Ok [OF cp(1)]) (use fork_history_item_Ok [OF _ ren] in blast)
    have "set items \<subseteq> set ?hist" unfolding items by (rule page_subset)
    then have "\<forall>h \<in> set copies. hi_session_id h = target \<and> (hi_scope h \<noteq> Session \<longrightarrow> hi_sequence_no h < I64_MAX)"
      using history_sequences_fit [OF inv] copies by (auto simp: forked_item_def)
    note wr = forked_page_copied [OF cp(2) k(1) this]
    have "copied target (map ?F (take offset ?hist @ items)) [] db dbk1"
      using copied_trans [OF k(2) wr(2)] copies by simp
    moreover have "take offset ?hist @ items = take (offset + length items) ?hist" unfolding items take_page ..
    moreover from this have "length (take offset ?hist) + length items = length (take (offset + length items) ?hist)"
      by (metis length_append)
    moreover have "\<forall>h \<in> set (take offset ?hist @ items). set (replaced_by (hi_payload h)) \<subseteq> fst ` set ids"
      using k(4) copies unfolding set_append ball_Un by blast
    ultimately show "?P (offset + length items) st1" using wr(1) cp(3) copies k(3) by simp
  qed (simp_all add: inv copied_refl)
  with total show ?thesis by simp
qed

lemma fork_turn_loop:
  assumes loop: "fork_pages (\<lambda>(db, _). turn_page_at source total0 db)
      (\<lambda>(db, copied) items. and_then (collect_results (fork_turn_item ids new_turn_item_id target) items) (\<lambda>page.
         and_then (write_turn_page refused db target page) (\<lambda>db'. Ok (db', copied + length page))))
      source total0 0 (db, 0) = Ok (db', n)"
    and inv: "db_inv db" and total: "total0 = length (turns_of db source)" and diff: "source \<noteq> target"
    and ren: "renames new_id ids"
  shows "db_inv db' \<and> n = length (turns_of db source) \<and>
    copied target [] (map (forked_turn_item new_id new_turn_item_id target \<circ> shown_turn_item db) (turns_of db source)) db db'"
proof -
  let ?turns = "turns_of db source" and ?G = "forked_turn_item new_id new_turn_item_id target"
  let ?read = "map (shown_turn_item db) ?turns"
  let ?P = "\<lambda>offset (dbk, k). db_inv dbk \<and> copied target [] (map ?G (take offset ?read)) db dbk \<and>
      k = length (take offset ?read)"
  let ?step = "\<lambda>(db, copied) items. and_then (collect_results (fork_turn_item ids new_turn_item_id target) items) (\<lambda>page.
         and_then (write_turn_page refused db target page) (\<lambda>db'. Ok (db', copied + length page)))"
  have "?P total0 (db', n)"
  proof (rule fork_pages_Ok [OF loop])
    fix offset st items st1
    assume P: "?P offset st" and page: "(case st of (db, _) \<Rightarrow> turn_page_at source total0 db) offset = Ok items"
      and stp: "?step st items = Ok st1"
    obtain dbk k where st: "st = (dbk, k)" by (cases st)
    with P have k: "db_inv dbk" "copied target [] (map ?G (take offset ?read)) db dbk" "k = length (take offset ?read)"
      by simp_all
    have "map (shown_turn_item dbk) (turns_of dbk source) = ?read"
      unfolding copied_others(2) [OF k(2) diff] using shown_copied [OF k(2)] diff by simp
    then have items: "items = take MAX_PROTOCOL_PAGE_LIMIT (drop offset ?read)"
      using page st turn_page_Ok [OF k(1), of source total0 offset] by (simp only: prod.case sum.inject)
    from stp st obtain copies dbk1 where cp: "collect_results (fork_turn_item ids new_turn_item_id target) items = Ok copies"
      "write_turn_page refused dbk target copies = Ok dbk1" "st1 = (dbk1, k + length copies)"
      by (auto simp: and_then_Ok_iff)
    have copies: "copies = map ?G items \<and> (\<forall>t \<in> set items. True)"
      by (rule collect_results_Ok [OF cp(1)]) (use fork_turn_item_Ok [OF _ ren] in blast)
    have "set items \<subseteq> set ?read" unfolding items by (rule page_subset)
    then have "\<forall>t \<in> set copies. ti_session_id t = target \<and> 0 \<le> ti_sequence_no t \<and> ti_sequence_no t < I64_MAX"
      using turn_sequences_fit [OF inv] copies by (auto simp: forked_turn_item_def)
    note wr = turn_page_copied [OF cp(2) k(1) this]
    have "copied target [] (map ?G (take offset ?read @ items)) db dbk1"
      using copied_trans [OF k(2) wr(2)] copies by simp
    moreover have "take offset ?read @ items = take (offset + length items) ?read" unfolding items take_page ..
    moreover from this have "length (take offset ?read) + length items = length (take (offset + length items) ?read)"
      by (metis length_append)
    ultimately show "?P (offset + length items) st1" using wr(1) cp(3) copies k(3) by simp
  qed (simp_all add: inv copied_refl)
  with total show ?thesis by simp
qed

lemma empty_target:
  assumes "ensure_empty_protocol_target exists_session db target = Ok ()"
  shows "history_of db target = []" and "turns_of db target = []"
    and "filter (\<lambda>e. re_session_id e = target) (db_events db) = []"
  using assms by (auto simp: ensure_empty_protocol_target_def has_protocol_data_def list_ex_iff filter_empty_conv split: if_splits)

lemma fork_canonical_effects:
  assumes fork: "fork_canonical_items_in_transaction refused exists_session new_id new_turn_item_id db source target = Ok (db', n, m)"
    and inv: "db_inv db"
  shows "db_inv db'" and "source \<noteq> target"
    and "copied target (map (forked_item new_id target) (history_of db source))
      (map (forked_turn_item new_id new_turn_item_id target \<circ> shown_turn_item db) (turns_of db source)) db db'"
    and "n = length (history_of db source)" and "m = length (turns_of db source)"
    and "inj_on new_id (hi_id ` set (history_of db source))"
    and "\<forall>h \<in> set (history_of db source). set (replaced_by (hi_payload h)) \<subseteq> hi_id ` set (history_of db source)"
    and "ensure_empty_protocol_target exists_session db target = Ok ()"
proof -
  let ?hist = "history_of db source" and ?turns = "turns_of db source"
  have fence: "canonical_protocol_fence_from_connection db source =
      Ok \<lparr>cf_append_position = max_append_position db source, cf_history_count = length ?hist,
          cf_turn_count = length ?turns, cf_runtime_event_count = length (source_ids db EventSource source)\<rparr>"
    by (simp add: canonical_protocol_fence_from_connection_def source_count_Ok [OF inv] source_ids_def)
  from fork fence obtain ids db1 k where diff: "source \<noteq> target"
    and empty: "ensure_empty_protocol_target exists_session db target = Ok ()"
    and l1: "fork_pages (\<lambda>_. history_page_at source (length ?hist) db)
      (\<lambda>ids items. insert_mappings new_id ids (map hi_id items)) source (length ?hist) 0 [] = Ok ids"
    and l2: "fork_pages (\<lambda>(db, _). history_page_at source (length ?hist) db)
      (\<lambda>(db, copied) items. and_then (collect_results (fork_history_item ids target) items) (\<lambda>page.
         and_then (write_forked_page refused db target page) (\<lambda>db'. Ok (db', copied + length page))))
      source (length ?hist) 0 (db, 0) = Ok (db1, k)"
    and l3: "fork_pages (\<lambda>(db, _). turn_page_at source (length ?turns) db)
      (\<lambda>(db, copied) items. and_then (collect_results (fork_turn_item ids new_turn_item_id target) items) (\<lambda>page.
         and_then (write_turn_page refused db target page) (\<lambda>db'. Ok (db', copied + length page))))
      source (length ?turns) 0 (db1, 0) = Ok (db', m)" and "n = k"
    by (auto simp: fork_canonical_items_in_transaction_def and_then_Ok_iff split: if_splits)
  note ids = fork_mapping_loop [OF l1 inv refl]
  then have ren: "renames new_id ids" and ids_set: "fst ` set ids = hi_id ` set ?hist" by (auto simp: image_image)
  note h = fork_history_loop [OF l2 inv refl diff ren]
  then have c1: "copied target (map (forked_item new_id target) ?hist) [] db db1" and inv1: "db_inv db1" by simp_all
  note others = copied_others(2) [OF c1 diff]
  have "map (forked_turn_item new_id new_turn_item_id target \<circ> shown_turn_item db1) ?turns =
      map (forked_turn_item new_id new_turn_item_id target \<circ> shown_turn_item db) ?turns"
    using shown_copied [OF c1] diff by simp
  with fork_turn_loop [OF l3 inv1 _ diff ren] others have t: "db_inv db'" "m = length ?turns"
    "copied target [] (map (forked_turn_item new_id new_turn_item_id target \<circ> shown_turn_item db) ?turns) db1 db'"
    by simp_all
  show "db_inv db'" by (rule t(1))
  show "source \<noteq> target" by (rule diff)
  show "copied target (map (forked_item new_id target) ?hist)
      (map (forked_turn_item new_id new_turn_item_id target \<circ> shown_turn_item db) ?turns) db db'"
    using copied_trans [OF c1 t(3)] by simp
  show "n = length ?hist" using h \<open>n = k\<close> by simp
  show "m = length ?turns" by (rule t(2))
  show "ensure_empty_protocol_target exists_session db target = Ok ()" by (rule empty)
  show "\<forall>h \<in> set ?hist. set (replaced_by (hi_payload h)) \<subseteq> hi_id ` set ?hist" using h unfolding ids_set by blast
  have "distinct (map new_id (map hi_id ?hist))" using ids by (auto simp: o_def)
  then have "inj_on new_id (set (map hi_id ?hist))" unfolding distinct_map by blast
  then show "inj_on new_id (hi_id ` set ?hist)" unfolding set_map .
qed

end
