(* ===== verification/Context_Forks.thy ===== *)
theory Context_Forks
  imports Fork_Effects "HOL-Library.Sublist"
begin

text \<open>
  The effects of importing a shared log and of giving a child the context of its parent, and a reference for
  what the child is given: the end of the active view from a boundary of turns, less what is not context.
\<close>

section \<open>The import of a shared log\<close>

lemma import_history_page:
  "import_history refused ids target db copies items = Ok (db1, copies') \<Longrightarrow>
   \<exists>page. collect_results (fork_history_item ids target) items = Ok page \<and>
          insert_forked_items refused db page = Ok db1 \<and> copies' = copies @ page"
proof (induction items arbitrary: db copies)
  case (Cons item items)
  then show ?case by (fastforce simp: and_then_Ok_iff)
qed simp

lemma import_turns_copied:
  assumes "import_turns refused ids new_turn_item_id target db items = Ok db'" and "db_inv db" and "renames new_id ids"
    and "\<forall>t \<in> set items. 0 \<le> ti_sequence_no t \<and> ti_sequence_no t < I64_MAX"
  shows "db_inv db' \<and> copied target [] (map (forked_turn_item new_id new_turn_item_id target) items) db db'"
  using assms
proof (induction items arbitrary: db)
  case (Cons t items)
  from Cons.prems(1) obtain t' db2 where t': "fork_turn_item ids new_turn_item_id target t = Ok t'"
    and wr: "write_turn_page refused db target [t'] = Ok db2"
    and rest: "import_turns refused ids new_turn_item_id target db2 items = Ok db'"
    by (auto simp: and_then_Ok_iff write_turn_page_def)
  have eq: "t' = forked_turn_item new_id new_turn_item_id target t" by (rule fork_turn_item_Ok [OF t' Cons.prems(3)])
  then have "\<forall>t \<in> set [t']. ti_session_id t = target \<and> 0 \<le> ti_sequence_no t \<and> ti_sequence_no t < I64_MAX"
    using Cons.prems(4) by (simp add: forked_turn_item_def)
  note one = turn_page_copied [OF wr Cons.prems(2) this]
  from Cons.IH [OF rest one(1) Cons.prems(3)] Cons.prems(4) copied_trans [OF one(2)] eq show ?case by fastforce
qed (simp add: copied_refl)

text \<open>Numbers that leave room for a next one.\<close>

definition archive_fits :: "history_item list \<Rightarrow> turn_item list \<Rightarrow> bool" where
  "archive_fits history turns \<longleftrightarrow>
     (\<forall>h \<in> set history. hi_sequence_no h < I64_MAX) \<and>
     (\<forall>t \<in> set turns. 0 \<le> ti_sequence_no t \<and> ti_sequence_no t < I64_MAX)"

lemma fork_shared_effects:
  assumes fork: "fork_shared_history_in_transaction refused exists_session new_id new_turn_item_id db source target history turns = Ok db'"
    and inv: "db_inv db" and fits: "archive_fits history turns"
  shows "db_inv db'" and "copied target (map (forked_item new_id target) history)
      (map (forked_turn_item new_id new_turn_item_id target) turns) db db'"
proof -
  from fork obtain ids db1 copies db2 where map: "insert_mappings new_id [] (map hi_id history) = Ok ids"
    and imp: "import_history refused ids target db [] history = Ok (db1, copies)"
    and seed: "seed_history_turn_sequence_allocators refused db1 target copies = Ok db2"
    and trn: "import_turns refused ids new_turn_item_id target db2 turns = Ok db'"
    by (auto simp: fork_shared_history_in_transaction_def and_then_Ok_iff split: if_splits)
  have ren: "renames new_id ids" using insert_mappings_Ok(1) [OF map] by auto
  from import_history_page [OF imp] have page: "collect_results (fork_history_item ids target) history = Ok copies"
    "insert_forked_items refused db copies = Ok db1" by auto
  have copies: "copies = map (forked_item new_id target) history \<and> (\<forall>h \<in> set history. True)"
    by (rule collect_results_Ok [OF page(1)]) (use fork_history_item_Ok [OF _ ren] in blast)
  have wr: "write_forked_page refused db target copies = Ok db2" using page(2) seed by (simp add: write_forked_page_def)
  have "\<forall>h \<in> set copies. hi_session_id h = target \<and> (hi_scope h \<noteq> Session \<longrightarrow> hi_sequence_no h < I64_MAX)"
    using copies fits by (auto simp: archive_fits_def forked_item_def)
  note one = forked_page_copied [OF wr inv this]
  have "\<forall>t \<in> set turns. 0 \<le> ti_sequence_no t \<and> ti_sequence_no t < I64_MAX" using fits by (simp add: archive_fits_def)
  note two = import_turns_copied [OF trn one(1) ren this]
  show "db_inv db'" using two by blast
  show "copied target (map (forked_item new_id target) history)
      (map (forked_turn_item new_id new_turn_item_id target) turns) db db'"
    using copied_trans [OF one(2)] two copies by fastforce
qed

section \<open>The context of a child\<close>

lemma active_view_items: "db_inv db \<Longrightarrow> set (active_view db s) \<subseteq> set (history_of db s)"
proof -
  assume inv: "db_inv db"
  have "set (active_view db s) \<subseteq> set (map snd (history_rows db s))"
    by (auto simp: active_view_def in_view_order_def active_rows_def Let_def)
  then show ?thesis unfolding history_rows_eq(1) [OF inv] .
qed

declare traverse_loop.simps [simp del]

lemma visit_chunks_Ok:
  assumes "visit_chunks limit visitor v items = Ok v'" and "0 < limit" and "P [] v"
    and "\<And>seen v page v1. P seen v \<Longrightarrow> visitor v page = Ok v1 \<Longrightarrow> set (hp_items page) \<subseteq> set items \<Longrightarrow>
           P (seen @ hp_items page) v1"
  shows "P items v'"
proof -
  have "P (seen @ rest) v'"
    if "visit_chunks limit visitor v rest = Ok v'" "P seen v" "set rest \<subseteq> set items" for seen rest v
    using that
  proof (induction rest arbitrary: seen v rule: length_induct)
    case (1 rest)
    show ?case
    proof (cases "rest = []")
      case True
      with 1 assms(2) show ?thesis by (simp add: visit_chunks.simps)
    next
      case False
      let ?page = "\<lparr>hp_items = take limit rest, hp_has_more = limit < length rest\<rparr>"
      from 1(2) False assms(2) obtain v1 where v1: "visitor v ?page = Ok v1"
        "visit_chunks limit visitor v1 (drop limit rest) = Ok v'"
        by (subst (asm) visit_chunks.simps) (auto split: sum.splits)
      have "P (seen @ take limit rest) v1" using assms(4) [OF 1(3) v1(1)] 1(4) set_take_subset [of limit rest] by fastforce
      moreover have "set (drop limit rest) \<subseteq> set items" using 1(4) set_drop_subset [of limit rest] by blast
      ultimately show ?thesis
        using 1(1) [rule_format, of "drop limit rest" v1 "seen @ take limit rest"] v1(2) False assms(2) by simp
    qed
  qed
  from this [OF assms(1,3)] show ?thesis by simp
qed

text \<open>What the child is given of a view.\<close>

definition context_copy ::
  "history_item_id list \<Rightarrow> (history_item_id \<Rightarrow> history_item_id) \<Rightarrow> session_id \<Rightarrow> history_item \<Rightarrow> history_item option" where
  "context_copy final_answers new_id target item =
     map_option (\<lambda>payload. item\<lparr>hi_id := new_id (hi_id item), hi_session_id := target, hi_payload := payload\<rparr>)
       (fork_agent_context_payload (hi_payload item) (hi_id item \<in> set final_answers))"

abbreviation is_boundary :: "history_item \<Rightarrow> bool" where
  "is_boundary h \<equiv> is_agent_fork_turn_boundary (hi_payload h)"

fun from_boundary :: "nat \<Rightarrow> history_item list \<Rightarrow> history_item list" where
  "from_boundary k [] = []"
| "from_boundary k (h # view) =
     (if is_boundary h then (case k of 0 \<Rightarrow> h # view | Suc j \<Rightarrow> from_boundary j view) else from_boundary k view)"

definition turn_boundaries :: "history_item list \<Rightarrow> nat" where
  "turn_boundaries view = length (filter is_boundary view)"

definition recent_context :: "nat option \<Rightarrow> history_item list \<Rightarrow> history_item list" where
  "recent_context recent_turns view =
     (case recent_turns of None \<Rightarrow> view | Some n \<Rightarrow> from_boundary (turn_boundaries view - n) view)"

lemma copy_started:
  "to_skip = None \<or> to_skip = Some 0 \<Longrightarrow>
   foldl (copy_agent_item finals new_id target) (to_skip, True, copies) view =
   (to_skip, True, copies @ List.map_filter (context_copy finals new_id target) view)"
proof (induction view arbitrary: copies)
  case (Cons h view)
  have "copy_agent_item finals new_id target (to_skip, True, copies) h =
      (to_skip, True, copies @ (case context_copy finals new_id target h of None \<Rightarrow> [] | Some x \<Rightarrow> [x]))"
    using Cons.prems by (auto simp: copy_agent_item_def context_copy_def Let_def split: option.split)
  with Cons.IH [OF Cons.prems] show ?case by (simp add: List.map_filter_def split: option.split)
qed (simp add: List.map_filter_def)

lemma copy_recent:
  "snd (snd (foldl (copy_agent_item finals new_id target) (Some k, False, copies) view)) =
   copies @ List.map_filter (context_copy finals new_id target) (from_boundary k view)"
proof (induction k view arbitrary: copies rule: from_boundary.induct)
  case (2 k h view)
  show ?case
  proof (cases "is_boundary h")
    case False
    then have "copy_agent_item finals new_id target (Some k, False, copies) h = (Some k, False, copies)"
      by (simp add: copy_agent_item_def Let_def)
    with 2(2) [OF False] False show ?thesis by simp
  next
    case True
    show ?thesis
    proof (cases k)
      case 0
      have "foldl (copy_agent_item finals new_id target) (Some 0, False, copies) (h # view) =
          foldl (copy_agent_item finals new_id target) (Some 0, True, copies) (h # view)"
        using True by (simp add: copy_agent_item_def Let_def)
      with copy_started [of "Some 0" finals new_id target copies "h # view"] True 0 show ?thesis by simp
    next
      case (Suc j)
      then have "copy_agent_item finals new_id target (Some k, False, copies) h = (Some j, False, copies)"
        using True by (simp add: copy_agent_item_def Let_def)
      with 2(1) [OF True Suc] True Suc show ?thesis by simp
    qed
  qed
qed (simp add: List.map_filter_def)

lemma collect_boundaries:
  "snd (foldl collect_assistant_turns (turns, n) view) = n + turn_boundaries view"
  by (induction view arbitrary: turns n) (auto simp: collect_assistant_turns_def turn_boundaries_def Let_def)

lemma copy_agent_item_append:
  "copy_agent_item finals new_id target (a, b, c @ d) h =
   (let (a', b', d') = copy_agent_item finals new_id target (a, b, d) h in (a', b', c @ d'))"
  by (auto simp: copy_agent_item_def Let_def split: option.split)

lemma copy_agent_append:
  "foldl (copy_agent_item finals new_id target) (a, b, c @ d) view =
   (let (a', b', d') = foldl (copy_agent_item finals new_id target) (a, b, d) view in (a', b', c @ d'))"
proof (induction view arbitrary: a b d)
  case (Cons h view)
  obtain a1 b1 d1 where "copy_agent_item finals new_id target (a, b, d) h = (a1, b1, d1)" by (metis prod_cases3)
  with Cons.IH [of a1 b1 d1] show ?case by (simp add: copy_agent_item_append)
qed simp

lemma copy_agent_fields:
  "foldl (copy_agent_item finals new_id target) (a, b, []) items = (a', b', copies) \<Longrightarrow> c \<in> set copies \<Longrightarrow>
   hi_session_id c = target \<and> (\<exists>h \<in> set items. hi_scope c = hi_scope h \<and> hi_sequence_no c = hi_sequence_no h)"
proof (induction items arbitrary: a' b' copies rule: rev_induct)
  case (snoc h items)
  obtain a1 b1 c1 where one: "foldl (copy_agent_item finals new_id target) (a, b, []) items = (a1, b1, c1)"
    by (metis prod_cases3)
  with snoc.prems(1) have "copy_agent_item finals new_id target (a1, b1, c1) h = (a', b', copies)" by simp
  then have "copies = c1 \<or> (\<exists>p. copies = c1 @ [h\<lparr>hi_id := new_id (hi_id h), hi_session_id := target, hi_payload := p\<rparr>])"
    by (auto simp: copy_agent_item_def Let_def split: if_splits option.splits)
  with snoc.prems(2) snoc.IH [OF one] show ?case by auto
qed simp

lemma copy_pages_Ok:
  assumes run: "visit_chunks MAX_PROTOCOL_PAGE_LIMIT (copy_agent_page refused finals new_id target)
      (db, to_skip, started, 0) view = Ok (db', sk, st, n)"
    and inv: "db_inv db" and view: "set view \<subseteq> set (db_history db)"
  obtains copies where "foldl (copy_agent_item finals new_id target) (to_skip, started, []) view = (sk, st, copies)"
    and "db_inv db'" and "copied target copies [] db db'" and "n = length copies"
proof -
  let ?f = "copy_agent_item finals new_id target"
  let ?P = "\<lambda>seen (dbk, sk, st, n). \<exists>copies. foldl ?f (to_skip, started, []) seen = (sk, st, copies) \<and>
      db_inv dbk \<and> copied target copies [] db dbk \<and> n = length copies"
  have "?P view (db', sk, st, n)"
  proof (rule visit_chunks_Ok [OF run])
    fix seen v page v1
    assume P: "?P seen v" and vis: "copy_agent_page refused finals new_id target v page = Ok v1"
      and sub: "set (hp_items page) \<subseteq> set view"
    obtain dbk sk st n where v: "v = (dbk, sk, st, n)" by (metis prod_cases4)
    with P obtain copies where k: "foldl ?f (to_skip, started, []) seen = (sk, st, copies)" "db_inv dbk"
      "copied target copies [] db dbk" "n = length copies" by auto
    obtain sk1 st1 new where new: "foldl ?f (sk, st, []) (hp_items page) = (sk1, st1, new)" by (metis prod_cases3)
    from vis v new obtain dbk1 where wr: "write_forked_page refused dbk target new = Ok dbk1"
      and v1: "v1 = (dbk1, sk1, st1, n + length new)"
      by (auto simp: copy_agent_page_def and_then_Ok_iff)
    have "\<forall>h \<in> set new. hi_session_id h = target \<and> (hi_scope h \<noteq> Session \<longrightarrow> hi_sequence_no h < I64_MAX)"
      using copy_agent_fields [OF new] history_sequences_fit [OF inv] sub view by (metis subset_iff)
    note one = forked_page_copied [OF wr k(2) this]
    have "foldl ?f (to_skip, started, []) (seen @ hp_items page) = (sk1, st1, copies @ new)"
      using copy_agent_append [of finals new_id target sk st copies "[]" "hp_items page"] k(1) new by simp
    then show "?P (seen @ hp_items page) v1" using one(1) copied_trans [OF k(3) one(2)] k(4) v1 by simp
  qed (simp_all add: inv copied_refl MAX_PROTOCOL_PAGE_LIMIT_def)
  with that show ?thesis by auto
qed

lemma fork_agent_effects:
  assumes fork: "fork_agent_context_in_transaction refused exists_session new_id db source target expected recent_turns = Ok (db', n)"
    and inv: "db_inv db"
  obtains finals where "final_answer_history_item_ids_for_turns db source
      (fst (foldl collect_assistant_turns ([], 0) (active_view db source))) = Ok finals"
    and "db_inv db'" and "copied target (List.map_filter (context_copy finals new_id target)
      (recent_context recent_turns (active_view db source))) [] db db'"
    and "n = length (List.map_filter (context_copy finals new_id target) (recent_context recent_turns (active_view db source)))"
    and "ensure_empty_protocol_target exists_session db target = Ok ()"
proof -
  let ?view = "active_view db source" and ?limit = MAX_PROTOCOL_PAGE_LIMIT
  let ?collect = "\<lambda>st page. Ok (foldl collect_assistant_turns st (hp_items page))"
  have lim: "0 < ?limit" "?limit \<le> ?limit" by (simp_all add: MAX_PROTOCOL_PAGE_LIMIT_def)
  obtain turns count0 where col: "foldl collect_assistant_turns ([], 0) ?view = (turns, count0)" by fastforce
  have "visit_chunks ?limit ?collect ([], 0) ?view = Ok (foldl collect_assistant_turns ([], 0) ?view)"
    by (rule visit_chunks_collect [OF lim(1)]) simp_all
  then have chunks: "visit_chunks ?limit ?collect ([], 0) ?view = Ok (turns, count0)" by (simp only: col)
  have count0: "count0 = turn_boundaries ?view" using collect_boundaries [of "[]" 0 ?view] col by simp
  from traverse_eq [OF inv lim, of source ?collect "([], 0)"] obtain stats where stats: "ts_snapshot stats = view_snapshot db source"
    "\<And>expected. expected = None \<or> expected = Some (view_snapshot db source) \<Longrightarrow>
      traverse_active_history_in_transaction_with_bounds db source expected ?limit None ?collect ([], 0) =
      and_then (visit_chunks ?limit ?collect ([], 0) ?view) (\<lambda>v'. Ok (v', stats))"
    "\<And>expected. expected \<noteq> view_snapshot db source \<Longrightarrow>
      traverse_active_history_in_transaction_with_bounds db source (Some expected) ?limit None ?collect ([], 0) =
      Err (HistoryFenceChanged source)" by blast
  from fork obtain st0 stats0 finals where empty: "ensure_empty_protocol_target exists_session db target = Ok ()"
    and first: "traverse_active_history_in_transaction_with_bounds db source expected ?limit None ?collect ([], 0) = Ok (st0, stats0)"
    and finals: "final_answer_history_item_ids_for_turns db source (fst st0) = Ok finals"
    and second: "\<exists>sk st stats'. traverse_active_history_in_transaction_with_bounds db source (Some (ts_snapshot stats0)) ?limit None
      (copy_agent_page refused finals new_id target)
      (db, map_option (\<lambda>t. snd st0 - t) recent_turns, recent_turns = None, 0) = Ok ((db', sk, st, n), stats')"
    by (auto simp: fork_agent_context_in_transaction_def and_then_Ok_iff split: prod.splits)
  have "expected = None \<or> expected = Some (view_snapshot db source)"
    using first stats(3) by (cases expected) (simp, metis sum.distinct(1))
  from stats(2) [OF this] first have "st0 = (turns, count0)" "stats0 = stats" by (simp_all only: chunks and_then_simps sum.inject prod.inject)
  let ?skip = "map_option (\<lambda>t. count0 - t) recent_turns"
  let ?visitor = "copy_agent_page refused finals new_id target" and ?v = "(db, ?skip, recent_turns = None, 0)"
  obtain stats' where
    "traverse_active_history_in_transaction_with_bounds db source (Some (view_snapshot db source)) ?limit None ?visitor ?v =
      and_then (visit_chunks ?limit ?visitor ?v ?view) (\<lambda>v'. Ok (v', stats'))"
  proof (rule traverse_eq [OF inv lim, of source ?visitor ?v], goal_cases)
    case (1 stats')
    show ?case by (rule 1(1) [OF 1(3) [OF disjI2 [OF refl]]])
  qed
  with second stats(1) \<open>st0 = (turns, count0)\<close> \<open>stats0 = stats\<close> obtain sk st where
    run: "visit_chunks ?limit ?visitor ?v ?view = Ok (db', sk, st, n)" by (auto simp: and_then_Ok_iff)
  have "set ?view \<subseteq> set (db_history db)" using active_view_items [OF inv, of source] by auto
  from copy_pages_Ok [OF run inv this] obtain copies where
    c: "foldl (copy_agent_item finals new_id target) (?skip, recent_turns = None, []) ?view = (sk, st, copies)"
      "db_inv db'" "copied target copies [] db db'" "n = length copies" .
  have "copies = List.map_filter (context_copy finals new_id target) (recent_context recent_turns ?view)"
  proof (cases recent_turns)
    case None
    with c(1) copy_started [of None finals new_id target "[]" ?view] show ?thesis by (simp add: recent_context_def)
  next
    case (Some k)
    with c(1) copy_recent [of finals new_id target "count0 - k" "[]" ?view] show ?thesis
      by (simp add: recent_context_def count0)
  qed
  moreover have "final_answer_history_item_ids_for_turns db source (fst (foldl collect_assistant_turns ([], 0) ?view)) = Ok finals"
    using finals \<open>st0 = (turns, count0)\<close> by (simp add: col)
  ultimately show ?thesis using c(2-4) empty by (intro that [of finals]) simp_all
qed

section \<open>Final answers\<close>

definition answers_of :: "response_id \<Rightarrow> history_item list \<Rightarrow> (history_item_id \<times> content_part list) list" where
  "answers_of r items =
     List.map_filter (\<lambda>h. case hi_payload h of
       AssistantMessage r' content \<Rightarrow> if r' = r then Some (hi_id h, content) else None | _ \<Rightarrow> None) items"

definition calls_tool :: "response_id \<Rightarrow> history_item list \<Rightarrow> bool" where
  "calls_tool r items \<longleftrightarrow> list_ex (\<lambda>h. case hi_payload h of ToolCall _ r' _ _ _ \<Rightarrow> r' = r | _ \<Rightarrow> False) items"

definition item_response :: "history_item \<Rightarrow> response_id option" where
  "item_response h = (case hi_payload h of AssistantMessage r _ \<Rightarrow> Some r | ToolCall _ r _ _ _ \<Rightarrow> Some r | _ \<Rightarrow> None)"

lemma bundle_entry_insert: "bundle_entry (hm_insert r b m) r' = (if r' = r then b else bundle_entry m r')"
  by (simp add: bundle_entry_def)

lemma items_Cons:
  "answers_of r (h # hs) = (case hi_payload h of AssistantMessage r' content \<Rightarrow> if r' = r then [(hi_id h, content)] else [] | _ \<Rightarrow> []) @
     answers_of r hs"
  "calls_tool r (h # hs) = ((case hi_payload h of ToolCall _ r' _ _ _ \<Rightarrow> r' = r | _ \<Rightarrow> False) \<or> calls_tool r hs)"
  by (simp_all add: answers_of_def calls_tool_def List.map_filter_simps split: option.split history_item_payload.split)

lemma note_response_None:
  assumes "note_response m h = None"
  shows "item_response h = None \<and> answers_of r (h # hs) = answers_of r hs \<and> calls_tool r (h # hs) = calls_tool r hs"
  using assms by (cases "hi_payload h") (simp_all add: note_response_def item_response_def items_Cons Let_def)

lemma note_response_Some:
  assumes "note_response m h = Some (r0, m1)"
  shows "item_response h = Some r0 \<and>
    fb_assistant_items (bundle_entry m1 r) @ answers_of r hs = fb_assistant_items (bundle_entry m r) @ answers_of r (h # hs) \<and>
    (fb_has_tool_call (bundle_entry m1 r) \<or> calls_tool r hs) = (fb_has_tool_call (bundle_entry m r) \<or> calls_tool r (h # hs))"
proof (cases "hi_payload h")
  case (AssistantMessage r' content)
  with assms show ?thesis by (auto simp: note_response_def item_response_def items_Cons bundle_entry_insert Let_def)
next
  case (ToolCall a r' c d e)
  with assms show ?thesis
    by (auto simp: note_response_def item_response_def items_Cons bundle_entry_insert split: if_splits)
qed (use assms in \<open>simp_all add: note_response_def\<close>)

lemma response_bundles_Ok:
  "response_bundles turn p m latest items = Ok (m', latest') \<Longrightarrow>
   fb_assistant_items (bundle_entry m' r) = fb_assistant_items (bundle_entry m r) @ answers_of r (map fst items) \<and>
   fb_has_tool_call (bundle_entry m' r) = (fb_has_tool_call (bundle_entry m r) \<or> calls_tool r (map fst items)) \<and>
   latest' = last (latest # map Some (List.map_filter item_response (map fst items)))"
proof (induction turn p m latest items rule: response_bundles.induct)
  case (1 turn p m latest)
  then show ?case by (simp add: answers_of_def calls_tool_def List.map_filter_def)
next
  case (2 turn p m latest h pos rest)
  show ?case
  proof (cases "note_response m h")
    case None
    from 2(1) [OF None] 2(3) None note_response_None [OF None, of r "map fst rest"] show ?thesis
      by (simp add: List.map_filter_simps)
  next
    case (Some x)
    obtain r0 m1 where x: "x = (r0, m1)" by (cases x)
    note some = note_response_Some [OF Some [unfolded x], of r "map fst rest"]
    from 2(3) Some x have "\<not> p \<le> pos" "response_bundles turn p m1 (Some r0) rest = Ok (m', latest')"
      by (auto split: if_splits)
    from 2(2) [OF Some x [symmetric] this] some show ?thesis by (simp add: List.map_filter_simps)
  qed
qed

abbreviation turn_history :: "protocol_db \<Rightarrow> session_id \<Rightarrow> turn_id \<Rightarrow> history_item list" where
  "turn_history db s t \<equiv> filter (\<lambda>h. hi_scope h = Turn t) (history_of db s)"

text \<open>
  The one text of the last response of a turn that completed, where that response called no tool.
\<close>

definition is_final_answer :: "protocol_db \<Rightarrow> session_id \<Rightarrow> history_item \<Rightarrow> bool" where
  "is_final_answer db s h \<longleftrightarrow>
     (\<exists>t r text0. h \<in> set (turn_history db s t) \<and> hi_payload h = AssistantMessage r [CText text0] \<and> trim text0 \<noteq> [] \<and>
        answers_of r (turn_history db s t) = [(hi_id h, [CText text0])] \<and> \<not> calls_tool r (turn_history db s t) \<and>
        last (List.map_filter item_response (turn_history db s t)) = r \<and>
        (\<exists>e \<in> set (db_events db). re_session_id e = s \<and> re_turn_id e = t \<and>
           (\<exists>d. re_msg e = MsgTurnTerminal d \<and> dt_outcome d = TerminalCompleted)))"

lemma turn_history_Ok:
  assumes "db_inv db" and "canonical_turn_history_with_append_positions db s t = Ok items"
  shows "map fst items = turn_history db s t"
proof -
  let ?rows = "filter (\<lambda>(_, h). hi_scope h = Turn t) (history_rows db s)"
  have "items = map (\<lambda>(p, h). (h, p)) ?rows \<and> (\<forall>x \<in> set ?rows. True)"
    using assms(2) unfolding canonical_turn_history_with_append_positions_def
    by (rule collect_results_Ok) (auto simp: decode_history_def and_then_Ok_iff split: sum.splits)
  then have "map fst items = map snd ?rows" by (auto simp: case_prod_unfold)
  also have "\<dots> = filter (\<lambda>h. hi_scope h = Turn t) (map snd (history_rows db s))"
    by (simp add: filter_map case_prod_unfold o_def)
  finally show ?thesis by (simp only: history_rows_eq(1) [OF assms(1)])
qed

lemma one_of_list: "(case ys of [] \<Rightarrow> Ok None | [x] \<Rightarrow> Ok (Some x) | _ \<Rightarrow> Err e) = Ok (Some z) \<Longrightarrow> ys = [z]"
  by (auto split: list.splits)

lemma map_filter_mem: "y \<in> set (List.map_filter f xs) \<Longrightarrow> \<exists>x \<in> set xs. f x = Some y"
  by (auto simp: List.map_filter_def)

lemma unique_terminal_Ok:
  assumes "db_inv db" and "unique_terminal_for_turn db s t = Ok (Some (d, p))"
  obtains e where "e \<in> set (db_events db)" and "re_session_id e = s" and "re_turn_id e = t" and "re_msg e = MsgTurnTerminal d"
proof -
  let ?f = "\<lambda>(p, e). if re_turn_id e = t then map_option (\<lambda>d. (d, p)) (terminal_of (re_msg e)) else None"
  have "rev (List.map_filter ?f (event_rows db s)) = [(d, p)]"
    using assms(2) unfolding unique_terminal_for_turn_def by (rule one_of_list)
  then have "set (rev (List.map_filter ?f (event_rows db s))) = {(d, p)}" by simp
  then have "(d, p) \<in> set (List.map_filter ?f (event_rows db s))" by simp
  from map_filter_mem [OF this] obtain row where row: "row \<in> set (event_rows db s)" "?f row = Some (d, p)" by blast
  then have "re_turn_id (snd row) = t" "terminal_of (re_msg (snd row)) = Some d"
    by (auto simp: case_prod_unfold split: if_splits)
  moreover from this have "re_msg (snd row) = MsgTurnTerminal d" by (cases "re_msg (snd row)") simp_all
  moreover have "snd row \<in> set (map snd (event_rows db s))" using row(1) by simp
  ultimately show ?thesis using that [of "snd row"] unfolding event_rows_eq(1) [OF assms(1)] by simp
qed

lemma answers_of_mem: "(i, content) \<in> set (answers_of r items) \<Longrightarrow> \<exists>h \<in> set items. hi_id h = i \<and> hi_payload h = AssistantMessage r content"
  by (auto simp: answers_of_def List.map_filter_def split: history_item_payload.splits if_splits)

lemma plain_answer_Some:
  "plain_answer b = Some i \<Longrightarrow>
   \<exists>text0. fb_assistant_items b = [(i, [CText text0])] \<and> trim text0 \<noteq> [] \<and> \<not> fb_has_tool_call b"
  by (auto simp: plain_answer_def split: if_splits list.splits prod.splits content_part.splits)

lemma chosen_answer_Some:
  assumes "chosen_answer turn explicit bundles latest = Ok (Some i)"
  obtains r b where "latest = Some r" and "hm_get bundles r = Some b" and "plain_answer b = Some i"
  using assms that unfolding chosen_answer_def by (auto split: option.splits if_splits)

lemma final_answer_of_turn_Ok:
  assumes inv: "db_inv db" and "final_answer_of_turn db s t = Ok (Some i)"
  obtains h where "is_final_answer db s h" and "hi_id h = i"
proof -
  from assms(2) obtain x where x: "unique_terminal_for_turn db s t = Ok (Some x)"
    by (auto simp: final_answer_of_turn_def and_then_Ok_iff split: option.splits)
  obtain d p where dp: "x = (d, p)" by (cases x)
  from assms(2) x dp obtain items m latest where
    fin: "unique_terminal_for_turn db s t = Ok (Some (d, p))" "dt_outcome d = TerminalCompleted"
    and items: "canonical_turn_history_with_append_positions db s t = Ok items"
    and run: "response_bundles t p [] None items = Ok (m, latest)"
    and "chosen_answer t (dt_final_response_id d) m latest = Ok (Some i)"
    by (auto simp: final_answer_of_turn_def and_then_Ok_iff split: if_splits)
  then obtain r b where latest: "latest = Some r" and b: "hm_get m r = Some b" "plain_answer b = Some i"
    by (elim chosen_answer_Some)
  note log = turn_history_Ok [OF inv items]
  have entry: "bundle_entry m r = b" using b(1) by (simp add: bundle_entry_def)
  have "bundle_entry [] r = empty_response_bundle" by (simp add: bundle_entry_def)
  with response_bundles_Ok [OF run, of r] have
    ans: "fb_assistant_items b = answers_of r (turn_history db s t)" "fb_has_tool_call b = calls_tool r (turn_history db s t)"
    "Some r = last (None # map Some (List.map_filter item_response (turn_history db s t)))"
    by (simp_all add: log entry latest empty_response_bundle_def)
  from plain_answer_Some [OF b(2)] ans(1,2) obtain text0 where
    plain: "answers_of r (turn_history db s t) = [(i, [CText text0])]" "trim text0 \<noteq> []" "\<not> calls_tool r (turn_history db s t)"
    by auto
  from plain(1) answers_of_mem [of i "[CText text0]" r "turn_history db s t"] obtain h where
    h: "h \<in> set (turn_history db s t)" "hi_id h = i" "hi_payload h = AssistantMessage r [CText text0]" by auto
  have "last (List.map_filter item_response (turn_history db s t)) = r"
    using ans(3) by (cases "List.map_filter item_response (turn_history db s t)" rule: rev_cases) auto
  moreover obtain e where "e \<in> set (db_events db)" "re_session_id e = s" "re_turn_id e = t" "re_msg e = MsgTurnTerminal d"
    using unique_terminal_Ok [OF inv fin(1)] .
  ultimately have "is_final_answer db s h" unfolding is_final_answer_def using h plain fin(2) by blast
  with h(2) that show ?thesis by blast
qed

lemma collect_results_mem: "collect_results f xs = Ok ys \<Longrightarrow> y \<in> set ys \<Longrightarrow> \<exists>x \<in> set xs. f x = Ok y"
  by (induction xs arbitrary: ys) (auto simp: and_then_Ok_iff)

lemma final_answers_Ok:
  assumes inv: "db_inv db" and finals: "final_answer_history_item_ids_for_turns db s turns = Ok finals"
    and h: "h \<in> set (history_of db s)" "hi_id h \<in> set finals"
  shows "is_final_answer db s h"
proof -
  from finals obtain answers where ans: "collect_results (final_answer_of_turn db s) (rev (remdups (rev turns))) = Ok answers"
    and eq: "finals = List.map_filter (\<lambda>a. a) answers"
    by (auto simp: final_answer_history_item_ids_for_turns_def and_then_Ok_iff)
  have "Some (hi_id h) \<in> set answers" using h(2) unfolding eq by (auto simp: List.map_filter_def)
  from collect_results_mem [OF ans this] obtain t where "final_answer_of_turn db s t = Ok (Some (hi_id h))" by blast
  from final_answer_of_turn_Ok [OF inv this] obtain g where g: "is_final_answer db s g" "hi_id g = hi_id h" by blast
  then have "g \<in> set (db_history db)" by (auto simp: is_final_answer_def)
  moreover have "distinct (map hi_id (db_history db))"
    using inv by (auto simp: db_inv_def owned_def all_sources_def o_def dest!: spec [of _ HistorySource])
  ultimately have "g = h" using g(2) h(1) by (auto simp: distinct_map dest: inj_onD)
  with g(1) show ?thesis by simp
qed

section \<open>The recent turns of a view\<close>

lemma from_boundary_suffix: "suffix (from_boundary k view) view"
  by (induction k view rule: from_boundary.induct) (auto split: nat.split simp: suffix_Cons)

lemma boundaries_from: "k \<le> turn_boundaries view \<Longrightarrow> turn_boundaries (from_boundary k view) = turn_boundaries view - k"
  by (induction k view rule: from_boundary.induct) (auto simp: turn_boundaries_def split: nat.split)

lemma recent_context_suffix: "suffix (recent_context recent_turns view) view"
  using from_boundary_suffix by (simp add: recent_context_def split: option.split)

lemma recent_context_boundaries: "turn_boundaries (recent_context (Some n) view) = min n (turn_boundaries view)"
  using boundaries_from [of "turn_boundaries view - n" view] by (simp add: recent_context_def)

lemma recent_context_starts: "recent_context (Some n) view = h # rest \<Longrightarrow> is_boundary h"
proof -
  have "from_boundary k view = h # rest \<Longrightarrow> is_boundary h" for k
    by (induction k view rule: from_boundary.induct) (auto split: if_splits nat.splits)
  then show "recent_context (Some n) view = h # rest \<Longrightarrow> is_boundary h" by (simp add: recent_context_def)
qed

end
