(* ===== verification/Protocol_Machine.thy ===== *)
theory Protocol_Machine
  imports Context_Forks
begin

text \<open>
  The store as a machine: every write of it, in any order, and that each keeps the invariant.
\<close>

section \<open>The machine\<close>

text \<open>
  The recording sink, the agent runtime and the session repository all write bundles; sessions are forked,
  imported, and given the context of a parent. Stop fences, spawn edges and the provenance of steering are
  also written elsewhere, arbitrarily. An archive is assumed to have numbers that leave room for a next one.
\<close>

inductive store_step :: "protocol_db \<Rightarrow> protocol_db \<Rightarrow> bool" where
  st_bundle: "insert_event_bundle_unchecked refused db e h t = Ok (db', stored) \<Longrightarrow> store_step db db'"
| st_mailbox: "insert_mailbox_append_order_in_transaction refused db s i c = Ok (db', n) \<Longrightarrow> store_step db db'"
| st_mode: "set_collaboration_mode refused i now db s mode = Ok (db', item) \<Longrightarrow> store_step db db'"
| st_fork: "fork_canonical_items_in_transaction refused exists_session new_id new_turn_item_id db source target =
    Ok (db', n, m) \<Longrightarrow> store_step db db'"
| st_import: "fork_shared_history_in_transaction refused exists_session new_id new_turn_item_id db source target history turns =
    Ok db' \<Longrightarrow> archive_fits history turns \<Longrightarrow> store_step db db'"
| st_context: "fork_agent_context_in_transaction refused exists_session new_id db source target expected recent_turns =
    Ok (db', n) \<Longrightarrow> store_step db db'"
| st_agents: "store_step db (db\<lparr>db_fences := fences, db_edges := edges, db_steer_inputs := steers\<rparr>)"

lemma tree_tables_inv:
  "db_inv (db\<lparr>db_fences := fences, db_edges := edges, db_steer_inputs := steers\<rparr>) = db_inv db"
  by (simp add: db_inv_def order_ok_def owned_def all_sources_def sequences_ok_def turn_sequence_numbers_def
        below_allocator_def payloads_ok_def cong: source_kind.case_cong)

lemma store_step_inv: "db_inv db \<Longrightarrow> store_step db db' \<Longrightarrow> db_inv db'"
proof -
  assume inv: "db_inv db"
  assume "store_step db db'"
  then show "db_inv db'"
  proof cases
    case (st_bundle refused e h t stored)
    then show ?thesis using bundle_inv [OF _ inv] by metis
  next
    case (st_mailbox refused s i c n)
    then show ?thesis using mailbox_inv [OF _ inv] by metis
  next
    case (st_mode refused i now s mode item)
    then show ?thesis using collaboration_mode_inv [OF _ inv] by metis
  next
    case (st_fork refused exists_session new_id new_turn_item_id source target n m)
    from fork_canonical_effects(1) [OF this inv] show ?thesis .
  next
    case (st_import refused exists_session new_id new_turn_item_id source target history turns)
    from fork_shared_effects(1) [OF this(1) inv this(2)] show ?thesis .
  next
    case (st_context refused exists_session new_id source target expected recent_turns n)
    from fork_agent_effects [OF this inv] show ?thesis by metis
  next
    case (st_agents fences edges steers)
    with inv show ?thesis by (simp only: tree_tables_inv)
  qed
qed

interpretation stores: invariant_machine "\<lambda>db. db = empty_protocol_db" store_step db_inv
  by unfold_locales (auto intro: db_inv_empty store_step_inv)

end
