(* ===== verification/Hydration.thy ===== *)
theory Hydration
  imports Log_Replay Protocol_Machine "HOL-Library.Code_Target_Nat"
begin

text \<open>
  The view that the store serves, and the context that is built from it, over reachable tables.
\<close>

section \<open>The statement and the replay\<close>

lemma map_pair_eq:
  "map f xs = map f' ys \<Longrightarrow> map g xs = map g' ys \<Longrightarrow>
   map (\<lambda>x. (f x, g x)) xs = map (\<lambda>y. (f' y, g' y)) ys"
proof (induction xs arbitrary: ys)
  case (Cons x xs)
  then show ?case by (cases ys) auto
qed simp

lemma history_row_ids:
  assumes "db_inv db"
  shows "map (\<lambda>r. (fst r, row_id r)) (history_rows db s) =
      map (\<lambda>a. (ap_position a, ap_source_id a)) (order_rows db HistorySource s)"
    and "distinct (map row_id (history_rows db s))"
proof -
  let ?rows = "history_rows db s" and ?order = "order_rows db HistorySource s"
  note own = rows_own_sources [OF assms, of HistorySource s]
  note eq = history_rows_eq [OF assms, of s]
  have "map row_id ?rows = map hi_id (map snd ?rows)" by simp
  then have ids: "map row_id ?rows = map ap_source_id ?order" using own(1) unfolding eq(1) by (simp add: source_ids_def)
  with own show "distinct (map row_id ?rows)" by simp
  have "map fst ?rows = map ap_position ?order" by (rule history_rows_eq(3) [OF assms])
  then show "map (\<lambda>r. (fst r, row_id r)) ?rows = map (\<lambda>a. (ap_position a, ap_source_id a)) ?order"
    using ids by (rule map_pair_eq)
qed

lemma set_hidden_ids: "set (hidden_ids (map snd rows)) = (\<Union>x \<in> set rows. set (replaced_ids x))"
proof -
  have "set (hidden_ids (map snd rows)) = (\<Union>p \<in> set (rows_graph rows). set (snd p))"
    by (simp add: hidden_ids_def rows_graph_def)
  also have "\<dots> = (\<Union>x \<in> set rows. set (replaced_ids x))"
    by (induction rows rule: rev_induct)
      (auto simp: rows_graph_snoc replaced_ids_def, simp add: rows_graph_def replacement_graph_def List.map_filter_def)
  finally show ?thesis .
qed

lemma active_rows_placed:
  assumes "db_inv db"
  shows "active_rows db s =
    map (\<lambda>r. (placed (history_rows db s) r, r))
      (filter (\<lambda>r. \<not> withdrawn db s r \<and> (\<forall>x \<in> set (history_rows db s). row_id r \<notin> set (replaced_ids x)))
        (history_rows db s))"
  unfolding active_rows_def Let_def history_rows_eq(1) [OF assms, symmetric] set_hidden_ids
    placed_def rows_graph_def history_row_ids(1) [OF assms]
  by (simp add: UN_iff)

text \<open>A list that is sorted already is what sorting any other list of its rows gives.\<close>

lemma sort_key_unique:
  fixes key :: "'a \<Rightarrow> 'b::linorder"
  assumes "sorted_wrt (<) (map key ys)" and "set xs = set ys" and "distinct xs"
  shows "sort_key key xs = ys"
proof -
  have "distinct (map key ys)" "sorted (map key ys)" using assms(1) by (simp_all add: strict_sorted_iff)
  then have inj: "inj_on key (set ys)" and "distinct ys" by (simp_all add: distinct_map)
  then have "distinct (map key (sort_key key xs))" using assms(2,3) by (simp add: distinct_map)
  then have "map key (sort_key key xs) = map key ys"
    using \<open>distinct (map key ys)\<close> \<open>sorted (map key ys)\<close> assms(2) by (intro sorted_distinct_set_unique) simp_all
  with inj assms(2) show ?thesis by (intro map_inj_on [of key]) simp_all
qed

lemma active_view_eq:
  assumes "db_inv db" and "replaces_active (filter (\<lambda>h. hi_session_id h = s) (db_history db))"
  shows "active_view db s = map snd (filter (\<lambda>r. \<not> withdrawn db s r) (replay (history_rows db s)))"
proof -
  let ?rows = "history_rows db s" and ?kept = "\<lambda>r. \<not> withdrawn db s r"
  let ?placed = "\<lambda>r. (placed ?rows r, r)"
  note eq = history_rows_eq [OF assms(1), of s]
  have wf: "well_replaced ?rows"
    using eq(1,2) history_row_ids(2) [OF assms(1)] assms(2) by (simp add: well_replaced_def)
  have ok: "replay_ok ?rows" using wf by (rule replay_ok_all)
  let ?view = "map ?placed (filter ?kept (replay ?rows))"
  have "sorted_wrt (<) (map (placed ?rows) (filter ?kept (replay ?rows)))"
    using ok by (simp add: replay_ok_def sorted_wrt_map sorted_wrt_filter)
  then have "sorted_wrt (<) (map row_cursor ?view)"
    by (simp add: sorted_wrt_map row_cursor_def sorted_wrt_mono_rel [rotated])
  moreover have "set (active_rows db s) = set ?view"
    unfolding active_rows_placed [OF assms(1)] using ok by (auto simp: replay_ok_def)
  moreover have "distinct (active_rows db s)"
    using active_rows_facts(1) [OF assms(1), of s] by (simp add: distinct_map)
  ultimately have "in_view_order (active_rows db s) = ?view"
    unfolding in_view_order_def by (rule sort_key_unique)
  then show ?thesis by (simp add: active_view_def o_def)
qed

lemma hydrate_eq:
  assumes "db_inv db"
  shows "hydrate_context_manager env db s True =
    Ok (from_active_history env (active_view db s) (max_append_position db s) (length (source_ids db HistorySource s)))"
proof -
  let ?visitor = "\<lambda>b page. Ok (ingest_page b (hp_items page))"
  have "visit_chunks MAX_PROTOCOL_PAGE_LIMIT ?visitor active_history_builder (active_view db s) =
      Ok (ingest_page active_history_builder (active_view db s))"
    by (rule visit_chunks_collect) (simp_all add: MAX_PROTOCOL_PAGE_LIMIT_def ingest_page_def)
  then have "visit_active_history_pages_for_session db s MAX_PROTOCOL_PAGE_LIMIT ?visitor active_history_builder =
      Ok (ingest_page active_history_builder (active_view db s), view_snapshot db s)"
    by (subst visit_active_history_eq [OF assms]) (simp_all add: MAX_PROTOCOL_PAGE_LIMIT_def)
  then show ?thesis
    by (simp add: hydrate_context_manager_def builder_finish_def ingest_page_def active_history_builder_def
          view_snapshot_def)
qed

section \<open>A stored session\<close>

text \<open>Bundles written one after the other, and a session with a compaction in it.\<close>

fun write_bundles ::
  "protocol_db \<Rightarrow> (runtime_event \<times> history_item option \<times> turn_item option) list \<Rightarrow> (protocol_db, storage_error) result" where
  "write_bundles db [] = Ok db"
| "write_bundles db ((e, h, t) # bundles) =
     and_then (insert_event_bundle_unchecked (\<lambda>_. False) db e h t) (\<lambda>(db', _). write_bundles db' bundles)"

lemma write_bundles_steps: "write_bundles db bundles = Ok db' \<Longrightarrow> store_step\<^sup>*\<^sup>* db db'"
proof (induction db bundles rule: write_bundles.induct)
  case (2 db e h t bundles)
  from 2(2) obtain db1 stored where
    "insert_event_bundle_unchecked (\<lambda>_. False) db e h t = Ok (db1, stored)" "write_bundles db1 bundles = Ok db'"
    by (auto simp: and_then_Ok_iff)
  then have "store_step db db1" "store_step\<^sup>*\<^sup>* db1 db'" using 2(1) by (auto intro: st_bundle)
  then show ?case by (rule converse_rtranclp_into_rtranclp)
qed simp

definition stored_demo_event :: "nat \<Rightarrow> runtime_event_msg \<Rightarrow> runtime_event" where
  "stored_demo_event i msg =
     \<lparr>re_id = i, re_session_id = 0, re_turn_id = 0, re_sequence_no = 0, re_created_at_ms = 0, re_msg = msg\<rparr>"

definition stored_demo :: "(runtime_event \<times> history_item option \<times> turn_item option) list" where
  "stored_demo =
     [(stored_demo_event 11 (MsgWarning []), Some (demo_item 1 (UserTurn [] None None)), None),
      (stored_demo_event 12 (MsgWarning []), Some (demo_item 2 (AssistantMessage 5 [])), None),
      (stored_demo_event 13 (MsgWarning []), Some (demo_item 3 (AssistantMessage 6 [])), None),
      (stored_demo_event 14 (MsgWarning []),
         Some (demo_item 4 (Compaction Automatic LegacyPrefix [] None [] [1, 2, 99])), None)]"

definition demo_db :: protocol_db where
  "demo_db = (case write_bundles empty_protocol_db stored_demo of Inl _ \<Rightarrow> empty_protocol_db | Inr db \<Rightarrow> db)"

lemma demo_db_reachable: "store_step\<^sup>*\<^sup>* empty_protocol_db demo_db"
  using write_bundles_steps by (auto simp: demo_db_def split: sum.split)

section \<open>Properties\<close>

text \<open>
  C37. Writing a bundle. Whatever was stored before, a bundle that is accepted is appended to the
  tables with one sequence number shared by the event, its history item and its turn item; the
  number is at least the requested one, above every number stored for the turn, and fits 64 bits. The
  order of appends gains exactly the rows of the bundle, after all others, so that the ownership check that
  precedes every page succeeds, and the runtime events of a turn keep different numbers.
\<close>

theorem bundles_get_fresh_sequence_numbers:
  assumes "store_step\<^sup>*\<^sup>* empty_protocol_db db"
    and "insert_event_bundle_unchecked refused db e h t = Ok (db', stored)"
  shows "(let n = re_sequence_no (sb_runtime_event stored) in
      bundle_added db db' e h t n \<and> sb_runtime_event stored = e\<lparr>re_sequence_no := n\<rparr> \<and>
      max 0 (re_sequence_no e) \<le> n \<and> n < 2 ^ 63 - 1 \<and>
      (\<forall>m \<in> set (turn_sequence_numbers db (re_session_id e) (re_turn_id e)). m < n)) \<and>
    distinct (map (\<lambda>e. (re_session_id e, re_turn_id e, re_sequence_no e)) (db_events db')) \<and>
    (\<forall>s. \<forall>kind \<in> {EventSource, HistorySource, TurnSource}.
       protocol_source_count db' s kind = Ok (length (source_ids db' kind s)))"
proof -
  have inv: "db_inv db" using assms(1) by (rule stores.reachable_invar [OF refl])
  from assms(2) inv obtain n where n: "db_inv db'" "bundle_added db db' e h t n"
    "stored = \<lparr>sb_runtime_event = e\<lparr>re_sequence_no := n\<rparr>,
       sb_history_item = map_option (\<lambda>h. h\<lparr>hi_sequence_no := n\<rparr>) h\<rparr>"
    "re_sequence_no e \<le> n" "0 \<le> n" "n < I64_MAX"
    "\<And>m. m \<in> set (turn_sequence_numbers db (re_session_id e) (re_turn_id e)) \<Longrightarrow> m < n"
    by (rule bundle_inv) blast
  moreover have "distinct (map (\<lambda>e. (re_session_id e, re_turn_id e, re_sequence_no e)) (db_events db'))"
    using n(1) by (simp add: db_inv_def sequences_ok_def)
  moreover have "protocol_source_count db' s kind = Ok (length (source_ids db' kind s))"
    if "kind \<in> {EventSource, HistorySource, TurnSource}" for s kind
    using that by (intro source_count_Ok [OF n(1)]) auto
  ultimately show ?thesis by (simp add: Let_def I64_MAX_def)
qed

theorem bundles_get_fresh_sequence_numbers_witness:
  "(\<exists>db' stored. insert_event_bundle_unchecked (\<lambda>_. False) demo_db (stored_demo_event 20 (MsgWarning [])) None None =
       Ok (db', stored) \<and>
     re_sequence_no (sb_runtime_event stored) = 4 \<and>
     (\<forall>m \<in> set (turn_sequence_numbers demo_db 0 0). m < re_sequence_no (sb_runtime_event stored)))"
proof -
  let ?r = "insert_event_bundle_unchecked (\<lambda>_. False) demo_db (stored_demo_event 20 (MsgWarning [])) None None"
  have "(case ?r of Inl _ \<Rightarrow> False | Inr (db', stored) \<Rightarrow> re_sequence_no (sb_runtime_event stored) = 4)"
    by code_simp
  then obtain db' stored where r: "?r = Ok (db', stored)" "re_sequence_no (sb_runtime_event stored) = 4"
    by (auto split: sum.splits)
  from bundles_get_fresh_sequence_numbers [OF demo_db_reachable r(1)] r show ?thesis
    by (auto simp: Let_def stored_demo_event_def)
qed

text \<open>
  C36. Serving a history. On reachable tables the keyset loop over the temporary table gives any visitor
  the active view of the session in consecutive chunks of the page limit: every item once, in the order
  of the view, the flag for more set on all pages but the last, and then the snapshot of the view. No page is
  lost or repeated, and the only errors are those of the visitor.
\<close>

theorem history_pages_are_chunks_of_the_view:
  assumes "store_step\<^sup>*\<^sup>* empty_protocol_db db" and "0 < limit" and "limit \<le> 200"
  shows "visit_active_history_pages_for_session db s limit visitor v =
    and_then (visit_chunks limit visitor v (active_view db s)) (\<lambda>v'. Ok (v', view_snapshot db s))"
  using visit_active_history_eq [OF stores.reachable_invar [OF refl assms(1)] assms(2)] assms(3)
  by (simp add: MAX_PROTOCOL_PAGE_LIMIT_def)

theorem history_pages_are_chunks_of_the_view_witness:
  "visit_active_history_pages_for_session demo_db 0 1
     (\<lambda>v page. Ok (v @ [(map hi_id (hp_items page), hp_has_more page)])) [] =
   Ok ([([4], True), ([3], False)], view_snapshot demo_db 0)"
proof -
  have "visit_chunks 1 (\<lambda>v page. Ok (v @ [(map hi_id (hp_items page), hp_has_more page)])) []
      (active_view demo_db 0) = Ok [([4], True), ([3], False)]" by code_simp
  then show ?thesis
    using history_pages_are_chunks_of_the_view [OF demo_db_reachable, of 1 0
        "\<lambda>v page. Ok (v @ [(map hi_id (hp_items page), hp_has_more page)])" "[]"] by simp
qed



end
