(* ===== verification/Recording_Props.thy ===== *)
theory Recording_Props
  imports Event_Recording Hydration
begin

text \<open>
  What observers of a run are told: the committed events of the turn, each once, in the order of their
  sequence numbers, whatever other writers do meanwhile, and all that was committed so far whenever the sink
  returns. The store is used through the locale \<open>event_log\<close>, a log that only grows.
\<close>

declare project_loop.simps [simp del] publish_committed_loop.simps [simp del]

section \<open>Growing logs\<close>

definition marker_of :: "runtime_event list \<Rightarrow> int option" where
  "marker_of events = (if events = [] then None else Some (re_sequence_no (last events)))"

definition after_marker :: "int option \<Rightarrow> runtime_event list \<Rightarrow> runtime_event list" where
  "after_marker m events = filter (\<lambda>e. case m of None \<Rightarrow> True | Some n \<Rightarrow> n < re_sequence_no e) events"

abbreviation increasing_events :: "runtime_event list \<Rightarrow> bool" where
  "increasing_events events \<equiv> sorted_wrt (<) (map re_sequence_no events)"

lemma after_marker_prefix: "increasing_events (seen @ rest) \<Longrightarrow> after_marker (marker_of seen) (seen @ rest) = rest"
  using after_prefix [of re_sequence_no seen rest]
  by (cases "seen = []") (simp_all add: after_marker_def marker_of_def)

locale event_log =
  fixes log :: "'s \<Rightarrow> runtime_event list" and step :: "'s \<Rightarrow> 's \<Rightarrow> bool" and ok :: "'s \<Rightarrow> bool"
  assumes ok_step: "ok s \<Longrightarrow> step s t \<Longrightarrow> ok t"
    and increasing: "ok s \<Longrightarrow> increasing_events (log s)"
    and grows: "ok s \<Longrightarrow> step s t \<Longrightarrow> prefix (log s) (log t)"
begin

lemma seen_stays_seen: "ok s \<Longrightarrow> step s t \<Longrightarrow> prefix seen (log s) \<Longrightarrow> prefix seen (log t)"
  using grows prefix_order.trans by blast

lemma unseen:
  assumes "ok s" and "prefix seen (log s)"
  obtains rest where "log s = seen @ rest" and "after_marker (marker_of seen) (log s) = rest"
    and "sort_key re_sequence_no rest = rest" and "increasing_events (seen @ rest)"
proof -
  from assms(2) obtain rest where rest: "log s = seen @ rest" by (auto elim: prefixE)
  with increasing [OF assms(1)] have inc: "increasing_events (seen @ rest)" by simp
  then have "sorted (map re_sequence_no rest)" by (simp add: sorted_wrt_append strict_sorted_imp_sorted)
  then have "sort_key re_sequence_no rest = rest" by (rule sort_key_id_if_sorted)
  with that rest inc after_marker_prefix [OF inc] show ?thesis by simp
qed

end

section \<open>The log of a turn\<close>

definition turn_events :: "session_id \<Rightarrow> turn_id \<Rightarrow> protocol_db \<Rightarrow> runtime_event list" where
  "turn_events s t db = filter (\<lambda>e. re_session_id e = s \<and> re_turn_id e = t) (db_events db)"

definition log_ok :: "protocol_db \<Rightarrow> bool" where
  "log_ok db \<longleftrightarrow> db_inv db \<and> (\<forall>s t. increasing_events (turn_events s t db))"

lemma events_after_turn: "events_after db s t m = after_marker m (turn_events s t db)"
  by (simp add: events_after_def after_marker_def turn_events_def conj_assoc)

lemma store_step_events:
  assumes "store_step db db'" and "db_inv db"
  shows "db_events db' = db_events db \<or>
    (\<exists>e. db_events db' = db_events db @ [e] \<and>
       (\<forall>x \<in> set (turn_events (re_session_id e) (re_turn_id e) db). re_sequence_no x < re_sequence_no e))"
  using assms(1)
proof cases
  case (st_bundle refused e h t stored)
  from st_bundle assms(2) obtain n where "bundle_added db db' e h t n"
    and fresh: "\<And>m. m \<in> set (turn_sequence_numbers db (re_session_id e) (re_turn_id e)) \<Longrightarrow> m < n"
    by (rule bundle_inv) blast
  then have ev: "db_events db' = db_events db @ [e\<lparr>re_sequence_no := n\<rparr>]" by (simp add: bundle_added_def)
  moreover have "re_sequence_no x < n" if "x \<in> set (turn_events (re_session_id e) (re_turn_id e) db)" for x
    using that by (intro fresh) (simp add: turn_sequence_numbers_def turn_events_def)
  ultimately show ?thesis by (intro disjI2 exI [of _ "e\<lparr>re_sequence_no := n\<rparr>"]) simp
next
  case (st_mailbox refused s i c n)
  then show ?thesis
    by (auto simp: insert_mailbox_append_order_in_transaction_def Let_def split: if_splits)
next
  case (st_mode refused i now s mode item)
  then consider "db' = db" | h where "insert_history_item refused db h = Ok db'"
    by (auto simp: set_collaboration_mode_def and_then_Ok_iff Let_def split: if_splits)
  then show ?thesis
    by cases (auto simp: insert_history_item_def insert_protocol_append_order_def Let_def
        split: sum.splits if_splits)
next
  case (st_fork refused exists_session new_id new_turn_item_id source target n m)
  from fork_canonical_effects(3) [OF this assms(2)] show ?thesis by (simp add: copied_def)
next
  case (st_import refused exists_session new_id new_turn_item_id source target history turns)
  from fork_shared_effects(2) [OF this(1) assms(2) this(2)] show ?thesis by (simp add: copied_def)
next
  case (st_context refused exists_session new_id source target expected recent_turns n)
  from fork_agent_effects [OF this assms(2)] show ?thesis by (auto simp: copied_def)
next
  case st_agents
  then show ?thesis by simp
qed

lemma turn_events_snoc:
  "db_events db' = db_events db @ [e] \<Longrightarrow>
   turn_events s t db' = turn_events s t db @ (if re_session_id e = s \<and> re_turn_id e = t then [e] else [])"
  by (simp add: turn_events_def)

lemma log_ok_step: "log_ok db \<Longrightarrow> store_step db db' \<Longrightarrow> log_ok db'"
proof -
  assume ok: "log_ok db" and step: "store_step db db'"
  have "increasing_events (turn_events s t db')" for s t
    using store_step_events [OF step] ok
    by (auto simp: log_ok_def turn_events_snoc sorted_wrt_append) (simp add: turn_events_def)
  moreover have "db_inv db'" using ok step by (auto simp: log_ok_def intro: store_step_inv)
  ultimately show "log_ok db'" by (simp add: log_ok_def)
qed

interpretation turn_log: event_log "turn_events s t" store_step log_ok for s t
proof
  fix db db'
  assume ok: "log_ok db" and step: "store_step db db'"
  show "log_ok db'" by (rule log_ok_step [OF ok step])
  show "prefix (turn_events s t db) (turn_events s t db')"
    using store_step_events [OF step] ok by (auto simp: log_ok_def turn_events_snoc) (simp add: turn_events_def)
qed (simp add: log_ok_def)

lemma log_ok_empty: "log_ok empty_protocol_db"
  using db_inv_empty by (simp add: log_ok_def turn_events_def) (simp add: empty_protocol_db_def)

lemma log_ok_reachable: "store_step\<^sup>*\<^sup>* empty_protocol_db db \<Longrightarrow> log_ok db"
  by (induction rule: rtranclp_induct) (auto intro: log_ok_step log_ok_empty)

section \<open>Publishing\<close>

definition terminals :: "runtime_event list \<Rightarrow> runtime_event list" where
  "terminals events = filter (\<lambda>e. is_terminal_msg (re_msg e)) events"

lemma project_event_effects:
  "fo_published (fst (project_event harness fo e)) = fo_published fo @ [e]"
  "fo_terminals (fst (project_event harness fo e)) = fo_terminals fo @ terminals [e]"
  "pr_event_count (snd (project_event harness fo e)) = 1"
  by (simp_all add: project_event_def publish_to_hub_def terminals_def Let_def split_beta)

text \<open>The parts of a sink that publishing does not touch.\<close>

definition same_sink :: "'i recording_sink \<Rightarrow> 'i recording_sink \<Rightarrow> bool" where
  "same_sink a b \<longleftrightarrow>
     rs_fallback_session_id a = rs_fallback_session_id b \<and> rs_turn_id a = rs_turn_id b \<and>
     rs_admission_id a = rs_admission_id b \<and> rs_has_publisher a = rs_has_publisher b \<and>
     rs_has_projector a = rs_has_projector b"

lemma same_sink_refl [simp]: "same_sink a a"
  by (simp add: same_sink_def)

lemma same_sink_trans: "same_sink a b \<Longrightarrow> same_sink b c \<Longrightarrow> same_sink a c"
  by (simp add: same_sink_def)

definition told :: "'i recording_sink \<Rightarrow> fan_out \<Rightarrow> fan_out \<Rightarrow> runtime_event list \<Rightarrow> bool" where
  "told sink fo fo' events \<longleftrightarrow>
     fo_published fo' = fo_published fo @ events \<and>
     fo_terminals fo' = fo_terminals fo @ (if rs_has_projector sink then terminals events else [])"

lemma told_trans:
  "told sink fo fo1 xs \<Longrightarrow> told sink1 fo1 fo2 ys \<Longrightarrow> same_sink sink sink1 \<Longrightarrow> told sink fo fo2 (xs @ ys)"
  by (auto simp: told_def same_sink_def terminals_def)

lemma publish_event_effects:
  assumes "publish_committed_event harness sink fo e = (sink', fo')"
    and "\<And>m. rs_published_runtime_sequence_no sink = Some m \<Longrightarrow> m < re_sequence_no e"
  shows "same_sink sink sink'" and "told sink fo fo' [e]"
    and "rs_published_runtime_sequence_no sink' = Some (re_sequence_no e)" and "rs_inner sink' = rs_inner sink"
    and "rs_committed_terminal_fanout_attempted sink' = rs_committed_terminal_fanout_attempted sink"
  using assms project_event_effects [of harness fo e]
  by (auto simp: publish_committed_event_def Let_def same_sink_def told_def publish_to_hub_def split_beta
        max_def split: option.splits dest: less_imp_le)

lemma publish_page_effects:
  assumes "increasing_events (seen @ page)" and "rs_published_runtime_sequence_no sink = marker_of seen"
  shows "same_sink sink (fst (publish_committed_page harness sink fo page)) \<and>
    told sink fo (snd (publish_committed_page harness sink fo page)) page \<and>
    rs_published_runtime_sequence_no (fst (publish_committed_page harness sink fo page)) = marker_of (seen @ page)"
  using assms
proof (induction page arbitrary: seen sink fo)
  case Nil
  then show ?case by (simp add: told_def terminals_def)
next
  case (Cons e page)
  obtain sink1 fo1 where ev: "publish_committed_event harness sink fo e = (sink1, fo1)" by fastforce
  have "m < re_sequence_no e" if "rs_published_runtime_sequence_no sink = Some m" for m
    using that Cons.prems by (auto simp: marker_of_def sorted_wrt_append split: if_splits)
  note step = publish_event_effects [OF ev this]
  have "rs_published_runtime_sequence_no sink1 = marker_of (seen @ [e])" using step(3) by (simp add: marker_of_def)
  from Cons.IH [OF _ this, of fo1] Cons.prems(1) step(1,2) ev show ?case
    using told_trans [of sink fo fo1 "[e]" sink1] same_sink_trans [of sink sink1] by simp
qed

lemma publish_loop_effects:
  assumes "log_ok db" and "turn_events s (rs_turn_id sink) db = seen @ rest"
    and "rs_published_runtime_sequence_no sink = marker_of seen"
  shows "\<exists>sink' fo'. publish_committed_loop harness db s sink fo = (sink', fo', Ok ()) \<and>
    same_sink sink sink' \<and> told sink fo fo' rest \<and>
    rs_published_runtime_sequence_no sink' = marker_of (seen @ rest)"
  using assms(2,3)
proof (induction rest arbitrary: seen sink fo rule: length_induct)
  case (1 rest)
  have inc: "increasing_events (seen @ rest)"
    using turn_log.increasing [OF assms(1), of s "rs_turn_id sink"] 1(2) by simp
  have "prefix seen (turn_events s (rs_turn_id sink) db)" using 1(2) by simp
  from turn_log.unseen [OF assms(1) this] 1(2) have
    "after_marker (marker_of seen) (turn_events s (rs_turn_id sink) db) = rest" "sort_key re_sequence_no rest = rest"
    by auto
  then have page: "runtime_event_page_for_turn_after_sequence db s (rs_turn_id sink)
      (rs_published_runtime_sequence_no sink) MAX_PROTOCOL_PAGE_LIMIT = Ok (take 200 rest)"
    by (simp add: runtime_event_page_for_turn_after_sequence_def MAX_PROTOCOL_PAGE_LIMIT_def 1(3)
          flip: events_after_turn) (simp add: events_after_def)
  show ?case
  proof (cases "rest = []")
    case True
    with 1(3) page show ?thesis
      by (subst publish_committed_loop.simps) (simp add: told_def terminals_def)
  next
    case False
    obtain sink1 fo1 where pg: "publish_committed_page harness sink fo (take 200 rest) = (sink1, fo1)" by fastforce
    have inc': "increasing_events (seen @ take 200 rest)"
      using inc sorted_wrt_take [of "(<)" "map re_sequence_no (seen @ rest)" "length seen + 200"] by (simp add: take_map)
    from publish_page_effects [OF inc' 1(3), of harness fo] pg have
      eff: "same_sink sink sink1" "told sink fo fo1 (take 200 rest)"
      "rs_published_runtime_sequence_no sink1 = marker_of (seen @ take 200 rest)" by simp_all
    show ?thesis
    proof (cases "length rest < 200")
      case True
      with eff pg page False show ?thesis
        by (subst publish_committed_loop.simps) (simp add: MAX_PROTOCOL_PAGE_LIMIT_def)
    next
      case long: False
      have loop: "publish_committed_loop harness db s sink fo = publish_committed_loop harness db s sink1 fo1"
        using pg page False long
        by (subst publish_committed_loop.simps) (simp add: MAX_PROTOCOL_PAGE_LIMIT_def)
      have "turn_events s (rs_turn_id sink1) db = (seen @ take 200 rest) @ drop 200 rest"
        using 1(2) eff(1) by (simp add: same_sink_def)
      from 1(1) [rule_format, OF _ this eff(3), of fo1] False obtain sink2 fo2 where
        "publish_committed_loop harness db s sink1 fo1 = (sink2, fo2, Ok ())" "same_sink sink1 sink2"
        "told sink1 fo1 fo2 (drop 200 rest)"
        "rs_published_runtime_sequence_no sink2 = marker_of ((seen @ take 200 rest) @ drop 200 rest)" by auto
      with loop eff told_trans [OF eff(2) _ eff(1), of fo2 "drop 200 rest"] same_sink_trans [OF eff(1)]
      show ?thesis by auto
    qed
  qed
qed

section \<open>The machine\<close>

record 'i recording_world =
  rw_db :: protocol_db
  rw_sink :: "'i recording_sink"
  rw_fan :: fan_out

text \<open>The log a sink publishes.\<close>

definition sink_log :: "protocol_db \<Rightarrow> 'i recording_sink \<Rightarrow> runtime_event list" where
  "sink_log db sink =
     (case rs_fallback_session_id sink of
        Some s \<Rightarrow> if rs_has_publisher sink then turn_events s (rs_turn_id sink) db else []
      | None \<Rightarrow> [])"

definition recording_init :: "'i recording_world \<Rightarrow> bool" where
  "recording_init w \<longleftrightarrow>
     store_step\<^sup>*\<^sup>* empty_protocol_db (rw_db w) \<and>
     (\<exists>fallback turn inner admission publisher projector.
        rw_sink w = (new_recording_sink fallback turn inner)\<lparr>rs_admission_id := admission,
          rs_has_publisher := publisher, rs_has_projector := projector\<rparr>) \<and>
     fo_published (rw_fan w) = [] \<and> fo_terminals (rw_fan w) = []"

text \<open>The operations of the sink, other writers of the store, and other publishers of the hub.\<close>

inductive recording_step :: "'i recording_world \<Rightarrow> 'i recording_world \<Rightarrow> bool" where
  rc_emit: "emit read_plan fv refused ownership harness inner (rw_db w) (rw_sink w) (rw_fan w) event =
      Some (db', sink', fo', r) \<Longrightarrow> recording_step w \<lparr>rw_db = db', rw_sink = sink', rw_fan = fo'\<rparr>"
| rc_committed: "emit_committed harness inner (rw_db w) (rw_sink w) (rw_fan w) event = (sink', fo', r) \<Longrightarrow>
    recording_step w (w\<lparr>rw_sink := sink', rw_fan := fo'\<rparr>)"
| rc_runtime_only: "emit_runtime_only inner (rw_sink w) event = (sink', r) \<Longrightarrow>
    recording_step w (w\<lparr>rw_sink := sink'\<rparr>)"
| rc_reserve: "reserve_sequence_no (rw_db w) (rw_sink w) = Some (sink', n) \<Longrightarrow>
    recording_step w (w\<lparr>rw_sink := sink'\<rparr>)"
| rc_store: "store_step (rw_db w) db' \<Longrightarrow> recording_step w (w\<lparr>rw_db := db'\<rparr>)"
| rc_hub: "recording_step w (w\<lparr>rw_fan := (rw_fan w)\<lparr>fo_hub := hub\<rparr>\<rparr>)"

definition told_so_far :: "protocol_db \<Rightarrow> 'i recording_sink \<Rightarrow> fan_out \<Rightarrow> bool" where
  "told_so_far db sink fo \<longleftrightarrow>
     prefix (fo_published fo) (sink_log db sink) \<and>
     rs_published_runtime_sequence_no sink = marker_of (fo_published fo) \<and>
     fo_terminals fo = (if rs_has_projector sink then terminals (fo_published fo) else [])"

definition recording_inv :: "'i recording_world \<Rightarrow> bool" where
  "recording_inv w \<longleftrightarrow> log_ok (rw_db w) \<and> told_so_far (rw_db w) (rw_sink w) (rw_fan w)"

lemma sink_log_same: "same_sink a b \<Longrightarrow> sink_log db a = sink_log db b"
  by (simp add: sink_log_def same_sink_def split: option.split)

lemma told_so_far_same:
  "told_so_far db a fo \<Longrightarrow> same_sink a b \<Longrightarrow>
   rs_published_runtime_sequence_no b = rs_published_runtime_sequence_no a \<Longrightarrow> told_so_far db b fo"
  using sink_log_same [of a b] by (simp add: told_so_far_def same_sink_def)

lemma sink_log_step: "log_ok db \<Longrightarrow> store_step db db' \<Longrightarrow> prefix (sink_log db sink) (sink_log db' sink)"
  using turn_log.grows by (auto simp: sink_log_def split: option.split)

lemma told_so_far_step: "log_ok db \<Longrightarrow> store_step db db' \<Longrightarrow> told_so_far db sink fo \<Longrightarrow> told_so_far db' sink fo"
  using sink_log_step [of db db' sink] prefix_order.trans by (auto simp: told_so_far_def)

text \<open>Publishing catches up with the log.\<close>

lemma publish_catches_up:
  assumes "log_ok db" and "told_so_far db sink fo"
  obtains sink' fo' where "publish_committed_runtime_events harness db sink fo = (sink', fo', Ok ())"
    and "same_sink sink sink'" and "told_so_far db sink' fo'" and "fo_published fo' = sink_log db sink'"
proof (cases "rs_fallback_session_id sink \<noteq> None \<and> rs_has_publisher sink")
  case False
  then have "sink_log db sink = []" by (auto simp: sink_log_def split: option.splits)
  with assms(2) have "fo_published fo = sink_log db sink" by (simp add: told_so_far_def)
  moreover have "publish_committed_runtime_events harness db sink fo = (sink, fo, Ok ())"
    using False by (auto simp: publish_committed_runtime_events_def split: option.splits)
  ultimately show ?thesis using assms(2) by (intro that) simp_all
next
  case True
  then obtain s where s: "rs_fallback_session_id sink = Some s" "rs_has_publisher sink" by auto
  then have log: "sink_log db sink = turn_events s (rs_turn_id sink) db" by (simp add: sink_log_def)
  with assms(2) obtain rest where rest: "turn_events s (rs_turn_id sink) db = fo_published fo @ rest"
    by (auto simp: told_so_far_def elim: prefixE)
  from publish_loop_effects [OF assms(1) rest, of harness fo] assms(2) obtain sink' fo' where
    eff: "publish_committed_loop harness db s sink fo = (sink', fo', Ok ())" "same_sink sink sink'"
    "told sink fo fo' rest" "rs_published_runtime_sequence_no sink' = marker_of (fo_published fo @ rest)"
    by (auto simp: told_so_far_def)
  then have "fo_published fo' = sink_log db sink'"
    using rest log sink_log_same [OF eff(2), of db] by (simp add: told_def)
  moreover from this have "told_so_far db sink' fo'" using eff(2-4) assms(2)
    by (auto simp: told_so_far_def told_def same_sink_def terminals_def)
  ultimately show ?thesis using eff(1,2) s
    by (intro that [of sink' fo']) (simp_all add: publish_committed_runtime_events_def)
qed

lemma to_inner_same: "to_inner f sink event = (sink', r) \<Longrightarrow>
    same_sink sink sink' \<and> rs_published_runtime_sequence_no sink' = rs_published_runtime_sequence_no sink"
  by (auto simp: to_inner_def same_sink_def split: prod.splits)

lemma sync_same: "same_sink sink (sync_next_sequence_no_from_store db sink) \<and>
    rs_published_runtime_sequence_no (sync_next_sequence_no_from_store db sink) =
      rs_published_runtime_sequence_no sink"
  by (auto simp: sync_next_sequence_no_from_store_def same_sink_def split: option.split)

lemma told_inner:
  "to_inner f sink event = (sink', r) \<Longrightarrow> told_so_far db sink fo \<Longrightarrow>
   told_so_far db sink' fo \<and> sink_log db sink' = sink_log db sink"
  using to_inner_same told_so_far_same sink_log_same by metis

lemma append_for_sink_step:
  "append_for_sink refused db ownership sink p = Ok (db', stored) \<Longrightarrow> store_step db db'"
  by (auto simp: append_for_sink_def append_admitted_recording_projection_allocating_def and_then_Ok_iff
        append_recording_projection_allocating_def split: option.splits sum.splits if_splits intro: st_bundle)

section \<open>The operations\<close>

lemma emit_committed_told:
  assumes "log_ok db" and "told_so_far db sink fo"
    and "emit_committed harness inner db sink fo event = (sink', fo', r)"
  shows "told_so_far db sink' fo'" and "durability event = Committed \<Longrightarrow> fo_published fo' = sink_log db sink'"
proof -
  have "told_so_far db sink' fo' \<and> (durability event = Committed \<longrightarrow> fo_published fo' = sink_log db sink')"
  proof (cases "durability event = Committed")
    case False
    with assms(2,3) show ?thesis by (simp add: emit_committed_def validate_run_event_durability_def)
  next
    case committed: True
    show ?thesis
    proof (cases "is_turn_terminal event")
      case True
      let ?sink = "sink\<lparr>rs_committed_terminal_fanout_attempted := True\<rparr>"
      obtain sink1 r1 where inner: "to_inner (in_emit_committed inner) ?sink event = (sink1, r1)" by fastforce
      have "told_so_far db ?sink fo" by (rule told_so_far_same [OF assms(2)]) (simp_all add: same_sink_def)
      then have "told_so_far db sink1 fo" using told_inner [OF inner] by blast
      from publish_catches_up [OF assms(1) this, of harness] obtain sink2 fo2 where
        "publish_committed_runtime_events harness db sink1 fo = (sink2, fo2, Ok ())" "told_so_far db sink2 fo2"
        "fo_published fo2 = sink_log db sink2" .
      with assms(3) committed True inner show ?thesis
        by (simp add: emit_committed_def validate_run_event_durability_def)
    next
      case False
      from publish_catches_up [OF assms(1,2), of harness] obtain sink1 fo1 where
        pub: "publish_committed_runtime_events harness db sink fo = (sink1, fo1, Ok ())" "told_so_far db sink1 fo1"
        "fo_published fo1 = sink_log db sink1" .
      obtain sink2 r2 where inner: "to_inner (in_emit_committed inner) sink1 event = (sink2, r2)" by fastforce
      from told_inner [OF inner pub(2)] pub assms(3) committed False inner show ?thesis
        by (simp add: emit_committed_def validate_run_event_durability_def)
    qed
  qed
  then show "told_so_far db sink' fo'" "durability event = Committed \<Longrightarrow> fo_published fo' = sink_log db sink'"
    by simp_all
qed

lemma projection_defined:
  "project_protocol_run_event read_plan fv event fallback turn n \<noteq> None"
  using committed_events_have_a_message [of event]
  by (cases "durability event") (auto simp: project_protocol_run_event_def Let_def split: option.splits)

lemma runtime_only_or_committed:
  "project_protocol_run_event read_plan fv event (Some s) turn n = Some None \<Longrightarrow> durability event = RuntimeOnly"
  by (auto simp: project_protocol_run_event_def Let_def split: if_splits option.splits)

lemma emit_told:
  assumes "log_ok db" and "told_so_far db sink fo"
    and "emit read_plan fv refused ownership harness inner db sink fo event = Some (db', sink', fo', r)"
  shows "log_ok db' \<and> told_so_far db' sink' fo' \<and>
    (durability event = Committed \<and> r = Ok () \<longrightarrow> fo_published fo' = sink_log db' sink')"
proof -
  let ?sink = "sync_next_sequence_no_from_store db sink"
  have told0: "told_so_far db ?sink fo" using told_so_far_same [OF assms(2)] sync_same [of sink db] by blast
  from assms(3) obtain projection where proj: "project_protocol_run_event read_plan fv event
      (rs_fallback_session_id ?sink) (rs_turn_id ?sink) (rs_next_sequence_no ?sink) = Some projection"
    by (auto simp: emit_def Let_def)
  show ?thesis
  proof (cases projection)
    case None
    obtain sink1 r1 where inner: "to_inner (in_emit inner) ?sink event = (sink1, r1)" by fastforce
    with assms(3) proj None have out: "db' = db" "sink' = sink1" "fo' = fo" by (auto simp: emit_def Let_def)
    note told1 = told_inner [OF inner told0]
    have "fo_published fo = sink_log db sink1" if "durability event = Committed"
    proof -
      have "rs_fallback_session_id ?sink = None"
        using runtime_only_or_committed proj None that by (cases "rs_fallback_session_id ?sink") fastforce+
      then have "sink_log db ?sink = []" by (simp add: sink_log_def)
      with told1 show ?thesis by (auto simp: told_so_far_def)
    qed
    with told1 assms(1) out show ?thesis by simp
  next
    case (Some p)
    show ?thesis
    proof (cases "append_for_sink refused db ownership ?sink p")
      case (Inl e)
      with assms(1,3) proj Some told0 show ?thesis by (auto simp: emit_def Let_def)
    next
      case (Inr x)
      obtain db1 stored where x: "x = (db1, stored)" by fastforce
      let ?sink1 = "?sink\<lparr>rs_next_sequence_no := i64_saturating_succ (re_sequence_no (sb_runtime_event stored))\<rparr>"
      have step: "store_step db db1" using append_for_sink_step Inr x by metis
      have ok1: "log_ok db1" by (rule log_ok_step [OF assms(1) step])
      have "told_so_far db1 ?sink fo" by (rule told_so_far_step [OF assms(1) step told0])
      then have "told_so_far db1 ?sink1 fo" by (rule told_so_far_same) (simp_all add: same_sink_def)
      from publish_catches_up [OF ok1 this, of harness] obtain sink2 fo2 where
        pub: "publish_committed_runtime_events harness db1 ?sink1 fo = (sink2, fo2, Ok ())" "told_so_far db1 sink2 fo2"
        "fo_published fo2 = sink_log db1 sink2" .
      obtain sink3 r3 where inner: "to_inner (in_emit inner) sink2 event = (sink3, r3)" by fastforce
      with assms(3) proj Some Inr x pub(1) have "db' = db1" "sink' = sink3" "fo' = fo2"
        by (auto simp: emit_def Let_def)
      with told_inner [OF inner pub(2)] pub(3) ok1 show ?thesis by simp
    qed
  qed
qed

lemma recording_step_inv: "recording_inv w \<Longrightarrow> recording_step w w' \<Longrightarrow> recording_inv w'"
proof -
  assume "recording_inv w"
  then have ok: "log_ok (rw_db w)" and told: "told_so_far (rw_db w) (rw_sink w) (rw_fan w)"
    by (simp_all add: recording_inv_def)
  assume "recording_step w w'"
  then show "recording_inv w'"
  proof cases
    case (rc_emit read_plan fv refused ownership harness inner event db' sink' fo' r)
    with emit_told [OF ok told] show ?thesis by (simp add: recording_inv_def)
  next
    case (rc_committed harness inner event sink' fo' r)
    with emit_committed_told(1) [OF ok told] ok show ?thesis by (simp add: recording_inv_def)
  next
    case (rc_runtime_only inner event sink' r)
    then have "told_so_far (rw_db w) sink' (rw_fan w)" using told told_inner
      by (fastforce simp: emit_runtime_only_def validate_run_event_durability_def split: if_splits)
    with rc_runtime_only(1) ok show ?thesis by (simp add: recording_inv_def)
  next
    case (rc_reserve sink' n)
    then have "same_sink (rw_sink w) sink' \<and>
        rs_published_runtime_sequence_no sink' = rs_published_runtime_sequence_no (rw_sink w)"
      using sync_same [of "rw_sink w" "rw_db w"]
      by (auto simp: reserve_sequence_no_def Let_def same_sink_def split: if_splits)
    with told_so_far_same [OF told] rc_reserve(1) ok show ?thesis by (simp add: recording_inv_def)
  next
    case (rc_store db')
    with told_so_far_step [OF ok _ told] log_ok_step [OF ok] show ?thesis by (simp add: recording_inv_def)
  next
    case (rc_hub hub)
    with ok told show ?thesis by (simp add: recording_inv_def told_so_far_def)
  qed
qed

lemma recording_init_inv: "recording_init w \<Longrightarrow> recording_inv w"
  by (auto simp: recording_init_def recording_inv_def told_so_far_def new_recording_sink_def marker_of_def
        terminals_def log_ok_reachable)

interpretation recordings: invariant_machine recording_init recording_step recording_inv
  by unfold_locales (auto intro: recording_init_inv recording_step_inv)

section \<open>Replaying a session\<close>

lemma project_page_effects:
  "project_page harness fo report events = (fo', report') \<Longrightarrow>
   fo_published fo' = fo_published fo @ events \<and> fo_terminals fo' = fo_terminals fo @ terminals events \<and>
   pr_event_count report' = foldl sat_add (pr_event_count report) (replicate (length events) 1)"
proof (induction events arbitrary: fo report)
  case (Cons e events)
  then show ?case using project_event_effects [of harness fo e]
    by (fastforce simp: split_beta merge_reports_def terminals_def)
qed (simp add: terminals_def)

lemma sat_count_from: "n \<le> USIZE_MAX \<Longrightarrow> foldl sat_add n (replicate k 1) = min (n + k) USIZE_MAX"
proof (induction k arbitrary: n)
  case (Suc k)
  then show ?case using Suc.IH [of "sat_add n 1"] by (simp add: sat_add_def)
qed simp

lemma sat_count: "foldl sat_add 0 (replicate k 1) = min k USIZE_MAX"
  using sat_count_from [of 0 k] by simp

lemma after_cursor_eq: "after_cursor c rows = filter (\<lambda>r. case c of None \<Rightarrow> True | Some n \<Rightarrow> n < fst r) rows"
  by (simp add: after_cursor_def case_prod_unfold)

lemma rows_after:
  assumes "sorted_wrt (<) (map fst (seen @ rest))"
  shows "after_cursor (last_position seen) (seen @ rest) = rest"
  using after_prefix [of fst seen rest] assms
  by (cases "seen = []") (simp_all add: after_cursor_eq last_position_def)

lemma cursor_rest:
  assumes "after_cursor c all = rows" and "sorted_wrt (<) (map fst rows)" and "rows \<noteq> []"
  shows "after_cursor (last_position (take 200 rows)) all = drop 200 rows"
proof -
  let ?n = "fst (last (take 200 rows))"
  have next_cursor: "last_position (take 200 rows) = Some ?n" using assms(3) by (simp add: last_position_def)
  have "last (take 200 rows) \<in> set (after_cursor c all)"
    using assms(1,3) by (metis in_set_takeD last_in_set take_eq_Nil zero_neq_numeral)
  then have "after_cursor (Some ?n) all = after_cursor (Some ?n) rows"
    unfolding assms(1) [symmetric] by (auto simp: after_cursor_eq split: option.splits intro!: filter_cong)
  also have "\<dots> = drop 200 rows"
    using rows_after [of "take 200 rows" "drop 200 rows"] assms(2) next_cursor by simp
  finally show ?thesis by (simp add: next_cursor)
qed

lemma project_loop_effects:
  assumes inv: "db_inv db" and "after_cursor cursor (event_rows db s) = rows"
  shows "\<exists>fo' report'. project_loop harness db s cursor fo report = (fo', Ok report') \<and>
    fo_published fo' = fo_published fo @ map snd rows \<and> fo_terminals fo' = fo_terminals fo @ terminals (map snd rows) \<and>
    pr_event_count report' = foldl sat_add (pr_event_count report) (replicate (length rows) 1)"
  using assms(2)
proof (induction rows arbitrary: cursor fo report rule: length_induct)
  case (1 rows)
  have sorted: "sorted_wrt (<) (map fst rows)"
    using event_rows_eq(2) [OF inv, of s] 1(2) by (auto simp: after_cursor_def sorted_wrt_map sorted_wrt_filter)
  obtain page where page: "runtime_event_cursor_page_for_session db s cursor MAX_PROTOCOL_PAGE_LIMIT = Ok page"
    using source_count_Ok [OF inv, of EventSource s]
    by (auto simp: runtime_event_cursor_page_for_session_def runtime_event_page_from_connection_def page_of_rows_def
        resolve_page_def MAX_PROTOCOL_PAGE_LIMIT_def read_all_Inr Let_def)
  note shape = cursor_page_shape [OF page, unfolded 1(2)]
  show ?case
  proof (cases "rows = []")
    case True
    with page shape show ?thesis by (subst project_loop.simps) (simp add: terminals_def)
  next
    case False
    obtain fo1 report1 where pg: "project_page harness fo report (map snd (take 200 rows)) = (fo1, report1)" by fastforce
    note eff = project_page_effects [OF pg]
    show ?thesis
    proof (cases "length rows < 200")
      case True
      with eff pg page shape False show ?thesis
        by (subst project_loop.simps) (simp add: MAX_PROTOCOL_PAGE_LIMIT_def)
    next
      case long: False
      let ?next = "last_position (take 200 rows)"
      have "?next \<noteq> cursor"
        using cursor_decreases [of cursor "event_rows db s"] False 1(2) by auto
      then have loop: "project_loop harness db s cursor fo report = project_loop harness db s ?next fo1 report1"
        using pg page shape False long by (subst project_loop.simps) (simp add: MAX_PROTOCOL_PAGE_LIMIT_def)
      have rest: "after_cursor ?next (event_rows db s) = drop 200 rows"
        using cursor_rest [of cursor "event_rows db s" rows] 1(2) sorted False by simp
      from 1(1) [rule_format, OF _ rest, of fo1 report1] False obtain fo' report' where
        out: "project_loop harness db s ?next fo1 report1 = (fo', Ok report')"
        "fo_published fo' = fo_published fo1 @ map snd (drop 200 rows)"
        "fo_terminals fo' = fo_terminals fo1 @ terminals (map snd (drop 200 rows))"
        "pr_event_count report' = foldl sat_add (pr_event_count report1) (replicate (length (drop 200 rows)) 1)" by auto
      have split: "map snd rows = map snd (take 200 rows) @ map snd (drop 200 rows)"
        by (metis append_take_drop_id map_append)
      have count: "replicate (length rows) (1::nat) =
          replicate (length (take 200 rows)) 1 @ replicate (length (drop 200 rows)) 1"
        by (simp flip: replicate_add)
      show ?thesis unfolding loop split count foldl_append using out eff by (simp add: terminals_def)
    qed
  qed
qed

section \<open>Properties\<close>


definition demo_inner :: "unit run_event_sink" where
  "demo_inner = \<lparr>in_emit = (\<lambda>i _. (i, Ok ())), in_emit_committed = (\<lambda>i _. (i, Ok ())),
     in_emit_runtime_only = (\<lambda>i _. (i, Ok ()))\<rparr>"

definition demo_fresh :: fresh_values where
  "demo_fresh = \<lparr>fv_history_item_id = 41, fv_runtime_event_id = 21, fv_turn_item_id = 31, fv_fallback_item_id = 42,
     fv_history_ms = 0, fv_runtime_ms = 0\<rparr>"

definition demo_recording :: "unit recording_world" where
  "demo_recording =
     \<lparr>rw_db = demo_db, rw_sink = (new_recording_sink (Some 0) 0 ())\<lparr>rs_admission_id := None,
        rs_has_publisher := True, rs_has_projector := True\<rparr>,
      rw_fan = \<lparr>fo_hub = new_hub 8, fo_published = [], fo_sent = [], fo_terminals = []\<rparr>\<rparr>"


text \<open>
  C40. Replaying a session after a cursor reaches every observer: on reachable tables it returns without an
  error, having published the events that were appended after the cursor, each once and in the order of
  the appends, with the terminals among them given to the harness, and reports their number.
\<close>

theorem replay_after_cursor_is_complete:
  assumes "store_step\<^sup>*\<^sup>* empty_protocol_db db"
  shows "\<exists>fo' report. project_after_cursor harness db fo s cursor = (fo', Ok report) \<and>
    fo_published fo' = fo_published fo @ map snd (after_cursor cursor (event_rows db s)) \<and>
    fo_terminals fo' = fo_terminals fo @ terminals (map snd (after_cursor cursor (event_rows db s))) \<and>
    pr_event_count report = min (length (after_cursor cursor (event_rows db s))) USIZE_MAX"
  using project_loop_effects [OF stores.reachable_invar [OF refl assms] refl, of harness s cursor fo empty_report]
  unfolding project_after_cursor_def by (simp only: empty_report_def canonical_runtime_projection_report.simps sat_count)

theorem replay_after_cursor_is_complete_witness:
  "\<exists>fo' report. project_after_cursor (\<lambda>_. Err []) demo_db (rw_fan demo_recording) 0 (Some 3) = (fo', Ok report) \<and>
     map re_id (fo_published fo') = [13, 14]"
proof -
  have "map (re_id \<circ> snd) (after_cursor (Some 3) (event_rows demo_db 0)) = [13, 14]" by code_simp
  with replay_after_cursor_is_complete [OF demo_db_reachable, of "\<lambda>_. Err []" "rw_fan demo_recording" 0 "Some 3"]
  show ?thesis by (auto simp: demo_recording_def)
qed

end
