(* ===== verification/Fork_Props.thy ===== *)
theory Fork_Props
  imports Hydration
begin

text \<open>
  What a forked session and a spawned child start from.
\<close>

section \<open>Replaying renamed items\<close>

lemma forked_replaces:
  "compaction_replaces (hi_payload (forked_item new_id target h)) = map_option (map new_id) (compaction_replaces (hi_payload h))"
  by (cases "hi_payload h") (simp_all add: forked_item_def forked_payload_def)

lemma forked_id [simp]: "hi_id (forked_item new_id target h) = new_id (hi_id h)"
  by (simp add: forked_item_def)

lemma apply_committed_forked:
  assumes "inj_on new_id ids" and "hi_id ` set view \<subseteq> ids" and "set (replaced_by (hi_payload h)) \<subseteq> ids"
  shows "apply_committed (map (forked_item new_id target) view) (forked_item new_id target h) =
    map (forked_item new_id target) (apply_committed view h)"
proof (cases "compaction_replaces (hi_payload h)")
  case (Some replaced)
  have same: "new_id (hi_id x) \<notin> new_id ` set replaced \<longleftrightarrow> hi_id x \<notin> set replaced" if "x \<in> set view" for x
    using assms that Some by (auto simp: replaced_by_def inj_on_def)
  have "takeWhile (\<lambda>x. new_id (hi_id x) \<notin> new_id ` set replaced) view = takeWhile (\<lambda>x. hi_id x \<notin> set replaced) view"
    "dropWhile (\<lambda>x. new_id (hi_id x) \<notin> new_id ` set replaced) view = dropWhile (\<lambda>x. hi_id x \<notin> set replaced) view"
    using same by (auto intro: takeWhile_cong dropWhile_cong)
  moreover have "filter (\<lambda>x. new_id (hi_id x) \<notin> new_id ` set replaced) (dropWhile P view) =
      filter (\<lambda>x. hi_id x \<notin> set replaced) (dropWhile P view)" for P
    using same by (intro filter_cong) (auto dest: set_dropWhileD)
  ultimately show ?thesis
    by (simp add: apply_committed_def forked_replaces Some takeWhile_map dropWhile_map filter_map o_def)
qed (simp add: apply_committed_def forked_replaces)

lemma apply_committed_subset: "set (apply_committed view h) \<subseteq> insert h (set view)"
  by (auto simp: apply_committed_def split: option.split dest: set_takeWhileD set_dropWhileD)

lemma committed_items: "set (foldl apply_committed [] items) \<subseteq> set items"
proof (induction items rule: rev_induct)
  case (snoc h items)
  then show ?case using apply_committed_subset [of "foldl apply_committed [] items" h] by auto
qed simp

lemma committed_forked:
  assumes "inj_on new_id (hi_id ` set log)" and "\<forall>h \<in> set log. set (replaced_by (hi_payload h)) \<subseteq> hi_id ` set log"
  shows "set items \<subseteq> set log \<Longrightarrow> foldl apply_committed [] (map (forked_item new_id target) items) =
    map (forked_item new_id target) (foldl apply_committed [] items)"
proof (induction items rule: rev_induct)
  case (snoc h items)
  have "hi_id ` set (foldl apply_committed [] items) \<subseteq> hi_id ` set log"
    using committed_items [of items] snoc.prems by auto
  from apply_committed_forked [OF assms(1) this, of h] assms(2) snoc show ?case by simp
qed simp

lemma replaces_active_forked:
  assumes "inj_on new_id (hi_id ` set log)" and "\<forall>h \<in> set log. set (replaced_by (hi_payload h)) \<subseteq> hi_id ` set log"
    and "replaces_active log"
  shows "replaces_active (map (forked_item new_id target) log)"
  unfolding replaces_active_def
proof (intro allI impI ballI disjI1)
  let ?F = "forked_item new_id target"
  fix n i
  assume n: "n < length (map ?F log)"
    and i: "i \<in> set (case compaction_replaces (hi_payload (map ?F log ! n)) of None \<Rightarrow> [] | Some ids \<Rightarrow> ids)"
  then obtain j where j: "j \<in> set (replaced_by (hi_payload (log ! n)))" "i = new_id j"
    by (auto simp: forked_replaces replaced_by_def split: option.splits)
  have "log ! n \<in> set log" using n by simp
  with assms(2) j(1) have "j \<in> hi_id ` set log" by blast
  with assms(3) n j(1) have "j \<in> hi_id ` set (foldl apply_committed [] (take n log))"
    by (auto simp: replaces_active_def replaced_by_def)
  moreover have "foldl apply_committed [] (take n (map ?F log)) = map ?F (foldl apply_committed [] (take n log))"
    unfolding take_map by (rule committed_forked [OF assms(1,2)]) (rule set_take_subset)
  ultimately show "i \<in> hi_id ` set (foldl apply_committed [] (take n (map ?F log)))" using j(2) by (force simp: image_iff)
qed

section \<open>Contexts of copies\<close>

lemma target_history:
  assumes "copied target hs ts db db'" and "ensure_empty_protocol_target exists_session db target = Ok ()"
  shows "history_of db' target = hs" and "turns_of db' target = ts"
    and "filter (\<lambda>e. re_session_id e = target) (db_events db') = []"
proof -
  note empty = empty_target [OF assms(2)]
  have "history_of db' target = history_of db target @ hs" "turns_of db' target = turns_of db target @ ts"
    using assms(1) by (simp_all add: copied_def filter_id_conv)
  then show "history_of db' target = hs" "turns_of db' target = ts" unfolding empty by simp_all
  show "filter (\<lambda>e. re_session_id e = target) (db_events db') = []" using empty(3) assms(1) by (simp add: copied_def)
qed

lemma hydrate_unwithdrawn:
  assumes "db_inv db" and "replaces_active (history_of db s)" and "\<And>r. r \<in> set (history_rows db s) \<Longrightarrow> \<not> withdrawn db s r"
  obtains cm where "hydrate_context_manager env db s True = Ok cm"
    and "cm_items cm = foldl apply_committed [] (history_of db s)" and "cm_canonical_count cm = length (history_of db s)"
    and "active_view db s = foldl apply_committed [] (history_of db s)"
proof -
  have "filter (\<lambda>r. \<not> withdrawn db s r) (replay (history_rows db s)) = replay (history_rows db s)"
    using assms(3) replay_rows [of "history_rows db s"] by (auto simp: filter_id_conv)
  then have view: "active_view db s = foldl apply_committed [] (history_of db s)"
    using active_view_eq [OF assms(1,2)] replay_committed [of "history_rows db s"]
    by (simp add: history_rows_eq(1) [OF assms(1)])
  from that [OF hydrate_eq [OF assms(1), of env s]] view show ?thesis
    by (simp add: from_active_history_def source_ids_def)
qed

lemma committed_plain: "\<forall>h \<in> set items. replaced_by (hi_payload h) = [] \<Longrightarrow> foldl apply_committed [] items = items"
proof (induction items rule: rev_induct)
  case (snoc h items)
  then have "foldl apply_committed [] items = items" "replaced_by (hi_payload h) = []" by simp_all
  moreover from this(2) have "apply_committed items h = items @ [h]"
    by (auto simp: apply_committed_def replaced_by_def split: option.splits)
  ultimately show ?case by simp
qed simp

lemma replaces_active_plain:
  assumes "\<forall>h \<in> set items. replaced_by (hi_payload h) = []"
  shows "replaces_active items"
  unfolding replaces_active_def
proof (intro allI impI ballI)
  fix n i
  assume "n < length items" "i \<in> set (case compaction_replaces (hi_payload (items ! n)) of None \<Rightarrow> [] | Some ids \<Rightarrow> ids)"
  with assms have False unfolding replaced_by_def by (metis empty_iff empty_set nth_mem)
  then show "i \<in> hi_id ` set (foldl apply_committed [] (take n items)) \<or> i \<notin> hi_id ` set items" ..
qed

lemma context_copy_Some:
  assumes "context_copy finals new_id target h = Some h'"
  shows "replaced_by (hi_payload h') = []" and "\<not> triggers_turn (hi_payload h')"
    and "hi_payload h = AssistantMessage r content \<Longrightarrow> hi_id h \<in> set finals"
  using assms
  by (cases "hi_payload h";
      auto simp: context_copy_def fork_agent_context_payload_def replaced_by_def split: if_splits)+

text \<open>A log that replaces nothing and triggers nothing is its own view.\<close>

lemma standalone_view:
  assumes inv: "db_inv db"
    and plain: "\<And>h. h \<in> set (map snd (history_rows db s)) \<Longrightarrow> replaced_by (hi_payload h) = [] \<and> \<not> triggers_turn (hi_payload h)"
  shows "active_view db s = map snd (history_rows db s)"
proof -
  note eq = history_rows_eq(1) [OF inv, of s]
  have act: "replaces_active (history_of db s)" unfolding eq [symmetric] using plain by (intro replaces_active_plain) blast
  have kept: "\<not> withdrawn db s r" if "r \<in> set (history_rows db s)" for r
    using plain [of "snd r"] that by (simp add: withdrawn_def)
  have "active_view db s = foldl apply_committed [] (history_of db s)" by (rule hydrate_unwithdrawn [OF inv act kept])
  also have "\<dots> = map snd (history_rows db s)" unfolding eq [symmetric] using plain by (intro committed_plain) blast
  finally show ?thesis .
qed

lemma recent_context_shape:
  "case recent_turns of None \<Rightarrow> recent_context recent_turns view = view
   | Some k \<Rightarrow> turn_boundaries (recent_context recent_turns view) = min k (turn_boundaries view) \<and>
       (recent_context recent_turns view = [] \<or> is_boundary (hd (recent_context recent_turns view)))"
proof (cases recent_turns)
  case None
  then show ?thesis by (simp add: recent_context_def)
next
  case (Some k)
  have "recent_context (Some k) view = [] \<or> is_boundary (hd (recent_context (Some k) view))"
    using recent_context_starts [of k view] by (cases "recent_context (Some k) view") simp_all
  with recent_context_boundaries [of k view] Some show ?thesis by simp
qed

section \<open>A session to fork\<close>

definition answered_log :: "(runtime_event \<times> history_item option \<times> turn_item option) list" where
  "answered_log =
     [(stored_demo_event 11 (MsgWarning []), Some (demo_item 1 (UserTurn [] None None)), None),
      (stored_demo_event 12 (MsgWarning []), Some (demo_item 2 (AssistantMessage 5 [CText (lit ''ok'')])), None),
      (stored_demo_event 13 (MsgTurnTerminal \<lparr>dt_outcome = TerminalCompleted, dt_final_response_id = None,
         dt_tool_call_count = 0, dt_failed_tool_count = 0, dt_change_count = 0, dt_metrics = 0\<rparr>), None, None),
      (stored_demo_event 14 (MsgWarning []),
         Some (demo_item 3 (Compaction Automatic LegacyPrefix [] None [] [1])), None)]"

definition answered_db :: protocol_db where
  "answered_db = (case write_bundles empty_protocol_db answered_log of Inl _ \<Rightarrow> empty_protocol_db | Inr db \<Rightarrow> db)"

lemma answered_db_reachable: "store_step\<^sup>*\<^sup>* empty_protocol_db answered_db"
  using write_bundles_steps by (auto simp: answered_db_def split: sum.split)

abbreviation demo_fork :: "(protocol_db \<times> nat \<times> nat, storage_error) result" where
  "demo_fork \<equiv> fork_canonical_items_in_transaction (\<lambda>_. False) (\<lambda>_. True) (\<lambda>i. i + 100) (\<lambda>i. i + 200) answered_db 0 7"

abbreviation demo_spawn :: "(protocol_db \<times> nat, storage_error) result" where
  "demo_spawn \<equiv> fork_agent_context_in_transaction_for_spawn (\<lambda>_. False) (\<lambda>_. True) (\<lambda>i. i + 100) answered_db 0 7 (Some 1)"

section \<open>Properties\<close>

text \<open>
  C32. Forking a session. A fork that succeeds gives the target the whole log of the source, item for
  item and in order: identities are new and differ, the lists of what a compaction replaced are renamed with
  them, turn items are copied as they are read, and runtime events are not copied. Every other session reads
  as before, the counts are returned, and the tables keep passing the ownership check.
\<close>

theorem fork_copies_the_log:
  assumes "store_step\<^sup>*\<^sup>* empty_protocol_db db"
    and "fork_canonical_items_in_transaction refused exists_session new_id new_turn_item_id db source target = Ok (db', n, m)"
  shows "map snd (history_rows db' target) = map (forked_item new_id target) (map snd (history_rows db source)) \<and>
    map snd (turn_rows db' target) =
      map (forked_turn_item new_id new_turn_item_id target) (map (shown_turn_item db) (map snd (turn_rows db source))) \<and>
    event_rows db' target = [] \<and> n = length (history_rows db source) \<and> m = length (turn_rows db source) \<and>
    inj_on new_id (row_id ` set (history_rows db source)) \<and>
    (\<forall>s. s \<noteq> target \<longrightarrow> history_rows db' s = history_rows db s \<and> turn_rows db' s = turn_rows db s \<and>
       event_rows db' s = event_rows db s) \<and>
    (\<forall>s. \<forall>kind \<in> {EventSource, HistorySource, TurnSource}.
       protocol_source_count db' s kind = Ok (length (source_ids db' kind s)))"
proof -
  have inv: "db_inv db" using assms(1) by (rule stores.reachable_invar [OF refl])
  note f = fork_canonical_effects [OF assms(2) inv]
  note target = target_history [OF f(3,8)]
  have h: "map snd (history_rows db' target) = map (forked_item new_id target) (map snd (history_rows db source))"
    unfolding history_rows_eq(1) [OF inv] history_rows_eq(1) [OF f(1)] by (rule target(1))
  have t: "map snd (turn_rows db' target) =
      map (forked_turn_item new_id new_turn_item_id target) (map (shown_turn_item db) (map snd (turn_rows db source)))"
    unfolding turn_rows_eq(1) [OF inv] turn_rows_eq(1) [OF f(1)] map_map by (rule target(2))
  have "map snd (event_rows db' target) = []" unfolding event_rows_eq(1) [OF f(1)] by (rule target(3))
  then have e: "event_rows db' target = []" by simp
  have n: "n = length (history_rows db source)" using f(4) history_rows_eq(1) [OF inv, of source] by (metis length_map)
  have m: "m = length (turn_rows db source)" using f(5) turn_rows_eq(1) [OF inv, of source] by (metis length_map)
  have "row_id ` set (history_rows db source) = hi_id ` set (map snd (history_rows db source))" by (simp add: image_image)
  then have i: "inj_on new_id (row_id ` set (history_rows db source))" using f(6) unfolding history_rows_eq(1) [OF inv] by simp
  have c: "protocol_source_count db' s kind = Ok (length (source_ids db' kind s))"
    if "kind \<in> {EventSource, HistorySource, TurnSource}" for s kind
    using that by (intro source_count_Ok [OF f(1)]) auto
  show ?thesis using h t e n m i c copied_rows [OF f(3) _ inv f(1)] by blast
qed

theorem fork_copies_the_log_witness:
  "\<exists>db'. demo_fork = Ok (db', 3, 0) \<and> length (history_rows db' 7) = 3 \<and> event_rows db' 7 = [] \<and>
     history_rows db' 0 = history_rows answered_db 0"
proof -
  have "(case demo_fork of Inl _ \<Rightarrow> False | Inr (_, n, m) \<Rightarrow> n = 3 \<and> m = 0)" by code_simp
  then obtain db' where fork: "demo_fork = Ok (db', 3, 0)" by (auto split: sum.splits)
  have "length (history_rows answered_db 0) = 3" by code_simp
  with fork_copies_the_log [OF answered_db_reachable fork] fork show ?thesis
    by (metis length_map zero_neq_numeral)
qed

text \<open>
  C33. A forked session continues where the source was. If every compaction of the source replaced items
  that were active when it was committed, and no stop of the agent tree covers the new session, its context
  is the replay of the log of the source with the identities renamed; if no stop withdrew anything of the source
  either, it is the context of the source, renamed.
\<close>

theorem forked_session_hydrates_alike:
  assumes "store_step\<^sup>*\<^sup>* empty_protocol_db db"
    and "fork_canonical_items_in_transaction refused exists_session new_id new_turn_item_id db source target = Ok (db', n, m)"
    and "replaces_active (filter (\<lambda>h. hi_session_id h = source) (db_history db))"
    and "list_all (\<lambda>fence. target \<notin> set (fenced_scope db fence)) (db_fences db)"
  shows "\<exists>cm. hydrate_context_manager env db' target True = Ok cm \<and>
    cm_items cm = map (forked_item new_id target) (map snd (replay (history_rows db source))) \<and>
    cm_canonical_count cm = n \<and>
    (list_all (\<lambda>r. \<not> withdrawn db source r) (history_rows db source) \<longrightarrow>
      (\<exists>original. hydrate_context_manager env db source True = Ok original \<and>
         cm_items cm = map (forked_item new_id target) (cm_items original)))"
proof -
  have inv: "db_inv db" using assms(1) by (rule stores.reachable_invar [OF refl])
  note f = fork_canonical_effects [OF assms(2) inv]
  let ?log = "history_of db source" and ?F = "forked_item new_id target"
  have log: "history_of db' target = map ?F ?log" by (rule target_history(1) [OF f(3,8)])
  have act: "replaces_active (history_of db' target)" unfolding log by (rule replaces_active_forked [OF f(6,7) assms(3)])
  have "fenced_scope db' = fenced_scope db" "db_fences db' = db_fences db"
    using f(3) by (simp_all add: copied_def fenced_scope_def fun_eq_iff)
  with assms(4) have "\<not> withdrawn db' target r" for r by (simp add: withdrawn_def list_ex_iff list_all_iff)
  from hydrate_unwithdrawn [OF f(1) act this, of env] obtain cm where cm:
    "hydrate_context_manager env db' target True = Ok cm" "cm_items cm = foldl apply_committed [] (map ?F ?log)"
    "cm_canonical_count cm = n" unfolding log f(4) by auto
  have items: "cm_items cm = map ?F (foldl apply_committed [] ?log)"
    unfolding cm(2) by (rule committed_forked [OF f(6,7) order_refl])
  moreover have "map snd (replay (history_rows db source)) = foldl apply_committed [] ?log"
    unfolding replay_committed history_rows_eq(1) [OF inv] ..
  moreover have "\<exists>original. hydrate_context_manager env db source True = Ok original \<and> cm_items cm = map ?F (cm_items original)"
    if "list_all (\<lambda>r. \<not> withdrawn db source r) (history_rows db source)"
    using hydrate_unwithdrawn [OF inv assms(3), of env] that items unfolding list_all_iff by metis
  ultimately show ?thesis using cm(1,3) by auto
qed

theorem forked_session_hydrates_alike_witness:
  "\<exists>db' cm. demo_fork = Ok (db', 3, 0) \<and> hydrate_context_manager demo_env db' 7 True = Ok cm \<and>
     map hi_id (cm_items cm) = [103, 102]"
proof -
  have "(case demo_fork of Inl _ \<Rightarrow> False | Inr (_, n, m) \<Rightarrow> n = 3 \<and> m = 0)" by code_simp
  then obtain db' where fork: "demo_fork = Ok (db', 3, 0)" by (auto split: sum.splits)
  have "replaces_active (filter (\<lambda>h. hi_session_id h = 0) (db_history answered_db))" by code_simp
  moreover have "list_all (\<lambda>fence. 7 \<notin> set (fenced_scope answered_db fence)) (db_fences answered_db)" by code_simp
  ultimately obtain cm where "hydrate_context_manager demo_env db' 7 True = Ok cm"
    "cm_items cm = map (forked_item (\<lambda>i. i + 100) 7) (map snd (replay (history_rows answered_db 0)))"
    using forked_session_hydrates_alike [OF answered_db_reachable fork, of demo_env] by blast
  moreover have "map hi_id (map (forked_item (\<lambda>i. i + 100) 7) (map snd (replay (history_rows answered_db 0)))) = [103, 102]"
    by code_simp
  ultimately show ?thesis using fork by metis
qed

text \<open>
  C34. The context of a spawned child. A child that is spawned with the context of its parent starts with a
  log of its own: the end of the parent's active view, from the boundary that leaves the requested number of
  turns (all of it if none is requested), less everything that is not context. Of assistant messages it has final answers only: the one
  text of the last response of a turn that completed, where that response called no tool. The copy stands alone:
  its active view is the whole log of the child. Nothing of another session changes.
\<close>

theorem child_starts_from_recent_answers:
  assumes "store_step\<^sup>*\<^sup>* empty_protocol_db db"
    and "fork_agent_context_in_transaction_for_spawn refused exists_session new_id db source target recent_turns = Ok (db', n)"
  shows "\<exists>finals given.
    suffix given (active_view db source) \<and>
    (case recent_turns of
       None \<Rightarrow> given = active_view db source
     | Some k \<Rightarrow> turn_boundaries given = min k (turn_boundaries (active_view db source)) \<and> (given = [] \<or> is_boundary (hd given))) \<and>
    map snd (history_rows db' target) = List.map_filter (context_copy finals new_id target) given \<and>
    n = length (history_rows db' target) \<and> active_view db' target = map snd (history_rows db' target) \<and>
    (\<forall>h r content. h \<in> set given \<and> hi_payload h = AssistantMessage r content \<and>
       context_copy finals new_id target h \<noteq> None \<longrightarrow> is_final_answer db source h) \<and>
    event_rows db' target = [] \<and> turn_rows db' target = [] \<and>
    (\<forall>s. s \<noteq> target \<longrightarrow> history_rows db' s = history_rows db s \<and> turn_rows db' s = turn_rows db s \<and>
       event_rows db' s = event_rows db s)"
proof -
  have inv: "db_inv db" using assms(1) by (rule stores.reachable_invar [OF refl])
  from assms(2) have "fork_agent_context_in_transaction refused exists_session new_id db source target None recent_turns = Ok (db', n)"
    by (auto simp: fork_agent_context_in_transaction_for_spawn_def split: if_splits)
  from fork_agent_effects [OF this inv] obtain finals where
    finals: "final_answer_history_item_ids_for_turns db source
      (fst (foldl collect_assistant_turns ([], 0) (active_view db source))) = Ok finals"
    and f: "db_inv db'" "copied target (List.map_filter (context_copy finals new_id target)
      (recent_context recent_turns (active_view db source))) [] db db'"
    "n = length (List.map_filter (context_copy finals new_id target) (recent_context recent_turns (active_view db source)))"
    "ensure_empty_protocol_target exists_session db target = Ok ()" by blast
  let ?given = "recent_context recent_turns (active_view db source)"
  let ?copies = "List.map_filter (context_copy finals new_id target) ?given"
  note target = target_history [OF f(2,4)]
  have h: "map snd (history_rows db' target) = ?copies" unfolding history_rows_eq(1) [OF f(1)] by (rule target(1))
  have n: "n = length (history_rows db' target)" using f(3) h by (metis length_map)
  have plain: "replaced_by (hi_payload c) = [] \<and> \<not> triggers_turn (hi_payload c)" if "c \<in> set ?copies" for c
    using map_filter_mem [OF that] context_copy_Some(1,2) by blast
  have view: "active_view db' target = map snd (history_rows db' target)"
    by (rule standalone_view [OF f(1) plain]) (unfold h)
  have final: "is_final_answer db source h"
    if "h \<in> set ?given" "hi_payload h = AssistantMessage r content" "context_copy finals new_id target h \<noteq> None" for h r content
  proof -
    have "h \<in> set (history_of db source)"
      using that(1) set_mono_suffix [OF recent_context_suffix] active_view_items [OF inv] by blast
    then show ?thesis using that(2,3) context_copy_Some(3) by (intro final_answers_Ok [OF inv finals]) blast+
  qed
  have rest: "event_rows db' target = []" "turn_rows db' target = []"
    using event_rows_eq(1) [OF f(1), of target] turn_rows_eq(1) [OF f(1), of target] target(2,3) by simp_all
  show ?thesis
    by (intro exI [of _ finals] exI [of _ ?given] conjI recent_context_suffix recent_context_shape h n view rest)
      (use final copied_rows [OF f(2) _ inv f(1)] in blast)+
qed

theorem child_starts_from_recent_answers_witness:
  "\<exists>db'. demo_spawn = Ok (db', 2) \<and> map (hi_id \<circ> snd) (history_rows db' 7) = [103, 102] \<and>
     active_view db' 7 = map snd (history_rows db' 7) \<and> turn_rows db' 7 = []"
proof -
  have "(case demo_spawn of Inl _ \<Rightarrow> False
      | Inr (db', n) \<Rightarrow> n = 2 \<and> map (hi_id \<circ> snd) (history_rows db' 7) = [103, 102])" by code_simp
  then obtain db' where spawn: "demo_spawn = Ok (db', 2)" "map (hi_id \<circ> snd) (history_rows db' 7) = [103, 102]"
    by (auto split: sum.splits)
  have alone: "active_view db' 7 = map snd (history_rows db' 7) \<and> turn_rows db' 7 = []"
    using child_starts_from_recent_answers [OF answered_db_reachable spawn(1)]
    by (elim exE conjE) (intro conjI; assumption)
  show ?thesis by (intro exI [of _ db'] conjI spawn alone [THEN conjunct1] alone [THEN conjunct2])
qed

end
