(* ===== verification/Spec2Isabelle.thy ===== *)
theory Spec2Isabelle
  imports Root_Admission Run_Control Patch_Roundtrip Patch_Text Agent_Mailbox Tool_Output
    Context_Props Responses_Props Active_Runs Recording_Props Fork_Props
begin

text \<open>
  \<^bold>\<open>A verification of the core of moyAI\<close>

  moyAI is a coding agent: a surface (terminal, desktop, network) starts runs, a run drives a
  model that calls tools, tools edit files and spawn further agents, and everything that must
  survive is committed to a database. This development models the parts of the program (all
  under \<open>src/src/\<close>) that decide what may happen: how a run ends, which turns of the root are
  admitted, how agents of one tree are scheduled, stopped and woken, how a patch changes a file,
  what of a conversation the model is shown and when it is compacted, how the model's streamed
  response is read, how much of a tool's output is kept, and how the log of a session is written and
  read back.

  \<^bold>\<open>Components and theories\<close>

  \<^item> \<open>Prelude\<close>: Rust's scalar types, \<open>Result\<close> with the \<open>?\<close> operator, hash maps as association
    lists with distinct keys, and the locale \<open>invariant_machine\<close> of a state machine with an
    invariant; it is interpreted for every stateful component below.
  \<^item> \<open>runtime/cancel.rs\<close>. \<open>Run_Classification\<close> has the states of a run and every transition of
    \<open>RunControl\<close> on them, with the locale \<open>reservation\<close> for the four kinds of reservations;
    \<open>Root_Admission\<close> the admission plans, guards and the Stop seal; \<open>Run_Control\<close> the whole
    \<open>RunControl\<close> record, linked cancellation, reservations as callers use them and the routing
    of terminal transitions, and the machines over them.
  \<^item> \<open>edit/patch.rs\<close>. \<open>Rust_Text\<close> has the functions of \<open>str\<close> that the code uses; \<open>Patch_Parser\<close>
    the parser of the patch language, \<open>Patch_Apply\<close> the application of hunks, \<open>Patch_Search\<close> the
    search for lines (locale \<open>line_matcher\<close>, interpreted for each of the four matchers),
    \<open>Patch_Correct\<close> and \<open>Patch_Text\<close> what applying a patch does to a text, \<open>Patch_Roundtrip\<close> the
    printer of patches and the round trip through the parser.
  \<^item> \<open>runtime/agent_control.rs\<close>. \<open>Agent_Path\<close> has the paths of agents, \<open>Agent_State\<close> the record of
    a tree and the functions under its registry lock, \<open>Agent_Ops\<close> the operations of
    \<open>AgentControl\<close> on executions, \<open>Agent_Mail\<close> those on mailboxes. \<open>Agent_Inv\<close> states the
    invariant \<open>tree_inv\<close> and the four ways a tree changes; \<open>Agent_Sched\<close> specifies the
    scheduler; \<open>Agent_Keep\<close> and \<open>Agent_Keep_Mail\<close> show operation by operation that each returns
    and keeps the invariant; \<open>Agent_Machine\<close> assembles them into a step relation and shows that
    execution markers are never reused; \<open>Agent_Props\<close>, \<open>Agent_Routing\<close> and \<open>Agent_Mailbox\<close> have
    the properties, \<open>Agent_Routing\<close> also the locale \<open>terminal_route\<close>, the interface that a run
    control relies on and the tree provides.
  \<^item> \<open>tool/truncate.rs\<close>. \<open>Text_Clip\<close> has byte lengths, character boundaries and the clipping of
    texts; \<open>Tool_Output\<close> the bounded reading of a pipe and the preview of a tool's output, which
    spools what it does not show.
  \<^item> \<open>context/context_window.rs\<close> and the data of \<open>llm/contract.rs\<close>. \<open>Model_Message\<close> has the messages
    of a request, JSON values and saturating machine arithmetic; \<open>Context_Window\<close> the estimates
    of tokens, the status of the window and the budgets of a compaction.
  \<^item> \<open>protocol/mod.rs\<close> and \<open>protocol/clm_checkpoint.rs\<close>. \<open>History\<close> has the items of a history with
    their payloads and the envelope of an event; \<open>Clm_Checkpoint\<close> the persisted conversations.
  \<^item> \<open>agent/compaction.rs\<close>. \<open>Source_Records\<close> has the text of a compaction checkpoint, its frame of
    source records, and the projection of older frames.
  \<^item> \<open>agent/context_manager.rs\<close>. \<open>Tool_Projection\<close> has what the model sees of a tool's output,
    \<open>Compaction_Units\<close> the semantic units of a history, \<open>Message_Projection\<close> the messages of a
    history, \<open>Context_Manager\<close> the manager itself with its token state; \<open>Projection_Pairs\<close> shows
    that calls and results are projected together, and \<open>Context_Props\<close> the properties of the
    manager.
  \<^item> \<open>llm/responses.rs\<close>. \<open>Responses_Text\<close> has the text of streamed messages, the fields of events and
    the identities of output items; \<open>Responses_Stream\<close> the accumulator and its handlers, of which
    an error keeps the state it leaves behind; \<open>Responses_Inv\<close> its invariant and the locale
    \<open>method_logic\<close>, rules for methods that may fail, interpreted as \<open>stream\<close>; \<open>Responses_Keep\<close> and
    \<open>Responses_Push\<close> show handler by handler that the invariant is kept; \<open>Responses_Props\<close> has the
    properties. The parser of JSON is the parameter \<open>from_str\<close>.

  \<^item> \<open>runtime/active_run.rs\<close>. \<open>Active_Runs\<close> has the registry of active runs and their leases, over the run
    controls of \<open>Run_Control\<close>, and its machine.
  \<^item> \<open>session/model.rs\<close>, \<open>protocol/projection.rs\<close>, \<open>tool/contract.rs\<close>. \<open>Run_Events\<close> has the events of a run,
    which of them are durable, and the runtime event, history item and turn item each is projected onto.
  \<^item> \<open>protocol/store.rs\<close>. \<open>Protocol_Store\<close> has the tables and the statements that write them,
    \<open>Protocol_Pages\<close> those that read pages and traverse a history, \<open>Protocol_Inv\<close> the invariant of the
    tables; \<open>Active_History\<close> the statement that selects the active view, the
    keyset pages over it and the hydration of a context (\<open>context_manager\<close> of \<open>app/run_service.rs\<close>).
    \<open>Active_Replay\<close> shows what the pages contain, \<open>Log_Replay\<close> that the view computed from positions
    is the replay of the log, \<open>Hydration\<close> has the properties. \<open>Protocol_Forks\<close> has the copies of a log
    into another session (a fork, the import of a shared log, the context of a spawned child),
    \<open>Fork_Keep\<close> shows that a page of copies keeps the invariant, \<open>Fork_Effects\<close> and \<open>Context_Forks\<close>
    what is copied, and \<open>Fork_Props\<close> has the properties. \<open>Protocol_Machine\<close> has the machine \<open>stores\<close>, all
    writes in any order.
  \<^item> \<open>runtime/event_bus.rs\<close> and \<open>protocol/recording.rs\<close>. \<open>Event_Hub\<close> has the hub of live events, its
    subscriptions and its machine; \<open>Event_Recording\<close> the sink that records the events of a run and the
    projector that replays them; \<open>Recording_Props\<close> the locale \<open>event_log\<close>, what publishing needs of a store,
    its interpretation \<open>turn_log\<close> on the protocol store, and the machine of a sink among other writers.

  \<^bold>\<open>How the code is read\<close>

  \<^item> A method that takes a lock is one step; a method that releases it in between is split into
    its locked phases, so that every interleaving of callers is a sequence of steps. Poisoned
    locks do not occur.
  \<^item> Outside of the protocol store, results of the database are arguments: an operation takes the result of
    its durable commit or read, and every property holds for every result. The tables of the protocol
    store are lists of rows, its statements functions on them; constraints and triggers that
    the model does not list are the arbitrary predicate \<open>refused\<close>.
  \<^item> Library functions that are not part of the program (printing and reading JSON, SHA-256,
    base64, the text of identities) are fields of the record \<open>host_env\<close>, an argument of the
    definitions that use them. What a property needs of them is a named predicate among its
    hypotheses: \<open>quotes_empty\<close> (an empty text is printed as two quotation marks),
    \<open>inj (env_id_str env)\<close> (identities print differently) and \<open>prints_cards\<close> (a printed card is
    read back). \<open>demo_env\<close> is a concrete instance, which the witnesses use. Of a history the
    properties ask what its store provides: \<open>valid_snapshots\<close> and \<open>calls_precede_outputs\<close>.
  \<^item> Objects compared by identity (\<open>Arc\<close>, run controls, routers) are numbers from a counter; run
    controls shared by several owners live in a heap.
  \<^item> An error is a value of the source's error type. Where the source would panic or wait for a
    lock its caller holds, an operation is \<open>None\<close>; the properties show that this does not happen.
  \<^item> Machine integers whose overflow the source handles are words (generations, epochs, spawn
    orders, admission revisions), and token counts are natural numbers with the saturation of
    \<open>usize\<close> and \<open>u32\<close> written out; lengths and counts are natural numbers. No definition needs
    fuel: loops recurse on their input or have a termination measure.

  \<^bold>\<open>What is shown\<close>

  \<^item> Runs: a final classification stays final in every interleaving, an observed cancellation has
    a cause, the first cause of a reservation is the one published, an external effect is
    admitted only if no stop arrived, a linked cancellation is all or nothing.
  \<^item> Root admission: a Stop covers every admission, learns each settlement, is final once
    committed, and a guard settles its own plan exactly once.
  \<^item> Patches: the parser accepts exactly the well-formed patches and reads back what is printed; a
    hunk replaces the first best match and nothing else; text outside of changed lines is kept
    byte for byte, line endings included; applying never panics.
  \<^item> Agent trees: reachable trees are consistent and within their limits, every operation
    returns, the scheduler is fair and work conserving, leases are good for one completion, stops
    reach the right turn, mail is queued once, a deferred wake is not lost, spawning is all or
    nothing in memory.
  \<^item> Tool output: a preview and its spool lose nothing of the output; what the model is shown is
    defined for every tool and bounded.
  \<^item> Context: ingesting a log in pages or at once gives the same context, which is the replay of
    the log; a compaction takes whole responses and spares the newest inputs and the newest
    response; a projected call has its result and a result its call; the estimate of the window
    is conservative; what is kept of the user's messages fits its budget; a checkpoint is read
    back as it was written and holds settled conversations only; projecting a checkpoint twice
    changes nothing.
  \<^item> Streamed responses: text is delivered once and in order, a tool call is announced once with
    bounded arguments, a refused event changes nothing and no event panics, and a response that
    completes accounts for everything that was streamed.
  \<^item> Active runs: a session has one active run with one owner, and a Stop reaches the turn it names or
    none.
  \<^item> The protocol store: bundles are appended under fresh sequence numbers and keep the order of
    appends consistent; the traversal of a history gives every item of the active view once and in
    order; a context rebuilt from the store is the one a live context has; a fork copies the log under
    new identities and continues where its source was; a child starts from final answers only; copies leave
    other sessions alone.
  \<^item> Live events: observers are told the committed events of a turn once each, in order, never before they
    are stored, and completely; a subscriber sees backfill and live events without repetition.

  \<^bold>\<open>What is not modelled\<close>

  Everything that is input and output: the surfaces, the network, the model clients, the engine of the
  database and the repositories other than the protocol store, the file system and processes behind the tools.
  Of the protocol store, reports on descendants, usage totals and user authority are not modelled; an
  imported archive is taken to have sequence numbers below the largest. The asynchronous waits of the modelled
  components are modelled as one poll of their loop. Tracing and log output have no counterpart.
\<close>

end
